(* ===== verification/Fs0_Prelude.thy ===== *)
theory Fs0_Prelude
  imports
    Main
    "HOL-Library.Word"
    "HOL-Library.AList"
    "HOL-Library.Char_ord"
    "HOL-Library.List_Lexorder"
begin

text \<open>
  The prelude of the development: machine integers and the checked operations of Rust's
  standard library on them, results as sums, the error-and-state computations in which the
  database layers are written, string searching and splitting as in \<^verbatim>\<open>std::str\<close>, and the
  collections of rewrite rules the component theories share.
\<close>

section \<open>Machine integers\<close>

type_synonym u8 = "8 word"
type_synonym u16 = "16 word"
type_synonym u32 = "32 word"
type_synonym u64 = "64 word"

text \<open>An \<open>i64\<close> is the same 64 bits read in two's complement (\<open>sint\<close>).\<close>

type_synonym i64 = "64 word"

definition checked_add :: "u64 \<Rightarrow> u64 \<Rightarrow> u64 option" where
  "checked_add a b = (if unat a + unat b < 2 ^ 64 then Some (a + b) else None)"

definition checked_mul :: "u64 \<Rightarrow> u64 \<Rightarrow> u64 option" where
  "checked_mul a b = (if unat a * unat b < 2 ^ 64 then Some (a * b) else None)"

definition saturating_add :: "u64 \<Rightarrow> u64 \<Rightarrow> u64" where
  "saturating_add a b = (if unat a + unat b < 2 ^ 64 then a + b else - 1)"

definition saturating_sub :: "u64 \<Rightarrow> u64 \<Rightarrow> u64" where
  "saturating_sub a b = (if b \<le> a then a - b else 0)"

text \<open>\<open>u64::div_ceil\<close>: the quotient, plus one when the remainder is not zero.\<close>

definition div_ceil :: "u64 \<Rightarrow> u64 \<Rightarrow> u64" where
  "div_ceil a b = (if a mod b = 0 then a div b else a div b + 1)"

text \<open>The non-negative \<open>i64\<close> values, which are those an SQLite \<open>INTEGER\<close> column and a
  \<open>u64\<close> have in common.\<close>

definition fits_i64 :: "u64 \<Rightarrow> bool" where
  "fits_i64 v \<longleftrightarrow> unat v < 2 ^ 63"

text \<open>Code equations that compute with binary integers, so that concrete states evaluate quickly.\<close>

lemma nat_less_int: "(n :: nat) < m \<longleftrightarrow> int n < int m"
  by simp

lemma checked_add_code [code]: "checked_add a b = (if uint a + uint b < 2 ^ 64 then Some (a + b) else None)"
  unfolding checked_add_def nat_less_int by (simp only: of_nat_add of_nat_power of_nat_numeral uint_nat)

lemma checked_mul_code [code]: "checked_mul a b = (if uint a * uint b < 2 ^ 64 then Some (a * b) else None)"
  unfolding checked_mul_def nat_less_int by (simp only: of_nat_mult of_nat_power of_nat_numeral uint_nat)

lemma saturating_add_code [code]: "saturating_add a b = (if uint a + uint b < 2 ^ 64 then a + b else - 1)"
  unfolding saturating_add_def nat_less_int by (simp only: of_nat_add of_nat_power of_nat_numeral uint_nat)

lemma fits_i64_code [code]: "fits_i64 v \<longleftrightarrow> uint v < 2 ^ 63"
  unfolding fits_i64_def nat_less_int by (simp only: of_nat_power of_nat_numeral uint_nat)

lemma unat_add_no_overflow:
  "unat a + unat b < 2 ^ 64 \<Longrightarrow> unat (a + b :: u64) = unat a + unat b"
  by (simp add: unat_word_ariths)

lemma unat_mult_no_overflow:
  "unat a * unat b < 2 ^ 64 \<Longrightarrow> unat (a * b :: u64) = unat a * unat b"
  by (simp add: unat_word_ariths)

lemma checked_add_Some_iff:
  "checked_add a b = Some c \<longleftrightarrow> unat a + unat b < 2 ^ 64 \<and> c = a + b"
  by (auto simp: checked_add_def)

lemma checked_add_SomeD: "checked_add a b = Some c \<Longrightarrow> unat c = unat a + unat b"
  by (auto simp: checked_add_def unat_word_ariths split: if_splits)

lemma checked_mul_SomeD: "checked_mul a b = Some c \<Longrightarrow> unat c = unat a * unat b"
  by (auto simp: checked_mul_def unat_word_ariths split: if_splits)

lemma unat_saturating_sub: "unat (saturating_sub a b) = unat a - unat b"
  by (auto simp: saturating_sub_def word_le_nat_alt unat_sub_if')

lemma unat_lt_2_64: "unat (a :: u64) < 2 ^ 64"
  using unsigned_less [of a, where 'a = nat] by simp

lemma unat_div_ceil:
  assumes "0 < unat b"
  shows "unat (div_ceil a b) = (unat a + unat b - 1) div unat b"
proof -
  have ab: "unat a = unat b * (unat a div unat b) + unat a mod unat b"
    by simp
  have qlt: "unat a div unat b < 2 ^ 64"
    using unat_lt_2_64 [of a] div_le_dividend le_less_trans by blast
  show ?thesis
  proof (cases "unat a mod unat b = 0")
    case True
    then have "a mod b = 0"
      by (metis unat_mod unat_eq_zero)
    moreover have "(unat a + unat b - 1) div unat b = unat a div unat b"
    proof -
      from True obtain k where k: "unat a = unat b * k" by auto
      have "unat a + unat b - 1 = (unat b - 1) + k * unat b"
        using assms k by (simp add: mult.commute)
      then have "(unat a + unat b - 1) div unat b = (unat b - 1) div unat b + k"
        using assms by (simp only: div_mult_self1)
      then show ?thesis using assms k by simp
    qed
    ultimately show ?thesis by (simp add: div_ceil_def unat_div)
  next
    case False
    then have "a mod b \<noteq> 0"
      by (metis unat_mod unat_0)
    have "(unat a + unat b - 1) div unat b = unat a div unat b + 1"
    proof -
      define r where "r = unat a mod unat b"
      have r: "0 < r" "r < unat b" using False assms by (simp_all add: r_def)
      have "unat a + unat b - 1 = (r - 1) + (unat a div unat b + 1) * unat b"
        using r ab unfolding r_def [symmetric]
        by (simp add: algebra_simps)
      then have "(unat a + unat b - 1) div unat b = (r - 1) div unat b + (unat a div unat b + 1)"
        using assms by (simp only: div_mult_self1)
      then show ?thesis using r by simp
    qed
    moreover have "unat (a div b + 1) = unat a div unat b + 1"
    proof -
      have "unat b \<noteq> 1" using False by auto
      then have "1 < unat b" using assms by simp
      then have "unat a div unat b + 1 < 2 ^ 64"
      proof (cases "unat a = 0")
        case False
        then have "unat a div unat b < unat a" using \<open>1 < unat b\<close> by simp
        then show ?thesis using unat_lt_2_64 [of a] by simp
      qed simp
      then show ?thesis by (simp add: unat_word_ariths unat_div)
    qed
    ultimately show ?thesis using \<open>a mod b \<noteq> 0\<close> by (simp add: div_ceil_def)
  qed
qed

section \<open>Results and error-and-state computations\<close>

text \<open>\<open>Result::and_then\<close>, which is also what the operator \<open>?\<close> does in a function that returns a
  result: \<open>Inl\<close> is the error and \<open>Inr\<close> the value.\<close>

definition res_bind :: "'e + 'a \<Rightarrow> ('a \<Rightarrow> 'e + 'b) \<Rightarrow> 'e + 'b" where
  "res_bind r f = (case r of Inl e \<Rightarrow> Inl e | Inr x \<Rightarrow> f x)"

definition ok_or :: "'e \<Rightarrow> 'a option \<Rightarrow> 'e + 'a" where
  "ok_or e x = (case x of None \<Rightarrow> Inl e | Some y \<Rightarrow> Inr y)"

lemma res_bind_simps [simp]:
  "res_bind (Inl e) f = Inl e"
  "res_bind (Inr x) f = f x"
  by (simp_all add: res_bind_def)

lemma res_bind_Inr_iff: "res_bind r f = Inr y \<longleftrightarrow> (\<exists>x. r = Inr x \<and> f x = Inr y)"
  by (cases r) simp_all

lemma res_bind_Inl_iff:
  "res_bind r f = Inl e \<longleftrightarrow> r = Inl e \<or> (\<exists>x. r = Inr x \<and> f x = Inl e)"
  by (cases r) simp_all

lemma ok_or_simps [simp]:
  "ok_or e None = Inl e"
  "ok_or e (Some x) = Inr x"
  by (simp_all add: ok_or_def)

lemma ok_or_Inr_iff [simp]: "ok_or e x = Inr y \<longleftrightarrow> x = Some y"
  by (cases x) simp_all

lemma ok_or_Inl_iff [simp]: "ok_or e x = Inl e' \<longleftrightarrow> x = None \<and> e' = e"
  by (cases x) auto

text \<open>
  A method that reads and changes a state and returns a result. The state keeps the changes
  made before an error, as a Rust method that returns early does; undoing them is the
  business of the transaction, not of the method.
\<close>

type_synonym ('s, 'e, 'a) st = "'s \<Rightarrow> ('e + 'a) \<times> 's"

definition st_return :: "'a \<Rightarrow> ('s, 'e, 'a) st" where
  "st_return x = (\<lambda>s. (Inr x, s))"

definition st_throw :: "'e \<Rightarrow> ('s, 'e, 'a) st" where
  "st_throw e = (\<lambda>s. (Inl e, s))"

definition st_bind :: "('s, 'e, 'a) st \<Rightarrow> ('a \<Rightarrow> ('s, 'e, 'b) st) \<Rightarrow> ('s, 'e, 'b) st" where
  "st_bind m f = (\<lambda>s. case m s of (Inl e, s') \<Rightarrow> (Inl e, s') | (Inr x, s') \<Rightarrow> f x s')"

definition st_lift :: "'e + 'a \<Rightarrow> ('s, 'e, 'a) st" where
  "st_lift r = (\<lambda>s. (r, s))"

definition st_gets :: "('s \<Rightarrow> 'a) \<Rightarrow> ('s, 'e, 'a) st" where
  "st_gets f = (\<lambda>s. (Inr (f s), s))"

definition st_modify :: "('s \<Rightarrow> 's) \<Rightarrow> ('s, 'e, unit) st" where
  "st_modify f = (\<lambda>s. (Inr (), f s))"

definition st_guard :: "bool \<Rightarrow> 'e \<Rightarrow> ('s, 'e, unit) st" where
  "st_guard b e = (if b then st_return () else st_throw e)"

text \<open>A \<open>for\<close> loop whose body may return early with an error.\<close>

fun st_iter :: "('x \<Rightarrow> ('s, 'e, unit) st) \<Rightarrow> 'x list \<Rightarrow> ('s, 'e, unit) st" where
  "st_iter f [] = st_return ()"
| "st_iter f (x # xs) = st_bind (f x) (\<lambda>_. st_iter f xs)"

named_theorems st_simps \<open>evaluation of error-and-state computations\<close>

lemma st_eval [st_simps, simp]:
  "st_return x s = (Inr x, s)"
  "st_throw e s = (Inl e, s)"
  "st_lift r s = (r, s)"
  "st_gets g s = (Inr (g s), s)"
  "st_modify h s = (Inr (), h s)"
  by (simp_all add: st_return_def st_throw_def st_lift_def st_gets_def st_modify_def)

lemma st_guard_eval [simp]:
  "st_guard b e s = (if b then (Inr (), s) else (Inl e, s))"
  by (simp add: st_guard_def)

lemma st_bind_eval [simp]:
  "m s = (Inr x, s') \<Longrightarrow> st_bind m f s = f x s'"
  "m s = (Inl e, s') \<Longrightarrow> st_bind m f s = (Inl e, s')"
  by (simp_all add: st_bind_def)

lemma st_bind_Inr_iff:
  "st_bind m f s = (Inr y, t) \<longleftrightarrow> (\<exists>x s'. m s = (Inr x, s') \<and> f x s' = (Inr y, t))"
  by (auto simp: st_bind_def split: prod.splits sum.splits)

lemma st_bind_Inl_iff:
  "st_bind m f s = (Inl e, t) \<longleftrightarrow>
     m s = (Inl e, t) \<or> (\<exists>x s'. m s = (Inr x, s') \<and> f x s' = (Inl e, t))"
  by (auto simp: st_bind_def split: prod.splits sum.splits)

lemma st_bind_snd:
  "snd (st_bind m f s) =
     (case fst (m s) of Inl e \<Rightarrow> snd (m s) | Inr x \<Rightarrow> snd (f x (snd (m s))))"
  by (auto simp: st_bind_def split: prod.splits sum.splits)

text \<open>
  Frame and invariant reasoning: a relation between the state before and after that every
  computation of a kind keeps. The interface is any reflexive and transitive relation; what
  holds of the parts then holds of a sequence, a loop and a branch.
\<close>

definition st_rel :: "('s \<Rightarrow> 's \<Rightarrow> bool) \<Rightarrow> ('s, 'e, 'a) st \<Rightarrow> bool" where
  "st_rel R m \<longleftrightarrow> (\<forall>s. R s (snd (m s)))"

lemma st_relI: "(\<And>s. R s (snd (m s))) \<Longrightarrow> st_rel R m"
  by (simp add: st_rel_def)

lemma st_relD: "st_rel R m \<Longrightarrow> m s = (r, s') \<Longrightarrow> R s s'"
  by (metis st_rel_def snd_conv)

locale step_order =
  fixes R :: "'s \<Rightarrow> 's \<Rightarrow> bool"
  assumes step_refl: "R s s"
    and step_trans: "R s t \<Longrightarrow> R t u \<Longrightarrow> R s u"
begin

lemma rel_return: "st_rel R (st_return x)"
  by (simp add: st_rel_def step_refl)

lemma rel_throw: "st_rel R (st_throw e)"
  by (simp add: st_rel_def step_refl)

lemma rel_lift: "st_rel R (st_lift r)"
  by (simp add: st_rel_def step_refl)

lemma rel_gets: "st_rel R (st_gets g)"
  by (simp add: st_rel_def step_refl)

lemma rel_guard: "st_rel R (st_guard b e)"
  by (simp add: st_rel_def step_refl)

lemma rel_modify: "(\<And>s. R s (h s)) \<Longrightarrow> st_rel R (st_modify h)"
  by (simp add: st_rel_def)

lemma rel_bind:
  assumes "st_rel R m" and "\<And>x. st_rel R (f x)"
  shows "st_rel R (st_bind m f)"
  using assms unfolding st_rel_def st_bind_snd
  by (auto split: sum.splits intro: step_trans)

lemma rel_iter: "(\<And>x. st_rel R (f x)) \<Longrightarrow> st_rel R (st_iter f xs)"
  by (induction xs) (auto intro: rel_return rel_bind)

lemma rel_if: "st_rel R m \<Longrightarrow> st_rel R m' \<Longrightarrow> st_rel R (if b then m else m')"
  by simp

lemma rel_option:
  "st_rel R m \<Longrightarrow> (\<And>x. st_rel R (f x)) \<Longrightarrow>
     st_rel R (case v of None \<Rightarrow> m | Some x \<Rightarrow> f x)"
  by (cases v) simp_all

lemma rel_sum:
  "(\<And>x. st_rel R (f x)) \<Longrightarrow> (\<And>x. st_rel R (g x)) \<Longrightarrow>
     st_rel R (case v of Inl x \<Rightarrow> f x | Inr x \<Rightarrow> g x)"
  by (cases v) simp_all

lemmas rel_intros = rel_return rel_throw rel_lift rel_gets rel_guard rel_bind rel_iter rel_if
  rel_option rel_sum

end

section \<open>Strings\<close>

text \<open>
  A Rust \<open>str\<close> is a sequence of UTF-8 bytes; it is a \<open>string\<close> here, one character for each byte.
  The code only searches strings for ASCII characters, which never occur inside the encoding
  of another character.
\<close>

definition starts_with :: "string \<Rightarrow> string \<Rightarrow> bool" where
  "starts_with p s = (take (length p) s = p)"

definition ends_with :: "string \<Rightarrow> string \<Rightarrow> bool" where
  "ends_with p s = starts_with (rev p) (rev s)"

fun str_contains :: "string \<Rightarrow> string \<Rightarrow> bool" where
  "str_contains p [] = (p = [])"
| "str_contains p (c # s) = (starts_with p (c # s) \<or> str_contains p s)"

text \<open>\<open>str::split\<close> by a character: always at least one piece.\<close>

fun str_split :: "char \<Rightarrow> string \<Rightarrow> string list" where
  "str_split d [] = [[]]"
| "str_split d (c # s) =
     (if c = d then [] # str_split d s
      else (case str_split d s of [] \<Rightarrow> [[c]] | w # ws \<Rightarrow> (c # w) # ws))"

definition rsplit_once :: "char \<Rightarrow> string \<Rightarrow> (string \<times> string) option" where
  "rsplit_once d s =
     (if d \<in> set s
      then Some (rev (tl (dropWhile (\<lambda>c. c \<noteq> d) (rev s))), rev (takeWhile (\<lambda>c. c \<noteq> d) (rev s)))
      else None)"

lemma str_split_nonempty [simp]: "str_split d s \<noteq> []"
  by (induction s) (auto split: list.splits)

lemma str_split_no_sep: "d \<notin> set w \<Longrightarrow> str_split d w = [w]"
  by (induction w) auto

lemma str_split_append:
  "d \<notin> set w \<Longrightarrow> str_split d (w @ d # s) = w # str_split d s"
  by (induction w) auto

lemma str_split_pieces: "w \<in> set (str_split d s) \<Longrightarrow> d \<notin> set w"
  by (induction s arbitrary: w) (auto split: if_splits list.splits)

lemma rsplit_once_append:
  "d \<notin> set w \<Longrightarrow> rsplit_once d (s @ d # w) = Some (s, w)"
  by (simp add: rsplit_once_def takeWhile_append dropWhile_append)

lemma rsplit_once_SomeD:
  assumes "rsplit_once d s = Some (p, w)"
  shows "s = p @ d # w \<and> d \<notin> set w"
proof -
  from assms have "d \<in> set s" by (auto simp: rsplit_once_def split: if_splits)
  then obtain a b where "s = a @ d # b" "d \<notin> set b"
    by (meson split_list_last)
  with assms show ?thesis by (simp add: rsplit_once_append)
qed

text \<open>Decimal output of numbers, as \<open>format!\<close> prints them.\<close>

fun show_nat :: "nat \<Rightarrow> string" where
  "show_nat n =
     (if n < 10 then [char_of (48 + n)] else show_nat (n div 10) @ [char_of (48 + n mod 10)])"

declare show_nat.simps [simp del]

definition show_u64 :: "u64 \<Rightarrow> string" where
  "show_u64 v = show_nat (unat v)"

definition show_i64 :: "i64 \<Rightarrow> string" where
  "show_i64 v = (if sint v < 0 then CHR ''-'' # show_nat (nat (- sint v)) else show_nat (nat (sint v)))"

section \<open>Association lists\<close>

text \<open>A \<open>HashMap\<close> is an association list with distinct keys, changed by the operations of
  \<open>HOL-Library.AList\<close>; the list's order stands for the iteration order.\<close>

type_synonym ('k, 'v) hmap = "('k \<times> 'v) list"

abbreviation hm_get :: "('k, 'v) hmap \<Rightarrow> 'k \<Rightarrow> 'v option" where
  "hm_get m k \<equiv> map_of m k"

abbreviation hm_insert :: "'k \<Rightarrow> 'v \<Rightarrow> ('k, 'v) hmap \<Rightarrow> ('k, 'v) hmap" where
  "hm_insert k v m \<equiv> AList.update k v m"

abbreviation hm_remove :: "'k \<Rightarrow> ('k, 'v) hmap \<Rightarrow> ('k, 'v) hmap" where
  "hm_remove k m \<equiv> AList.delete k m"

definition hm_ok :: "('k, 'v) hmap \<Rightarrow> bool" where
  "hm_ok m \<longleftrightarrow> distinct (map fst m)"

locale hash_map =
  fixes get :: "'m \<Rightarrow> 'k \<Rightarrow> 'v option"
    and ins :: "'k \<Rightarrow> 'v \<Rightarrow> 'm \<Rightarrow> 'm"
    and rem :: "'k \<Rightarrow> 'm \<Rightarrow> 'm"
    and emp :: "'m"
    and ok :: "'m \<Rightarrow> bool"
  assumes get_emp: "get emp = (\<lambda>_. None)"
    and get_ins: "get (ins k v m) = (get m)(k := Some v)"
    and get_rem: "get (rem k m) = (get m)(k := None)"
    and ok_emp: "ok emp"
    and ok_ins: "ok m \<Longrightarrow> ok (ins k v m)"
    and ok_rem: "ok m \<Longrightarrow> ok (rem k m)"
begin

lemma get_fold_ins:
  "get (fold (\<lambda>x. ins (f x) (g x)) xs m) k =
     (case map_of (rev (map (\<lambda>x. (f x, g x)) xs)) k of None \<Rightarrow> get m k | Some v \<Rightarrow> Some v)"
  by (induction xs arbitrary: m) (auto simp: get_ins map_add_def split: option.splits)

lemma ok_fold_ins: "ok m \<Longrightarrow> ok (fold (\<lambda>x. ins (f x) (g x)) xs m)"
  by (induction xs arbitrary: m) (auto intro: ok_ins)

end

interpretation hm: hash_map map_of AList.update AList.delete "[]" hm_ok
  by unfold_locales
    (auto simp: fun_eq_iff update_conv' delete_conv' hm_ok_def distinct_update distinct_delete)

lemma map_of_filter_value:
  "hm_ok m \<Longrightarrow>
     map_of (filter (\<lambda>(k, v). P v) m) k = (case map_of m k of None \<Rightarrow> None | Some v \<Rightarrow> if P v then Some v else None)"
  unfolding hm_ok_def
proof (induction m)
  case (Cons a m)
  obtain k' v' where a: "a = (k', v')" by force
  have "map_of m k' = None" using Cons.prems by (simp add: a map_of_eq_None_iff)
  with Cons show ?case by (cases "k = k'") (simp_all add: a)
qed simp

lemma hm_ok_filter: "hm_ok m \<Longrightarrow> hm_ok (filter P m)"
  unfolding hm_ok_def by (rule distinct_map_filter)

section \<open>Lists\<close>

lemma find_unique:
  assumes "x \<in> set xs" and "P x" and "\<And>y. y \<in> set xs \<Longrightarrow> P y \<Longrightarrow> y = x"
  shows "find P xs = Some x"
proof -
  have "find P xs \<noteq> None" using assms(1,2) by (auto simp: find_None_iff)
  then obtain y where y: "find P xs = Some y" by blast
  then have "y \<in> set xs" and "P y" by (auto simp: find_Some_iff)
  with assms(3) y show ?thesis by simp
qed

lemma find_SomeD: "find P xs = Some x \<Longrightarrow> x \<in> set xs \<and> P x"
  by (induction xs) (auto split: if_splits)

lemma find_None_D: "find P xs = None \<Longrightarrow> x \<in> set xs \<Longrightarrow> \<not> P x"
  by (auto simp: find_None_iff)

lemma find_append_Some: "find P xs = Some x \<Longrightarrow> find P (xs @ ys) = Some x"
  by (induction xs) auto

lemma find_append: "find P (xs @ ys) = (case find P xs of None \<Rightarrow> find P ys | Some x \<Rightarrow> Some x)"
  by (induction xs) auto

lemma option_eqI: "(\<And>y. a = Some y \<longleftrightarrow> b = Some y) \<Longrightarrow> a = b"
  by (cases a; cases b) auto

text \<open>Rows with a key: the row of a key, and \<open>UPDATE .. WHERE key = ..\<close>.\<close>

lemma filter_key: "distinct (map k xs) \<Longrightarrow> x \<in> set xs \<Longrightarrow> filter (\<lambda>r. k r = k x) xs = [x]"
proof (induction xs)
  case (Cons a xs)
  show ?case
  proof (cases "x = a")
    case True
    then have "filter (\<lambda>r. k r = k x) xs = []"
      using Cons.prems by (auto simp: filter_empty_conv image_iff)
    with True show ?thesis by simp
  next
    case False
    then have "x \<in> set xs" using Cons.prems by simp
    then have "k a \<noteq> k x" using Cons.prems by (auto simp: image_iff)
    with Cons \<open>x \<in> set xs\<close> show ?thesis by simp
  qed
qed simp

lemma key_unique: "distinct (map k xs) \<Longrightarrow> x \<in> set xs \<Longrightarrow> y \<in> set xs \<Longrightarrow> k y = k x \<longleftrightarrow> y = x"
  by (auto simp: distinct_map inj_on_def)

lemma find_key: "distinct (map k xs) \<Longrightarrow> x \<in> set xs \<Longrightarrow> find (\<lambda>r. k r = k x) xs = Some x"
  by (intro find_unique) (auto simp: key_unique)

lemma update_row_set:
  assumes "distinct (map k xs)" and "x \<in> set xs"
  shows "set (map (\<lambda>r. if k r = k x then h r else r) xs) = insert (h x) (set xs - {x})"
proof -
  have "map (\<lambda>r. if k r = k x then h r else r) xs = map (\<lambda>r. if r = x then h r else r) xs"
    using key_unique [OF assms] by (intro map_cong) auto
  then show ?thesis using assms(2) by auto
qed

lemma update_row_distinct:
  assumes k: "distinct (map k xs)" and x: "x \<in> set xs" and q: "distinct (map q xs)"
    and new: "\<And>y. y \<in> set xs \<Longrightarrow> y \<noteq> x \<Longrightarrow> q y \<noteq> q (h x)"
  shows "distinct (map q (map (\<lambda>r. if k r = k x then h r else r) xs))"
proof -
  have eq: "map (\<lambda>r. if k r = k x then h r else r) xs = map (\<lambda>r. if r = x then h r else r) xs"
    using key_unique [OF k x] by (intro map_cong) auto
  have "inj_on (\<lambda>r. q (if r = x then h r else r)) (set xs)"
  proof (rule inj_onI)
    fix y z
    assume "y \<in> set xs" "z \<in> set xs" "q (if y = x then h y else y) = q (if z = x then h z else z)"
    then show "y = z"
      using new [of y] new [of z] key_unique [OF q, of z y] by (cases "y = x"; cases "z = x") auto
  qed
  then have "distinct (map (\<lambda>r. q (if r = x then h r else r)) xs)"
    using q by (simp add: distinct_map)
  then show ?thesis by (simp only: eq map_map comp_def)
qed

end
