(* ===== verification/Fs0_Core.thy ===== *)
theory Fs0_Core
  imports Fs0_Prelude
begin

text \<open>
  The crate \<^verbatim>\<open>fs0-core\<close>: its constants, \<open>Fs0Error\<close>, the checked integer conversions and the path
  functions of \<^verbatim>\<open>utils.rs\<close>, hash identifiers, and the row accessors of \<^verbatim>\<open>sqlite.rs\<close>. The path
  functions are characterised by the lists of components they stand for, which is the view of a
  path that the directory layer of the central server uses.
\<close>

section \<open>Constants\<close>

definition FS0_VERSION :: string where
  "FS0_VERSION = ''0.2.4''"

definition TRANSPORT_FRAME_LEN_BYTES :: nat where
  "TRANSPORT_FRAME_LEN_BYTES = 4"

definition TRANSPORT_MAX_FRAME_BODY_LEN :: nat where
  "TRANSPORT_MAX_FRAME_BODY_LEN = 2 * 1024 * 1024"

definition VOLUME_BUNDLE_RAW_SIZE :: u64 where
  "VOLUME_BUNDLE_RAW_SIZE = 128 * 1024 * 1024"

definition VOLUME_RAW_CHUNK_SIZE :: u64 where
  "VOLUME_RAW_CHUNK_SIZE = 1024 * 1024"

definition VOLUME_DEFAULT_DATA_FILE_SIZE :: u64 where
  "VOLUME_DEFAULT_DATA_FILE_SIZE = 4 * 1024 * 1024 * 1024"

definition VOLUME_FORMAT_VERSION :: u64 where
  "VOLUME_FORMAT_VERSION = 1"

definition VOLUME_MAX_OPEN_DATA_FILES :: nat where
  "VOLUME_MAX_OPEN_DATA_FILES = 2048"

definition VOLUME_DATA_FILE_IDLE_TTL_MS :: u64 where
  "VOLUME_DATA_FILE_IDLE_TTL_MS = 60000"

definition UPDATE_LEASE_TTL_MS :: u64 where
  "UPDATE_LEASE_TTL_MS = 60000"

definition DEFAULT_CLIENT_DATA_CONCURRENCY :: nat where
  "DEFAULT_CLIENT_DATA_CONCURRENCY = 32"

definition DEFAULT_REPLICATION_FACTOR :: u16 where
  "DEFAULT_REPLICATION_FACTOR = 2"

section \<open>Hash identifiers\<close>

text \<open>\<open>HashId\<close> holds 32 bytes; the length is the predicate \<open>hash_ok\<close>, as the type is a list of bytes.\<close>

datatype hash_id = HashId (as_bytes: "u8 list")

definition hash_ok :: "hash_id \<Rightarrow> bool" where
  "hash_ok h \<longleftrightarrow> length (as_bytes h) = 32"

text \<open>Hash identifiers are compared as SQLite compares blobs, byte by byte.\<close>

instantiation hash_id :: linorder
begin

definition less_eq_hash_id :: "hash_id \<Rightarrow> hash_id \<Rightarrow> bool" where
  "less_eq_hash_id a b \<longleftrightarrow> as_bytes a \<le> as_bytes b"

definition less_hash_id :: "hash_id \<Rightarrow> hash_id \<Rightarrow> bool" where
  "less_hash_id a b \<longleftrightarrow> as_bytes a < as_bytes b"

instance
  by standard (auto simp: less_eq_hash_id_def less_hash_id_def hash_id.expand)

end

definition hex_digit :: "nat \<Rightarrow> char" where
  "hex_digit n = (if n < 10 then char_of (48 + n) else char_of (87 + n))"

text \<open>The loop of \<open>to_hex\<close>, which is also that of \<open>Display\<close>: \<^verbatim>\<open>{byte:02x}\<close> for each byte.\<close>

fun write_hex :: "u8 list \<Rightarrow> string \<Rightarrow> string" where
  "write_hex [] output = output"
| "write_hex (b # bs) output = write_hex bs (output @ [hex_digit (unat b div 16), hex_digit (unat b mod 16)])"

definition to_hex :: "hash_id \<Rightarrow> string" where
  "to_hex h = write_hex (as_bytes h) []"

text \<open>
  The crate \<^verbatim>\<open>blake3\<close> is a parameter: the one-shot hash and the incremental hasher. What is relied
  on is that a digest has 32 bytes and that updating a hasher with pieces is hashing their
  concatenation.
\<close>

record 'h blake3 =
  b3_hash :: "u8 list \<Rightarrow> u8 list"
  b3_new :: 'h
  b3_update :: "u8 list \<Rightarrow> 'h \<Rightarrow> 'h"
  b3_finalize :: "'h \<Rightarrow> u8 list"

definition blake3_ok :: "'h blake3 \<Rightarrow> bool" where
  "blake3_ok B \<longleftrightarrow>
     (\<forall>bs. length (b3_hash B bs) = 32) \<and>
     (\<forall>ps. b3_finalize B (fold (b3_update B) ps (b3_new B)) = b3_hash B (concat ps))"

definition blake3_hash :: "'h blake3 \<Rightarrow> u8 list \<Rightarrow> hash_id" where
  "blake3_hash B bytes = HashId (b3_hash B bytes)"

record bundle_chunk_ref =
  bcr_chunk_index :: u64
  bcr_chunk_id :: hash_id

definition bundle_hash_from_chunks :: "'h blake3 \<Rightarrow> bundle_chunk_ref list \<Rightarrow> hash_id" where
  "bundle_hash_from_chunks B chunks =
     HashId (b3_finalize B (fold (\<lambda>chunk. b3_update B (as_bytes (bcr_chunk_id chunk))) chunks (b3_new B)))"

lemma write_hex_acc: "write_hex bs out = out @ write_hex bs []"
proof (induction bs arbitrary: out)
  case (Cons b bs)
  show ?case
    using Cons [of "out @ [hex_digit (unat b div 16), hex_digit (unat b mod 16)]"]
      Cons [of "[hex_digit (unat b div 16), hex_digit (unat b mod 16)]"]
    by simp
qed simp

lemma length_write_hex: "length (write_hex bs out) = length out + 2 * length bs"
  by (induction bs arbitrary: out) auto

lemma hex_digit_inject: "m < 16 \<Longrightarrow> n < 16 \<Longrightarrow> hex_digit m = hex_digit n \<Longrightarrow> m = n"
  by (auto simp: hex_digit_def char_of_eq_iff of_char_of take_bit_eq_mod split: if_splits)

lemma write_hex_inject: "write_hex bs [] = write_hex cs [] \<Longrightarrow> bs = cs"
proof (induction bs arbitrary: cs)
  case Nil
  then show ?case
    using length_write_hex [of cs "[]"] by simp
next
  case (Cons b bs)
  from Cons.prems have "length (b # bs) = length cs"
    using length_write_hex [of cs "[]"] length_write_hex [of "b # bs" "[]"] by simp
  then obtain c cs' where cs: "cs = c # cs'" by (cases cs) auto
  have split: "write_hex (x # xs) [] =
      [hex_digit (unat x div 16), hex_digit (unat x mod 16)] @ write_hex xs []" for x :: u8 and xs
    using write_hex_acc [of xs "[hex_digit (unat x div 16), hex_digit (unat x mod 16)]"] by simp
  have lt: "unat x div 16 < 16" for x :: u8
    using unsigned_less [of x, where 'a = nat] by simp
  from Cons.prems cs split have
    hi: "hex_digit (unat b div 16) = hex_digit (unat c div 16)" and
    lo: "hex_digit (unat b mod 16) = hex_digit (unat c mod 16)" and
    rest: "write_hex bs [] = write_hex cs' []" by simp_all
  have "unat b div 16 = unat c div 16" using hi lt by (intro hex_digit_inject)
  moreover have "unat b mod 16 = unat c mod 16" using lo by (intro hex_digit_inject) simp_all
  ultimately have "unat b = unat c" by (metis mult_div_mod_eq)
  with Cons.IH [OF rest] cs show ?case by (simp add: word_unat_eq_iff)
qed

lemma to_hex_inject: "to_hex h = to_hex k \<Longrightarrow> h = k"
  unfolding to_hex_def by (simp add: hash_id.expand write_hex_inject)

lemma bundle_hash_eq:
  assumes "blake3_ok B"
  shows "bundle_hash_from_chunks B chunks =
    blake3_hash B (concat (map (as_bytes \<circ> bcr_chunk_id) chunks))"
proof -
  have "fold (\<lambda>chunk. b3_update B (as_bytes (bcr_chunk_id chunk))) chunks (b3_new B) =
      fold (b3_update B) (map (as_bytes \<circ> bcr_chunk_id) chunks) (b3_new B)"
    by (simp add: fold_map comp_def)
  with assms show ?thesis
    by (simp add: bundle_hash_from_chunks_def blake3_hash_def blake3_ok_def)
qed

lemma bundle_hash_ok: "blake3_ok B \<Longrightarrow> hash_ok (bundle_hash_from_chunks B chunks)"
  by (simp add: bundle_hash_eq hash_ok_def blake3_hash_def blake3_ok_def)

section \<open>Errors\<close>

datatype fs0_error =
    InvalidFrame string
  | FrameTooLarge nat nat
  | Io string
  | Postcard string
  | Zstd string
  | Sqlite string
  | InvalidConfig string
  | InvalidData string
  | InvalidPath string
  | IntegerConversion string
  | AlreadyExists string
  | VolumeNotFound string
  | NoAvailableVolume "string option" "u64 option"
  | ChunkNotFound hash_id
  | BundleNotFound hash_id
  | CapacityExceeded u64 u64
  | HashMismatch u64
  | Unsupported
  | NotFound
  | VolumeAlreadyMounted
  | VersionConflict string
  | ChunkNotReady
  | InvalidRequest
  | Unauthorized
  | UnknownVolume
  | CentralUnavailable
  | Internal string
  | Fs0Version string string

type_synonym 'a fs0_result = "fs0_error + 'a"

section \<open>Integer conversions\<close>

definition u64_to_i64 :: "u64 \<Rightarrow> string \<Rightarrow> i64 fs0_result" where
  "u64_to_i64 v name =
     (if unat v < 2 ^ 63 then Inr v
      else Inl (IntegerConversion (name @ '' value '' @ show_u64 v @ '' does not fit in i64'')))"

lemma u64_to_i64_code [code]:
  "u64_to_i64 v name =
     (if fits_i64 v then Inr v
      else Inl (IntegerConversion (name @ '' value '' @ show_u64 v @ '' does not fit in i64'')))"
  by (simp add: u64_to_i64_def fits_i64_def)

definition i64_to_u64 :: "i64 \<Rightarrow> string \<Rightarrow> u64 fs0_result" where
  "i64_to_u64 v name =
     (if sint v < 0 then Inl (IntegerConversion (name @ '' value '' @ show_i64 v @ '' is negative''))
      else Inr v)"

text \<open>The accessors of \<open>SqliteRowExt\<close>: an \<open>INTEGER\<close> column read as \<open>u64\<close>, a nullable one, and a
  \<open>BLOB\<close> read as a hash. The message is that of \<^verbatim>\<open>rusqlite\<close>'s conversion error.\<close>

definition conversion_failure :: "nat \<Rightarrow> string \<Rightarrow> string \<Rightarrow> fs0_error" where
  "conversion_failure index ty msg =
     Sqlite (''Conversion error from type '' @ ty @ '' at index: '' @ show_nat index @ '', '' @ msg)"

definition row_u64 :: "nat \<Rightarrow> string \<Rightarrow> i64 \<Rightarrow> u64 fs0_result" where
  "row_u64 index name v =
     (if sint v < 0
      then Inl (conversion_failure index ''Integer'' (name @ '' value '' @ show_i64 v @ '' is negative''))
      else Inr v)"

definition row_optional_u64 :: "nat \<Rightarrow> string \<Rightarrow> i64 option \<Rightarrow> (u64 option) fs0_result" where
  "row_optional_u64 index name v =
     (case v of None \<Rightarrow> Inr None | Some i \<Rightarrow> res_bind (row_u64 index name i) (\<lambda>u. Inr (Some u)))"

definition row_hash_id :: "nat \<Rightarrow> string \<Rightarrow> u8 list \<Rightarrow> hash_id fs0_result" where
  "row_hash_id index name v =
     (if length v = 32 then Inr (HashId v)
      else Inl (conversion_failure index ''Blob''
        (name @ '' must be 32 bytes, got '' @ show_nat (length v))))"

lemma sint_neg_iff: "sint (v :: i64) < 0 \<longleftrightarrow> 2 ^ 63 \<le> unat v"
proof -
  have "sint v < 0 \<longleftrightarrow> bit v 63"
    using bit_last_iff [of v] by simp
  also have "\<dots> \<longleftrightarrow> odd (unat v div 2 ^ 63)"
    using bit_unsigned_iff [of v 63, where 'a = nat] by (simp add: bit_iff_odd [of "unat v"])
  also have "\<dots> \<longleftrightarrow> 2 ^ 63 \<le> unat v"
  proof -
    have "unat v div 2 ^ 63 < 2"
      using unat_lt_2_64 [of v] by (simp add: div_less_iff_less_mult)
    then have "unat v div 2 ^ 63 = 0 \<or> unat v div 2 ^ 63 = 1" by linarith
    then show ?thesis
      by (auto simp: div_eq_0_iff)
  qed
  finally show ?thesis .
qed

lemma u64_to_i64_Inr_iff: "u64_to_i64 v name = Inr i \<longleftrightarrow> fits_i64 v \<and> i = v"
  by (auto simp: u64_to_i64_def fits_i64_def)

lemma row_u64_fits: "fits_i64 v \<Longrightarrow> row_u64 n name v = Inr v"
  by (simp add: row_u64_def sint_neg_iff fits_i64_def)

lemma i64_to_u64_Inr_iff: "i64_to_u64 v name = Inr u \<longleftrightarrow> fits_i64 v \<and> u = v"
  by (auto simp: i64_to_u64_def fits_i64_def sint_neg_iff)

lemma row_u64_Inr_iff: "row_u64 n name v = Inr u \<longleftrightarrow> fits_i64 v \<and> u = v"
  by (auto simp: row_u64_def fits_i64_def sint_neg_iff)

section \<open>Paths\<close>

definition split_fs0_path_dir_and_name :: "string \<Rightarrow> (string \<times> string) fs0_result" where
  "split_fs0_path_dir_and_name path =
     (if \<not> starts_with ''/'' path \<or> ends_with ''/'' path \<or> str_contains ''//'' path
      then Inl (InvalidPath path)
      else res_bind (ok_or (InvalidPath path) (rsplit_once (CHR ''/'') path)) (\<lambda>(parent, name).
        if name = [] \<or> name = ''.'' \<or> name = ''..'' \<or> CHR ''/'' \<in> set name
        then Inl (InvalidPath path)
        else if list_ex (\<lambda>component. component = ''.'' \<or> component = ''..'') (str_split (CHR ''/'') parent)
        then Inl (InvalidPath path)
        else Inr (if parent = [] then ''/'' else parent, name)))"

definition join_fs0_path :: "string \<Rightarrow> string \<Rightarrow> string fs0_result" where
  "join_fs0_path dir name = (if dir = ''/'' then Inr (''/'' @ name) else Inr (dir @ ''/'' @ name))"

definition split_fs0_path_components :: "string \<Rightarrow> (string list) fs0_result" where
  "split_fs0_path_components path =
     (if \<not> starts_with ''/'' path then Inl (InvalidPath path)
      else if path = ''/'' then Inr []
      else let components = str_split (CHR ''/'') (tl path) in
        if list_ex (\<lambda>component. component = [] \<or> component = ''.'' \<or> component = ''..'') components
        then Inl (InvalidPath path)
        else Inr components)"

text \<open>The abstract view of a path: a list of component names, printed with a slash before each.\<close>

definition valid_component :: "string \<Rightarrow> bool" where
  "valid_component c \<longleftrightarrow> c \<noteq> [] \<and> c \<noteq> ''.'' \<and> c \<noteq> ''..'' \<and> CHR ''/'' \<notin> set c"

definition slashed :: "string list \<Rightarrow> string" where
  "slashed cs = concat (map (\<lambda>c. CHR ''/'' # c) cs)"

definition path_of :: "string list \<Rightarrow> string" where
  "path_of cs = (if cs = [] then ''/'' else slashed cs)"

lemma slashed_simps [simp]:
  "slashed [] = []"
  "slashed (c # cs) = CHR ''/'' # c @ slashed cs"
  "slashed (cs @ ds) = slashed cs @ slashed ds"
  by (simp_all add: slashed_def)

lemma slashed_eq_Nil [simp]: "slashed cs = [] \<longleftrightarrow> cs = []"
  by (cases cs) simp_all

lemma str_split_slashed:
  "\<forall>c\<in>set cs. CHR ''/'' \<notin> set c \<Longrightarrow> str_split (CHR ''/'') (slashed cs) = [] # cs"
proof (induction cs)
  case (Cons c cs)
  show ?case
  proof (cases cs)
    case Nil
    with Cons.prems show ?thesis by (simp add: str_split_no_sep)
  next
    case (Cons d ds)
    then have "str_split (CHR ''/'') (c @ slashed cs) = c # str_split (CHR ''/'') (d @ slashed ds)"
      using Cons.prems by (simp add: str_split_append)
    moreover have "str_split (CHR ''/'') (slashed cs) = [] # str_split (CHR ''/'') (d @ slashed ds)"
      using Cons by simp
    ultimately show ?thesis using Cons.IH Cons.prems by simp
  qed
qed simp

lemma slashed_str_split: "slashed (str_split (CHR ''/'') s) = CHR ''/'' # s"
  by (induction s) (auto split: list.splits)

lemma str_split_snoc:
  "d \<notin> set w \<Longrightarrow> str_split d (s @ d # w) = str_split d s @ [w]"
  by (induction s) (auto simp: str_split_no_sep split: list.splits)

text \<open>An empty piece between two others is a double slash, an empty last piece a final one.\<close>

lemma str_contains_split:
  "str_contains [d, d] s \<longleftrightarrow> [] \<in> set (butlast (tl (str_split d s)))"
proof (induction s)
  case (Cons c s)
  show ?case
  proof (cases "c = d")
    case True
    obtain w ws where ws: "str_split d s = w # ws" by (meson list.exhaust str_split_nonempty)
    have "starts_with [d, d] (c # s) \<longleftrightarrow> w = [] \<and> ws \<noteq> []"
      using True ws by (cases s) (auto simp: starts_with_def split: if_splits list.splits)
    with True ws Cons show ?thesis by auto
  next
    case False
    obtain w ws where "str_split d s = w # ws" by (meson list.exhaust str_split_nonempty)
    with False Cons show ?thesis by (simp add: starts_with_def)
  qed
qed simp

lemma ends_with_iff: "ends_with [d] s \<longleftrightarrow> (\<exists>p. s = p @ [d])"
  by (cases s rule: rev_cases) (auto simp: ends_with_def starts_with_def)

lemma str_split_last_Nil: "last (str_split d s) = [] \<longleftrightarrow> s = [] \<or> ends_with [d] s"
proof (cases s rule: rev_cases)
  case (snoc p c)
  show ?thesis
  proof (cases "c = d")
    case True
    then show ?thesis using str_split_snoc [of d "[]" p] snoc by (simp add: ends_with_iff)
  next
    case False
    then have "last (str_split d (p @ [c])) \<noteq> []"
      by (induction p) (auto split: list.splits)
    with False snoc show ?thesis by (auto simp: ends_with_iff)
  qed
qed simp

lemma starts_with_slash: "starts_with ''/'' p \<longleftrightarrow> (\<exists>q. p = CHR ''/'' # q)"
  by (cases p) (auto simp: starts_with_def)

lemma split_components_iff:
  "split_fs0_path_components p = Inr cs \<longleftrightarrow> (\<forall>c\<in>set cs. valid_component c) \<and> p = path_of cs"
proof (cases "starts_with ''/'' p \<and> p \<noteq> ''/''")
  case True
  then obtain q where q: "p = CHR ''/'' # q" "q \<noteq> []" by (auto simp: starts_with_slash)
  have valid: "list_ex (\<lambda>c. c = [] \<or> c = ''.'' \<or> c = ''..'') (str_split (CHR ''/'') q) \<longleftrightarrow>
      \<not> (\<forall>c\<in>set (str_split (CHR ''/'') q). valid_component c)"
    using str_split_pieces by (auto simp: list_ex_iff valid_component_def)
  have split: "split_fs0_path_components p = Inr cs \<longleftrightarrow>
      (\<forall>c\<in>set cs. valid_component c) \<and> cs = str_split (CHR ''/'') q"
    using q valid by (auto simp: split_fs0_path_components_def starts_with_def Let_def)
  also have "\<dots> \<longleftrightarrow> (\<forall>c\<in>set cs. valid_component c) \<and> p = path_of cs"
  proof safe
    assume "cs = str_split (CHR ''/'') q"
    then show "p = path_of (str_split (CHR ''/'') q)"
      using q by (simp add: path_of_def slashed_str_split)
  next
    assume valid: "\<forall>c\<in>set cs. valid_component c" and p: "p = path_of cs"
    then have "cs \<noteq> []" using True by (auto simp: path_of_def)
    then have "slashed cs = CHR ''/'' # q" using p q by (simp add: path_of_def)
    moreover have "str_split (CHR ''/'') (slashed cs) = [] # cs"
      using valid by (intro str_split_slashed) (auto simp: valid_component_def)
    ultimately show "cs = str_split (CHR ''/'') q" by simp
  qed
  finally show ?thesis .
next
  case False
  have "\<forall>c\<in>set cs. valid_component c \<Longrightarrow> path_of cs = ''/'' \<Longrightarrow> cs = []"
    by (cases cs) (auto simp: path_of_def valid_component_def)
  moreover have "starts_with ''/'' (path_of cs)"
    by (cases cs) (auto simp: path_of_def starts_with_def)
  ultimately show ?thesis
    using False by (auto simp: split_fs0_path_components_def path_of_def)
qed

lemma split_components_error:
  "split_fs0_path_components p = Inl e \<Longrightarrow> e = InvalidPath p"
  by (auto simp: split_fs0_path_components_def Let_def split: if_splits)

lemma path_of_inject:
  assumes "\<forall>c\<in>set cs. valid_component c" and "\<forall>c\<in>set ds. valid_component c"
    and "path_of cs = path_of ds"
  shows "cs = ds"
  using assms split_components_iff [of "path_of cs" cs] split_components_iff [of "path_of cs" ds]
  by simp

text \<open>Whether \<open>split_fs0_path_dir_and_name\<close> accepts a path depends only on its pieces.\<close>

lemma path_pieces_valid:
  "p = CHR ''/'' # q \<Longrightarrow>
     (ends_with ''/'' p \<or> str_contains ''//'' p) \<longleftrightarrow> [] \<in> set (str_split (CHR ''/'') q)"
proof -
  assume p: "p = CHR ''/'' # q"
  have "ends_with ''/'' p \<longleftrightarrow> last (str_split (CHR ''/'') q) = []"
    using str_split_last_Nil [of "CHR ''/''" p] p by simp
  moreover have "str_contains ''//'' p \<longleftrightarrow> [] \<in> set (butlast (str_split (CHR ''/'') q))"
    using str_contains_split [of "CHR ''/''" p] p by simp
  moreover have "set ws = insert (last ws) (set (butlast ws))" if "ws \<noteq> []" for ws :: "string list"
    using that by (metis append_butlast_last_id list.simps(15) rotate1.simps(2) set_rotate1)
  ultimately show ?thesis
    using str_split_nonempty [of "CHR ''/''" q] by auto
qed

lemma split_dir_and_name_iff:
  "split_fs0_path_dir_and_name p = Inr (d, n) \<longleftrightarrow>
     (\<exists>cs. (\<forall>c\<in>set (cs @ [n]). valid_component c) \<and> p = path_of (cs @ [n]) \<and> d = path_of cs)"
  (is "?lhs \<longleftrightarrow> ?rhs")
proof
  assume L: ?lhs
  then have "starts_with ''/'' p" by (auto simp: split_fs0_path_dir_and_name_def split: if_splits)
  then obtain q where q: "p = CHR ''/'' # q" by (auto simp: starts_with_slash)
  have no_empty: "[] \<notin> set (str_split (CHR ''/'') q)"
    using L path_pieces_valid [OF q] by (auto simp: split_fs0_path_dir_and_name_def split: if_splits)
  from L obtain parent where r: "rsplit_once (CHR ''/'') p = Some (parent, n)"
    and d: "d = (if parent = [] then ''/'' else parent)"
    and n: "n \<noteq> []" "n \<noteq> ''.''" "n \<noteq> ''..''"
    and pr: "\<not> list_ex (\<lambda>c. c = ''.'' \<or> c = ''..'') (str_split (CHR ''/'') parent)"
    by (cases "rsplit_once (CHR ''/'') p")
      (simp_all add: split_fs0_path_dir_and_name_def split: prod.splits if_splits)
  from rsplit_once_SomeD [OF r] have p: "p = parent @ CHR ''/'' # n" and n': "CHR ''/'' \<notin> set n"
    by simp_all
  have "str_split (CHR ''/'') parent @ [n] = [] # str_split (CHR ''/'') q"
    using str_split_snoc [OF n', of parent] unfolding p [symmetric] by (simp add: q)
  then obtain cs where cs: "str_split (CHR ''/'') parent = [] # cs" "str_split (CHR ''/'') q = cs @ [n]"
    by (cases "str_split (CHR ''/'') parent") auto
  have "parent = slashed cs"
    using slashed_str_split [of parent] cs(1) by simp
  moreover have "\<forall>c\<in>set cs. valid_component c"
    using no_empty pr cs str_split_pieces [of _ "CHR ''/''" parent]
    by (auto simp: valid_component_def list_ex_iff)
  ultimately show ?rhs
    using d n n' p by (intro exI [of _ cs]) (auto simp: path_of_def valid_component_def)
next
  assume ?rhs
  then obtain cs where v: "\<forall>c\<in>set (cs @ [n]). valid_component c"
    and p: "p = path_of (cs @ [n])" and d: "d = path_of cs" by blast
  define parent where "parent = slashed cs"
  have pp: "p = parent @ CHR ''/'' # n" by (simp add: p path_of_def parent_def)
  have n: "CHR ''/'' \<notin> set n" using v by (simp add: valid_component_def)
  have sw: "starts_with ''/'' p" using pp by (cases cs) (simp_all add: starts_with_def parent_def)
  then obtain q where q: "p = CHR ''/'' # q" by (auto simp: starts_with_slash)
  have sp: "str_split (CHR ''/'') parent = [] # cs"
    unfolding parent_def using v by (intro str_split_slashed) (auto simp: valid_component_def)
  have "[] # str_split (CHR ''/'') q = [] # cs @ [n]"
    using str_split_snoc [OF n, of parent] sp unfolding pp [symmetric] by (simp add: q)
  then have "[] \<notin> set (str_split (CHR ''/'') q)"
    using v by (auto simp: valid_component_def)
  then have "\<not> ends_with ''/'' p" "\<not> str_contains ''//'' p"
    using path_pieces_valid [OF q] by auto
  moreover have "rsplit_once (CHR ''/'') p = Some (parent, n)"
    unfolding pp by (rule rsplit_once_append [OF n])
  moreover have "\<not> list_ex (\<lambda>c. c = ''.'' \<or> c = ''..'') (str_split (CHR ''/'') parent)"
    using v sp by (auto simp: list_ex_iff valid_component_def)
  moreover have "d = (if parent = [] then ''/'' else parent)"
    by (simp add: d path_of_def parent_def)
  ultimately show ?lhs
    using v sw by (simp add: split_fs0_path_dir_and_name_def valid_component_def)
qed

lemma split_dir_and_name_error:
  "split_fs0_path_dir_and_name p = Inl e \<Longrightarrow> e = InvalidPath p"
  by (auto simp: split_fs0_path_dir_and_name_def res_bind_Inl_iff split: if_splits prod.splits)

lemma join_path_of:
  "\<forall>c\<in>set cs. valid_component c \<Longrightarrow> join_fs0_path (path_of cs) n = Inr (path_of (cs @ [n]))"
  by (cases cs) (auto simp: join_fs0_path_def path_of_def valid_component_def)

end
