(* ===== verification/Fs0_Protocol.thy ===== *)
theory Fs0_Protocol
  imports Fs0_Core
begin

text \<open>
  The messages of \<^verbatim>\<open>fs0-core/src/protocol.rs\<close>: a record for each struct, a datatype for each enum with
  the constructors of the source. As in the source, a request and its response have the same
  constructor name in different types (\<open>control_request.HasBundle\<close>, \<open>control_response.HasBundle\<close>).
\<close>

section \<open>Chunks and bundles\<close>

record upload_chunk_request =
  ucr_lease_id :: u64
  ucr_file_id :: u64
  ucr_volume_id :: u64
  ucr_chunk_id :: hash_id
  ucr_raw_len :: u64
  ucr_compressed_bytes :: "u8 list"

record download_chunk_request =
  dcr_volume_id :: u64
  dcr_chunk_id :: hash_id

record commit_bundle_request =
  cbr_lease_id :: u64
  cbr_file_id :: u64
  cbr_volume_id :: u64
  cbr_bundle_id :: hash_id
  cbr_chunks :: "bundle_chunk_ref list"

record upload_chunk_response =
  ucs_chunk_id :: hash_id
  ucs_raw_len :: u64
  ucs_compressed_len :: u64

record commit_bundle_response =
  cbs_bundle_id :: hash_id
  cbs_raw_len :: u64
  cbs_compressed_len :: u64

section \<open>Files, replicas and volumes\<close>

record replica_location =
  rl_storage_id :: u64
  rl_volume_id :: u64

record file_bundle_ref =
  fbr_bundle_index :: u64
  fbr_raw_len :: u64
  fbr_compressed_len :: u64
  fbr_bundle_id :: hash_id
  fbr_replicas :: "replica_location list"

record file_read_plan =
  frp_file_id :: u64
  frp_path :: string
  frp_size :: u64
  frp_bundles :: "file_bundle_ref list"

record storage_volume_info =
  svi_volume_id :: u64
  svi_name :: string
  svi_max_bytes :: u64
  svi_max_volume_offset :: u64
  svi_read_only :: bool

record storage_peer_info =
  spi_storage_id :: u64
  spi_name :: string
  spi_volumes :: "storage_volume_info list"
  spi_iroh_endpoint :: "u8 list"

record file_record =
  frec_file_id :: u64
  frec_path :: string
  frec_size_bytes :: u64
  frec_compressed_size_bytes :: u64
  frec_created_at_ms :: u64
  frec_updated_at_ms :: u64

record directory_entry =
  de_name :: string
  de_path :: string
  de_file_id :: u64
  de_size_bytes :: u64
  de_compressed_size_bytes :: u64
  de_created_at_ms :: u64
  de_updated_at_ms :: u64

record directory_entries =
  des_entries :: "directory_entry list"
  des_next_cursor :: "u64 option"

section \<open>Updates and events\<close>

record begin_update_request =
  bur_path :: string
  bur_offset :: u64
  bur_prefer_volume_name :: "string option"
  bur_update_size_hint :: "u64 option"

record grant_upload_lease_request =
  gul_lease_id :: u64
  gul_file_id :: u64
  gul_volume_id :: u64
  gul_base_size :: u64
  gul_expires_at_ms :: u64
  gul_prefer_volume_name :: "string option"

record update_lease =
  ul_lease_id :: u64
  ul_file_id :: u64
  ul_volume_id :: u64
  ul_base_size :: u64
  ul_offset :: u64
  ul_expires_at_ms :: u64
  ul_prefer_volume_name :: "string option"

record committed_bundle =
  cb_bundle_id :: hash_id
  cb_raw_len :: u64
  cb_compressed_len :: u64

record commit_update_request =
  cur_lease_id :: u64
  cur_file_id :: u64
  cur_base_size :: u64
  cur_new_size :: u64
  cur_bundles :: "committed_bundle list"

datatype bundle_replica_event_kind = Stored | Deleted

record bundle_replica_event =
  bre_event_id :: u64
  bre_kind :: bundle_replica_event_kind
  bre_volume_id :: u64
  bre_bundle_id :: hash_id
  bre_raw_len :: "u64 option"
  bre_compressed_len :: "u64 option"

datatype file_change_log_kind = Created | Updated | Moved | Deleted

record file_change_log =
  fcl_event_id :: u64
  fcl_kind :: file_change_log_kind
  fcl_file_id :: "u64 option"
  fcl_new_path :: "string option"
  fcl_created_at_ms :: u64

record file_change_logs =
  fcls_operations :: "file_change_log list"
  fcls_next_event_id :: "u64 option"

section \<open>Requests and responses\<close>

datatype protocol_event =
    StorageChanged storage_peer_info
  | StorageRemoved u64

record central_admin_status =
  cas_clients_count :: u32
  cas_storages :: "storage_peer_info list"

record storage_admin_status =
  sas_storage_id :: u64
  sas_volumes :: "storage_volume_info list"
  sas_connected_storages :: "u64 list"

datatype central_admin_request = Status
datatype central_admin_response = Status central_admin_status
datatype storage_admin_request = Status
datatype storage_admin_response = Status storage_admin_status

datatype control_request =
    RegisterClient "string option" string string
  | RegisterStorage string string string "storage_volume_info list" "u8 list"
  | UpdateStorageEndpoint u64 "u8 list"
  | CreateVolume string u64
  | CentralStatus
  | ListDirectory string u32 "u64 option"
  | GetFileReadPlan string
  | GetFileReadPlanById u64
  | HasBundle hash_id "u64 option"
  | DeleteFile string
  | DeleteFileById u64
  | CopyFile string string
  | CopyFileById u64 string
  | RenameFile string string
  | RenameFileById u64 string
  | GetFileChangeLogs u64 u32
  | BeginUpdate begin_update_request
  | CommitUpdate commit_update_request
  | AbortUpdate u64 u64
  | GrantUploadLease grant_upload_lease_request
  | RevokeUploadLease u64
  | ReportBundleReplica "bundle_replica_event list"
  | UpdateStorageVolumeOffset u64 u64
  | ValidateClientAuth u64 string

datatype control_response =
    RegisterClient u64 "storage_peer_info list"
  | RegisterStorage u64 "storage_peer_info list"
  | UpdateStorageEndpoint
  | CreateVolume u64
  | CentralStatus u32 "storage_peer_info list"
  | ListDirectory directory_entries
  | GetFileReadPlan file_read_plan
  | GetFileReadPlanById file_read_plan
  | HasBundle bool
  | DeleteFile
  | DeleteFileById
  | CopyFile file_record
  | CopyFileById file_record
  | RenameFile file_record
  | RenameFileById file_record
  | GetFileChangeLogs file_change_logs
  | BeginUpdate update_lease
  | CommitUpdate file_record
  | AbortUpdate
  | GrantUploadLease u64
  | RevokeUploadLease
  | ReportBundleReplica
  | UpdateStorageVolumeOffset
  | ValidateClientAuth u64

datatype data_request =
    Authenticate u64 string
  | HasChunk u64 hash_id
  | UploadChunk upload_chunk_request
  | DownloadChunk download_chunk_request
  | HasBundle u64 hash_id
  | CommitBundle commit_bundle_request
  | ListBundleChunks u64 hash_id

datatype data_response =
    Authenticate u64
  | HasChunk bool "u64 option" "u64 option"
  | UploadChunk upload_chunk_response
  | DownloadChunk "u8 list"
  | HasBundle bool "u64 option" "u64 option"
  | CommitBundle commit_bundle_response
  | ListBundleChunks "bundle_chunk_ref list"

datatype protocol_request =
    Control control_request
  | Data data_request
  | Event protocol_event
  | CentralAdmin central_admin_request
  | StorageAdmin storage_admin_request

datatype protocol_response =
    Error fs0_error
  | Control control_response
  | Data data_response
  | CentralAdmin central_admin_response
  | StorageAdmin storage_admin_response

end
