(* ===== verification/Fs0_Config.thy ===== *)
theory Fs0_Config
  imports Fs0_Core
begin

text \<open>
  Configuration (\<^verbatim>\<open>fs0-config/src/lib.rs\<close>) and compression (\<^verbatim>\<open>fs0-core/src/compression.rs\<close>). Reading TOML is the
  business of the crate \<^verbatim>\<open>toml\<close> with the derived deserialisers, and (de)compressing that of the crate \<^verbatim>\<open>zstd\<close>: both are
  arguments. Endpoint identifiers and socket addresses are kept in their printed form.
\<close>

section \<open>Configuration\<close>

record endpoint_config =
  ec_id :: string
  ec_addr :: string

record relay_client_config =
  rcc_url :: string
  rcc_token :: string
  rcc_quic_port :: u16
  rcc_ca_cert :: "string option"

record central_relay_config =
  crc_public_url :: string
  crc_token :: string
  crc_https_bind_port :: u16
  crc_cert_path :: string
  crc_key_path :: string
  crc_quic_bind_port :: u16

record central_config =
  cc_db_path :: string
  cc_secret_key :: string
  cc_bind_port :: u16
  cc_replication_factor :: u16
  cc_auth_tokens :: "string list"
  cc_relay :: central_relay_config

record storage_volume_config =
  svc_path :: string
  svc_name :: string
  svc_read_only :: bool
  svc_read_concurrency :: u32
  svc_write_concurrency :: u32

record storage_config =
  sc_name :: string
  sc_token :: string
  sc_central_endpoint :: endpoint_config
  sc_bind_port :: "u16 option"
  sc_relay :: "relay_client_config option"
  sc_volumes :: "storage_volume_config list"
  sc_check_hash_before_write :: bool

record client_config =
  clc_name :: "string option"
  clc_token :: string
  clc_central_endpoint :: endpoint_config
  clc_relay :: "relay_client_config option"
  clc_upload_concurrency :: nat
  clc_download_concurrency :: nat

record fs0_config =
  fc_central :: "central_config option"
  fc_storage :: "storage_config option"
  fc_client :: "client_config option"

text \<open>The content of the file or the error of reading it, and the deserialiser.\<close>

definition load_toml :: "(string \<Rightarrow> string + 'a) \<Rightarrow> string + string \<Rightarrow> 'a fs0_result" where
  "load_toml from_str contents =
     (case contents of
        Inl msg \<Rightarrow> Inl (Io msg)
      | Inr text \<Rightarrow> (case from_str text of Inl msg \<Rightarrow> Inl (InvalidConfig msg) | Inr c \<Rightarrow> Inr c))"

definition config_central :: "fs0_config \<Rightarrow> central_config fs0_result" where
  "config_central c = ok_or (InvalidConfig ''missing [central] config section'') (fc_central c)"

definition config_storage :: "fs0_config \<Rightarrow> storage_config fs0_result" where
  "config_storage c = ok_or (InvalidConfig ''missing [storage] config section'') (fc_storage c)"

definition config_client :: "fs0_config \<Rightarrow> client_config fs0_result" where
  "config_client c = ok_or (InvalidConfig ''missing [client] config section'') (fc_client c)"

text \<open>The loaders of one section deserialise only that section of the file.\<close>

definition load_central_from :: "(string \<Rightarrow> string + central_config option) \<Rightarrow> string + string \<Rightarrow> central_config fs0_result" where
  "load_central_from from_str contents = res_bind (load_toml from_str contents)
     (ok_or (InvalidConfig ''missing [central] config section''))"

definition load_storage_from :: "(string \<Rightarrow> string + storage_config option) \<Rightarrow> string + string \<Rightarrow> storage_config fs0_result" where
  "load_storage_from from_str contents = res_bind (load_toml from_str contents)
     (ok_or (InvalidConfig ''missing [storage] config section''))"

definition load_client_from :: "(string \<Rightarrow> string + client_config option) \<Rightarrow> string + string \<Rightarrow> client_config fs0_result" where
  "load_client_from from_str contents = res_bind (load_toml from_str contents)
     (ok_or (InvalidConfig ''missing [client] config section''))"

definition client_config_new :: "string \<Rightarrow> endpoint_config \<Rightarrow> relay_client_config option \<Rightarrow> client_config" where
  "client_config_new token central_endpoint relay =
     \<lparr> clc_name = None, clc_token = token, clc_central_endpoint = central_endpoint, clc_relay = relay,
       clc_upload_concurrency = DEFAULT_CLIENT_DATA_CONCURRENCY, clc_download_concurrency = DEFAULT_CLIENT_DATA_CONCURRENCY \<rparr>"

section \<open>Compression\<close>

record zstd =
  z_compress :: "u8 list \<Rightarrow> int \<Rightarrow> string + u8 list"
  z_decompress :: "u8 list \<Rightarrow> nat \<Rightarrow> string + u8 list"

definition DEFAULT_ZSTD_LEVEL :: int where
  "DEFAULT_ZSTD_LEVEL = 9"

definition zstd_compress :: "zstd \<Rightarrow> u8 list \<Rightarrow> int \<Rightarrow> (u8 list) fs0_result" where
  "zstd_compress Z input level = (case z_compress Z input level of Inl msg \<Rightarrow> Inl (Zstd msg) | Inr out \<Rightarrow> Inr out)"

definition zstd_decompress :: "zstd \<Rightarrow> u8 list \<Rightarrow> nat \<Rightarrow> (u8 list) fs0_result" where
  "zstd_decompress Z input max_output_size =
     (case z_decompress Z input max_output_size of Inl msg \<Rightarrow> Inl (Zstd msg) | Inr out \<Rightarrow> Inr out)"

text \<open>What is relied on: decompressing what was compressed gives it back when there is room.\<close>

definition zstd_ok :: "zstd \<Rightarrow> bool" where
  "zstd_ok Z \<longleftrightarrow> (\<forall>raw level out n. z_compress Z raw level = Inr out \<and> length raw \<le> n \<longrightarrow> z_decompress Z out n = Inr raw)"

lemma zstd_round_trip: "zstd_ok Z \<Longrightarrow> zstd_compress Z raw level = Inr out \<Longrightarrow> length raw \<le> n \<Longrightarrow> zstd_decompress Z out n = Inr raw"
  by (auto simp: zstd_ok_def zstd_compress_def zstd_decompress_def split: sum.splits)

lemma load_central_from_Inr_iff:
  "load_central_from from_str contents = Inr c \<longleftrightarrow> (\<exists>txt. contents = Inr txt \<and> from_str txt = Inr (Some c))"
  by (auto simp: load_central_from_def load_toml_def res_bind_Inr_iff split: sum.splits)

end
