(* ===== verification/Client_Session.thy ===== *)
theory Client_Session
  imports Fs0_Protocol Fs0_Config
begin

text \<open>
  The sessions of a client (\<^verbatim>\<open>fs0-client/src/central_session.rs\<close>, \<^verbatim>\<open>central_session/control.rs\<close>, \<^verbatim>\<open>storage_session.rs\<close>,
  \<^verbatim>\<open>storage_session/data.rs\<close>): the connection to central with the list of storages it announces, the connection to each
  storage, and one call for each request. Everything outside the client, that is the network with what is behind it
  and the local files, is a world \<open>'w\<close> that the operations of \<open>client_env\<close> act on; a connection is a number.
\<close>

section \<open>State\<close>

record ('e, 'w) client_env =
  ce_connect :: "'e \<Rightarrow> 'w \<Rightarrow> nat fs0_result \<times> 'w"
  ce_rpc :: "nat \<Rightarrow> protocol_request \<Rightarrow> nat option \<Rightarrow> 'w \<Rightarrow> protocol_response fs0_result \<times> 'w"
  ce_is_closed :: "nat \<Rightarrow> 'w \<Rightarrow> bool"
  ce_close :: "nat \<Rightarrow> 'w \<Rightarrow> 'w"
  ce_file :: "string \<Rightarrow> 'w \<Rightarrow> string + u8 list"
  ce_endpoint :: "endpoint_config \<Rightarrow> 'e"
  ce_from_bytes :: "u8 list \<Rightarrow> string + 'e"
  ce_debug :: "protocol_response \<Rightarrow> string"
  ce_debug_control :: "control_response \<Rightarrow> string"
  ce_debug_data :: "data_response \<Rightarrow> string"

record central_session =
  cse_config :: client_config
  cse_name :: "string option"
  cse_client_id :: u64
  cse_stopping :: bool
  cse_connection :: "nat option"
  cse_storages :: "storage_peer_info list"

record storage_session_inner =
  sse_config :: client_config
  sse_client_id :: u64
  sse_storage_id :: u64
  sse_connection :: "nat option"

record 'w fs0_client =
  fcl_config :: client_config
  fcl_central :: central_session
  fcl_storage_sessions :: "(u64, storage_session_inner) hmap"
  fcl_world :: 'w

type_synonym ('w, 'a) client_op = "('w fs0_client, fs0_error, 'a) st"

definition central_session_new :: "client_config \<Rightarrow> string option \<Rightarrow> central_session" where
  "central_session_new config name =
     \<lparr> cse_config = config, cse_name = name, cse_client_id = 0, cse_stopping = False, cse_connection = None, cse_storages = [] \<rparr>"

definition storage_session_new :: "client_config \<Rightarrow> u64 \<Rightarrow> u64 \<Rightarrow> storage_session_inner" where
  "storage_session_new config client_id storage_id =
     \<lparr> sse_config = config, sse_client_id = client_id, sse_storage_id = storage_id, sse_connection = None \<rparr>"

text \<open>An operation on the world, and one on the session with central.\<close>

definition outside :: "('w \<Rightarrow> 'a fs0_result \<times> 'w) \<Rightarrow> ('w, 'a) client_op" where
  "outside f = (\<lambda>s. case f (fcl_world s) of (r, w) \<Rightarrow> (r, s\<lparr> fcl_world := w \<rparr>))"

definition close_conn :: "('e, 'w) client_env \<Rightarrow> nat \<Rightarrow> ('w, unit) client_op" where
  "close_conn E c = st_modify (\<lambda>s. s\<lparr> fcl_world := ce_close E c (fcl_world s) \<rparr>)"

definition update_central :: "(central_session \<Rightarrow> central_session) \<Rightarrow> ('w, unit) client_op" where
  "update_central f = st_modify (\<lambda>s. s\<lparr> fcl_central := f (fcl_central s) \<rparr>)"

section \<open>Central\<close>

definition unexpected_control :: "string \<Rightarrow> fs0_error" where
  "unexpected_control debug = InvalidFrame (''unexpected control response: '' @ debug)"

definition unexpected_data :: "string \<Rightarrow> fs0_error" where
  "unexpected_data debug = InvalidFrame (''unexpected data response: '' @ debug)"

text \<open>The answer to the registration; without one the connection is closed.\<close>

definition registered ::
  "('e, 'w) client_env \<Rightarrow> nat \<Rightarrow> protocol_response \<Rightarrow> ('w, u64 \<times> storage_peer_info list) client_op" where
  "registered E c response =
     (case response of
        Error e \<Rightarrow> st_bind (close_conn E c) (\<lambda>_. st_throw e)
      | protocol_response.Control (control_response.RegisterClient client_id storages) \<Rightarrow> st_return (client_id, storages)
      | protocol_response.Control r \<Rightarrow> st_bind (close_conn E c) (\<lambda>_. st_throw (unexpected_control (ce_debug_control E r)))
      | _ \<Rightarrow> st_bind (close_conn E c) (\<lambda>_. st_throw (unexpected_control (ce_debug E response))))"

definition central_connect :: "('e, 'w) client_env \<Rightarrow> ('w, nat) client_op" where
  "central_connect E =
     st_bind (st_gets fcl_central) (\<lambda>central.
     st_bind (update_central (cse_stopping_update (\<lambda>_. False))) (\<lambda>_.
     st_bind (outside (ce_connect E (ce_endpoint E (clc_central_endpoint (cse_config central))))) (\<lambda>c.
     st_bind (outside (ce_rpc E c (protocol_request.Control (control_request.RegisterClient
       (cse_name central) (clc_token (cse_config central)) FS0_VERSION)) None)) (\<lambda>response.
     st_bind (registered E c response) (\<lambda>(client_id, storages).
     st_bind (update_central (\<lambda>x. x\<lparr> cse_client_id := client_id, cse_storages := storages, cse_connection := Some c \<rparr>)) (\<lambda>_.
     st_return c))))))"

definition central_ensure_connected :: "('e, 'w) client_env \<Rightarrow> ('w, nat) client_op" where
  "central_ensure_connected E = (\<lambda>s.
     case cse_connection (fcl_central s) of
       Some c \<Rightarrow>
         if \<not> ce_is_closed E c (fcl_world s) then (Inr c, s)
         else st_bind (update_central (cse_connection_update (\<lambda>_. None))) (\<lambda>_.
              st_bind (close_conn E c) (\<lambda>_. central_connect E)) s
     | None \<Rightarrow> central_connect E s)"

definition central_request :: "('e, 'w) client_env \<Rightarrow> control_request \<Rightarrow> ('w, control_response) client_op" where
  "central_request E request =
     st_bind (central_ensure_connected E) (\<lambda>c.
     st_bind (outside (ce_rpc E c (protocol_request.Control request) None)) (\<lambda>response.
     case response of
       Error e \<Rightarrow> st_throw e
     | protocol_response.Control r \<Rightarrow> st_return r
     | _ \<Rightarrow> st_throw (unexpected_control (ce_debug E response))))"

definition central_close :: "('e, 'w) client_env \<Rightarrow> ('w, unit) client_op" where
  "central_close E =
     st_bind (st_gets (\<lambda>s. cse_connection (fcl_central s))) (\<lambda>c.
     st_bind (update_central (\<lambda>x. x\<lparr> cse_stopping := True, cse_connection := None \<rparr>)) (\<lambda>_.
     st_bind (case c of None \<Rightarrow> st_return () | Some c \<Rightarrow> close_conn E c) (\<lambda>_.
     update_central (cse_client_id_update (\<lambda>_. 0)))))"

definition session_storage_peer :: "u64 \<Rightarrow> central_session \<Rightarrow> storage_peer_info option" where
  "session_storage_peer storage_id c = find (\<lambda>p. spi_storage_id p = storage_id) (cse_storages c)"

text \<open>Events of central: \<open>iter_mut().find\<close> replaces the first entry with the identifier, otherwise the peer is pushed.\<close>

fun replace_peer :: "storage_peer_info \<Rightarrow> storage_peer_info list \<Rightarrow> storage_peer_info list option" where
  "replace_peer peer [] = None"
| "replace_peer peer (p # ps) =
     (if spi_storage_id p = spi_storage_id peer then Some (peer # ps) else map_option ((#) p) (replace_peer peer ps))"

fun client_event :: "protocol_request \<Rightarrow> storage_peer_info list \<Rightarrow> (protocol_response option) fs0_result \<times> storage_peer_info list" where
  "client_event (Event (StorageChanged peer)) storages =
     (Inr None, sort_key spi_storage_id (case replace_peer peer storages of Some ps \<Rightarrow> ps | None \<Rightarrow> storages @ [peer]))"
| "client_event (Event (StorageRemoved storage_id)) storages = (Inr None, filter (\<lambda>p. spi_storage_id p \<noteq> storage_id) storages)"
| "client_event _ storages = (Inl InvalidRequest, storages)"

subsection \<open>Requests\<close>

text \<open>A call accepts some responses and calls every other one unexpected.\<close>

definition expect :: "('e, 'w) client_env \<Rightarrow> (control_response \<Rightarrow> 'a option) \<Rightarrow> control_request \<Rightarrow> ('w, 'a) client_op" where
  "expect E accept request =
     st_bind (central_request E request) (\<lambda>r.
     st_lift (ok_or (unexpected_control (ce_debug_control E r)) (accept r)))"

definition call_central_status :: "('e, 'w) client_env \<Rightarrow> ('w, u32 \<times> storage_peer_info list) client_op" where
  "call_central_status E =
     st_bind (expect E (\<lambda>r. case r of control_response.CentralStatus clients storages \<Rightarrow> Some (clients, storages) | _ \<Rightarrow> None)
       control_request.CentralStatus) (\<lambda>(clients, storages).
     st_bind (update_central (cse_storages_update (\<lambda>_. storages))) (\<lambda>_. st_return (clients, storages)))"

definition call_create_volume :: "('e, 'w) client_env \<Rightarrow> string \<Rightarrow> u64 \<Rightarrow> ('w, u64) client_op" where
  "call_create_volume E name max_bytes =
     expect E (\<lambda>r. case r of control_response.CreateVolume i \<Rightarrow> Some i | _ \<Rightarrow> None) (control_request.CreateVolume name max_bytes)"

definition call_list_directory :: "('e, 'w) client_env \<Rightarrow> string \<Rightarrow> u32 \<Rightarrow> u64 option \<Rightarrow> ('w, directory_entries) client_op" where
  "call_list_directory E dir limit cursor =
     expect E (\<lambda>r. case r of control_response.ListDirectory entries \<Rightarrow> Some entries | _ \<Rightarrow> None)
       (control_request.ListDirectory dir limit cursor)"

definition call_get_file_read_plan :: "('e, 'w) client_env \<Rightarrow> string \<Rightarrow> ('w, file_read_plan) client_op" where
  "call_get_file_read_plan E path =
     expect E (\<lambda>r. case r of control_response.GetFileReadPlan plan \<Rightarrow> Some plan
       | control_response.GetFileReadPlanById plan \<Rightarrow> Some plan | _ \<Rightarrow> None) (control_request.GetFileReadPlan path)"

definition call_has_bundle :: "('e, 'w) client_env \<Rightarrow> hash_id \<Rightarrow> u64 option \<Rightarrow> ('w, bool) client_op" where
  "call_has_bundle E bundle_id volume_id =
     expect E (\<lambda>r. case r of control_response.HasBundle b \<Rightarrow> Some b | _ \<Rightarrow> None) (control_request.HasBundle bundle_id volume_id)"

definition call_delete_file :: "('e, 'w) client_env \<Rightarrow> string \<Rightarrow> ('w, unit) client_op" where
  "call_delete_file E path =
     expect E (\<lambda>r. case r of control_response.DeleteFile \<Rightarrow> Some () | control_response.DeleteFileById \<Rightarrow> Some () | _ \<Rightarrow> None)
       (control_request.DeleteFile path)"

definition call_delete_file_by_id :: "('e, 'w) client_env \<Rightarrow> u64 \<Rightarrow> ('w, unit) client_op" where
  "call_delete_file_by_id E file_id =
     expect E (\<lambda>r. case r of control_response.DeleteFileById \<Rightarrow> Some () | _ \<Rightarrow> None) (control_request.DeleteFileById file_id)"

definition call_copy_file :: "('e, 'w) client_env \<Rightarrow> string \<Rightarrow> string \<Rightarrow> ('w, file_record) client_op" where
  "call_copy_file E source target =
     expect E (\<lambda>r. case r of control_response.CopyFile f \<Rightarrow> Some f | control_response.CopyFileById f \<Rightarrow> Some f | _ \<Rightarrow> None)
       (control_request.CopyFile source target)"

definition call_copy_file_by_id :: "('e, 'w) client_env \<Rightarrow> u64 \<Rightarrow> string \<Rightarrow> ('w, file_record) client_op" where
  "call_copy_file_by_id E file_id target =
     expect E (\<lambda>r. case r of control_response.CopyFileById f \<Rightarrow> Some f | _ \<Rightarrow> None) (control_request.CopyFileById file_id target)"

definition call_rename_file :: "('e, 'w) client_env \<Rightarrow> string \<Rightarrow> string \<Rightarrow> ('w, file_record) client_op" where
  "call_rename_file E source target =
     expect E (\<lambda>r. case r of control_response.RenameFile f \<Rightarrow> Some f | control_response.RenameFileById f \<Rightarrow> Some f | _ \<Rightarrow> None)
       (control_request.RenameFile source target)"

definition call_rename_file_by_id :: "('e, 'w) client_env \<Rightarrow> u64 \<Rightarrow> string \<Rightarrow> ('w, file_record) client_op" where
  "call_rename_file_by_id E file_id target =
     expect E (\<lambda>r. case r of control_response.RenameFileById f \<Rightarrow> Some f | _ \<Rightarrow> None) (control_request.RenameFileById file_id target)"

definition call_begin_update :: "('e, 'w) client_env \<Rightarrow> begin_update_request \<Rightarrow> ('w, update_lease) client_op" where
  "call_begin_update E request =
     expect E (\<lambda>r. case r of control_response.BeginUpdate lease \<Rightarrow> Some lease | _ \<Rightarrow> None) (control_request.BeginUpdate request)"

definition call_commit_update :: "('e, 'w) client_env \<Rightarrow> commit_update_request \<Rightarrow> ('w, file_record) client_op" where
  "call_commit_update E request =
     expect E (\<lambda>r. case r of control_response.CommitUpdate f \<Rightarrow> Some f | _ \<Rightarrow> None) (control_request.CommitUpdate request)"

definition call_abort_update :: "('e, 'w) client_env \<Rightarrow> u64 \<Rightarrow> u64 \<Rightarrow> ('w, unit) client_op" where
  "call_abort_update E lease_id file_id =
     expect E (\<lambda>r. case r of control_response.AbortUpdate \<Rightarrow> Some () | _ \<Rightarrow> None) (control_request.AbortUpdate lease_id file_id)"

definition call_get_file_change_logs :: "('e, 'w) client_env \<Rightarrow> u64 \<Rightarrow> u32 \<Rightarrow> ('w, file_change_logs) client_op" where
  "call_get_file_change_logs E after_event_id limit =
     expect E (\<lambda>r. case r of control_response.GetFileChangeLogs logs \<Rightarrow> Some logs | _ \<Rightarrow> None)
       (control_request.GetFileChangeLogs after_event_id limit)"

section \<open>Storages\<close>

text \<open>An operation on a session acts on the session and on the client that it belongs to.\<close>

type_synonym ('w, 'a) session_op = "(storage_session_inner \<times> 'w fs0_client, fs0_error, 'a) st"

definition on_client :: "('w, 'a) client_op \<Rightarrow> ('w, 'a) session_op" where
  "on_client m = (\<lambda>(x, s). case m s of (r, s') \<Rightarrow> (r, (x, s')))"

definition set_connection :: "nat option \<Rightarrow> ('w, unit) session_op" where
  "set_connection c = st_modify (\<lambda>(x, s). (x\<lparr> sse_connection := c \<rparr>, s))"

text \<open>60 seconds, in milliseconds.\<close>

definition CLIENT_CHUNK_RPC_TIMEOUT :: nat where
  "CLIENT_CHUNK_RPC_TIMEOUT = 60000"

definition authenticated :: "('e, 'w) client_env \<Rightarrow> u64 \<Rightarrow> protocol_response fs0_result \<Rightarrow> unit fs0_result" where
  "authenticated E client_id response =
     (case response of
        Inr (protocol_response.Data (data_response.Authenticate i)) \<Rightarrow>
          if i = client_id then Inr () else Inl (unexpected_data (ce_debug E (protocol_response.Data (data_response.Authenticate i))))
      | Inr (Error e) \<Rightarrow> Inl e
      | Inr r \<Rightarrow> Inl (unexpected_data (ce_debug E r))
      | Inl e \<Rightarrow> Inl e)"

definition authenticate :: "('e, 'w) client_env \<Rightarrow> nat \<Rightarrow> ('w, unit) session_op" where
  "authenticate E c = (\<lambda>(x, s).
     case ce_rpc E c (protocol_request.Data (data_request.Authenticate (sse_client_id x) (clc_token (sse_config x)))) None (fcl_world s) of
       (response, w) \<Rightarrow>
         (case authenticated E (sse_client_id x) response of
            Inr _ \<Rightarrow> (Inr (), (x, s\<lparr> fcl_world := w \<rparr>))
          | Inl e \<Rightarrow> (Inl e, (x, s\<lparr> fcl_world := ce_close E c w \<rparr>))))"

definition session_connect :: "('e, 'w) client_env \<Rightarrow> ('w, nat) session_op" where
  "session_connect E =
     st_bind (st_gets (\<lambda>(x, s). session_storage_peer (sse_storage_id x) (fcl_central s))) (\<lambda>peer.
     st_bind (st_lift (ok_or NotFound peer)) (\<lambda>storage.
     st_bind (st_lift (case ce_from_bytes E (spi_iroh_endpoint storage) of Inl msg \<Rightarrow> Inl (Postcard msg) | Inr e \<Rightarrow> Inr e)) (\<lambda>endpoint.
     st_bind (on_client (outside (ce_connect E endpoint))) (\<lambda>c.
     st_bind (authenticate E c) (\<lambda>_.
     st_bind (set_connection (Some c)) (\<lambda>_. st_return c))))))"

definition ensure_connected :: "('e, 'w) client_env \<Rightarrow> ('w, nat) session_op" where
  "ensure_connected E = (\<lambda>(x, s).
     case sse_connection x of
       Some c \<Rightarrow>
         if \<not> ce_is_closed E c (fcl_world s) then (Inr c, (x, s))
         else st_bind (set_connection None) (\<lambda>_. st_bind (on_client (close_conn E c)) (\<lambda>_. session_connect E)) (x, s)
     | None \<Rightarrow> session_connect E (x, s))"

fun request_timeout :: "data_request \<Rightarrow> nat option" where
  "request_timeout (data_request.UploadChunk _) = Some CLIENT_CHUNK_RPC_TIMEOUT"
| "request_timeout (data_request.DownloadChunk _) = Some CLIENT_CHUNK_RPC_TIMEOUT"
| "request_timeout _ = None"

text \<open>A failed call returns at once; an answer that is an error forgets the connection when it has been closed.\<close>

definition data_answer :: "('e, 'w) client_env \<Rightarrow> protocol_response \<Rightarrow> data_response fs0_result" where
  "data_answer E response =
     (case response of
        Error e \<Rightarrow> Inl e
      | protocol_response.Data r \<Rightarrow> Inr r
      | _ \<Rightarrow> Inl (unexpected_data (ce_debug E response)))"

definition session_request :: "('e, 'w) client_env \<Rightarrow> data_request \<Rightarrow> ('w, data_response) session_op" where
  "session_request E request =
     st_bind (ensure_connected E) (\<lambda>c.
     st_bind (on_client (outside (ce_rpc E c (protocol_request.Data request) (request_timeout request)))) (\<lambda>response.
     (\<lambda>(x, s).
        case data_answer E response of
          Inr r \<Rightarrow> (Inr r, (x, s))
        | Inl e \<Rightarrow> (Inl e, (if ce_is_closed E c (fcl_world s) then x\<lparr> sse_connection := None \<rparr> else x, s)))))"

definition session_close :: "('e, 'w) client_env \<Rightarrow> ('w, unit) session_op" where
  "session_close E =
     st_bind (st_gets (\<lambda>(x, s). sse_connection x)) (\<lambda>c.
     case c of None \<Rightarrow> st_return () | Some c \<Rightarrow> st_bind (set_connection None) (\<lambda>_. on_client (close_conn E c)))"

subsection \<open>Requests\<close>

definition expect_data :: "('e, 'w) client_env \<Rightarrow> (data_response \<Rightarrow> 'a option) \<Rightarrow> data_request \<Rightarrow> ('w, 'a) session_op" where
  "expect_data E accept request =
     st_bind (session_request E request) (\<lambda>r. st_lift (ok_or (unexpected_data (ce_debug_data E r)) (accept r)))"

text \<open>What exists comes with its lengths; a response that lacks one of them is unexpected.\<close>

definition exists_lens :: "bool \<Rightarrow> u64 option \<Rightarrow> u64 option \<Rightarrow> ((u64 \<times> u64) option) option" where
  "exists_lens found raw_len compressed_len =
     (if found then (case (raw_len, compressed_len) of (Some r, Some c) \<Rightarrow> Some (Some (r, c)) | _ \<Rightarrow> None) else Some None)"

definition session_has_bundle :: "('e, 'w) client_env \<Rightarrow> u64 \<Rightarrow> hash_id \<Rightarrow> ('w, (u64 \<times> u64) option) session_op" where
  "session_has_bundle E volume_id bundle_id =
     expect_data E (\<lambda>r. case r of data_response.HasBundle found raw_len compressed_len \<Rightarrow> exists_lens found raw_len compressed_len | _ \<Rightarrow> None)
       (data_request.HasBundle volume_id bundle_id)"

definition session_has_chunk :: "('e, 'w) client_env \<Rightarrow> u64 \<Rightarrow> hash_id \<Rightarrow> ('w, (u64 \<times> u64) option) session_op" where
  "session_has_chunk E volume_id chunk_id =
     expect_data E (\<lambda>r. case r of data_response.HasChunk found raw_len compressed_len \<Rightarrow> exists_lens found raw_len compressed_len | _ \<Rightarrow> None)
       (data_request.HasChunk volume_id chunk_id)"

definition session_upload_chunk :: "('e, 'w) client_env \<Rightarrow> upload_chunk_request \<Rightarrow> ('w, upload_chunk_response) session_op" where
  "session_upload_chunk E request =
     expect_data E (\<lambda>r. case r of data_response.UploadChunk response \<Rightarrow> Some response | _ \<Rightarrow> None) (data_request.UploadChunk request)"

definition session_commit_bundle :: "('e, 'w) client_env \<Rightarrow> commit_bundle_request \<Rightarrow> ('w, committed_bundle) session_op" where
  "session_commit_bundle E request =
     expect_data E (\<lambda>r. case r of
         data_response.CommitBundle response \<Rightarrow>
           Some \<lparr> cb_bundle_id = cbr_bundle_id request, cb_raw_len = cbs_raw_len response, cb_compressed_len = cbs_compressed_len response \<rparr>
       | _ \<Rightarrow> None) (data_request.CommitBundle request)"

definition session_download_chunk :: "('e, 'w) client_env \<Rightarrow> download_chunk_request \<Rightarrow> ('w, u8 list) session_op" where
  "session_download_chunk E request =
     expect_data E (\<lambda>r. case r of data_response.DownloadChunk bytes \<Rightarrow> Some bytes | _ \<Rightarrow> None) (data_request.DownloadChunk request)"

definition session_list_bundle_chunks :: "('e, 'w) client_env \<Rightarrow> u64 \<Rightarrow> hash_id \<Rightarrow> ('w, bundle_chunk_ref list) session_op" where
  "session_list_bundle_chunks E volume_id bundle_id =
     expect_data E (\<lambda>r. case r of data_response.ListBundleChunks chunks \<Rightarrow> Some chunks | _ \<Rightarrow> None)
       (data_request.ListBundleChunks volume_id bundle_id)"

section \<open>The jobs of the schedulers\<close>

record upload_job =
  ucj_lease_id :: u64
  ucj_file_id :: u64
  ucj_volume_id :: u64
  ucj_chunk_id :: hash_id
  ucj_raw_len :: u64
  ucj_source_path :: string
  ucj_source_offset :: u64

record download_result =
  dcs_chunk_id :: hash_id
  dcs_raw_bytes :: "u8 list"

text \<open>Opening the file, seeking and \<open>read_exact\<close>, which fails when the file ends too early.\<close>

definition read_chunk_from_file :: "string + u8 list \<Rightarrow> u64 \<Rightarrow> u64 \<Rightarrow> (u8 list) fs0_result" where
  "read_chunk_from_file opened offset raw_len =
     (if VOLUME_RAW_CHUNK_SIZE < raw_len then Inl (InvalidData (''chunk raw_len '' @ show_u64 raw_len @ '' exceeds maximum''))
      else case opened of
        Inl msg \<Rightarrow> Inl (Io msg)
      | Inr contents \<Rightarrow>
          let bytes = take (unat raw_len) (drop (unat offset) contents) in
          if length bytes < unat raw_len then Inl (Io ''early eof'') else Inr bytes)"

definition upload_chunk_job ::
  "('e, 'w) client_env \<Rightarrow> 'h blake3 \<Rightarrow> zstd \<Rightarrow> upload_job \<Rightarrow> ('w, upload_chunk_response) session_op" where
  "upload_chunk_job E B Z job =
     st_bind (session_has_chunk E (ucj_volume_id job) (ucj_chunk_id job)) (\<lambda>existing.
     case existing of
       Some (existing_raw_len, compressed_len) \<Rightarrow>
         if existing_raw_len \<noteq> ucj_raw_len job then st_throw (InvalidData ''existing chunk raw_len does not match upload job'')
         else st_return \<lparr> ucs_chunk_id = ucj_chunk_id job, ucs_raw_len = ucj_raw_len job, ucs_compressed_len = compressed_len \<rparr>
     | None \<Rightarrow>
         st_bind (st_gets (\<lambda>(x, s). ce_file E (ucj_source_path job) (fcl_world s))) (\<lambda>opened.
         st_bind (st_lift (read_chunk_from_file opened (ucj_source_offset job) (ucj_raw_len job))) (\<lambda>raw_bytes.
         if blake3_hash B raw_bytes \<noteq> ucj_chunk_id job then st_throw (HashMismatch (ucj_source_offset job))
         else
           st_bind (st_lift (zstd_compress Z raw_bytes DEFAULT_ZSTD_LEVEL)) (\<lambda>compressed_bytes.
           session_upload_chunk E \<lparr> ucr_lease_id = ucj_lease_id job, ucr_file_id = ucj_file_id job, ucr_volume_id = ucj_volume_id job,
             ucr_chunk_id = ucj_chunk_id job, ucr_raw_len = ucj_raw_len job, ucr_compressed_bytes = compressed_bytes \<rparr>))))"

definition decompress_chunk :: "'h blake3 \<Rightarrow> zstd \<Rightarrow> hash_id \<Rightarrow> u8 list \<Rightarrow> (u8 list) fs0_result" where
  "decompress_chunk B Z chunk_id compressed_bytes =
     res_bind (zstd_decompress Z compressed_bytes (unat VOLUME_RAW_CHUNK_SIZE)) (\<lambda>raw.
     if VOLUME_RAW_CHUNK_SIZE < of_nat (length raw) \<or> blake3_hash B raw \<noteq> chunk_id then Inl (HashMismatch 0) else Inr raw)"

definition download_chunk_job ::
  "('e, 'w) client_env \<Rightarrow> 'h blake3 \<Rightarrow> zstd \<Rightarrow> download_chunk_request \<Rightarrow> ('w, download_result) session_op" where
  "download_chunk_job E B Z request =
     st_bind (session_download_chunk E request) (\<lambda>compressed_bytes.
     st_bind (st_lift (decompress_chunk B Z (dcr_chunk_id request) compressed_bytes)) (\<lambda>raw_bytes.
     st_return \<lparr> dcs_chunk_id = dcr_chunk_id request, dcs_raw_bytes = raw_bytes \<rparr>))"

section \<open>The client\<close>

text \<open>The session of a storage is made once; a session keeps the client identifier it was made with.\<close>

definition storage_session :: "u64 \<Rightarrow> ('w, storage_session_inner) client_op" where
  "storage_session storage_id = (\<lambda>s.
     case hm_get (fcl_storage_sessions s) storage_id of
       Some x \<Rightarrow> (Inr x, s)
     | None \<Rightarrow>
         let x = storage_session_new (fcl_config s) (cse_client_id (fcl_central s)) storage_id in
         (Inr x, s\<lparr> fcl_storage_sessions := hm_insert storage_id x (fcl_storage_sessions s) \<rparr>))"

text \<open>Running an operation on the session of a storage.\<close>

definition in_session :: "u64 \<Rightarrow> ('w, 'a) session_op \<Rightarrow> ('w, 'a) client_op" where
  "in_session storage_id m = st_bind (storage_session storage_id) (\<lambda>x s.
     case m (x, s) of (r, (x', s')) \<Rightarrow> (r, s'\<lparr> fcl_storage_sessions := hm_insert storage_id x' (fcl_storage_sessions s') \<rparr>))"

definition client_connect :: "('e, 'w) client_env \<Rightarrow> client_config \<Rightarrow> 'w \<Rightarrow> unit fs0_result \<times> 'w fs0_client" where
  "client_connect E config w =
     st_bind (central_ensure_connected E) (\<lambda>_. st_return ())
       \<lparr> fcl_config = config, fcl_central = central_session_new config (clc_name config), fcl_storage_sessions = [], fcl_world = w \<rparr>"

definition close_storage_session :: "('e, 'w) client_env \<Rightarrow> storage_session_inner \<Rightarrow> ('w, unit) client_op" where
  "close_storage_session E x = (\<lambda>s. case session_close E (x, s) of (r, (x', s')) \<Rightarrow> (r, s'))"

definition close_storage_sessions :: "('e, 'w) client_env \<Rightarrow> ('w, unit) client_op" where
  "close_storage_sessions E =
     st_bind (st_gets (\<lambda>s. map snd (fcl_storage_sessions s))) (\<lambda>sessions.
     st_bind (st_modify (fcl_storage_sessions_update (\<lambda>_. []))) (\<lambda>_. st_iter (close_storage_session E) sessions))"

definition client_shutdown :: "('e, 'w) client_env \<Rightarrow> ('w, unit) client_op" where
  "client_shutdown E = st_bind (central_close E) (\<lambda>_. close_storage_sessions E)"

end
