(* ===== verification/Dir_Cache.thy ===== *)
theory Dir_Cache
  imports Fs0_Core "HOL-Library.Multiset"
begin

text \<open>
  The directory cache of \<^verbatim>\<open>fs0-central/src/db/dir.rs\<close>: two hash maps, from paths to directory
  identifiers with the time of the last access and back, bounded by trimming the least recently
  used entries. The maps are association lists; the order of the list is the (unspecified) order in which
  a \<open>HashMap\<close> iterates.
\<close>

section \<open>State and operations\<close>

definition ROOT_DIR_ID :: u64 where
  "ROOT_DIR_ID = 0"

definition DIR_CACHE_MAX_ENTRIES :: nat where
  "DIR_CACHE_MAX_ENTRIES = 8192"

definition DIR_CACHE_TRIM_TO_ENTRIES :: nat where
  "DIR_CACHE_TRIM_TO_ENTRIES = 6144"

record dir_cache_entry =
  dce_dir_id :: u64
  dce_last_access :: u64

record dir_cache_state =
  dcs_path_to_entry :: "(string, dir_cache_entry) hmap"
  dcs_id_to_path :: "(u64, string) hmap"
  dcs_next_access :: u64

definition dcs_new :: dir_cache_state where
  "dcs_new = \<lparr> dcs_path_to_entry = [], dcs_id_to_path = [], dcs_next_access = 1 \<rparr>"

definition next_access :: "dir_cache_state \<Rightarrow> u64 \<times> dir_cache_state" where
  "next_access c =
     (dcs_next_access c, c\<lparr> dcs_next_access := saturating_add (dcs_next_access c) 1 \<rparr>)"

definition get_id :: "string \<Rightarrow> dir_cache_state \<Rightarrow> u64 option \<times> dir_cache_state" where
  "get_id path c =
     (if path = ''/'' then (Some ROOT_DIR_ID, c)
      else let (last_access, c') = next_access c in
        case hm_get (dcs_path_to_entry c') path of
          None \<Rightarrow> (None, c')
        | Some entry \<Rightarrow>
            (Some (dce_dir_id entry),
             c'\<lparr> dcs_path_to_entry :=
                  hm_insert path (entry\<lparr> dce_last_access := last_access \<rparr>) (dcs_path_to_entry c') \<rparr>))"

definition get_path :: "u64 \<Rightarrow> dir_cache_state \<Rightarrow> string option \<times> dir_cache_state" where
  "get_path dir_id c =
     (if dir_id = ROOT_DIR_ID then (Some ''/'', c)
      else case hm_get (dcs_id_to_path c) dir_id of
        None \<Rightarrow> (None, c)
      | Some path \<Rightarrow>
          let (last_access, c') = next_access c in
          (Some path,
           case hm_get (dcs_path_to_entry c') path of
             None \<Rightarrow> c'
           | Some entry \<Rightarrow>
               c'\<lparr> dcs_path_to_entry :=
                    hm_insert path (entry\<lparr> dce_last_access := last_access \<rparr>) (dcs_path_to_entry c') \<rparr>))"

text \<open>The trimming loop of \<open>remember\<close>: a candidate is a path, its directory and its last access.\<close>

definition candidates :: "dir_cache_state \<Rightarrow> (string \<times> u64 \<times> u64) list" where
  "candidates c =
     map (\<lambda>(path, entry). (path, dce_dir_id entry, dce_last_access entry)) (dcs_path_to_entry c)"

definition evict :: "string \<times> u64 \<times> u64 \<Rightarrow> dir_cache_state \<Rightarrow> dir_cache_state" where
  "evict cand c =
     c\<lparr> dcs_path_to_entry := hm_remove (fst cand) (dcs_path_to_entry c),
        dcs_id_to_path := hm_remove (fst (snd cand)) (dcs_id_to_path c) \<rparr>"

definition trim :: "dir_cache_state \<Rightarrow> dir_cache_state" where
  "trim c =
     (let remove_count = length (dcs_path_to_entry c) - DIR_CACHE_TRIM_TO_ENTRIES
      in fold evict (take remove_count (sort_key (\<lambda>cand. snd (snd cand)) (candidates c))) c)"

definition remember :: "u64 \<Rightarrow> string \<Rightarrow> dir_cache_state \<Rightarrow> dir_cache_state" where
  "remember dir_id path c =
     (if dir_id = ROOT_DIR_ID \<or> path = ''/'' then c
      else
        let (last_access, c1) = next_access c;
            c2 = c1\<lparr> dcs_path_to_entry :=
                      hm_insert path \<lparr> dce_dir_id = dir_id, dce_last_access = last_access \<rparr>
                        (dcs_path_to_entry c1),
                    dcs_id_to_path := hm_insert dir_id path (dcs_id_to_path c1) \<rparr>
        in if length (dcs_path_to_entry c2) \<le> DIR_CACHE_MAX_ENTRIES then c2 else trim c2)"

definition forget :: "u64 \<Rightarrow> string \<Rightarrow> dir_cache_state \<Rightarrow> dir_cache_state" where
  "forget dir_id path c =
     (if dir_id = ROOT_DIR_ID \<or> path = ''/'' then c
      else c\<lparr> dcs_path_to_entry := hm_remove path (dcs_path_to_entry c),
              dcs_id_to_path := hm_remove dir_id (dcs_id_to_path c) \<rparr>)"

section \<open>What the cache answers\<close>

text \<open>The two maps without the access times.\<close>

definition cached_id :: "dir_cache_state \<Rightarrow> string \<Rightarrow> u64 option" where
  "cached_id c path = map_option dce_dir_id (hm_get (dcs_path_to_entry c) path)"

definition cached_path :: "dir_cache_state \<Rightarrow> u64 \<Rightarrow> string option" where
  "cached_path c dir_id = hm_get (dcs_id_to_path c) dir_id"

definition cache_inv :: "dir_cache_state \<Rightarrow> bool" where
  "cache_inv c \<longleftrightarrow>
     hm_ok (dcs_path_to_entry c) \<and> hm_ok (dcs_id_to_path c) \<and>
     length (dcs_path_to_entry c) \<le> DIR_CACHE_MAX_ENTRIES \<and>
     (\<forall>p d. cached_id c p = Some d \<longleftrightarrow> cached_path c d = Some p)"

lemma cached_new [simp]: "cached_id dcs_new = Map.empty" "cached_path dcs_new = Map.empty"
  by (simp_all add: fun_eq_iff cached_id_def cached_path_def dcs_new_def)

lemma cache_inv_new: "cache_inv dcs_new"
  by (simp add: cache_inv_def) (simp add: dcs_new_def hm_ok_def)

lemma get_id_result: "fst (get_id path c) = (if path = ''/'' then Some ROOT_DIR_ID else cached_id c path)"
  by (simp add: get_id_def next_access_def cached_id_def split: option.splits)

lemma get_path_result:
  "fst (get_path d c) = (if d = ROOT_DIR_ID then Some ''/'' else cached_path c d)"
  by (simp add: get_path_def next_access_def cached_path_def split: option.splits)

lemma cached_get_id [simp]:
  "cached_id (snd (get_id path c)) = cached_id c"
  "cached_path (snd (get_id path c)) = cached_path c"
  by (auto simp: fun_eq_iff get_id_def next_access_def cached_id_def cached_path_def update_conv'
      split: option.splits)

lemma cached_get_path [simp]:
  "cached_id (snd (get_path d c)) = cached_id c"
  "cached_path (snd (get_path d c)) = cached_path c"
  by (auto simp: fun_eq_iff get_path_def next_access_def cached_id_def cached_path_def update_conv'
      split: option.splits)

lemma length_update_existing: "map_of m k = Some v \<Longrightarrow> length (AList.update k w m) = length m"
  by (induction m) auto

lemma length_update_le: "length (AList.update k w m) \<le> Suc (length m)"
  by (induction m) auto

lemma cache_inv_get_id: "cache_inv c \<Longrightarrow> cache_inv (snd (get_id path c))"
  by (simp add: cache_inv_def)
    (auto simp: get_id_def next_access_def hm.ok_ins length_update_existing split: option.splits)

lemma cache_inv_get_path: "cache_inv c \<Longrightarrow> cache_inv (snd (get_path d c))"
  by (simp add: cache_inv_def)
    (auto simp: get_path_def next_access_def hm.ok_ins length_update_existing split: option.splits)

section \<open>Trimming\<close>

definition evicted :: "dir_cache_state \<Rightarrow> (string \<times> u64 \<times> u64) list" where
  "evicted c =
     take (length (dcs_path_to_entry c) - DIR_CACHE_TRIM_TO_ENTRIES)
       (sort_key (\<lambda>cand. snd (snd cand)) (candidates c))"

lemma trim_evicted: "trim c = fold evict (evicted c) c"
  by (simp add: trim_def evicted_def)

lemma fold_evict:
  "dcs_path_to_entry (fold evict cs c) =
     filter (\<lambda>(k, v). k \<notin> fst ` set cs) (dcs_path_to_entry c)"
  "dcs_id_to_path (fold evict cs c) =
     filter (\<lambda>(k, v). k \<notin> (fst \<circ> snd) ` set cs) (dcs_id_to_path c)"
  "dcs_next_access (fold evict cs c) = dcs_next_access c"
  by (induction cs arbitrary: c)
    (auto simp: evict_def AList.delete_eq intro!: filter_cong)

lemma map_of_filter_key: "map_of (filter (\<lambda>(k, v). P k) m) k = (if P k then map_of m k else None)"
  by (induction m) auto

lemma set_evicted: "set (evicted c) \<subseteq> set (candidates c)"
  unfolding evicted_def by (metis set_sort set_take_subset)

lemma evicted_entry:
  assumes "hm_ok (dcs_path_to_entry c)" and "(p, d, a) \<in> set (evicted c)"
  shows "cached_id c p = Some d"
proof -
  from assms(2) set_evicted have "(p, d, a) \<in> set (candidates c)" by blast
  then obtain e where "(p, e) \<in> set (dcs_path_to_entry c)" "d = dce_dir_id e"
    by (auto simp: candidates_def)
  with assms(1) show ?thesis
    by (simp add: cached_id_def hm_ok_def)
qed

lemma cached_id_trim:
  "cached_id (trim c) p = (if p \<in> fst ` set (evicted c) then None else cached_id c p)"
  by (simp add: cached_id_def trim_evicted fold_evict map_of_filter_key)

lemma cached_path_trim:
  "cached_path (trim c) d = (if d \<in> (fst \<circ> snd) ` set (evicted c) then None else cached_path c d)"
  by (simp add: cached_path_def trim_evicted fold_evict map_of_filter_key)

text \<open>Trimming leaves exactly \<open>DIR_CACHE_TRIM_TO_ENTRIES\<close> entries of a larger cache.\<close>

lemma length_trim:
  assumes ok: "hm_ok (dcs_path_to_entry c)"
    and big: "DIR_CACHE_TRIM_TO_ENTRIES \<le> length (dcs_path_to_entry c)"
  shows "length (dcs_path_to_entry (trim c)) = DIR_CACHE_TRIM_TO_ENTRIES"
proof -
  let ?m = "dcs_path_to_entry c" and ?E = "fst ` set (evicted c)"
  have keys: "map fst (candidates c) = map fst ?m"
    by (auto simp: candidates_def)
  have "mset (map fst (sort_key (\<lambda>cand. snd (snd cand)) (candidates c))) = mset (map fst ?m)"
    by (simp only: mset_map mset_sort flip: keys)
  then have "distinct (map fst (sort_key (\<lambda>cand. snd (snd cand)) (candidates c)))"
    using ok unfolding hm_ok_def by (metis mset_eq_imp_distinct_iff)
  then have dist: "distinct (map fst (evicted c))"
    by (simp add: evicted_def distinct_take flip: take_map)
  have "length (evicted c) = length ?m - DIR_CACHE_TRIM_TO_ENTRIES"
    by (simp add: evicted_def candidates_def)
  then have card: "card ?E = length ?m - DIR_CACHE_TRIM_TO_ENTRIES"
    using distinct_card [OF dist] by simp
  have sub: "?E \<subseteq> fst ` set ?m"
    using set_evicted keys by (metis image_mono list.set_map)
  have "length (dcs_path_to_entry (trim c)) = card (fst ` set (dcs_path_to_entry (trim c)))"
    using distinct_card [of "map fst (dcs_path_to_entry (trim c))"] hm_ok_filter [OF ok]
    by (simp add: hm_ok_def trim_evicted fold_evict)
  also have "fst ` set (dcs_path_to_entry (trim c)) = fst ` set ?m - ?E"
    by (force simp: trim_evicted fold_evict)
  also have "card \<dots> = length ?m - (length ?m - DIR_CACHE_TRIM_TO_ENTRIES)"
    using distinct_card [of "map fst ?m"] ok card card_Diff_subset [OF _ sub]
    by (simp add: hm_ok_def)
  finally show ?thesis using big by simp
qed

lemma cache_inv_trim:
  assumes ok: "hm_ok (dcs_path_to_entry c)" "hm_ok (dcs_id_to_path c)"
    and sync: "\<And>p d. cached_id c p = Some d \<longleftrightarrow> cached_path c d = Some p"
    and big: "DIR_CACHE_TRIM_TO_ENTRIES \<le> length (dcs_path_to_entry c)"
  shows "cache_inv (trim c)"
proof -
  have ev: "p \<in> fst ` set (evicted c) \<longleftrightarrow> d \<in> (fst \<circ> snd) ` set (evicted c)"
    if "cached_id c p = Some d" for p d
  proof
    assume "p \<in> fst ` set (evicted c)"
    then obtain d' a where "(p, d', a) \<in> set (evicted c)" by force
    moreover from this have "d' = d" using evicted_entry [OF ok(1)] that by fastforce
    ultimately show "d \<in> (fst \<circ> snd) ` set (evicted c)" by force
  next
    assume "d \<in> (fst \<circ> snd) ` set (evicted c)"
    then obtain p' a where "(p', d, a) \<in> set (evicted c)" by force
    moreover from this have "cached_id c p' = Some d" using evicted_entry [OF ok(1)] by blast
    then have "p' = p" using that sync by (metis option.inject)
    ultimately show "p \<in> fst ` set (evicted c)" by force
  qed
  have "cached_id (trim c) p = Some d \<longleftrightarrow> cached_path (trim c) d = Some p" for p d
    using ev [of p d] sync [of p d] unfolding cached_id_trim cached_path_trim
    by (auto split: if_splits)
  moreover have "hm_ok (dcs_path_to_entry (trim c))" "hm_ok (dcs_id_to_path (trim c))"
    using ok by (simp_all add: trim_evicted fold_evict hm_ok_filter)
  moreover have "length (dcs_path_to_entry (trim c)) \<le> DIR_CACHE_MAX_ENTRIES"
    using length_trim [OF ok(1) big] by (simp add: DIR_CACHE_TRIM_TO_ENTRIES_def DIR_CACHE_MAX_ENTRIES_def)
  ultimately show ?thesis by (simp add: cache_inv_def)
qed

section \<open>Remembering and forgetting\<close>

definition insert_entry :: "u64 \<Rightarrow> string \<Rightarrow> dir_cache_state \<Rightarrow> dir_cache_state" where
  "insert_entry d p c =
     (let (last_access, c1) = next_access c
      in c1\<lparr> dcs_path_to_entry :=
               hm_insert p \<lparr> dce_dir_id = d, dce_last_access = last_access \<rparr> (dcs_path_to_entry c1),
             dcs_id_to_path := hm_insert d p (dcs_id_to_path c1) \<rparr>)"

lemma remember_insert_entry:
  "remember d p c =
     (if d = ROOT_DIR_ID \<or> p = ''/'' then c
      else if length (dcs_path_to_entry (insert_entry d p c)) \<le> DIR_CACHE_MAX_ENTRIES
        then insert_entry d p c
      else trim (insert_entry d p c))"
  by (simp add: remember_def insert_entry_def next_access_def Let_def)

lemma cached_insert_entry [simp]:
  "cached_id (insert_entry d p c) = (cached_id c)(p \<mapsto> d)"
  "cached_path (insert_entry d p c) = (cached_path c)(d \<mapsto> p)"
  by (auto simp: fun_eq_iff cached_id_def cached_path_def insert_entry_def next_access_def update_conv')

lemma cached_remember:
  "cached_id (remember d p c) q = Some e \<Longrightarrow>
     (q = p \<and> e = d \<and> d \<noteq> ROOT_DIR_ID \<and> p \<noteq> ''/'') \<or> cached_id c q = Some e"
  "cached_path (remember d p c) e = Some q \<Longrightarrow>
     (q = p \<and> e = d \<and> d \<noteq> ROOT_DIR_ID \<and> p \<noteq> ''/'') \<or> cached_path c e = Some q"
  by (auto simp: remember_insert_entry cached_id_trim cached_path_trim split: if_splits)

lemma cache_inv_remember:
  assumes inv: "cache_inv c"
    and id: "\<And>e. cached_id c p = Some e \<Longrightarrow> e = d"
    and path: "\<And>q. cached_path c d = Some q \<Longrightarrow> q = p"
  shows "cache_inv (remember d p c)"
proof -
  let ?c = "insert_entry d p c"
  have ok: "hm_ok (dcs_path_to_entry ?c)" "hm_ok (dcs_id_to_path ?c)"
    using inv by (simp_all add: cache_inv_def insert_entry_def next_access_def hm.ok_ins)
  have sync: "cached_id ?c q = Some e \<longleftrightarrow> cached_path ?c e = Some q" for q e
    using inv id path unfolding cache_inv_def by auto
  show ?thesis
  proof (cases "length (dcs_path_to_entry ?c) \<le> DIR_CACHE_MAX_ENTRIES")
    case True
    then show ?thesis
      using inv ok sync by (auto simp: remember_insert_entry cache_inv_def)
  next
    case False
    then have "DIR_CACHE_TRIM_TO_ENTRIES \<le> length (dcs_path_to_entry ?c)"
      by (simp add: DIR_CACHE_TRIM_TO_ENTRIES_def DIR_CACHE_MAX_ENTRIES_def)
    with cache_inv_trim [OF ok sync] False inv show ?thesis
      by (simp add: remember_insert_entry)
  qed
qed

lemma cached_forget:
  "cached_id (forget d p c) =
     (if d = ROOT_DIR_ID \<or> p = ''/'' then cached_id c else (cached_id c)(p := None))"
  "cached_path (forget d p c) =
     (if d = ROOT_DIR_ID \<or> p = ''/'' then cached_path c else (cached_path c)(d := None))"
  by (auto simp: fun_eq_iff forget_def cached_id_def cached_path_def delete_conv')

lemma length_delete_le: "length (AList.delete k m) \<le> length m"
  by (simp add: AList.delete_eq)

lemma cache_inv_forget:
  assumes "cache_inv c"
    and "\<And>e. cached_id c p = Some e \<Longrightarrow> e = d"
    and "\<And>q. cached_path c d = Some q \<Longrightarrow> q = p"
  shows "cache_inv (forget d p c)"
proof -
  have "length (dcs_path_to_entry (forget d p c)) \<le> DIR_CACHE_MAX_ENTRIES"
    using assms(1) length_delete_le [of p "dcs_path_to_entry c"]
    by (simp add: cache_inv_def forget_def)
  moreover have "hm_ok (dcs_path_to_entry (forget d p c))" "hm_ok (dcs_id_to_path (forget d p c))"
    using assms(1) by (simp_all add: cache_inv_def forget_def hm.ok_rem)
  ultimately show ?thesis
    using assms unfolding cache_inv_def cached_forget by auto
qed

section \<open>Which entries survive\<close>

definition entry_access :: "dir_cache_state \<Rightarrow> string \<Rightarrow> u64 option" where
  "entry_access c p = map_option dce_last_access (hm_get (dcs_path_to_entry c) p)"

lemma sorted_take_le:
  "sorted (map f xs) \<Longrightarrow> x \<in> set (take n xs) \<Longrightarrow> y \<in> set (drop n xs) \<Longrightarrow> f x \<le> f y"
  by (metis (no_types, lifting) append_take_drop_id imageI list.set_map map_append sorted_append)

lemma trim_keeps_recent:
  assumes ok: "hm_ok (dcs_path_to_entry c)"
    and p: "entry_access c p = Some a" "cached_id (trim c) p = None"
    and q: "entry_access c q = Some b" "cached_id (trim c) q \<noteq> None"
  shows "a \<le> b"
proof -
  let ?n = "length (dcs_path_to_entry c) - DIR_CACHE_TRIM_TO_ENTRIES"
  let ?s = "sort_key (\<lambda>cand. snd (snd cand)) (candidates c)"
  obtain e where e: "hm_get (dcs_path_to_entry c) p = Some e" "a = dce_last_access e"
    using p(1) by (auto simp: entry_access_def)
  obtain f where f: "hm_get (dcs_path_to_entry c) q = Some f" "b = dce_last_access f"
    using q(1) by (auto simp: entry_access_def)
  from p(2) e have "p \<in> fst ` set (evicted c)"
    using cached_id_trim [of c p] by (auto simp: cached_id_def split: if_splits)
  then obtain d a' where pe: "(p, d, a') \<in> set (evicted c)" by force
  with set_evicted have "(p, d, a') \<in> set (candidates c)" by blast
  then have "a' = a"
    using ok e map_of_SomeD [OF e(1)] by (auto simp: candidates_def hm_ok_def dest: eq_key_imp_eq_value)
  have "(q, dce_dir_id f, b) \<in> set ?s"
    using f map_of_SomeD [OF f(1)] by (force simp: candidates_def)
  moreover have "(q, dce_dir_id f, b) \<notin> set (evicted c)"
    using q(2) cached_id_trim [of c q] image_eqI [of q fst "(q, dce_dir_id f, b)" "set (evicted c)"]
    by auto
  ultimately have "(q, dce_dir_id f, b) \<in> set (drop ?n ?s)"
    using set_append [of "take ?n ?s" "drop ?n ?s"] unfolding evicted_def by simp
  with \<open>a' = a\<close> show "a \<le> b"
    using sorted_take_le [of "\<lambda>cand. snd (snd cand)" ?s "(p, d, a')" ?n "(q, dce_dir_id f, b)"] pe
    by (simp add: evicted_def sorted_sort_key)
qed

end
