(* ===== verification/Sql_Base.thy ===== *)
theory Sql_Base
  imports Fs0_Core
begin

text \<open>
  What the central database and the database of a volume use of SQLite: the rows of a query collected up
  to the first error, the number of a new row, and the messages of failed constraints.
\<close>

fun collect_rows :: "('r \<Rightarrow> 'a fs0_result) \<Rightarrow> 'r list \<Rightarrow> ('a list) fs0_result" where
  "collect_rows f [] = Inr []"
| "collect_rows f (r # rs) = res_bind (f r) (\<lambda>x. res_bind (collect_rows f rs) (\<lambda>xs. Inr (x # xs)))"

text \<open>The largest row number so far plus one, or an error when it is the largest \<open>i64\<close>.\<close>

definition next_rowid :: "i64 \<Rightarrow> i64 list \<Rightarrow> i64 fs0_result" where
  "next_rowid seqno ids =
     (let m = fold max ids seqno
      in if unat m < 2 ^ 63 - 1 then Inr (m + 1) else Inl (Sqlite ''database or disk is full''))"

lemma next_rowid_code [code]:
  "next_rowid seqno ids =
     (let m = fold max ids seqno
      in if uint m < 2 ^ 63 - 1 then Inr (m + 1) else Inl (Sqlite ''database or disk is full''))"
proof -
  have "unat m < 2 ^ 63 - 1 \<longleftrightarrow> uint m < 2 ^ 63 - 1" for m :: i64
    unfolding uint_nat nat_less_int by simp
  then show ?thesis by (simp only: next_rowid_def)
qed

definition fk_error :: fs0_error where
  "fk_error = Sqlite ''FOREIGN KEY constraint failed''"

definition unique_error :: "string \<Rightarrow> fs0_error" where
  "unique_error cols = Sqlite (''UNIQUE constraint failed: '' @ cols)"

definition check_error :: "string \<Rightarrow> fs0_error" where
  "check_error cond = Sqlite (''CHECK constraint failed: '' @ cond)"

lemma collect_rows_ok: "(\<And>r. r \<in> set rs \<Longrightarrow> f r = Inr (g r)) \<Longrightarrow> collect_rows f rs = Inr (map g rs)"
  by (induction rs) auto

lemma fold_max_ge: "(m :: 'a :: linorder) \<le> fold max ids m" "i \<in> set ids \<Longrightarrow> i \<le> fold max ids m"
  by (induction ids arbitrary: m) (auto, meson max.bounded_iff, metis max.cobounded1 max.bounded_iff)

lemma next_rowid_Inr:
  assumes "next_rowid seqno ids = Inr r"
  shows "fits_i64 r" and "seqno < r" and "\<And>i. i \<in> set ids \<Longrightarrow> i < r" and "r \<noteq> 0"
proof -
  define m where "m = fold max ids seqno"
  from assms have m: "unat m < 2 ^ 63 - 1" and r: "r = m + 1"
    by (auto simp: next_rowid_def m_def Let_def split: if_splits)
  then have u: "unat r = unat m + 1" by (simp add: unat_word_ariths)
  then have lt: "i < r" if "i \<le> m" for i
    using that by (simp add: word_le_nat_alt word_less_nat_alt)
  from m u show "fits_i64 r" by (simp add: fits_i64_def)
  from u show "r \<noteq> 0" by auto
  show "seqno < r" and "\<And>i. i \<in> set ids \<Longrightarrow> i < r"
    using lt fold_max_ge [where m = seqno and ids = ids] by (auto simp: m_def)
qed

lemma next_rowid_Inl: "next_rowid seqno ids = Inl e \<Longrightarrow> e = Sqlite ''database or disk is full''"
  by (auto simp: next_rowid_def Let_def split: if_splits)

end
