(* ===== verification/Central_Schema.thy ===== *)
theory Central_Schema
  imports Fs0_Protocol Dir_Cache Sql_Base
begin

text \<open>
  The database of the central server: the tables of \<^verbatim>\<open>fs0-central/src/db/schema.sql\<close> as lists of rows,
  the SQL statements the code runs on them with the constraints of the schema, and transactions.
  An \<open>INTEGER\<close> column holds an \<open>i64\<close>. A statement that violates a constraint fails with SQLite's
  message and leaves the tables as they were; \<open>AUTOINCREMENT\<close> tables carry their sequence number.
  The only failure of the database itself that is modelled is that of \<open>COMMIT\<close>, an argument of \<open>run_tx\<close>.
\<close>

section \<open>Rows and tables\<close>

record volume_row =
  vr_volume_id :: i64
  vr_name :: string
  vr_max_bytes :: i64
  vr_max_volume_offset :: i64

record dir_row =
  dr_dir_id :: i64
  dr_parent_dir_id :: "i64 option"
  dr_name :: string

record file_row =
  fr_file_id :: i64
  fr_dir_id :: i64
  fr_name :: string
  fr_size_bytes :: i64
  fr_compressed_size_bytes :: i64
  fr_created_at_ms :: i64
  fr_updated_at_ms :: i64

record file_bundle_row =
  fb_file_id :: i64
  fb_bundle_index :: i64
  fb_bundle_id :: hash_id

record bundle_replica_row =
  br_bundle_id :: hash_id
  br_volume_id :: i64
  br_raw_len :: i64
  br_compressed_len :: i64

record lease_row =
  lr_lease_id :: i64
  lr_file_id :: i64
  lr_volume_id :: i64
  lr_base_size_bytes :: i64
  lr_offset_bytes :: i64
  lr_prefer_volume_name :: "string option"
  lr_expires_at_ms :: i64
  lr_created_at_ms :: i64

record event_row =
  er_event_id :: i64
  er_event_type :: string
  er_new_dir :: "string option"
  er_new_name :: "string option"
  er_file_id :: "i64 option"
  er_created_at_ms :: i64

record central_tables =
  t_volumes :: "volume_row list"
  t_volumes_seq :: i64
  t_dirs :: "dir_row list"
  t_files :: "file_row list"
  t_files_seq :: i64
  t_file_bundles :: "file_bundle_row list"
  t_replicas :: "bundle_replica_row list"
  t_leases :: "lease_row list"
  t_leases_seq :: i64
  t_events :: "event_row list"
  t_events_seq :: i64

definition root_row :: dir_row where
  "root_row = \<lparr> dr_dir_id = 0, dr_parent_dir_id = None, dr_name = [] \<rparr>"

text \<open>The database that \<open>CentralDb::open\<close> creates.\<close>

definition empty_tables :: central_tables where
  "empty_tables = \<lparr> t_volumes = [], t_volumes_seq = 0, t_dirs = [root_row], t_files = [], t_files_seq = 0,
     t_file_bundles = [], t_replicas = [], t_leases = [], t_leases_seq = 0, t_events = [], t_events_seq = 0 \<rparr>"

record central_db =
  db_conn :: central_tables
  db_dir_cache :: dir_cache_state

definition central_db_open :: central_db where
  "central_db_open = \<lparr> db_conn = empty_tables, db_dir_cache = dcs_new \<rparr>"

text \<open>Opening a file that exists: the statements of the schema find their tables and the root there, the cache is new.\<close>

definition central_db_load :: "central_tables \<Rightarrow> central_db" where
  "central_db_load tables = \<lparr> db_conn = tables, db_dir_cache = dcs_new \<rparr>"

type_synonym 'a tx = "(central_db, fs0_error, 'a) st"

abbreviation dirs_of :: "central_db \<Rightarrow> dir_row list" where
  "dirs_of s \<equiv> t_dirs (db_conn s)"

abbreviation files_of :: "central_db \<Rightarrow> file_row list" where
  "files_of s \<equiv> t_files (db_conn s)"

section \<open>Statements\<close>

text \<open>\<open>query_row(..).optional()\<close>: the first row, if there is one, read by the row function.\<close>

definition query_optional :: "(central_tables \<Rightarrow> 'r option) \<Rightarrow> ('r \<Rightarrow> 'a fs0_result) \<Rightarrow> 'a option tx" where
  "query_optional q f = (\<lambda>s.
     case q (db_conn s) of
       None \<Rightarrow> (Inr None, s)
     | Some r \<Rightarrow> (res_bind (f r) (\<lambda>x. Inr (Some x)), s))"

text \<open>\<open>query_map\<close> and the loop that collects its rows up to the first error.\<close>

definition query_map :: "(central_tables \<Rightarrow> 'r list) \<Rightarrow> ('r \<Rightarrow> 'a fs0_result) \<Rightarrow> 'a list tx" where
  "query_map q f = (\<lambda>s. (collect_rows f (q (db_conn s)), s))"

definition exec :: "(central_tables \<Rightarrow> ('a \<times> central_tables) fs0_result) \<Rightarrow> 'a tx" where
  "exec stmt = (\<lambda>s.
     case stmt (db_conn s) of
       Inl e \<Rightarrow> (Inl e, s)
     | Inr (x, t) \<Rightarrow> (Inr x, s\<lparr> db_conn := t \<rparr>))"

definition insert_volume :: "string \<Rightarrow> i64 \<Rightarrow> central_tables \<Rightarrow> (i64 \<times> central_tables) fs0_result" where
  "insert_volume name max_bytes t =
     res_bind (next_rowid (t_volumes_seq t) (map vr_volume_id (t_volumes t))) (\<lambda>rowid.
       Inr (rowid, t\<lparr> t_volumes := t_volumes t @
             [\<lparr> vr_volume_id = rowid, vr_name = name, vr_max_bytes = max_bytes, vr_max_volume_offset = 0 \<rparr>],
           t_volumes_seq := rowid \<rparr>))"

definition update_volume_offset_stmt ::
    "i64 \<Rightarrow> i64 \<Rightarrow> central_tables \<Rightarrow> (nat \<times> central_tables) fs0_result" where
  "update_volume_offset_stmt volume_id off t =
     Inr (length (filter (\<lambda>r. vr_volume_id r = volume_id) (t_volumes t)),
          t\<lparr> t_volumes := map (\<lambda>r. if vr_volume_id r = volume_id then r\<lparr> vr_max_volume_offset := off \<rparr> else r)
               (t_volumes t) \<rparr>)"

definition insert_dir :: "i64 \<Rightarrow> string \<Rightarrow> central_tables \<Rightarrow> (i64 \<times> central_tables) fs0_result" where
  "insert_dir parent name t =
     res_bind (next_rowid 0 (map dr_dir_id (t_dirs t))) (\<lambda>rowid.
       if name = [] then Inl (check_error ''dir_id != 0 AND parent_dir_id IS NOT NULL AND name != empty'')
       else if list_ex (\<lambda>r. dr_parent_dir_id r = Some parent \<and> dr_name r = name) (t_dirs t)
       then Inl (unique_error ''dirs.parent_dir_id, dirs.name'')
       else if \<not> list_ex (\<lambda>r. dr_dir_id r = parent) (t_dirs t) \<and> parent \<noteq> rowid then Inl fk_error
       else Inr (rowid, t\<lparr> t_dirs := t_dirs t @
             [\<lparr> dr_dir_id = rowid, dr_parent_dir_id = Some parent, dr_name = name \<rparr>] \<rparr>))"

definition delete_dir_stmt :: "i64 \<Rightarrow> central_tables \<Rightarrow> (unit \<times> central_tables) fs0_result" where
  "delete_dir_stmt dir_id t =
     (let ds = filter (\<lambda>r. dr_dir_id r \<noteq> dir_id) (t_dirs t) in
      if list_ex (\<lambda>r. dr_dir_id r = dir_id) (t_dirs t) \<and>
         (list_ex (\<lambda>r. dr_parent_dir_id r = Some dir_id) ds \<or> list_ex (\<lambda>f. fr_dir_id f = dir_id) (t_files t))
      then Inl fk_error
      else Inr ((), t\<lparr> t_dirs := ds \<rparr>))"

definition insert_file ::
    "i64 \<Rightarrow> string \<Rightarrow> i64 \<Rightarrow> i64 \<Rightarrow> i64 \<Rightarrow> central_tables \<Rightarrow> (i64 \<times> central_tables) fs0_result" where
  "insert_file dir_id name sz csz now t =
     res_bind (next_rowid (t_files_seq t) (map fr_file_id (t_files t))) (\<lambda>rowid.
       if list_ex (\<lambda>r. fr_dir_id r = dir_id \<and> fr_name r = name) (t_files t)
       then Inl (unique_error ''files.dir_id, files.name'')
       else if \<not> list_ex (\<lambda>r. dr_dir_id r = dir_id) (t_dirs t) then Inl fk_error
       else Inr (rowid, t\<lparr> t_files := t_files t @
             [\<lparr> fr_file_id = rowid, fr_dir_id = dir_id, fr_name = name, fr_size_bytes = sz,
                fr_compressed_size_bytes = csz, fr_created_at_ms = now, fr_updated_at_ms = now \<rparr>],
           t_files_seq := rowid \<rparr>))"

text \<open>\<open>DELETE FROM files\<close>, whose foreign keys cascade to bundles and leases; it returns \<open>changes()\<close>.\<close>

definition delete_file_stmt :: "i64 \<Rightarrow> central_tables \<Rightarrow> (nat \<times> central_tables) fs0_result" where
  "delete_file_stmt file_id t =
     Inr (length (filter (\<lambda>r. fr_file_id r = file_id) (t_files t)),
          if list_ex (\<lambda>r. fr_file_id r = file_id) (t_files t)
          then t\<lparr> t_files := filter (\<lambda>r. fr_file_id r \<noteq> file_id) (t_files t),
                  t_file_bundles := filter (\<lambda>r. fb_file_id r \<noteq> file_id) (t_file_bundles t),
                  t_leases := filter (\<lambda>r. lr_file_id r \<noteq> file_id) (t_leases t) \<rparr>
          else t)"

definition move_file_stmt ::
    "i64 \<Rightarrow> i64 \<Rightarrow> string \<Rightarrow> i64 \<Rightarrow> central_tables \<Rightarrow> (nat \<times> central_tables) fs0_result" where
  "move_file_stmt file_id dir_id name now t =
     (if \<not> list_ex (\<lambda>r. fr_file_id r = file_id) (t_files t) then Inr (0, t)
      else if list_ex (\<lambda>r. fr_file_id r \<noteq> file_id \<and> fr_dir_id r = dir_id \<and> fr_name r = name) (t_files t)
      then Inl (unique_error ''files.dir_id, files.name'')
      else if \<not> list_ex (\<lambda>r. dr_dir_id r = dir_id) (t_dirs t) then Inl fk_error
      else Inr (length (filter (\<lambda>r. fr_file_id r = file_id) (t_files t)),
        t\<lparr> t_files := map (\<lambda>r. if fr_file_id r = file_id
              then r\<lparr> fr_dir_id := dir_id, fr_name := name, fr_updated_at_ms := now \<rparr> else r) (t_files t) \<rparr>))"

definition resize_file_stmt ::
    "i64 \<Rightarrow> i64 \<Rightarrow> i64 \<Rightarrow> i64 \<Rightarrow> central_tables \<Rightarrow> (nat \<times> central_tables) fs0_result" where
  "resize_file_stmt file_id sz csz now t =
     Inr (length (filter (\<lambda>r. fr_file_id r = file_id) (t_files t)),
        t\<lparr> t_files := map (\<lambda>r. if fr_file_id r = file_id
              then r\<lparr> fr_size_bytes := sz, fr_compressed_size_bytes := csz, fr_updated_at_ms := now \<rparr>
              else r) (t_files t) \<rparr>)"

definition delete_file_bundles_stmt :: "i64 \<Rightarrow> central_tables \<Rightarrow> (unit \<times> central_tables) fs0_result" where
  "delete_file_bundles_stmt file_id t =
     Inr ((), t\<lparr> t_file_bundles := filter (\<lambda>r. fb_file_id r \<noteq> file_id) (t_file_bundles t) \<rparr>)"

definition insert_file_bundle ::
    "i64 \<Rightarrow> i64 \<Rightarrow> hash_id \<Rightarrow> central_tables \<Rightarrow> (unit \<times> central_tables) fs0_result" where
  "insert_file_bundle file_id index bundle_id t =
     (if length (as_bytes bundle_id) \<noteq> 32 then Inl (check_error ''length(bundle_id) = 32'')
      else if list_ex (\<lambda>r. fb_file_id r = file_id \<and> fb_bundle_index r = index) (t_file_bundles t)
      then Inl (unique_error ''file_bundles.file_id, file_bundles.bundle_index'')
      else if \<not> list_ex (\<lambda>r. fr_file_id r = file_id) (t_files t) then Inl fk_error
      else Inr ((), t\<lparr> t_file_bundles := t_file_bundles t @
            [\<lparr> fb_file_id = file_id, fb_bundle_index = index, fb_bundle_id = bundle_id \<rparr>] \<rparr>))"

text \<open>\<open>INSERT .. SELECT\<close>: the rows selected before the insertion, in one statement.\<close>

definition copy_file_bundles_stmt :: "i64 \<Rightarrow> i64 \<Rightarrow> central_tables \<Rightarrow> (unit \<times> central_tables) fs0_result" where
  "copy_file_bundles_stmt target source t =
     (let rows = map (\<lambda>r. r\<lparr> fb_file_id := target \<rparr>) (filter (\<lambda>r. fb_file_id r = source) (t_file_bundles t)) in
      if list_ex (\<lambda>n. list_ex (\<lambda>r. fb_file_id r = target \<and> fb_bundle_index r = fb_bundle_index n) (t_file_bundles t)) rows
      then Inl (unique_error ''file_bundles.file_id, file_bundles.bundle_index'')
      else if rows \<noteq> [] \<and> \<not> list_ex (\<lambda>r. fr_file_id r = target) (t_files t) then Inl fk_error
      else Inr ((), t\<lparr> t_file_bundles := t_file_bundles t @ rows \<rparr>))"

text \<open>\<open>INSERT .. ON CONFLICT DO UPDATE\<close> on the primary key of \<open>bundle_replicas\<close>.\<close>

definition upsert_replica_stmt ::
    "hash_id \<Rightarrow> i64 \<Rightarrow> i64 \<Rightarrow> i64 \<Rightarrow> central_tables \<Rightarrow> (unit \<times> central_tables) fs0_result" where
  "upsert_replica_stmt bundle_id volume_id raw_len compressed_len t =
     (if length (as_bytes bundle_id) \<noteq> 32 then Inl (check_error ''length(bundle_id) = 32'')
      else if list_ex (\<lambda>r. br_bundle_id r = bundle_id \<and> br_volume_id r = volume_id) (t_replicas t)
      then Inr ((), t\<lparr> t_replicas := map (\<lambda>r.
             if br_bundle_id r = bundle_id \<and> br_volume_id r = volume_id \<and>
                (br_raw_len r \<noteq> raw_len \<or> br_compressed_len r \<noteq> compressed_len)
             then r\<lparr> br_raw_len := raw_len, br_compressed_len := compressed_len \<rparr> else r) (t_replicas t) \<rparr>)
      else if \<not> list_ex (\<lambda>r. vr_volume_id r = volume_id) (t_volumes t) then Inl fk_error
      else Inr ((), t\<lparr> t_replicas := t_replicas t @
            [\<lparr> br_bundle_id = bundle_id, br_volume_id = volume_id, br_raw_len = raw_len,
               br_compressed_len = compressed_len \<rparr>] \<rparr>))"

definition delete_replica_stmt :: "hash_id \<Rightarrow> i64 \<Rightarrow> central_tables \<Rightarrow> (unit \<times> central_tables) fs0_result" where
  "delete_replica_stmt bundle_id volume_id t =
     Inr ((), t\<lparr> t_replicas :=
       filter (\<lambda>r. \<not> (br_bundle_id r = bundle_id \<and> br_volume_id r = volume_id)) (t_replicas t) \<rparr>)"

text \<open>The arguments of the statement are a row whose identifier is not yet set.\<close>

definition insert_lease :: "lease_row \<Rightarrow> central_tables \<Rightarrow> (i64 \<times> central_tables) fs0_result" where
  "insert_lease l t =
     res_bind (next_rowid (t_leases_seq t) (map lr_lease_id (t_leases t))) (\<lambda>rowid.
       if list_ex (\<lambda>r. lr_file_id r = lr_file_id l) (t_leases t)
       then Inl (unique_error ''update_leases.file_id'')
       else if \<not> list_ex (\<lambda>r. fr_file_id r = lr_file_id l) (t_files t) \<or>
               \<not> list_ex (\<lambda>r. vr_volume_id r = lr_volume_id l) (t_volumes t)
       then Inl fk_error
       else Inr (rowid, t\<lparr> t_leases := t_leases t @ [l\<lparr> lr_lease_id := rowid \<rparr>], t_leases_seq := rowid \<rparr>))"

definition delete_leases_stmt ::
    "(lease_row \<Rightarrow> bool) \<Rightarrow> central_tables \<Rightarrow> (unit \<times> central_tables) fs0_result" where
  "delete_leases_stmt P t = Inr ((), t\<lparr> t_leases := filter (\<lambda>r. \<not> P r) (t_leases t) \<rparr>)"

definition insert_event ::
    "string \<Rightarrow> string option \<Rightarrow> string option \<Rightarrow> i64 option \<Rightarrow> i64 \<Rightarrow> central_tables \<Rightarrow>
     (i64 \<times> central_tables) fs0_result" where
  "insert_event event_type new_dir new_name file_id created_at_ms t =
     res_bind (next_rowid (t_events_seq t) (map er_event_id (t_events t))) (\<lambda>rowid.
       Inr (rowid, t\<lparr> t_events := t_events t @
             [\<lparr> er_event_id = rowid, er_event_type = event_type, er_new_dir = new_dir, er_new_name = new_name,
                er_file_id = file_id, er_created_at_ms = created_at_ms \<rparr>],
           t_events_seq := rowid \<rparr>))"

section \<open>Transactions\<close>

text \<open>
  \<open>tx()\<close>, the body, and \<open>commit()\<close>. A body that returns early drops the transaction, which rolls the
  tables back; the directory cache is outside the transaction and keeps what the body did to it.
  A failing \<open>COMMIT\<close> also rolls back.
\<close>

definition run_tx :: "fs0_error option \<Rightarrow> 'a tx \<Rightarrow> 'a tx" where
  "run_tx commit_err body = (\<lambda>s.
     case body s of
       (Inl e, s') \<Rightarrow> (Inl e, s'\<lparr> db_conn := db_conn s \<rparr>)
     | (Inr x, s') \<Rightarrow>
         (case commit_err of None \<Rightarrow> (Inr x, s') | Some e \<Rightarrow> (Inl e, s'\<lparr> db_conn := db_conn s \<rparr>)))"

text \<open>A transaction that the handler drops without committing.\<close>

definition run_read_tx :: "'a tx \<Rightarrow> 'a tx" where
  "run_read_tx body = (\<lambda>s. case body s of (r, s') \<Rightarrow> (r, s'\<lparr> db_conn := db_conn s \<rparr>))"

lemma run_tx_error_rolls_back: "run_tx ce body s = (Inl e, s') \<Longrightarrow> db_conn s' = db_conn s"
  by (auto simp: run_tx_def split: prod.splits sum.splits option.splits)

lemma run_tx_Inr_iff: "run_tx ce body s = (Inr x, s') \<longleftrightarrow> body s = (Inr x, s') \<and> ce = None"
  by (auto simp: run_tx_def split: prod.splits sum.splits option.splits)

lemma run_read_tx_conn: "db_conn (snd (run_read_tx body s)) = db_conn s"
  by (simp add: run_read_tx_def split: prod.splits)

lemma run_read_tx_fst: "fst (run_read_tx body s) = fst (body s)"
  by (simp add: run_read_tx_def split: prod.splits)

lemma query_optional_ok:
  "(\<And>r. q (db_conn s) = Some r \<Longrightarrow> f r = Inr (g r)) \<Longrightarrow>
     query_optional q f s = (Inr (map_option g (q (db_conn s))), s)"
  by (auto simp: query_optional_def split: option.splits)

lemma query_optional_state [simp]: "snd (query_optional q f s) = s"
  by (auto simp: query_optional_def split: option.splits)

lemma query_map_state [simp]: "snd (query_map q f s) = s"
  by (simp add: query_map_def)

lemma exec_Inr_iff:
  "exec stmt s = (Inr x, s') \<longleftrightarrow> (\<exists>t. stmt (db_conn s) = Inr (x, t) \<and> s' = s\<lparr> db_conn := t \<rparr>)"
  by (auto simp: exec_def split: sum.splits)

lemma exec_Inl_iff: "exec stmt s = (Inl e, s') \<longleftrightarrow> stmt (db_conn s) = Inl e \<and> s' = s"
  by (auto simp: exec_def split: sum.splits)

section \<open>The invariant of the tables other than the tree\<close>

text \<open>
  Keys are unique, references exist, numbers fit a non-negative \<open>i64\<close>, lengths of replicas are positive and
  events are numbered in order. The invariant of directories and files is in the theory of directories.
\<close>

definition volumes_inv :: "central_tables \<Rightarrow> bool" where
  "volumes_inv t \<longleftrightarrow>
     distinct (map vr_volume_id (t_volumes t)) \<and> fits_i64 (t_volumes_seq t) \<and>
     (\<forall>v\<in>set (t_volumes t). vr_volume_id v \<le> t_volumes_seq t \<and> fits_i64 (vr_max_bytes v) \<and>
        fits_i64 (vr_max_volume_offset v))"

definition bundles_inv :: "central_tables \<Rightarrow> bool" where
  "bundles_inv t \<longleftrightarrow>
     distinct (map (\<lambda>b. (fb_file_id b, fb_bundle_index b)) (t_file_bundles t)) \<and>
     (\<forall>b\<in>set (t_file_bundles t). hash_ok (fb_bundle_id b) \<and> fits_i64 (fb_bundle_index b) \<and>
        fb_file_id b \<in> fr_file_id ` set (t_files t))"

definition replicas_inv :: "central_tables \<Rightarrow> bool" where
  "replicas_inv t \<longleftrightarrow>
     distinct (map (\<lambda>r. (br_bundle_id r, br_volume_id r)) (t_replicas t)) \<and>
     (\<forall>r\<in>set (t_replicas t). hash_ok (br_bundle_id r) \<and> br_volume_id r \<in> vr_volume_id ` set (t_volumes t) \<and>
        fits_i64 (br_raw_len r) \<and> fits_i64 (br_compressed_len r) \<and> br_raw_len r \<noteq> 0 \<and> br_compressed_len r \<noteq> 0)"

definition leases_inv :: "central_tables \<Rightarrow> bool" where
  "leases_inv t \<longleftrightarrow>
     distinct (map lr_lease_id (t_leases t)) \<and> distinct (map lr_file_id (t_leases t)) \<and>
     fits_i64 (t_leases_seq t) \<and>
     (\<forall>l\<in>set (t_leases t). lr_lease_id l \<le> t_leases_seq t \<and> lr_file_id l \<in> fr_file_id ` set (t_files t) \<and>
        lr_volume_id l \<in> vr_volume_id ` set (t_volumes t) \<and> fits_i64 (lr_base_size_bytes l) \<and>
        fits_i64 (lr_offset_bytes l) \<and> fits_i64 (lr_expires_at_ms l) \<and> fits_i64 (lr_created_at_ms l))"

definition event_types :: "string list" where
  "event_types = [''created'', ''updated'', ''moved'', ''deleted'']"

definition events_inv :: "central_tables \<Rightarrow> bool" where
  "events_inv t \<longleftrightarrow>
     sorted_wrt (<) (map er_event_id (t_events t)) \<and> fits_i64 (t_events_seq t) \<and>
     (\<forall>e\<in>set (t_events t). er_event_id e \<le> t_events_seq t \<and> er_event_type e \<in> set event_types \<and>
        fits_i64 (er_created_at_ms e) \<and> (case er_file_id e of None \<Rightarrow> True | Some i \<Rightarrow> fits_i64 i))"

definition links_ok :: "central_tables \<Rightarrow> bool" where
  "links_ok t \<longleftrightarrow> volumes_inv t \<and> bundles_inv t \<and> replicas_inv t \<and> leases_inv t \<and> events_inv t"

lemmas links_defs = links_ok_def volumes_inv_def bundles_inv_def replicas_inv_def leases_inv_def events_inv_def

lemma links_ok_empty: "links_ok empty_tables"
  by (simp add: links_defs empty_tables_def fits_i64_def)

text \<open>The links mention only the identifiers of files and volumes.\<close>

lemma links_ok_dirs [simp]: "links_ok (t\<lparr> t_dirs := ds \<rparr>) \<longleftrightarrow> links_ok t"
  by (simp add: links_defs)

lemma links_ok_files:
  assumes "links_ok t" and "fr_file_id ` set (t_files t) \<subseteq> fr_file_id ` set fs"
  shows "links_ok (t\<lparr> t_files := fs \<rparr>)" and "links_ok (t\<lparr> t_files := fs, t_files_seq := n \<rparr>)"
  using assms by (auto simp: links_defs)

end
