(* ===== verification/Central_Dir.thy ===== *)
theory Central_Dir
  imports Central_Schema "HOL-Library.Sublist"
begin

text \<open>
  The directory layer of the central server, \<^verbatim>\<open>fs0-central/src/db/dir.rs\<close>: resolving a path to a directory
  through the cache, creating the directories of a path, printing the path of a directory, removing an
  empty directory, and the check that a name is free. The reference definition of all of them is \<open>walk\<close>,
  the descent from the root along the rows of \<open>dirs\<close> with no cache.
\<close>

section \<open>Operations\<close>

definition cache_get_id :: "string \<Rightarrow> u64 option tx" where
  "cache_get_id path = (\<lambda>s.
     case get_id path (db_dir_cache s) of (r, c) \<Rightarrow> (Inr r, s\<lparr> db_dir_cache := c \<rparr>))"

definition cache_get_path :: "u64 \<Rightarrow> string option tx" where
  "cache_get_path dir_id = (\<lambda>s.
     case get_path dir_id (db_dir_cache s) of (r, c) \<Rightarrow> (Inr r, s\<lparr> db_dir_cache := c \<rparr>))"

definition cache_remember :: "u64 \<Rightarrow> string \<Rightarrow> unit tx" where
  "cache_remember dir_id path =
     st_modify (\<lambda>s. s\<lparr> db_dir_cache := remember dir_id path (db_dir_cache s) \<rparr>)"

definition cache_forget :: "u64 \<Rightarrow> string \<Rightarrow> unit tx" where
  "cache_forget dir_id path =
     st_modify (\<lambda>s. s\<lparr> db_dir_cache := forget dir_id path (db_dir_cache s) \<rparr>)"

text \<open>\<^verbatim>\<open>SELECT dir_id FROM dirs WHERE parent_dir_id = ?1 AND name = ?2\<close>\<close>

definition child_row :: "dir_row list \<Rightarrow> u64 \<Rightarrow> string \<Rightarrow> dir_row option" where
  "child_row ds parent name = find (\<lambda>r. dr_parent_dir_id r = Some parent \<and> dr_name r = name) ds"

definition select_child_dir :: "u64 \<Rightarrow> string \<Rightarrow> u64 option tx" where
  "select_child_dir parent name =
     st_bind (st_lift (u64_to_i64 parent ''parent_dir_id'')) (\<lambda>p.
       query_optional (\<lambda>t. child_row (t_dirs t) p name) (\<lambda>r. row_u64 0 ''dir_id'' (dr_dir_id r)))"

definition child_file_row :: "file_row list \<Rightarrow> u64 \<Rightarrow> string \<Rightarrow> file_row option" where
  "child_file_row fs parent name = find (\<lambda>r. fr_dir_id r = parent \<and> fr_name r = name) fs"

definition ensure_child_name_available :: "u64 \<Rightarrow> string \<Rightarrow> u64 option \<Rightarrow> string \<Rightarrow> unit tx" where
  "ensure_child_name_available parent_dir_id name existing_file_id path =
     st_bind (st_lift (u64_to_i64 parent_dir_id ''parent_dir_id'')) (\<lambda>p.
     st_bind (query_optional (\<lambda>t. child_row (t_dirs t) p name) (\<lambda>_. Inr ())) (\<lambda>child_dir.
     if child_dir \<noteq> None then st_throw (AlreadyExists path)
     else
       st_bind (st_lift (u64_to_i64 parent_dir_id ''parent_dir_id'')) (\<lambda>p.
       st_bind (query_optional (\<lambda>t. child_file_row (t_files t) p name)
                  (\<lambda>r. row_u64 0 ''file_id'' (fr_file_id r))) (\<lambda>child_file.
       if (case child_file of None \<Rightarrow> False | Some file_id \<Rightarrow> Some file_id \<noteq> existing_file_id)
       then st_throw (AlreadyExists path)
       else st_return ()))))"

text \<open>The body of the loop of \<open>create_dir\<close>: the directory of the next name, created if needed.\<close>

definition create_dir_body :: "u64 \<Rightarrow> string \<Rightarrow> string \<Rightarrow> u64 tx" where
  "create_dir_body dir_id name current_path =
     st_bind (cache_get_id current_path) (\<lambda>cached.
     case cached of
       Some cached_dir_id \<Rightarrow> st_return cached_dir_id
     | None \<Rightarrow>
         st_bind (select_child_dir dir_id name) (\<lambda>existing.
         case existing of
           Some existing_dir_id \<Rightarrow>
             st_bind (cache_remember existing_dir_id current_path) (\<lambda>_. st_return existing_dir_id)
         | None \<Rightarrow>
             st_bind (ensure_child_name_available dir_id name None current_path) (\<lambda>_.
             st_bind (st_lift (u64_to_i64 dir_id ''parent_dir_id'')) (\<lambda>p.
             st_bind (exec (insert_dir p name)) (\<lambda>rowid.
             st_lift (i64_to_u64 rowid ''dir_id''))))))"

fun create_dir_loop :: "string list \<Rightarrow> u64 \<Rightarrow> string \<Rightarrow> u64 tx" where
  "create_dir_loop [] dir_id current_path = st_return dir_id"
| "create_dir_loop (name # names) dir_id current_path =
     st_bind (st_lift (join_fs0_path current_path name)) (\<lambda>current_path.
     st_bind (create_dir_body dir_id name current_path) (\<lambda>dir_id.
     create_dir_loop names dir_id current_path))"

definition create_dir :: "string \<Rightarrow> u64 tx" where
  "create_dir path =
     st_bind (cache_get_id path) (\<lambda>cached.
     case cached of
       Some dir_id \<Rightarrow> st_return dir_id
     | None \<Rightarrow>
         st_bind (st_lift (split_fs0_path_components path)) (\<lambda>names.
         create_dir_loop names ROOT_DIR_ID ''/''))"

definition get_dir_id_body :: "u64 \<Rightarrow> string \<Rightarrow> string \<Rightarrow> u64 tx" where
  "get_dir_id_body dir_id name current_path =
     st_bind (cache_get_id current_path) (\<lambda>cached.
     case cached of
       Some cached_dir_id \<Rightarrow> st_return cached_dir_id
     | None \<Rightarrow>
         st_bind (select_child_dir dir_id name) (\<lambda>found.
         st_bind (st_lift (ok_or NotFound found)) (\<lambda>dir_id.
         st_bind (cache_remember dir_id current_path) (\<lambda>_. st_return dir_id))))"

fun get_dir_id_loop :: "string list \<Rightarrow> u64 \<Rightarrow> string \<Rightarrow> u64 tx" where
  "get_dir_id_loop [] dir_id current_path = st_return dir_id"
| "get_dir_id_loop (name # names) dir_id current_path =
     st_bind (st_lift (join_fs0_path current_path name)) (\<lambda>current_path.
     st_bind (get_dir_id_body dir_id name current_path) (\<lambda>dir_id.
     get_dir_id_loop names dir_id current_path))"

definition get_dir_id_by_path :: "string \<Rightarrow> u64 tx" where
  "get_dir_id_by_path path =
     st_bind (cache_get_id path) (\<lambda>cached.
     case cached of
       Some dir_id \<Rightarrow> st_return dir_id
     | None \<Rightarrow>
         st_bind (st_lift (split_fs0_path_components path)) (\<lambda>names.
         get_dir_id_loop names ROOT_DIR_ID ''/''))"

text \<open>
  The loop of \<open>get_dir_path_by_id\<close>, which climbs from a directory to the root. It visits a row in each
  iteration, so if it has not stopped after one iteration more than there are rows it has met a row
  twice and never stops; the fuel is that number and running out of it is the error below.
\<close>

definition climb_diverges :: fs0_error where
  "climb_diverges = Internal ''get_dir_path_by_id does not return''"

definition read_dir_row :: "dir_row \<Rightarrow> dir_row fs0_result" where
  "read_dir_row r =
     res_bind (row_u64 0 ''dir_id'' (dr_dir_id r)) (\<lambda>dir_id.
     res_bind (row_optional_u64 1 ''parent_dir_id'' (dr_parent_dir_id r)) (\<lambda>parent.
     Inr \<lparr> dr_dir_id = dir_id, dr_parent_dir_id = parent, dr_name = dr_name r \<rparr>))"

fun climb :: "nat \<Rightarrow> u64 \<Rightarrow> string list \<Rightarrow> string list tx" where
  "climb 0 current_dir_id names = st_throw climb_diverges"
| "climb (Suc fuel) current_dir_id names =
     st_bind (st_lift (u64_to_i64 current_dir_id ''dir_id'')) (\<lambda>i.
     st_bind (query_optional (\<lambda>t. find (\<lambda>r. dr_dir_id r = i) (t_dirs t)) read_dir_row) (\<lambda>found.
     st_bind (st_lift (ok_or NotFound found)) (\<lambda>dir.
     if dr_dir_id dir = ROOT_DIR_ID then st_return names
     else
       st_bind (st_lift (ok_or (InvalidData (''dir '' @ show_u64 current_dir_id @ '' has no parent''))
                  (dr_parent_dir_id dir))) (\<lambda>parent.
       climb fuel parent (names @ [dr_name dir])))))"

fun join_strings :: "string \<Rightarrow> string list \<Rightarrow> string" where
  "join_strings sep [] = []"
| "join_strings sep [w] = w"
| "join_strings sep (w # ws) = w @ sep @ join_strings sep ws"

definition get_dir_path_by_id :: "u64 \<Rightarrow> string tx" where
  "get_dir_path_by_id dir_id =
     st_bind (cache_get_path dir_id) (\<lambda>cached.
     case cached of
       Some path \<Rightarrow> st_return path
     | None \<Rightarrow>
         st_bind (st_gets (\<lambda>s. Suc (length (dirs_of s)))) (\<lambda>fuel.
         st_bind (climb fuel dir_id []) (\<lambda>names.
         let path = ''/'' @ join_strings ''/'' (rev names) in
         st_bind (cache_remember dir_id path) (\<lambda>_. st_return path))))"

definition count_rows :: "('r \<Rightarrow> bool) \<Rightarrow> 'r list \<Rightarrow> u64" where
  "count_rows P rs = of_nat (length (filter P rs))"

definition remove_dir :: "string \<Rightarrow> unit tx" where
  "remove_dir path =
     (if path = ''/'' then st_throw InvalidRequest
      else
        st_bind (get_dir_id_by_path path) (\<lambda>dir_id.
        if dir_id = ROOT_DIR_ID then st_throw InvalidRequest
        else
          st_bind (st_lift (u64_to_i64 dir_id ''dir_id'')) (\<lambda>d.
          st_bind (st_gets (\<lambda>s. count_rows (\<lambda>r. dr_parent_dir_id r = Some d) (dirs_of s))) (\<lambda>child_dirs.
          st_bind (st_gets (\<lambda>s. count_rows (\<lambda>r. fr_dir_id r = d) (files_of s))) (\<lambda>child_files.
          if child_dirs \<noteq> 0 \<or> child_files \<noteq> 0 then st_throw InvalidRequest
          else
            st_bind (exec (delete_dir_stmt d)) (\<lambda>_. cache_forget dir_id path))))))"

section \<open>The directory tree\<close>

definition child :: "dir_row list \<Rightarrow> u64 \<Rightarrow> string \<Rightarrow> u64 option" where
  "child ds parent name = map_option dr_dir_id (child_row ds parent name)"

fun walk :: "dir_row list \<Rightarrow> u64 \<Rightarrow> string list \<Rightarrow> u64 option" where
  "walk ds d [] = Some d"
| "walk ds d (c # cs) = (case child ds d c of None \<Rightarrow> None | Some d' \<Rightarrow> walk ds d' cs)"

definition dirs_inv :: "dir_row list \<Rightarrow> bool" where
  "dirs_inv ds \<longleftrightarrow>
     distinct (map dr_dir_id ds) \<and>
     distinct (map (\<lambda>r. (dr_parent_dir_id r, dr_name r)) ds) \<and>
     root_row \<in> set ds \<and>
     (\<forall>r\<in>set ds. fits_i64 (dr_dir_id r)) \<and>
     (\<forall>r\<in>set ds. r \<noteq> root_row \<longrightarrow>
        valid_component (dr_name r) \<and>
        (case dr_parent_dir_id r of None \<Rightarrow> False
         | Some p \<Rightarrow> p < dr_dir_id r \<and> p \<in> dr_dir_id ` set ds))"

definition coherent :: "dir_row list \<Rightarrow> dir_cache_state \<Rightarrow> bool" where
  "coherent ds c \<longleftrightarrow>
     (\<forall>p d. cached_id c p = Some d \<longrightarrow>
        (\<exists>cs. cs \<noteq> [] \<and> list_all valid_component cs \<and> p = path_of cs \<and> walk ds ROOT_DIR_ID cs = Some d))"

lemma walk_append: "walk ds d (cs @ es) = (case walk ds d cs of None \<Rightarrow> None | Some d' \<Rightarrow> walk ds d' es)"
  by (induction cs arbitrary: d) (auto split: option.splits)

lemma child_rowD:
  "child_row ds p n = Some r \<Longrightarrow> r \<in> set ds \<and> dr_parent_dir_id r = Some p \<and> dr_name r = n"
  by (auto simp: child_row_def dest: find_SomeD)

lemma child_row_exists:
  assumes "dirs_inv ds" and "r \<in> set ds" and "dr_parent_dir_id r = Some p"
  shows "child_row ds p (dr_name r) = Some r"
proof -
  have "y = r" if "y \<in> set ds" "dr_parent_dir_id y = Some p \<and> dr_name y = dr_name r" for y
    using assms that unfolding dirs_inv_def distinct_map inj_on_def by auto
  with assms show ?thesis
    unfolding child_row_def by (intro find_unique) auto
qed

lemma dir_row_unique:
  assumes "dirs_inv ds" and "r \<in> set ds" and "r' \<in> set ds" and "dr_dir_id r = dr_dir_id r'"
  shows "r = r'"
  using assms by (auto simp: dirs_inv_def distinct_map inj_on_def)

lemma child_Some:
  assumes "dirs_inv ds" and "child ds p n = Some d"
  obtains r where "r \<in> set ds" and "dr_dir_id r = d" and "dr_parent_dir_id r = Some p" and "dr_name r = n"
    and "valid_component n" and "p < d" and "fits_i64 d"
proof -
  from assms(2) obtain r where r: "child_row ds p n = Some r" "dr_dir_id r = d" by (auto simp: child_def)
  then have "r \<in> set ds" "dr_parent_dir_id r = Some p" "dr_name r = n" using child_rowD by blast+
  moreover from this have "r \<noteq> root_row" by (auto simp: root_row_def)
  ultimately show thesis
    using that assms(1) r unfolding dirs_inv_def by fastforce
qed

lemma walk_in_dirs:
  assumes "dirs_inv ds" and "walk ds ROOT_DIR_ID cs = Some d"
  shows "d \<in> dr_dir_id ` set ds" and "fits_i64 d" and "list_all valid_component cs"
    and "d = ROOT_DIR_ID \<longleftrightarrow> cs = []"
proof -
  have "d \<in> dr_dir_id ` set ds \<and> fits_i64 d \<and> list_all valid_component cs \<and> (d = ROOT_DIR_ID \<longleftrightarrow> cs = [])"
    using assms(2)
  proof (induction cs arbitrary: d rule: rev_induct)
    case Nil
    have "root_row \<in> set ds" using assms(1) by (simp add: dirs_inv_def)
    then have "ROOT_DIR_ID \<in> dr_dir_id ` set ds" by (force simp: root_row_def ROOT_DIR_ID_def)
    with Nil show ?case by (simp add: ROOT_DIR_ID_def fits_i64_def)
  next
    case (snoc c cs)
    then obtain p where p: "walk ds ROOT_DIR_ID cs = Some p" and d: "child ds p c = Some d"
      by (auto simp: walk_append split: option.splits)
    obtain r where "r \<in> set ds" "dr_dir_id r = d" "valid_component c" "p < d" "fits_i64 d"
      using child_Some [OF assms(1) d] by metis
    moreover from this have "d \<noteq> ROOT_DIR_ID" by (auto simp: ROOT_DIR_ID_def)
    ultimately show ?case using snoc.IH [OF p] by auto
  qed
  then show "d \<in> dr_dir_id ` set ds" "fits_i64 d" "list_all valid_component cs"
    "d = ROOT_DIR_ID \<longleftrightarrow> cs = []" by simp_all
qed

lemma walk_inject:
  assumes inv: "dirs_inv ds"
    and "walk ds ROOT_DIR_ID cs = Some d" and "walk ds ROOT_DIR_ID es = Some d"
  shows "cs = es"
  using assms(2,3)
proof (induction cs arbitrary: d es rule: rev_induct)
  case Nil
  then show ?case using walk_in_dirs(4) [OF inv Nil(2)] by simp
next
  case (snoc c cs)
  from walk_in_dirs(4) [OF inv] snoc.prems obtain e es' where es: "es = es' @ [e]"
    by (metis append_butlast_last_id snoc_eq_iff_butlast)
  from snoc.prems obtain p where p: "walk ds ROOT_DIR_ID cs = Some p" "child ds p c = Some d"
    by (auto simp: walk_append split: option.splits)
  from snoc.prems es obtain q where q: "walk ds ROOT_DIR_ID es' = Some q" "child ds q e = Some d"
    by (auto simp: walk_append split: option.splits)
  obtain r where r: "r \<in> set ds" "dr_dir_id r = d" "dr_parent_dir_id r = Some p" "dr_name r = c"
    using child_Some [OF inv p(2)] by metis
  obtain r' where r': "r' \<in> set ds" "dr_dir_id r' = d" "dr_parent_dir_id r' = Some q" "dr_name r' = e"
    using child_Some [OF inv q(2)] by metis
  from dir_row_unique [OF inv r(1) r'(1)] r r' have "p = q" "c = e" by auto
  with snoc.IH [OF p(1)] q(1) es show ?case by simp
qed

lemma dir_reachable:
  assumes inv: "dirs_inv ds" and "r \<in> set ds"
  shows "\<exists>cs. walk ds ROOT_DIR_ID cs = Some (dr_dir_id r)"
  using assms(2)
proof (induction "unat (dr_dir_id r)" arbitrary: r rule: less_induct)
  case less
  show ?case
  proof (cases "r = root_row")
    case True
    then show ?thesis by (intro exI [of _ "[]"]) (simp add: root_row_def ROOT_DIR_ID_def)
  next
    case False
    then obtain p r' where p: "dr_parent_dir_id r = Some p" "p < dr_dir_id r"
        and r': "r' \<in> set ds" "dr_dir_id r' = p"
      using inv less.prems unfolding dirs_inv_def by (fastforce split: option.splits)
    then obtain cs where "walk ds ROOT_DIR_ID cs = Some p"
      using less.hyps [of r'] by (auto simp: word_less_nat_alt)
    then have "walk ds ROOT_DIR_ID (cs @ [dr_name r]) = Some (dr_dir_id r)"
      using child_row_exists [OF inv less.prems p(1)] by (simp add: walk_append child_def)
    then show ?thesis by blast
  qed
qed

section \<open>The cache answers what the tree says\<close>

definition dir_ok :: "central_db \<Rightarrow> bool" where
  "dir_ok s \<longleftrightarrow> dirs_inv (dirs_of s) \<and> cache_inv (db_dir_cache s) \<and> coherent (dirs_of s) (db_dir_cache s)"

lemma dirs_inv_root: "dirs_inv [root_row]"
  by (simp add: dirs_inv_def root_row_def fits_i64_def)

lemma dir_ok_open: "dir_ok central_db_open"
  by (simp add: dir_ok_def central_db_open_def empty_tables_def dirs_inv_root cache_inv_new coherent_def)

lemma coherent_path:
  "cache_inv c \<Longrightarrow> coherent ds c \<Longrightarrow> cached_path c d = Some p \<Longrightarrow>
     \<exists>cs. cs \<noteq> [] \<and> list_all valid_component cs \<and> p = path_of cs \<and> walk ds ROOT_DIR_ID cs = Some d"
  unfolding cache_inv_def coherent_def by blast

lemma path_of_inject_all:
  "list_all valid_component cs \<Longrightarrow> list_all valid_component es \<Longrightarrow> path_of cs = path_of es \<longleftrightarrow> cs = es"
  using path_of_inject by (auto simp: list_all_iff)

lemma coherent_cached_id:
  "coherent ds c \<Longrightarrow> list_all valid_component cs \<Longrightarrow> cached_id c (path_of cs) = Some d \<Longrightarrow>
     walk ds ROOT_DIR_ID cs = Some d"
  unfolding coherent_def using path_of_inject_all by metis

lemma path_of_eq_root: "list_all valid_component cs \<Longrightarrow> path_of cs = ''/'' \<longleftrightarrow> cs = []"
  using path_of_inject_all [of cs "[]"] by (simp add: path_of_def)

lemma cache_get_id_spec:
  assumes "dir_ok s" and "list_all valid_component cs"
  obtains r c where "cache_get_id (path_of cs) s = (Inr r, s\<lparr> db_dir_cache := c \<rparr>)"
    and "dir_ok (s\<lparr> db_dir_cache := c \<rparr>)"
    and "\<And>d. r = Some d \<Longrightarrow> walk (dirs_of s) ROOT_DIR_ID cs = Some d"
proof -
  let ?g = "get_id (path_of cs) (db_dir_cache s)"
  have "cache_get_id (path_of cs) s = (Inr (fst ?g), s\<lparr> db_dir_cache := snd ?g \<rparr>)"
    by (simp add: cache_get_id_def split: prod.splits)
  moreover have "dir_ok (s\<lparr> db_dir_cache := snd ?g \<rparr>)"
    using assms(1) by (simp add: dir_ok_def cache_inv_get_id coherent_def)
  moreover have "walk (dirs_of s) ROOT_DIR_ID cs = Some d" if "fst ?g = Some d" for d
    using that assms coherent_cached_id [of "dirs_of s" "db_dir_cache s" cs d] path_of_eq_root [of cs]
    by (auto simp: get_id_result dir_ok_def split: if_splits)
  ultimately show thesis using that by blast
qed

lemma cache_get_path_spec:
  assumes "dir_ok s"
  obtains r c where "cache_get_path d s = (Inr r, s\<lparr> db_dir_cache := c \<rparr>)"
    and "dir_ok (s\<lparr> db_dir_cache := c \<rparr>)"
    and "\<And>p. r = Some p \<Longrightarrow> \<exists>cs. walk (dirs_of s) ROOT_DIR_ID cs = Some d \<and> p = path_of cs"
proof -
  let ?g = "get_path d (db_dir_cache s)"
  have "cache_get_path d s = (Inr (fst ?g), s\<lparr> db_dir_cache := snd ?g \<rparr>)"
    by (simp add: cache_get_path_def split: prod.splits)
  moreover have "dir_ok (s\<lparr> db_dir_cache := snd ?g \<rparr>)"
    using assms by (simp add: dir_ok_def cache_inv_get_path coherent_def)
  moreover have "\<exists>cs. walk (dirs_of s) ROOT_DIR_ID cs = Some d \<and> p = path_of cs" if "fst ?g = Some p" for p
  proof (cases "d = ROOT_DIR_ID")
    case True
    with that show ?thesis by (intro exI [of _ "[]"]) (simp add: get_path_result path_of_def)
  next
    case False
    with that show ?thesis
      using assms coherent_path [of "db_dir_cache s" "dirs_of s" d p]
      by (auto simp: get_path_result dir_ok_def)
  qed
  ultimately show thesis using that by blast
qed

lemma cache_remember_spec:
  assumes ok: "dir_ok s" and walk: "walk (dirs_of s) ROOT_DIR_ID cs = Some d"
  obtains c where "cache_remember d (path_of cs) s = (Inr (), s\<lparr> db_dir_cache := c \<rparr>)"
    and "dir_ok (s\<lparr> db_dir_cache := c \<rparr>)"
proof -
  let ?c = "db_dir_cache s" and ?ds = "dirs_of s"
  have inv: "dirs_inv ?ds" and cinv: "cache_inv ?c" and coh: "coherent ?ds ?c"
    using ok by (simp_all add: dir_ok_def)
  have valid: "list_all valid_component cs" using walk_in_dirs(3) [OF inv walk] .
  have "e = d" if "cached_id ?c (path_of cs) = Some e" for e
    using coherent_cached_id [OF coh valid that] walk by simp
  moreover have "q = path_of cs" if "cached_path ?c d = Some q" for q
    using coherent_path [OF cinv coh that] walk_inject [OF inv _ walk] by blast
  ultimately have "cache_inv (remember d (path_of cs) ?c)"
    using cache_inv_remember [OF cinv] by blast
  moreover have "coherent ?ds (remember d (path_of cs) ?c)"
    unfolding coherent_def
  proof (intro allI impI)
    fix p e
    assume "cached_id (remember d (path_of cs) ?c) p = Some e"
    from cached_remember(1) [OF this]
    show "\<exists>cs. cs \<noteq> [] \<and> list_all valid_component cs \<and> p = path_of cs \<and> walk ?ds ROOT_DIR_ID cs = Some e"
    proof
      assume "p = path_of cs \<and> e = d \<and> d \<noteq> ROOT_DIR_ID \<and> path_of cs \<noteq> ''/''"
      with walk valid show ?thesis by (intro exI [of _ cs]) (auto simp: path_of_def)
    next
      assume "cached_id ?c p = Some e"
      with coh show ?thesis by (simp add: coherent_def)
    qed
  qed
  ultimately show thesis
    using inv that by (simp add: cache_remember_def dir_ok_def)
qed

lemma select_child_dir_spec:
  assumes inv: "dirs_inv (dirs_of s)" and "fits_i64 d"
  shows "select_child_dir d name s = (Inr (child (dirs_of s) d name), s)"
proof -
  have "row_u64 0 ''dir_id'' (dr_dir_id r) = Inr (dr_dir_id r)"
    if "child_row (dirs_of s) d name = Some r" for r
    using child_rowD [OF that] inv by (auto simp: dirs_inv_def intro: row_u64_fits)
  then have "query_optional (\<lambda>t. child_row (t_dirs t) d name) (\<lambda>r. row_u64 0 ''dir_id'' (dr_dir_id r)) s =
      (Inr (child (dirs_of s) d name), s)"
    by (subst query_optional_ok [where g = dr_dir_id]) (auto simp: child_def)
  then show ?thesis
    using assms(2) u64_to_i64_Inr_iff [of d "''parent_dir_id''" d]
    by (simp add: select_child_dir_def st_bind_def)
qed

lemma get_dir_id_body_spec:
  assumes ok: "dir_ok s" and pre: "walk (dirs_of s) ROOT_DIR_ID pre = Some d"
    and valid: "list_all valid_component (pre @ [n])"
  shows "\<exists>c. get_dir_id_body d n (path_of (pre @ [n])) s =
      (ok_or NotFound (child (dirs_of s) d n), s\<lparr> db_dir_cache := c \<rparr>) \<and> dir_ok (s\<lparr> db_dir_cache := c \<rparr>)"
proof -
  let ?ds = "dirs_of s" and ?pre = "pre @ [n]"
  have inv: "dirs_inv ?ds" using ok by (simp add: dir_ok_def)
  have walk: "walk ?ds ROOT_DIR_ID ?pre = child ?ds d n"
    using pre by (simp add: walk_append split: option.splits)
  from cache_get_id_spec [OF ok valid]
  obtain r c where g: "cache_get_id (path_of ?pre) s = (Inr r, s\<lparr> db_dir_cache := c \<rparr>)"
    and ok': "dir_ok (s\<lparr> db_dir_cache := c \<rparr>)"
    and hit: "\<And>e. r = Some e \<Longrightarrow> walk ?ds ROOT_DIR_ID ?pre = Some e" by blast
  let ?s = "s\<lparr> db_dir_cache := c \<rparr>"
  have sel: "select_child_dir d n ?s = (Inr (child ?ds d n), ?s)"
    using select_child_dir_spec [of ?s d n] inv walk_in_dirs(2) [OF inv pre] by simp
  show ?thesis
  proof (cases r)
    case (Some e)
    then show ?thesis
      using hit walk ok' g by (intro exI [of _ c]) (simp add: get_dir_id_body_def st_bind_def)
  next
    case miss: None
    show ?thesis
    proof (cases "child ?ds d n")
      case None
      then show ?thesis
        using miss ok' g sel by (intro exI [of _ c]) (simp add: get_dir_id_body_def st_bind_def)
    next
      case (Some e)
      from cache_remember_spec [OF ok', of ?pre e] walk Some
      obtain c' where "cache_remember e (path_of ?pre) ?s = (Inr (), ?s\<lparr> db_dir_cache := c' \<rparr>)"
        and "dir_ok (?s\<lparr> db_dir_cache := c' \<rparr>)" by auto
      then show ?thesis
        using miss Some g sel by (intro exI [of _ c']) (simp add: get_dir_id_body_def st_bind_def)
    qed
  qed
qed

lemma get_dir_id_loop_spec:
  assumes "dir_ok s" and "walk (dirs_of s) ROOT_DIR_ID pre = Some d"
    and "list_all valid_component (pre @ names)"
  shows "\<exists>c. get_dir_id_loop names d (path_of pre) s =
      (ok_or NotFound (walk (dirs_of s) d names), s\<lparr> db_dir_cache := c \<rparr>) \<and> dir_ok (s\<lparr> db_dir_cache := c \<rparr>)"
  using assms
proof (induction names arbitrary: d pre s)
  case Nil
  then show ?case by (intro exI [of _ "db_dir_cache s"]) simp
next
  case (Cons n names)
  have join: "join_fs0_path (path_of pre) n = Inr (path_of (pre @ [n]))"
    using Cons.prems(3) by (intro join_path_of) (simp add: list_all_iff)
  from Cons.prems(3) get_dir_id_body_spec [OF Cons.prems(1,2), of n] obtain c
    where body: "get_dir_id_body d n (path_of (pre @ [n])) s =
        (ok_or NotFound (child (dirs_of s) d n), s\<lparr> db_dir_cache := c \<rparr>)"
      and ok: "dir_ok (s\<lparr> db_dir_cache := c \<rparr>)" by auto
  show ?case
  proof (cases "child (dirs_of s) d n")
    case None
    with body ok join show ?thesis by (intro exI [of _ c]) (simp add: st_bind_def)
  next
    case (Some e)
    with Cons.IH [OF ok, of "pre @ [n]" e] Cons.prems body join show ?thesis
      by (auto simp: st_bind_def walk_append)
  qed
qed

text \<open>The reference: split the path and walk, without a cache.\<close>

definition resolve_dir :: "dir_row list \<Rightarrow> string \<Rightarrow> u64 fs0_result" where
  "resolve_dir ds path =
     res_bind (split_fs0_path_components path) (\<lambda>cs. ok_or NotFound (walk ds ROOT_DIR_ID cs))"

lemma cache_get_id_invalid:
  assumes ok: "dir_ok s" and inv: "split_fs0_path_components path = Inl e"
  obtains c where "cache_get_id path s = (Inr None, s\<lparr> db_dir_cache := c \<rparr>)"
    and "dir_ok (s\<lparr> db_dir_cache := c \<rparr>)"
proof -
  let ?g = "get_id path (db_dir_cache s)"
  have "path \<noteq> ''/''" using inv by (auto simp: split_fs0_path_components_def starts_with_def)
  moreover have "cached_id (db_dir_cache s) path = None"
  proof (rule ccontr)
    assume "cached_id (db_dir_cache s) path \<noteq> None"
    then obtain cs where "list_all valid_component cs" "path = path_of cs"
      using ok by (auto simp: dir_ok_def coherent_def)
    then have "split_fs0_path_components path = Inr cs"
      by (simp add: split_components_iff list_all_iff)
    with inv show False by simp
  qed
  ultimately have "cache_get_id path s = (Inr None, s\<lparr> db_dir_cache := snd ?g \<rparr>)"
    using get_id_result [of path "db_dir_cache s"]
    by (cases "get_id path (db_dir_cache s)") (simp add: cache_get_id_def)
  moreover have "dir_ok (s\<lparr> db_dir_cache := snd ?g \<rparr>)"
    using ok by (simp add: dir_ok_def cache_inv_get_id coherent_def)
  ultimately show thesis using that by blast
qed

lemma get_dir_id_by_path_spec:
  assumes ok: "dir_ok s"
  shows "\<exists>c. get_dir_id_by_path path s = (resolve_dir (dirs_of s) path, s\<lparr> db_dir_cache := c \<rparr>) \<and>
    dir_ok (s\<lparr> db_dir_cache := c \<rparr>)"
proof (cases "split_fs0_path_components path")
  case (Inl e)
  from cache_get_id_invalid [OF ok Inl] obtain c
    where "cache_get_id path s = (Inr None, s\<lparr> db_dir_cache := c \<rparr>)" and "dir_ok (s\<lparr> db_dir_cache := c \<rparr>)" .
  then show ?thesis
    using Inl by (intro exI [of _ c]) (simp add: get_dir_id_by_path_def resolve_dir_def st_bind_def)
next
  case (Inr cs)
  then have valid: "list_all valid_component cs" and path: "path = path_of cs"
    by (simp_all add: split_components_iff list_all_iff)
  from cache_get_id_spec [OF ok valid] obtain r c
    where g: "cache_get_id path s = (Inr r, s\<lparr> db_dir_cache := c \<rparr>)"
      and ok': "dir_ok (s\<lparr> db_dir_cache := c \<rparr>)"
      and hit: "\<And>d. r = Some d \<Longrightarrow> walk (dirs_of s) ROOT_DIR_ID cs = Some d"
    unfolding path by blast
  show ?thesis
  proof (cases r)
    case None
    then show ?thesis
      using get_dir_id_loop_spec [OF ok', of "[]" ROOT_DIR_ID cs] valid Inr g
      by (auto simp: get_dir_id_by_path_def resolve_dir_def st_bind_def path_of_def)
  next
    case (Some d)
    then show ?thesis
      using hit ok' Inr g
      by (intro exI [of _ c]) (simp add: get_dir_id_by_path_def resolve_dir_def st_bind_def)
  qed
qed

section \<open>From a directory to its path\<close>

lemma walk_length:
  assumes inv: "dirs_inv ds" and walk: "walk ds ROOT_DIR_ID cs = Some d"
  shows "length cs < length ds"
proof -
  have pre: "walk ds ROOT_DIR_ID (take i cs) \<noteq> None" for i
    using walk walk_append [of ds ROOT_DIR_ID "take i cs" "drop i cs"] by (auto split: option.splits)
  let ?f = "\<lambda>i. the (walk ds ROOT_DIR_ID (take i cs))"
  have "inj_on ?f {..length cs}"
  proof (rule inj_onI)
    fix i j
    assume ij: "i \<in> {..length cs}" "j \<in> {..length cs}" "?f i = ?f j"
    then have "take i cs = take j cs"
      using walk_inject [OF inv] pre by (metis option.exhaust_sel)
    then show "i = j" using ij by (metis atMost_iff length_take min.absorb2)
  qed
  moreover have "?f ` {..length cs} \<subseteq> dr_dir_id ` set ds"
    using walk_in_dirs(1) [OF inv] pre by fastforce
  ultimately have "card {..length cs} \<le> card (dr_dir_id ` set ds)"
    by (metis card_inj_on_le finite_imageI finite_set)
  also have "\<dots> \<le> length ds"
    by (metis card_length length_map list.set_map)
  finally show ?thesis by simp
qed

lemma find_dir_row:
  "dirs_inv ds \<Longrightarrow> r \<in> set ds \<Longrightarrow> find (\<lambda>x. dr_dir_id x = dr_dir_id r) ds = Some r"
  by (intro find_unique) (auto dest: dir_row_unique)

lemma read_dir_row_ok:
  assumes inv: "dirs_inv ds" and r: "r \<in> set ds"
  shows "read_dir_row r = Inr r"
proof -
  have "fits_i64 (dr_dir_id r)" using inv r by (simp add: dirs_inv_def)
  moreover have "fits_i64 p" if "dr_parent_dir_id r = Some p" for p
    using inv r that unfolding dirs_inv_def
    by (cases "r = root_row") (force simp: root_row_def)+
  ultimately show ?thesis
    by (auto simp: read_dir_row_def row_optional_u64_def row_u64_fits split: option.splits)
qed

lemma climb_spec:
  assumes inv: "dirs_inv (dirs_of s)" and "walk (dirs_of s) ROOT_DIR_ID cs = Some d" and "length cs < fuel"
  shows "climb fuel d names s = (Inr (names @ rev cs), s)"
  using assms(2,3)
proof (induction cs arbitrary: d names fuel rule: rev_induct)
  case Nil
  then obtain f where f: "fuel = Suc f" by (cases fuel) auto
  have "root_row \<in> set (dirs_of s)" using inv by (simp add: dirs_inv_def)
  then have "find (\<lambda>r. dr_dir_id r = ROOT_DIR_ID) (dirs_of s) = Some root_row"
    using find_dir_row [OF inv] by (force simp: root_row_def ROOT_DIR_ID_def)
  with Nil f show ?case
    using read_dir_row_ok [OF inv, of root_row] \<open>root_row \<in> set (dirs_of s)\<close>
    by (simp add: st_bind_def query_optional_def u64_to_i64_def ROOT_DIR_ID_def root_row_def)
next
  case (snoc c cs)
  from snoc.prems obtain f where f: "fuel = Suc f" "length cs < f" by (cases fuel) auto
  from snoc.prems obtain p where p: "walk (dirs_of s) ROOT_DIR_ID cs = Some p" "child (dirs_of s) p c = Some d"
    by (auto simp: walk_append split: option.splits)
  obtain r where r: "r \<in> set (dirs_of s)" "dr_dir_id r = d" "dr_parent_dir_id r = Some p" "dr_name r = c"
      "p < d" "fits_i64 d"
    using child_Some [OF inv p(2)] by metis
  have "d \<noteq> ROOT_DIR_ID" using r(5) by (auto simp: ROOT_DIR_ID_def)
  moreover have "u64_to_i64 d nm = Inr d" for nm using r(6) by (simp add: u64_to_i64_Inr_iff)
  ultimately show ?case
    using f snoc.IH [OF p(1) f(2)] r read_dir_row_ok [OF inv r(1)] find_dir_row [OF inv r(1)]
    by (simp add: st_bind_def query_optional_def)
qed

lemma slashed_join: "cs \<noteq> [] \<Longrightarrow> CHR ''/'' # join_strings ''/'' cs = slashed cs"
  by (induction "''/''" cs rule: join_strings.induct) auto

lemma get_dir_path_by_id_spec:
  assumes ok: "dir_ok s" and walk: "walk (dirs_of s) ROOT_DIR_ID cs = Some d"
  shows "\<exists>c. get_dir_path_by_id d s = (Inr (path_of cs), s\<lparr> db_dir_cache := c \<rparr>) \<and>
    dir_ok (s\<lparr> db_dir_cache := c \<rparr>)"
proof -
  have inv: "dirs_inv (dirs_of s)" using ok by (simp add: dir_ok_def)
  from cache_get_path_spec [OF ok] obtain r c
    where g: "cache_get_path d s = (Inr r, s\<lparr> db_dir_cache := c \<rparr>)"
      and ok': "dir_ok (s\<lparr> db_dir_cache := c \<rparr>)"
      and hit: "\<And>p. r = Some p \<Longrightarrow> \<exists>es. walk (dirs_of s) ROOT_DIR_ID es = Some d \<and> p = path_of es"
    by blast
  let ?s = "s\<lparr> db_dir_cache := c \<rparr>"
  show ?thesis
  proof (cases r)
    case (Some p)
    with hit have "p = path_of cs" using walk_inject [OF inv _ walk] by blast
    with Some g ok' show ?thesis
      by (intro exI [of _ c]) (simp add: get_dir_path_by_id_def st_bind_def)
  next
    case None
    have nonroot: "cs \<noteq> []"
    proof
      assume "cs = []"
      then have "d = ROOT_DIR_ID" using walk by simp
      with g None show False
        using get_path_result [of d "db_dir_cache s"]
        by (cases "get_path d (db_dir_cache s)") (simp add: cache_get_path_def)
    qed
    have climb: "climb (Suc (length (dirs_of ?s))) d [] ?s = (Inr (rev cs), ?s)"
      using climb_spec [of ?s cs d "Suc (length (dirs_of s))" "[]"] inv walk walk_length [OF inv walk]
      by simp
    have path: "''/'' @ join_strings ''/'' (rev (rev cs)) = path_of cs"
      using nonroot slashed_join by (simp add: path_of_def)
    from cache_remember_spec [OF ok', of cs d] walk obtain c'
      where "cache_remember d (path_of cs) ?s = (Inr (), ?s\<lparr> db_dir_cache := c' \<rparr>)"
        and "dir_ok (?s\<lparr> db_dir_cache := c' \<rparr>)" by auto
    with None g climb path show ?thesis
      by (intro exI [of _ c'])
        (simp del: climb.simps add: get_dir_path_by_id_def st_bind_def Let_def)
  qed
qed

section \<open>Files and directories in one tree\<close>

definition files_inv :: "dir_row list \<Rightarrow> file_row list \<Rightarrow> i64 \<Rightarrow> bool" where
  "files_inv ds fs seqno \<longleftrightarrow>
     distinct (map fr_file_id fs) \<and>
     distinct (map (\<lambda>r. (fr_dir_id r, fr_name r)) fs) \<and>
     fits_i64 seqno \<and>
     (\<forall>f\<in>set fs.
        fr_file_id f \<le> seqno \<and> fr_dir_id f \<in> dr_dir_id ` set ds \<and> valid_component (fr_name f) \<and>
        fits_i64 (fr_size_bytes f) \<and> fits_i64 (fr_compressed_size_bytes f) \<and>
        fits_i64 (fr_created_at_ms f) \<and> fits_i64 (fr_updated_at_ms f) \<and>
        child ds (fr_dir_id f) (fr_name f) = None)"

definition tree_ok :: "central_db \<Rightarrow> bool" where
  "tree_ok s \<longleftrightarrow> dir_ok s \<and> files_inv (dirs_of s) (files_of s) (t_files_seq (db_conn s))"

lemma tree_ok_open: "tree_ok central_db_open"
  using dir_ok_open by (simp add: tree_ok_def files_inv_def central_db_open_def empty_tables_def fits_i64_def)

lemma tree_ok_cache: "tree_ok s \<Longrightarrow> dir_ok (s\<lparr> db_dir_cache := c \<rparr>) \<Longrightarrow> tree_ok (s\<lparr> db_dir_cache := c \<rparr>)"
  by (simp add: tree_ok_def)

lemma fits_mono: "fits_i64 b \<Longrightarrow> a \<le> b \<Longrightarrow> fits_i64 a"
  by (simp add: fits_i64_def word_le_nat_alt)

lemma file_id_fits: "files_inv ds fs n \<Longrightarrow> f \<in> set fs \<Longrightarrow> fits_i64 (fr_file_id f)"
  by (auto simp: files_inv_def intro: fits_mono)

lemma child_file_rowD:
  "child_file_row fs p n = Some f \<Longrightarrow> f \<in> set fs \<and> fr_dir_id f = p \<and> fr_name f = n"
  by (auto simp: child_file_row_def dest: find_SomeD)

lemma child_file_row_exists:
  assumes "files_inv ds fs n" and "f \<in> set fs"
  shows "child_file_row fs (fr_dir_id f) (fr_name f) = Some f"
  using assms unfolding child_file_row_def
  by (intro find_unique) (auto simp: files_inv_def distinct_map inj_on_def)

lemma ensure_child_name_available_spec:
  assumes ok: "tree_ok s" and p: "fits_i64 p"
  shows "ensure_child_name_available p name ex path s =
    (if child (dirs_of s) p name \<noteq> None \<or>
        (\<exists>f. child_file_row (files_of s) p name = Some f \<and> Some (fr_file_id f) \<noteq> ex)
     then (Inl (AlreadyExists path), s) else (Inr (), s))"
proof -
  have "row_u64 0 ''file_id'' (fr_file_id f) = Inr (fr_file_id f)"
    if "child_file_row (files_of s) p name = Some f" for f
    using child_file_rowD [OF that] ok file_id_fits row_u64_fits by (auto simp: tree_ok_def)
  moreover have "u64_to_i64 p nm = Inr p" for nm using p by (simp add: u64_to_i64_Inr_iff)
  ultimately show ?thesis
    by (cases "child_row (dirs_of s) p name"; cases "child_file_row (files_of s) p name")
      (simp_all add: ensure_child_name_available_def st_bind_def query_optional_def child_def)
qed

section \<open>Creating directories\<close>

definition new_dir_row :: "u64 \<Rightarrow> u64 \<Rightarrow> string \<Rightarrow> dir_row" where
  "new_dir_row rowid d n = \<lparr> dr_dir_id = rowid, dr_parent_dir_id = Some d, dr_name = n \<rparr>"

lemma child_append:
  "child (ds @ [new_dir_row rowid d n]) p c =
     (case child ds p c of Some x \<Rightarrow> Some x | None \<Rightarrow> if p = d \<and> c = n then Some rowid else None)"
  by (auto simp: child_def child_row_def find_append new_dir_row_def split: option.splits)

text \<open>What the checks before the insertion of a row establish.\<close>

definition insertable :: "dir_row list \<Rightarrow> u64 \<Rightarrow> u64 \<Rightarrow> string \<Rightarrow> bool" where
  "insertable ds rowid d n \<longleftrightarrow>
     dirs_inv ds \<and> (\<forall>r\<in>set ds. dr_dir_id r < rowid) \<and> fits_i64 rowid \<and> d \<in> dr_dir_id ` set ds \<and>
     valid_component n \<and> child ds d n = None"

lemma insertable_inv:
  assumes ins: "insertable ds rowid d n"
  shows "dirs_inv (ds @ [new_dir_row rowid d n])"
proof -
  have inv: "dirs_inv ds" and lt: "d < rowid" and fresh: "rowid \<notin> dr_dir_id ` set ds"
    using ins by (auto simp: insertable_def)
  have "(Some d, n) \<notin> (\<lambda>r. (dr_parent_dir_id r, dr_name r)) ` set ds"
    using child_row_exists [OF inv] ins by (force simp: child_def insertable_def)
  with fresh inv ins lt show ?thesis
    by (force simp: dirs_inv_def new_dir_row_def insertable_def split: option.splits)
qed

lemma insertable_no_children:
  assumes ins: "insertable ds rowid d n"
  shows "child ds rowid c = None"
proof (rule ccontr)
  assume "child ds rowid c \<noteq> None"
  then obtain e where "child ds rowid c = Some e" by blast
  then obtain r where "r \<in> set ds" "dr_dir_id r = e" "rowid < e"
    using child_Some ins unfolding insertable_def by metis
  then show False using ins by (fastforce simp: insertable_def)
qed

lemma walk_insert:
  assumes ins: "insertable ds rowid d n"
  shows "walk (ds @ [new_dir_row rowid d n]) ROOT_DIR_ID qs =
     (case walk ds ROOT_DIR_ID qs of
        Some x \<Rightarrow> Some x
      | None \<Rightarrow> if qs \<noteq> [] \<and> last qs = n \<and> walk ds ROOT_DIR_ID (butlast qs) = Some d then Some rowid else None)"
proof (induction qs rule: rev_induct)
  case (snoc c qs)
  have "rowid \<noteq> d" using ins by (auto simp: insertable_def)
  with snoc show ?case
    using insertable_no_children [OF ins] by (auto simp: walk_append child_append split: option.splits if_splits)
qed simp

lemma coherent_append:
  "insertable ds rowid d n \<Longrightarrow> coherent ds c \<Longrightarrow> coherent (ds @ [new_dir_row rowid d n]) c"
  unfolding coherent_def by (metis walk_insert option.simps(5))

lemma files_inv_append:
  assumes "files_inv ds fs k" and "child_file_row fs d n = None"
  shows "files_inv (ds @ [new_dir_row rowid d n]) fs k"
proof -
  have "\<not> (fr_dir_id f = d \<and> fr_name f = n)" if "f \<in> set fs" for f
    using that assms child_file_row_exists by fastforce
  with assms(1) show ?thesis
    by (auto simp: files_inv_def child_append)
qed

text \<open>An extension of the tree: new rows at the end of \<open>dirs\<close>, no other table touched.\<close>

definition dirs_extend :: "central_db \<Rightarrow> central_db \<Rightarrow> bool" where
  "dirs_extend s s' \<longleftrightarrow> (\<exists>new. db_conn s' = (db_conn s)\<lparr> t_dirs := dirs_of s @ new \<rparr>)"

interpretation extend: step_order dirs_extend
proof
  show "dirs_extend s s" for s by (auto simp: dirs_extend_def intro: exI [of _ "[]"])
  show "dirs_extend s u" if "dirs_extend s t" "dirs_extend t u" for s t u
    using that by (auto simp: dirs_extend_def)
qed

lemma dirs_extend_cache [simp]: "dirs_extend s (s\<lparr> db_dir_cache := c \<rparr>)"
  by (auto simp: dirs_extend_def intro: exI [of _ "[]"])

definition dir_paths :: "central_db \<Rightarrow> string list set" where
  "dir_paths s = {cs. walk (dirs_of s) ROOT_DIR_ID cs \<noteq> None}"

definition same_walks :: "central_db \<Rightarrow> central_db \<Rightarrow> bool" where
  "same_walks s s' \<longleftrightarrow>
     (\<forall>cs d. walk (dirs_of s) ROOT_DIR_ID cs = Some d \<longrightarrow> walk (dirs_of s') ROOT_DIR_ID cs = Some d)"

lemma dir_paths_cong: "db_conn t = db_conn s \<Longrightarrow> dir_paths t = dir_paths s"
  by (simp add: dir_paths_def)

lemma dir_paths_cache [simp]: "dir_paths (s\<lparr> db_dir_cache := c \<rparr>) = dir_paths s"
  by (simp add: dir_paths_def)

lemma insert_dir_step:
  assumes ok: "tree_ok s" and walk: "walk (dirs_of s) ROOT_DIR_ID pre = Some d"
    and name: "valid_component n"
    and unused: "child (dirs_of s) d n = None" "child_file_row (files_of s) d n = None"
  shows "exec (insert_dir d n) s = (Inl (Sqlite ''database or disk is full''), s) \<or>
    (\<exists>rowid s'. exec (insert_dir d n) s = (Inr rowid, s') \<and> fits_i64 rowid \<and> tree_ok s' \<and> dirs_extend s s' \<and>
       same_walks s s' \<and> walk (dirs_of s') ROOT_DIR_ID (pre @ [n]) = Some rowid \<and>
       dir_paths s' = insert (pre @ [n]) (dir_paths s))"
proof (cases "next_rowid 0 (map dr_dir_id (dirs_of s))")
  case (Inl e)
  then show ?thesis using next_rowid_Inl [OF Inl] by (simp add: exec_def insert_dir_def)
next
  case (Inr rowid)
  let ?t = "(db_conn s)\<lparr> t_dirs := dirs_of s @ [new_dir_row rowid d n] \<rparr>"
  let ?s = "s\<lparr> db_conn := ?t \<rparr>"
  have inv: "dirs_inv (dirs_of s)" using ok by (simp add: tree_ok_def dir_ok_def)
  have ins: "insertable (dirs_of s) rowid d n"
    using inv next_rowid_Inr [OF Inr] walk_in_dirs(1) [OF inv walk] name unused
    by (auto simp: insertable_def)
  have "\<not> list_ex (\<lambda>r. dr_parent_dir_id r = Some d \<and> dr_name r = n) (dirs_of s)"
    using child_row_exists [OF inv] unused(1) by (force simp: list_ex_iff child_def)
  moreover have "list_ex (\<lambda>r. dr_dir_id r = d) (dirs_of s)"
    using walk_in_dirs(1) [OF inv walk] by (auto simp: list_ex_iff)
  moreover have "n \<noteq> []" using name by (simp add: valid_component_def)
  ultimately have ex: "exec (insert_dir d n) s = (Inr rowid, ?s)"
    using Inr by (simp add: exec_def insert_dir_def new_dir_row_def)
  have "tree_ok ?s"
    using ok insertable_inv [OF ins] coherent_append [OF ins] files_inv_append [OF _ unused(2)]
    by (simp add: tree_ok_def dir_ok_def)
  moreover have "same_walks s ?s"
    by (simp add: same_walks_def walk_insert [OF ins])
  moreover have "walk (dirs_of ?s) ROOT_DIR_ID (pre @ [n]) = Some rowid"
    using walk unused(1) by (simp add: walk_insert [OF ins] walk_append child_append)
  moreover have "dir_paths ?s = insert (pre @ [n]) (dir_paths s)"
  proof -
    have "qs = pre @ [n]" if "qs \<noteq> []" "last qs = n" "walk (dirs_of s) ROOT_DIR_ID (butlast qs) = Some d" for qs
      using that walk_inject [OF inv _ walk, of "butlast qs"] by (metis append_butlast_last_id)
    then show ?thesis
      using walk by (auto simp: dir_paths_def walk_insert [OF ins] split: option.splits if_splits)
  qed
  moreover have "dirs_extend s ?s" by (auto simp: dirs_extend_def)
  ultimately show ?thesis using ex next_rowid_Inr(1) [OF Inr] by blast
qed

text \<open>The files of the tree, by their path.\<close>

definition file_at :: "central_db \<Rightarrow> string list \<Rightarrow> file_row option" where
  "file_at s cs =
     (if cs = [] then None
      else case walk (dirs_of s) ROOT_DIR_ID (butlast cs) of
        None \<Rightarrow> None
      | Some d \<Rightarrow> child_file_row (files_of s) d (last cs))"

lemma same_walks_trans: "same_walks s t \<Longrightarrow> same_walks t u \<Longrightarrow> same_walks s u"
  by (simp add: same_walks_def)

lemma same_walks_cache [simp]: "same_walks s (s\<lparr> db_dir_cache := c \<rparr>)"
  by (simp add: same_walks_def)

lemma walk_prefix: "walk ds d cs = Some e \<Longrightarrow> prefix qs cs \<Longrightarrow> walk ds d qs \<noteq> None"
  by (auto simp: prefix_def walk_append split: option.splits)

text \<open>
  What creating the directories \<open>cs\<close> below the existing path may do: it makes exactly the prefixes
  of the path resolve, or fails because one of them is a file or the row numbers are exhausted.
\<close>

definition created_dirs :: "central_db \<Rightarrow> string list \<Rightarrow> u64 fs0_result \<Rightarrow> central_db \<Rightarrow> bool" where
  "created_dirs s cs r s' \<longleftrightarrow>
     tree_ok s' \<and> dirs_extend s s' \<and> same_walks s s' \<and>
     (case r of
        Inr d \<Rightarrow> walk (dirs_of s') ROOT_DIR_ID cs = Some d \<and> dir_paths s' = dir_paths s \<union> {qs. prefix qs cs}
      | Inl e \<Rightarrow> e = Sqlite ''database or disk is full'' \<or>
          (\<exists>qs. prefix qs cs \<and> file_at s' qs \<noteq> None \<and> e = AlreadyExists (path_of qs)))"

lemma created_dirs_trans:
  assumes "created_dirs s pre (Inr d) t" and "created_dirs t (pre @ names) r s'"
  shows "created_dirs s (pre @ names) r s'"
  using assms extend.step_trans [of s t s'] same_walks_trans [of s t s']
  by (auto simp: created_dirs_def split: sum.splits)

lemma created_dirs_Inl_append:
  "created_dirs s pre (Inl e) s' \<Longrightarrow> created_dirs s (pre @ names) (Inl e) s'"
proof -
  assume c: "created_dirs s pre (Inl e) s'"
  consider "e = Sqlite ''database or disk is full''"
    | qs where "prefix qs pre" "file_at s' qs \<noteq> None" "e = AlreadyExists (path_of qs)"
    using c by (auto simp: created_dirs_def)
  then have "e = Sqlite ''database or disk is full'' \<or>
      (\<exists>qs. prefix qs (pre @ names) \<and> file_at s' qs \<noteq> None \<and> e = AlreadyExists (path_of qs))"
    by cases (use prefix_prefix in blast)+
  with c show "created_dirs s (pre @ names) (Inl e) s'"
    by (simp add: created_dirs_def)
qed

lemma created_dirs_existing:
  assumes "tree_ok t" and "dirs_of t = dirs_of s" and "db_conn t = db_conn s" and "walk (dirs_of s) ROOT_DIR_ID cs = Some d"
  shows "created_dirs s cs (Inr d) t"
  using assms walk_prefix [OF assms(4)]
  by (auto simp: created_dirs_def same_walks_def dirs_extend_def dir_paths_def intro: exI [of _ "[]"])

lemma create_missing_dir_spec:
  assumes ok: "tree_ok t" and pre: "walk (dirs_of t) ROOT_DIR_ID pre = Some d"
    and valid: "valid_component n" and free: "child (dirs_of t) d n = None"
  shows "\<exists>r s'. st_bind (ensure_child_name_available d n None (path_of (pre @ [n]))) (\<lambda>_.
      st_bind (st_lift (u64_to_i64 d ''parent_dir_id'')) (\<lambda>p.
      st_bind (exec (insert_dir p n)) (\<lambda>rowid. st_lift (i64_to_u64 rowid ''dir_id'')))) t = (r, s') \<and>
    created_dirs t (pre @ [n]) r s'"
proof -
  have inv: "dirs_inv (dirs_of t)" using ok by (simp add: tree_ok_def dir_ok_def)
  have fits: "fits_i64 d" using walk_in_dirs(2) [OF inv pre] .
  then have i64: "u64_to_i64 d nm = Inr d" for nm by (simp add: u64_to_i64_Inr_iff)
  note ens = ensure_child_name_available_spec [OF ok fits, of n None "path_of (pre @ [n])"]
  show ?thesis
  proof (cases "child_file_row (files_of t) d n")
    case (Some f)
    moreover from this have "file_at t (pre @ [n]) = Some f" using pre by (simp add: file_at_def)
    ultimately show ?thesis
      using ok free ens by (auto simp: st_bind_def created_dirs_def same_walks_def extend.step_refl)
  next
    case nofile: None
    from insert_dir_step [OF ok pre valid free nofile] show ?thesis
    proof (elim disjE exE conjE)
      assume "exec (insert_dir d n) t = (Inl (Sqlite ''database or disk is full''), t)"
      then show ?thesis
        using ok free nofile ens i64
        by (auto simp: st_bind_def created_dirs_def same_walks_def extend.step_refl)
    next
      fix rowid u
      assume u: "exec (insert_dir d n) t = (Inr rowid, u)" "fits_i64 rowid" "tree_ok u" "dirs_extend t u"
        "same_walks t u" "walk (dirs_of u) ROOT_DIR_ID (pre @ [n]) = Some rowid"
        "dir_paths u = insert (pre @ [n]) (dir_paths t)"
      have "i64_to_u64 rowid ''dir_id'' = Inr rowid" using u(2) by (simp add: i64_to_u64_Inr_iff)
      moreover have "dir_paths u = dir_paths t \<union> {qs. prefix qs (pre @ [n])}"
        using u(7) walk_prefix [OF pre] by (auto simp: dir_paths_def)
      ultimately show ?thesis
        using free nofile ens i64 u by (simp add: st_bind_def created_dirs_def)
    qed
  qed
qed

lemma create_dir_body_spec:
  assumes ok: "tree_ok s" and pre: "walk (dirs_of s) ROOT_DIR_ID pre = Some d"
    and valid: "list_all valid_component (pre @ [n])"
  shows "\<exists>r s'. create_dir_body d n (path_of (pre @ [n])) s = (r, s') \<and> created_dirs s (pre @ [n]) r s'"
proof -
  let ?pre = "pre @ [n]"
  from ok have dok: "dir_ok s" by (simp add: tree_ok_def)
  from cache_get_id_spec [OF dok valid]
  obtain r c where g: "cache_get_id (path_of ?pre) s = (Inr r, s\<lparr> db_dir_cache := c \<rparr>)"
    and dok': "dir_ok (s\<lparr> db_dir_cache := c \<rparr>)"
    and hit: "\<And>e. r = Some e \<Longrightarrow> walk (dirs_of s) ROOT_DIR_ID ?pre = Some e" by blast
  define t where "t = s\<lparr> db_dir_cache := c \<rparr>"
  have tok: "tree_ok t" using tree_ok_cache [OF ok dok'] by (simp add: t_def)
  have st: "dirs_of t = dirs_of s" "db_conn t = db_conn s" by (simp_all add: t_def)
  have inv: "dirs_inv (dirs_of t)" using tok by (simp add: tree_ok_def dir_ok_def)
  have walk: "walk (dirs_of t) ROOT_DIR_ID ?pre = child (dirs_of t) d n"
    using pre st by (simp add: walk_append split: option.splits)
  have sel: "select_child_dir d n t = (Inr (child (dirs_of t) d n), t)"
    using select_child_dir_spec [OF inv] walk_in_dirs(2) [OF inv] pre st by simp
  show ?thesis
  proof (cases r)
    case (Some e)
    with g show ?thesis
      using created_dirs_existing [OF tok st hit [OF Some]] by (simp add: create_dir_body_def st_bind_def t_def)
  next
    case miss: None
    show ?thesis
    proof (cases "child (dirs_of t) d n")
      case (Some e)
      then obtain c' where "cache_remember e (path_of ?pre) t = (Inr (), t\<lparr> db_dir_cache := c' \<rparr>)"
        and "dir_ok (t\<lparr> db_dir_cache := c' \<rparr>)"
        using cache_remember_spec [of t ?pre e] tok walk by (auto simp: tree_ok_def)
      then show ?thesis
        using miss g [folded t_def] sel Some walk st tree_ok_cache [OF tok]
          created_dirs_existing [of "t\<lparr> db_dir_cache := c' \<rparr>" s ?pre e]
        by (simp add: create_dir_body_def st_bind_def)
    next
      case None
      obtain r' s' where "st_bind (ensure_child_name_available d n None (path_of ?pre)) (\<lambda>_.
          st_bind (st_lift (u64_to_i64 d ''parent_dir_id'')) (\<lambda>p.
          st_bind (exec (insert_dir p n)) (\<lambda>rowid. st_lift (i64_to_u64 rowid ''dir_id'')))) t = (r', s')"
        and c: "created_dirs t ?pre r' s'"
        using create_missing_dir_spec [OF tok, of pre d n] pre st valid None by auto
      moreover have "created_dirs s ?pre r' s'"
        using c st dir_paths_cong [OF st(2)]
        by (simp add: created_dirs_def dirs_extend_def same_walks_def split: sum.splits)
      ultimately show ?thesis
        using miss g [folded t_def] sel None
        by (simp add: create_dir_body_def st_bind_eval)
    qed
  qed
qed

lemma create_dir_loop_spec:
  assumes "tree_ok s" and "walk (dirs_of s) ROOT_DIR_ID pre = Some d"
    and "list_all valid_component (pre @ names)"
  shows "\<exists>r s'. create_dir_loop names d (path_of pre) s = (r, s') \<and> created_dirs s (pre @ names) r s'"
  using assms
proof (induction names arbitrary: d pre s)
  case Nil
  then show ?case using created_dirs_existing [of s s pre d] by simp
next
  case (Cons n names)
  have join: "join_fs0_path (path_of pre) n = Inr (path_of (pre @ [n]))"
    using Cons.prems(3) by (intro join_path_of) (simp add: list_all_iff)
  from Cons.prems(3) create_dir_body_spec [OF Cons.prems(1,2), of n] obtain r t
    where body: "create_dir_body d n (path_of (pre @ [n])) s = (r, t)" and c: "created_dirs s (pre @ [n]) r t"
    by auto
  show ?case
  proof (cases r)
    case (Inl e)
    with body c join created_dirs_Inl_append [of s "pre @ [n]" e t names] show ?thesis by (simp add: st_bind_def)
  next
    case (Inr e)
    with c have "tree_ok t" "walk (dirs_of t) ROOT_DIR_ID (pre @ [n]) = Some e"
      by (simp_all add: created_dirs_def)
    with Cons.IH [of t "pre @ [n]" e] Cons.prems(3) obtain r' s'
      where "create_dir_loop names e (path_of (pre @ [n])) t = (r', s')"
        and "created_dirs t ((pre @ [n]) @ names) r' s'" by auto
    with body join Inr c created_dirs_trans [of s "pre @ [n]" e t names r' s'] show ?thesis
      by (simp add: st_bind_def)
  qed
qed

lemma create_dir_spec:
  assumes ok: "tree_ok s" and path: "split_fs0_path_components path = Inr cs"
  shows "\<exists>r s'. create_dir path s = (r, s') \<and> created_dirs s cs r s'"
proof -
  from path have valid: "list_all valid_component cs" and p: "path = path_of cs"
    by (simp_all add: split_components_iff list_all_iff)
  from ok have dok: "dir_ok s" by (simp add: tree_ok_def)
  from cache_get_id_spec [OF dok valid] obtain r c
    where g: "cache_get_id path s = (Inr r, s\<lparr> db_dir_cache := c \<rparr>)"
      and dok': "dir_ok (s\<lparr> db_dir_cache := c \<rparr>)"
      and hit: "\<And>d. r = Some d \<Longrightarrow> walk (dirs_of s) ROOT_DIR_ID cs = Some d"
    unfolding p by blast
  let ?t = "s\<lparr> db_dir_cache := c \<rparr>"
  have tok: "tree_ok ?t" by (rule tree_ok_cache [OF ok dok'])
  show ?thesis
  proof (cases r)
    case (Some d)
    with g hit tok created_dirs_existing [of ?t s cs d] show ?thesis
      by (simp add: create_dir_def st_bind_def)
  next
    case None
    from create_dir_loop_spec [OF tok, of "[]" ROOT_DIR_ID cs] valid obtain r' s'
      where "create_dir_loop cs ROOT_DIR_ID ''/'' ?t = (r', s')" and "created_dirs ?t cs r' s'"
      by (auto simp: path_of_def)
    moreover from this have "created_dirs s cs r' s'"
      using dir_paths_cong [of ?t s]
      by (simp add: created_dirs_def dirs_extend_def same_walks_def split: sum.splits)
    ultimately show ?thesis
      using None g path by (simp add: create_dir_def st_bind_def)
  qed
qed

lemma create_dir_invalid:
  assumes ok: "tree_ok s" and path: "split_fs0_path_components path = Inl e"
  shows "\<exists>c. create_dir path s = (Inl (InvalidPath path), s\<lparr> db_dir_cache := c \<rparr>) \<and>
    tree_ok (s\<lparr> db_dir_cache := c \<rparr>)"
proof -
  from ok have dok: "dir_ok s" by (simp add: tree_ok_def)
  from cache_get_id_invalid [OF dok path] obtain c
    where "cache_get_id path s = (Inr None, s\<lparr> db_dir_cache := c \<rparr>)" and "dir_ok (s\<lparr> db_dir_cache := c \<rparr>)" .
  then show ?thesis
    using path split_components_error [OF path] tree_ok_cache [OF ok]
    by (intro exI [of _ c]) (simp add: create_dir_def st_bind_def)
qed

text \<open>New directories hold no files, so the files stay where they were.\<close>

lemma file_at_extend:
  assumes ok: "tree_ok s" "tree_ok s'" and same: "same_walks s s'" and files: "files_of s' = files_of s"
  shows "file_at s' = file_at s"
proof
  fix qs
  have inv: "dirs_inv (dirs_of s)" "dirs_inv (dirs_of s')" using ok by (simp_all add: tree_ok_def dir_ok_def)
  show "file_at s' qs = file_at s qs"
  proof (cases "qs \<noteq> [] \<and> walk (dirs_of s) ROOT_DIR_ID (butlast qs) = None")
    case False
    then show ?thesis
      using same files by (auto simp: file_at_def same_walks_def split: option.splits)
  next
    case new: True
    have "file_at s' qs = None"
    proof (rule ccontr)
      assume "file_at s' qs \<noteq> None"
      then obtain d f where d: "walk (dirs_of s') ROOT_DIR_ID (butlast qs) = Some d"
        and f: "child_file_row (files_of s) d (last qs) = Some f"
        using new files by (auto simp: file_at_def split: option.splits)
      from child_file_rowD [OF f] ok(1) obtain r where r: "r \<in> set (dirs_of s)" "dr_dir_id r = d"
        by (fastforce simp: tree_ok_def files_inv_def)
      from dir_reachable [OF inv(1) r(1)] r obtain cs where "walk (dirs_of s) ROOT_DIR_ID cs = Some d" by auto
      with same d have "cs = butlast qs"
        using walk_inject [OF inv(2)] by (simp add: same_walks_def)
      with new \<open>walk (dirs_of s) ROOT_DIR_ID cs = Some d\<close> show False by simp
    qed
    with new show ?thesis by (simp add: file_at_def)
  qed
qed

lemma created_dirs_file_at:
  assumes "tree_ok s" and "created_dirs s cs r s'"
  shows "file_at s' = file_at s"
  using assms by (intro file_at_extend) (auto simp: created_dirs_def dirs_extend_def)

section \<open>Removing a directory\<close>

lemma distinct_fits_length:
  assumes "distinct (map f xs)" and "\<And>x. x \<in> set xs \<Longrightarrow> fits_i64 (f x)"
  shows "length xs \<le> 2 ^ 63"
proof -
  have d: "distinct (map unat (map f xs))"
    using assms(1) by (simp add: distinct_map inj_on_def flip: word_unat_eq_iff)
  have "set (map unat (map f xs)) \<subseteq> {..<2 ^ 63}"
    using assms(2) by (auto simp: fits_i64_def)
  then have "card (set (map unat (map f xs))) \<le> 2 ^ 63"
    by (metis card_lessThan card_mono finite_lessThan)
  then show ?thesis using distinct_card [OF d] by simp
qed

lemma count_rows_0:
  assumes "length rs \<le> 2 ^ 63"
  shows "count_rows P rs = 0 \<longleftrightarrow> (\<forall>r\<in>set rs. \<not> P r)"
proof -
  have "length (filter P rs) \<le> 2 ^ 63"
    using length_filter_le [of P rs] assms by (rule le_trans)
  then have "unat (of_nat (length (filter P rs)) :: u64) = length (filter P rs)"
    by (simp add: unat_of_nat)
  then have "(of_nat (length (filter P rs)) :: u64) = 0 \<longleftrightarrow> length (filter P rs) = 0"
    by (simp only: word_unat_eq_iff [of _ 0] unat_0)
  then show ?thesis by (simp add: count_rows_def filter_empty_conv)
qed

lemma tree_ok_lengths:
  assumes "tree_ok s"
  shows "length (dirs_of s) \<le> 2 ^ 63" and "length (files_of s) \<le> 2 ^ 63"
proof -
  have "dirs_inv (dirs_of s)" and f: "files_inv (dirs_of s) (files_of s) (t_files_seq (db_conn s))"
    using assms by (simp_all add: tree_ok_def dir_ok_def)
  then show "length (dirs_of s) \<le> 2 ^ 63"
    by (intro distinct_fits_length [of dr_dir_id]) (simp_all add: dirs_inv_def)
  show "length (files_of s) \<le> 2 ^ 63"
    using f file_id_fits [OF f] by (intro distinct_fits_length [of fr_file_id]) (simp_all add: files_inv_def)
qed

definition leaf :: "dir_row list \<Rightarrow> u64 \<Rightarrow> bool" where
  "leaf ds d \<longleftrightarrow> (\<forall>r\<in>set ds. dr_parent_dir_id r \<noteq> Some d)"

abbreviation without :: "dir_row list \<Rightarrow> u64 \<Rightarrow> dir_row list" where
  "without ds d \<equiv> filter (\<lambda>r. dr_dir_id r \<noteq> d) ds"

lemma child_without:
  assumes inv: "dirs_inv ds"
  shows "child (without ds d) p c = (if child ds p c = Some d then None else child ds p c)"
proof (cases "child_row ds p c")
  case None
  then have "child_row (without ds d) p c = None"
    by (auto simp: child_row_def find_None_iff)
  with None show ?thesis by (simp add: child_def)
next
  case (Some r)
  then have r: "r \<in> set ds" "dr_parent_dir_id r = Some p" "dr_name r = c" using child_rowD by blast+
  have uniq: "x = r" if "x \<in> set ds" "dr_parent_dir_id x = Some p" "dr_name x = c" for x
    using child_row_exists [OF inv that(1,2)] that(3) Some by simp
  show ?thesis
  proof (cases "dr_dir_id r = d")
    case True
    have "child_row (without ds d) p c = None"
    proof (rule ccontr)
      assume "child_row (without ds d) p c \<noteq> None"
      then obtain x where "child_row (without ds d) p c = Some x" by blast
      from child_rowD [OF this] uniq [of x] True show False by simp
    qed
    with True Some show ?thesis by (simp add: child_def)
  next
    case False
    have "child_row (without ds d) p c = Some r"
      unfolding child_row_def
    proof (rule find_unique)
      fix y
      assume "y \<in> set (without ds d)" "dr_parent_dir_id y = Some p \<and> dr_name y = c"
      then show "y = r" by (intro uniq) auto
    qed (use r False in auto)
    with False Some show ?thesis by (simp add: child_def)
  qed
qed

lemma walk_without:
  assumes inv: "dirs_inv ds" and leaf: "leaf ds d" and nonroot: "d \<noteq> ROOT_DIR_ID"
  shows "walk (without ds d) ROOT_DIR_ID qs =
    (if walk ds ROOT_DIR_ID qs = Some d then None else walk ds ROOT_DIR_ID qs)"
proof (induction qs rule: rev_induct)
  case Nil
  then show ?case using nonroot by simp
next
  case (snoc c qs)
  have "child ds d c = None"
    using leaf by (cases "child_row ds d c") (auto simp: leaf_def child_def dest: child_rowD)
  with snoc show ?case
    by (auto simp: walk_append child_without [OF inv] split: option.splits)
qed

lemma dirs_inv_without:
  assumes inv: "dirs_inv ds" and leaf: "leaf ds d" and nonroot: "d \<noteq> ROOT_DIR_ID"
  shows "dirs_inv (without ds d)"
proof -
  have "(case dr_parent_dir_id r of None \<Rightarrow> False
      | Some p \<Rightarrow> p < dr_dir_id r \<and> p \<in> dr_dir_id ` set (without ds d))"
    if "r \<in> set ds" "r \<noteq> root_row" for r
    using inv leaf that unfolding dirs_inv_def leaf_def by (fastforce split: option.splits)
  then show ?thesis
    using inv nonroot by (auto simp: dirs_inv_def distinct_map_filter root_row_def ROOT_DIR_ID_def)
qed

lemma remove_leaf_ok:
  assumes ok: "tree_ok s" and walk: "walk (dirs_of s) ROOT_DIR_ID cs = Some d" and nonroot: "d \<noteq> ROOT_DIR_ID"
    and leaf: "leaf (dirs_of s) d" and nofile: "\<forall>f\<in>set (files_of s). fr_dir_id f \<noteq> d"
  shows "tree_ok (s\<lparr> db_conn := (db_conn s)\<lparr> t_dirs := without (dirs_of s) d \<rparr>,
      db_dir_cache := forget d (path_of cs) (db_dir_cache s) \<rparr>)"
proof -
  let ?ds = "dirs_of s" and ?c = "db_dir_cache s"
  have inv: "dirs_inv ?ds" and cinv: "cache_inv ?c" and coh: "coherent ?ds ?c"
    and finv: "files_inv ?ds (files_of s) (t_files_seq (db_conn s))"
    using ok by (simp_all add: tree_ok_def dir_ok_def)
  have valid: "list_all valid_component cs" using walk_in_dirs(3) [OF inv walk] .
  have e: "e = d" if "cached_id ?c (path_of cs) = Some e" for e
    using coherent_cached_id [OF coh valid that] walk by simp
  have q: "q = path_of cs" if "cached_path ?c d = Some q" for q
    using coherent_path [OF cinv coh that] walk_inject [OF inv _ walk] by blast
  have "cache_inv (forget d (path_of cs) ?c)" using cache_inv_forget [OF cinv e q] .
  moreover have "coherent (without ?ds d) (forget d (path_of cs) ?c)"
    unfolding coherent_def
  proof (intro allI impI)
    fix p e
    assume "cached_id (forget d (path_of cs) ?c) p = Some e"
    then have pe: "p \<noteq> path_of cs" "cached_id ?c p = Some e"
      using nonroot walk_in_dirs(4) [OF inv walk] path_of_eq_root [OF valid]
      by (auto simp: cached_forget split: if_splits)
    with coh obtain es where es: "es \<noteq> []" "list_all valid_component es" "p = path_of es"
        "walk ?ds ROOT_DIR_ID es = Some e" by (auto simp: coherent_def)
    have "e \<noteq> d" using walk_inject [OF inv es(4)] walk pe(1) es(3) by auto
    with es show "\<exists>cs. cs \<noteq> [] \<and> list_all valid_component cs \<and> p = path_of cs \<and>
        walk (without ?ds d) ROOT_DIR_ID cs = Some e"
      using walk_without [OF inv leaf nonroot] by (intro exI [of _ es]) simp
  qed
  moreover have "files_inv (without ?ds d) (files_of s) (t_files_seq (db_conn s))"
    using finv nofile by (auto simp: files_inv_def child_without [OF inv])
  ultimately show ?thesis
    using dirs_inv_without [OF inv leaf nonroot] by (simp add: tree_ok_def dir_ok_def)
qed

lemma remove_dir_eval:
  "path \<noteq> ''/'' \<Longrightarrow> get_dir_id_by_path path s = (Inr d, t) \<Longrightarrow> d \<noteq> ROOT_DIR_ID \<Longrightarrow>
   u64_to_i64 d ''dir_id'' = Inr d \<Longrightarrow>
   remove_dir path s =
     (if count_rows (\<lambda>r. dr_parent_dir_id r = Some d) (dirs_of t) \<noteq> 0 \<or>
         count_rows (\<lambda>r. fr_dir_id r = d) (files_of t) \<noteq> 0
      then (Inl InvalidRequest, t)
      else st_bind (exec (delete_dir_stmt d)) (\<lambda>_. cache_forget d path) t)"
  by (simp add: remove_dir_def st_bind_def)

lemma remove_dir_spec:
  assumes ok: "tree_ok s" and path: "split_fs0_path_components path = Inr cs" and res: "remove_dir path s = (r, s')"
  shows "case r of
      Inr _ \<Rightarrow> tree_ok s' \<and> files_of s' = files_of s \<and> cs \<in> dir_paths s \<and> dir_paths s' = dir_paths s - {cs} \<and>
        (\<forall>qs\<in>dir_paths s'. walk (dirs_of s') ROOT_DIR_ID qs = walk (dirs_of s) ROOT_DIR_ID qs)
    | Inl e \<Rightarrow> tree_ok s' \<and> db_conn s' = db_conn s \<and> (e = InvalidRequest \<or> e = NotFound)"
proof (cases "path = ''/''")
  case True
  with ok res show ?thesis by (auto simp: remove_dir_def)
next
  case nonroot: False
  from ok have dok: "dir_ok s" by (simp add: tree_ok_def)
  from path have valid: "list_all valid_component cs" and p: "path = path_of cs"
    by (simp_all add: split_components_iff list_all_iff)
  from get_dir_id_by_path_spec [OF dok, of path] path obtain c
    where g: "get_dir_id_by_path path s =
        (ok_or NotFound (walk (dirs_of s) ROOT_DIR_ID cs), s\<lparr> db_dir_cache := c \<rparr>)"
      and dok': "dir_ok (s\<lparr> db_dir_cache := c \<rparr>)" by (auto simp: resolve_dir_def)
  define t where "t = s\<lparr> db_dir_cache := c \<rparr>"
  have tok: "tree_ok t" using tree_ok_cache [OF ok dok'] by (simp add: t_def)
  have st: "db_conn t = db_conn s" by (simp add: t_def)
  have inv: "dirs_inv (dirs_of t)" using tok by (simp add: tree_ok_def dir_ok_def)
  show ?thesis
  proof (cases "walk (dirs_of s) ROOT_DIR_ID cs")
    case None
    with nonroot g [folded t_def] res tok st show ?thesis by (auto simp: remove_dir_def st_bind_def)
  next
    case (Some d)
    have walk: "walk (dirs_of t) ROOT_DIR_ID cs = Some d" using Some st by simp
    have "cs \<noteq> []" using nonroot p by (auto simp: path_of_def)
    then have d0: "d \<noteq> ROOT_DIR_ID" using walk_in_dirs(4) [OF inv walk] by simp
    have i64: "u64_to_i64 d nm = Inr d" for nm
      using walk_in_dirs(2) [OF inv walk] by (simp add: u64_to_i64_Inr_iff)
    have bounds: "length (dirs_of t) \<le> 2 ^ 63" "length (files_of t) \<le> 2 ^ 63"
      using tree_ok_lengths [OF tok] by simp_all
    have counts: "(count_rows (\<lambda>r. dr_parent_dir_id r = Some d) (dirs_of t) \<noteq> 0 \<or>
          count_rows (\<lambda>r. fr_dir_id r = d) (files_of t) \<noteq> 0) \<longleftrightarrow>
        \<not> (leaf (dirs_of t) d \<and> (\<forall>f\<in>set (files_of t). fr_dir_id f \<noteq> d))"
      unfolding count_rows_0 [OF bounds(1)] count_rows_0 [OF bounds(2)] leaf_def by blast
    have eval: "remove_dir path s =
        (if count_rows (\<lambda>r. dr_parent_dir_id r = Some d) (dirs_of t) \<noteq> 0 \<or>
            count_rows (\<lambda>r. fr_dir_id r = d) (files_of t) \<noteq> 0
         then (Inl InvalidRequest, t)
         else st_bind (exec (delete_dir_stmt d)) (\<lambda>_. cache_forget d path) t)"
      using g [folded t_def] Some by (intro remove_dir_eval) (simp_all add: nonroot d0 i64)
    show ?thesis
    proof (cases "leaf (dirs_of t) d \<and> (\<forall>f\<in>set (files_of t). fr_dir_id f \<noteq> d)")
      case False
      then have "remove_dir path s = (Inl InvalidRequest, t)"
        using eval unfolding counts by (simp only: if_True simp_thms)
      with res tok st show ?thesis by auto
    next
      case True
      let ?u = "t\<lparr> db_conn := (db_conn t)\<lparr> t_dirs := without (dirs_of t) d \<rparr>,
          db_dir_cache := forget d path (db_dir_cache t) \<rparr>"
      have "delete_dir_stmt d (db_conn t) = Inr ((), (db_conn t)\<lparr> t_dirs := without (dirs_of t) d \<rparr>)"
        using True by (auto simp: delete_dir_stmt_def Let_def leaf_def list_ex_iff)
      then have "remove_dir path s = (Inr (), ?u)"
        using eval True unfolding counts by (simp add: st_bind_def exec_def cache_forget_def)
      moreover have "tree_ok ?u" using remove_leaf_ok [OF tok walk d0] True p by simp
      moreover have "walk (dirs_of ?u) ROOT_DIR_ID qs = (if qs = cs then None else walk (dirs_of s) ROOT_DIR_ID qs)" for qs
      proof -
        have "walk (dirs_of t) ROOT_DIR_ID qs = Some d \<longleftrightarrow> qs = cs"
          using walk walk_inject [OF inv _ walk, of qs] by blast
        then show ?thesis
          using walk_without [OF inv _ d0, of qs] True st by simp
      qed
      ultimately show ?thesis
        using res Some st by (auto simp: dir_paths_def)
    qed
  qed
qed

section \<open>File records and listings\<close>

definition file_record_of :: "file_row \<Rightarrow> file_record tx" where
  "file_record_of file =
     st_bind (get_dir_path_by_id (fr_dir_id file)) (\<lambda>dir.
     st_bind (st_lift (join_fs0_path dir (fr_name file))) (\<lambda>path.
     st_return \<lparr> frec_file_id = fr_file_id file, frec_path = path, frec_size_bytes = fr_size_bytes file,
       frec_compressed_size_bytes = fr_compressed_size_bytes file, frec_created_at_ms = fr_created_at_ms file,
       frec_updated_at_ms = fr_updated_at_ms file \<rparr>))"

definition row_to_entry :: "string \<Rightarrow> file_row \<Rightarrow> directory_entry fs0_result" where
  "row_to_entry dir r =
     res_bind (row_u64 0 ''file_id'' (fr_file_id r)) (\<lambda>file_id.
     res_bind (join_fs0_path dir (fr_name r)) (\<lambda>path.
     res_bind (row_u64 3 ''size_bytes'' (fr_size_bytes r)) (\<lambda>size_bytes.
     res_bind (row_u64 4 ''compressed_size_bytes'' (fr_compressed_size_bytes r)) (\<lambda>compressed.
     res_bind (row_u64 5 ''created_at_ms'' (fr_created_at_ms r)) (\<lambda>created.
     res_bind (row_u64 6 ''updated_at_ms'' (fr_updated_at_ms r)) (\<lambda>updated.
     Inr \<lparr> de_name = fr_name r, de_path = path, de_file_id = file_id, de_size_bytes = size_bytes,
       de_compressed_size_bytes = compressed, de_created_at_ms = created, de_updated_at_ms = updated \<rparr>))))))"

text \<open>\<open>u32::clamp(1, 1024) as usize\<close>\<close>

definition clamp_limit :: "u32 \<Rightarrow> nat" where
  "clamp_limit limit = max 1 (min 1024 (unat limit))"

definition list_directory :: "string \<Rightarrow> u32 \<Rightarrow> u64 option \<Rightarrow> directory_entries tx" where
  "list_directory dir limit cursor =
     (let limit = clamp_limit limit; off = (case cursor of None \<Rightarrow> 0 | Some c \<Rightarrow> c) in
     st_bind (get_dir_id_by_path dir) (\<lambda>dir_id.
     st_bind (st_lift (u64_to_i64 dir_id ''dir_id'')) (\<lambda>d.
     st_bind (st_lift (u64_to_i64 (of_nat limit + 1) ''limit'')) (\<lambda>sql_limit.
     st_bind (st_lift (u64_to_i64 off ''cursor'')) (\<lambda>sql_off.
     st_bind (query_map (\<lambda>t. take (unat sql_limit) (drop (unat sql_off)
                (sort_key fr_name (filter (\<lambda>r. fr_dir_id r = d) (t_files t))))) (row_to_entry dir)) (\<lambda>entries.
     st_return (if length entries > limit
        then \<lparr> des_entries = take limit entries, des_next_cursor = Some (off + of_nat limit) \<rparr>
        else \<lparr> des_entries = entries, des_next_cursor = None \<rparr>)))))))"

text \<open>The listing of a directory: its files in the order of their names.\<close>

definition entry_of :: "string \<Rightarrow> file_row \<Rightarrow> directory_entry" where
  "entry_of dir r = \<lparr> de_name = fr_name r,
     de_path = (if dir = ''/'' then ''/'' @ fr_name r else dir @ ''/'' @ fr_name r), de_file_id = fr_file_id r,
     de_size_bytes = fr_size_bytes r, de_compressed_size_bytes = fr_compressed_size_bytes r,
     de_created_at_ms = fr_created_at_ms r, de_updated_at_ms = fr_updated_at_ms r \<rparr>"

definition listing :: "central_db \<Rightarrow> string \<Rightarrow> u64 \<Rightarrow> directory_entry list" where
  "listing s dir d = map (entry_of dir) (sort_key fr_name (filter (\<lambda>r. fr_dir_id r = d) (files_of s)))"

lemma row_to_entry_ok:
  "files_inv ds fs k \<Longrightarrow> r \<in> set fs \<Longrightarrow> row_to_entry dir r = Inr (entry_of dir r)"
  using file_id_fits [of ds fs k r]
  by (auto simp: row_to_entry_def entry_of_def files_inv_def row_u64_fits join_fs0_path_def)

lemma clamp_limit_bounds: "1 \<le> clamp_limit l" "clamp_limit l \<le> 1024"
  by (simp_all add: clamp_limit_def)

lemma list_directory_spec:
  assumes ok: "tree_ok s" and dir: "resolve_dir (dirs_of s) dir = Inr d"
    and off: "off = (case cursor of None \<Rightarrow> 0 | Some c \<Rightarrow> c)" "fits_i64 off"
  shows "\<exists>c. list_directory dir limit cursor s =
      (Inr \<lparr> des_entries = take (clamp_limit limit) (drop (unat off) (listing s dir d)),
             des_next_cursor = (if unat off + clamp_limit limit < length (listing s dir d)
                then Some (off + of_nat (clamp_limit limit)) else None) \<rparr>,
       s\<lparr> db_dir_cache := c \<rparr>) \<and> tree_ok (s\<lparr> db_dir_cache := c \<rparr>)"
proof -
  let ?l = "clamp_limit limit" and ?rows = "sort_key fr_name (filter (\<lambda>r. fr_dir_id r = d) (files_of s))"
  from ok have dok: "dir_ok s" by (simp add: tree_ok_def)
  from get_dir_id_by_path_spec [OF dok, of dir] dir obtain c
    where g: "get_dir_id_by_path dir s = (Inr d, s\<lparr> db_dir_cache := c \<rparr>)"
      and dok': "dir_ok (s\<lparr> db_dir_cache := c \<rparr>)" by auto
  have "fits_i64 d"
    using dir dok walk_in_dirs(2) by (auto simp: resolve_dir_def res_bind_Inr_iff dir_ok_def)
  then have d: "u64_to_i64 d nm = Inr d" for nm by (simp add: u64_to_i64_Inr_iff)
  have lim: "unat (of_nat ?l + 1 :: u64) = Suc ?l"
    using clamp_limit_bounds(2) [of limit] by (simp add: unat_word_ariths unat_of_nat)
  then have "u64_to_i64 (of_nat ?l + 1) nm = Inr (of_nat ?l + 1)" for nm
    using clamp_limit_bounds(2) [of limit] by (simp add: u64_to_i64_Inr_iff fits_i64_def)
  moreover have "u64_to_i64 off nm = Inr off" for nm using off(2) by (simp add: u64_to_i64_Inr_iff)
  moreover have "collect_rows (row_to_entry dir) (take (Suc ?l) (drop (unat off) ?rows)) =
      Inr (take (Suc ?l) (drop (unat off) (listing s dir d)))"
  proof (subst collect_rows_ok [where g = "entry_of dir"])
    fix r
    assume "r \<in> set (take (Suc ?l) (drop (unat off) ?rows))"
    then have "r \<in> set ?rows" by (meson in_set_dropD in_set_takeD)
    then show "row_to_entry dir r = Inr (entry_of dir r)"
      using ok row_to_entry_ok by (auto simp: tree_ok_def)
  qed (simp add: listing_def take_map drop_map)
  ultimately have "list_directory dir limit cursor s =
      (let entries = take (Suc ?l) (drop (unat off) (listing s dir d)) in
        (Inr (if length entries > ?l then \<lparr> des_entries = take ?l entries, des_next_cursor = Some (off + of_nat ?l) \<rparr>
              else \<lparr> des_entries = entries, des_next_cursor = None \<rparr>), s\<lparr> db_dir_cache := c \<rparr>))"
    using g d lim off(1) by (simp add: list_directory_def st_bind_def query_map_def Let_def)
  then show ?thesis
    using tree_ok_cache [OF ok dok'] by (intro exI [of _ c]) (auto simp: Let_def min_def)
qed

lemma file_record_of_spec:
  assumes ok: "tree_ok s" and walk: "walk (dirs_of s) ROOT_DIR_ID cs = Some (fr_dir_id f)"
  shows "\<exists>c. file_record_of f s =
      (Inr \<lparr> frec_file_id = fr_file_id f, frec_path = path_of (cs @ [fr_name f]), frec_size_bytes = fr_size_bytes f,
         frec_compressed_size_bytes = fr_compressed_size_bytes f, frec_created_at_ms = fr_created_at_ms f,
         frec_updated_at_ms = fr_updated_at_ms f \<rparr>,
       s\<lparr> db_dir_cache := c \<rparr>) \<and> tree_ok (s\<lparr> db_dir_cache := c \<rparr>)"
proof -
  from ok have dok: "dir_ok s" by (simp add: tree_ok_def)
  then have "list_all valid_component cs" using walk_in_dirs(3) walk by (auto simp: dir_ok_def)
  then have "join_fs0_path (path_of cs) (fr_name f) = Inr (path_of (cs @ [fr_name f]))"
    by (intro join_path_of) (simp add: list_all_iff)
  with get_dir_path_by_id_spec [OF dok walk] tree_ok_cache [OF ok] show ?thesis
    by (auto simp: file_record_of_def st_bind_def)
qed

end
