(* ===== verification/Central_File.thy ===== *)
theory Central_File
  imports Central_Dir
begin

text \<open>
  The files of the central server, \<^verbatim>\<open>fs0-central/src/db/file.rs\<close>. The abstract view is \<open>file_at\<close>, the file of a
  path; each operation is shown to change exactly the entry of its path and to keep the invariant of
  the whole database. The locale \<open>file_store\<close> is the contract that the request handlers rely on.
\<close>

section \<open>Operations\<close>

definition row_to_file :: "file_row \<Rightarrow> file_row fs0_result" where
  "row_to_file r =
     res_bind (row_u64 0 ''file_id'' (fr_file_id r)) (\<lambda>file_id.
     res_bind (row_u64 1 ''dir_id'' (fr_dir_id r)) (\<lambda>dir_id.
     res_bind (row_u64 3 ''size_bytes'' (fr_size_bytes r)) (\<lambda>size_bytes.
     res_bind (row_u64 4 ''compressed_size_bytes'' (fr_compressed_size_bytes r)) (\<lambda>compressed_size_bytes.
     res_bind (row_u64 5 ''created_at_ms'' (fr_created_at_ms r)) (\<lambda>created_at_ms.
     res_bind (row_u64 6 ''updated_at_ms'' (fr_updated_at_ms r)) (\<lambda>updated_at_ms.
     Inr \<lparr> fr_file_id = file_id, fr_dir_id = dir_id, fr_name = fr_name r, fr_size_bytes = size_bytes,
       fr_compressed_size_bytes = compressed_size_bytes, fr_created_at_ms = created_at_ms,
       fr_updated_at_ms = updated_at_ms \<rparr>))))))"

definition get_file_by_id :: "u64 \<Rightarrow> file_row tx" where
  "get_file_by_id file_id =
     st_bind (st_lift (u64_to_i64 file_id ''file_id'')) (\<lambda>i.
     st_bind (query_optional (\<lambda>t. find (\<lambda>r. fr_file_id r = i) (t_files t)) row_to_file) (\<lambda>found.
     st_lift (ok_or NotFound found)))"

definition get_file_by_path :: "string \<Rightarrow> file_row tx" where
  "get_file_by_path path =
     st_bind (st_lift (split_fs0_path_dir_and_name path)) (\<lambda>(dir, name).
     st_bind (get_dir_id_by_path dir) (\<lambda>dir_id.
     st_bind (st_lift (u64_to_i64 dir_id ''dir_id'')) (\<lambda>d.
     st_bind (query_optional (\<lambda>t. child_file_row (t_files t) d name) row_to_file) (\<lambda>found.
     st_lift (ok_or NotFound found)))))"

definition create_file :: "string \<Rightarrow> u64 \<Rightarrow> file_row tx" where
  "create_file path now =
     st_bind (st_lift (split_fs0_path_dir_and_name path)) (\<lambda>(dir, name).
     st_bind (create_dir dir) (\<lambda>dir_id.
     st_bind (ensure_child_name_available dir_id name None path) (\<lambda>_.
     st_bind (st_lift (u64_to_i64 dir_id ''dir_id'')) (\<lambda>d.
     st_bind (st_lift (u64_to_i64 now ''created_at_ms'')) (\<lambda>n.
     st_bind (exec (insert_file d name 0 0 n)) (\<lambda>rowid.
     st_bind (st_lift (i64_to_u64 rowid ''file_id'')) get_file_by_id))))))"

definition delete_file_by_id :: "u64 \<Rightarrow> unit tx" where
  "delete_file_by_id file_id =
     st_bind (st_lift (u64_to_i64 file_id ''file_id'')) (\<lambda>i.
     st_bind (exec (delete_file_stmt i)) (\<lambda>changes.
     if changes = 0 then st_throw NotFound else st_return ()))"

definition copy_file_by_id :: "u64 \<Rightarrow> string \<Rightarrow> u64 \<Rightarrow> file_row tx" where
  "copy_file_by_id source_file_id target_path now =
     st_bind (st_lift (split_fs0_path_dir_and_name target_path)) (\<lambda>(target_dir, target_name).
     st_bind (get_file_by_id source_file_id) (\<lambda>source.
     st_bind (create_dir target_dir) (\<lambda>target_dir_id.
     st_bind (ensure_child_name_available target_dir_id target_name None target_path) (\<lambda>_.
     st_bind (st_lift (u64_to_i64 target_dir_id ''target_dir_id'')) (\<lambda>d.
     st_bind (st_lift (u64_to_i64 (fr_size_bytes source) ''size_bytes'')) (\<lambda>sz.
     st_bind (st_lift (u64_to_i64 (fr_compressed_size_bytes source) ''compressed_size_bytes'')) (\<lambda>csz.
     st_bind (st_lift (u64_to_i64 now ''created_at_ms'')) (\<lambda>n.
     st_bind (exec (insert_file d target_name sz csz n)) (\<lambda>rowid.
     st_bind (st_lift (i64_to_u64 rowid ''target_file_id'')) get_file_by_id)))))))))"

definition rename_file_by_id :: "u64 \<Rightarrow> string \<Rightarrow> u64 \<Rightarrow> file_row tx" where
  "rename_file_by_id file_id target_path now =
     st_bind (st_lift (split_fs0_path_dir_and_name target_path)) (\<lambda>(target_dir, target_name).
     st_bind (create_dir target_dir) (\<lambda>target_dir_id.
     st_bind (ensure_child_name_available target_dir_id target_name (Some file_id) target_path) (\<lambda>_.
     st_bind (st_lift (u64_to_i64 file_id ''file_id'')) (\<lambda>i.
     st_bind (st_lift (u64_to_i64 target_dir_id ''target_dir_id'')) (\<lambda>d.
     st_bind (st_lift (u64_to_i64 now ''updated_at_ms'')) (\<lambda>n.
     st_bind (exec (move_file_stmt i d target_name n)) (\<lambda>changes.
     if changes = 0 then st_throw NotFound else get_file_by_id file_id)))))))"

definition update_file_after_update :: "u64 \<Rightarrow> u64 \<Rightarrow> u64 \<Rightarrow> u64 \<Rightarrow> file_row tx" where
  "update_file_after_update file_id new_size compressed_size_bytes updated_at_ms =
     st_bind (st_lift (u64_to_i64 file_id ''file_id'')) (\<lambda>i.
     st_bind (st_lift (u64_to_i64 new_size ''size_bytes'')) (\<lambda>sz.
     st_bind (st_lift (u64_to_i64 compressed_size_bytes ''compressed_size_bytes'')) (\<lambda>csz.
     st_bind (st_lift (u64_to_i64 updated_at_ms ''updated_at_ms'')) (\<lambda>n.
     st_bind (exec (resize_file_stmt i sz csz n)) (\<lambda>changes.
     if changes = 0 then st_throw NotFound else get_file_by_id file_id)))))"

section \<open>Reading files\<close>

definition db_inv :: "central_db \<Rightarrow> bool" where
  "db_inv s \<longleftrightarrow> tree_ok s \<and> links_ok (db_conn s)"

lemma db_inv_open: "db_inv central_db_open"
  using tree_ok_open links_ok_empty by (simp add: db_inv_def central_db_open_def)

lemma db_inv_load: "db_inv s \<Longrightarrow> db_inv (central_db_load (db_conn s))"
  by (simp add: db_inv_def tree_ok_def dir_ok_def central_db_load_def cache_inv_new coherent_def)

lemma db_invD:
  assumes "db_inv s"
  shows "tree_ok s" "links_ok (db_conn s)" "dir_ok s" "dirs_inv (dirs_of s)"
    "files_inv (dirs_of s) (files_of s) (t_files_seq (db_conn s))"
  using assms by (simp_all add: db_inv_def tree_ok_def dir_ok_def)

definition find_file :: "central_db \<Rightarrow> u64 \<Rightarrow> file_row option" where
  "find_file s i = find (\<lambda>r. fr_file_id r = i) (files_of s)"

lemma row_to_file_ok:
  assumes inv: "dirs_inv ds" "files_inv ds fs k" and r: "r \<in> set fs"
  shows "row_to_file r = Inr r"
proof -
  have "fr_dir_id r \<in> dr_dir_id ` set ds" using inv(2) r by (simp add: files_inv_def)
  then have "fits_i64 (fr_dir_id r)" using inv(1) by (auto simp: dirs_inv_def)
  then show ?thesis
    using inv(2) r file_id_fits [OF inv(2) r] by (simp add: row_to_file_def files_inv_def row_u64_fits)
qed

lemma find_fileD: "find_file s i = Some f \<Longrightarrow> f \<in> set (files_of s) \<and> fr_file_id f = i"
  by (auto simp: find_file_def dest: find_SomeD)

lemma find_file_exists:
  assumes "files_inv ds (files_of s) k" and "f \<in> set (files_of s)"
  shows "find_file s (fr_file_id f) = Some f"
  using assms unfolding find_file_def
  by (intro find_unique) (auto simp: files_inv_def distinct_map inj_on_def)

lemma find_file_None: "find_file s i = None \<longleftrightarrow> i \<notin> fr_file_id ` set (files_of s)"
  by (auto simp: find_file_def find_None_iff)

lemma get_file_by_id_spec:
  assumes ok: "tree_ok s"
  shows "get_file_by_id i s =
    (if fits_i64 i then ok_or NotFound (find_file s i)
     else Inl (IntegerConversion (''file_id value '' @ show_u64 i @ '' does not fit in i64'')), s)"
proof (cases "fits_i64 i")
  case True
  have "row_to_file r = Inr r" if "find_file s i = Some r" for r
    using ok find_fileD [OF that] row_to_file_ok by (auto simp: tree_ok_def dir_ok_def)
  then show ?thesis
    using True query_optional_ok [of "\<lambda>t. find (\<lambda>r. fr_file_id r = i) (t_files t)" s row_to_file id]
    by (simp add: get_file_by_id_def u64_to_i64_def fits_i64_def st_bind_def find_file_def option.map_id)
next
  case False
  then show ?thesis by (simp add: get_file_by_id_def u64_to_i64_def fits_i64_def st_bind_def)
qed

lemma get_file_by_id_found:
  assumes "tree_ok s" and "find_file s i = Some f"
  shows "get_file_by_id i s = (Inr f, s)"
proof -
  from find_fileD [OF assms(2)] have "f \<in> set (files_of s)" "fr_file_id f = i" by simp_all
  then have "fits_i64 i" using assms(1) file_id_fits by (auto simp: tree_ok_def)
  with assms show ?thesis by (simp add: get_file_by_id_spec)
qed

lemma file_at_iff:
  assumes ok: "tree_ok s"
  shows "file_at s cs = Some f \<longleftrightarrow>
    f \<in> set (files_of s) \<and> cs \<noteq> [] \<and> last cs = fr_name f \<and>
    walk (dirs_of s) ROOT_DIR_ID (butlast cs) = Some (fr_dir_id f)"
proof -
  have inv: "files_inv (dirs_of s) (files_of s) (t_files_seq (db_conn s))" using ok by (simp add: tree_ok_def)
  show ?thesis
  proof
    assume "file_at s cs = Some f"
    then show "f \<in> set (files_of s) \<and> cs \<noteq> [] \<and> last cs = fr_name f \<and>
        walk (dirs_of s) ROOT_DIR_ID (butlast cs) = Some (fr_dir_id f)"
      by (auto simp: file_at_def split: if_splits option.splits dest: child_file_rowD)
  next
    assume "f \<in> set (files_of s) \<and> cs \<noteq> [] \<and> last cs = fr_name f \<and>
        walk (dirs_of s) ROOT_DIR_ID (butlast cs) = Some (fr_dir_id f)"
    then show "file_at s cs = Some f"
      using child_file_row_exists [OF inv, of f] by (simp add: file_at_def)
  qed
qed

lemma file_at_inject:
  assumes ok: "tree_ok s" and "file_at s cs = Some f" and "file_at s es = Some f"
  shows "cs = es"
proof -
  have "butlast cs = butlast es" and "last cs = last es" and "cs \<noteq> []" and "es \<noteq> []"
    using assms walk_inject by (auto simp: file_at_iff [OF ok] tree_ok_def dir_ok_def)
  then show ?thesis by (metis append_butlast_last_id)
qed

lemma file_has_path:
  assumes ok: "tree_ok s" and f: "f \<in> set (files_of s)"
  obtains cs where "walk (dirs_of s) ROOT_DIR_ID cs = Some (fr_dir_id f)" and "file_at s (cs @ [fr_name f]) = Some f"
proof -
  from ok f obtain r where "r \<in> set (dirs_of s)" "dr_dir_id r = fr_dir_id f"
    by (fastforce simp: tree_ok_def files_inv_def)
  with ok obtain cs where "walk (dirs_of s) ROOT_DIR_ID cs = Some (fr_dir_id f)"
    using dir_reachable by (fastforce simp: tree_ok_def dir_ok_def)
  with f that show thesis by (simp add: file_at_iff [OF ok])
qed

lemma get_file_by_path_spec:
  assumes ok: "tree_ok s"
  shows "\<exists>c. get_file_by_path path s =
      (res_bind (split_fs0_path_dir_and_name path) (\<lambda>(dir, name).
         res_bind (resolve_dir (dirs_of s) dir) (\<lambda>d. ok_or NotFound (child_file_row (files_of s) d name))),
       s\<lparr> db_dir_cache := c \<rparr>) \<and> tree_ok (s\<lparr> db_dir_cache := c \<rparr>)"
proof (cases "split_fs0_path_dir_and_name path")
  case (Inl e)
  then show ?thesis using ok
    by (intro exI [of _ "db_dir_cache s"]) (simp add: get_file_by_path_def st_bind_def)
next
  case (Inr dn)
  obtain dir name where dn: "dn = (dir, name)" by force
  from ok have dok: "dir_ok s" by (simp add: tree_ok_def)
  from get_dir_id_by_path_spec [OF dok, of dir] obtain c
    where g: "get_dir_id_by_path dir s = (resolve_dir (dirs_of s) dir, s\<lparr> db_dir_cache := c \<rparr>)"
      and dok': "dir_ok (s\<lparr> db_dir_cache := c \<rparr>)" by auto
  let ?t = "s\<lparr> db_dir_cache := c \<rparr>"
  show ?thesis
  proof (cases "resolve_dir (dirs_of s) dir")
    case (Inl e)
    with Inr dn g tree_ok_cache [OF ok dok'] show ?thesis
      by (intro exI [of _ c]) (simp add: get_file_by_path_def st_bind_def)
  next
    case d: (Inr d)
    then have "fits_i64 d"
      using dok walk_in_dirs(2) by (auto simp: resolve_dir_def res_bind_Inr_iff dir_ok_def)
    moreover have "row_to_file r = Inr r" if "child_file_row (files_of ?t) d name = Some r" for r
      using ok child_file_rowD [OF that] row_to_file_ok by (auto simp: tree_ok_def dir_ok_def)
    ultimately show ?thesis
      using Inr dn g d tree_ok_cache [OF ok dok']
        query_optional_ok [of "\<lambda>t. child_file_row (t_files t) d name" ?t row_to_file id]
      by (intro exI [of _ c])
        (simp add: get_file_by_path_def st_bind_def u64_to_i64_def fits_i64_def option.map_id)
  qed
qed

text \<open>Looking a path up finds the file at the path.\<close>

lemma get_file_by_path_file_at:
  assumes ok: "tree_ok s" and valid: "list_all valid_component cs" "cs \<noteq> []"
  shows "\<exists>c. get_file_by_path (path_of cs) s = (ok_or NotFound (file_at s cs), s\<lparr> db_dir_cache := c \<rparr>) \<and>
    tree_ok (s\<lparr> db_dir_cache := c \<rparr>)"
proof -
  have "split_fs0_path_dir_and_name (path_of cs) = Inr (path_of (butlast cs), last cs)"
    using valid by (subst split_dir_and_name_iff) (auto simp: list_all_iff intro!: exI [of _ "butlast cs"] dest: in_set_butlastD)
  moreover have "split_fs0_path_components (path_of (butlast cs)) = Inr (butlast cs)"
    using valid by (simp add: split_components_iff list_all_iff in_set_butlastD)
  ultimately show ?thesis
    using get_file_by_path_spec [OF ok, of "path_of cs"] valid
    by (cases "walk (dirs_of s) ROOT_DIR_ID (butlast cs)") (auto simp: resolve_dir_def file_at_def)
qed

section \<open>Creating and copying\<close>

lemma files_inv_snoc:
  assumes inv: "files_inv ds fs k"
    and new: "\<And>g. g \<in> set fs \<Longrightarrow> fr_file_id g < fr_file_id f \<and> \<not> (fr_dir_id g = fr_dir_id f \<and> fr_name g = fr_name f)"
    and seq: "k < fr_file_id f" "fits_i64 (fr_file_id f)"
    and f: "fr_dir_id f \<in> dr_dir_id ` set ds" "valid_component (fr_name f)" "fits_i64 (fr_size_bytes f)"
      "fits_i64 (fr_compressed_size_bytes f)" "fits_i64 (fr_created_at_ms f)" "fits_i64 (fr_updated_at_ms f)"
      "child ds (fr_dir_id f) (fr_name f) = None"
  shows "files_inv ds (fs @ [f]) (fr_file_id f)"
proof -
  have "fr_file_id f \<notin> fr_file_id ` set fs" using new by fastforce
  moreover have "(fr_dir_id f, fr_name f) \<notin> (\<lambda>r. (fr_dir_id r, fr_name r)) ` set fs" using new by fastforce
  moreover have "fr_file_id g \<le> fr_file_id f" if "g \<in> set fs" for g
    using new [OF that] by (simp add: less_imp_le)
  ultimately show ?thesis using inv seq f by (simp add: files_inv_def)
qed

lemma child_file_row_snoc:
  "child_file_row (fs @ [f]) d n =
     (case child_file_row fs d n of
        None \<Rightarrow> if fr_dir_id f = d \<and> fr_name f = n then Some f else None
      | Some g \<Rightarrow> Some g)"
  by (simp add: child_file_row_def find_append split: option.splits)

lemma insert_file_step:
  assumes inv: "db_inv t" and walk: "walk (dirs_of t) ROOT_DIR_ID pre = Some d" and name: "valid_component n"
    and unused: "pre @ [n] \<notin> dir_paths t" "file_at t (pre @ [n]) = None"
    and fits: "fits_i64 sz" "fits_i64 csz" "fits_i64 now"
  shows "exec (insert_file d n sz csz now) t = (Inl (Sqlite ''database or disk is full''), t) \<or>
    (\<exists>f t'. exec (insert_file d n sz csz now) t = (Inr (fr_file_id f), t') \<and> db_inv t' \<and>
       dirs_of t' = dirs_of t \<and> db_dir_cache t' = db_dir_cache t \<and> t_file_bundles (db_conn t') = t_file_bundles (db_conn t) \<and>
       t_leases (db_conn t') = t_leases (db_conn t) \<and>
       file_at t' = (file_at t)(pre @ [n] \<mapsto> f) \<and> find_file t' (fr_file_id f) = Some f \<and> find_file t (fr_file_id f) = None \<and>
       fr_size_bytes f = sz \<and> fr_compressed_size_bytes f = csz \<and> fr_created_at_ms f = now \<and> fr_updated_at_ms f = now \<and>
       t_files_seq (db_conn t) < fr_file_id f)"
proof (cases "next_rowid (t_files_seq (db_conn t)) (map fr_file_id (files_of t))")
  case (Inl e)
  then show ?thesis using next_rowid_Inl [OF Inl] by (simp add: exec_def insert_file_def)
next
  case (Inr rowid)
  note D = db_invD [OF inv]
  define f where "f = \<lparr> fr_file_id = rowid, fr_dir_id = d, fr_name = n, fr_size_bytes = sz,
    fr_compressed_size_bytes = csz, fr_created_at_ms = now, fr_updated_at_ms = now \<rparr>"
  let ?t = "t\<lparr> db_conn := (db_conn t)\<lparr> t_files := files_of t @ [f], t_files_seq := rowid \<rparr> \<rparr>"
  have din: "d \<in> dr_dir_id ` set (dirs_of t)" using walk_in_dirs(1) [OF D(4) walk] .
  have nochild: "child (dirs_of t) d n = None"
    using unused(1) walk by (simp add: dir_paths_def walk_append split: option.splits)
  have nofile: "child_file_row (files_of t) d n = None"
    using unused(2) walk by (simp add: file_at_def)
  have clash: "\<not> (fr_dir_id g = d \<and> fr_name g = n)" if "g \<in> set (files_of t)" for g
    using child_file_row_exists [OF D(5) that] nofile by auto
  have fresh: "fr_file_id g < rowid" if "g \<in> set (files_of t)" for g
    using next_rowid_Inr(3) [OF Inr] that by auto
  have "exec (insert_file d n sz csz now) t = (Inr rowid, ?t)"
    using Inr clash din by (auto simp: exec_def insert_file_def f_def list_ex_iff)
  moreover have finv: "files_inv (dirs_of t) (files_of t @ [f]) rowid"
    using files_inv_snoc [OF D(5), of f] next_rowid_Inr(1,2) [OF Inr] clash fresh din name fits nochild
    by (simp add: f_def)
  then have tok: "tree_ok ?t" using D(1) by (simp add: tree_ok_def dir_ok_def)
  moreover have "links_ok (db_conn ?t)"
    using links_ok_files(2) [OF D(2), of "files_of t @ [f]" rowid] by auto
  moreover have "file_at ?t = (file_at t)(pre @ [n] \<mapsto> f)"
  proof
    fix qs
    show "file_at ?t qs = ((file_at t)(pre @ [n] \<mapsto> f)) qs"
    proof (cases "qs = pre @ [n]")
      case True
      then show ?thesis using walk nofile by (simp add: file_at_def child_file_row_snoc f_def)
    next
      case False
      have "\<not> (qs \<noteq> [] \<and> last qs = n \<and> walk (dirs_of t) ROOT_DIR_ID (butlast qs) = Some d)"
        using False walk_inject [OF D(4) _ walk, of "butlast qs"] append_butlast_last_id [of qs] by auto
      with False show ?thesis
        by (cases "walk (dirs_of t) ROOT_DIR_ID (butlast qs)")
          (auto simp: file_at_def child_file_row_snoc f_def split: option.splits)
    qed
  qed
  moreover have "find_file t rowid = None"
    using fresh by (auto simp: find_file_None)
  moreover have "find_file ?t rowid = Some f"
    using find_file_exists [of "dirs_of t" ?t rowid f] finv by (simp add: f_def)
  ultimately show ?thesis
    using next_rowid_Inr(2) [OF Inr] by (intro disjI2 exI [of _ f] exI [of _ ?t]) (simp add: f_def db_inv_def)
qed

text \<open>The directory part of an operation on a target path, and the check of the name there.\<close>

lemma target_dir_spec:
  assumes inv: "db_inv s" and path: "split_fs0_path_dir_and_name path = Inr (dir, name)"
  obtains cs r t where "list_all valid_component (cs @ [name])" and "path = path_of (cs @ [name])"
    and "create_dir dir s = (r, t)" and "created_dirs s cs r t" and "db_inv t" and "file_at t = file_at s"
    and "\<forall>d. r = Inr d \<longrightarrow> walk (dirs_of t) ROOT_DIR_ID cs = Some d \<and> fits_i64 d"
    and "cs @ [name] \<in> dir_paths t \<longleftrightarrow> cs @ [name] \<in> dir_paths s \<or> (\<exists>e. r = Inl e) \<and> cs @ [name] \<in> dir_paths t"
proof -
  from path obtain cs where v: "list_all valid_component (cs @ [name])" "path = path_of (cs @ [name])"
      and d: "dir = path_of cs"
    by (auto simp: split_dir_and_name_iff list_all_iff)
  then have "split_fs0_path_components dir = Inr cs" by (simp add: split_components_iff list_all_iff)
  with create_dir_spec [OF db_invD(1) [OF inv]] obtain r t
    where c: "create_dir dir s = (r, t)" "created_dirs s cs r t" by blast
  from c(2) have tok: "tree_ok t" and ext: "dirs_extend s t" by (simp_all add: created_dirs_def)
  then have "db_inv t"
    using db_invD(2) [OF inv] by (auto simp: db_inv_def dirs_extend_def)
  moreover have "walk (dirs_of t) ROOT_DIR_ID cs = Some d \<and> fits_i64 d" if "r = Inr d" for d
    using c(2) that tok walk_in_dirs(2) by (auto simp: created_dirs_def tree_ok_def dir_ok_def)
  moreover have "dir_paths s \<subseteq> dir_paths t"
    using c(2) by (fastforce simp: created_dirs_def same_walks_def dir_paths_def)
  moreover have "dir_paths t = dir_paths s \<union> {qs. prefix qs cs}" if "r = Inr d" for d
    using c(2) that by (simp add: created_dirs_def)
  moreover have "\<not> prefix (cs @ [name]) cs" by (auto dest: prefix_length_le)
  ultimately show thesis
    using that [OF v c] created_dirs_file_at [OF db_invD(1) [OF inv] c(2)] by (cases r) auto
qed

lemma ensure_target_spec:
  assumes inv: "db_inv t" and walk: "walk (dirs_of t) ROOT_DIR_ID cs = Some d"
  shows "ensure_child_name_available d name ex path t =
    (if cs @ [name] \<in> dir_paths t \<or> (\<exists>f. file_at t (cs @ [name]) = Some f \<and> Some (fr_file_id f) \<noteq> ex)
     then (Inl (AlreadyExists path), t) else (Inr (), t))"
proof -
  have "fits_i64 d" using walk_in_dirs(2) [OF db_invD(4) [OF inv] walk] .
  moreover have "cs @ [name] \<in> dir_paths t \<longleftrightarrow> child (dirs_of t) d name \<noteq> None"
    using walk by (auto simp: dir_paths_def walk_append split: option.splits)
  moreover have "file_at t (cs @ [name]) = child_file_row (files_of t) d name"
    using walk by (simp add: file_at_def)
  ultimately show ?thesis
    using ensure_child_name_available_spec [OF db_invD(1) [OF inv], of d name ex path] by simp
qed

text \<open>What creating a new file row at \<open>cs\<close> with the given sizes may do.\<close>

definition created_file ::
    "central_db \<Rightarrow> string list \<Rightarrow> u64 \<Rightarrow> u64 \<Rightarrow> u64 \<Rightarrow> file_row fs0_result \<Rightarrow> central_db \<Rightarrow> bool" where
  "created_file s cs sz csz now r s' \<longleftrightarrow>
     db_inv s' \<and>
     (case r of
        Inr f \<Rightarrow>
          cs \<notin> dir_paths s \<and> file_at s cs = None \<and> file_at s' = (file_at s)(cs \<mapsto> f) \<and>
          dir_paths s' = dir_paths s \<union> {qs. strict_prefix qs cs} \<and>
          find_file s (fr_file_id f) = None \<and> t_files_seq (db_conn s) < fr_file_id f \<and>
          fr_size_bytes f = sz \<and> fr_compressed_size_bytes f = csz \<and> fr_created_at_ms f = now \<and> fr_updated_at_ms f = now
      | Inl e \<Rightarrow>
          e = Sqlite ''database or disk is full'' \<or>
          e = AlreadyExists (path_of cs) \<and> (cs \<in> dir_paths s \<or> file_at s cs \<noteq> None) \<or>
          (\<exists>qs. strict_prefix qs cs \<and> file_at s qs \<noteq> None \<and> e = AlreadyExists (path_of qs)))"

lemma strict_prefix_snoc: "strict_prefix qs (cs @ [n]) \<longleftrightarrow> prefix qs cs"
  by (auto simp: strict_prefix_def prefix_def append_eq_append_conv2 Cons_eq_append_conv append_eq_Cons_conv)

text \<open>The common tail of \<open>create_file\<close> and \<open>copy_file_by_id\<close>.\<close>

lemma create_row_spec:
  assumes inv: "db_inv s" and path: "split_fs0_path_dir_and_name path = Inr (dir, name)"
    and fits: "fits_i64 sz" "fits_i64 csz" "fits_i64 now"
  shows "\<exists>cs r s'. path = path_of cs \<and> list_all valid_component cs \<and> cs \<noteq> [] \<and>
    st_bind (create_dir dir) (\<lambda>dir_id.
      st_bind (ensure_child_name_available dir_id name None path) (\<lambda>_.
      st_bind (st_lift (u64_to_i64 dir_id nm1)) (\<lambda>d.
      st_bind (exec (insert_file d name sz csz now)) (\<lambda>rowid.
      st_bind (st_lift (i64_to_u64 rowid nm2)) get_file_by_id)))) s = (r, s') \<and>
    created_file s cs sz csz now r s'"
proof -
  from target_dir_spec [OF inv path] obtain cs r t
    where v: "list_all valid_component (cs @ [name])" "path = path_of (cs @ [name])"
      and c: "create_dir dir s = (r, t)" "created_dirs s cs r t" and inv': "db_inv t"
      and fa: "file_at t = file_at s"
      and w: "\<forall>d. r = Inr d \<longrightarrow> walk (dirs_of t) ROOT_DIR_ID cs = Some d \<and> fits_i64 d"
      and dp: "cs @ [name] \<in> dir_paths t \<longleftrightarrow>
         cs @ [name] \<in> dir_paths s \<or> (\<exists>e. r = Inl e) \<and> cs @ [name] \<in> dir_paths t"
    by blast
  have "\<exists>r' s'. st_bind (create_dir dir) (\<lambda>dir_id.
      st_bind (ensure_child_name_available dir_id name None path) (\<lambda>_.
      st_bind (st_lift (u64_to_i64 dir_id nm1)) (\<lambda>d.
      st_bind (exec (insert_file d name sz csz now)) (\<lambda>rowid.
      st_bind (st_lift (i64_to_u64 rowid nm2)) get_file_by_id)))) s = (r', s') \<and>
    created_file s (cs @ [name]) sz csz now r' s'"
  proof (cases r)
    case (Inl e)
    with c fa inv' show ?thesis
      by (auto simp: st_bind_def created_file_def created_dirs_def strict_prefix_snoc)
  next
    case (Inr d)
    then have walk: "walk (dirs_of t) ROOT_DIR_ID cs = Some d" and i64: "u64_to_i64 d nm = Inr d" for nm
      using w by (simp_all add: u64_to_i64_Inr_iff)
    note ens = ensure_target_spec [OF inv' walk, of name None path]
    show ?thesis
    proof (cases "cs @ [name] \<in> dir_paths t \<or> file_at t (cs @ [name]) \<noteq> None")
      case True
      with c Inr ens inv' v dp fa show ?thesis
        by (auto simp: st_bind_def created_file_def)
    next
      case False
      then have free: "cs @ [name] \<notin> dir_paths t" "file_at t (cs @ [name]) = None" by simp_all
      from v have vn: "valid_component name" by simp
      from insert_file_step [OF inv' walk vn free fits] show ?thesis
      proof (elim disjE exE conjE)
        assume "exec (insert_file d name sz csz now) t = (Inl (Sqlite ''database or disk is full''), t)"
        with c Inr ens free i64 inv' show ?thesis by (simp add: st_bind_def created_file_def)
      next
        fix f t'
        assume f: "exec (insert_file d name sz csz now) t = (Inr (fr_file_id f), t')" "db_inv t'"
          "dirs_of t' = dirs_of t" "file_at t' = (file_at t)(cs @ [name] \<mapsto> f)"
          "find_file t' (fr_file_id f) = Some f" "find_file t (fr_file_id f) = None"
          "fr_size_bytes f = sz" "fr_compressed_size_bytes f = csz" "fr_created_at_ms f = now"
          "fr_updated_at_ms f = now" "t_files_seq (db_conn t) < fr_file_id f"
        have get: "get_file_by_id (fr_file_id f) t' = (Inr f, t')"
          using get_file_by_id_found [OF db_invD(1) [OF f(2)] f(5)] .
        have "f \<in> set (files_of t')" using find_fileD [OF f(5)] by simp
        then have "i64_to_u64 (fr_file_id f) nm2 = Inr (fr_file_id f)"
          using file_id_fits [OF db_invD(5) [OF f(2)]] by (simp add: i64_to_u64_Inr_iff)
        moreover have "files_of t = files_of s" "t_files_seq (db_conn t) = t_files_seq (db_conn s)"
          using c(2) by (auto simp: created_dirs_def dirs_extend_def)
        moreover have "dir_paths t' = dir_paths s \<union> {qs. strict_prefix qs (cs @ [name])}"
          using c(2) Inr f(3) by (simp add: created_dirs_def dir_paths_def strict_prefix_snoc)
        ultimately show ?thesis
          using c Inr ens free i64 f get dp fa
          by (simp add: st_bind_def created_file_def find_file_def)
      qed
    qed
  qed
  with v show ?thesis by (intro exI [of _ "cs @ [name]"]) auto
qed

lemma create_file_spec:
  assumes inv: "db_inv s" and now: "fits_i64 now"
    and path: "split_fs0_path_dir_and_name path = Inr (dir, name)"
  shows "\<exists>cs r s'. path = path_of cs \<and> list_all valid_component cs \<and> cs \<noteq> [] \<and>
    create_file path now s = (r, s') \<and> created_file s cs 0 0 now r s'"
proof -
  have swap: "st_bind (st_lift (u64_to_i64 dir_id nm1)) (\<lambda>d. st_bind (st_lift (u64_to_i64 now nm2)) (\<lambda>n. k d n)) =
      st_bind (st_lift (u64_to_i64 dir_id nm1)) (\<lambda>d. k d now)" for dir_id nm1 nm2 and k :: "u64 \<Rightarrow> u64 \<Rightarrow> file_row tx"
    using now u64_to_i64_Inr_iff [of now nm2 now] by (auto simp: fun_eq_iff st_bind_def split: sum.splits)
  show ?thesis
    using create_row_spec [OF inv path, of 0 0 now "''dir_id''" "''file_id''"] now path
    by (simp add: create_file_def swap fits_i64_def [of 0] st_bind_eval)
qed

lemma copy_file_by_id_spec:
  assumes inv: "db_inv s" and now: "fits_i64 now" and src: "find_file s i = Some f"
    and path: "split_fs0_path_dir_and_name path = Inr (dir, name)"
  shows "\<exists>cs r s'. path = path_of cs \<and> list_all valid_component cs \<and> cs \<noteq> [] \<and>
    copy_file_by_id i path now s = (r, s') \<and>
    created_file s cs (fr_size_bytes f) (fr_compressed_size_bytes f) now r s'"
proof -
  have "f \<in> set (files_of s)" using find_fileD [OF src] by simp
  then have fits: "fits_i64 (fr_size_bytes f)" "fits_i64 (fr_compressed_size_bytes f)"
    using db_invD(5) [OF inv] by (simp_all add: files_inv_def)
  have swap: "st_bind (st_lift (u64_to_i64 dir_id nm1)) (\<lambda>d.
        st_bind (st_lift (u64_to_i64 (fr_size_bytes f) nm2)) (\<lambda>sz.
        st_bind (st_lift (u64_to_i64 (fr_compressed_size_bytes f) nm3)) (\<lambda>csz.
        st_bind (st_lift (u64_to_i64 now nm4)) (\<lambda>n. k d sz csz n)))) =
      st_bind (st_lift (u64_to_i64 dir_id nm1)) (\<lambda>d. k d (fr_size_bytes f) (fr_compressed_size_bytes f) now)"
    for dir_id nm1 nm2 nm3 nm4 and k :: "u64 \<Rightarrow> u64 \<Rightarrow> u64 \<Rightarrow> u64 \<Rightarrow> file_row tx"
    using now fits u64_to_i64_Inr_iff [of now nm4 now] u64_to_i64_Inr_iff [of "fr_size_bytes f" nm2 "fr_size_bytes f"]
      u64_to_i64_Inr_iff [of "fr_compressed_size_bytes f" nm3 "fr_compressed_size_bytes f"]
    by (auto simp: fun_eq_iff st_bind_def split: sum.splits)
  show ?thesis
    using create_row_spec [OF inv path fits now, of "''target_dir_id''" "''target_file_id''"]
      get_file_by_id_found [OF db_invD(1) [OF inv] src] path
    by (simp add: copy_file_by_id_def swap st_bind_eval)
qed

section \<open>Deleting\<close>

lemma links_ok_delete_file:
  assumes "links_ok t"
  shows "links_ok (t\<lparr> t_files := filter (\<lambda>r. fr_file_id r \<noteq> i) (t_files t),
    t_file_bundles := filter (\<lambda>r. fb_file_id r \<noteq> i) (t_file_bundles t),
    t_leases := filter (\<lambda>r. lr_file_id r \<noteq> i) (t_leases t) \<rparr>)"
proof -
  have "bundles_inv (t\<lparr> t_files := filter (\<lambda>r. fr_file_id r \<noteq> i) (t_files t),
      t_file_bundles := filter (\<lambda>r. fb_file_id r \<noteq> i) (t_file_bundles t),
      t_leases := filter (\<lambda>r. lr_file_id r \<noteq> i) (t_leases t) \<rparr>)"
    using assms by (fastforce simp: links_ok_def bundles_inv_def distinct_map_filter)
  moreover have "leases_inv (t\<lparr> t_files := filter (\<lambda>r. fr_file_id r \<noteq> i) (t_files t),
      t_file_bundles := filter (\<lambda>r. fb_file_id r \<noteq> i) (t_file_bundles t),
      t_leases := filter (\<lambda>r. lr_file_id r \<noteq> i) (t_leases t) \<rparr>)"
    using assms by (fastforce simp: links_ok_def leases_inv_def distinct_map_filter)
  ultimately show ?thesis
    using assms by (simp add: links_ok_def volumes_inv_def replicas_inv_def events_inv_def)
qed

lemma delete_file_by_id_spec:
  assumes inv: "db_inv s" and res: "delete_file_by_id i s = (r, s')"
  shows "db_inv s' \<and>
    (case r of
       Inr _ \<Rightarrow> find_file s i \<noteq> None \<and> dir_paths s' = dir_paths s \<and>
         file_at s' = (\<lambda>cs. case file_at s cs of None \<Rightarrow> None | Some f \<Rightarrow> if fr_file_id f = i then None else Some f)
     | Inl e \<Rightarrow> db_conn s' = db_conn s \<and> find_file s i = None)"
proof (cases "find_file s i")
  case None
  then have "delete_file_stmt i (db_conn s) = Inr (0, db_conn s)"
    by (auto simp: delete_file_stmt_def find_file_None list_ex_iff filter_empty_conv)
  then have "db_conn s' = db_conn s \<and> db_dir_cache s' = db_dir_cache s \<and> (\<exists>e. r = Inl e)"
    using res by (auto simp: delete_file_by_id_def st_bind_def exec_def u64_to_i64_def split: if_splits)
  with inv None show ?thesis by (auto simp: db_inv_def tree_ok_def dir_ok_def)
next
  case (Some f)
  let ?fs = "filter (\<lambda>r. fr_file_id r \<noteq> i) (files_of s)"
  let ?t = "(db_conn s)\<lparr> t_files := ?fs, t_file_bundles := filter (\<lambda>r. fb_file_id r \<noteq> i) (t_file_bundles (db_conn s)),
      t_leases := filter (\<lambda>r. lr_file_id r \<noteq> i) (t_leases (db_conn s)) \<rparr>"
  let ?s = "s\<lparr> db_conn := ?t \<rparr>"
  note D = db_invD [OF inv]
  from find_fileD [OF Some] have f: "f \<in> set (files_of s)" "fr_file_id f = i" by simp_all
  then have "fits_i64 i" using file_id_fits [OF D(5)] by auto
  moreover have "delete_file_stmt i (db_conn s) = Inr (length (filter (\<lambda>r. fr_file_id r = i) (files_of s)), ?t)"
    using f by (auto simp: delete_file_stmt_def list_ex_iff)
  moreover have "filter (\<lambda>r. fr_file_id r = i) (files_of s) \<noteq> []"
    using f by (auto simp: filter_empty_conv)
  ultimately have rs: "r = Inr ()" "s' = ?s"
    using res by (simp_all add: delete_file_by_id_def st_bind_def exec_def u64_to_i64_def fits_i64_def)
  have "files_inv (dirs_of s) ?fs (t_files_seq (db_conn s))"
    using D(5) by (auto simp: files_inv_def distinct_map_filter)
  then have tok: "tree_ok ?s" using D(1) by (simp add: tree_ok_def dir_ok_def)
  moreover have "file_at ?s cs = (case file_at s cs of None \<Rightarrow> None | Some f \<Rightarrow> if fr_file_id f = i then None else Some f)" for cs
  proof (rule option_eqI)
    fix g
    have "file_at ?s cs = Some g \<longleftrightarrow> file_at s cs = Some g \<and> fr_file_id g \<noteq> i"
      unfolding file_at_iff [OF tok] file_at_iff [OF D(1)] by auto
    then show "file_at ?s cs = Some g \<longleftrightarrow>
        (case file_at s cs of None \<Rightarrow> None | Some f \<Rightarrow> if fr_file_id f = i then None else Some f) = Some g"
      by (auto split: option.splits)
  qed
  ultimately show ?thesis
    using rs Some links_ok_delete_file [OF D(2), of i] by (simp add: db_inv_def dir_paths_def fun_eq_iff)
qed

section \<open>Renaming and resizing\<close>

text \<open>The tree without a file, which is what a move starts from.\<close>

definition drop_file :: "u64 \<Rightarrow> (string list \<rightharpoonup> file_row) \<Rightarrow> string list \<rightharpoonup> file_row" where
  "drop_file i m = (\<lambda>cs. case m cs of None \<Rightarrow> None | Some f \<Rightarrow> if fr_file_id f = i then None else Some f)"

lemma drop_file_Some: "drop_file i m cs = Some f \<longleftrightarrow> m cs = Some f \<and> fr_file_id f \<noteq> i"
  by (auto simp: drop_file_def split: option.splits)

lemma replace_file_inv:
  assumes inv: "db_inv t" and f: "f \<in> set (files_of t)" and id: "fr_file_id (h f) = fr_file_id f"
    and new: "fr_dir_id (h f) \<in> dr_dir_id ` set (dirs_of t)" "valid_component (fr_name (h f))"
      "child (dirs_of t) (fr_dir_id (h f)) (fr_name (h f)) = None"
      "fits_i64 (fr_size_bytes (h f))" "fits_i64 (fr_compressed_size_bytes (h f))"
      "fits_i64 (fr_created_at_ms (h f))" "fits_i64 (fr_updated_at_ms (h f))"
    and clash: "\<And>g. g \<in> set (files_of t) \<Longrightarrow> g \<noteq> f \<Longrightarrow> (fr_dir_id g, fr_name g) \<noteq> (fr_dir_id (h f), fr_name (h f))"
  defines "t' \<equiv> t\<lparr> db_conn := (db_conn t)\<lparr> t_files :=
    map (\<lambda>r. if fr_file_id r = fr_file_id f then h r else r) (files_of t) \<rparr> \<rparr>"
  shows "db_inv t'" and "set (files_of t') = insert (h f) (set (files_of t) - {f})"
proof -
  note D = db_invD [OF inv]
  have k: "distinct (map fr_file_id (files_of t))" and q: "distinct (map (\<lambda>r. (fr_dir_id r, fr_name r)) (files_of t))"
    using D(5) by (simp_all add: files_inv_def)
  let ?fs = "map (\<lambda>r. if fr_file_id r = fr_file_id f then h r else r) (files_of t)"
  have set_fs: "set ?fs = insert (h f) (set (files_of t) - {f})" by (rule update_row_set [OF k f])
  then show "set (files_of t') = insert (h f) (set (files_of t) - {f})" by (simp add: t'_def)
  have "distinct (map fr_file_id ?fs)"
    using key_unique [OF k f] id by (intro update_row_distinct [OF k f k]) auto
  moreover have "distinct (map (\<lambda>r. (fr_dir_id r, fr_name r)) ?fs)"
    using clash by (intro update_row_distinct [OF k f q])
  moreover have "fr_file_id (h f) \<le> t_files_seq (db_conn t)" using D(5) f id by (simp add: files_inv_def)
  ultimately have "files_inv (dirs_of t) ?fs (t_files_seq (db_conn t))"
    using D(5) new unfolding files_inv_def set_fs by blast
  then have "tree_ok t'" using D(1) by (simp add: tree_ok_def dir_ok_def t'_def)
  moreover have "fr_file_id ` set (files_of t) \<subseteq> fr_file_id ` set ?fs"
    unfolding set_fs using id f by (auto simp: image_iff)
  then have "links_ok (db_conn t')"
    using links_ok_files(1) [OF D(2), of ?fs] by (simp add: t'_def)
  ultimately show "db_inv t'" by (simp add: db_inv_def)
qed

lemma move_file_step:
  assumes inv: "db_inv t" and walk: "walk (dirs_of t) ROOT_DIR_ID pre = Some d" and name: "valid_component n"
    and unused: "pre @ [n] \<notin> dir_paths t" "\<And>g. file_at t (pre @ [n]) = Some g \<Longrightarrow> fr_file_id g = i"
    and found: "find_file t i = Some f" and now: "fits_i64 now"
  defines "f' \<equiv> f\<lparr> fr_dir_id := d, fr_name := n, fr_updated_at_ms := now \<rparr>"
  shows "\<exists>t'. exec (move_file_stmt i d n now) t = (Inr 1, t') \<and> db_inv t' \<and> dirs_of t' = dirs_of t \<and>
    find_file t' i = Some f' \<and> file_at t' = (drop_file i (file_at t))(pre @ [n] \<mapsto> f')"
proof -
  note D = db_invD [OF inv]
  let ?h = "\<lambda>r. r\<lparr> fr_dir_id := d, fr_name := n, fr_updated_at_ms := now \<rparr>"
  let ?t = "t\<lparr> db_conn := (db_conn t)\<lparr> t_files := map (\<lambda>r. if fr_file_id r = i then ?h r else r) (files_of t) \<rparr> \<rparr>"
  have f: "f \<in> set (files_of t)" "fr_file_id f = i" using find_fileD [OF found] by simp_all
  have k: "distinct (map fr_file_id (files_of t))" using D(5) by (simp add: files_inv_def)
  have din: "d \<in> dr_dir_id ` set (dirs_of t)" using walk_in_dirs(1) [OF D(4) walk] .
  have nochild: "child (dirs_of t) d n = None"
    using unused(1) walk by (simp add: dir_paths_def walk_append split: option.splits)
  have clash: "fr_file_id g = i" if "g \<in> set (files_of t)" "fr_dir_id g = d" "fr_name g = n" for g
    using unused(2) [of g] that walk by (simp add: file_at_iff [OF D(1)])
  have clash': "(fr_dir_id g, fr_name g) \<noteq> (d, n)" if "g \<in> set (files_of t)" "g \<noteq> f" for g
    using clash [of g] that key_unique [OF k f(1), of g] f(2) by auto
  have ex: "exec (move_file_stmt i d n now) t = (Inr 1, ?t)"
    using f din clash filter_key [OF k f(1)] by (auto simp: exec_def move_file_stmt_def list_ex_iff)
  have inv': "db_inv ?t" and set_fs: "set (files_of ?t) = insert f' (set (files_of t) - {f})"
    using replace_file_inv [OF inv f(1), of ?h] f din name nochild now clash' D(5)
    by (simp_all add: files_inv_def f'_def)
  have "find_file ?t (fr_file_id f') = Some f'"
    using find_file_exists [OF db_invD(5) [OF inv'], of f'] unfolding set_fs by simp
  then have fnd: "find_file ?t i = Some f'" using f(2) by (simp add: f'_def)
  have "file_at ?t cs = ((drop_file i (file_at t))(pre @ [n] \<mapsto> f')) cs" for cs
  proof (rule option_eqI)
    fix g
    have nf: "g \<in> set (files_of t) - {f} \<longleftrightarrow> g \<in> set (files_of t) \<and> fr_file_id g \<noteq> i"
      using key_unique [OF k f(1), of g] f(2) by auto
    have at: "file_at ?t cs = Some g \<longleftrightarrow>
        (g = f' \<or> g \<in> set (files_of t) \<and> fr_file_id g \<noteq> i) \<and> cs \<noteq> [] \<and> last cs = fr_name g \<and>
        walk (dirs_of t) ROOT_DIR_ID (butlast cs) = Some (fr_dir_id g)"
      unfolding file_at_iff [OF db_invD(1) [OF inv']] set_fs insert_iff nf by simp
    have tgt: "cs \<noteq> [] \<and> last cs = n \<and> walk (dirs_of t) ROOT_DIR_ID (butlast cs) = Some d \<longleftrightarrow> cs = pre @ [n]"
      using walk walk_inject [OF D(4) _ walk, of "butlast cs"] append_butlast_last_id [of cs] by auto
    have "fr_dir_id f' = d" "fr_name f' = n" "fr_file_id f' = i" using f(2) by (simp_all add: f'_def)
    then show "file_at ?t cs = Some g \<longleftrightarrow> ((drop_file i (file_at t))(pre @ [n] \<mapsto> f')) cs = Some g"
      unfolding at fun_upd_apply
      using tgt clash by (cases "cs = pre @ [n]") (auto simp: drop_file_Some file_at_iff [OF D(1)])
  qed
  with ex inv' fnd show ?thesis by auto
qed

text \<open>What moving file \<open>i\<close> to \<open>cs\<close> may do.\<close>

definition moved_file :: "central_db \<Rightarrow> u64 \<Rightarrow> string list \<Rightarrow> u64 \<Rightarrow> file_row fs0_result \<Rightarrow> central_db \<Rightarrow> bool" where
  "moved_file s i cs now r s' \<longleftrightarrow>
     db_inv s' \<and>
     (case r of
        Inr f' \<Rightarrow>
          (\<exists>f. find_file s i = Some f \<and> f' = f\<lparr> fr_dir_id := fr_dir_id f', fr_name := last cs, fr_updated_at_ms := now \<rparr>) \<and>
          cs \<notin> dir_paths s \<and> (\<forall>g. file_at s cs = Some g \<longrightarrow> fr_file_id g = i) \<and>
          file_at s' = (drop_file i (file_at s))(cs \<mapsto> f') \<and>
          dir_paths s' = dir_paths s \<union> {qs. strict_prefix qs cs}
      | Inl e \<Rightarrow>
          e = Sqlite ''database or disk is full'' \<or>
          e = NotFound \<and> find_file s i = None \<or>
          e = IntegerConversion (''file_id value '' @ show_u64 i @ '' does not fit in i64'') \<and> \<not> fits_i64 i \<or>
          e = AlreadyExists (path_of cs) \<and> (cs \<in> dir_paths s \<or> (\<exists>g. file_at s cs = Some g \<and> fr_file_id g \<noteq> i)) \<or>
          (\<exists>qs. strict_prefix qs cs \<and> file_at s qs \<noteq> None \<and> e = AlreadyExists (path_of qs)))"

lemma rename_file_by_id_spec:
  assumes inv: "db_inv s" and now: "fits_i64 now"
    and path: "split_fs0_path_dir_and_name path = Inr (dir, name)"
  shows "\<exists>cs r s'. path = path_of cs \<and> list_all valid_component cs \<and> cs \<noteq> [] \<and>
    rename_file_by_id i path now s = (r, s') \<and> moved_file s i cs now r s'"
proof -
  from target_dir_spec [OF inv path] obtain cs r t
    where v: "list_all valid_component (cs @ [name])" "path = path_of (cs @ [name])"
      and c: "create_dir dir s = (r, t)" "created_dirs s cs r t" and inv': "db_inv t"
      and fa: "file_at t = file_at s"
      and w: "\<forall>d. r = Inr d \<longrightarrow> walk (dirs_of t) ROOT_DIR_ID cs = Some d \<and> fits_i64 d"
      and dp: "cs @ [name] \<in> dir_paths t \<longleftrightarrow>
         cs @ [name] \<in> dir_paths s \<or> (\<exists>e. r = Inl e) \<and> cs @ [name] \<in> dir_paths t"
    by blast
  have ff: "find_file t i = find_file s i"
    using c(2) by (auto simp: created_dirs_def dirs_extend_def find_file_def)
  have "\<exists>r' s'. rename_file_by_id i path now s = (r', s') \<and> moved_file s i (cs @ [name]) now r' s'"
  proof (cases r)
    case (Inl e)
    with c fa inv' path show ?thesis
      by (auto simp: rename_file_by_id_def st_bind_def moved_file_def created_dirs_def strict_prefix_snoc)
  next
    case (Inr d)
    then have walk: "walk (dirs_of t) ROOT_DIR_ID cs = Some d" and i64: "u64_to_i64 d nm = Inr d" "u64_to_i64 now nm = Inr now" for nm
      using w now by (simp_all add: u64_to_i64_Inr_iff)
    note ens = ensure_target_spec [OF inv' walk, of name "Some i" path]
    show ?thesis
    proof (cases "cs @ [name] \<in> dir_paths t \<or> (\<exists>g. file_at t (cs @ [name]) = Some g \<and> fr_file_id g \<noteq> i)")
      case True
      with c Inr ens inv' v dp fa path show ?thesis
        by (auto simp: rename_file_by_id_def st_bind_def moved_file_def)
    next
      case False
      then have free: "cs @ [name] \<notin> dir_paths t" "\<And>g. file_at t (cs @ [name]) = Some g \<Longrightarrow> fr_file_id g = i" by auto
      have eval: "rename_file_by_id i path now s =
          st_bind (st_lift (u64_to_i64 i ''file_id'')) (\<lambda>i'. st_bind (exec (move_file_stmt i' d name now)) (\<lambda>changes.
            if changes = 0 then st_throw NotFound else get_file_by_id i)) t"
        using c Inr ens free i64 path
        by (cases "u64_to_i64 i ''file_id''") (auto simp: rename_file_by_id_def st_bind_def)
      show ?thesis
      proof (cases "find_file t i")
        case None
        then have "move_file_stmt i d name now (db_conn t) = Inr (0, db_conn t)"
          by (auto simp: move_file_stmt_def find_file_None list_ex_iff)
        with None eval inv' ff show ?thesis
          by (auto simp: u64_to_i64_def fits_i64_def st_bind_def exec_def moved_file_def)
      next
        case (Some f)
        have "fits_i64 i" using find_fileD [OF Some] file_id_fits [OF db_invD(5) [OF inv']] by auto
        then have fi: "u64_to_i64 i nm = Inr i" for nm by (simp add: u64_to_i64_Inr_iff)
        from v have vn: "valid_component name" by simp
        from move_file_step [OF inv' walk vn free Some now] obtain t'
          where t': "exec (move_file_stmt i d name now) t = (Inr 1, t')" "db_inv t'" "dirs_of t' = dirs_of t"
            "find_file t' i = Some (f\<lparr> fr_dir_id := d, fr_name := name, fr_updated_at_ms := now \<rparr>)"
            "file_at t' = (drop_file i (file_at t))(cs @ [name] \<mapsto> f\<lparr> fr_dir_id := d, fr_name := name, fr_updated_at_ms := now \<rparr>)"
          by blast
        have "dir_paths t' = dir_paths s \<union> {qs. strict_prefix qs (cs @ [name])}"
          using c(2) Inr t'(3) by (simp add: created_dirs_def dir_paths_def strict_prefix_snoc)
        then show ?thesis
          using eval fi t' get_file_by_id_found [OF db_invD(1) [OF t'(2)] t'(4)] free dp fa Inr Some ff
          by (simp add: st_bind_def moved_file_def)
      qed
    qed
  qed
  with v show ?thesis by (intro exI [of _ "cs @ [name]"]) auto
qed

lemma update_file_after_update_spec:
  assumes inv: "db_inv s" and f: "find_file s i = Some f"
    and fits: "fits_i64 sz" "fits_i64 csz" "fits_i64 now"
  defines "f' \<equiv> f\<lparr> fr_size_bytes := sz, fr_compressed_size_bytes := csz, fr_updated_at_ms := now \<rparr>"
  shows "\<exists>s'. update_file_after_update i sz csz now s = (Inr f', s') \<and> db_inv s' \<and> find_file s' i = Some f' \<and>
    db_conn s' = (db_conn s)\<lparr> t_files := files_of s' \<rparr> \<and> dir_paths s' = dir_paths s \<and>
    file_at s' = (\<lambda>cs. case file_at s cs of None \<Rightarrow> None | Some g \<Rightarrow> Some (if fr_file_id g = i then f' else g))"
proof -
  note D = db_invD [OF inv]
  let ?h = "\<lambda>r. r\<lparr> fr_size_bytes := sz, fr_compressed_size_bytes := csz, fr_updated_at_ms := now \<rparr>"
  let ?t = "s\<lparr> db_conn := (db_conn s)\<lparr> t_files := map (\<lambda>r. if fr_file_id r = i then ?h r else r) (files_of s) \<rparr> \<rparr>"
  have fin: "f \<in> set (files_of s)" "fr_file_id f = i" using find_fileD [OF f] by simp_all
  have k: "distinct (map fr_file_id (files_of s))" and q: "distinct (map (\<lambda>r. (fr_dir_id r, fr_name r)) (files_of s))"
    using D(5) by (simp_all add: files_inv_def)
  have "fits_i64 i" using fin file_id_fits [OF D(5)] by auto
  then have conv: "u64_to_i64 i nm = Inr i" "u64_to_i64 sz nm = Inr sz" "u64_to_i64 csz nm = Inr csz"
      "u64_to_i64 now nm = Inr now" for nm
    using fits by (simp_all add: u64_to_i64_Inr_iff)
  have other: "fr_dir_id g = fr_dir_id f \<longrightarrow> fr_name g \<noteq> fr_name f" if "g \<in> set (files_of s)" "g \<noteq> f" for g
    using key_unique [OF q fin(1) that(1)] that(2) by simp
  have inv': "db_inv ?t" and set_fs: "set (files_of ?t) = insert f' (set (files_of s) - {f})"
    using replace_file_inv [OF inv fin(1), of ?h] fin D(5) fits other
    by (simp_all add: files_inv_def f'_def)
  have "find_file ?t (fr_file_id f') = Some f'"
    using find_file_exists [OF db_invD(5) [OF inv'], of f'] unfolding set_fs by simp
  then have fnd: "find_file ?t i = Some f'" using fin(2) by (simp add: f'_def)
  have "exec (resize_file_stmt i sz csz now) s = (Inr 1, ?t)"
    using filter_key [OF k fin(1)] fin(2) by (simp add: exec_def resize_file_stmt_def)
  then have "update_file_after_update i sz csz now s = (Inr f', ?t)"
    using conv get_file_by_id_found [OF db_invD(1) [OF inv'] fnd]
    by (simp add: update_file_after_update_def st_bind_def)
  moreover have "file_at ?t cs = (case file_at s cs of None \<Rightarrow> None | Some g \<Rightarrow> Some (if fr_file_id g = i then f' else g))" for cs
  proof (rule option_eqI)
    fix g
    have at: "file_at ?t cs = Some g \<longleftrightarrow>
        (g = f' \<or> g \<in> set (files_of s) \<and> g \<noteq> f) \<and> cs \<noteq> [] \<and> last cs = fr_name g \<and>
        walk (dirs_of s) ROOT_DIR_ID (butlast cs) = Some (fr_dir_id g)"
      unfolding file_at_iff [OF db_invD(1) [OF inv']] set_fs by auto
    have same: "fr_dir_id f' = fr_dir_id f" "fr_name f' = fr_name f" by (simp_all add: f'_def)
    show "file_at ?t cs = Some g \<longleftrightarrow>
        (case file_at s cs of None \<Rightarrow> None | Some g \<Rightarrow> Some (if fr_file_id g = i then f' else g)) = Some g"
    proof -
      have "file_at ?t cs = Some g \<longleftrightarrow> (g = f' \<and> file_at s cs = Some f) \<or> (file_at s cs = Some g \<and> g \<noteq> f)"
        unfolding at file_at_iff [OF D(1)] using same fin(1) by metis
      moreover have "fr_file_id x = i \<longleftrightarrow> x = f" if "file_at s cs = Some x" for x
        using that key_unique [OF k fin(1), of x] fin(2) by (simp add: file_at_iff [OF D(1)])
      ultimately show ?thesis by (auto split: option.splits)
    qed
  qed
  ultimately show ?thesis using inv' fnd by (auto simp: dir_paths_def)
qed

section \<open>The contract of the file layer\<close>

text \<open>
  A store of files named by paths: the state has an abstract map from paths to file identifiers, which
  the operations change at their path only. Lookups do not change it.
\<close>

definition unlink :: "u64 \<Rightarrow> (string list \<rightharpoonup> u64) \<Rightarrow> string list \<rightharpoonup> u64" where
  "unlink i m = (\<lambda>cs. if m cs = Some i then None else m cs)"

locale file_store =
  fixes inv :: "'s \<Rightarrow> bool"
    and files :: "'s \<Rightarrow> string list \<rightharpoonup> u64"
    and ident :: "'f \<Rightarrow> u64"
    and create :: "string \<Rightarrow> u64 \<Rightarrow> ('s, fs0_error, 'f) st"
    and copy :: "u64 \<Rightarrow> string \<Rightarrow> u64 \<Rightarrow> ('s, fs0_error, 'f) st"
    and move :: "u64 \<Rightarrow> string \<Rightarrow> u64 \<Rightarrow> ('s, fs0_error, 'f) st"
    and delete :: "u64 \<Rightarrow> ('s, fs0_error, unit) st"
    and lookup :: "string \<Rightarrow> ('s, fs0_error, 'f) st"
  assumes files_inject: "inv s \<Longrightarrow> files s p = Some i \<Longrightarrow> files s q = Some i \<Longrightarrow> p = q"
    and create_law: "inv s \<Longrightarrow> fits_i64 now \<Longrightarrow> create path now s = (Inr f, s') \<Longrightarrow>
      \<exists>cs. path = path_of cs \<and> list_all valid_component cs \<and> cs \<noteq> [] \<and> inv s' \<and> files s cs = None \<and>
        ident f \<notin> ran (files s) \<and> files s' = (files s)(cs \<mapsto> ident f)"
    and copy_law: "inv s \<Longrightarrow> fits_i64 now \<Longrightarrow> copy i path now s = (Inr f, s') \<Longrightarrow>
      \<exists>cs. path = path_of cs \<and> list_all valid_component cs \<and> cs \<noteq> [] \<and> inv s' \<and> files s cs = None \<and>
        i \<in> ran (files s) \<and> ident f \<notin> ran (files s) \<and> files s' = (files s)(cs \<mapsto> ident f)"
    and move_law: "inv s \<Longrightarrow> fits_i64 now \<Longrightarrow> move i path now s = (Inr f, s') \<Longrightarrow>
      \<exists>cs. path = path_of cs \<and> list_all valid_component cs \<and> cs \<noteq> [] \<and> inv s' \<and>
        i \<in> ran (files s) \<and> ident f = i \<and> (files s cs = None \<or> files s cs = Some i) \<and>
        files s' = (unlink i (files s))(cs \<mapsto> i)"
    and delete_law: "inv s \<Longrightarrow> delete i s = (Inr u, s') \<Longrightarrow>
      inv s' \<and> i \<in> ran (files s) \<and> files s' = unlink i (files s)"
    and lookup_law: "inv s \<Longrightarrow> list_all valid_component cs \<Longrightarrow> cs \<noteq> [] \<Longrightarrow>
      \<exists>r s'. lookup (path_of cs) s = (r, s') \<and> inv s' \<and> files s' = files s \<and>
        (case files s cs of None \<Rightarrow> r = Inl NotFound | Some i \<Rightarrow> \<exists>f. r = Inr f \<and> ident f = i)"
begin

lemma lookup_found:
  assumes "inv s" and "files s cs = Some i" and "list_all valid_component cs" and "cs \<noteq> []"
  shows "\<exists>f s'. lookup (path_of cs) s = (Inr f, s') \<and> ident f = i"
  using lookup_law [OF assms(1,3,4)] assms(2) by auto

lemma lookup_missing:
  assumes "inv s" and "files s cs = None" and "list_all valid_component cs" and "cs \<noteq> []"
  shows "fst (lookup (path_of cs) s) = Inl NotFound"
  using lookup_law [OF assms(1,3,4)] assms(2) by auto

lemma create_lookup:
  assumes "inv s" and "fits_i64 now" and "create path now s = (Inr f, s')"
  shows "\<exists>g s''. lookup path s' = (Inr g, s'') \<and> ident g = ident f"
  using create_law [OF assms] lookup_found [of s'] by auto

lemma move_lookup:
  assumes "inv s" and "fits_i64 now" and "move i path now s = (Inr f, s')"
    and "files s old = Some i" and "list_all valid_component old" and "old \<noteq> []"
  shows "(\<exists>g s''. lookup path s' = (Inr g, s'') \<and> ident g = i) \<and>
    (path_of old \<noteq> path \<longrightarrow> fst (lookup (path_of old) s') = Inl NotFound)"
proof -
  from move_law [OF assms(1-3)] obtain cs where cs: "path = path_of cs" "list_all valid_component cs" "cs \<noteq> []"
    "inv s'" "files s' = (unlink i (files s))(cs \<mapsto> i)" by blast
  have "files s' old = None" if "path_of old \<noteq> path"
    using that cs assms(4) by (auto simp: unlink_def)
  with cs show ?thesis
    using lookup_found [OF cs(4), of cs i] lookup_missing [OF cs(4) _ assms(5,6)] by auto
qed

lemma delete_lookup:
  assumes "inv s" and "delete i s = (Inr u, s')" and "files s cs = Some i"
    and "list_all valid_component cs" and "cs \<noteq> []"
  shows "fst (lookup (path_of cs) s') = Inl NotFound"
  using delete_law [OF assms(1,2)] lookup_missing [of s' cs] assms by (auto simp: unlink_def)

text \<open>A copy is independent of its source: deleting the source leaves the copy in place.\<close>

lemma copy_delete_lookup:
  assumes "inv s" and "fits_i64 now" and "copy i path now s = (Inr f, s')" and "delete i s' = (Inr u, s'')"
  shows "\<exists>g t. lookup path s'' = (Inr g, t) \<and> ident g = ident f"
proof -
  from copy_law [OF assms(1-3)] obtain cs where cs: "path = path_of cs" "list_all valid_component cs" "cs \<noteq> []"
    "inv s'" "i \<in> ran (files s)" "ident f \<notin> ran (files s)" "files s' = (files s)(cs \<mapsto> ident f)" by blast
  from delete_law [OF cs(4) assms(4)] have "inv s''" "files s'' = unlink i (files s')" by simp_all
  moreover have "i \<noteq> ident f" using cs(5,6) by auto
  ultimately show ?thesis
    using lookup_found [of s'' cs "ident f"] cs by (simp add: unlink_def)
qed

end

definition file_ids :: "central_db \<Rightarrow> string list \<rightharpoonup> u64" where
  "file_ids s cs = map_option fr_file_id (file_at s cs)"

lemma file_ids_ran:
  assumes "tree_ok s"
  shows "i \<in> ran (file_ids s) \<longleftrightarrow> find_file s i \<noteq> None"
proof
  assume "i \<in> ran (file_ids s)"
  then obtain cs f where "file_at s cs = Some f" "fr_file_id f = i"
    by (auto simp: ran_def file_ids_def)
  then show "find_file s i \<noteq> None"
    using file_at_iff [OF assms] by (auto simp: find_file_None)
next
  assume "find_file s i \<noteq> None"
  then obtain f where f: "f \<in> set (files_of s)" "fr_file_id f = i" using find_fileD by blast
  then show "i \<in> ran (file_ids s)"
    using file_has_path [OF assms f(1)] by (metis file_ids_def option.simps(9) ranI)
qed

lemma file_ids_inject:
  assumes inv: "db_inv s" and p: "file_ids s p = Some i" and q: "file_ids s q = Some i"
  shows "p = q"
proof -
  note D = db_invD [OF inv]
  obtain f g where f: "file_at s p = Some f" "fr_file_id f = i" and g: "file_at s q = Some g" "fr_file_id g = i"
    using p q by (auto simp: file_ids_def)
  have "f \<in> set (files_of s)" "g \<in> set (files_of s)"
    using f(1) g(1) file_at_iff [OF D(1)] by simp_all
  then have "f = g" using f(2) g(2) D(5) key_unique [of fr_file_id "files_of s" g f] by (simp add: files_inv_def)
  with f g show ?thesis using file_at_inject [OF D(1)] by blast
qed

lemma file_ids_drop: "map_option fr_file_id (drop_file i (file_at s) cs) = unlink i (file_ids s) cs"
  by (auto simp: drop_file_def unlink_def file_ids_def split: option.splits)

lemma get_file_by_id_Inr: "tree_ok s \<Longrightarrow> get_file_by_id i s = (Inr f, s') \<Longrightarrow> find_file s i = Some f \<and> s' = s"
  by (auto simp: get_file_by_id_spec split: if_splits)

lemma create_file_law:
  assumes inv: "db_inv s" and now: "fits_i64 now" and res: "create_file path now s = (Inr f, s')"
  shows "\<exists>cs. path = path_of cs \<and> list_all valid_component cs \<and> cs \<noteq> [] \<and> db_inv s' \<and> file_ids s cs = None \<and>
    fr_file_id f \<notin> ran (file_ids s) \<and> file_ids s' = (file_ids s)(cs \<mapsto> fr_file_id f)"
proof -
  from res obtain dir name where "split_fs0_path_dir_and_name path = Inr (dir, name)"
    by (auto simp: create_file_def st_bind_Inr_iff)
  from create_file_spec [OF inv now this] obtain cs
    where "path = path_of cs" "list_all valid_component cs" "cs \<noteq> []" "created_file s cs 0 0 now (Inr f) s'"
    using res by auto
  moreover from this have "find_file s (fr_file_id f) = None" by (simp add: created_file_def)
  ultimately show ?thesis
    using file_ids_ran [OF db_invD(1) [OF inv], of "fr_file_id f"]
    by (intro exI [of _ cs]) (auto simp: created_file_def file_ids_def fun_eq_iff)
qed

lemma copy_file_law:
  assumes inv: "db_inv s" and now: "fits_i64 now" and res: "copy_file_by_id i path now s = (Inr f, s')"
  shows "\<exists>cs. path = path_of cs \<and> list_all valid_component cs \<and> cs \<noteq> [] \<and> db_inv s' \<and> file_ids s cs = None \<and>
    i \<in> ran (file_ids s) \<and> fr_file_id f \<notin> ran (file_ids s) \<and> file_ids s' = (file_ids s)(cs \<mapsto> fr_file_id f)"
proof -
  from res obtain dir name where path: "split_fs0_path_dir_and_name path = Inr (dir, name)"
    by (auto simp: copy_file_by_id_def st_bind_Inr_iff)
  from res path obtain g where src: "find_file s i = Some g"
    using get_file_by_id_Inr [OF db_invD(1) [OF inv]] by (auto simp: copy_file_by_id_def st_bind_Inr_iff)
  from copy_file_by_id_spec [OF inv now src path] obtain cs
    where "path = path_of cs" "list_all valid_component cs" "cs \<noteq> []"
      "created_file s cs (fr_size_bytes g) (fr_compressed_size_bytes g) now (Inr f) s'"
    using res by auto
  moreover from this have "find_file s (fr_file_id f) = None" by (simp add: created_file_def)
  ultimately show ?thesis
    using file_ids_ran [OF db_invD(1) [OF inv]] src
    by (intro exI [of _ cs]) (auto simp: created_file_def file_ids_def fun_eq_iff)
qed

lemma rename_file_law:
  assumes inv: "db_inv s" and now: "fits_i64 now" and res: "rename_file_by_id i path now s = (Inr f, s')"
  shows "\<exists>cs. path = path_of cs \<and> list_all valid_component cs \<and> cs \<noteq> [] \<and> db_inv s' \<and>
    i \<in> ran (file_ids s) \<and> fr_file_id f = i \<and> (file_ids s cs = None \<or> file_ids s cs = Some i) \<and>
    file_ids s' = (unlink i (file_ids s))(cs \<mapsto> i)"
proof -
  from res obtain dir name where path: "split_fs0_path_dir_and_name path = Inr (dir, name)"
    by (auto simp: rename_file_by_id_def st_bind_Inr_iff)
  from rename_file_by_id_spec [OF inv now path, of i] obtain cs
    where cs: "path = path_of cs" "list_all valid_component cs" "cs \<noteq> []" "moved_file s i cs now (Inr f) s'"
    using res by auto
  then obtain g where g: "find_file s i = Some g"
      "f = g\<lparr> fr_dir_id := fr_dir_id f, fr_name := last cs, fr_updated_at_ms := now \<rparr>"
    by (auto simp: moved_file_def)
  then have "fr_file_id f = i" using find_fileD [OF g(1)] by (metis (no_types, lifting) file_row.select_convs(1)
      file_row.surjective file_row.update_convs(2,3,7))
  moreover have "file_ids s cs = None \<or> file_ids s cs = Some i"
    using cs(4) by (cases "file_at s cs") (auto simp: moved_file_def file_ids_def)
  moreover have "file_ids s' = (unlink i (file_ids s))(cs \<mapsto> i)"
    using cs(4) \<open>fr_file_id f = i\<close> file_ids_drop [of i s]
    by (auto simp: moved_file_def fun_eq_iff file_ids_def)
  ultimately show ?thesis
    using cs g(1) file_ids_ran [OF db_invD(1) [OF inv], of i] by (intro exI [of _ cs]) (auto simp: moved_file_def)
qed

interpretation cfs: file_store db_inv file_ids fr_file_id create_file copy_file_by_id rename_file_by_id
  delete_file_by_id get_file_by_path
proof
  fix s i u s'
  assume inv: "db_inv s" and del: "delete_file_by_id i s = (Inr u, s')"
  from delete_file_by_id_spec [OF inv del]
  show "db_inv s' \<and> i \<in> ran (file_ids s) \<and> file_ids s' = unlink i (file_ids s)"
    using file_ids_ran [OF db_invD(1) [OF inv], of i]
    by (auto simp: fun_eq_iff file_ids_def unlink_def split: option.splits)
next
  fix s cs
  assume inv: "db_inv s" and cs: "list_all valid_component cs" "cs \<noteq> []"
  from get_file_by_path_file_at [OF db_invD(1) [OF inv] cs] obtain c
    where "get_file_by_path (path_of cs) s = (ok_or NotFound (file_at s cs), s\<lparr> db_dir_cache := c \<rparr>)"
      and "tree_ok (s\<lparr> db_dir_cache := c \<rparr>)" by blast
  then show "\<exists>r s'. get_file_by_path (path_of cs) s = (r, s') \<and> db_inv s' \<and> file_ids s' = file_ids s \<and>
      (case file_ids s cs of None \<Rightarrow> r = Inl NotFound | Some i \<Rightarrow> \<exists>f. r = Inr f \<and> fr_file_id f = i)"
    using db_invD(2) [OF inv] by (auto simp: db_inv_def file_ids_def file_at_def split: option.splits)
qed (fact file_ids_inject create_file_law copy_file_law rename_file_law)+

end
