(* ===== verification/Central_Bundle.thy ===== *)
theory Central_Bundle
  imports Central_File
begin

text \<open>
  The bundles of files and the replicas of bundles: \<^verbatim>\<open>fs0-central/src/db/file_bundle.rs\<close> and
  \<^verbatim>\<open>fs0-central/src/db/bundle_replica.rs\<close>. The content of a file is an ordered list of bundles; a replica says
  on which volume a bundle is stored and how long it is.
\<close>

section \<open>Replicas\<close>

definition BUNDLE_ID_QUERY_BATCH_SIZE :: nat where
  "BUNDLE_ID_QUERY_BATCH_SIZE = 500"

definition row_to_bundle :: "bundle_replica_row \<Rightarrow> bundle_replica_row fs0_result" where
  "row_to_bundle r =
     res_bind (row_hash_id 0 ''bundle_id'' (as_bytes (br_bundle_id r))) (\<lambda>bundle_id.
     res_bind (row_u64 1 ''volume_id'' (br_volume_id r)) (\<lambda>volume_id.
     res_bind (row_u64 2 ''raw_len'' (br_raw_len r)) (\<lambda>raw_len.
     res_bind (row_u64 3 ''compressed_len'' (br_compressed_len r)) (\<lambda>compressed_len.
     Inr \<lparr> br_bundle_id = bundle_id, br_volume_id = volume_id, br_raw_len = raw_len,
       br_compressed_len = compressed_len \<rparr>))))"

text \<open>\<open>slice::chunks\<close>\<close>

function slice_chunks :: "nat \<Rightarrow> 'a list \<Rightarrow> 'a list list" where
  "slice_chunks n xs = (if xs = [] \<or> n = 0 then [] else take n xs # slice_chunks n (drop n xs))"
  by pat_completeness auto
termination
  by (relation "measure (\<lambda>(n, xs). length xs)") auto

declare slice_chunks.simps [simp del]

definition select_replicas :: "hash_id list \<Rightarrow> central_tables \<Rightarrow> bundle_replica_row list" where
  "select_replicas batch t =
     sort_key br_bundle_id (sort_key br_volume_id (filter (\<lambda>r. br_bundle_id r \<in> set batch) (t_replicas t)))"

fun replica_batches :: "hash_id list list \<Rightarrow> bundle_replica_row list \<Rightarrow> bundle_replica_row list tx" where
  "replica_batches [] bundles = st_return bundles"
| "replica_batches (batch # batches) bundles =
     st_bind (query_map (select_replicas batch) row_to_bundle) (\<lambda>rows. replica_batches batches (bundles @ rows))"

definition get_bundle_replicas_by_id :: "hash_id list \<Rightarrow> bundle_replica_row list tx" where
  "get_bundle_replicas_by_id bundle_ids =
     (if bundle_ids = [] then st_return []
      else replica_batches (slice_chunks BUNDLE_ID_QUERY_BATCH_SIZE bundle_ids) [])"

text \<open>\<open>MIN\<close> and \<open>MAX\<close> of a column, \<open>NULL\<close> when there is no row.\<close>

definition sql_extreme :: "(i64 \<Rightarrow> i64 \<Rightarrow> bool) \<Rightarrow> i64 list \<Rightarrow> i64 option" where
  "sql_extreme better xs =
     (case xs of [] \<Rightarrow> None | y # ys \<Rightarrow> Some (fold (\<lambda>a b. if better a b then a else b) ys y))"

definition sql_min :: "i64 list \<Rightarrow> i64 option" where
  "sql_min = sql_extreme (\<lambda>a b. sint a < sint b)"

definition sql_max :: "i64 list \<Rightarrow> i64 option" where
  "sql_max = sql_extreme (\<lambda>a b. sint b < sint a)"

text \<open>The lengths of the other replicas are read and, when they differ, only logged.\<close>

definition peer_lengths :: "hash_id \<Rightarrow> i64 \<Rightarrow> central_tables \<Rightarrow> (u64 option \<times> u64 option \<times> u64 option \<times> u64 option) fs0_result" where
  "peer_lengths bundle_id volume_id t =
     (let peers = filter (\<lambda>r. br_bundle_id r = bundle_id \<and> br_volume_id r \<noteq> volume_id) (t_replicas t) in
      res_bind (row_optional_u64 0 ''min_raw_len'' (sql_min (map br_raw_len peers))) (\<lambda>a.
      res_bind (row_optional_u64 1 ''max_raw_len'' (sql_max (map br_raw_len peers))) (\<lambda>b.
      res_bind (row_optional_u64 2 ''min_compressed_len'' (sql_min (map br_compressed_len peers))) (\<lambda>c.
      res_bind (row_optional_u64 3 ''max_compressed_len'' (sql_max (map br_compressed_len peers))) (\<lambda>d.
      Inr (a, b, c, d))))))"

definition insert_bundle_replica :: "hash_id \<Rightarrow> u64 \<Rightarrow> u64 \<Rightarrow> u64 \<Rightarrow> unit tx" where
  "insert_bundle_replica bundle_id volume_id raw_len compressed_len =
     (if raw_len = 0 \<or> compressed_len = 0 then st_throw InvalidRequest
      else
        st_bind (st_lift (u64_to_i64 volume_id ''volume_id'')) (\<lambda>v.
        st_bind (\<lambda>s. (peer_lengths bundle_id v (db_conn s), s)) (\<lambda>_.
        st_bind (st_lift (u64_to_i64 volume_id ''volume_id'')) (\<lambda>v.
        st_bind (st_lift (u64_to_i64 raw_len ''raw_len'')) (\<lambda>raw.
        st_bind (st_lift (u64_to_i64 compressed_len ''compressed_len'')) (\<lambda>comp.
        exec (upsert_replica_stmt bundle_id v raw comp)))))))"

definition delete_bundle_replica :: "hash_id \<Rightarrow> u64 \<Rightarrow> unit tx" where
  "delete_bundle_replica bundle_id volume_id =
     st_bind (st_lift (u64_to_i64 volume_id ''volume_id'')) (\<lambda>v. exec (delete_replica_stmt bundle_id v))"

section \<open>Bundles of a file\<close>

record file_bundle_entry =
  fbe_bundle_index :: u64
  fbe_bundle_id :: hash_id

definition delete_file_bundles_by_file_id :: "u64 \<Rightarrow> unit tx" where
  "delete_file_bundles_by_file_id file_id =
     st_bind (st_lift (u64_to_i64 file_id ''file_id'')) (\<lambda>i. exec (delete_file_bundles_stmt i))"

definition insert_bundle_at :: "u64 \<Rightarrow> nat \<times> committed_bundle \<Rightarrow> unit tx" where
  "insert_bundle_at file_id ib =
     st_bind (st_lift (u64_to_i64 file_id ''file_id'')) (\<lambda>i.
     st_bind (st_lift (u64_to_i64 (of_nat (fst ib)) ''bundle_index'')) (\<lambda>index.
     exec (insert_file_bundle i index (cb_bundle_id (snd ib)))))"

definition upsert_file_bundles_by_file_id :: "u64 \<Rightarrow> committed_bundle list \<Rightarrow> unit tx" where
  "upsert_file_bundles_by_file_id file_id bundles =
     st_bind (delete_file_bundles_by_file_id file_id) (\<lambda>_.
     st_iter (insert_bundle_at file_id) (enumerate 0 bundles))"

definition copy_file_bundles :: "u64 \<Rightarrow> u64 \<Rightarrow> unit tx" where
  "copy_file_bundles source_file_id target_file_id =
     st_bind (st_lift (u64_to_i64 target_file_id ''target_file_id'')) (\<lambda>t.
     st_bind (st_lift (u64_to_i64 source_file_id ''source_file_id'')) (\<lambda>s.
     exec (copy_file_bundles_stmt t s)))"

definition row_to_file_bundle :: "file_bundle_row \<Rightarrow> file_bundle_entry fs0_result" where
  "row_to_file_bundle r =
     res_bind (row_u64 0 ''bundle_index'' (fb_bundle_index r)) (\<lambda>index.
     res_bind (row_hash_id 1 ''bundle_id'' (as_bytes (fb_bundle_id r))) (\<lambda>bundle_id.
     Inr \<lparr> fbe_bundle_index = index, fbe_bundle_id = bundle_id \<rparr>))"

definition get_file_bundles_by_file_id :: "u64 \<Rightarrow> file_bundle_entry list tx" where
  "get_file_bundles_by_file_id file_id =
     st_bind (st_lift (u64_to_i64 file_id ''file_id'')) (\<lambda>i.
     query_map (\<lambda>t. sort_key fb_bundle_index (filter (\<lambda>r. fb_file_id r = i) (t_file_bundles t))) row_to_file_bundle)"

text \<open>\<open>entry(..).or_insert(..)\<close> for each replica.\<close>

definition or_insert :: "'k \<Rightarrow> 'v \<Rightarrow> ('k, 'v) hmap \<Rightarrow> ('k, 'v) hmap" where
  "or_insert k v m = (case hm_get m k of None \<Rightarrow> hm_insert k v m | Some _ \<Rightarrow> m)"

definition ready_bundles :: "bundle_replica_row list \<Rightarrow> (hash_id, committed_bundle) hmap" where
  "ready_bundles replicas =
     fold (\<lambda>r. or_insert (br_bundle_id r)
        \<lparr> cb_bundle_id = br_bundle_id r, cb_raw_len = br_raw_len r, cb_compressed_len = br_compressed_len r \<rparr>)
       replicas []"

fun sum_sizes ::
    "(hash_id, committed_bundle) hmap \<Rightarrow> file_bundle_entry list \<Rightarrow> u64 \<Rightarrow> u64 \<Rightarrow> (u64 \<times> u64) fs0_result" where
  "sum_sizes ready [] raw cmp = Inr (raw, cmp)"
| "sum_sizes ready (b # bs) raw cmp =
     res_bind (ok_or ChunkNotReady (hm_get ready (fbe_bundle_id b))) (\<lambda>bundle.
     res_bind (ok_or (IntegerConversion ''file bundle raw size overflow'') (checked_add raw (cb_raw_len bundle))) (\<lambda>raw.
     res_bind (ok_or (IntegerConversion ''file bundle compressed size overflow'')
                (checked_add cmp (cb_compressed_len bundle))) (\<lambda>cmp.
     sum_sizes ready bs raw cmp)))"

definition calculate_size_by_file_id :: "u64 \<Rightarrow> (u64 \<times> u64) tx" where
  "calculate_size_by_file_id file_id =
     st_bind (get_file_bundles_by_file_id file_id) (\<lambda>file_bundles.
     st_bind (get_bundle_replicas_by_id (map fbe_bundle_id file_bundles)) (\<lambda>replicas.
     st_lift (sum_sizes (ready_bundles replicas) file_bundles 0 0)))"

section \<open>Reading replicas\<close>

text \<open>The replica of a bundle on the volume with the least number.\<close>

definition first_replica :: "central_tables \<Rightarrow> hash_id \<Rightarrow> bundle_replica_row option" where
  "first_replica t b = find (\<lambda>r. br_bundle_id r = b) (sort_key br_volume_id (t_replicas t))"

lemma concat_slice_chunks: "0 < n \<Longrightarrow> concat (slice_chunks n xs) = xs"
  by (induction n xs rule: slice_chunks.induct) (subst slice_chunks.simps, simp)

lemma row_to_bundle_ok:
  assumes "replicas_inv t" and "volumes_inv t" and "r \<in> set (t_replicas t)"
  shows "row_to_bundle r = Inr r"
proof -
  have r: "hash_ok (br_bundle_id r)" "br_volume_id r \<in> vr_volume_id ` set (t_volumes t)"
      "fits_i64 (br_raw_len r)" "fits_i64 (br_compressed_len r)"
    using assms(1,3) by (simp_all add: replicas_inv_def)
  have "fits_i64 (br_volume_id r)"
    using r(2) assms(2) fits_mono by (fastforce simp: volumes_inv_def)
  with r show ?thesis
    by (simp add: row_to_bundle_def row_hash_id_def hash_ok_def row_u64_fits)
qed

lemma set_select_replicas: "set (select_replicas batch t) = {r \<in> set (t_replicas t). br_bundle_id r \<in> set batch}"
  by (auto simp: select_replicas_def)

lemma replica_batches_spec:
  assumes "links_ok (db_conn s)"
  shows "replica_batches batches acc s =
    (Inr (acc @ concat (map (\<lambda>b. select_replicas b (db_conn s)) batches)), s)"
proof (induction batches arbitrary: acc)
  case (Cons b bs)
  have "collect_rows row_to_bundle (select_replicas b (db_conn s)) = Inr (map id (select_replicas b (db_conn s)))"
    using assms row_to_bundle_ok by (intro collect_rows_ok) (auto simp: links_ok_def set_select_replicas)
  then show ?case using Cons by (simp add: st_bind_def query_map_def)
qed simp

lemma get_bundle_replicas_by_id_spec:
  assumes "links_ok (db_conn s)"
  shows "get_bundle_replicas_by_id ids s =
    (Inr (concat (map (\<lambda>b. select_replicas b (db_conn s)) (slice_chunks BUNDLE_ID_QUERY_BATCH_SIZE ids))), s)"
  using replica_batches_spec [OF assms] by (simp add: get_bundle_replicas_by_id_def slice_chunks.simps)

lemma find_filter: "find P xs = (case filter P xs of [] \<Rightarrow> None | y # ys \<Rightarrow> Some y)"
  by (induction xs) auto

lemma find_select_replicas:
  "find (\<lambda>r. br_bundle_id r = b) (select_replicas batch t) = (if b \<in> set batch then first_replica t b else None)"
proof -
  have "filter (\<lambda>r. br_bundle_id r = b) (select_replicas batch t) =
      filter (\<lambda>r. br_bundle_id r = b) (sort_key br_volume_id (filter (\<lambda>r. br_bundle_id r \<in> set batch) (t_replicas t)))"
    unfolding select_replicas_def by (rule sort_key_stable)
  also have "\<dots> = (if b \<in> set batch then filter (\<lambda>r. br_bundle_id r = b) (sort_key br_volume_id (t_replicas t)) else [])"
  proof -
    have fb: "filter (\<lambda>r. br_bundle_id r = b) (filter (\<lambda>r. br_bundle_id r \<in> set batch) rs) =
        (if b \<in> set batch then filter (\<lambda>r. br_bundle_id r = b) rs else [])" for rs
      by (induction rs) auto
    show ?thesis unfolding filter_sort fb by simp
  qed
  finally show ?thesis
    by (simp add: find_filter first_replica_def)
qed

lemma find_concat: "find P (concat xss) = (case find (\<lambda>xs. find P xs \<noteq> None) xss of None \<Rightarrow> None | Some xs \<Rightarrow> find P xs)"
  by (induction xss) (auto simp: find_append split: option.splits)

lemma find_replicas:
  "find (\<lambda>r. br_bundle_id r = b) (concat (map (\<lambda>b. select_replicas b t) batches)) =
     (if b \<in> set (concat batches) then first_replica t b else None)"
  by (induction batches) (auto simp: find_append find_select_replicas split: option.splits)

lemma get_ready_fold:
  "hm_get (fold (\<lambda>r. or_insert (k r) (v r)) rs m) b =
     (case hm_get m b of Some x \<Rightarrow> Some x | None \<Rightarrow> map_option v (find (\<lambda>r. k r = b) rs))"
  by (induction rs arbitrary: m)
    (auto simp: or_insert_def update_conv' split: option.splits)

lemma get_ready_bundles:
  "hm_get (ready_bundles rs) b =
     map_option (\<lambda>r. \<lparr> cb_bundle_id = br_bundle_id r, cb_raw_len = br_raw_len r, cb_compressed_len = br_compressed_len r \<rparr>)
       (find (\<lambda>r. br_bundle_id r = b) rs)"
  unfolding ready_bundles_def by (simp add: get_ready_fold)

lemma ready_bundles_spec:
  "hm_get (ready_bundles (concat (map (\<lambda>b. select_replicas b t) (slice_chunks BUNDLE_ID_QUERY_BATCH_SIZE ids)))) b =
     (if b \<in> set ids
      then map_option (\<lambda>r. \<lparr> cb_bundle_id = br_bundle_id r, cb_raw_len = br_raw_len r,
             cb_compressed_len = br_compressed_len r \<rparr>) (first_replica t b)
      else None)"
  using concat_slice_chunks [of BUNDLE_ID_QUERY_BATCH_SIZE ids]
  by (simp only: get_ready_bundles find_replicas BUNDLE_ID_QUERY_BATCH_SIZE_def) auto

section \<open>The bundles of a file\<close>

definition bundle_rows :: "central_db \<Rightarrow> u64 \<Rightarrow> file_bundle_row list" where
  "bundle_rows s i = sort_key fb_bundle_index (filter (\<lambda>r. fb_file_id r = i) (t_file_bundles (db_conn s)))"

text \<open>The content of a file: its bundle identifiers in order.\<close>

definition file_content :: "central_db \<Rightarrow> u64 \<Rightarrow> hash_id list" where
  "file_content s i = map fb_bundle_id (bundle_rows s i)"

definition entry_of_row :: "file_bundle_row \<Rightarrow> file_bundle_entry" where
  "entry_of_row r = \<lparr> fbe_bundle_index = fb_bundle_index r, fbe_bundle_id = fb_bundle_id r \<rparr>"

lemma get_file_bundles_by_file_id_spec:
  assumes inv: "links_ok (db_conn s)" and i: "fits_i64 i"
  shows "get_file_bundles_by_file_id i s = (Inr (map entry_of_row (bundle_rows s i)), s)"
proof -
  have "row_to_file_bundle r = Inr (entry_of_row r)" if "r \<in> set (bundle_rows s i)" for r
    using that inv
    by (auto simp: bundle_rows_def links_ok_def bundles_inv_def row_to_file_bundle_def entry_of_row_def
        row_u64_fits row_hash_id_def hash_ok_def)
  then have "collect_rows row_to_file_bundle (bundle_rows s i) = Inr (map entry_of_row (bundle_rows s i))"
    by (rule collect_rows_ok)
  then show ?thesis
    using i by (simp add: get_file_bundles_by_file_id_def st_bind_def u64_to_i64_def fits_i64_def query_map_def
        bundle_rows_def)
qed

lemma map_fbe_entry: "map fbe_bundle_id (map entry_of_row rs) = map fb_bundle_id rs"
  by (simp add: entry_of_row_def)

lemma sum_sizes_Inr_iff:
  "sum_sizes ready bs raw cmp = Inr (r, c) \<longleftrightarrow>
     (\<forall>b\<in>set bs. hm_get ready (fbe_bundle_id b) \<noteq> None) \<and>
     unat r = unat raw + (\<Sum>b\<leftarrow>bs. unat (cb_raw_len (the (hm_get ready (fbe_bundle_id b))))) \<and>
     unat c = unat cmp + (\<Sum>b\<leftarrow>bs. unat (cb_compressed_len (the (hm_get ready (fbe_bundle_id b)))))"
proof (induction bs arbitrary: raw cmp)
  case Nil
  then show ?case by (auto simp: word_unat_eq_iff)
next
  case (Cons b bs)
  show ?case
  proof (cases "hm_get ready (fbe_bundle_id b)")
    case None
    then show ?thesis by simp
  next
    case (Some x)
    have lt: "unat r < 2 ^ 64" "unat c < 2 ^ 64" by (rule unat_lt_2_64)+
    show ?thesis
    proof (cases "checked_add raw (cb_raw_len x) = None \<or> checked_add cmp (cb_compressed_len x) = None")
      case True
      then have "2 ^ 64 \<le> unat raw + unat (cb_raw_len x) \<or> 2 ^ 64 \<le> unat cmp + unat (cb_compressed_len x)"
        by (auto simp: checked_add_def split: if_splits)
      moreover have "sum_sizes ready (b # bs) raw cmp \<noteq> Inr (r, c)"
        using True Some by (auto simp: res_bind_Inr_iff)
      ultimately show ?thesis using Some lt by auto
    next
      case False
      then obtain r' c' where rc: "checked_add raw (cb_raw_len x) = Some r'" "checked_add cmp (cb_compressed_len x) = Some c'"
        by auto
      show ?thesis
        using Some rc Cons [of r' c'] checked_add_SomeD [OF rc(1)] checked_add_SomeD [OF rc(2)] by auto
    qed
  qed
qed

text \<open>The size that central computes for a file is the sum of the lengths of its bundles.\<close>

definition raw_len_of :: "central_tables \<Rightarrow> hash_id \<Rightarrow> nat" where
  "raw_len_of t b = (case first_replica t b of None \<Rightarrow> 0 | Some r \<Rightarrow> unat (br_raw_len r))"

definition compressed_len_of :: "central_tables \<Rightarrow> hash_id \<Rightarrow> nat" where
  "compressed_len_of t b = (case first_replica t b of None \<Rightarrow> 0 | Some r \<Rightarrow> unat (br_compressed_len r))"

lemma calculate_size_spec:
  assumes inv: "links_ok (db_conn s)" and i: "fits_i64 i"
  shows "snd (calculate_size_by_file_id i s) = s" and
    "fst (calculate_size_by_file_id i s) = Inr (r, c) \<longleftrightarrow>
       (\<forall>b\<in>set (file_content s i). first_replica (db_conn s) b \<noteq> None) \<and>
       unat r = (\<Sum>b\<leftarrow>file_content s i. raw_len_of (db_conn s) b) \<and>
       unat c = (\<Sum>b\<leftarrow>file_content s i. compressed_len_of (db_conn s) b)"
proof -
  let ?t = "db_conn s" and ?es = "map entry_of_row (bundle_rows s i)"
  let ?ready = "ready_bundles (concat (map (\<lambda>b. select_replicas b ?t)
    (slice_chunks BUNDLE_ID_QUERY_BATCH_SIZE (file_content s i))))"
  have calc: "calculate_size_by_file_id i s = (sum_sizes ?ready ?es 0 0, s)"
    using get_file_bundles_by_file_id_spec [OF inv i] get_bundle_replicas_by_id_spec [OF inv]
    by (simp add: calculate_size_by_file_id_def st_bind_def file_content_def map_fbe_entry del: map_map)
  have get: "hm_get ?ready (fb_bundle_id r) = map_option (\<lambda>r. \<lparr> cb_bundle_id = br_bundle_id r, cb_raw_len = br_raw_len r,
        cb_compressed_len = br_compressed_len r \<rparr>) (first_replica ?t (fb_bundle_id r))"
    if "r \<in> set (bundle_rows s i)" for r
    using that by (subst ready_bundles_spec) (simp add: file_content_def)
  have all: "(\<forall>b\<in>set ?es. hm_get ?ready (fbe_bundle_id b) \<noteq> None) \<longleftrightarrow>
      (\<forall>b\<in>set (file_content s i). first_replica ?t b \<noteq> None)"
    using get by (auto simp: entry_of_row_def file_content_def)
  show "snd (calculate_size_by_file_id i s) = s" by (simp add: calc)
  show "fst (calculate_size_by_file_id i s) = Inr (r, c) \<longleftrightarrow>
       (\<forall>b\<in>set (file_content s i). first_replica ?t b \<noteq> None) \<and>
       unat r = (\<Sum>b\<leftarrow>file_content s i. raw_len_of ?t b) \<and> unat c = (\<Sum>b\<leftarrow>file_content s i. compressed_len_of ?t b)"
  proof (cases "\<forall>b\<in>set (file_content s i). first_replica ?t b \<noteq> None")
    case True
    then have "map (\<lambda>b. unat (cb_raw_len (the (hm_get ?ready (fbe_bundle_id b))))) ?es = map (raw_len_of ?t) (file_content s i)"
      and "map (\<lambda>b. unat (cb_compressed_len (the (hm_get ?ready (fbe_bundle_id b))))) ?es = map (compressed_len_of ?t) (file_content s i)"
      using get by (auto simp: file_content_def raw_len_of_def compressed_len_of_def entry_of_row_def)
    with True show ?thesis
      unfolding calc fst_conv sum_sizes_Inr_iff all by simp
  next
    case False
    then show ?thesis unfolding calc fst_conv sum_sizes_Inr_iff all by blast
  qed
qed

definition bundle_row_list :: "u64 \<Rightarrow> nat \<Rightarrow> hash_id list \<Rightarrow> file_bundle_row list" where
  "bundle_row_list i k bs =
     map (\<lambda>(n, b). \<lparr> fb_file_id = i, fb_bundle_index = of_nat n, fb_bundle_id = b \<rparr>) (enumerate k bs)"

lemma bundle_row_list_Cons:
  "bundle_row_list i k (b # bs) =
     \<lparr> fb_file_id = i, fb_bundle_index = of_nat k, fb_bundle_id = b \<rparr> # bundle_row_list i (Suc k) bs"
  by (simp add: bundle_row_list_def)

lemma unat_of_nat_small: "n < 2 ^ 63 \<Longrightarrow> unat (of_nat n :: u64) = n"
  by (simp add: unat_of_nat)

lemma insert_bundle_rows:
  assumes "links_ok (db_conn s)" and "i \<in> fr_file_id ` set (files_of s)" and "fits_i64 i"
    and "\<forall>r\<in>set (t_file_bundles (db_conn s)). fb_file_id r = i \<longrightarrow> unat (fb_bundle_index r) < k"
    and "k + length bs \<le> 2 ^ 63" and "\<forall>b\<in>set bs. hash_ok (cb_bundle_id b)"
  defines "t' \<equiv> (db_conn s)\<lparr> t_file_bundles := t_file_bundles (db_conn s) @ bundle_row_list i k (map cb_bundle_id bs) \<rparr>"
  shows "st_iter (insert_bundle_at i) (enumerate k bs) s = (Inr (), s\<lparr> db_conn := t' \<rparr>) \<and> links_ok t'"
  unfolding t'_def using assms(1-6)
proof (induction bs arbitrary: k s)
  case Nil
  then show ?case by (simp add: bundle_row_list_def)
next
  case (Cons b bs)
  let ?row = "\<lparr> fb_file_id = i, fb_bundle_index = of_nat k, fb_bundle_id = cb_bundle_id b \<rparr>"
  let ?t = "(db_conn s)\<lparr> t_file_bundles := t_file_bundles (db_conn s) @ [?row] \<rparr>"
  have k: "unat (of_nat k :: u64) = k" using Cons.prems(5) by (intro unat_of_nat_small) simp
  then have "fits_i64 (of_nat k)" using Cons.prems(5) by (simp add: fits_i64_def)
  then have conv: "u64_to_i64 (of_nat k) nm = Inr (of_nat k)" "u64_to_i64 i nm = Inr i" for nm
    using Cons.prems(3) by (simp_all add: u64_to_i64_Inr_iff)
  have fresh: "\<not> (fb_file_id r = i \<and> fb_bundle_index r = of_nat k)" if "r \<in> set (t_file_bundles (db_conn s))" for r
    using Cons.prems(4) that k by auto
  then have step: "insert_bundle_at i (k, b) s = (Inr (), s\<lparr> db_conn := ?t \<rparr>)"
    using Cons.prems(2,6) conv
    by (auto simp: insert_bundle_at_def st_bind_def exec_def insert_file_bundle_def list_ex_iff hash_ok_def)
  have "(i, of_nat k) \<notin> (\<lambda>b. (fb_file_id b, fb_bundle_index b)) ` set (t_file_bundles (db_conn s))"
  proof
    assume "(i, of_nat k) \<in> (\<lambda>b. (fb_file_id b, fb_bundle_index b)) ` set (t_file_bundles (db_conn s))"
    then obtain r where "r \<in> set (t_file_bundles (db_conn s))" "fb_file_id r = i" "fb_bundle_index r = of_nat k"
      by (elim imageE) simp
    with fresh show False by blast
  qed
  then have ok: "links_ok ?t"
    using Cons.prems(1,2,6) \<open>fits_i64 (of_nat k)\<close> by (simp add: links_defs)
  have "\<forall>r\<in>set (t_file_bundles ?t). fb_file_id r = i \<longrightarrow> unat (fb_bundle_index r) < Suc k"
    using Cons.prems(4) k by auto
  with Cons.IH [of "s\<lparr> db_conn := ?t \<rparr>" "Suc k"] step ok Cons.prems show ?case
    by (simp add: st_bind_def bundle_row_list_Cons)
qed

lemma bundle_row_list_sorted:
  assumes "k + length bs \<le> 2 ^ 63"
  shows "sort_key fb_bundle_index (bundle_row_list i k bs) = bundle_row_list i k bs"
proof (rule sort_key_id_if_sorted)
  have "sorted (map (of_nat :: nat \<Rightarrow> u64) [k..<k + n])" if "k + n \<le> 2 ^ 63" for n
  proof -
    have "of_nat x \<le> (of_nat y :: u64)" if "x \<le> y" "y < k + n" for x y
      using that \<open>k + n \<le> 2 ^ 63\<close> by (simp add: word_le_nat_alt unat_of_nat_small)
    then have "sorted_wrt (\<lambda>x y. of_nat x \<le> (of_nat y :: u64)) [k..<k + n]"
      by (intro sorted_wrt_mono_rel [OF _ sorted_upt]) simp
    then show ?thesis by (simp only: sorted_map)
  qed
  moreover have "map fb_bundle_index (bundle_row_list i k bs) = map of_nat [k..<k + length bs]"
    by (induction bs arbitrary: k) (simp_all add: bundle_row_list_def upt_conv_Cons del: upt_Suc)
  ultimately show "sorted (map fb_bundle_index (bundle_row_list i k bs))" using assms by simp
qed

lemma bundle_row_list_ids: "map fb_bundle_id (bundle_row_list i k bs) = bs"
  by (induction bs arbitrary: k) (simp_all add: bundle_row_list_def)

lemma filter_bundle_row_list:
  "filter (\<lambda>r. fb_file_id r = j) (bundle_row_list i k bs) = (if j = i then bundle_row_list i k bs else [])"
  by (induction bs arbitrary: k) (auto simp: bundle_row_list_def)

lemma links_ok_filter_bundles: "links_ok t \<Longrightarrow> links_ok (t\<lparr> t_file_bundles := filter P (t_file_bundles t) \<rparr>)"
  by (simp add: links_defs distinct_map_filter)

lemma tree_ok_bundles [simp]: "tree_ok (s\<lparr> db_conn := (db_conn s)\<lparr> t_file_bundles := bs \<rparr> \<rparr>) \<longleftrightarrow> tree_ok s"
  by (simp add: tree_ok_def dir_ok_def)

lemma delete_file_bundles_spec:
  "fits_i64 i \<Longrightarrow> delete_file_bundles_by_file_id i s =
     (Inr (), s\<lparr> db_conn := (db_conn s)\<lparr> t_file_bundles := filter (\<lambda>r. fb_file_id r \<noteq> i) (t_file_bundles (db_conn s)) \<rparr> \<rparr>)"
  by (simp add: delete_file_bundles_by_file_id_def st_bind_def exec_def delete_file_bundles_stmt_def u64_to_i64_def fits_i64_def)

text \<open>After \<open>upsert_file_bundles_by_file_id\<close> the content of the file is the list of bundles given.\<close>

lemma upsert_file_bundles_spec:
  assumes inv: "db_inv s" and i: "find_file s i \<noteq> None" and len: "length bs \<le> 2 ^ 63"
    and hash: "\<forall>b\<in>set bs. hash_ok (cb_bundle_id b)"
  shows "\<exists>s'. upsert_file_bundles_by_file_id i bs s = (Inr (), s') \<and> db_inv s' \<and>
    db_conn s' = (db_conn s)\<lparr> t_file_bundles := t_file_bundles (db_conn s') \<rparr> \<and> db_dir_cache s' = db_dir_cache s \<and>
    file_content s' i = map cb_bundle_id bs \<and> (\<forall>j. j \<noteq> i \<longrightarrow> file_content s' j = file_content s j)"
proof -
  note D = db_invD [OF inv]
  let ?old = "filter (\<lambda>r. fb_file_id r \<noteq> i) (t_file_bundles (db_conn s))"
  let ?s = "s\<lparr> db_conn := (db_conn s)\<lparr> t_file_bundles := ?old \<rparr> \<rparr>"
  let ?new = "bundle_row_list i 0 (map cb_bundle_id bs)"
  let ?t = "(db_conn s)\<lparr> t_file_bundles := ?old @ ?new \<rparr>"
  have mem: "i \<in> fr_file_id ` set (files_of s)" using i by (simp add: find_file_None)
  then have fits: "fits_i64 i" using file_id_fits [OF D(5)] by auto
  have "st_iter (insert_bundle_at i) (enumerate 0 bs) ?s = (Inr (), s\<lparr> db_conn := ?t \<rparr>) \<and> links_ok ?t"
    using insert_bundle_rows [of ?s i 0 bs] links_ok_filter_bundles [OF D(2)] mem fits len hash by simp
  then have up: "upsert_file_bundles_by_file_id i bs s = (Inr (), s\<lparr> db_conn := ?t \<rparr>)" and ok: "links_ok ?t"
    using delete_file_bundles_spec [OF fits, of s]
    by (simp_all add: upsert_file_bundles_by_file_id_def st_bind_def)
  have none: "filter (\<lambda>r. fb_file_id r = i) ?old = []" by (simp add: filter_empty_conv)
  have "bundle_rows (s\<lparr> db_conn := ?t \<rparr>) i = ?new"
    using len none by (simp add: bundle_rows_def filter_bundle_row_list bundle_row_list_sorted)
  moreover have "bundle_rows (s\<lparr> db_conn := ?t \<rparr>) j = bundle_rows s j" if "j \<noteq> i" for j
  proof -
    have "filter (\<lambda>r. fb_file_id r = j) ?old = filter (\<lambda>r. fb_file_id r = j) (t_file_bundles (db_conn s))"
      using that by (auto intro: filter_cong)
    with that show ?thesis by (simp add: bundle_rows_def filter_bundle_row_list)
  qed
  ultimately show ?thesis
    using up ok D(1) by (auto simp: file_content_def bundle_row_list_ids db_inv_def)
qed

lemma insort_key_map:
  "(\<And>y. f (g y) = f' y) \<Longrightarrow> insort_key f (g x) (map g ys) = map g (insort_key f' x ys)"
  by (induction ys) auto

lemma sort_key_map: "(\<And>y. f (g y) = f' y) \<Longrightarrow> sort_key f (map g xs) = map g (sort_key f' xs)"
  by (induction xs) (simp_all add: insort_key_map)

lemma copy_file_bundles_spec:
  assumes inv: "db_inv s" and src: "find_file s i \<noteq> None" and tgt: "find_file s j \<noteq> None" and ij: "i \<noteq> j"
    and empty: "file_content s j = []"
  shows "\<exists>s'. copy_file_bundles i j s = (Inr (), s') \<and> db_inv s' \<and>
    db_conn s' = (db_conn s)\<lparr> t_file_bundles := t_file_bundles (db_conn s') \<rparr> \<and> db_dir_cache s' = db_dir_cache s \<and>
    file_content s' j = file_content s i \<and> (\<forall>k. k \<noteq> j \<longrightarrow> file_content s' k = file_content s k)"
proof -
  note D = db_invD [OF inv]
  let ?bs = "t_file_bundles (db_conn s)"
  let ?src = "filter (\<lambda>r. fb_file_id r = i) ?bs"
  let ?new = "map (\<lambda>r. r\<lparr> fb_file_id := j \<rparr>) ?src"
  let ?t = "(db_conn s)\<lparr> t_file_bundles := ?bs @ ?new \<rparr>"
  have mem: "i \<in> fr_file_id ` set (files_of s)" "j \<in> fr_file_id ` set (files_of s)"
    using src tgt by (simp_all add: find_file_None)
  then have conv: "u64_to_i64 i nm = Inr i" "u64_to_i64 j nm = Inr j" for nm
    using file_id_fits [OF D(5)] by (auto simp: u64_to_i64_Inr_iff)
  have nobj: "fb_file_id r \<noteq> j" if "r \<in> set ?bs" for r
    using arg_cong [OF empty, of length] that by (auto simp: file_content_def bundle_rows_def filter_empty_conv)
  have "copy_file_bundles_stmt j i (db_conn s) = Inr ((), ?t)"
    using nobj mem by (auto simp: copy_file_bundles_stmt_def Let_def list_ex_iff)
  then have cp: "copy_file_bundles i j s = (Inr (), s\<lparr> db_conn := ?t \<rparr>)"
    using conv by (simp add: copy_file_bundles_def st_bind_def exec_def)
  have dist: "distinct (map (\<lambda>b. (fb_file_id b, fb_bundle_index b)) ?bs)"
    using D(2) by (simp add: links_ok_def bundles_inv_def)
  then have "distinct (map (\<lambda>b. (fb_file_id b, fb_bundle_index b)) ?src)" by (rule distinct_map_filter)
  then have "distinct (map (\<lambda>b. (j, fb_bundle_index b)) ?src)"
    by (auto simp: distinct_map inj_on_def)
  then have "distinct (map (\<lambda>b. (fb_file_id b, fb_bundle_index b)) (?bs @ ?new))"
    using dist nobj by (auto simp: comp_def)
  then have ok: "links_ok ?t"
    using D(2) mem by (auto simp: links_defs)
  have f1: "filter (\<lambda>r. fb_file_id r = j) (?bs @ ?new) = ?new"
    using nobj by (simp add: filter_empty_conv filter_map comp_def)
  have f2: "filter (\<lambda>r. fb_file_id r = k) (?bs @ ?new) = filter (\<lambda>r. fb_file_id r = k) ?bs" if "k \<noteq> j" for k
    using that by (simp add: filter_map comp_def)
  have "map fb_bundle_id (sort_key fb_bundle_index ?new) = map fb_bundle_id (sort_key fb_bundle_index ?src)"
    by (subst sort_key_map [where f' = fb_bundle_index]) simp_all
  then show ?thesis
    using cp ok D(1) f1 f2 by (auto simp: file_content_def bundle_rows_def db_inv_def)
qed

section \<open>Storing and deleting replicas\<close>

lemma sql_extreme_in: "sql_extreme better xs = Some x \<Longrightarrow> x \<in> set xs"
proof -
  have "fold (\<lambda>a b. if better a b then a else b) ys y \<in> insert y (set ys)" for y and ys :: "i64 list"
  proof (induction ys arbitrary: y)
    case (Cons a ys)
    show ?case using Cons [of a] Cons [of y] by (cases "better a y") auto
  qed simp
  then show "sql_extreme better xs = Some x \<Longrightarrow> x \<in> set xs"
    by (cases xs) (auto simp: sql_extreme_def)
qed

lemma peer_lengths_ok:
  assumes "replicas_inv t"
  shows "\<exists>x. peer_lengths b v t = Inr x"
proof -
  let ?peers = "filter (\<lambda>r. br_bundle_id r = b \<and> br_volume_id r \<noteq> v) (t_replicas t)"
  have conv: "row_optional_u64 n nm x = Inr x" if "\<And>y. x = Some y \<Longrightarrow> fits_i64 y" for n nm x
    using that by (cases x) (simp_all add: row_optional_u64_def row_u64_fits)
  have "fits_i64 y" if "sql_min (map br_raw_len ?peers) = Some y \<or> sql_max (map br_raw_len ?peers) = Some y \<or>
      sql_min (map br_compressed_len ?peers) = Some y \<or> sql_max (map br_compressed_len ?peers) = Some y" for y
    using that assms sql_extreme_in unfolding sql_min_def sql_max_def replicas_inv_def by fastforce
  then show ?thesis
    by (simp add: peer_lengths_def conv Let_def)
qed

definition replica_at :: "central_db \<Rightarrow> hash_id \<Rightarrow> u64 \<Rightarrow> (u64 \<times> u64) option" where
  "replica_at s b v =
     map_option (\<lambda>r. (br_raw_len r, br_compressed_len r))
       (find (\<lambda>r. br_bundle_id r = b \<and> br_volume_id r = v) (t_replicas (db_conn s)))"

lemma find_map_same:
  "(\<And>x. P (g x) = P x) \<Longrightarrow> find P (map g xs) = map_option g (find P xs)"
  by (induction xs) auto

lemma upsert_replica_stmt_find:
  assumes "upsert_replica_stmt b v raw cmp t = Inr (u, t')"
  shows "map_option (\<lambda>r. (br_raw_len r, br_compressed_len r))
      (find (\<lambda>r. br_bundle_id r = b' \<and> br_volume_id r = v') (t_replicas t')) =
    (if b' = b \<and> v' = v then Some (raw, cmp)
     else map_option (\<lambda>r. (br_raw_len r, br_compressed_len r))
       (find (\<lambda>r. br_bundle_id r = b' \<and> br_volume_id r = v') (t_replicas t)))"
proof (cases "list_ex (\<lambda>r. br_bundle_id r = b \<and> br_volume_id r = v) (t_replicas t)")
  case True
  let ?g = "\<lambda>r. if br_bundle_id r = b \<and> br_volume_id r = v \<and> (br_raw_len r \<noteq> raw \<or> br_compressed_len r \<noteq> cmp)
    then r\<lparr> br_raw_len := raw, br_compressed_len := cmp \<rparr> else r"
  have t': "t_replicas t' = map ?g (t_replicas t)"
    using assms True by (auto simp: upsert_replica_stmt_def split: if_splits)
  have "find (\<lambda>r. br_bundle_id r = b' \<and> br_volume_id r = v') (map ?g (t_replicas t)) =
      map_option ?g (find (\<lambda>r. br_bundle_id r = b' \<and> br_volume_id r = v') (t_replicas t))"
    by (rule find_map_same) simp
  moreover have "find (\<lambda>r. br_bundle_id r = b \<and> br_volume_id r = v) (t_replicas t) \<noteq> None"
    using True by (auto simp: find_None_iff list_ex_iff)
  ultimately show ?thesis
    unfolding t'
    by (cases "find (\<lambda>r. br_bundle_id r = b' \<and> br_volume_id r = v') (t_replicas t)"; cases "b' = b \<and> v' = v")
      (auto dest: find_SomeD)
next
  case False
  then have t': "t_replicas t' = t_replicas t @ [\<lparr> br_bundle_id = b, br_volume_id = v, br_raw_len = raw, br_compressed_len = cmp \<rparr>]"
    using assms by (auto simp: upsert_replica_stmt_def split: if_splits)
  have "find (\<lambda>r. br_bundle_id r = b \<and> br_volume_id r = v) (t_replicas t) = None"
    using False by (auto simp: find_None_iff list_ex_iff)
  then show ?thesis
    unfolding t' by (auto simp: find_append split: option.splits)
qed

lemma links_ok_replicas:
  "links_ok t \<Longrightarrow> replicas_inv (t\<lparr> t_replicas := rs \<rparr>) \<Longrightarrow> links_ok (t\<lparr> t_replicas := rs \<rparr>)"
  by (simp add: links_defs)

lemma upsert_replica_stmt_links:
  assumes ok: "links_ok t" and pos: "raw \<noteq> 0" "cmp \<noteq> 0" and fits: "fits_i64 raw" "fits_i64 cmp"
    and up: "upsert_replica_stmt b v raw cmp t = Inr (u, t')"
  shows "\<exists>rs. t' = t\<lparr> t_replicas := rs \<rparr> \<and> links_ok (t\<lparr> t_replicas := rs \<rparr>)"
proof (cases "list_ex (\<lambda>r. br_bundle_id r = b \<and> br_volume_id r = v) (t_replicas t)")
  case True
  have inv: "replicas_inv t" using ok by (simp add: links_ok_def)
  let ?g = "\<lambda>r. if br_bundle_id r = b \<and> br_volume_id r = v \<and> (br_raw_len r \<noteq> raw \<or> br_compressed_len r \<noteq> cmp)
    then r\<lparr> br_raw_len := raw, br_compressed_len := cmp \<rparr> else r"
  have t': "t' = t\<lparr> t_replicas := map ?g (t_replicas t) \<rparr>"
    using up True by (auto simp: upsert_replica_stmt_def split: if_splits)
  have "map (\<lambda>r. (br_bundle_id r, br_volume_id r)) (map ?g (t_replicas t)) =
      map (\<lambda>r. (br_bundle_id r, br_volume_id r)) (t_replicas t)" by auto
  then have "distinct (map (\<lambda>r. (br_bundle_id r, br_volume_id r)) (map ?g (t_replicas t)))"
    using inv by (simp only: replicas_inv_def)
  then have "replicas_inv (t\<lparr> t_replicas := map ?g (t_replicas t) \<rparr>)"
    using inv pos fits by (auto simp: replicas_inv_def simp del: map_map)
  with t' links_ok_replicas [OF ok] show ?thesis by blast
next
  case False
  let ?r = "\<lparr> br_bundle_id = b, br_volume_id = v, br_raw_len = raw, br_compressed_len = cmp \<rparr>"
  have t': "t' = t\<lparr> t_replicas := t_replicas t @ [?r] \<rparr>"
    and hv: "hash_ok b" "v \<in> vr_volume_id ` set (t_volumes t)"
    using up False by (auto simp: upsert_replica_stmt_def hash_ok_def list_ex_iff split: if_splits)
  have "(b, v) \<notin> (\<lambda>r. (br_bundle_id r, br_volume_id r)) ` set (t_replicas t)"
    using False by (auto simp: list_ex_iff)
  then have "replicas_inv (t\<lparr> t_replicas := t_replicas t @ [?r] \<rparr>)"
    using ok pos fits hv by (simp add: links_ok_def replicas_inv_def)
  with t' links_ok_replicas [OF ok] show ?thesis by blast
qed

lemma tree_ok_replicas [simp]: "tree_ok (s\<lparr> db_conn := (db_conn s)\<lparr> t_replicas := rs \<rparr> \<rparr>) \<longleftrightarrow> tree_ok s"
  by (simp add: tree_ok_def dir_ok_def)

lemma insert_bundle_replica_spec:
  assumes inv: "db_inv s" and res: "insert_bundle_replica b v raw cmp s = (r, s')"
  shows "db_inv s' \<and> (\<exists>rs. s' = s\<lparr> db_conn := (db_conn s)\<lparr> t_replicas := rs \<rparr> \<rparr>) \<and>
    (case r of
       Inr _ \<Rightarrow> raw \<noteq> 0 \<and> cmp \<noteq> 0 \<and> replica_at s' = (\<lambda>b' v'. if b' = b \<and> v' = v then Some (raw, cmp) else replica_at s b' v')
     | Inl _ \<Rightarrow> s' = s)"
proof (cases "raw = 0 \<or> cmp = 0 \<or> \<not> fits_i64 v \<or> \<not> fits_i64 raw \<or> \<not> fits_i64 cmp")
  case True
  obtain x where "peer_lengths b v (db_conn s) = Inr x"
    using peer_lengths_ok [of "db_conn s" b v] db_invD(2) [OF inv] unfolding links_ok_def by blast
  with True res have "s' = s \<and> (\<exists>e. r = Inl e)"
    by (auto simp: insert_bundle_replica_def st_bind_def u64_to_i64_def fits_i64_def split: if_splits)
  with inv show ?thesis by (auto intro: exI [of _ "t_replicas (db_conn s)"])
next
  case False
  obtain x where "peer_lengths b v (db_conn s) = Inr x"
    using peer_lengths_ok [of "db_conn s" b v] db_invD(2) [OF inv] unfolding links_ok_def by blast
  with False res have ex: "exec (upsert_replica_stmt b v raw cmp) s = (r, s')"
    by (simp add: insert_bundle_replica_def st_bind_def u64_to_i64_def fits_i64_def)
  show ?thesis
  proof (cases r)
    case (Inl e)
    with ex inv show ?thesis by (auto simp: exec_Inl_iff intro: exI [of _ "t_replicas (db_conn s)"])
  next
    case (Inr u)
    with ex obtain t' where t': "upsert_replica_stmt b v raw cmp (db_conn s) = Inr (u, t')" "s' = s\<lparr> db_conn := t' \<rparr>"
      by (auto simp: exec_Inr_iff)
    obtain rs where rs: "t' = (db_conn s)\<lparr> t_replicas := rs \<rparr>" "links_ok ((db_conn s)\<lparr> t_replicas := rs \<rparr>)"
      using upsert_replica_stmt_links [OF db_invD(2) [OF inv] _ _ _ _ t'(1)] False by auto
    have "replica_at s' = (\<lambda>b' v'. if b' = b \<and> v' = v then Some (raw, cmp) else replica_at s b' v')"
      using upsert_replica_stmt_find [OF t'(1)] t'(2) by (auto simp: replica_at_def fun_eq_iff)
    with rs t'(2) Inr False db_invD(1) [OF inv] show ?thesis by (auto simp: db_inv_def)
  qed
qed

lemma db_simps:
  "db_conn (s\<lparr> db_conn := t \<rparr>) = t"
  "t_replicas (t\<lparr> t_replicas := rs \<rparr>) = rs"
  by simp_all

lemma delete_bundle_replica_spec:
  assumes inv: "db_inv s" and v: "fits_i64 v"
  shows "\<exists>s'. delete_bundle_replica b v s = (Inr (), s') \<and> db_inv s' \<and>
    (\<exists>rs. s' = s\<lparr> db_conn := (db_conn s)\<lparr> t_replicas := rs \<rparr> \<rparr>) \<and>
    replica_at s' = (\<lambda>b' v'. if b' = b \<and> v' = v then None else replica_at s b' v')"
proof -
  let ?rs = "filter (\<lambda>r. \<not> (br_bundle_id r = b \<and> br_volume_id r = v)) (t_replicas (db_conn s))"
  let ?s = "s\<lparr> db_conn := (db_conn s)\<lparr> t_replicas := ?rs \<rparr> \<rparr>"
  have "replicas_inv ((db_conn s)\<lparr> t_replicas := ?rs \<rparr>)"
    using db_invD(2) [OF inv] by (auto simp: links_ok_def replicas_inv_def distinct_map_filter)
  then have "db_inv ?s"
    using links_ok_replicas [OF db_invD(2) [OF inv]] db_invD(1) [OF inv] by (simp add: db_inv_def)
  moreover have find: "find (\<lambda>r. br_bundle_id r = b' \<and> br_volume_id r = v') (filter (\<lambda>r. \<not> (br_bundle_id r = b \<and> br_volume_id r = v)) xs) =
      (if b' = b \<and> v' = v then None else find (\<lambda>r. br_bundle_id r = b' \<and> br_volume_id r = v') xs)" for b' v' xs
    by (induction xs) auto
  have "replica_at ?s b' v' = (if b' = b \<and> v' = v then None else replica_at s b' v')" for b' v'
    using find [of b' v' "t_replicas (db_conn s)"] by (simp only: replica_at_def db_simps) simp
  then have "replica_at ?s = (\<lambda>b' v'. if b' = b \<and> v' = v then None else replica_at s b' v')"
    by (simp add: fun_eq_iff)
  ultimately show ?thesis
    using v by (intro exI [of _ ?s])
      (auto simp: delete_bundle_replica_def st_bind_def exec_def delete_replica_stmt_def u64_to_i64_def fits_i64_def)
qed

end
