(* ===== verification/Central_Lease.thy ===== *)
theory Central_Lease
  imports Central_Bundle
begin

text \<open>
  Update leases and volumes in the central database: \<^verbatim>\<open>fs0-central/src/db/lease.rs\<close> and
  \<^verbatim>\<open>fs0-central/src/db/volume.rs\<close>. The unique index on the file of a lease makes it a lock; the lock is held until
  the lease is deleted or has expired. The time is an argument wherever the code calls \<open>now_ms()\<close>.
\<close>

section \<open>Leases\<close>

record lease_record =
  lrec_file_id :: u64
  lrec_base_size_bytes :: u64
  lrec_offset_bytes :: u64

record create_update_lease_args =
  cul_file_id :: u64
  cul_volume_id :: u64
  cul_base_size_bytes :: u64
  cul_offset_bytes :: u64
  cul_prefer_volume_name :: "string option"
  cul_expires_at_ms :: u64
  cul_created_at_ms :: u64

definition delete_expired_update_leases :: "u64 \<Rightarrow> unit tx" where
  "delete_expired_update_leases now =
     st_bind (st_lift (u64_to_i64 now ''expires_at_ms'')) (\<lambda>n.
     exec (delete_leases_stmt (\<lambda>r. lr_expires_at_ms r \<le> n)))"

definition file_has_active_update_lease :: "u64 \<Rightarrow> bool tx" where
  "file_has_active_update_lease file_id =
     st_bind (st_lift (u64_to_i64 file_id ''file_id'')) (\<lambda>i.
     st_bind (query_optional (\<lambda>t. find (\<lambda>r. lr_file_id r = i) (t_leases t)) (\<lambda>r. Inr (lr_lease_id r))) (\<lambda>active_lease.
     st_return (active_lease \<noteq> None)))"

definition create_update_lease :: "create_update_lease_args \<Rightarrow> update_lease tx" where
  "create_update_lease lease =
     st_bind (st_lift (u64_to_i64 (cul_file_id lease) ''file_id'')) (\<lambda>file_id.
     st_bind (st_lift (u64_to_i64 (cul_volume_id lease) ''volume_id'')) (\<lambda>volume_id.
     st_bind (st_lift (u64_to_i64 (cul_base_size_bytes lease) ''base_size_bytes'')) (\<lambda>base_size_bytes.
     st_bind (st_lift (u64_to_i64 (cul_offset_bytes lease) ''offset_bytes'')) (\<lambda>offset_bytes.
     st_bind (st_lift (u64_to_i64 (cul_expires_at_ms lease) ''expires_at_ms'')) (\<lambda>expires_at_ms.
     st_bind (st_lift (u64_to_i64 (cul_created_at_ms lease) ''created_at_ms'')) (\<lambda>created_at_ms.
     st_bind (exec (insert_lease \<lparr> lr_lease_id = 0, lr_file_id = file_id, lr_volume_id = volume_id,
        lr_base_size_bytes = base_size_bytes, lr_offset_bytes = offset_bytes,
        lr_prefer_volume_name = cul_prefer_volume_name lease, lr_expires_at_ms = expires_at_ms,
        lr_created_at_ms = created_at_ms \<rparr>)) (\<lambda>rowid.
     st_bind (st_lift (i64_to_u64 rowid ''lease_id'')) (\<lambda>lease_id.
     st_return \<lparr> ul_lease_id = lease_id, ul_file_id = cul_file_id lease, ul_volume_id = cul_volume_id lease,
       ul_base_size = cul_base_size_bytes lease, ul_offset = cul_offset_bytes lease,
       ul_expires_at_ms = cul_expires_at_ms lease, ul_prefer_volume_name = cul_prefer_volume_name lease \<rparr>))))))))"

definition active_lease_row :: "u64 \<Rightarrow> u64 \<Rightarrow> u64 \<Rightarrow> central_tables \<Rightarrow> lease_row option" where
  "active_lease_row lease_id file_id now t =
     find (\<lambda>r. lr_lease_id r = lease_id \<and> lr_file_id r = file_id \<and> now < lr_expires_at_ms r) (t_leases t)"

definition load_active_update_lease :: "u64 \<Rightarrow> u64 \<Rightarrow> u64 \<Rightarrow> lease_record tx" where
  "load_active_update_lease lease_id file_id now =
     st_bind (st_lift (u64_to_i64 lease_id ''lease_id'')) (\<lambda>l.
     st_bind (st_lift (u64_to_i64 file_id ''file_id'')) (\<lambda>f.
     st_bind (st_lift (u64_to_i64 now ''now_ms'')) (\<lambda>n.
     st_bind (query_optional (active_lease_row l f n) (\<lambda>r.
        res_bind (row_u64 0 ''file_id'' (lr_file_id r)) (\<lambda>file_id.
        res_bind (row_u64 1 ''base_size_bytes'' (lr_base_size_bytes r)) (\<lambda>base_size_bytes.
        res_bind (row_u64 2 ''offset_bytes'' (lr_offset_bytes r)) (\<lambda>offset_bytes.
        Inr \<lparr> lrec_file_id = file_id, lrec_base_size_bytes = base_size_bytes, lrec_offset_bytes = offset_bytes \<rparr>))))) (\<lambda>found.
     st_lift (ok_or NotFound found)))))"

definition active_update_lease_volume :: "u64 \<Rightarrow> u64 \<Rightarrow> u64 \<Rightarrow> u64 tx" where
  "active_update_lease_volume lease_id file_id now =
     st_bind (st_lift (u64_to_i64 lease_id ''lease_id'')) (\<lambda>l.
     st_bind (st_lift (u64_to_i64 file_id ''file_id'')) (\<lambda>f.
     st_bind (st_lift (u64_to_i64 now ''now_ms'')) (\<lambda>n.
     st_bind (query_optional (active_lease_row l f n) (\<lambda>r. row_u64 0 ''volume_id'' (lr_volume_id r))) (\<lambda>found.
     st_lift (ok_or NotFound found)))))"

definition delete_update_lease :: "u64 \<Rightarrow> unit tx" where
  "delete_update_lease lease_id =
     st_bind (st_lift (u64_to_i64 lease_id ''lease_id'')) (\<lambda>l. exec (delete_leases_stmt (\<lambda>r. lr_lease_id r = l)))"

section \<open>Volumes\<close>

definition row_to_storage_volume_info :: "volume_row \<Rightarrow> storage_volume_info fs0_result" where
  "row_to_storage_volume_info r =
     res_bind (row_u64 0 ''volume_id'' (vr_volume_id r)) (\<lambda>volume_id.
     res_bind (row_u64 2 ''max_bytes'' (vr_max_bytes r)) (\<lambda>max_bytes.
     res_bind (row_u64 3 ''max_volume_offset'' (vr_max_volume_offset r)) (\<lambda>max_volume_offset.
     Inr \<lparr> svi_volume_id = volume_id, svi_name = vr_name r, svi_max_bytes = max_bytes,
       svi_max_volume_offset = max_volume_offset, svi_read_only = False \<rparr>)))"

definition get_volume :: "u64 \<Rightarrow> storage_volume_info tx" where
  "get_volume volume_id =
     st_bind (st_lift (u64_to_i64 volume_id ''volume_id'')) (\<lambda>v.
     st_bind (query_optional (\<lambda>t. find (\<lambda>r. vr_volume_id r = v) (t_volumes t)) row_to_storage_volume_info) (\<lambda>found.
     st_lift (ok_or NotFound found)))"

definition create_volume :: "string \<Rightarrow> u64 \<Rightarrow> storage_volume_info tx" where
  "create_volume name max_bytes =
     st_bind (st_lift (u64_to_i64 max_bytes ''max_bytes'')) (\<lambda>m.
     st_bind (exec (insert_volume name m)) (\<lambda>rowid.
     st_bind (st_lift (i64_to_u64 rowid ''volume_id'')) get_volume))"

definition update_volume_offset :: "u64 \<Rightarrow> u64 \<Rightarrow> storage_volume_info tx" where
  "update_volume_offset volume_id max_volume_offset =
     st_bind (st_lift (u64_to_i64 volume_id ''volume_id'')) (\<lambda>v.
     st_bind (st_lift (u64_to_i64 max_volume_offset ''max_volume_offset'')) (\<lambda>off.
     st_bind (exec (update_volume_offset_stmt v off)) (\<lambda>changes.
     if changes = 0 then st_throw NotFound else get_volume volume_id)))"

section \<open>The lease of a file\<close>

definition lease_of_file :: "central_db \<Rightarrow> u64 \<Rightarrow> lease_row option" where
  "lease_of_file s i = find (\<lambda>r. lr_file_id r = i) (t_leases (db_conn s))"

lemma lease_of_fileD: "lease_of_file s i = Some l \<Longrightarrow> l \<in> set (t_leases (db_conn s)) \<and> lr_file_id l = i"
  by (auto simp: lease_of_file_def dest: find_SomeD)

lemma lease_of_file_exists:
  "leases_inv (db_conn s) \<Longrightarrow> l \<in> set (t_leases (db_conn s)) \<Longrightarrow> lease_of_file s (lr_file_id l) = Some l"
  unfolding lease_of_file_def by (rule find_key) (simp_all add: leases_inv_def)

lemma leases_unchanged: "db_conn s' = (db_conn s)\<lparr> t_leases := ls \<rparr> \<Longrightarrow> db_dir_cache s' = db_dir_cache s \<Longrightarrow>
    tree_ok s' \<longleftrightarrow> tree_ok s"
  by (simp add: tree_ok_def dir_ok_def)

lemma links_ok_filter_leases: "links_ok t \<Longrightarrow> links_ok (t\<lparr> t_leases := filter P (t_leases t) \<rparr>)"
  by (simp add: links_defs distinct_map_filter)

lemma db_inv_filter_leases:
  "db_inv s \<Longrightarrow> db_inv (s\<lparr> db_conn := (db_conn s)\<lparr> t_leases := filter P (t_leases (db_conn s)) \<rparr> \<rparr>)"
  using links_ok_filter_leases by (auto simp: db_inv_def tree_ok_def dir_ok_def)

lemma delete_expired_spec:
  "fits_i64 now \<Longrightarrow> delete_expired_update_leases now s =
     (Inr (), s\<lparr> db_conn := (db_conn s)\<lparr> t_leases :=
        filter (\<lambda>r. \<not> lr_expires_at_ms r \<le> now) (t_leases (db_conn s)) \<rparr> \<rparr>)"
  by (simp add: delete_expired_update_leases_def st_bind_def exec_def delete_leases_stmt_def u64_to_i64_def fits_i64_def)

lemma delete_update_lease_spec:
  "fits_i64 l \<Longrightarrow> delete_update_lease l s =
     (Inr (), s\<lparr> db_conn := (db_conn s)\<lparr> t_leases := filter (\<lambda>r. lr_lease_id r \<noteq> l) (t_leases (db_conn s)) \<rparr> \<rparr>)"
  by (simp add: delete_update_lease_def st_bind_def exec_def delete_leases_stmt_def u64_to_i64_def fits_i64_def)

lemma file_has_active_spec:
  "fits_i64 i \<Longrightarrow> file_has_active_update_lease i s = (Inr (lease_of_file s i \<noteq> None), s)"
  by (auto simp: file_has_active_update_lease_def st_bind_def query_optional_def u64_to_i64_def fits_i64_def
      lease_of_file_def split: option.splits)

lemma lease_of_file_filter:
  assumes inv: "leases_inv (db_conn s)"
  shows "lease_of_file (s\<lparr> db_conn := (db_conn s)\<lparr> t_leases := filter P (t_leases (db_conn s)) \<rparr> \<rparr>) i =
    (case lease_of_file s i of None \<Rightarrow> None | Some l \<Rightarrow> if P l then Some l else None)"
proof (cases "lease_of_file s i")
  case None
  then have "find (\<lambda>r. lr_file_id r = i) (filter P (t_leases (db_conn s))) = None"
    by (auto simp: lease_of_file_def find_None_iff)
  with None show ?thesis by (simp add: lease_of_file_def)
next
  case (Some l)
  then have l: "l \<in> set (t_leases (db_conn s))" "lr_file_id l = i" using lease_of_fileD by blast+
  have uniq: "r = l" if "r \<in> set (t_leases (db_conn s))" "lr_file_id r = i" for r
    using inv l that key_unique [of lr_file_id "t_leases (db_conn s)" l r] by (simp add: leases_inv_def)
  show ?thesis
  proof (cases "P l")
    case True
    have "find (\<lambda>r. lr_file_id r = i) (filter P (t_leases (db_conn s))) = Some l"
      by (rule find_unique) (use True l in \<open>auto intro: uniq\<close>)
    with True Some show ?thesis by (simp add: lease_of_file_def)
  next
    case False
    have "find (\<lambda>r. lr_file_id r = i) (filter P (t_leases (db_conn s))) = None"
      using False by (auto simp: find_None_iff dest: uniq)
    with False Some show ?thesis by (simp add: lease_of_file_def)
  qed
qed

lemma active_lease_row_iff:
  assumes inv: "leases_inv (db_conn s)"
  shows "active_lease_row l i now (db_conn s) = Some r \<longleftrightarrow>
    lease_of_file s i = Some r \<and> lr_lease_id r = l \<and> now < lr_expires_at_ms r"
proof
  assume "active_lease_row l i now (db_conn s) = Some r"
  then have "r \<in> set (t_leases (db_conn s))" "lr_lease_id r = l" "lr_file_id r = i" "now < lr_expires_at_ms r"
    by (auto simp: active_lease_row_def dest: find_SomeD)
  then show "lease_of_file s i = Some r \<and> lr_lease_id r = l \<and> now < lr_expires_at_ms r"
    using lease_of_file_exists [OF inv] by blast
next
  assume r: "lease_of_file s i = Some r \<and> lr_lease_id r = l \<and> now < lr_expires_at_ms r"
  then have "r \<in> set (t_leases (db_conn s))" "lr_file_id r = i" using lease_of_fileD by blast+
  then have uniq: "y = r" if "y \<in> set (t_leases (db_conn s))" "lr_file_id y = i" for y
    using inv that key_unique [of lr_file_id "t_leases (db_conn s)" r y] by (simp add: leases_inv_def)
  show "active_lease_row l i now (db_conn s) = Some r"
    unfolding active_lease_row_def
  proof (rule find_unique)
    show "r \<in> set (t_leases (db_conn s))" by fact
    show "lr_lease_id r = l \<and> lr_file_id r = i \<and> now < lr_expires_at_ms r" using r \<open>lr_file_id r = i\<close> by simp
  qed (use uniq in blast)
qed

lemma load_active_spec:
  assumes inv: "db_inv s" and fits: "fits_i64 l" "fits_i64 i" "fits_i64 now"
  shows "load_active_update_lease l i now s =
    (case active_lease_row l i now (db_conn s) of
       None \<Rightarrow> Inl NotFound
     | Some r \<Rightarrow> Inr \<lparr> lrec_file_id = i, lrec_base_size_bytes = lr_base_size_bytes r, lrec_offset_bytes = lr_offset_bytes r \<rparr>, s)"
    and "active_update_lease_volume l i now s =
    (case active_lease_row l i now (db_conn s) of None \<Rightarrow> Inl NotFound | Some r \<Rightarrow> Inr (lr_volume_id r), s)"
proof -
  have li: "leases_inv (db_conn s)" and vi: "volumes_inv (db_conn s)"
    using db_invD(2) [OF inv] by (simp_all add: links_ok_def)
  have row: "fits_i64 (lr_base_size_bytes r)" "fits_i64 (lr_offset_bytes r)" "fits_i64 (lr_volume_id r)" "lr_file_id r = i"
    if "active_lease_row l i now (db_conn s) = Some r" for r
  proof -
    have r: "r \<in> set (t_leases (db_conn s))" "lr_file_id r = i"
      using that active_lease_row_iff [OF li] lease_of_fileD by blast+
    then have "lr_volume_id r \<in> vr_volume_id ` set (t_volumes (db_conn s))" using li by (simp add: leases_inv_def)
    then show "fits_i64 (lr_volume_id r)" using vi by (auto simp: volumes_inv_def intro: fits_mono)
    show "fits_i64 (lr_base_size_bytes r)" "fits_i64 (lr_offset_bytes r)" "lr_file_id r = i"
      using r li by (simp_all add: leases_inv_def)
  qed
  show "load_active_update_lease l i now s =
    (case active_lease_row l i now (db_conn s) of
       None \<Rightarrow> Inl NotFound
     | Some r \<Rightarrow> Inr \<lparr> lrec_file_id = i, lrec_base_size_bytes = lr_base_size_bytes r, lrec_offset_bytes = lr_offset_bytes r \<rparr>, s)"
    using fits row by (cases "active_lease_row l i now (db_conn s)")
      (simp_all add: load_active_update_lease_def st_bind_def u64_to_i64_def fits_i64_def query_optional_def row_u64_fits)
  show "active_update_lease_volume l i now s =
    (case active_lease_row l i now (db_conn s) of None \<Rightarrow> Inl NotFound | Some r \<Rightarrow> Inr (lr_volume_id r), s)"
    using fits row by (cases "active_lease_row l i now (db_conn s)")
      (simp_all add: active_update_lease_volume_def st_bind_def u64_to_i64_def fits_i64_def query_optional_def row_u64_fits)
qed

text \<open>Taking a lease: it succeeds exactly when the file has none, the file and the volume exist.\<close>

lemma create_update_lease_spec:
  assumes inv: "db_inv s" and res: "create_update_lease a s = (Inr l, s')"
  shows "db_inv s'" and "lease_of_file s (cul_file_id a) = None"
    and "\<exists>r. lease_of_file s' = (lease_of_file s)(cul_file_id a \<mapsto> r) \<and> lr_lease_id r = ul_lease_id l \<and>
      lr_volume_id r = cul_volume_id a \<and> lr_base_size_bytes r = cul_base_size_bytes a \<and>
      lr_offset_bytes r = cul_offset_bytes a \<and> lr_expires_at_ms r = cul_expires_at_ms a"
    and "l = \<lparr> ul_lease_id = ul_lease_id l, ul_file_id = cul_file_id a, ul_volume_id = cul_volume_id a,
      ul_base_size = cul_base_size_bytes a, ul_offset = cul_offset_bytes a, ul_expires_at_ms = cul_expires_at_ms a,
      ul_prefer_volume_name = cul_prefer_volume_name a \<rparr>"
    and "fits_i64 (ul_lease_id l)" and "t_leases_seq (db_conn s) < ul_lease_id l"
    and "db_conn s' = (db_conn s)\<lparr> t_leases := t_leases (db_conn s'), t_leases_seq := t_leases_seq (db_conn s') \<rparr>"
proof -
  define row where "row rowid = \<lparr> lr_lease_id = rowid, lr_file_id = cul_file_id a, lr_volume_id = cul_volume_id a,
    lr_base_size_bytes = cul_base_size_bytes a, lr_offset_bytes = cul_offset_bytes a,
    lr_prefer_volume_name = cul_prefer_volume_name a, lr_expires_at_ms = cul_expires_at_ms a,
    lr_created_at_ms = cul_created_at_ms a \<rparr>" for rowid
  let ?t = "db_conn s"
  from res obtain rowid where fits: "fits_i64 (cul_file_id a)" "fits_i64 (cul_volume_id a)" "fits_i64 (cul_base_size_bytes a)"
      "fits_i64 (cul_offset_bytes a)" "fits_i64 (cul_expires_at_ms a)" "fits_i64 (cul_created_at_ms a)"
    and ex: "exec (insert_lease (row 0)) s = (Inr rowid, s')"
    and l: "l = \<lparr> ul_lease_id = rowid, ul_file_id = cul_file_id a, ul_volume_id = cul_volume_id a,
      ul_base_size = cul_base_size_bytes a, ul_offset = cul_offset_bytes a, ul_expires_at_ms = cul_expires_at_ms a,
      ul_prefer_volume_name = cul_prefer_volume_name a \<rparr>"
    unfolding create_update_lease_def row_def
    by (auto simp: st_bind_Inr_iff u64_to_i64_Inr_iff i64_to_u64_Inr_iff)
  from ex have rowid: "next_rowid (t_leases_seq ?t) (map lr_lease_id (t_leases ?t)) = Inr rowid"
    and free: "\<forall>r\<in>set (t_leases ?t). lr_file_id r \<noteq> cul_file_id a"
    and refs0: "\<exists>r\<in>set (t_files ?t). fr_file_id r = cul_file_id a" "\<exists>r\<in>set (t_volumes ?t). vr_volume_id r = cul_volume_id a"
    and s': "s' = s\<lparr> db_conn := ?t\<lparr> t_leases := t_leases ?t @ [row rowid], t_leases_seq := rowid \<rparr> \<rparr>"
    by (auto simp: exec_Inr_iff insert_lease_def row_def res_bind_Inr_iff list_ex_iff split: if_splits)
  have refs: "cul_file_id a \<in> fr_file_id ` set (t_files ?t)" "cul_volume_id a \<in> vr_volume_id ` set (t_volumes ?t)"
    using refs0 by (metis imageI)+
  note R = next_rowid_Inr [OF rowid]
  show none: "lease_of_file s (cul_file_id a) = None" using free by (auto simp: lease_of_file_def find_None_iff)
  show "fits_i64 (ul_lease_id l)" "t_leases_seq ?t < ul_lease_id l" using R l by simp_all
  show "l = \<lparr> ul_lease_id = ul_lease_id l, ul_file_id = cul_file_id a, ul_volume_id = cul_volume_id a,
      ul_base_size = cul_base_size_bytes a, ul_offset = cul_offset_bytes a, ul_expires_at_ms = cul_expires_at_ms a,
      ul_prefer_volume_name = cul_prefer_volume_name a \<rparr>" using l by simp
  show "db_conn s' = ?t\<lparr> t_leases := t_leases (db_conn s'), t_leases_seq := t_leases_seq (db_conn s') \<rparr>"
    using s' by simp
  have "lease_of_file s' = (lease_of_file s)(cul_file_id a \<mapsto> row rowid)"
  proof
    fix i
    show "lease_of_file s' i = ((lease_of_file s)(cul_file_id a \<mapsto> row rowid)) i"
      using none s' by (cases "i = cul_file_id a") (simp_all add: lease_of_file_def find_append row_def split: option.splits)
  qed
  then show "\<exists>r. lease_of_file s' = (lease_of_file s)(cul_file_id a \<mapsto> r) \<and> lr_lease_id r = ul_lease_id l \<and>
      lr_volume_id r = cul_volume_id a \<and> lr_base_size_bytes r = cul_base_size_bytes a \<and>
      lr_offset_bytes r = cul_offset_bytes a \<and> lr_expires_at_ms r = cul_expires_at_ms a"
    using l by (intro exI [of _ "row rowid"]) (simp add: row_def)
  have "leases_inv (db_conn s')"
  proof -
    have li: "leases_inv ?t" using db_invD(2) [OF inv] by (simp add: links_ok_def)
    have "rowid \<notin> lr_lease_id ` set (t_leases ?t)" using R(3) by fastforce
    moreover have "cul_file_id a \<notin> lr_file_id ` set (t_leases ?t)" using free by auto
    moreover have "\<forall>r\<in>set (t_leases ?t). lr_lease_id r \<le> rowid" using R(3) by (auto intro: less_imp_le)
    ultimately show ?thesis
      using li refs fits R(1) unfolding s' leases_inv_def by (simp add: row_def)
  qed
  then have "links_ok (db_conn s')"
    using db_invD(2) [OF inv] unfolding s' links_ok_def
    by (simp add: volumes_inv_def bundles_inv_def replicas_inv_def events_inv_def)
  then show "db_inv s'"
    using db_invD(1) [OF inv] unfolding s' by (simp add: db_inv_def tree_ok_def dir_ok_def)
qed

section \<open>The row of a volume\<close>

definition volume_of :: "central_db \<Rightarrow> u64 \<Rightarrow> volume_row option" where
  "volume_of s v = find (\<lambda>r. vr_volume_id r = v) (t_volumes (db_conn s))"

definition volume_info :: "volume_row \<Rightarrow> storage_volume_info" where
  "volume_info r = \<lparr> svi_volume_id = vr_volume_id r, svi_name = vr_name r, svi_max_bytes = vr_max_bytes r,
     svi_max_volume_offset = vr_max_volume_offset r, svi_read_only = False \<rparr>"

lemma volume_ofD: "volume_of s v = Some r \<Longrightarrow> r \<in> set (t_volumes (db_conn s)) \<and> vr_volume_id r = v"
  by (auto simp: volume_of_def dest: find_SomeD)

lemma get_volume_spec:
  assumes inv: "db_inv s" and v: "fits_i64 v"
  shows "get_volume v s = (ok_or NotFound (map_option volume_info (volume_of s v)), s)"
proof -
  have vi: "volumes_inv (db_conn s)" using db_invD(2) [OF inv] by (simp add: links_ok_def)
  have "row_to_storage_volume_info r = Inr (volume_info r)" if "volume_of s v = Some r" for r
    using volume_ofD [OF that] vi v
    by (auto simp: row_to_storage_volume_info_def volume_info_def volumes_inv_def row_u64_fits)
  then have "query_optional (\<lambda>t. find (\<lambda>r. vr_volume_id r = v) (t_volumes t)) row_to_storage_volume_info s =
      (Inr (map_option volume_info (volume_of s v)), s)"
    by (subst query_optional_ok [where g = volume_info]) (simp_all add: volume_of_def)
  then show ?thesis
    using v by (simp add: get_volume_def st_bind_def u64_to_i64_def fits_i64_def)
qed

lemma get_volume_Inr:
  assumes inv: "db_inv s" and res: "get_volume v s = (Inr i, s')"
  shows "s' = s \<and> fits_i64 v \<and> (\<exists>r. volume_of s v = Some r \<and> i = volume_info r)"
proof -
  from res have v: "fits_i64 v" by (auto simp: get_volume_def st_bind_Inr_iff u64_to_i64_Inr_iff)
  with res get_volume_spec [OF inv v] show ?thesis by auto
qed

lemma get_volume_state: "snd (get_volume v s) = s"
  by (auto simp: get_volume_def st_bind_snd split: sum.splits)

lemma update_volume_offset_spec:
  assumes inv: "db_inv s" and res: "update_volume_offset v off s = (r, s')"
  shows "db_inv s' \<and> (\<exists>vs. s' = s\<lparr> db_conn := (db_conn s)\<lparr> t_volumes := vs \<rparr> \<rparr>) \<and>
    (case r of
       Inr i \<Rightarrow> \<exists>x. volume_of s v = Some x \<and> i = volume_info (x\<lparr> vr_max_volume_offset := off \<rparr>) \<and>
         volume_of s' = (volume_of s)(v \<mapsto> x\<lparr> vr_max_volume_offset := off \<rparr>)
     | Inl _ \<Rightarrow> s' = s)"
proof (cases "fits_i64 v \<and> fits_i64 off \<and> volume_of s v \<noteq> None")
  case False
  then have "s' = s \<and> (\<exists>e. r = Inl e)"
  proof (cases "fits_i64 v \<and> fits_i64 off")
    case True
    with False have none: "\<forall>x\<in>set (t_volumes (db_conn s)). vr_volume_id x \<noteq> v"
      by (auto simp: volume_of_def find_None_iff)
    then have "map (\<lambda>r. if vr_volume_id r = v then r\<lparr> vr_max_volume_offset := off \<rparr> else r) (t_volumes (db_conn s)) = t_volumes (db_conn s)"
      by (auto intro: map_idI)
    with none True res show ?thesis
      by (auto simp: update_volume_offset_def st_bind_def exec_def update_volume_offset_stmt_def u64_to_i64_def
          fits_i64_def filter_empty_conv)
  qed (use res in \<open>auto simp: update_volume_offset_def st_bind_def u64_to_i64_def fits_i64_def split: if_splits\<close>)
  with inv show ?thesis by (auto intro: exI [of _ "t_volumes (db_conn s)"])
next
  case True
  then obtain x where x: "volume_of s v = Some x" and fits: "fits_i64 v" "fits_i64 off" by auto
  note xD = volume_ofD [OF x]
  let ?h = "\<lambda>r. if vr_volume_id r = v then r\<lparr> vr_max_volume_offset := off \<rparr> else r"
  let ?s = "s\<lparr> db_conn := (db_conn s)\<lparr> t_volumes := map ?h (t_volumes (db_conn s)) \<rparr> \<rparr>"
  have vi: "volumes_inv (db_conn s)" using db_invD(2) [OF inv] by (simp add: links_ok_def)
  have ids: "map vr_volume_id (map ?h (t_volumes (db_conn s))) = map vr_volume_id (t_volumes (db_conn s))" by auto
  have ids': "vr_volume_id ` set (map ?h (t_volumes (db_conn s))) = vr_volume_id ` set (t_volumes (db_conn s))"
    using arg_cong [OF ids, of set] by (simp only: set_map)
  have "volumes_inv (db_conn ?s)"
    using vi fits ids unfolding volumes_inv_def by (auto simp del: map_map)
  then have "links_ok (db_conn ?s)"
    using db_invD(2) [OF inv] ids' unfolding links_ok_def
    by (simp add: bundles_inv_def replicas_inv_def leases_inv_def events_inv_def del: set_map)
  then have inv': "db_inv ?s" using db_invD(1) [OF inv] by (simp add: db_inv_def tree_ok_def dir_ok_def)
  have vo: "volume_of ?s w = map_option ?h (volume_of s w)" for w
    unfolding volume_of_def by (simp add: find_map_same [where g = ?h])
  have vo': "volume_of ?s = (volume_of s)(v \<mapsto> x\<lparr> vr_max_volume_offset := off \<rparr>)"
  proof
    fix w
    show "volume_of ?s w = ((volume_of s)(v \<mapsto> x\<lparr> vr_max_volume_offset := off \<rparr>)) w"
    proof (cases "w = v")
      case True
      then show ?thesis using vo [of v] x xD by simp
    next
      case False
      then show ?thesis using vo [of w] volume_ofD [of s w] by (cases "volume_of s w") auto
    qed
  qed
  have ne: "filter (\<lambda>r. vr_volume_id r = v) (t_volumes (db_conn s)) \<noteq> []"
    using xD by (auto simp: filter_empty_conv)
  have "update_volume_offset v off s = (Inr (volume_info (x\<lparr> vr_max_volume_offset := off \<rparr>)), ?s)"
    using fits ne get_volume_spec [OF inv' fits(1)] vo'
    by (simp add: update_volume_offset_def st_bind_def exec_def update_volume_offset_stmt_def u64_to_i64_def fits_i64_def)
  with res inv' vo' x show ?thesis by auto
qed

lemma create_volume_spec:
  assumes inv: "db_inv s" and res: "create_volume name m s = (r, s')"
  shows "db_inv s' \<and>
    (case r of
       Inr i \<Rightarrow> volume_of s (svi_volume_id i) = None \<and> i = \<lparr> svi_volume_id = svi_volume_id i, svi_name = name, svi_max_bytes = m,
           svi_max_volume_offset = 0, svi_read_only = False \<rparr> \<and>
         volume_of s' = (volume_of s)(svi_volume_id i \<mapsto> \<lparr> vr_volume_id = svi_volume_id i, vr_name = name,
           vr_max_bytes = m, vr_max_volume_offset = 0 \<rparr>) \<and>
         t_files (db_conn s') = t_files (db_conn s) \<and> t_dirs (db_conn s') = t_dirs (db_conn s)
     | Inl _ \<Rightarrow> s' = s)"
proof (cases "fits_i64 m \<and> (\<exists>rowid. next_rowid (t_volumes_seq (db_conn s)) (map vr_volume_id (t_volumes (db_conn s))) = Inr rowid)")
  case False
  then have "s' = s \<and> (\<exists>e. r = Inl e)"
    using res by (cases "next_rowid (t_volumes_seq (db_conn s)) (map vr_volume_id (t_volumes (db_conn s)))")
      (auto simp: create_volume_def st_bind_def exec_def insert_volume_def u64_to_i64_def fits_i64_def split: if_splits)
  with inv show ?thesis by auto
next
  case True
  then obtain rowid where m: "fits_i64 m" and
    rowid: "next_rowid (t_volumes_seq (db_conn s)) (map vr_volume_id (t_volumes (db_conn s))) = Inr rowid" by blast
  note R = next_rowid_Inr [OF rowid]
  let ?row = "\<lparr> vr_volume_id = rowid, vr_name = name, vr_max_bytes = m, vr_max_volume_offset = 0 \<rparr>"
  let ?s = "s\<lparr> db_conn := (db_conn s)\<lparr> t_volumes := t_volumes (db_conn s) @ [?row], t_volumes_seq := rowid \<rparr> \<rparr>"
  have ok: "links_ok (db_conn s)" by (rule db_invD(2) [OF inv])
  have new: "rowid \<notin> vr_volume_id ` set (t_volumes (db_conn s))" using R(3) by fastforce
  have "volumes_inv (db_conn ?s)"
    using ok m new R(1,3) by (auto simp: links_ok_def volumes_inv_def fits_i64_def [of 0] less_imp_le)
  then have "links_ok (db_conn ?s)"
    using ok unfolding links_ok_def by (auto simp: bundles_inv_def replicas_inv_def leases_inv_def events_inv_def)
  then have inv': "db_inv ?s" using db_invD(1) [OF inv] by (simp add: db_inv_def tree_ok_def dir_ok_def)
  have none: "volume_of s rowid = None" using new by (auto simp: volume_of_def find_None_iff)
  then have vo: "volume_of ?s = (volume_of s)(rowid \<mapsto> ?row)"
  proof -
    have "volume_of ?s w = ((volume_of s)(rowid \<mapsto> ?row)) w" for w
      using none by (cases "w = rowid") (simp_all add: volume_of_def find_append split: option.splits)
    then show ?thesis by blast
  qed
  have "create_volume name m s = (Inr (volume_info ?row), ?s)"
    using m rowid R(1) get_volume_spec [OF inv' R(1)] vo i64_to_u64_Inr_iff [of rowid "''volume_id''" rowid]
    by (simp add: create_volume_def st_bind_def exec_def insert_volume_def u64_to_i64_def fits_i64_def)
  with res inv' vo none show ?thesis by (auto simp: volume_info_def)
qed

end
