(* ===== verification/Central_Event.thy ===== *)
theory Central_Event
  imports Central_Lease
begin

text \<open>
  The log of file changes, \<^verbatim>\<open>fs0-central/src/db/event.rs\<close>: appending an event and reading the events after a given
  one, a page at a time.
\<close>

section \<open>Operations\<close>

fun file_change_log_kind_str :: "file_change_log_kind \<Rightarrow> string" where
  "file_change_log_kind_str file_change_log_kind.Created = ''created''"
| "file_change_log_kind_str file_change_log_kind.Updated = ''updated''"
| "file_change_log_kind_str file_change_log_kind.Moved = ''moved''"
| "file_change_log_kind_str file_change_log_kind.Deleted = ''deleted''"

definition insert_file_change_log ::
    "file_change_log_kind \<Rightarrow> (string \<times> string) option \<Rightarrow> u64 option \<Rightarrow> u64 \<Rightarrow> unit tx" where
  "insert_file_change_log kind new_target file_id created_at_ms =
     st_bind (st_lift (case file_id of None \<Rightarrow> Inr None
        | Some i \<Rightarrow> res_bind (u64_to_i64 i ''file_id'') (\<lambda>j. Inr (Some j)))) (\<lambda>fid.
     st_bind (st_lift (u64_to_i64 created_at_ms ''created_at_ms'')) (\<lambda>at.
     st_bind (exec (insert_event (file_change_log_kind_str kind) (map_option fst new_target) (map_option snd new_target) fid at)) (\<lambda>_.
     st_return ())))"

definition parse_event_type :: "string \<Rightarrow> file_change_log_kind fs0_result" where
  "parse_event_type event_type =
     (if event_type = ''created'' then Inr file_change_log_kind.Created
      else if event_type = ''updated'' then Inr file_change_log_kind.Updated
      else if event_type = ''moved'' then Inr file_change_log_kind.Moved
      else if event_type = ''deleted'' then Inr file_change_log_kind.Deleted
      else Inl (conversion_failure 1 ''Text'' (''invalid file event type '' @ event_type)))"

definition row_to_file_change_log :: "event_row \<Rightarrow> file_change_log fs0_result" where
  "row_to_file_change_log r =
     res_bind (row_u64 0 ''event_id'' (er_event_id r)) (\<lambda>event_id.
     res_bind (parse_event_type (er_event_type r)) (\<lambda>kind.
     res_bind (row_optional_u64 2 ''file_id'' (er_file_id r)) (\<lambda>file_id.
     res_bind (case (er_new_dir r, er_new_name r) of
         (Some dir, Some name) \<Rightarrow> res_bind (join_fs0_path dir name) (\<lambda>p. Inr (Some p))
       | _ \<Rightarrow> Inr None) (\<lambda>new_path.
     res_bind (row_u64 5 ''created_at_ms'' (er_created_at_ms r)) (\<lambda>created_at_ms.
     Inr \<lparr> fcl_event_id = event_id, fcl_kind = kind, fcl_file_id = file_id, fcl_new_path = new_path,
       fcl_created_at_ms = created_at_ms \<rparr>)))))"

definition get_file_change_logs :: "u64 \<Rightarrow> u32 \<Rightarrow> file_change_logs tx" where
  "get_file_change_logs after_event_id limit =
     (let limit = clamp_limit limit in
     st_bind (st_lift (u64_to_i64 after_event_id ''after_event_id'')) (\<lambda>after.
     st_bind (st_lift (u64_to_i64 (of_nat limit + 1) ''limit'')) (\<lambda>sql_limit.
     st_bind (query_map (\<lambda>t. take (unat sql_limit)
        (sort_key er_event_id (filter (\<lambda>r. after < er_event_id r) (t_events t)))) row_to_file_change_log) (\<lambda>events.
     st_return (if length events > limit
        then \<lparr> fcls_operations = take limit events,
               fcls_next_event_id = (if take limit events = [] then None else Some (fcl_event_id (last (take limit events)))) \<rparr>
        else \<lparr> fcls_operations = events, fcls_next_event_id = None \<rparr>)))))"

section \<open>The log as a list\<close>

definition log_entry :: "event_row \<Rightarrow> file_change_log" where
  "log_entry r = \<lparr> fcl_event_id = er_event_id r,
     fcl_kind = (if er_event_type r = ''created'' then file_change_log_kind.Created
       else if er_event_type r = ''updated'' then file_change_log_kind.Updated
       else if er_event_type r = ''moved'' then file_change_log_kind.Moved else file_change_log_kind.Deleted),
     fcl_file_id = er_file_id r,
     fcl_new_path = (case (er_new_dir r, er_new_name r) of
         (Some dir, Some name) \<Rightarrow> Some (if dir = ''/'' then ''/'' @ name else dir @ ''/'' @ name)
       | _ \<Rightarrow> None),
     fcl_created_at_ms = er_created_at_ms r \<rparr>"

definition change_log :: "central_db \<Rightarrow> file_change_log list" where
  "change_log s = map log_entry (t_events (db_conn s))"

lemma row_to_file_change_log_ok:
  assumes inv: "events_inv t" and r: "r \<in> set (t_events t)"
  shows "row_to_file_change_log r = Inr (log_entry r)"
proof -
  have "fits_i64 (er_event_id r)" "er_event_type r \<in> set event_types" "fits_i64 (er_created_at_ms r)"
      "case er_file_id r of None \<Rightarrow> True | Some i \<Rightarrow> fits_i64 i"
    using inv r fits_mono by (auto simp: events_inv_def)
  then show ?thesis
    by (auto simp: row_to_file_change_log_def log_entry_def parse_event_type_def event_types_def row_u64_fits
        row_optional_u64_def join_fs0_path_def split: option.splits)
qed

lemma insert_file_change_log_spec:
  assumes inv: "db_inv s" and at: "fits_i64 at" and fid: "\<And>i. fid = Some i \<Longrightarrow> fits_i64 i"
    and res: "insert_file_change_log kind target fid at s = (r, s')"
  shows "db_inv s' \<and>
    (case r of
       Inr _ \<Rightarrow> \<exists>i. (\<forall>e\<in>set (change_log s). fcl_event_id e < i) \<and>
         s' = s\<lparr> db_conn := (db_conn s)\<lparr> t_events := t_events (db_conn s'), t_events_seq := i \<rparr> \<rparr> \<and>
         change_log s' = change_log s @ [\<lparr> fcl_event_id = i, fcl_kind = kind, fcl_file_id = fid,
           fcl_new_path = map_option (\<lambda>(dir, name). if dir = ''/'' then ''/'' @ name else dir @ ''/'' @ name) target,
           fcl_created_at_ms = at \<rparr>]
     | Inl e \<Rightarrow> s' = s \<and> e = Sqlite ''database or disk is full'')"
proof (cases "next_rowid (t_events_seq (db_conn s)) (map er_event_id (t_events (db_conn s)))")
  case (Inl e)
  then have "s' = s \<and> r = Inl (Sqlite ''database or disk is full'')"
    using res at fid next_rowid_Inl [OF Inl]
    by (cases fid) (auto simp: insert_file_change_log_def st_bind_def exec_def insert_event_def u64_to_i64_def fits_i64_def)
  with inv show ?thesis by auto
next
  case (Inr i)
  note R = next_rowid_Inr [OF Inr]
  let ?row = "\<lparr> er_event_id = i, er_event_type = file_change_log_kind_str kind, er_new_dir = map_option fst target,
      er_new_name = map_option snd target, er_file_id = fid, er_created_at_ms = at \<rparr>"
  let ?s = "s\<lparr> db_conn := (db_conn s)\<lparr> t_events := t_events (db_conn s) @ [?row], t_events_seq := i \<rparr> \<rparr>"
  have rs: "r = Inr ()" "s' = ?s"
    using res at fid Inr
    by (cases fid; auto simp: insert_file_change_log_def st_bind_def exec_def insert_event_def u64_to_i64_def fits_i64_def)+
  have ok: "links_ok (db_conn s)" by (rule db_invD(2) [OF inv])
  have "file_change_log_kind_str kind \<in> set event_types" by (cases kind) (simp_all add: event_types_def)
  then have "events_inv (db_conn ?s)"
    using ok at fid R(1,3) by (auto simp: links_ok_def events_inv_def sorted_wrt_append less_imp_le split: option.splits)
  then have "links_ok (db_conn ?s)"
    using ok unfolding links_ok_def by (auto simp: bundles_inv_def replicas_inv_def leases_inv_def volumes_inv_def)
  then have "db_inv ?s" using db_invD(1) [OF inv] by (simp add: db_inv_def tree_ok_def dir_ok_def)
  moreover have "\<forall>e\<in>set (change_log s). fcl_event_id e < i"
    using R(3) by (auto simp: change_log_def log_entry_def)
  moreover have "log_entry ?row = \<lparr> fcl_event_id = i, fcl_kind = kind, fcl_file_id = fid,
      fcl_new_path = map_option (\<lambda>(dir, name). if dir = ''/'' then ''/'' @ name else dir @ ''/'' @ name) target,
      fcl_created_at_ms = at \<rparr>"
    by (cases kind; cases target) (auto simp: log_entry_def)
  ultimately show ?thesis
    unfolding rs by (auto simp: change_log_def)
qed

text \<open>A page of the log is the events after the given one, up to the limit; the cursor is given
  exactly when there are more, and reading on from it yields what is left.\<close>

definition events_after :: "central_db \<Rightarrow> u64 \<Rightarrow> file_change_log list" where
  "events_after s i = filter (\<lambda>e. i < fcl_event_id e) (change_log s)"

lemma change_log_sorted: "db_inv s \<Longrightarrow> sorted_wrt (<) (map fcl_event_id (change_log s))"
  by (simp add: db_inv_def links_ok_def events_inv_def change_log_def log_entry_def comp_def)

lemma get_file_change_logs_spec:
  assumes inv: "db_inv s" and i: "fits_i64 i"
  shows "get_file_change_logs i limit s =
    (let page = take (clamp_limit limit) (events_after s i) in
     (Inr \<lparr> fcls_operations = page,
            fcls_next_event_id = (if clamp_limit limit < length (events_after s i) then Some (fcl_event_id (last page)) else None) \<rparr>, s))"
proof -
  let ?l = "clamp_limit limit" and ?es = "filter (\<lambda>r. i < er_event_id r) (t_events (db_conn s))"
  have ev: "events_inv (db_conn s)" using db_invD(2) [OF inv] by (simp add: links_ok_def)
  then have "sorted_wrt (<) (map er_event_id (t_events (db_conn s)))" by (simp add: events_inv_def)
  then have "sorted (map er_event_id ?es)"
    by (intro strict_sorted_imp_sorted) (simp add: sorted_wrt_map sorted_wrt_filter)
  then have sort: "sort_key er_event_id ?es = ?es" by (rule sort_key_id_if_sorted)
  have after: "map log_entry ?es = events_after s i"
    by (simp add: events_after_def change_log_def filter_map comp_def log_entry_def)
  have "collect_rows row_to_file_change_log (take (Suc ?l) ?es) = Inr (take (Suc ?l) (events_after s i))"
  proof (subst collect_rows_ok [where g = log_entry])
    fix r
    assume "r \<in> set (take (Suc ?l) ?es)"
    then have "r \<in> set (t_events (db_conn s))" by (meson filter_is_subset in_set_takeD subsetD)
    then show "row_to_file_change_log r = Inr (log_entry r)" by (rule row_to_file_change_log_ok [OF ev])
  qed (simp add: after [symmetric] take_map)
  moreover have lim: "unat (of_nat ?l + 1 :: u64) = Suc ?l"
    using clamp_limit_bounds(2) [of limit] by (simp add: unat_word_ariths unat_of_nat)
  moreover have "u64_to_i64 (of_nat ?l + 1) nm = Inr (of_nat ?l + 1)" for nm
    using lim clamp_limit_bounds(2) [of limit] by (simp add: u64_to_i64_Inr_iff fits_i64_def)
  moreover have "u64_to_i64 i nm = Inr i" for nm using i by (simp add: u64_to_i64_Inr_iff)
  ultimately have eval: "get_file_change_logs i limit s =
      (let events = take (Suc ?l) (events_after s i) in
       (Inr (if length events > ?l
          then \<lparr> fcls_operations = take ?l events,
                 fcls_next_event_id = (if take ?l events = [] then None else Some (fcl_event_id (last (take ?l events)))) \<rparr>
          else \<lparr> fcls_operations = events, fcls_next_event_id = None \<rparr>), s))"
    by (simp add: get_file_change_logs_def st_bind_def query_map_def Let_def sort)
  show ?thesis
  proof (cases "?l < length (events_after s i)")
    case True
    then have "take ?l (events_after s i) \<noteq> []"
      using clamp_limit_bounds(1) [of limit] by (cases "events_after s i") (auto simp: take_Cons')
    with True eval show ?thesis by (simp add: Let_def min_def)
  next
    case False
    then show ?thesis unfolding eval by (simp add: Let_def)
  qed
qed

lemma events_after_page:
  assumes inv: "db_inv s" and n: "0 < n" "n < length (events_after s i)"
  shows "events_after s (fcl_event_id (last (take n (events_after s i)))) = drop n (events_after s i)"
proof -
  let ?es = "events_after s i"
  define j where "j = fcl_event_id (last (take n ?es))"
  have s: "sorted_wrt (\<lambda>a b. fcl_event_id a < fcl_event_id b) (change_log s)"
    using change_log_sorted [OF inv] by (simp add: sorted_wrt_map)
  then have es: "sorted_wrt (\<lambda>a b. fcl_event_id a < fcl_event_id b) (take n ?es @ drop n ?es)"
    by (simp add: events_after_def sorted_wrt_filter)
  have ne: "take n ?es \<noteq> []" using n by (cases ?es) (auto simp: take_Cons')
  then have inj: "last (take n ?es) \<in> set (take n ?es)" by simp
  then have "i < j" using set_take_subset [of n ?es] by (auto simp: j_def events_after_def)
  then have "events_after s j = filter (\<lambda>e. j < fcl_event_id e) ?es"
    by (auto simp: events_after_def intro!: filter_cong)
  also have "\<dots> = filter (\<lambda>e. j < fcl_event_id e) (take n ?es) @ filter (\<lambda>e. j < fcl_event_id e) (drop n ?es)"
    by (metis append_take_drop_id filter_append)
  also have "filter (\<lambda>e. j < fcl_event_id e) (take n ?es) = []"
  proof -
    obtain pre where pre: "take n ?es = pre @ [last (take n ?es)]" using ne by (metis append_butlast_last_id)
    have "fcl_event_id e \<le> j" if "e \<in> set (take n ?es)" for e
    proof -
      have "sorted_wrt (\<lambda>a b. fcl_event_id a < fcl_event_id b) (pre @ [last (take n ?es)])"
        using es pre by (simp add: sorted_wrt_append)
      then have "\<forall>e\<in>set pre. fcl_event_id e < j" by (simp add: sorted_wrt_append j_def)
      moreover have "e \<in> set pre \<or> e = last (take n ?es)"
        using that arg_cong [OF pre, of set] by auto
      ultimately show ?thesis by (auto simp: j_def less_imp_le)
    qed
    then show ?thesis by (auto simp: filter_empty_conv not_less)
  qed
  also have "filter (\<lambda>e. j < fcl_event_id e) (drop n ?es) = drop n ?es"
    using es inj unfolding sorted_wrt_append filter_id_conv j_def by blast
  finally show ?thesis by (simp add: j_def)
qed

end
