(* ===== verification/Central_Server.thy ===== *)
theory Central_Server
  imports Central_Event
begin

text \<open>
  The central server: its state (\<^verbatim>\<open>fs0-central/src/server.rs\<close>), registration of clients and storages, and the
  request handlers of \<^verbatim>\<open>request_handlers/client.rs\<close> and \<^verbatim>\<open>request_handlers/storage.rs\<close>. A handler is a computation on
  the server state; what it reads from outside (the clock, the outcome of each \<open>COMMIT\<close>, the answers of
  remote calls) is the argument \<open>env\<close>. Connections are numbers; events and requests sent and connections closed
  are recorded in the state.
\<close>

section \<open>State\<close>

type_synonym conn = nat

record client_control_connection =
  ccc_token :: string
  ccc_connection :: conn

record storage_control_connection =
  scc_peer :: storage_peer_info
  scc_connection :: conn

datatype control_connection_identity = Anonymous | Client u64 | Storage u64

record central_server =
  cs_auth_tokens :: "string list"
  cs_next_id :: u64
  cs_clients :: "(u64, client_control_connection) hmap"
  cs_storages :: "(u64, storage_control_connection) hmap"
  cs_online_volumes :: "(u64, u64) hmap"
  cs_db :: central_db
  cs_events :: "(conn \<times> protocol_event) list"
  cs_closed :: "conn list"
  cs_sent :: "(conn \<times> protocol_request) list"

definition central_server_init :: "string list \<Rightarrow> central_server" where
  "central_server_init tokens = \<lparr> cs_auth_tokens = tokens, cs_next_id = 1, cs_clients = [], cs_storages = [],
     cs_online_volumes = [], cs_db = central_db_open, cs_events = [], cs_closed = [], cs_sent = [] \<rparr>"

text \<open>The server over a database that was opened.\<close>

definition central_server_start :: "string list \<Rightarrow> central_db \<Rightarrow> central_server" where
  "central_server_start tokens db = (central_server_init tokens)\<lparr> cs_db := db \<rparr>"

type_synonym 'a handler = "(central_server, fs0_error, 'a) st"

text \<open>What happens outside: the \<open>n\<close>-th reading of the clock and the \<open>n\<close>-th commit of a handler, the answer
  of a remote call on a connection, and the \<open>Debug\<close> form of a response.\<close>

record env =
  ev_now :: "nat \<Rightarrow> u64"
  ev_commit :: "nat \<Rightarrow> fs0_error option"
  ev_rpc :: "conn \<Rightarrow> protocol_request \<Rightarrow> protocol_response fs0_result"
  ev_debug :: "protocol_response \<Rightarrow> string"

definition with_db :: "'a tx \<Rightarrow> 'a handler" where
  "with_db m = (\<lambda>s. case m (cs_db s) of (r, d) \<Rightarrow> (r, s\<lparr> cs_db := d \<rparr>))"

text \<open>A remote call on a connection: the request is sent, the answer comes from outside.\<close>

definition rpc :: "env \<Rightarrow> conn \<Rightarrow> protocol_request \<Rightarrow> protocol_response handler" where
  "rpc E connection request =
     (\<lambda>s. (ev_rpc E connection request, s\<lparr> cs_sent := cs_sent s @ [(connection, request)] \<rparr>))"

definition token_allowed :: "string \<Rightarrow> central_server \<Rightarrow> bool" where
  "token_allowed token s = list_ex (\<lambda>allowed. allowed = token) (cs_auth_tokens s)"

text \<open>\<open>fetch_add\<close> wraps around.\<close>

definition next_id :: "u64 handler" where
  "next_id = (\<lambda>s. (Inr (cs_next_id s), s\<lparr> cs_next_id := cs_next_id s + 1 \<rparr>))"

definition storage_peers_snapshot :: "central_server \<Rightarrow> storage_peer_info list" where
  "storage_peers_snapshot s = sort_key spi_storage_id (map (scc_peer \<circ> snd) (cs_storages s))"

definition storage_peer :: "u64 \<Rightarrow> central_server \<Rightarrow> storage_peer_info option" where
  "storage_peer storage_id s = map_option scc_peer (hm_get (cs_storages s) storage_id)"

definition broadcast_event :: "protocol_event \<Rightarrow> central_server \<Rightarrow> central_server" where
  "broadcast_event event s =
     s\<lparr> cs_events := cs_events s @ map (\<lambda>c. (c, event))
       (map (ccc_connection \<circ> snd) (cs_clients s) @ map (scc_connection \<circ> snd) (cs_storages s)) \<rparr>"

section \<open>Registration\<close>

definition register_client :: "string \<Rightarrow> conn \<Rightarrow> (u64 \<times> storage_peer_info list) handler" where
  "register_client token connection =
     st_bind (st_gets (token_allowed token)) (\<lambda>allowed.
     if \<not> allowed then st_throw Unauthorized
     else
       st_bind next_id (\<lambda>client_id.
       st_bind (st_modify (\<lambda>s. s\<lparr> cs_clients :=
          hm_insert client_id \<lparr> ccc_token = token, ccc_connection = connection \<rparr> (cs_clients s) \<rparr>)) (\<lambda>_.
       st_bind (st_gets storage_peers_snapshot) (\<lambda>peers. st_return (client_id, peers)))))"

definition unregister_client :: "u64 \<Rightarrow> central_server \<Rightarrow> central_server" where
  "unregister_client client_id s =
     (case hm_get (cs_clients s) client_id of
        None \<Rightarrow> s
      | Some client \<Rightarrow> s\<lparr> cs_clients := hm_remove client_id (cs_clients s),
          cs_closed := cs_closed s @ [ccc_connection client] \<rparr>)"

text \<open>The loop over the volumes of \<open>register_storage\<close>, which completes each with what the database knows.\<close>

fun register_volumes :: "storage_volume_info list \<Rightarrow> storage_volume_info list tx" where
  "register_volumes [] = st_return []"
| "register_volumes (volume # volumes) =
     st_bind (get_volume (svi_volume_id volume)) (\<lambda>registered.
     let off = max (svi_max_volume_offset registered) (svi_max_volume_offset volume) in
     st_bind (if off \<noteq> svi_max_volume_offset registered
              then st_bind (update_volume_offset (svi_volume_id volume) off) (\<lambda>_. st_return ())
              else st_return ()) (\<lambda>_.
     if svi_max_bytes registered \<noteq> svi_max_bytes volume then st_throw InvalidRequest
     else
       st_bind (register_volumes volumes) (\<lambda>rest.
       st_return (volume\<lparr> svi_name := svi_name registered, svi_max_volume_offset := off \<rparr> # rest))))"

definition mount_volumes :: "u64 \<Rightarrow> storage_volume_info list \<Rightarrow> unit handler" where
  "mount_volumes storage_id volumes = (\<lambda>s.
     if list_ex (\<lambda>v. hm_get (cs_online_volumes s) (svi_volume_id v) \<noteq> None) volumes
     then (Inl VolumeAlreadyMounted, s)
     else (Inr (), s\<lparr> cs_online_volumes :=
        fold (\<lambda>v. hm_insert (svi_volume_id v) storage_id) volumes (cs_online_volumes s) \<rparr>))"

definition register_storage ::
    "env \<Rightarrow> string \<Rightarrow> string \<Rightarrow> storage_volume_info list \<Rightarrow> u8 list \<Rightarrow> conn \<Rightarrow> (u64 \<times> storage_peer_info list) handler" where
  "register_storage E name token volumes iroh_endpoint connection =
     st_bind (st_gets (token_allowed token)) (\<lambda>allowed.
     if \<not> allowed then st_throw Unauthorized
     else
       st_bind (with_db (run_tx (ev_commit E 0) (register_volumes volumes))) (\<lambda>volumes.
       st_bind next_id (\<lambda>storage_id.
       let peer = \<lparr> spi_storage_id = storage_id, spi_name = name, spi_volumes = volumes, spi_iroh_endpoint = iroh_endpoint \<rparr> in
       st_bind (mount_volumes storage_id volumes) (\<lambda>_.
       st_bind (st_modify (\<lambda>s. s\<lparr> cs_storages :=
          hm_insert storage_id \<lparr> scc_peer = peer, scc_connection = connection \<rparr> (cs_storages s) \<rparr>)) (\<lambda>_.
       st_bind (st_gets storage_peers_snapshot) (\<lambda>peers. st_return (storage_id, peers)))))))"

definition unregister_storage :: "u64 \<Rightarrow> central_server \<Rightarrow> protocol_event option \<times> central_server" where
  "unregister_storage storage_id s =
     (let (removed, s1) =
        (case hm_get (cs_storages s) storage_id of
           None \<Rightarrow> (False, s)
         | Some storage \<Rightarrow> (True, s\<lparr> cs_storages := hm_remove storage_id (cs_storages s),
             cs_closed := cs_closed s @ [scc_connection storage] \<rparr>));
        s2 = s1\<lparr> cs_online_volumes := filter (\<lambda>(v, mounted). mounted \<noteq> storage_id) (cs_online_volumes s1) \<rparr>
      in (if removed then Some (StorageRemoved storage_id) else None, s2))"

fun unregister_identity :: "control_connection_identity \<Rightarrow> central_server \<Rightarrow> protocol_event option \<times> central_server" where
  "unregister_identity Anonymous s = (None, s)"
| "unregister_identity (Client client_id) s = (None, unregister_client client_id s)"
| "unregister_identity (Storage storage_id) s = unregister_storage storage_id s"

section \<open>Client requests\<close>

definition central_status :: "control_response handler" where
  "central_status =
     st_gets (\<lambda>s. control_response.CentralStatus (of_nat (length (cs_clients s))) (storage_peers_snapshot s))"

definition handle_list_directory :: "env \<Rightarrow> string \<Rightarrow> u32 \<Rightarrow> u64 option \<Rightarrow> control_response handler" where
  "handle_list_directory E dir limit cursor =
     st_bind (with_db (run_tx (ev_commit E 0) (list_directory dir limit cursor))) (\<lambda>entries.
     st_return (control_response.ListDirectory entries))"

definition file_id_by_path :: "string \<Rightarrow> u64 handler" where
  "file_id_by_path path =
     with_db (run_read_tx (st_bind (get_file_by_path path) (\<lambda>file. st_return (fr_file_id file))))"

record bundle_read_target =
  brt_raw_len :: u64
  brt_compressed_len :: u64
  brt_replicas :: "replica_location list"

definition add_replica ::
    "(u64, u64) hmap \<Rightarrow> bundle_replica_row \<Rightarrow> (hash_id, bundle_read_target) hmap \<Rightarrow> (hash_id, bundle_read_target) hmap" where
  "add_replica online replica m =
     (case hm_get online (br_volume_id replica) of
        None \<Rightarrow> m
      | Some storage_id \<Rightarrow>
          let bundle = (case hm_get m (br_bundle_id replica) of
                Some b \<Rightarrow> b
              | None \<Rightarrow> \<lparr> brt_raw_len = br_raw_len replica, brt_compressed_len = br_compressed_len replica, brt_replicas = [] \<rparr>)
          in hm_insert (br_bundle_id replica) (bundle\<lparr> brt_replicas := brt_replicas bundle @
               [\<lparr> rl_storage_id = storage_id, rl_volume_id = br_volume_id replica \<rparr>] \<rparr>) m)"

fun plan_bundles ::
    "(hash_id, bundle_read_target) hmap \<Rightarrow> file_bundle_entry list \<Rightarrow> (file_bundle_ref list) fs0_result" where
  "plan_bundles targets [] = Inr []"
| "plan_bundles targets (fb # fbs) =
     res_bind (ok_or ChunkNotReady (hm_get targets (fbe_bundle_id fb))) (\<lambda>bundle.
     res_bind (plan_bundles targets fbs) (\<lambda>rest.
     Inr (\<lparr> fbr_bundle_index = fbe_bundle_index fb, fbr_raw_len = brt_raw_len bundle,
            fbr_compressed_len = brt_compressed_len bundle, fbr_bundle_id = fbe_bundle_id fb,
            fbr_replicas = brt_replicas bundle \<rparr> # rest)))"

text \<open>The distinct bundles of a file come from a \<open>HashSet\<close>, whose order is not specified; here they are in the
  order of their last occurrence.\<close>

definition read_plan_tx :: "(u64, u64) hmap \<Rightarrow> u64 \<Rightarrow> file_read_plan tx" where
  "read_plan_tx online file_id =
     st_bind (get_file_by_id file_id) (\<lambda>file.
     st_bind (file_record_of file) (\<lambda>record.
     st_bind (get_file_bundles_by_file_id file_id) (\<lambda>file_bundles.
     st_bind (get_bundle_replicas_by_id (remdups (map fbe_bundle_id file_bundles))) (\<lambda>replicas.
     st_bind (st_lift (plan_bundles (fold (add_replica online) replicas []) file_bundles)) (\<lambda>bundles.
     st_return \<lparr> frp_file_id = frec_file_id record, frp_path = frec_path record, frp_size = frec_size_bytes record,
       frp_bundles = bundles \<rparr>)))))"

definition get_file_read_plan_by_id :: "u64 \<Rightarrow> control_response handler" where
  "get_file_read_plan_by_id file_id =
     st_bind (st_gets cs_online_volumes) (\<lambda>online.
     st_bind (with_db (run_read_tx (read_plan_tx online file_id))) (\<lambda>plan.
     st_return (control_response.GetFileReadPlanById plan)))"

definition get_file_read_plan :: "string \<Rightarrow> control_response handler" where
  "get_file_read_plan path = st_bind (file_id_by_path path) get_file_read_plan_by_id"

definition handle_has_bundle :: "hash_id \<Rightarrow> u64 option \<Rightarrow> control_response handler" where
  "handle_has_bundle bundle_id volume_id =
     st_bind (with_db (run_read_tx (get_bundle_replicas_by_id [bundle_id]))) (\<lambda>replicas.
     st_return (control_response.HasBundle
       (list_ex (\<lambda>r. case volume_id of None \<Rightarrow> True | Some v \<Rightarrow> br_volume_id r = v) replicas)))"

definition delete_file_tx :: "u64 \<Rightarrow> u64 \<Rightarrow> unit tx" where
  "delete_file_tx file_id now =
     st_bind (delete_file_bundles_by_file_id file_id) (\<lambda>_.
     st_bind (delete_file_by_id file_id) (\<lambda>_.
     insert_file_change_log file_change_log_kind.Deleted None (Some file_id) now))"

definition handle_delete_file_by_id :: "env \<Rightarrow> u64 \<Rightarrow> control_response handler" where
  "handle_delete_file_by_id E file_id =
     st_bind (with_db (run_tx (ev_commit E 0) (delete_file_tx file_id (ev_now E 0)))) (\<lambda>_.
     st_return control_response.DeleteFileById)"

definition handle_delete_file :: "env \<Rightarrow> string \<Rightarrow> control_response handler" where
  "handle_delete_file E path = st_bind (file_id_by_path path) (handle_delete_file_by_id E)"

definition copy_file_tx :: "u64 \<Rightarrow> string \<Rightarrow> u64 \<Rightarrow> file_record tx" where
  "copy_file_tx source_file_id target_path now =
     st_bind (st_lift (split_fs0_path_dir_and_name target_path)) (\<lambda>(target_dir, target_name).
     st_bind (copy_file_by_id source_file_id target_path now) (\<lambda>file.
     st_bind (copy_file_bundles source_file_id (fr_file_id file)) (\<lambda>_.
     st_bind (insert_file_change_log file_change_log_kind.Created (Some (target_dir, target_name)) (Some (fr_file_id file)) now) (\<lambda>_.
     file_record_of file))))"

definition handle_copy_file_by_id :: "env \<Rightarrow> u64 \<Rightarrow> string \<Rightarrow> control_response handler" where
  "handle_copy_file_by_id E source_file_id target_path =
     st_bind (with_db (run_tx (ev_commit E 0) (copy_file_tx source_file_id target_path (ev_now E 0)))) (\<lambda>record.
     st_return (control_response.CopyFileById record))"

definition handle_copy_file :: "env \<Rightarrow> string \<Rightarrow> string \<Rightarrow> control_response handler" where
  "handle_copy_file E source_path target_path =
     st_bind (file_id_by_path source_path) (\<lambda>source_file_id. handle_copy_file_by_id E source_file_id target_path)"

definition rename_file_tx :: "u64 \<Rightarrow> string \<Rightarrow> u64 \<Rightarrow> file_record tx" where
  "rename_file_tx file_id target_path now =
     st_bind (st_lift (split_fs0_path_dir_and_name target_path)) (\<lambda>(target_dir, target_name).
     st_bind (rename_file_by_id file_id target_path now) (\<lambda>file.
     st_bind (insert_file_change_log file_change_log_kind.Moved (Some (target_dir, target_name)) (Some file_id) now) (\<lambda>_.
     file_record_of file)))"

definition handle_rename_file_by_id :: "env \<Rightarrow> u64 \<Rightarrow> string \<Rightarrow> control_response handler" where
  "handle_rename_file_by_id E file_id target_path =
     st_bind (with_db (run_tx (ev_commit E 0) (rename_file_tx file_id target_path (ev_now E 0)))) (\<lambda>record.
     st_return (control_response.RenameFileById record))"

definition handle_rename_file :: "env \<Rightarrow> string \<Rightarrow> string \<Rightarrow> control_response handler" where
  "handle_rename_file E source_path target_path =
     st_bind (file_id_by_path source_path) (\<lambda>file_id. handle_rename_file_by_id E file_id target_path)"

definition handle_get_file_change_logs :: "u64 \<Rightarrow> u32 \<Rightarrow> control_response handler" where
  "handle_get_file_change_logs after_event_id limit =
     st_bind (with_db (run_read_tx (get_file_change_logs after_event_id limit))) (\<lambda>logs.
     st_return (control_response.GetFileChangeLogs logs))"

section \<open>Storage requests\<close>

definition validate_client_auth :: "u64 \<Rightarrow> string \<Rightarrow> control_response handler" where
  "validate_client_auth client_id client_token =
     st_bind (st_gets (\<lambda>s. hm_get (cs_clients s) client_id)) (\<lambda>found.
     case found of
       None \<Rightarrow> st_throw Unauthorized
     | Some client \<Rightarrow>
         if ccc_token client = client_token then st_return (control_response.ValidateClientAuth client_id)
         else st_throw Unauthorized)"

definition handle_create_volume :: "env \<Rightarrow> string \<Rightarrow> u64 \<Rightarrow> control_response handler" where
  "handle_create_volume E name max_bytes =
     st_bind (with_db (run_tx (ev_commit E 0) (create_volume name max_bytes))) (\<lambda>volume.
     st_return (control_response.CreateVolume (svi_volume_id volume)))"

definition apply_replica_event :: "bundle_replica_event \<Rightarrow> unit tx" where
  "apply_replica_event event =
     (case bre_kind event of
        bundle_replica_event_kind.Stored \<Rightarrow>
          st_bind (st_lift (ok_or InvalidRequest (bre_raw_len event))) (\<lambda>raw_len.
          st_bind (st_lift (ok_or InvalidRequest (bre_compressed_len event))) (\<lambda>compressed_len.
          insert_bundle_replica (bre_bundle_id event) (bre_volume_id event) raw_len compressed_len))
      | bundle_replica_event_kind.Deleted \<Rightarrow> delete_bundle_replica (bre_bundle_id event) (bre_volume_id event))"

definition report_bundle_replica :: "env \<Rightarrow> u64 \<Rightarrow> bundle_replica_event list \<Rightarrow> control_response handler" where
  "report_bundle_replica E storage_id events =
     st_bind (st_gets cs_online_volumes) (\<lambda>online.
     if list_ex (\<lambda>event. hm_get online (bre_volume_id event) \<noteq> Some storage_id) events then st_throw InvalidRequest
     else
       st_bind (with_db (run_tx (ev_commit E 0) (st_iter apply_replica_event events))) (\<lambda>_.
       st_return control_response.ReportBundleReplica))"

definition update_storage_endpoint :: "u64 \<Rightarrow> u8 list \<Rightarrow> control_response handler" where
  "update_storage_endpoint storage_id iroh_endpoint =
     st_bind (st_gets (\<lambda>s. hm_get (cs_storages s) storage_id)) (\<lambda>found.
     st_bind (st_lift (ok_or NotFound found)) (\<lambda>storage.
     st_bind (st_modify (\<lambda>s. s\<lparr> cs_storages := hm_insert storage_id
        (storage\<lparr> scc_peer := (scc_peer storage)\<lparr> spi_iroh_endpoint := iroh_endpoint \<rparr> \<rparr>) (cs_storages s) \<rparr>)) (\<lambda>_.
     st_return control_response.UpdateStorageEndpoint)))"

text \<open>\<open>iter_mut().find(..)\<close>: the first volume with the identifier is changed.\<close>

fun update_first_volume ::
    "u64 \<Rightarrow> (storage_volume_info \<Rightarrow> storage_volume_info) \<Rightarrow> storage_volume_info list \<Rightarrow> storage_volume_info list option" where
  "update_first_volume i f [] = None"
| "update_first_volume i f (v # vs) =
     (if svi_volume_id v = i then Some (f v # vs) else map_option (\<lambda>r. v # r) (update_first_volume i f vs))"

definition update_storage_volume_offset :: "env \<Rightarrow> u64 \<Rightarrow> u64 \<Rightarrow> u64 \<Rightarrow> control_response handler" where
  "update_storage_volume_offset E storage_id volume_id max_volume_offset =
     st_bind (with_db (run_tx (ev_commit E 0) (update_volume_offset volume_id max_volume_offset))) (\<lambda>registered.
     st_bind (st_gets (\<lambda>s. hm_get (cs_storages s) storage_id)) (\<lambda>found.
     st_bind (st_lift (ok_or NotFound found)) (\<lambda>storage.
     st_bind (st_lift (ok_or NotFound (update_first_volume volume_id
        (\<lambda>v. v\<lparr> svi_name := svi_name registered, svi_max_bytes := svi_max_bytes registered,
               svi_max_volume_offset := svi_max_volume_offset registered \<rparr>) (spi_volumes (scc_peer storage))))) (\<lambda>volumes.
     st_bind (st_modify (\<lambda>s. s\<lparr> cs_storages := hm_insert storage_id
        (storage\<lparr> scc_peer := (scc_peer storage)\<lparr> spi_volumes := volumes \<rparr> \<rparr>) (cs_storages s) \<rparr>)) (\<lambda>_.
     st_return control_response.UpdateStorageVolumeOffset)))))"

end
