(* ===== verification/Central_Update.thy ===== *)
theory Central_Update
  imports Central_Server
begin

text \<open>
  File updates on the central server, \<^verbatim>\<open>fs0-central/src/request_handlers/update.rs\<close>, and the dispatch of control
  requests, \<^verbatim>\<open>request_handlers.rs\<close>. The handlers that call a storage are written in the phases between which the
  database lock is released.
\<close>

section \<open>The usage of a volume, in binary64 arithmetic\<close>

text \<open>
  \<open>max_volume_offset as f64 / max_bytes as f64 >= 0.95\<close>: both conversions and the quotient are rounded to
  the nearest number with a significand of 53 bits, ties to even. The double nearest to 0.95 is
  \<open>8556839292003942 / 2 ^ 53\<close>.
\<close>

fun bit_len :: "nat \<Rightarrow> nat" where
  "bit_len n = (if n = 0 then 0 else Suc (bit_len (n div 2)))"

declare bit_len.simps [simp del]

definition round_half_even :: "nat \<Rightarrow> nat \<Rightarrow> nat" where
  "round_half_even n d =
     (let q = n div d; r = n mod d in if 2 * r < d \<or> (2 * r = d \<and> even q) then q else Suc q)"

definition u64_as_f64 :: "u64 \<Rightarrow> nat" where
  "u64_as_f64 v = (let k = bit_len (unat v) - 53 in round_half_even (unat v) (2 ^ k) * 2 ^ k)"

text \<open>The quotient as significand and binary exponent: \<open>m * 2 ^ (- s)\<close>.\<close>

definition f64_div :: "nat \<Rightarrow> nat \<Rightarrow> nat \<times> int" where
  "f64_div a b =
     (if a = 0 then (0, 0)
      else
        let s = 53 + int (bit_len b) - int (bit_len a);
            s' = (if a * 2 ^ nat s \<ge> b * 2 ^ nat (- s) * 2 ^ 53 then s - 1 else s)
        in (round_half_even (a * 2 ^ nat s') (b * 2 ^ nat (- s')), s'))"

definition f64_ge :: "nat \<times> int \<Rightarrow> nat \<times> int \<Rightarrow> bool" where
  "f64_ge x y =
     (case (x, y) of ((m, s), (c, t)) \<Rightarrow> c * 2 ^ nat (s - t) \<le> m * 2 ^ nat (t - s))"

definition UPDATE_VOLUME_USAGE_THRESHOLD :: "nat \<times> int" where
  "UPDATE_VOLUME_USAGE_THRESHOLD = (8556839292003942, 53)"

definition usage_exceeded :: "storage_volume_info \<Rightarrow> bool" where
  "usage_exceeded v =
     f64_ge (f64_div (u64_as_f64 (svi_max_volume_offset v)) (u64_as_f64 (svi_max_bytes v))) UPDATE_VOLUME_USAGE_THRESHOLD"

section \<open>Beginning an update\<close>

definition skip_volume :: "begin_update_request \<Rightarrow> storage_volume_info \<Rightarrow> bool" where
  "skip_volume request volume \<longleftrightarrow>
     svi_read_only volume \<or> svi_max_bytes volume = 0 \<or> usage_exceeded volume \<or>
     (case bur_update_size_hint request of
        None \<Rightarrow> False
      | Some sz \<Rightarrow> saturating_sub (svi_max_bytes volume) (svi_max_volume_offset volume) < sz)"

text \<open>The two loops over storages and their volumes; the preferred name ends both.\<close>

fun select_volume ::
    "begin_update_request \<Rightarrow> (u64 \<times> storage_volume_info) list \<Rightarrow> (u64 \<times> u64) option \<Rightarrow> (u64 \<times> u64) option" where
  "select_volume request [] candidate = candidate"
| "select_volume request ((storage_id, volume) # rest) candidate =
     (if skip_volume request volume then select_volume request rest candidate
      else
        let candidate = (if candidate = None then Some (storage_id, svi_volume_id volume) else candidate)
        in if bur_prefer_volume_name request = Some (svi_name volume)
           then Some (storage_id, svi_volume_id volume)
           else select_volume request rest candidate)"

definition peer_volumes :: "storage_peer_info list \<Rightarrow> (u64 \<times> storage_volume_info) list" where
  "peer_volumes peers = concat (map (\<lambda>p. map (\<lambda>v. (spi_storage_id p, v)) (spi_volumes p)) peers)"

text \<open>The transaction of \<open>begin_update\<close>: the file, created when it is missing, and its lease.\<close>

definition begin_update_file :: "begin_update_request \<Rightarrow> u64 \<Rightarrow> (file_row \<times> u64) tx" where
  "begin_update_file request now = (\<lambda>s.
     case get_file_by_path (bur_path request) s of
       (Inr file, s') \<Rightarrow>
         if bur_offset request > fr_size_bytes file then (Inl InvalidRequest, s')
         else (Inr (file, fr_size_bytes file), s')
     | (Inl NotFound, s') \<Rightarrow>
         if bur_offset request \<noteq> 0 then (Inl NotFound, s')
         else st_bind (create_file (bur_path request) now) (\<lambda>file. st_return (file, 0)) s'
     | (Inl err, s') \<Rightarrow> (Inl err, s'))"

definition begin_update_tx :: "begin_update_request \<Rightarrow> u64 \<Rightarrow> u64 \<Rightarrow> update_lease tx" where
  "begin_update_tx request volume_id now =
     (let expires_at_ms = now + UPDATE_LEASE_TTL_MS in
     st_bind (begin_update_file request now) (\<lambda>(file, base_size).
     st_bind (delete_expired_update_leases now) (\<lambda>_.
     st_bind (file_has_active_update_lease (fr_file_id file)) (\<lambda>active.
     if active then st_throw (AlreadyExists (bur_path request))
     else create_update_lease \<lparr> cul_file_id = fr_file_id file, cul_volume_id = volume_id,
        cul_base_size_bytes = base_size, cul_offset_bytes = bur_offset request,
        cul_prefer_volume_name = bur_prefer_volume_name request, cul_expires_at_ms = expires_at_ms,
        cul_created_at_ms = now \<rparr>))))"

text \<open>First phase: choose a storage and take the lease.\<close>

definition begin_update_prepare :: "env \<Rightarrow> begin_update_request \<Rightarrow> (u64 \<times> update_lease) handler" where
  "begin_update_prepare E request =
     st_bind (st_gets storage_peers_snapshot) (\<lambda>peers.
     case select_volume request (peer_volumes peers) None of
       None \<Rightarrow> st_throw (NoAvailableVolume (bur_prefer_volume_name request) (bur_update_size_hint request))
     | Some (storage_id, volume_id) \<Rightarrow>
         st_bind (with_db (run_tx (ev_commit E 0) (begin_update_tx request volume_id (ev_now E 0)))) (\<lambda>lease.
         st_return (storage_id, lease)))"

definition grant_request :: "update_lease \<Rightarrow> protocol_request" where
  "grant_request lease = protocol_request.Control (control_request.GrantUploadLease
     \<lparr> gul_lease_id = ul_lease_id lease, gul_file_id = ul_file_id lease, gul_volume_id = ul_volume_id lease,
       gul_base_size = ul_base_size lease, gul_expires_at_ms = ul_expires_at_ms lease,
       gul_prefer_volume_name = ul_prefer_volume_name lease \<rparr>)"

definition grant_answer :: "env \<Rightarrow> update_lease \<Rightarrow> protocol_response fs0_result \<Rightarrow> unit fs0_result" where
  "grant_answer E lease answer =
     res_bind answer (\<lambda>response.
     case response of
       protocol_response.Control (control_response.GrantUploadLease lease_id) \<Rightarrow>
         if lease_id = ul_lease_id lease then Inr ()
         else Inl (InvalidFrame (''unexpected grant upload lease response: '' @ ev_debug E response))
     | protocol_response.Error err \<Rightarrow> Inl err
     | _ \<Rightarrow> Inl (InvalidFrame (''unexpected grant upload lease response: '' @ ev_debug E response)))"

definition grant_upload_lease_to_specific_storage :: "env \<Rightarrow> u64 \<Rightarrow> update_lease \<Rightarrow> unit handler" where
  "grant_upload_lease_to_specific_storage E storage_id lease =
     st_bind (st_gets (\<lambda>s. hm_get (cs_storages s) storage_id)) (\<lambda>found.
     st_bind (st_lift (ok_or NotFound found)) (\<lambda>storage.
     (\<lambda>s. case rpc E (scc_connection storage) (grant_request lease) s of
        (answer, s') \<Rightarrow> (grant_answer E lease answer, s'))))"

text \<open>Last phase: the lease is dropped again when the storage did not grant it.\<close>

definition begin_update_finish :: "env \<Rightarrow> update_lease \<Rightarrow> unit fs0_result \<Rightarrow> control_response handler" where
  "begin_update_finish E lease granted =
     (case granted of
        Inr _ \<Rightarrow> st_return (control_response.BeginUpdate lease)
      | Inl err \<Rightarrow>
          st_bind (with_db (run_tx (ev_commit E 1) (delete_update_lease (ul_lease_id lease)))) (\<lambda>_. st_throw err))"

definition begin_update :: "env \<Rightarrow> begin_update_request \<Rightarrow> control_response handler" where
  "begin_update E request =
     st_bind (begin_update_prepare E request) (\<lambda>(storage_id, lease).
     (\<lambda>s. case grant_upload_lease_to_specific_storage E storage_id lease s of
        (granted, s') \<Rightarrow> begin_update_finish E lease granted s'))"

section \<open>Committing and aborting\<close>

definition expired_conflict :: "u64 \<Rightarrow> u64 \<Rightarrow> fs0_error \<Rightarrow> fs0_error" where
  "expired_conflict lease_id file_id err =
     (if err = NotFound
      then VersionConflict (''update lease '' @ show_u64 lease_id @ '' for file '' @ show_u64 file_id @ '' expired before commit'')
      else err)"

definition st_map_err :: "('e \<Rightarrow> 'e) \<Rightarrow> ('s, 'e, 'a) st \<Rightarrow> ('s, 'e, 'a) st" where
  "st_map_err f m = (\<lambda>s. case m s of (Inl e, s') \<Rightarrow> (Inl (f e), s') | (Inr x, s') \<Rightarrow> (Inr x, s'))"

definition file_changed :: fs0_error where
  "file_changed = VersionConflict ''file changed while update lease was active''"

text \<open>The first length reported for each submitted bundle, and the sum of the submitted lengths.\<close>

definition ready_raw_lens :: "bundle_replica_row list \<Rightarrow> (hash_id, u64) hmap" where
  "ready_raw_lens replicas = fold (\<lambda>r. or_insert (br_bundle_id r) (br_raw_len r)) replicas []"

fun submitted_size :: "(hash_id, u64) hmap \<Rightarrow> committed_bundle list \<Rightarrow> u64 \<Rightarrow> u64 fs0_result" where
  "submitted_size ready [] acc = Inr acc"
| "submitted_size ready (bundle # bundles) acc =
     (case hm_get ready (cb_bundle_id bundle) of
        None \<Rightarrow> Inl ChunkNotReady
      | Some raw_len \<Rightarrow>
          if raw_len \<noteq> cb_raw_len bundle then Inl InvalidRequest
          else
            res_bind (ok_or (IntegerConversion ''submitted bundle raw size overflow'')
                       (checked_add acc (cb_raw_len bundle))) (\<lambda>acc.
            submitted_size ready bundles acc))"

definition commit_update_check :: "commit_update_request \<Rightarrow> u64 \<Rightarrow> (lease_record \<times> file_row) tx" where
  "commit_update_check request lease_now =
     st_bind (st_map_err (expired_conflict (cur_lease_id request) (cur_file_id request))
        (load_active_update_lease (cur_lease_id request) (cur_file_id request) lease_now)) (\<lambda>lease.
     if lrec_base_size_bytes lease \<noteq> cur_base_size request then st_throw file_changed
     else if cur_new_size request < lrec_offset_bytes lease then st_throw InvalidRequest
     else
       st_bind (get_file_by_id (lrec_file_id lease)) (\<lambda>file.
       if fr_size_bytes file \<noteq> cur_base_size request then st_throw file_changed
       else
         st_bind (get_bundle_replicas_by_id (map cb_bundle_id (cur_bundles request))) (\<lambda>replicas.
         st_bind (st_lift (submitted_size (ready_raw_lens replicas) (cur_bundles request) 0)) (\<lambda>submitted.
         if submitted \<noteq> cur_new_size request then st_throw InvalidRequest
         else st_return (lease, file)))))"

definition commit_update_apply :: "commit_update_request \<Rightarrow> u64 \<Rightarrow> lease_record \<Rightarrow> file_row \<Rightarrow> file_record tx" where
  "commit_update_apply request now lease file =
     st_bind (upsert_file_bundles_by_file_id (lrec_file_id lease) (cur_bundles request)) (\<lambda>_.
     st_bind (calculate_size_by_file_id (lrec_file_id lease)) (\<lambda>(final_raw, final_compressed).
     if final_raw \<noteq> cur_new_size request then st_throw InvalidRequest
     else
       st_bind (update_file_after_update (lrec_file_id lease) (cur_new_size request) final_compressed now) (\<lambda>updated_file.
       st_bind (delete_update_lease (cur_lease_id request)) (\<lambda>_.
       st_bind (get_dir_path_by_id (fr_dir_id file)) (\<lambda>file_dir.
       st_bind (insert_file_change_log
          (if fr_size_bytes file = 0 then file_change_log_kind.Created else file_change_log_kind.Updated)
          (Some (file_dir, fr_name file)) (Some (lrec_file_id lease)) now) (\<lambda>_.
       file_record_of updated_file))))))"

definition commit_update_tx :: "commit_update_request \<Rightarrow> u64 \<Rightarrow> u64 \<Rightarrow> file_record tx" where
  "commit_update_tx request now lease_now =
     st_bind (commit_update_check request lease_now) (\<lambda>(lease, file). commit_update_apply request now lease file)"

definition lease_volume_tx :: "u64 \<Rightarrow> u64 \<Rightarrow> u64 \<Rightarrow> u64 tx" where
  "lease_volume_tx lease_id file_id now =
     st_map_err (expired_conflict lease_id file_id) (active_update_lease_volume lease_id file_id now)"

text \<open>The answer to the revocation of a lease is ignored.\<close>

definition revoke_storage_upload_lease :: "env \<Rightarrow> u64 \<Rightarrow> u64 \<Rightarrow> central_server \<Rightarrow> central_server" where
  "revoke_storage_upload_lease E storage_id lease_id s =
     (case hm_get (cs_storages s) storage_id of
        None \<Rightarrow> s
      | Some storage \<Rightarrow>
          snd (rpc E (scc_connection storage) (protocol_request.Control (control_request.RevokeUploadLease lease_id)) s))"

definition revoke_mounted :: "env \<Rightarrow> u64 option \<Rightarrow> u64 \<Rightarrow> central_server \<Rightarrow> central_server" where
  "revoke_mounted E storage_id lease_id =
     (case storage_id of None \<Rightarrow> id | Some i \<Rightarrow> revoke_storage_upload_lease E i lease_id)"

definition commit_update :: "env \<Rightarrow> commit_update_request \<Rightarrow> control_response handler" where
  "commit_update E request =
     st_bind (with_db (run_tx (ev_commit E 0) (lease_volume_tx (cur_lease_id request) (cur_file_id request) (ev_now E 0)))) (\<lambda>volume_id.
     st_bind (st_gets (\<lambda>s. hm_get (cs_online_volumes s) volume_id)) (\<lambda>storage_id.
     st_bind (with_db (run_tx (ev_commit E 1) (commit_update_tx request (ev_now E 1) (ev_now E 2)))) (\<lambda>file.
     st_bind (st_modify (revoke_mounted E storage_id (cur_lease_id request))) (\<lambda>_.
     st_return (control_response.CommitUpdate file)))))"

definition abort_update_tx :: "u64 \<Rightarrow> u64 \<Rightarrow> u64 \<Rightarrow> u64 tx" where
  "abort_update_tx lease_id file_id now =
     st_bind (active_update_lease_volume lease_id file_id now) (\<lambda>volume_id.
     st_bind (delete_update_lease lease_id) (\<lambda>_. st_return volume_id))"

definition abort_update :: "env \<Rightarrow> u64 \<Rightarrow> u64 \<Rightarrow> control_response handler" where
  "abort_update E lease_id file_id =
     st_bind (with_db (run_tx (ev_commit E 0) (abort_update_tx lease_id file_id (ev_now E 0)))) (\<lambda>volume_id.
     st_bind (st_gets (\<lambda>s. hm_get (cs_online_volumes s) volume_id)) (\<lambda>storage_id.
     st_bind (st_modify (revoke_mounted E storage_id lease_id)) (\<lambda>_.
     st_return control_response.AbortUpdate)))"

section \<open>Dispatch\<close>

definition validate_registration_version :: "string \<Rightarrow> unit fs0_result" where
  "validate_registration_version version =
     (if version = FS0_VERSION then Inr () else Inl (Fs0Version FS0_VERSION version))"

fun handle_client_request :: "env \<Rightarrow> control_request \<Rightarrow> control_response handler" where
  "handle_client_request E control_request.CentralStatus = central_status"
| "handle_client_request E (control_request.CreateVolume name max_bytes) = handle_create_volume E name max_bytes"
| "handle_client_request E (control_request.ListDirectory dir limit cursor) = handle_list_directory E dir limit cursor"
| "handle_client_request E (control_request.GetFileReadPlan path) = get_file_read_plan path"
| "handle_client_request E (control_request.GetFileReadPlanById file_id) = get_file_read_plan_by_id file_id"
| "handle_client_request E (control_request.HasBundle bundle_id volume_id) = handle_has_bundle bundle_id volume_id"
| "handle_client_request E (control_request.DeleteFile path) = handle_delete_file E path"
| "handle_client_request E (control_request.DeleteFileById file_id) = handle_delete_file_by_id E file_id"
| "handle_client_request E (control_request.CopyFile source_path target_path) = handle_copy_file E source_path target_path"
| "handle_client_request E (control_request.CopyFileById source_file_id target_path) =
     handle_copy_file_by_id E source_file_id target_path"
| "handle_client_request E (control_request.RenameFile source_path target_path) = handle_rename_file E source_path target_path"
| "handle_client_request E (control_request.RenameFileById file_id target_path) =
     handle_rename_file_by_id E file_id target_path"
| "handle_client_request E (control_request.GetFileChangeLogs after_event_id limit) =
     handle_get_file_change_logs after_event_id limit"
| "handle_client_request E (control_request.BeginUpdate request) = begin_update E request"
| "handle_client_request E (control_request.CommitUpdate request) = commit_update E request"
| "handle_client_request E (control_request.AbortUpdate lease_id file_id) = abort_update E lease_id file_id"
| "handle_client_request E _ = st_throw Unauthorized"

definition announce_storage :: "u64 \<Rightarrow> central_server \<Rightarrow> central_server" where
  "announce_storage storage_id s =
     (case storage_peer storage_id s of None \<Rightarrow> s | Some peer \<Rightarrow> broadcast_event (StorageChanged peer) s)"

fun handle_storage_request :: "env \<Rightarrow> u64 \<Rightarrow> control_request \<Rightarrow> control_response handler" where
  "handle_storage_request E storage_id (control_request.CreateVolume name max_bytes) = handle_create_volume E name max_bytes"
| "handle_storage_request E storage_id (control_request.ValidateClientAuth client_id client_token) =
     validate_client_auth client_id client_token"
| "handle_storage_request E storage_id (control_request.ReportBundleReplica events) = report_bundle_replica E storage_id events"
| "handle_storage_request E storage_id (control_request.UpdateStorageEndpoint request_storage_id iroh_endpoint) =
     (if request_storage_id \<noteq> storage_id then st_throw Unauthorized
      else
        st_bind (update_storage_endpoint storage_id iroh_endpoint) (\<lambda>response.
        st_bind (st_modify (announce_storage storage_id)) (\<lambda>_. st_return response)))"
| "handle_storage_request E storage_id (control_request.UpdateStorageVolumeOffset volume_id max_volume_offset) =
     update_storage_volume_offset E storage_id volume_id max_volume_offset"
| "handle_storage_request E storage_id _ = st_throw Unauthorized"

text \<open>A request on a connection: the response, the identity of the connection and the server afterwards.\<close>

definition respond :: "(control_response fs0_result) \<times> 'i \<times> 's \<Rightarrow> protocol_response \<times> 'i \<times> 's" where
  "respond x =
     (case x of (r, i, s) \<Rightarrow>
        ((case r of Inr response \<Rightarrow> protocol_response.Control response | Inl err \<Rightarrow> protocol_response.Error err), i, s))"

fun handle_control_request ::
    "env \<Rightarrow> conn \<Rightarrow> control_request \<Rightarrow> control_connection_identity \<Rightarrow> central_server \<Rightarrow>
     protocol_response \<times> control_connection_identity \<times> central_server" where
  "handle_control_request E connection (control_request.RegisterClient name token version) identity s =
     respond (case st_bind (st_lift (validate_registration_version version)) (\<lambda>_. register_client token connection) s of
       (Inr (client_id, storages), s') \<Rightarrow>
         (Inr (control_response.RegisterClient client_id storages), Client client_id, s')
     | (Inl err, s') \<Rightarrow> (Inl err, identity, s'))"
| "handle_control_request E connection (control_request.RegisterStorage name token version volumes iroh_endpoint) identity s =
     respond (case st_bind (st_lift (validate_registration_version version)) (\<lambda>_.
         register_storage E name token volumes iroh_endpoint connection) s of
       (Inr (storage_id, storages), s') \<Rightarrow>
         (Inr (control_response.RegisterStorage storage_id storages), Storage storage_id, announce_storage storage_id s')
     | (Inl err, s') \<Rightarrow> (Inl err, identity, s'))"
| "handle_control_request E connection request identity s =
     respond (case identity of
       Client _ \<Rightarrow> (case handle_client_request E request s of (r, s') \<Rightarrow> (r, identity, s'))
     | Storage storage_id \<Rightarrow> (case handle_storage_request E storage_id request s of (r, s') \<Rightarrow> (r, identity, s'))
     | Anonymous \<Rightarrow> (Inl Unauthorized, identity, s))"

text \<open>What \<open>handle_control_connection\<close> does with a request, and when the connection ends.\<close>

fun serve_request ::
    "env \<Rightarrow> conn \<Rightarrow> protocol_request \<Rightarrow> control_connection_identity \<Rightarrow> central_server \<Rightarrow>
     protocol_response \<times> control_connection_identity \<times> central_server" where
  "serve_request E connection (protocol_request.Control request) identity s =
     handle_control_request E connection request identity s"
| "serve_request E connection _ identity s = (protocol_response.Error InvalidRequest, identity, s)"

definition close_connection :: "conn \<Rightarrow> control_connection_identity \<Rightarrow> central_server \<Rightarrow> central_server" where
  "close_connection connection identity s =
     (let (event, s1) = unregister_identity identity s;
          s2 = (case event of None \<Rightarrow> s1 | Some e \<Rightarrow> broadcast_event e s1)
      in s2\<lparr> cs_closed := cs_closed s2 @ [connection] \<rparr>)"

end
