(* ===== verification/Central_Safety.thy ===== *)
theory Central_Safety
  imports Central_Update
begin

text \<open>
  What every transaction of the central server keeps of the database invariant, also when it is rolled
  back. The directory cache is not part of a transaction: after a rollback it must still agree with the
  tables as they were.
\<close>

section \<open>Transactions that leave the directories alone\<close>

context step_order
begin

lemma rel_fits:
  assumes "fits_i64 v \<Longrightarrow> st_rel R (f v)"
  shows "st_rel R (st_bind (st_lift (u64_to_i64 v nm)) f)"
proof (cases "u64_to_i64 v nm")
  case (Inl e)
  then show ?thesis by (simp add: st_rel_def step_refl)
next
  case (Inr i)
  then have "fits_i64 v" "i = v" by (simp_all add: u64_to_i64_Inr_iff)
  with assms Inr show ?thesis by (simp add: st_rel_def)
qed

lemma rel_query: "st_rel R (\<lambda>s. (g s, s))"
  by (simp add: st_rel_def step_refl)

lemma rel_same: "(\<And>s. snd (m s) = s) \<Longrightarrow> st_rel R m"
  by (simp add: st_rel_def step_refl)

end

definition keeps :: "central_db \<Rightarrow> central_db \<Rightarrow> bool" where
  "keeps s s' \<longleftrightarrow> (db_inv s \<longrightarrow> db_inv s' \<and> dirs_of s' = dirs_of s)"

interpretation keep: step_order keeps
  by unfold_locales (auto simp: keeps_def)

lemma keeps_exec:
  assumes "\<And>t x t'. links_ok t \<Longrightarrow> stmt t = Inr (x, t') \<Longrightarrow>
    t_dirs t' = t_dirs t \<and> t_files t' = t_files t \<and> t_files_seq t' = t_files_seq t \<and> links_ok t'"
  shows "st_rel keeps (exec stmt)"
proof (rule st_relI)
  fix s
  show "keeps s (snd (exec stmt s))"
  proof (cases "stmt (db_conn s)")
    case (Inr y)
    obtain x t' where "y = (x, t')" by (cases y)
    with Inr assms [of "db_conn s" x t'] show ?thesis
      by (auto simp: exec_def keeps_def db_inv_def tree_ok_def dir_ok_def)
  qed (simp add: exec_def keep.step_refl)
qed

lemma keeps_cache:
  "dir_ok (s\<lparr> db_dir_cache := c \<rparr>) \<Longrightarrow> db_inv s \<Longrightarrow> db_inv (s\<lparr> db_dir_cache := c \<rparr>)"
  by (simp add: db_inv_def tree_ok_def)

lemma keeps_get_dir_id_by_path: "st_rel keeps (get_dir_id_by_path path)"
proof (rule st_relI, unfold keeps_def, rule impI)
  fix s assume inv: "db_inv s"
  from get_dir_id_by_path_spec [OF db_invD(3) [OF inv], of path] obtain c
    where "get_dir_id_by_path path s = (resolve_dir (dirs_of s) path, s\<lparr> db_dir_cache := c \<rparr>)"
      and "dir_ok (s\<lparr> db_dir_cache := c \<rparr>)" by blast
  with keeps_cache [OF _ inv] show "db_inv (snd (get_dir_id_by_path path s)) \<and>
      dirs_of (snd (get_dir_id_by_path path s)) = dirs_of s" by simp
qed

lemma keeps_query_optional: "st_rel keeps (query_optional q f)"
  by (rule keep.rel_same) simp

lemma keeps_query_map: "st_rel keeps (query_map q f)"
  by (rule keep.rel_same) simp

lemma rel_case_prod: "(\<And>x y. st_rel R (f x y)) \<Longrightarrow> st_rel R (case p of (x, y) \<Rightarrow> f x y)"
  by (cases p) simp

lemmas keeps_intros = keep.rel_intros keep.rel_fits keeps_query_optional keeps_query_map rel_case_prod

lemma keeps_get_file_by_path: "st_rel keeps (get_file_by_path path)"
  unfolding get_file_by_path_def by (intro keeps_intros keeps_get_dir_id_by_path)

lemma keeps_get_file_by_id: "st_rel keeps (get_file_by_id i)"
  unfolding get_file_by_id_def by (intro keeps_intros)

lemma keeps_list_directory: "st_rel keeps (list_directory dir limit cursor)"
  unfolding list_directory_def Let_def by (intro keeps_intros keeps_get_dir_id_by_path)

lemma keeps_get_bundle_replicas_by_id: "st_rel keeps (get_bundle_replicas_by_id ids)"
proof -
  have "st_rel keeps (replica_batches bs acc)" for bs acc
    by (induction bs arbitrary: acc) (auto intro!: keeps_intros)
  then show ?thesis unfolding get_bundle_replicas_by_id_def by (intro keeps_intros)
qed

lemma keeps_get_file_bundles_by_file_id: "st_rel keeps (get_file_bundles_by_file_id i)"
  unfolding get_file_bundles_by_file_id_def by (intro keeps_intros)

lemma keeps_calculate_size: "st_rel keeps (calculate_size_by_file_id i)"
  unfolding calculate_size_by_file_id_def
  by (intro keeps_intros keeps_get_file_bundles_by_file_id keeps_get_bundle_replicas_by_id)

lemma keeps_delete_leases: "st_rel keeps (exec (delete_leases_stmt P))"
  by (rule keeps_exec) (auto simp: delete_leases_stmt_def intro: links_ok_filter_leases)

lemma keeps_delete_expired: "st_rel keeps (delete_expired_update_leases now)"
  unfolding delete_expired_update_leases_def by (intro keeps_intros keeps_delete_leases)

lemma keeps_delete_update_lease: "st_rel keeps (delete_update_lease l)"
  unfolding delete_update_lease_def by (intro keeps_intros keeps_delete_leases)

lemma keeps_lease_queries:
  "st_rel keeps (file_has_active_update_lease i)" "st_rel keeps (load_active_update_lease l i now)"
  "st_rel keeps (active_update_lease_volume l i now)"
  unfolding file_has_active_update_lease_def load_active_update_lease_def active_update_lease_volume_def
  by (intro keeps_intros)+

lemma keeps_delete_file_bundles: "st_rel keeps (delete_file_bundles_by_file_id i)"
  unfolding delete_file_bundles_by_file_id_def
  by (intro keeps_intros keeps_exec) (auto simp: delete_file_bundles_stmt_def intro: links_ok_filter_bundles)

lemma links_ok_bundles:
  "links_ok t \<Longrightarrow> bundles_inv (t\<lparr> t_file_bundles := bs \<rparr>) \<Longrightarrow> links_ok (t\<lparr> t_file_bundles := bs \<rparr>)"
  by (simp add: links_ok_def volumes_inv_def replicas_inv_def leases_inv_def events_inv_def)

lemma insert_file_bundle_links:
  assumes links: "links_ok t" and ins: "insert_file_bundle i ix b t = Inr (x, t')" and fits: "fits_i64 ix"
  shows "t_dirs t' = t_dirs t \<and> t_files t' = t_files t \<and> t_files_seq t' = t_files_seq t \<and> links_ok t'"
proof -
  let ?row = "\<lparr> fb_file_id = i, fb_bundle_index = ix, fb_bundle_id = b \<rparr>"
  from ins have hash: "hash_ok b" and ref: "i \<in> fr_file_id ` set (t_files t)"
    and free: "\<forall>r\<in>set (t_file_bundles t). \<not> (fb_file_id r = i \<and> fb_bundle_index r = ix)"
    and t': "t' = t\<lparr> t_file_bundles := t_file_bundles t @ [?row] \<rparr>"
    by (auto simp: insert_file_bundle_def list_ex_iff hash_ok_def split: if_splits)
  have "(i, ix) \<notin> (\<lambda>r. (fb_file_id r, fb_bundle_index r)) ` set (t_file_bundles t)" using free by auto
  then have "bundles_inv t'"
    using links hash ref fits unfolding t' links_ok_def bundles_inv_def by simp
  with links_ok_bundles [OF links] t' show ?thesis by simp
qed

lemma keeps_insert_bundle_at: "st_rel keeps (insert_bundle_at i ib)"
  unfolding insert_bundle_at_def by (intro keeps_intros keeps_exec) (rule insert_file_bundle_links)

lemma keeps_upsert_file_bundles: "st_rel keeps (upsert_file_bundles_by_file_id i bs)"
  unfolding upsert_file_bundles_by_file_id_def
  by (intro keeps_intros keeps_delete_file_bundles keeps_insert_bundle_at)

lemma keepsI:
  assumes "\<And>s r s'. db_inv s \<Longrightarrow> m s = (r, s') \<Longrightarrow> db_inv s' \<and> dirs_of s' = dirs_of s"
  shows "st_rel keeps m"
  using assms by (auto simp: st_rel_def keeps_def intro: prod.collapse [symmetric])

lemma u64_to_i64_fits: "fits_i64 v \<Longrightarrow> u64_to_i64 v nm = Inr v"
  by (simp add: u64_to_i64_Inr_iff)

lemma conn_dirs: "db_conn s' = t \<Longrightarrow> dirs_of s' = t_dirs t"
  by simp

lemma keeps_update_file_after_update: "st_rel keeps (update_file_after_update i sz csz now)"
proof (rule keepsI)
  fix s r s'
  assume inv: "db_inv s" and res: "update_file_after_update i sz csz now s = (r, s')"
  show "db_inv s' \<and> dirs_of s' = dirs_of s"
  proof (cases "fits_i64 i \<and> fits_i64 sz \<and> fits_i64 csz \<and> fits_i64 now")
    case fits: True
    show ?thesis
    proof (cases "find_file s i")
      case (Some f)
      from update_file_after_update_spec [OF inv Some, of sz csz now] fits res
      have ok: "db_inv s'" and conn: "db_conn s' = (db_conn s)\<lparr> t_files := files_of s' \<rparr>" by auto
      from ok conn_dirs [OF conn] show ?thesis by simp
    next
      case None
      then have none: "\<forall>r\<in>set (files_of s). fr_file_id r \<noteq> i" by (auto simp: find_file_def find_None_iff)
      then have "map (\<lambda>r. if fr_file_id r = i then g r else r) (files_of s) = files_of s" for g
        by (simp add: map_idI)
      moreover have "filter (\<lambda>r. fr_file_id r = i) (files_of s) = []" using none by (simp add: filter_empty_conv)
      ultimately have "s' = s"
        using fits res by (simp add: update_file_after_update_def u64_to_i64_fits resize_file_stmt_def exec_def)
      with inv show ?thesis by simp
    qed
  next
    case False
    with inv res show ?thesis
      by (auto simp: update_file_after_update_def u64_to_i64_def fits_i64_def split: if_splits)
  qed
qed

lemma keeps_insert_file_change_log: "st_rel keeps (insert_file_change_log kind target fid at)"
proof (rule keepsI)
  fix s r s'
  assume inv: "db_inv s" and res: "insert_file_change_log kind target fid at s = (r, s')"
  show "db_inv s' \<and> dirs_of s' = dirs_of s"
  proof (cases "fits_i64 at \<and> (\<forall>i. fid = Some i \<longrightarrow> fits_i64 i)")
    case True
    have spec: "db_inv s' \<and> (case r of
        Inr _ \<Rightarrow> \<exists>i es. s' = s\<lparr> db_conn := (db_conn s)\<lparr> t_events := es, t_events_seq := i \<rparr> \<rparr>
      | Inl e \<Rightarrow> s' = s)"
      using insert_file_change_log_spec [OF inv _ _ res] True by (cases r; simp; blast)
    then show ?thesis by (cases r) auto
  next
    case False
    with inv res show ?thesis
      by (cases fid) (auto simp: insert_file_change_log_def u64_to_i64_def fits_i64_def split: if_splits)
  qed
qed

lemma keeps_volumes:
  "st_rel keeps (create_volume name m)" "st_rel keeps (update_volume_offset v off)" "st_rel keeps (get_volume v)"
proof -
  show "st_rel keeps (create_volume name m)"
    by (rule keepsI) (use create_volume_spec in \<open>fastforce split: sum.splits\<close>)
  show "st_rel keeps (update_volume_offset v off)"
    by (rule keepsI) (use update_volume_offset_spec in fastforce)
  show "st_rel keeps (get_volume v)" by (rule keep.rel_same) (rule get_volume_state)
qed

lemma keeps_replicas:
  "st_rel keeps (insert_bundle_replica b v raw cmp)" "st_rel keeps (delete_bundle_replica b v)"
proof -
  show "st_rel keeps (insert_bundle_replica b v raw cmp)"
    by (rule keepsI) (use insert_bundle_replica_spec in fastforce)
  show "st_rel keeps (delete_bundle_replica b v)"
  proof (rule keepsI)
    fix s r s'
    assume inv: "db_inv s" and res: "delete_bundle_replica b v s = (r, s')"
    show "db_inv s' \<and> dirs_of s' = dirs_of s"
    proof (cases "fits_i64 v")
      case True
      with delete_bundle_replica_spec [OF inv True, of b] res show ?thesis by auto
    qed (use inv res in \<open>simp add: delete_bundle_replica_def u64_to_i64_def fits_i64_def\<close>)
  qed
qed

lemma create_update_lease_error:
  assumes "create_update_lease a s = (Inl e, s')"
  shows "s' = s"
proof -
  have lease: "st_bind (exec (insert_lease l)) (\<lambda>rowid. st_bind (st_lift (i64_to_u64 rowid nm)) (\<lambda>i. st_return (f i))) s =
      (Inl e, s') \<Longrightarrow> s' = s" for l nm and f :: "u64 \<Rightarrow> update_lease"
  proof -
    assume res: "st_bind (exec (insert_lease l)) (\<lambda>rowid. st_bind (st_lift (i64_to_u64 rowid nm)) (\<lambda>i. st_return (f i))) s = (Inl e, s')"
    show "s' = s"
    proof (cases "insert_lease l (db_conn s)")
      case (Inl e')
      with res show ?thesis by (simp add: exec_def st_bind_def)
    next
      case (Inr x)
      obtain rowid t where x: "x = (rowid, t)" by (cases x)
      with Inr have "fits_i64 rowid"
        by (auto simp: insert_lease_def res_bind_Inr_iff dest: next_rowid_Inr(1) split: if_splits)
      with res Inr x show ?thesis by (simp add: exec_def st_bind_def i64_to_u64_Inr_iff [THEN iffD2] st_lift_def st_return_def)
    qed
  qed
  show ?thesis
    using assms unfolding create_update_lease_def
    by (auto simp: st_bind_Inl_iff [of "st_lift _"] u64_to_i64_Inr_iff dest!: lease)
qed

lemma keeps_create_update_lease: "st_rel keeps (create_update_lease a)"
proof (rule keepsI)
  fix s r s'
  assume inv: "db_inv s" and res: "create_update_lease a s = (r, s')"
  show "db_inv s' \<and> dirs_of s' = dirs_of s"
  proof (cases r)
    case (Inr l)
    note spec = create_update_lease_spec [OF inv res [unfolded Inr]]
    from conn_dirs [OF spec(7)] have "dirs_of s' = dirs_of s" by simp
    with spec(1) show ?thesis by simp
  next
    case (Inl e)
    with create_update_lease_error [of a s e s'] res have "s' = s" by simp
    with inv show ?thesis by simp
  qed
qed

lemmas keeps_ops = keeps_get_dir_id_by_path keeps_get_file_by_path keeps_get_file_by_id keeps_list_directory
  keeps_get_bundle_replicas_by_id keeps_get_file_bundles_by_file_id keeps_calculate_size keeps_delete_expired
  keeps_delete_update_lease keeps_lease_queries keeps_delete_file_bundles keeps_upsert_file_bundles
  keeps_update_file_after_update keeps_insert_file_change_log keeps_volumes keeps_replicas keeps_create_update_lease

section \<open>Rolling back\<close>

text \<open>
  The state after a rollback has the tables from before and the cache from after. The creation of
  directories never remembers a directory it has just created, so it may be rolled back.
\<close>

definition rolled_back :: "central_db \<Rightarrow> central_db \<Rightarrow> central_db" where
  "rolled_back s s' = s'\<lparr> db_conn := db_conn s \<rparr>"

lemma db_inv_rolled_back:
  assumes "db_inv s" and "cache_inv (db_dir_cache s')" and "coherent (dirs_of s) (db_dir_cache s')"
  shows "db_inv (rolled_back s s')"
  using assms by (simp add: rolled_back_def db_inv_def tree_ok_def dir_ok_def)

lemma keeps_rolled_back:
  assumes "keeps s s'" and "db_inv s"
  shows "db_inv (rolled_back s s')"
  using assms db_invD(3) [of s'] by (intro db_inv_rolled_back) (auto simp: keeps_def dir_ok_def)

definition same_cache :: "central_db \<Rightarrow> central_db \<Rightarrow> bool" where
  "same_cache s s' \<longleftrightarrow> db_dir_cache s' = db_dir_cache s"

interpretation nocache: step_order same_cache
  by unfold_locales (auto simp: same_cache_def)

lemma same_cache_exec: "st_rel same_cache (exec stmt)"
  by (auto simp: st_rel_def exec_def same_cache_def split: sum.splits)

lemma same_cache_query: "st_rel same_cache (query_optional q f)" "st_rel same_cache (query_map q' f')"
  by (rule nocache.rel_same, simp)+

lemmas same_cache_intros = nocache.rel_intros same_cache_exec same_cache_query rel_case_prod

lemma same_cache_ensure: "st_rel same_cache (ensure_child_name_available d n ex path)"
  unfolding ensure_child_name_available_def by (intro same_cache_intros)

lemma same_cache_select_child: "st_rel same_cache (select_child_dir d n)"
  unfolding select_child_dir_def by (intro same_cache_intros)

lemma coherent_remember:
  assumes "coherent ds c" and "walk ds ROOT_DIR_ID cs = Some d" and "list_all valid_component cs" and "cs \<noteq> []"
  shows "coherent ds (remember d (path_of cs) c)"
  unfolding coherent_def
proof (intro allI impI)
  fix p e assume "cached_id (remember d (path_of cs) c) p = Some e"
  with cached_remember(1) [of d "path_of cs" c p e] have "p = path_of cs \<and> e = d \<or> cached_id c p = Some e" by auto
  with assms show "\<exists>cs. cs \<noteq> [] \<and> list_all valid_component cs \<and> p = path_of cs \<and> walk ds ROOT_DIR_ID cs = Some e"
    by (auto simp: coherent_def)
qed

lemma create_dir_body_coherent:
  assumes ok: "tree_ok s" and pre: "walk (dirs_of s) ROOT_DIR_ID pre = Some d"
    and valid: "list_all valid_component (pre @ [n])"
    and base: "same_walks s0 s" "dir_paths s = dir_paths s0 \<union> {qs. prefix qs pre}"
    and coh: "coherent (dirs_of s0) (db_dir_cache s)"
    and res: "create_dir_body d n (path_of (pre @ [n])) s = (r, s')"
  shows "coherent (dirs_of s0) (db_dir_cache s')"
proof -
  let ?p = "path_of (pre @ [n])"
  define t where "t = s\<lparr> db_dir_cache := snd (get_id ?p (db_dir_cache s)) \<rparr>"
  have get: "cache_get_id ?p s = (Inr (fst (get_id ?p (db_dir_cache s))), t)"
    by (simp add: cache_get_id_def t_def split: prod.splits)
  have coht: "coherent (dirs_of s0) (db_dir_cache t)" using coh by (simp add: t_def coherent_def)
  have st: "dirs_of t = dirs_of s" by (simp add: t_def)
  have inv: "dirs_inv (dirs_of s)" using ok by (simp add: tree_ok_def dir_ok_def)
  have sel: "select_child_dir d n t = (Inr (child (dirs_of s) d n), t)"
    using select_child_dir_spec [of t d n] inv walk_in_dirs(2) [OF inv pre] st by simp
  show ?thesis
  proof (cases "fst (get_id ?p (db_dir_cache s))")
    case (Some e)
    with res get coht show ?thesis by (simp add: create_dir_body_def st_bind_def)
  next
    case miss: None
    show ?thesis
    proof (cases "child (dirs_of s) d n")
      case (Some e)
      have walk: "walk (dirs_of s) ROOT_DIR_ID (pre @ [n]) = Some e" using pre Some by (simp add: walk_append)
      then have "pre @ [n] \<in> dir_paths s0" using base(2) by (auto simp: dir_paths_def prefix_def)
      with base(1) walk have "walk (dirs_of s0) ROOT_DIR_ID (pre @ [n]) = Some e"
        by (fastforce simp: dir_paths_def same_walks_def)
      from coherent_remember [OF coht this valid] res get miss sel Some show ?thesis
        by (auto simp: create_dir_body_def st_bind_def cache_remember_def)
    next
      case None
      have "st_rel same_cache (st_bind (ensure_child_name_available d n None ?p) (\<lambda>_.
          st_bind (st_lift (u64_to_i64 d ''parent_dir_id'')) (\<lambda>q.
          st_bind (exec (insert_dir q n)) (\<lambda>rowid. st_lift (i64_to_u64 rowid ''dir_id'')))))"
        by (intro same_cache_intros same_cache_ensure)
      from st_relD [OF this, of t r s'] res get miss sel None coht show ?thesis
        by (simp add: create_dir_body_def st_bind_eval same_cache_def)
    qed
  qed
qed

lemma create_dir_loop_coherent:
  assumes "tree_ok s" and "walk (dirs_of s) ROOT_DIR_ID pre = Some d"
    and "list_all valid_component (pre @ names)"
    and "same_walks s0 s" "dir_paths s = dir_paths s0 \<union> {qs. prefix qs pre}"
    and "coherent (dirs_of s0) (db_dir_cache s)"
    and "create_dir_loop names d (path_of pre) s = (r, s')"
  shows "coherent (dirs_of s0) (db_dir_cache s')"
  using assms
proof (induction names arbitrary: s d pre r)
  case (Cons n names)
  from Cons.prems(3) have valid: "list_all valid_component (pre @ [n])" by simp
  from create_dir_body_spec [OF Cons.prems(1,2) valid] obtain r1 t
    where body: "create_dir_body d n (path_of (pre @ [n])) s = (r1, t)" and made: "created_dirs s (pre @ [n]) r1 t" by auto
  from create_dir_body_coherent [OF Cons.prems(1,2) valid Cons.prems(4,5,6) body]
  have coh: "coherent (dirs_of s0) (db_dir_cache t)" .
  have join: "join_fs0_path (path_of pre) n = Inr (path_of (pre @ [n]))"
    using valid by (intro join_path_of) (simp add: list_all_iff)
  show ?case
  proof (cases r1)
    case (Inl e)
    with Cons.prems(7) body join coh show ?thesis by (simp add: st_bind_def)
  next
    case (Inr e)
    with made have t: "tree_ok t" "walk (dirs_of t) ROOT_DIR_ID (pre @ [n]) = Some e" "same_walks s t"
      "dir_paths t = dir_paths s \<union> {qs. prefix qs (pre @ [n])}" by (simp_all add: created_dirs_def)
    have "dir_paths t = dir_paths s0 \<union> {qs. prefix qs (pre @ [n])}"
      using t(4) Cons.prems(5) by (auto simp: prefix_snoc)
    moreover have "create_dir_loop names e (path_of (pre @ [n])) t = (r, s')"
      using Cons.prems(7) body join Inr by (simp add: st_bind_def)
    ultimately show ?thesis
      using Cons.IH [OF t(1,2) _ same_walks_trans [OF Cons.prems(4) t(3)] _ coh] Cons.prems(3) by simp
  qed
qed simp

lemma create_dir_coherent:
  assumes inv: "db_inv s" and res: "create_dir path s = (r, s')"
  shows "coherent (dirs_of s) (db_dir_cache s')"
proof -
  let ?t = "s\<lparr> db_dir_cache := snd (get_id path (db_dir_cache s)) \<rparr>"
  have get: "cache_get_id path s = (Inr (fst (get_id path (db_dir_cache s))), ?t)"
    by (simp add: cache_get_id_def split: prod.splits)
  from db_invD(3) [OF inv] have coh: "coherent (dirs_of s) (db_dir_cache ?t)"
    by (simp add: dir_ok_def coherent_def)
  show ?thesis
  proof (cases "fst (get_id path (db_dir_cache s))")
    case (Some d)
    with res get coh show ?thesis by (simp add: create_dir_def st_bind_def)
  next
    case miss: None
    show ?thesis
    proof (cases "split_fs0_path_components path")
      case (Inl e)
      with miss res get coh show ?thesis by (simp add: create_dir_def st_bind_def)
    next
      case (Inr names)
      then have valid: "list_all valid_component names" by (simp add: split_components_iff list_all_iff)
      from db_invD(1,3) [OF inv] have "tree_ok ?t"
        by (simp add: tree_ok_def dir_ok_def cache_inv_get_id coherent_def)
      moreover have "create_dir_loop names ROOT_DIR_ID (path_of []) ?t = (r, s')"
        using Inr miss res get by (simp add: create_dir_def st_bind_def path_of_def)
      moreover have "dir_paths ?t = dir_paths s \<union> {qs. prefix qs []}" by (auto simp: dir_paths_def)
      ultimately show ?thesis
        using create_dir_loop_coherent [of ?t "[]" ROOT_DIR_ID names s r s'] valid coh
        by (simp add: same_walks_def)
    qed
  qed
qed

lemma create_dir_rolled_back:
  assumes inv: "db_inv s" and res: "create_dir path s = (r, t)" and same: "db_dir_cache s' = db_dir_cache t"
  shows "db_inv (rolled_back s s')"
proof -
  have "tree_ok t"
  proof (cases "split_fs0_path_components path")
    case (Inl e)
    from create_dir_invalid [OF db_invD(1) [OF inv] Inl] res show ?thesis by auto
  next
    case (Inr cs)
    from create_dir_spec [OF db_invD(1) [OF inv] Inr] res show ?thesis by (auto simp: created_dirs_def)
  qed
  then have "cache_inv (db_dir_cache s')" using same by (simp add: tree_ok_def dir_ok_def)
  with create_dir_coherent [OF inv res] same inv show ?thesis
    by (intro db_inv_rolled_back) simp_all
qed

section \<open>Transactions that may be rolled back anywhere\<close>

definition tx_safe :: "'a tx \<Rightarrow> bool" where
  "tx_safe m \<longleftrightarrow> (\<forall>s r s'. db_inv s \<longrightarrow> m s = (r, s') \<longrightarrow> db_inv s' \<and> db_inv (rolled_back s s'))"

lemma tx_safe_keeps: "st_rel keeps m \<Longrightarrow> tx_safe m"
  unfolding tx_safe_def using keeps_rolled_back by (meson keeps_def st_relD)

lemma tx_safe_bind:
  assumes m: "tx_safe m" and f: "\<And>x. st_rel keeps (f x)" "\<And>x. st_rel same_cache (f x)"
  shows "tx_safe (st_bind m f)"
  unfolding tx_safe_def
proof (intro allI impI)
  fix s r s' assume inv: "db_inv s" and res: "st_bind m f s = (r, s')"
  obtain r1 t where m1: "m s = (r1, t)" by force
  with m inv have t: "db_inv t" "db_inv (rolled_back s t)" by (auto simp: tx_safe_def)
  show "db_inv s' \<and> db_inv (rolled_back s s')"
  proof (cases r1)
    case (Inl e)
    with m1 res t show ?thesis by (simp add: st_bind_def)
  next
    case (Inr x)
    with m1 res have fx: "f x t = (r, s')" by (simp add: st_bind_def)
    from st_relD [OF f(2) fx] have "rolled_back s s' = rolled_back s t"
      by (cases s', cases t) (simp add: same_cache_def rolled_back_def)
    with st_relD [OF f(1) fx] t show ?thesis by (simp add: keeps_def)
  qed
qed

definition same_tables :: "central_db \<Rightarrow> central_db \<Rightarrow> bool" where
  "same_tables s s' \<longleftrightarrow> db_conn s' = db_conn s"

interpretation reads: step_order same_tables
  by unfold_locales (auto simp: same_tables_def)

lemma tx_safe_after:
  assumes m: "st_rel keeps m" "st_rel same_tables m" and f: "\<And>x. tx_safe (f x)"
  shows "tx_safe (st_bind m f)"
  unfolding tx_safe_def
proof (intro allI impI)
  fix s r s' assume inv: "db_inv s" and res: "st_bind m f s = (r, s')"
  obtain r1 t where m1: "m s = (r1, t)" by force
  with st_relD [OF m(1)] st_relD [OF m(2)] inv have t: "db_inv t" "db_conn t = db_conn s"
    by (auto simp: keeps_def same_tables_def)
  show "db_inv s' \<and> db_inv (rolled_back s s')"
  proof (cases r1)
    case (Inl e)
    with m1 res t have "s' = t" by (simp add: st_bind_def)
    moreover have "rolled_back s t = t" using t(2) by (simp add: rolled_back_def)
    ultimately show ?thesis using t by simp
  next
    case (Inr x)
    with m1 res have "f x t = (r, s')" by (simp add: st_bind_def)
    with f t(1) have "db_inv s'" "db_inv (rolled_back t s')" by (auto simp: tx_safe_def)
    with t(2) show ?thesis by (simp add: rolled_back_def)
  qed
qed

lemma rolled_back_same: "db_conn t = db_conn s \<Longrightarrow> rolled_back s t = t"
  by (cases t) (simp add: rolled_back_def)

lemma create_dir_then_rolled_back:
  assumes inv: "db_inv s" and res: "st_bind (create_dir dir) f s = (r, s')" and f: "\<And>d. st_rel same_cache (f d)"
  shows "db_inv (rolled_back s s')"
proof -
  obtain r1 t where c: "create_dir dir s = (r1, t)" by force
  have "db_dir_cache s' = db_dir_cache t"
  proof (cases r1)
    case (Inr d)
    with c res have "f d t = (r, s')" by (simp add: st_bind_def)
    from st_relD [OF f this] show ?thesis by (simp add: same_cache_def)
  qed (use c res in \<open>simp add: st_bind_def\<close>)
  from create_dir_rolled_back [OF inv c this] show ?thesis .
qed

lemma same_cache_get_file_by_id: "st_rel same_cache (get_file_by_id i)"
  unfolding get_file_by_id_def by (intro same_cache_intros)

lemma tx_safe_create_file: "fits_i64 now \<Longrightarrow> tx_safe (create_file path now)"
  unfolding tx_safe_def
proof (intro allI impI)
  fix s r s' assume now: "fits_i64 now" and inv: "db_inv s" and res: "create_file path now s = (r, s')"
  show "db_inv s' \<and> db_inv (rolled_back s s')"
  proof (cases "split_fs0_path_dir_and_name path")
    case (Inl e)
    with res inv show ?thesis by (simp add: create_file_def st_bind_def rolled_back_def)
  next
    case (Inr p)
    obtain dir name where p: "p = (dir, name)" by (cases p)
    from create_file_spec [OF inv now Inr [unfolded p]] res have "db_inv s'" by (auto simp: created_file_def)
    moreover have "db_inv (rolled_back s s')"
      using res Inr p unfolding create_file_def
      by (intro create_dir_then_rolled_back [OF inv, of dir]) (auto intro!: same_cache_intros same_cache_ensure same_cache_get_file_by_id)
    ultimately show ?thesis ..
  qed
qed

lemma same_cache_ops:
  "st_rel same_cache (delete_expired_update_leases now)" "st_rel same_cache (file_has_active_update_lease i)"
  "st_rel same_cache (create_update_lease a)" "st_rel same_cache (insert_file_change_log kind target fid at)"
  "st_rel same_cache (copy_file_bundles i j)"
  unfolding delete_expired_update_leases_def file_has_active_update_lease_def create_update_lease_def
    insert_file_change_log_def copy_file_bundles_def
  by (intro same_cache_intros)+

lemma same_tables_get_file_by_path:
  assumes "db_inv s"
  shows "db_conn (snd (get_file_by_path path s)) = db_conn s"
  using get_file_by_path_spec [OF db_invD(1) [OF assms], of path] by auto

lemma tx_safe_begin_update_file:
  assumes now: "fits_i64 now"
  shows "tx_safe (begin_update_file request now)"
  unfolding tx_safe_def
proof (intro allI impI)
  fix s r s' assume inv: "db_inv s" and res: "begin_update_file request now s = (r, s')"
  obtain r1 t where g: "get_file_by_path (bur_path request) s = (r1, t)" by force
  have t: "db_inv t" "db_conn t = db_conn s"
    using st_relD [OF keeps_get_file_by_path g] inv same_tables_get_file_by_path [OF inv, of "bur_path request"] g
    by (auto simp: keeps_def)
  have same: "db_inv s' \<and> db_inv (rolled_back s s')" if "s' = t"
    using that t by (simp add: rolled_back_same)
  show "db_inv s' \<and> db_inv (rolled_back s s')"
  proof (cases "r1 = Inl NotFound \<and> bur_offset request = 0")
    case False
    with res g have "s' = t" by (auto simp: begin_update_file_def split: sum.splits fs0_error.splits if_splits)
    with same show ?thesis .
  next
    case True
    with res g have "st_bind (create_file (bur_path request) now) (\<lambda>file. st_return (file, 0)) t = (r, s')"
      by (simp add: begin_update_file_def)
    moreover have "tx_safe (st_bind (create_file (bur_path request) now) (\<lambda>file. st_return (file, 0 :: u64)))"
      by (intro tx_safe_bind tx_safe_create_file [OF now] keep.rel_return nocache.rel_return)
    ultimately show ?thesis using t by (auto simp: tx_safe_def rolled_back_def)
  qed
qed

lemma tx_safe_begin_update_tx: "fits_i64 now \<Longrightarrow> tx_safe (begin_update_tx request volume_id now)"
  unfolding begin_update_tx_def Let_def
  by (intro tx_safe_bind tx_safe_begin_update_file) (auto intro!: keeps_intros keeps_ops same_cache_intros same_cache_ops)

lemma keeps_get_dir_path_by_id: "st_rel keeps (get_dir_path_by_id d)"
proof (rule keepsI)
  fix s r s' assume inv: "db_inv s" and res: "get_dir_path_by_id d s = (r, s')"
  note dok = db_invD(3) [OF inv]
  show "db_inv s' \<and> dirs_of s' = dirs_of s"
  proof (cases "d \<in> dr_dir_id ` set (dirs_of s)")
    case True
    then obtain cs where "walk (dirs_of s) ROOT_DIR_ID cs = Some d"
      using dir_reachable [OF db_invD(4) [OF inv]] by fastforce
    from get_dir_path_by_id_spec [OF dok this] res keeps_cache [OF _ inv] show ?thesis by auto
  next
    case False
    from cache_get_path_spec [OF dok, of d] obtain p c
      where get: "cache_get_path d s = (Inr p, s\<lparr> db_dir_cache := c \<rparr>)" and ok: "dir_ok (s\<lparr> db_dir_cache := c \<rparr>)"
        and hit: "\<And>q. p = Some q \<Longrightarrow> \<exists>cs. walk (dirs_of s) ROOT_DIR_ID cs = Some d \<and> q = path_of cs" by blast
    have "p = None"
    proof (rule ccontr)
      assume "p \<noteq> None"
      with hit obtain cs where "walk (dirs_of s) ROOT_DIR_ID cs = Some d" by blast
      from walk_in_dirs(1) [OF db_invD(4) [OF inv] this] False show False by simp
    qed
    moreover have "find (\<lambda>r. dr_dir_id r = d) (dirs_of s) = None" using False by (auto simp: find_None_iff)
    ultimately have "s' = s\<lparr> db_dir_cache := c \<rparr>"
      using res get
      by (cases "u64_to_i64 d ''dir_id''") (simp_all add: get_dir_path_by_id_def st_bind_eval query_optional_def u64_to_i64_Inr_iff)
    with keeps_cache [OF ok inv] show ?thesis by simp
  qed
qed

lemma keeps_file_record_of: "st_rel keeps (file_record_of f)"
  unfolding file_record_of_def by (intro keeps_intros keeps_get_dir_path_by_id)

lemma keeps_map_err: "st_rel keeps m \<Longrightarrow> st_rel keeps (st_map_err f m)"
  by (auto simp: st_rel_def st_map_err_def split: prod.splits sum.splits) (metis snd_conv)+

lemma tx_safe_commit_update: "tx_safe (commit_update_tx request now lease_now)"
  unfolding commit_update_tx_def commit_update_check_def commit_update_apply_def
  by (intro tx_safe_keeps keeps_intros keeps_map_err keeps_ops keeps_get_dir_path_by_id keeps_file_record_of)

lemma tx_safe_lease_volume: "tx_safe (lease_volume_tx lease_id file_id now)"
  unfolding lease_volume_tx_def by (intro tx_safe_keeps keeps_map_err keeps_ops)

lemma tx_safe_abort_update: "tx_safe (abort_update_tx lease_id file_id now)"
  unfolding abort_update_tx_def by (intro tx_safe_keeps keeps_intros keeps_ops)

lemma keeps_delete_file: "st_rel keeps (delete_file_by_id i)"
proof (rule keepsI)
  fix s r s' assume inv: "db_inv s" and res: "delete_file_by_id i s = (r, s')"
  have "dirs_of s' = dirs_of s"
    using res by (auto simp: delete_file_by_id_def st_bind_def exec_def delete_file_stmt_def u64_to_i64_def st_lift_def
        st_throw_def st_return_def split: if_splits sum.splits)
  with delete_file_by_id_spec [OF inv res] show "db_inv s' \<and> dirs_of s' = dirs_of s" by simp
qed

lemma tx_safe_delete_file: "tx_safe (delete_file_tx i now)"
  unfolding delete_file_tx_def by (intro tx_safe_keeps keeps_intros keeps_ops keeps_delete_file)

lemma tx_safe_read_plan: "tx_safe (read_plan_tx online i)"
  unfolding read_plan_tx_def by (intro tx_safe_keeps keeps_intros keeps_ops keeps_file_record_of)

lemma tx_safe_register_volumes: "tx_safe (register_volumes volumes)"
proof (rule tx_safe_keeps)
  show "st_rel keeps (register_volumes volumes)"
    by (induction volumes) (auto simp only: register_volumes.simps Let_def intro!: keeps_intros keeps_ops)
qed

lemma tx_safe_apply_replica_events: "tx_safe (st_iter apply_replica_event events)"
proof (rule tx_safe_keeps, rule keep.rel_iter)
  show "st_rel keeps (apply_replica_event e)" for e
    unfolding apply_replica_event_def
    by (cases "bre_kind e") (auto intro!: keeps_intros keeps_ops)
qed

end
