(* ===== verification/Central_Tx.thy ===== *)
theory Central_Tx
  imports Central_Safety
begin

text \<open>
  What the transactions of the client handlers do to the tree of files and their content: copying,
  renaming, deleting, beginning and committing an update, and the plan by which a file is read.
\<close>

section \<open>Copying and renaming\<close>

text \<open>A change of the tree only: files and directories.\<close>

definition tree_only :: "central_db \<Rightarrow> central_db \<Rightarrow> bool" where
  "tree_only s s' \<longleftrightarrow>
     t_file_bundles (db_conn s') = t_file_bundles (db_conn s) \<and> t_replicas (db_conn s') = t_replicas (db_conn s) \<and>
     t_events (db_conn s') = t_events (db_conn s) \<and> t_leases (db_conn s') = t_leases (db_conn s) \<and>
     t_volumes (db_conn s') = t_volumes (db_conn s)"

interpretation treeonly: step_order tree_only
  by unfold_locales (auto simp: tree_only_def)

lemma tree_only_exec:
  assumes "\<And>t x t'. stmt t = Inr (x, t') \<Longrightarrow> t_file_bundles t' = t_file_bundles t \<and> t_replicas t' = t_replicas t \<and>
     t_events t' = t_events t \<and> t_leases t' = t_leases t \<and> t_volumes t' = t_volumes t"
  shows "st_rel tree_only (exec stmt)"
  using assms by (auto simp: st_rel_def exec_def tree_only_def split: sum.splits)

lemma tree_only_query: "st_rel tree_only (query_optional q f)"
  by (rule treeonly.rel_same) simp

lemma tree_only_stmts:
  "st_rel tree_only (exec (insert_dir d n))" "st_rel tree_only (exec (insert_file d n sz csz now))"
  "st_rel tree_only (exec (move_file_stmt i d n now))"
  by (rule tree_only_exec, auto simp: insert_dir_def insert_file_def move_file_stmt_def res_bind_Inr_iff Let_def split: if_splits)+

lemma tree_only_cache:
  "st_rel tree_only (cache_get_id p)" "st_rel tree_only (cache_remember d p)"
  by (auto simp: st_rel_def cache_get_id_def cache_remember_def tree_only_def split: prod.splits)

lemmas tree_only_intros = treeonly.rel_intros tree_only_query tree_only_stmts tree_only_cache rel_case_prod

lemma tree_only_ensure: "st_rel tree_only (ensure_child_name_available d n ex path)"
  unfolding ensure_child_name_available_def by (intro tree_only_intros)

lemma tree_only_create_dir: "st_rel tree_only (create_dir path)"
proof -
  have body: "st_rel tree_only (create_dir_body d n p)" for d n p
    unfolding create_dir_body_def select_child_dir_def by (intro tree_only_intros tree_only_ensure)
  have "st_rel tree_only (create_dir_loop names d p)" for names d p
    by (induction names arbitrary: d p) (auto simp only: create_dir_loop.simps intro!: tree_only_intros body)
  then show ?thesis unfolding create_dir_def by (intro tree_only_intros)
qed

lemma tree_only_get_file_by_id: "st_rel tree_only (get_file_by_id i)"
  unfolding get_file_by_id_def by (intro tree_only_intros)

lemma tree_only_files:
  "st_rel tree_only (create_file path now)" "st_rel tree_only (copy_file_by_id i path now)"
  "st_rel tree_only (rename_file_by_id i path now)"
  unfolding create_file_def copy_file_by_id_def rename_file_by_id_def
  by (intro tree_only_intros tree_only_create_dir tree_only_ensure tree_only_get_file_by_id)+

text \<open>What a path of the tree stores: the row of its file and the bundles of its content.\<close>

definition stored :: "central_db \<Rightarrow> string list \<rightharpoonup> file_row \<times> hash_id list" where
  "stored s cs = map_option (\<lambda>f. (f, file_content s (fr_file_id f))) (file_at s cs)"

definition record_of :: "string list \<Rightarrow> file_row \<Rightarrow> file_record" where
  "record_of cs f = \<lparr> frec_file_id = fr_file_id f, frec_path = path_of cs, frec_size_bytes = fr_size_bytes f,
     frec_compressed_size_bytes = fr_compressed_size_bytes f, frec_created_at_ms = fr_created_at_ms f,
     frec_updated_at_ms = fr_updated_at_ms f \<rparr>"

lemma file_at_cong:
  "dirs_of s' = dirs_of s \<Longrightarrow> files_of s' = files_of s \<Longrightarrow> file_at s' = file_at s"
  by (auto simp: fun_eq_iff file_at_def split: option.split)

lemma find_file_at:
  assumes inv: "db_inv s" and at: "file_at s cs = Some f"
  shows "find_file s (fr_file_id f) = Some f"
proof -
  have "f \<in> set (files_of s)" using at file_at_iff [OF db_invD(1) [OF inv]] by blast
  moreover have "distinct (map fr_file_id (files_of s))" using db_invD(5) [OF inv] by (simp add: files_inv_def)
  ultimately show ?thesis unfolding find_file_def by (intro find_key)
qed

lemma file_at_record:
  assumes inv: "db_inv s" and at: "file_at s cs = Some f"
  shows "\<exists>c. file_record_of f s = (Inr (record_of cs f), s\<lparr> db_dir_cache := c \<rparr>) \<and> db_inv (s\<lparr> db_dir_cache := c \<rparr>)"
proof -
  from at file_at_iff [OF db_invD(1) [OF inv]] have "cs \<noteq> []" "last cs = fr_name f"
    "walk (dirs_of s) ROOT_DIR_ID (butlast cs) = Some (fr_dir_id f)" by blast+
  moreover from this have "butlast cs @ [fr_name f] = cs" by (metis append_butlast_last_id)
  ultimately show ?thesis
    using file_record_of_spec [OF db_invD(1) [OF inv], of "butlast cs" f] db_invD(2) [OF inv]
    by (auto simp: record_of_def db_inv_def)
qed

lemma content_of_missing:
  assumes inv: "db_inv s" and none: "find_file s i = None"
  shows "file_content s i = []"
proof -
  have "\<forall>f\<in>set (files_of s). fr_file_id f \<noteq> i" using none by (auto simp: find_file_def find_None_iff)
  then have "filter (\<lambda>r. fb_file_id r = i) (t_file_bundles (db_conn s)) = []"
    using db_invD(2) [OF inv] by (fastforce simp: filter_empty_conv links_ok_def bundles_inv_def)
  then show ?thesis by (simp add: file_content_def bundle_rows_def)
qed

lemma file_content_cong: "t_file_bundles (db_conn s') = t_file_bundles (db_conn s) \<Longrightarrow> file_content s' = file_content s"
  by (simp add: fun_eq_iff file_content_def bundle_rows_def)

definition log_added :: "file_change_log_kind \<Rightarrow> string list option \<Rightarrow> u64 \<Rightarrow> u64 \<Rightarrow> central_db \<Rightarrow> central_db \<Rightarrow> bool" where
  "log_added kind target i at s s' \<longleftrightarrow>
     (\<exists>e. change_log s' = change_log s @ [\<lparr> fcl_event_id = e, fcl_kind = kind, fcl_file_id = Some i,
        fcl_new_path = map_option path_of target, fcl_created_at_ms = at \<rparr>] \<and> (\<forall>x\<in>set (change_log s). fcl_event_id x < e))"

text \<open>The tail of the transactions: an event, which touches nothing else.\<close>

lemma log_then:
  assumes inv: "db_inv s" and fits: "fits_i64 at" "fits_i64 i"
    and target: "map_option (\<lambda>(dir, name). if dir = ''/'' then ''/'' @ name else dir @ ''/'' @ name) target = map_option path_of cs"
    and res: "insert_file_change_log kind target (Some i) at s = (r, s')"
  shows "db_inv s' \<and> db_dir_cache s' = db_dir_cache s \<and>
    (case r of
       Inr _ \<Rightarrow> log_added kind cs i at s s' \<and> stored s' = stored s \<and> dir_paths s' = dir_paths s \<and> file_at s' = file_at s \<and>
         file_content s' = file_content s \<and> t_leases (db_conn s') = t_leases (db_conn s) \<and> t_replicas (db_conn s') = t_replicas (db_conn s)
     | Inl e \<Rightarrow> e = Sqlite ''database or disk is full'')"
proof (cases r)
  case (Inl e)
  with insert_file_change_log_spec [OF inv fits(1) _ res] fits(2) inv show ?thesis by auto
next
  case (Inr u)
  have "\<And>j. Some i = Some j \<Longrightarrow> fits_i64 j" using fits(2) by simp
  from insert_file_change_log_spec [OF inv fits(1) this res, unfolded Inr sum.case target]
  obtain e where conn: "s' = s\<lparr> db_conn := (db_conn s)\<lparr> t_events := t_events (db_conn s'), t_events_seq := e \<rparr> \<rparr>"
    and inv': "db_inv s'" and log: "log_added kind cs i at s s'"
    unfolding log_added_def by blast
  then obtain es where s': "s' = s\<lparr> db_conn := (db_conn s)\<lparr> t_events := es, t_events_seq := e \<rparr> \<rparr>" by blast
  have "file_at s' = file_at s" unfolding s' by (rule file_at_cong) simp_all
  moreover have "file_content s' = file_content s" unfolding s' by (rule file_content_cong) simp
  ultimately show ?thesis
    using inv' log Inr by (simp add: stored_def fun_eq_iff) (simp add: s' dir_paths_def)
qed

lemma target_path:
  assumes "split_fs0_path_dir_and_name path = Inr (dir, name)"
  shows "\<exists>cs. path = path_of cs \<and> list_all valid_component cs \<and> cs \<noteq> [] \<and>
    (if dir = ''/'' then ''/'' @ name else dir @ ''/'' @ name) = path_of cs"
proof -
  from assms obtain cs where cs: "\<forall>c\<in>set (cs @ [name]). valid_component c" "path = path_of (cs @ [name])" "dir = path_of cs"
    by (auto simp: split_dir_and_name_iff)
  have "(if dir = ''/'' then ''/'' @ name else dir @ ''/'' @ name) = path_of (cs @ [name])"
    using join_path_of [of cs name] cs by (auto simp: join_fs0_path_def)
  with cs show ?thesis by (intro exI [of _ "cs @ [name]"]) (simp add: list_all_iff)
qed

text \<open>The failures of an operation that creates a path: a file is in the way, or the path exists.\<close>

definition path_taken :: "central_db \<Rightarrow> string list \<Rightarrow> fs0_error \<Rightarrow> bool" where
  "path_taken s cs e \<longleftrightarrow>
     e = Sqlite ''database or disk is full'' \<or>
     e = AlreadyExists (path_of cs) \<and> (cs \<in> dir_paths s \<or> file_at s cs \<noteq> None) \<or>
     (\<exists>qs. strict_prefix qs cs \<and> file_at s qs \<noteq> None \<and> e = AlreadyExists (path_of qs))"

lemma copied_content:
  assumes inv: "db_inv s" and src: "find_file s i = Some f"
    and made: "created_file s cs sz csz now (Inr g) t" and frame: "tree_only s t"
  shows "\<exists>u. copy_file_bundles i (fr_file_id g) t = (Inr (), u) \<and> db_inv u \<and> db_dir_cache u = db_dir_cache t \<and>
    stored u = (stored s)(cs \<mapsto> (g, file_content s i)) \<and> file_at u cs = Some g \<and> fits_i64 (fr_file_id g) \<and>
    change_log u = change_log s"
proof -
  from made have inv_t: "db_inv t" and new: "file_at s cs = None" "file_at t = (file_at s)(cs \<mapsto> g)" "find_file s (fr_file_id g) = None"
    by (simp_all add: created_file_def)
  have at_g: "file_at t cs = Some g" using new(2) by simp
  have find_g: "find_file t (fr_file_id g) = Some g" by (rule find_file_at [OF inv_t at_g])
  obtain ps where ps: "file_at s ps = Some f"
    using file_has_path [OF db_invD(1) [OF inv], of f] find_fileD [OF src] by blast
  then have "file_at t ps = Some f" using new by auto
  then have find_i: "find_file t i = Some f" using find_file_at [OF inv_t] find_fileD [OF src] by blast
  have same: "file_content t = file_content s" using frame by (intro file_content_cong) (simp add: tree_only_def)
  have ne: "i \<noteq> fr_file_id g" using src new(3) by auto
  have "file_content t (fr_file_id g) = []" using content_of_missing [OF inv new(3)] same by simp
  from copy_file_bundles_spec [OF inv_t _ _ ne this] find_i find_g obtain u
    where u: "copy_file_bundles i (fr_file_id g) t = (Inr (), u)" "db_inv u"
      "db_conn u = (db_conn t)\<lparr> t_file_bundles := t_file_bundles (db_conn u) \<rparr>" "db_dir_cache u = db_dir_cache t"
      "file_content u (fr_file_id g) = file_content t i" "\<forall>k. k \<noteq> fr_file_id g \<longrightarrow> file_content u k = file_content t k"
    by auto
  have at: "file_at u = file_at t" using arg_cong [OF u(3), of t_dirs] arg_cong [OF u(3), of t_files]
    by (intro file_at_cong) simp_all
  have "stored u qs = ((stored s)(cs \<mapsto> (g, file_content s i))) qs" for qs
  proof (cases "qs = cs")
    case True
    then show ?thesis using u(5) same at at_g by (simp add: stored_def)
  next
    case False
    have "h \<noteq> g \<and> fr_file_id h \<noteq> fr_file_id g" if "file_at s qs = Some h" for h
      using find_file_at [OF inv that] new(3) by auto
    with False show ?thesis using u(6) same at new(2) by (cases "file_at s qs") (auto simp: stored_def)
  qed
  moreover have "fits_i64 (fr_file_id g)"
    using db_invD(5) [OF inv_t] find_fileD [OF find_g] file_id_fits by blast
  moreover have "change_log u = change_log s"
    using arg_cong [OF u(3), of t_events] frame by (simp add: change_log_def tree_only_def)
  ultimately show ?thesis using u(1,2,4) at at_g by (intro exI [of _ u]) (simp add: fun_eq_iff)
qed

lemma log_added_trans: "change_log t = change_log s \<Longrightarrow> log_added k p i n t s' \<Longrightarrow> log_added k p i n s s'"
  by (simp add: log_added_def)

lemma stored_cache: "stored (s\<lparr> db_dir_cache := c \<rparr>) = stored s" "change_log (s\<lparr> db_dir_cache := c \<rparr>) = change_log s"
  using file_at_cong [of "s\<lparr> db_dir_cache := c \<rparr>" s] file_content_cong [of "s\<lparr> db_dir_cache := c \<rparr>" s]
  by (simp_all add: fun_eq_iff stored_def change_log_def)

lemma copy_file_rolled_back:
  assumes inv: "db_inv s" and res: "copy_file_by_id i path now s = (r, t)" and same: "db_dir_cache s' = db_dir_cache t"
  shows "db_inv (rolled_back s s')"
proof -
  have eq: "rolled_back s s' = rolled_back s t" using same by (cases s', cases t) (simp add: rolled_back_def)
  have early: "db_inv (rolled_back s t)" if "t = s" using that inv by (simp add: rolled_back_same)
  show ?thesis unfolding eq
  proof (cases "split_fs0_path_dir_and_name path")
    case (Inl e)
    with res early show "db_inv (rolled_back s t)" by (simp add: copy_file_by_id_def st_bind_def)
  next
    case (Inr p)
    obtain dir name where p: "p = (dir, name)" by (cases p)
    have get: "get_file_by_id i s = (fst (get_file_by_id i s), s)"
      using get_file_by_id_spec [OF db_invD(1) [OF inv]] by simp
    show "db_inv (rolled_back s t)"
    proof (cases "fst (get_file_by_id i s)")
      case (Inl e)
      with get Inr p res early show ?thesis by (simp add: copy_file_by_id_def st_bind_eval)
    next
      case found: (Inr f)
      with get have "get_file_by_id i s = (Inr f, s)" by simp
      then show ?thesis using Inr p res unfolding copy_file_by_id_def
        by (intro create_dir_then_rolled_back [OF inv, of dir])
          (auto simp: st_bind_eval intro!: same_cache_intros same_cache_ensure same_cache_get_file_by_id)
    qed
  qed
qed

lemma copy_file_tx_spec:
  assumes inv: "db_inv s" and now: "fits_i64 now" and src: "find_file s i = Some f"
    and path: "split_fs0_path_dir_and_name path = Inr (dir, name)"
    and res: "copy_file_tx i path now s = (r, s')"
  shows "\<exists>cs. path = path_of cs \<and> list_all valid_component cs \<and> cs \<noteq> [] \<and>
    (case r of
       Inr record \<Rightarrow> \<exists>g. db_inv s' \<and> stored s cs = None \<and> cs \<notin> dir_paths s \<and>
         find_file s (fr_file_id g) = None \<and> fr_size_bytes g = fr_size_bytes f \<and>
         fr_compressed_size_bytes g = fr_compressed_size_bytes f \<and>
         stored s' = (stored s)(cs \<mapsto> (g, file_content s i)) \<and> record = record_of cs g \<and>
         log_added file_change_log_kind.Created (Some cs) (fr_file_id g) now s s'
     | Inl e \<Rightarrow> db_inv (rolled_back s s') \<and> path_taken s cs e)"
proof -
  from copy_file_by_id_spec [OF inv now src path] obtain cs r1 t
    where cs: "path = path_of cs" "list_all valid_component cs" "cs \<noteq> []"
      and copy: "copy_file_by_id i path now s = (r1, t)"
      and made: "created_file s cs (fr_size_bytes f) (fr_compressed_size_bytes f) now r1 t" by blast
  from target_path [OF path] cs have target: "(if dir = ''/'' then ''/'' @ name else dir @ ''/'' @ name) = path_of cs" by auto
  have frame: "tree_only s t" by (rule st_relD [OF tree_only_files(2) copy])
  show ?thesis
  proof (cases r1)
    case (Inl e)
    with res path copy have "r = Inl e" "s' = t" by (simp_all add: copy_file_tx_def st_bind_eval)
    moreover have "path_taken s cs e" using made Inl by (simp add: created_file_def path_taken_def)
    ultimately show ?thesis
      using cs copy_file_rolled_back [OF inv copy, of s'] by auto
  next
    case (Inr g)
    from copied_content [OF inv src made [unfolded Inr] frame] obtain u
      where u: "copy_file_bundles i (fr_file_id g) t = (Inr (), u)" "db_inv u" "db_dir_cache u = db_dir_cache t"
        "stored u = (stored s)(cs \<mapsto> (g, file_content s i))" "file_at u cs = Some g" "fits_i64 (fr_file_id g)"
        "change_log u = change_log s" by blast
    obtain r2 v where log: "insert_file_change_log file_change_log_kind.Created (Some (dir, name)) (Some (fr_file_id g)) now u = (r2, v)"
      by force
    note L = log_then [OF u(2) now u(6) _ log, of "Some cs"]
    show ?thesis
    proof (cases r2)
      case e: (Inl e)
      with res path copy Inr u log have "r = Inl e" "s' = v" by (simp_all add: copy_file_tx_def st_bind_eval)
      with L e target u(3) copy_file_rolled_back [OF inv copy, of s'] cs show ?thesis by (auto simp: path_taken_def)
    next
      case ok: (Inr x)
      from L ok target u(5) have v: "db_inv v" "file_at v cs = Some g" "stored v = stored u"
        "log_added file_change_log_kind.Created (Some cs) (fr_file_id g) now u v" by simp_all
      from file_at_record [OF v(1,2)] obtain c where rec: "file_record_of g v = (Inr (record_of cs g), v\<lparr> db_dir_cache := c \<rparr>)"
        "db_inv (v\<lparr> db_dir_cache := c \<rparr>)" by blast
      with res path copy Inr u log ok have "r = Inr (record_of cs g)" and s': "s' = v\<lparr> db_dir_cache := c \<rparr>"
        by (simp_all add: copy_file_tx_def st_bind_eval)
      moreover have "log_added file_change_log_kind.Created (Some cs) (fr_file_id g) now s s'"
        using log_added_trans [OF u(7) v(4)] by (simp add: s' log_added_def stored_cache)
      ultimately show ?thesis
        using cs made Inr rec(2) v(3) u(4) by (auto simp: created_file_def stored_cache stored_def intro!: exI [of _ g])
    qed
  qed
qed

definition drop_stored :: "u64 \<Rightarrow> (string list \<rightharpoonup> file_row \<times> hash_id list) \<Rightarrow> string list \<rightharpoonup> file_row \<times> hash_id list" where
  "drop_stored i m = (\<lambda>cs. case m cs of None \<Rightarrow> None | Some x \<Rightarrow> if fr_file_id (fst x) = i then None else Some x)"

lemma rename_file_rolled_back:
  assumes inv: "db_inv s" and res: "rename_file_by_id i path now s = (r, t)" and same: "db_dir_cache s' = db_dir_cache t"
  shows "db_inv (rolled_back s s')"
proof -
  have eq: "rolled_back s s' = rolled_back s t" using same by (cases s', cases t) (simp add: rolled_back_def)
  show ?thesis unfolding eq
  proof (cases "split_fs0_path_dir_and_name path")
    case (Inl e)
    with res inv show "db_inv (rolled_back s t)" by (simp add: rename_file_by_id_def st_bind_def rolled_back_same)
  next
    case (Inr p)
    obtain dir name where "p = (dir, name)" by (cases p)
    with Inr res show "db_inv (rolled_back s t)" unfolding rename_file_by_id_def
      by (intro create_dir_then_rolled_back [OF inv, of dir])
        (auto simp: st_bind_eval intro!: same_cache_intros same_cache_ensure same_cache_get_file_by_id)
  qed
qed

lemma rename_file_tx_spec:
  assumes inv: "db_inv s" and now: "fits_i64 now" and src: "find_file s i = Some f"
    and path: "split_fs0_path_dir_and_name path = Inr (dir, name)"
    and res: "rename_file_tx i path now s = (r, s')"
  shows "\<exists>cs. path = path_of cs \<and> list_all valid_component cs \<and> cs \<noteq> [] \<and>
    (case r of
       Inr record \<Rightarrow> \<exists>g. db_inv s' \<and> g = f\<lparr> fr_dir_id := fr_dir_id g, fr_name := last cs, fr_updated_at_ms := now \<rparr> \<and>
         cs \<notin> dir_paths s \<and> (\<forall>h c. stored s cs = Some (h, c) \<longrightarrow> fr_file_id h = i) \<and>
         stored s' = (drop_stored i (stored s))(cs \<mapsto> (g, file_content s i)) \<and> record = record_of cs g \<and>
         log_added file_change_log_kind.Moved (Some cs) i now s s'
     | Inl e \<Rightarrow> db_inv (rolled_back s s') \<and> path_taken s cs e)"
proof -
  from rename_file_by_id_spec [OF inv now path, of i] obtain cs r1 t
    where cs: "path = path_of cs" "list_all valid_component cs" "cs \<noteq> []"
      and ren: "rename_file_by_id i path now s = (r1, t)" and moved: "moved_file s i cs now r1 t" by blast
  from target_path [OF path] cs have target: "(if dir = ''/'' then ''/'' @ name else dir @ ''/'' @ name) = path_of cs" by auto
  have frame: "tree_only s t" by (rule st_relD [OF tree_only_files(3) ren])
  have inv_t: "db_inv t" using moved by (simp add: moved_file_def)
  have fits: "fits_i64 i" using db_invD(5) [OF inv] find_fileD [OF src] file_id_fits by blast
  show ?thesis
  proof (cases r1)
    case (Inl e)
    with res path ren have "r = Inl e" "s' = t" by (simp_all add: rename_file_tx_def st_bind_eval)
    moreover have "path_taken s cs e" using moved Inl src fits by (auto simp: moved_file_def path_taken_def)
    ultimately show ?thesis using cs rename_file_rolled_back [OF inv ren, of s'] by auto
  next
    case (Inr g)
    with moved src have g: "g = f\<lparr> fr_dir_id := fr_dir_id g, fr_name := last cs, fr_updated_at_ms := now \<rparr>"
      "cs \<notin> dir_paths s" "\<forall>h. file_at s cs = Some h \<longrightarrow> fr_file_id h = i" "file_at t = (drop_file i (file_at s))(cs \<mapsto> g)"
      by (simp_all add: moved_file_def)
    have gi: "fr_file_id g = i" using arg_cong [OF g(1), of fr_file_id] find_fileD [OF src] by simp
    have same: "file_content t = file_content s" using frame by (intro file_content_cong) (simp add: tree_only_def)
    have stored_t: "stored t = (drop_stored i (stored s))(cs \<mapsto> (g, file_content s i))"
      using g(4) gi same by (auto simp: fun_eq_iff stored_def drop_stored_def drop_file_def split: option.splits)
    obtain r2 v where log: "insert_file_change_log file_change_log_kind.Moved (Some (dir, name)) (Some i) now t = (r2, v)"
      by force
    note L = log_then [OF inv_t now fits _ log, of "Some cs"]
    show ?thesis
    proof (cases r2)
      case e: (Inl e)
      with res path ren Inr log have "r = Inl e" "s' = v" by (simp_all add: rename_file_tx_def st_bind_eval)
      with L e target rename_file_rolled_back [OF inv ren, of s'] cs show ?thesis by (auto simp: path_taken_def)
    next
      case ok: (Inr x)
      from L ok target g(4) have v: "db_inv v" "file_at v cs = Some g" "stored v = stored t"
        "log_added file_change_log_kind.Moved (Some cs) i now t v" by simp_all
      from file_at_record [OF v(1,2)] obtain c where rec: "file_record_of g v = (Inr (record_of cs g), v\<lparr> db_dir_cache := c \<rparr>)"
        "db_inv (v\<lparr> db_dir_cache := c \<rparr>)" by blast
      with res path ren Inr log ok have r: "r = Inr (record_of cs g)" and s': "s' = v\<lparr> db_dir_cache := c \<rparr>"
        by (simp_all add: rename_file_tx_def st_bind_eval)
      have "change_log t = change_log s" using frame by (simp add: change_log_def tree_only_def)
      from log_added_trans [OF this v(4)] have "log_added file_change_log_kind.Moved (Some cs) i now s s'"
        by (simp add: s' log_added_def stored_cache)
      moreover have "\<forall>h c. stored s cs = Some (h, c) \<longrightarrow> fr_file_id h = i" using g(3) by (auto simp: stored_def)
      moreover have "stored s' = (drop_stored i (stored s))(cs \<mapsto> (g, file_content s i))"
        using v(3) stored_t by (simp add: s' stored_cache)
      ultimately show ?thesis
        using cs r g(1,2) rec(2) by (intro exI [of _ cs]) (auto simp: s' intro!: exI [of _ g])
    qed
  qed
qed

lemma delete_file_tx_spec:
  assumes inv: "db_inv s" and now: "fits_i64 now" and i: "fits_i64 i"
    and res: "delete_file_tx i now s = (r, s')"
  shows "case r of
      Inr _ \<Rightarrow> db_inv s' \<and> find_file s i \<noteq> None \<and> stored s' = drop_stored i (stored s) \<and> dir_paths s' = dir_paths s \<and>
        log_added file_change_log_kind.Deleted None i now s s'
    | Inl e \<Rightarrow> e = NotFound \<and> find_file s i = None \<or> e = Sqlite ''database or disk is full''"
proof -
  let ?bs = "filter (\<lambda>r. fb_file_id r \<noteq> i) (t_file_bundles (db_conn s))"
  define t where "t = s\<lparr> db_conn := (db_conn s)\<lparr> t_file_bundles := ?bs \<rparr> \<rparr>"
  have del: "delete_file_bundles_by_file_id i s = (Inr (), t)" using delete_file_bundles_spec [OF i] by (simp add: t_def)
  have inv_t: "db_inv t" using st_relD [OF keeps_delete_file_bundles del] inv by (simp add: keeps_def)
  obtain r1 u where d: "delete_file_by_id i t = (r1, u)" by force
  note D = delete_file_by_id_spec [OF inv_t d]
  show ?thesis
  proof (cases r1)
    case (Inl e)
    then have "e = NotFound" using d i
      by (auto simp: delete_file_by_id_def st_bind_def exec_def delete_file_stmt_def u64_to_i64_fits split: if_splits)
    moreover have "find_file s i = None" using D Inl by (simp add: t_def find_file_def)
    moreover have "r = Inl e" using res del d Inl by (simp add: delete_file_tx_def st_bind_eval)
    ultimately show ?thesis by simp
  next
    case (Inr x)
    have bundles: "t_file_bundles (db_conn u) = ?bs" "change_log u = change_log s"
      using d Inr i by (auto simp: delete_file_by_id_def st_bind_def exec_def delete_file_stmt_def u64_to_i64_fits t_def
          change_log_def split: if_splits)
    have ats: "file_at t = file_at s" "dir_paths t = dir_paths s"
      by (rule file_at_cong) (simp_all add: t_def dir_paths_def)
    have U: "db_inv u" "find_file s i \<noteq> None" "dir_paths u = dir_paths s" "file_at u = drop_file i (file_at s)"
      using D Inr ats by (simp_all add: drop_file_def) (simp add: t_def find_file_def)
    have "file_content u j = file_content s j" if "j \<noteq> i" for j
    proof -
      have "filter (\<lambda>x. fb_file_id x \<noteq> i \<and> fb_file_id x = j) xs = filter (\<lambda>x. fb_file_id x = j) xs" for xs :: "file_bundle_row list"
        using that by (intro filter_cong) auto
      then show ?thesis using bundles(1) by (simp add: file_content_def bundle_rows_def)
    qed
    then have stored_u: "stored u = drop_stored i (stored s)"
      using U(4) by (auto simp: fun_eq_iff stored_def drop_stored_def drop_file_def split: option.splits)
    have log: "insert_file_change_log file_change_log_kind.Deleted None (Some i) now u = (r, s')"
      using res del d Inr by (simp add: delete_file_tx_def st_bind_eval)
    from log_then [OF U(1) now i _ log, of None] U stored_u bundles(2) show ?thesis
      by (cases r) (auto simp: log_added_def)
  qed
qed

section \<open>Committing an update\<close>

lemma submitted_size_Inr_iff:
  "submitted_size ready bs acc = Inr n \<longleftrightarrow>
     (\<forall>b\<in>set bs. hm_get ready (cb_bundle_id b) = Some (cb_raw_len b)) \<and>
     unat n = unat acc + (\<Sum>b\<leftarrow>bs. unat (cb_raw_len b))"
proof (induction bs arbitrary: acc)
  case Nil
  then show ?case by (auto simp: word_unat_eq_iff)
next
  case (Cons b bs)
  show ?case
  proof (cases "hm_get ready (cb_bundle_id b) = Some (cb_raw_len b)")
    case hit: True
    show ?thesis
    proof (cases "checked_add acc (cb_raw_len b)")
      case None
      then have "2 ^ 64 \<le> unat acc + unat (cb_raw_len b)"
        by (simp add: checked_add_def split: if_splits)
      with unat_lt_2_64 [of n] have "unat n \<noteq> unat acc + (unat (cb_raw_len b) + (\<Sum>b\<leftarrow>bs. unat (cb_raw_len b)))" by linarith
      with hit None show ?thesis by simp
    next
      case (Some m)
      with hit Cons.IH [of m] checked_add_SomeD [OF Some] show ?thesis by (simp add: add.assoc)
    qed
  qed (auto split: option.splits)
qed

text \<open>When a commit is accepted: the lease is the one of the file and has not expired, neither the lease nor the
  file has another base size, and the submitted bundles are stored with the submitted lengths, which sum to the new size.\<close>

definition commit_ready :: "commit_update_request \<Rightarrow> u64 \<Rightarrow> central_db \<Rightarrow> bool" where
  "commit_ready request now s \<longleftrightarrow>
     (case (lease_of_file s (cur_file_id request), find_file s (cur_file_id request)) of
        (Some l, Some f) \<Rightarrow>
          lr_lease_id l = cur_lease_id request \<and> now < lr_expires_at_ms l \<and>
          lr_base_size_bytes l = cur_base_size request \<and> lr_offset_bytes l \<le> cur_new_size request \<and>
          fr_size_bytes f = cur_base_size request \<and>
          (\<forall>b\<in>set (cur_bundles request). map_option br_raw_len (first_replica (db_conn s) (cb_bundle_id b)) = Some (cb_raw_len b)) \<and>
          (\<Sum>b\<leftarrow>cur_bundles request. unat (cb_raw_len b)) = unat (cur_new_size request)
      | _ \<Rightarrow> False)"

lemma ready_raw_lens_spec:
  assumes "links_ok (db_conn s)"
  obtains rs where "get_bundle_replicas_by_id ids s = (Inr rs, s)"
    and "\<And>b. b \<in> set ids \<Longrightarrow> hm_get (ready_raw_lens rs) b = map_option br_raw_len (first_replica (db_conn s) b)"
proof -
  let ?rs = "concat (map (\<lambda>b. select_replicas b (db_conn s)) (slice_chunks BUNDLE_ID_QUERY_BATCH_SIZE ids))"
  have "concat (slice_chunks BUNDLE_ID_QUERY_BATCH_SIZE ids) = ids"
    by (rule concat_slice_chunks) (simp add: BUNDLE_ID_QUERY_BATCH_SIZE_def)
  then have "hm_get (ready_raw_lens ?rs) b = map_option br_raw_len (first_replica (db_conn s) b)" if "b \<in> set ids" for b
    using that unfolding ready_raw_lens_def by (simp add: get_ready_fold find_replicas)
  with get_bundle_replicas_by_id_spec [OF assms, of ids] that show thesis by blast
qed

lemma commit_update_check_spec:
  assumes inv: "db_inv s" and fits: "fits_i64 (cur_lease_id request)" "fits_i64 (cur_file_id request)" "fits_i64 now"
    and res: "commit_update_check request now s = (r, s')"
  shows "s' = s \<and> (case r of
      Inr (lease, f) \<Rightarrow> commit_ready request now s \<and> lrec_file_id lease = cur_file_id request \<and>
        find_file s (cur_file_id request) = Some f
    | Inl _ \<Rightarrow> \<not> commit_ready request now s)"
proof -
  let ?i = "cur_file_id request" and ?l = "cur_lease_id request"
  have linv: "leases_inv (db_conn s)" using db_invD(2) [OF inv] by (simp add: links_ok_def)
  note load = load_active_spec(1) [OF inv fits]
  note row = active_lease_row_iff [OF linv, of ?l ?i now]
  note get = get_file_by_id_spec [OF db_invD(1) [OF inv], of ?i]
  obtain rs where reps: "get_bundle_replicas_by_id (map cb_bundle_id (cur_bundles request)) s = (Inr rs, s)"
    and raw: "\<And>b. b \<in> set (map cb_bundle_id (cur_bundles request)) \<Longrightarrow>
      hm_get (ready_raw_lens rs) b = map_option br_raw_len (first_replica (db_conn s) b)"
    using ready_raw_lens_spec [OF db_invD(2) [OF inv]] by blast
  show ?thesis
  proof (cases "active_lease_row ?l ?i now (db_conn s)")
    case None
    have "\<not> commit_ready request now s"
      using row None by (auto simp: commit_ready_def split: option.splits)
    moreover have "s' = s \<and> (\<exists>e. r = Inl e)"
      using res load None by (auto simp: commit_update_check_def st_bind_eval st_map_err_def)
    ultimately show ?thesis by auto
  next
    case (Some x)
    then have x: "lease_of_file s ?i = Some x" "lr_lease_id x = ?l" "now < lr_expires_at_ms x" unfolding row by simp_all
    show ?thesis
    proof (cases "find_file s ?i")
      case None
      with res load Some x fits get show ?thesis
        by (auto simp: commit_update_check_def commit_ready_def st_bind_eval st_map_err_def split: if_splits)
    next
      case f: (Some f)
      have sub: "submitted_size (ready_raw_lens rs) (cur_bundles request) 0 = Inr n \<longleftrightarrow>
          (\<forall>b\<in>set (cur_bundles request). map_option br_raw_len (first_replica (db_conn s) (cb_bundle_id b)) = Some (cb_raw_len b)) \<and>
          unat n = (\<Sum>b\<leftarrow>cur_bundles request. unat (cb_raw_len b))" for n
        using raw by (auto simp: submitted_size_Inr_iff)
      show ?thesis
      proof (cases "submitted_size (ready_raw_lens rs) (cur_bundles request) 0")
        case (Inl e)
        then have "\<not> (\<exists>n. submitted_size (ready_raw_lens rs) (cur_bundles request) 0 = Inr n)" by simp
        then have "\<not> commit_ready request now s" unfolding sub using x f by (auto simp: commit_ready_def)
        with res load Some x f fits get reps Inl show ?thesis
          by (auto simp: commit_update_check_def st_bind_eval st_map_err_def split: if_splits)
      next
        case (Inr n)
        have "n = cur_new_size request \<longleftrightarrow> (\<Sum>b\<leftarrow>cur_bundles request. unat (cb_raw_len b)) = unat (cur_new_size request)"
          using sub [of n] Inr by (simp add: word_unat_eq_iff)
        with sub [of n] Inr res load Some x f fits get reps show ?thesis
          by (auto simp: commit_update_check_def commit_ready_def st_bind_eval st_map_err_def not_le split: if_splits)
      qed
    qed
  qed
qed

definition compressed_total :: "central_db \<Rightarrow> committed_bundle list \<Rightarrow> nat" where
  "compressed_total s bs = (\<Sum>b\<leftarrow>bs. compressed_len_of (db_conn s) (cb_bundle_id b))"

definition request_ok :: "commit_update_request \<Rightarrow> bool" where
  "request_ok request \<longleftrightarrow> length (cur_bundles request) \<le> 2 ^ 63 \<and>
     list_all (\<lambda>b. hash_ok (cb_bundle_id b)) (cur_bundles request)"

definition updated_row :: "commit_update_request \<Rightarrow> u64 \<Rightarrow> u64 \<Rightarrow> file_row \<Rightarrow> file_row" where
  "updated_row request csz now f =
     f\<lparr> fr_size_bytes := cur_new_size request, fr_compressed_size_bytes := csz, fr_updated_at_ms := now \<rparr>"

definition committed :: "commit_update_request \<Rightarrow> u64 \<Rightarrow> string list \<Rightarrow> file_row \<Rightarrow> central_db \<Rightarrow> file_record \<Rightarrow> central_db \<Rightarrow> bool" where
  "committed request now cs f s record s' \<longleftrightarrow>
     (\<exists>csz. unat csz = compressed_total s (cur_bundles request) \<and>
        stored s' = (stored s)(cs \<mapsto> (updated_row request csz now f, map cb_bundle_id (cur_bundles request))) \<and>
        record = record_of cs (updated_row request csz now f) \<and>
        lease_of_file s' = (lease_of_file s)(cur_file_id request := None) \<and>
        log_added (if fr_size_bytes f = 0 then file_change_log_kind.Created else file_change_log_kind.Updated)
          (Some cs) (cur_file_id request) now s s')"

lemma commit_sizes:
  assumes inv: "db_inv t" and i: "fits_i64 i" and content: "file_content t i = map cb_bundle_id bs"
    and raw: "\<forall>b\<in>set bs. map_option br_raw_len (first_replica (db_conn t) (cb_bundle_id b)) = Some (cb_raw_len b)"
    and sum: "(\<Sum>b\<leftarrow>bs. unat (cb_raw_len b)) = unat n"
    and csum: "unat csz = (\<Sum>b\<leftarrow>bs. compressed_len_of (db_conn t) (cb_bundle_id b))"
  shows "calculate_size_by_file_id i t = (Inr (n, csz), t)"
proof -
  have len: "raw_len_of (db_conn t) (cb_bundle_id b) = unat (cb_raw_len b)" if "b \<in> set bs" for b
    using raw that by (auto simp: raw_len_of_def)
  have "(\<Sum>b\<leftarrow>file_content t i. raw_len_of (db_conn t) b) = unat n"
    using sum len by (simp add: content comp_def cong: map_cong)
  moreover have "unat csz = (\<Sum>b\<leftarrow>file_content t i. compressed_len_of (db_conn t) b)"
    using csum by (simp add: content comp_def)
  moreover have "\<forall>b\<in>set (file_content t i). first_replica (db_conn t) b \<noteq> None"
    using raw by (force simp: content)
  ultimately have "fst (calculate_size_by_file_id i t) = Inr (n, csz)"
    using calculate_size_spec(2) [OF db_invD(2) [OF inv] i] by simp
  with calculate_size_spec(1) [OF db_invD(2) [OF inv] i] show ?thesis by (metis prod.collapse)
qed

lemma lease_dropped:
  assumes inv: "db_inv s" and l: "lease_of_file s i = Some l"
  shows "lease_of_file (s\<lparr> db_conn := (db_conn s)\<lparr> t_leases := filter (\<lambda>r. lr_lease_id r \<noteq> lr_lease_id l) (t_leases (db_conn s)) \<rparr> \<rparr>) =
    (lease_of_file s)(i := None)"
proof
  fix j
  have linv: "leases_inv (db_conn s)" using db_invD(2) [OF inv] by (simp add: links_ok_def)
  have same: "j = i" if "lease_of_file s j = Some r" "lr_lease_id r = lr_lease_id l" for r
  proof -
    have "r = l" using that lease_of_fileD [OF l] lease_of_fileD [OF that(1)] linv
      unfolding leases_inv_def by (metis key_unique)
    then show ?thesis using lease_of_fileD [OF l] lease_of_fileD [OF that(1)] by simp
  qed
  show "lease_of_file (s\<lparr> db_conn := (db_conn s)\<lparr> t_leases := filter (\<lambda>r. lr_lease_id r \<noteq> lr_lease_id l) (t_leases (db_conn s)) \<rparr> \<rparr>) j =
    ((lease_of_file s)(i := None)) j"
    using l same unfolding lease_of_file_filter [OF linv]
    by (cases "j = i") (auto split: option.splits)
qed

lemma only_path:
  assumes inv: "db_inv s" and at: "file_at s cs = Some f"
  shows "file_at s qs = Some g \<Longrightarrow> fr_file_id g = fr_file_id f \<longleftrightarrow> qs = cs"
  using at file_ids_inject [OF inv, of qs "fr_file_id f" cs] by (auto simp: file_ids_def)

text \<open>The last steps of a commit: the path of the directory, the event and the record.\<close>

lemma commit_tail:
  assumes inv: "db_inv v" and at: "file_at v cs = Some g" and dir: "fr_dir_id f = fr_dir_id g" "fr_name f = fr_name g"
    and now: "fits_i64 now" and i: "fits_i64 i"
    and res: "st_bind (get_dir_path_by_id (fr_dir_id f)) (\<lambda>file_dir.
       st_bind (insert_file_change_log kind (Some (file_dir, fr_name f)) (Some i) now) (\<lambda>_. file_record_of g)) v = (r, s')"
  shows "case r of
      Inr record \<Rightarrow> db_inv s' \<and> record = record_of cs g \<and> stored s' = stored v \<and> lease_of_file s' = lease_of_file v \<and>
        log_added kind (Some cs) i now v s'
    | Inl e \<Rightarrow> e = Sqlite ''database or disk is full''"
proof -
  from at file_at_iff [OF db_invD(1) [OF inv]] have cs: "cs \<noteq> []" "last cs = fr_name g"
    "walk (dirs_of v) ROOT_DIR_ID (butlast cs) = Some (fr_dir_id g)" by blast+
  from get_dir_path_by_id_spec [OF db_invD(3) [OF inv] cs(3)] obtain c
    where get: "get_dir_path_by_id (fr_dir_id f) v = (Inr (path_of (butlast cs)), v\<lparr> db_dir_cache := c \<rparr>)"
      and "dir_ok (v\<lparr> db_dir_cache := c \<rparr>)" unfolding dir by blast
  define w where "w = v\<lparr> db_dir_cache := c \<rparr>"
  have inv_w: "db_inv w" using keeps_cache [OF \<open>dir_ok _\<close> inv] by (simp add: w_def)
  have full: "butlast cs @ [fr_name f] = cs" using cs dir by (metis append_butlast_last_id)
  have "list_all valid_component (butlast cs)" using walk_in_dirs(3) [OF db_invD(4) [OF inv] cs(3)] .
  then have "join_fs0_path (path_of (butlast cs)) (fr_name f) = Inr (path_of cs)"
    using join_path_of [of "butlast cs" "fr_name f"] full by (simp add: list_all_iff)
  then have target: "map_option (\<lambda>(dir, name). if dir = ''/'' then ''/'' @ name else dir @ ''/'' @ name)
      (Some (path_of (butlast cs), fr_name f)) = map_option path_of (Some cs)" by (auto simp: join_fs0_path_def)
  obtain r1 x where log: "insert_file_change_log kind (Some (path_of (butlast cs), fr_name f)) (Some i) now w = (r1, x)" by force
  note L = log_then [OF inv_w now i target log]
  show ?thesis
  proof (cases r1)
    case (Inl e)
    with res get log L show ?thesis by (auto simp: st_bind_eval w_def)
  next
    case (Inr y)
    with L have x: "db_inv x" "log_added kind (Some cs) i now w x" "stored x = stored w" "file_at x = file_at w"
      "t_leases (db_conn x) = t_leases (db_conn w)" by simp_all
    have at_x: "file_at x cs = Some g" using x(4) at file_at_cong [of w v] by (simp add: w_def)
    from file_at_record [OF x(1) at_x] obtain c' where rec: "file_record_of g x = (Inr (record_of cs g), x\<lparr> db_dir_cache := c' \<rparr>)"
      "db_inv (x\<lparr> db_dir_cache := c' \<rparr>)" by blast
    have "r = Inr (record_of cs g)" "s' = x\<lparr> db_dir_cache := c' \<rparr>"
      using res get log Inr rec(1) by (simp_all add: st_bind_eval w_def)
    moreover have "change_log w = change_log v" "stored w = stored v" by (simp_all add: w_def stored_cache)
    moreover have "lease_of_file x = lease_of_file v" using x(5) by (simp add: fun_eq_iff lease_of_file_def w_def)
    ultimately show ?thesis using x rec(2) by (simp add: stored_cache log_added_def lease_of_file_def fun_eq_iff)
  qed
qed

lemma lease_id_fits:
  assumes inv: "db_inv s" and l: "lease_of_file s i = Some l"
  shows "fits_i64 (lr_lease_id l)"
proof -
  have "lr_lease_id l \<le> t_leases_seq (db_conn s)" "fits_i64 (t_leases_seq (db_conn s))"
    using db_invD(2) [OF inv] lease_of_fileD [OF l] by (auto simp: links_ok_def leases_inv_def)
  then show ?thesis by (rule fits_mono [rotated])
qed

lemma commit_update_apply_spec:
  assumes inv: "db_inv s" and now: "fits_i64 now" "fits_i64 lease_now" and ok: "request_ok request"
    and ready: "commit_ready request lease_now s" and id: "lrec_file_id lease = cur_file_id request"
    and f: "find_file s (cur_file_id request) = Some f" and at: "file_at s cs = Some f"
    and size_fits: "fits_i64 (cur_new_size request)" "compressed_total s (cur_bundles request) < 2 ^ 63"
    and res: "commit_update_apply request now lease f s = (r, s')"
  shows "case r of
      Inr record \<Rightarrow> db_inv s' \<and> committed request now cs f s record s'
    | Inl e \<Rightarrow> e = Sqlite ''database or disk is full''"
proof -
  let ?i = "cur_file_id request" and ?bs = "cur_bundles request"
  have i: "fits_i64 ?i" using file_id_fits [OF db_invD(5) [OF inv]] find_fileD [OF f] by metis
  define csz :: u64 where "csz = of_nat (compressed_total s ?bs)"
  have csz: "unat csz = compressed_total s ?bs" "fits_i64 csz"
    using size_fits(2) by (simp_all add: csz_def unat_of_nat fits_i64_def word_less_nat_alt)
  obtain l where l: "lease_of_file s ?i = Some l" "lr_lease_id l = cur_lease_id request"
    and raw: "\<forall>b\<in>set ?bs. map_option br_raw_len (first_replica (db_conn s) (cb_bundle_id b)) = Some (cb_raw_len b)"
    and sum: "(\<Sum>b\<leftarrow>?bs. unat (cb_raw_len b)) = unat (cur_new_size request)"
    using ready f by (auto simp: commit_ready_def split: option.splits)
  have lfits: "fits_i64 (cur_lease_id request)" using lease_id_fits [OF inv l(1)] l(2) by simp
  obtain t where t: "upsert_file_bundles_by_file_id ?i ?bs s = (Inr (), t)" "db_inv t"
      "db_conn t = (db_conn s)\<lparr> t_file_bundles := t_file_bundles (db_conn t) \<rparr>" "db_dir_cache t = db_dir_cache s"
      "file_content t ?i = map cb_bundle_id ?bs" "\<forall>j. j \<noteq> ?i \<longrightarrow> file_content t j = file_content s j"
    using upsert_file_bundles_spec [OF inv, of ?i ?bs] f ok by (auto simp: request_ok_def list_all_iff)
  have conn_t: "t_replicas (db_conn t) = t_replicas (db_conn s)" "files_of t = files_of s" "dirs_of t = dirs_of s"
    "t_leases (db_conn t) = t_leases (db_conn s)" "t_events (db_conn t) = t_events (db_conn s)"
    using arg_cong [OF t(3), of t_replicas] arg_cong [OF t(3), of t_files] arg_cong [OF t(3), of t_dirs]
      arg_cong [OF t(3), of t_leases] arg_cong [OF t(3), of t_events] by simp_all
  have first: "first_replica (db_conn t) = first_replica (db_conn s)" using conn_t(1) by (simp add: fun_eq_iff first_replica_def)
  have calc: "calculate_size_by_file_id ?i t = (Inr (cur_new_size request, csz), t)"
    using csz(1) raw sum by (intro commit_sizes [OF t(2) i t(5)]) (simp_all add: first compressed_len_of_def compressed_total_def)
  have f_t: "find_file t ?i = Some f" using f conn_t(2) by (simp add: find_file_def)
  let ?f = "updated_row request csz now f"
  obtain u where u: "update_file_after_update ?i (cur_new_size request) csz now t = (Inr ?f, u)" "db_inv u"
      "db_conn u = (db_conn t)\<lparr> t_files := files_of u \<rparr>" "dir_paths u = dir_paths t"
      "file_at u = (\<lambda>cs. case file_at t cs of None \<Rightarrow> None | Some g \<Rightarrow> Some (if fr_file_id g = ?i then ?f else g))"
    using update_file_after_update_spec [OF t(2) f_t size_fits(1) csz(2) now(1)] unfolding updated_row_def by blast
  have conn_u: "t_file_bundles (db_conn u) = t_file_bundles (db_conn t)" "t_leases (db_conn u) = t_leases (db_conn t)"
     "t_events (db_conn u) = t_events (db_conn t)"
    using arg_cong [OF u(3), of t_file_bundles] arg_cong [OF u(3), of t_leases] arg_cong [OF u(3), of t_events] by simp_all
  have at_t: "file_at t = file_at s" using conn_t by (intro file_at_cong)
  have at_u: "file_at u = (file_at s)(cs \<mapsto> ?f)"
    unfolding u(5) at_t using only_path [OF inv at] find_fileD [OF f] at by (auto simp: fun_eq_iff split: option.splits)
  have content_u: "file_content u = (file_content s)(?i := map cb_bundle_id ?bs)"
    using file_content_cong [OF conn_u(1)] t(5,6) by (auto simp: fun_eq_iff)
  have stored_u: "stored u = (stored s)(cs \<mapsto> (?f, map cb_bundle_id ?bs))"
  proof
    fix qs
    show "stored u qs = ((stored s)(cs \<mapsto> (?f, map cb_bundle_id ?bs))) qs"
      using only_path [OF inv at, of qs] find_fileD [OF f]
      by (cases "file_at s qs") (auto simp: stored_def at_u content_u updated_row_def)
  qed
  define v where "v = u\<lparr> db_conn := (db_conn u)\<lparr> t_leases := filter (\<lambda>r. lr_lease_id r \<noteq> cur_lease_id request) (t_leases (db_conn u)) \<rparr> \<rparr>"
  have del: "delete_update_lease (cur_lease_id request) u = (Inr (), v)"
    using delete_update_lease_spec [OF lfits] by (simp add: v_def)
  have inv_v: "db_inv v" using db_inv_filter_leases [OF u(2)] by (simp add: v_def)
  have "lease_of_file u = lease_of_file s" using conn_u(2) conn_t(4) by (simp add: fun_eq_iff lease_of_file_def)
  with lease_dropped [OF u(2), of ?i l] l have lease_v: "lease_of_file v = (lease_of_file s)(?i := None)" by (simp add: v_def)
  have at_v: "file_at v cs = Some ?f" using file_at_cong [of v u] at_u by (simp add: v_def)
  have stored_v: "stored v = stored u" using file_at_cong [of v u] file_content_cong [of v u] by (simp add: v_def stored_def fun_eq_iff)
  have log_v: "change_log v = change_log s" using conn_u(3) conn_t(5) by (simp add: v_def change_log_def)
  let ?kind = "if fr_size_bytes f = 0 then file_change_log_kind.Created else file_change_log_kind.Updated"
  have tail: "st_bind (get_dir_path_by_id (fr_dir_id f)) (\<lambda>file_dir.
       st_bind (insert_file_change_log ?kind (Some (file_dir, fr_name f)) (Some ?i) now) (\<lambda>_. file_record_of ?f)) v = (r, s')"
    using res t(1) calc u(1) del by (simp add: commit_update_apply_def id st_bind_eval)
  have "fr_dir_id f = fr_dir_id ?f" "fr_name f = fr_name ?f" by (simp_all add: updated_row_def)
  from commit_tail [OF inv_v at_v this now(1) i tail] csz(1) stored_u stored_v lease_v log_v show ?thesis
    by (cases r) (auto simp: committed_def log_added_def)
qed

lemma commit_update_tx_spec:
  assumes inv: "db_inv s" and now: "fits_i64 now" "fits_i64 lease_now"
    and ids: "fits_i64 (cur_lease_id request)" "fits_i64 (cur_file_id request)" and ok: "request_ok request"
    and sizes: "fits_i64 (cur_new_size request)" "compressed_total s (cur_bundles request) < 2 ^ 63"
    and res: "commit_update_tx request now lease_now s = (r, s')"
  shows "case r of
      Inr record \<Rightarrow> commit_ready request lease_now s \<and> db_inv s' \<and>
        (\<exists>cs f. file_at s cs = Some f \<and> fr_file_id f = cur_file_id request \<and> committed request now cs f s record s')
    | Inl e \<Rightarrow> \<not> commit_ready request lease_now s \<or> e = Sqlite ''database or disk is full''"
proof -
  obtain r1 t where chk: "commit_update_check request lease_now s = (r1, t)" by force
  note C = commit_update_check_spec [OF inv ids now(2) chk]
  show ?thesis
  proof (cases r1)
    case (Inl e)
    with C chk res show ?thesis by (auto simp: commit_update_tx_def st_bind_eval)
  next
    case (Inr x)
    obtain lease f where x: "x = (lease, f)" by (cases x)
    with C Inr have t: "t = s" and ready: "commit_ready request lease_now s" and id: "lrec_file_id lease = cur_file_id request"
      and f: "find_file s (cur_file_id request) = Some f" by simp_all
    from file_has_path [OF db_invD(1) [OF inv], of f] find_fileD [OF f] obtain cs where at: "file_at s cs = Some f" by blast
    have "commit_update_apply request now lease f s = (r, s')"
      using res chk Inr x t by (simp add: commit_update_tx_def st_bind_eval)
    from commit_update_apply_spec [OF inv now ok ready id f at sizes this] ready at find_fileD [OF f] show ?thesis
      by (cases r) auto
  qed
qed

section \<open>Beginning an update\<close>

lemma select_volume_cases:
  "select_volume request vs c =
     (case find (\<lambda>(i, v). \<not> skip_volume request v \<and> bur_prefer_volume_name request = Some (svi_name v)) vs of
        Some (i, v) \<Rightarrow> Some (i, svi_volume_id v)
      | None \<Rightarrow> (case c of Some x \<Rightarrow> Some x
          | None \<Rightarrow> map_option (\<lambda>(i, v). (i, svi_volume_id v)) (find (\<lambda>(i, v). \<not> skip_volume request v) vs)))"
  by (induction request vs c rule: select_volume.induct) (auto split: option.splits)

lemma begin_update_file_spec:
  assumes inv: "db_inv s" and now: "fits_i64 now" and res: "begin_update_file request now s = (Inr (f, base), t)"
  shows "\<exists>cs. bur_path request = path_of cs \<and> list_all valid_component cs \<and> cs \<noteq> [] \<and> db_inv t \<and>
    t_leases (db_conn t) = t_leases (db_conn s) \<and> file_at t = (file_at s)(cs \<mapsto> f) \<and> base = fr_size_bytes f \<and>
    (case file_at s cs of
       Some g \<Rightarrow> f = g \<and> bur_offset request \<le> fr_size_bytes g
     | None \<Rightarrow> bur_offset request = 0 \<and> fr_size_bytes f = 0 \<and> cs \<notin> dir_paths s \<and> find_file s (fr_file_id f) = None)"
proof -
  let ?p = "bur_path request"
  have "\<exists>d. split_fs0_path_dir_and_name ?p = Inr d"
  proof (cases "split_fs0_path_dir_and_name ?p")
    case (Inl e)
    with split_dir_and_name_error [OF Inl] res show ?thesis
      by (simp add: begin_update_file_def get_file_by_path_def st_bind_def)
  qed simp
  then obtain dir name where split: "split_fs0_path_dir_and_name ?p = Inr (dir, name)" by (metis prod.collapse)
  from target_path [OF split] obtain cs where cs: "?p = path_of cs" "list_all valid_component cs" "cs \<noteq> []" by blast
  from get_file_by_path_file_at [OF db_invD(1) [OF inv] cs(2,3)] obtain c
    where get: "get_file_by_path ?p s = (ok_or NotFound (file_at s cs), s\<lparr> db_dir_cache := c \<rparr>)"
      and tok: "tree_ok (s\<lparr> db_dir_cache := c \<rparr>)" unfolding cs(1) by blast
  define s1 where "s1 = s\<lparr> db_dir_cache := c \<rparr>"
  have inv1: "db_inv s1" using tok db_invD(2) [OF inv] by (simp add: db_inv_def s1_def)
  have at1: "file_at s1 = file_at s" by (rule file_at_cong) (simp_all add: s1_def)
  show ?thesis
  proof (cases "file_at s cs")
    case (Some g)
    with res get inv1 at1 cs show ?thesis
      by (intro exI [of _ cs]) (auto simp: begin_update_file_def s1_def fun_eq_iff not_less split: if_splits)
  next
    case None
    with res get have off: "bur_offset request = 0" and base: "base = 0" and mk: "create_file ?p now s1 = (Inr f, t)"
      by (auto simp: begin_update_file_def s1_def st_bind_Inr_iff split: if_splits)
    from create_file_spec [OF inv1 now split] mk cs obtain ds where "path_of ds = path_of cs" "list_all valid_component ds"
        and made: "created_file s1 ds 0 0 now (Inr f) t" by auto
    then have ds: "ds = cs" using path_of_inject [of ds cs] cs(2) by (simp add: list_all_iff)
    have "tree_only s1 t" by (rule st_relD [OF tree_only_files(1) mk])
    with made off base None cs ds at1 show ?thesis
      by (intro exI [of _ cs]) (auto simp: created_file_def tree_only_def s1_def dir_paths_def find_file_def)
  qed
qed

lemma begin_update_tx_spec:
  assumes inv: "db_inv s" and now: "fits_i64 now" "fits_i64 (now + UPDATE_LEASE_TTL_MS)"
    and res: "begin_update_tx request v now s = (Inr lease, s')"
  shows "db_inv s' \<and>
    (\<exists>cs f l. bur_path request = path_of cs \<and> list_all valid_component cs \<and> cs \<noteq> [] \<and>
       file_at s' = (file_at s)(cs \<mapsto> f) \<and>
       (case file_at s cs of
          Some g \<Rightarrow> f = g \<and> bur_offset request \<le> fr_size_bytes g
        | None \<Rightarrow> bur_offset request = 0 \<and> fr_size_bytes f = 0 \<and> cs \<notin> dir_paths s \<and> find_file s (fr_file_id f) = None) \<and>
       (\<forall>x. lease_of_file s (fr_file_id f) = Some x \<longrightarrow> lr_expires_at_ms x \<le> now) \<and>
       lease_of_file s' (fr_file_id f) = Some l \<and> lr_lease_id l = ul_lease_id lease \<and>
       lr_base_size_bytes l = fr_size_bytes f \<and> lr_offset_bytes l = bur_offset request \<and> lr_volume_id l = v \<and>
       lr_expires_at_ms l = now + UPDATE_LEASE_TTL_MS \<and>
       lease = \<lparr> ul_lease_id = ul_lease_id lease, ul_file_id = fr_file_id f, ul_volume_id = v, ul_base_size = fr_size_bytes f,
         ul_offset = bur_offset request, ul_expires_at_ms = now + UPDATE_LEASE_TTL_MS,
         ul_prefer_volume_name = bur_prefer_volume_name request \<rparr> \<and>
       (\<forall>j. j \<noteq> fr_file_id f \<longrightarrow> lease_of_file s' j = (case lease_of_file s j of None \<Rightarrow> None | Some x \<Rightarrow> if now < lr_expires_at_ms x then Some x else None)))"
proof -
  obtain f base t where bfile: "begin_update_file request now s = (Inr (f, base), t)"
    and rest: "st_bind (delete_expired_update_leases now) (\<lambda>_.
       st_bind (file_has_active_update_lease (fr_file_id f)) (\<lambda>active.
       if active then st_throw (AlreadyExists (bur_path request))
       else create_update_lease \<lparr> cul_file_id = fr_file_id f, cul_volume_id = v,
        cul_base_size_bytes = base, cul_offset_bytes = bur_offset request,
        cul_prefer_volume_name = bur_prefer_volume_name request, cul_expires_at_ms = now + UPDATE_LEASE_TTL_MS,
        cul_created_at_ms = now \<rparr>)) t = (Inr lease, s')"
    using res by (auto simp: begin_update_tx_def Let_def st_bind_Inr_iff [of "begin_update_file request now"])
  from begin_update_file_spec [OF inv now(1) bfile] obtain cs
    where cs: "bur_path request = path_of cs" "list_all valid_component cs" "cs \<noteq> []" and inv_t: "db_inv t"
      and leases: "t_leases (db_conn t) = t_leases (db_conn s)" and at: "file_at t = (file_at s)(cs \<mapsto> f)" and base: "base = fr_size_bytes f"
      and was: "case file_at s cs of Some g \<Rightarrow> f = g \<and> bur_offset request \<le> fr_size_bytes g
        | None \<Rightarrow> bur_offset request = 0 \<and> fr_size_bytes f = 0 \<and> cs \<notin> dir_paths s \<and> find_file s (fr_file_id f) = None"
    by blast
  have fits: "fits_i64 (fr_file_id f)"
    using file_id_fits [OF db_invD(5) [OF inv_t]] find_fileD [OF find_file_at [OF inv_t, of cs f]] at by simp
  define u where "u = t\<lparr> db_conn := (db_conn t)\<lparr> t_leases := filter (\<lambda>r. \<not> lr_expires_at_ms r \<le> now) (t_leases (db_conn t)) \<rparr> \<rparr>"
  have inv_u: "db_inv u" using db_inv_filter_leases [OF inv_t] by (simp add: u_def)
  have linv: "leases_inv (db_conn t)" using db_invD(2) [OF inv_t] by (simp add: links_ok_def)
  have lease_u: "lease_of_file u j = (case lease_of_file s j of None \<Rightarrow> None | Some x \<Rightarrow> if now < lr_expires_at_ms x then Some x else None)" for j
    using leases unfolding u_def lease_of_file_filter [OF linv] by (simp add: lease_of_file_def not_le split: option.split)
  let ?a = "\<lparr> cul_file_id = fr_file_id f, cul_volume_id = v, cul_base_size_bytes = base, cul_offset_bytes = bur_offset request,
        cul_prefer_volume_name = bur_prefer_volume_name request, cul_expires_at_ms = now + UPDATE_LEASE_TTL_MS,
        cul_created_at_ms = now \<rparr>"
  have mk: "lease_of_file u (fr_file_id f) = None" "create_update_lease ?a u = (Inr lease, s')"
    using rest delete_expired_spec [OF now(1), of t] file_has_active_spec [OF fits, of u]
    by (auto simp: st_bind_eval u_def split: if_splits)
  note L = create_update_lease_spec [OF inv_u mk(2)]
  obtain l where l: "lease_of_file s' = (lease_of_file u)(fr_file_id f \<mapsto> l)" "lr_lease_id l = ul_lease_id lease"
    "lr_volume_id l = v" "lr_base_size_bytes l = base" "lr_offset_bytes l = bur_offset request"
    "lr_expires_at_ms l = now + UPDATE_LEASE_TTL_MS" using L(3) by auto
  have "file_at s' = file_at t"
    using arg_cong [OF L(7), of t_dirs] arg_cong [OF L(7), of t_files] by (intro file_at_cong) (simp_all add: u_def)
  moreover have "lr_expires_at_ms x \<le> now" if "lease_of_file s (fr_file_id f) = Some x" for x
    using mk(1) that unfolding lease_u by (simp add: not_less split: if_splits)
  ultimately show ?thesis
    using L(1,4) l cs at was base lease_u by (intro conjI exI [of _ cs] exI [of _ f] exI [of _ l]) simp_all
qed

section \<open>The plan by which a file is read\<close>

text \<open>The replicas of a bundle on volumes that are online, in the order of the volumes.\<close>

definition online_replicas :: "central_tables \<Rightarrow> (u64, u64) hmap \<Rightarrow> hash_id \<Rightarrow> bundle_replica_row list" where
  "online_replicas t online b =
     filter (\<lambda>r. br_bundle_id r = b \<and> hm_get online (br_volume_id r) \<noteq> None) (sort_key br_volume_id (t_replicas t))"

definition location :: "(u64, u64) hmap \<Rightarrow> bundle_replica_row \<Rightarrow> replica_location" where
  "location online r = \<lparr> rl_storage_id = the (hm_get online (br_volume_id r)), rl_volume_id = br_volume_id r \<rparr>"

definition planned_bundle :: "central_tables \<Rightarrow> (u64, u64) hmap \<Rightarrow> file_bundle_row \<Rightarrow> file_bundle_ref" where
  "planned_bundle t online b =
     (let rs = online_replicas t online (fb_bundle_id b) in
      \<lparr> fbr_bundle_index = fb_bundle_index b, fbr_raw_len = br_raw_len (hd rs), fbr_compressed_len = br_compressed_len (hd rs),
        fbr_bundle_id = fb_bundle_id b, fbr_replicas = map (location online) rs \<rparr>)"

lemma get_fold_add_replica:
  "hm_get (fold (add_replica online) rs m) b =
     (let os = filter (\<lambda>r. br_bundle_id r = b \<and> hm_get online (br_volume_id r) \<noteq> None) rs in
      case hm_get m b of
        Some x \<Rightarrow> Some (x\<lparr> brt_replicas := brt_replicas x @ map (location online) os \<rparr>)
      | None \<Rightarrow> if os = [] then None
          else Some \<lparr> brt_raw_len = br_raw_len (hd os), brt_compressed_len = br_compressed_len (hd os),
                      brt_replicas = map (location online) os \<rparr>)"
proof (induction rs arbitrary: m)
  case (Cons r rs)
  show ?case
    unfolding fold_simps comp_apply Cons.IH
    by (cases "hm_get online (br_volume_id r)"; cases "hm_get m (br_bundle_id r)")
      (auto simp: add_replica_def location_def update_conv' Let_def split: option.splits)
qed (simp split: option.splits)

lemma filter_select_replicas:
  "filter (\<lambda>r. br_bundle_id r = b \<and> P r) (select_replicas batch t) =
     (if b \<in> set batch then filter (\<lambda>r. br_bundle_id r = b \<and> P r) (sort_key br_volume_id (t_replicas t)) else [])"
proof -
  let ?F = "\<lambda>xs. filter P (filter (\<lambda>r. br_bundle_id r = b) xs)"
  have eq: "filter (\<lambda>r. br_bundle_id r = b \<and> P r) xs = ?F xs" for xs :: "bundle_replica_row list"
    by (simp add: conj_commute)
  have "filter (\<lambda>r. br_bundle_id r = b) (filter (\<lambda>r. br_bundle_id r \<in> set batch) (t_replicas t)) =
      (if b \<in> set batch then filter (\<lambda>r. br_bundle_id r = b) (t_replicas t) else [])"
    by (auto simp: filter_empty_conv intro!: filter_cong)
  then show ?thesis unfolding eq select_replicas_def sort_key_stable by (simp add: filter_sort)
qed

lemma filter_replica_batches:
  "distinct (concat batches) \<Longrightarrow>
     filter (\<lambda>r. br_bundle_id r = b \<and> P r) (concat (map (\<lambda>batch. select_replicas batch t) batches)) =
     (if b \<in> set (concat batches) then filter (\<lambda>r. br_bundle_id r = b \<and> P r) (sort_key br_volume_id (t_replicas t)) else [])"
  by (induction batches) (auto simp: filter_select_replicas)

lemma plan_bundles_spec:
  assumes "\<And>b. b \<in> set rows \<Longrightarrow> hm_get targets (fb_bundle_id b) =
    (let os = online_replicas t online (fb_bundle_id b) in
     if os = [] then None else Some \<lparr> brt_raw_len = br_raw_len (hd os), brt_compressed_len = br_compressed_len (hd os),
                      brt_replicas = map (location online) os \<rparr>)"
  shows "plan_bundles targets (map entry_of_row rows) =
    (if \<forall>b\<in>set rows. online_replicas t online (fb_bundle_id b) \<noteq> [] then Inr (map (planned_bundle t online) rows)
     else Inl ChunkNotReady)"
  using assms
  by (induction rows) (auto simp: entry_of_row_def planned_bundle_def Let_def split: if_splits)

lemma read_plan_tx_spec:
  assumes inv: "db_inv s" and at: "file_at s cs = Some f"
  shows "\<exists>c. read_plan_tx online (fr_file_id f) s =
    ((if \<forall>b\<in>set (file_content s (fr_file_id f)). online_replicas (db_conn s) online b \<noteq> []
      then Inr \<lparr> frp_file_id = fr_file_id f, frp_path = path_of cs, frp_size = fr_size_bytes f,
             frp_bundles = map (planned_bundle (db_conn s) online) (bundle_rows s (fr_file_id f)) \<rparr>
      else Inl ChunkNotReady), s\<lparr> db_dir_cache := c \<rparr>) \<and> db_inv (s\<lparr> db_dir_cache := c \<rparr>)"
proof -
  let ?i = "fr_file_id f"
  note fnd = find_file_at [OF inv at]
  have i: "fits_i64 ?i" using file_id_fits [OF db_invD(5) [OF inv]] find_fileD [OF fnd] by simp
  have get: "get_file_by_id ?i s = (Inr f, s)" using get_file_by_id_spec [OF db_invD(1) [OF inv]] i fnd by simp
  from file_at_record [OF inv at] obtain c where rec: "file_record_of f s = (Inr (record_of cs f), s\<lparr> db_dir_cache := c \<rparr>)"
    and inv': "db_inv (s\<lparr> db_dir_cache := c \<rparr>)" by blast
  let ?s = "s\<lparr> db_dir_cache := c \<rparr>"
  let ?rows = "bundle_rows s ?i"
  have bs: "get_file_bundles_by_file_id ?i ?s = (Inr (map entry_of_row ?rows), ?s)"
    using get_file_bundles_by_file_id_spec [OF db_invD(2) [OF inv'] i] by (simp add: bundle_rows_def)
  let ?ids = "remdups (map fbe_bundle_id (map entry_of_row ?rows))"
  let ?rs = "concat (map (\<lambda>b. select_replicas b (db_conn s)) (slice_chunks BUNDLE_ID_QUERY_BATCH_SIZE ?ids))"
  have reps: "get_bundle_replicas_by_id ?ids ?s = (Inr ?rs, ?s)"
    using get_bundle_replicas_by_id_spec [OF db_invD(2) [OF inv'], of ?ids] by simp
  have "concat (slice_chunks BUNDLE_ID_QUERY_BATCH_SIZE ?ids) = ?ids"
    by (rule concat_slice_chunks) (simp add: BUNDLE_ID_QUERY_BATCH_SIZE_def)
  then have os: "filter (\<lambda>r. br_bundle_id r = b \<and> hm_get online (br_volume_id r) \<noteq> None) ?rs = online_replicas (db_conn s) online b"
    if "b \<in> fb_bundle_id ` set ?rows" for b
    using that filter_replica_batches [of "slice_chunks BUNDLE_ID_QUERY_BATCH_SIZE ?ids" b]
    by (simp only: distinct_remdups set_remdups) (auto simp: online_replicas_def entry_of_row_def)
  have plan: "plan_bundles (fold (add_replica online) ?rs []) (map entry_of_row ?rows) =
    (if \<forall>b\<in>set ?rows. online_replicas (db_conn s) online (fb_bundle_id b) \<noteq> [] then Inr (map (planned_bundle (db_conn s) online) ?rows)
     else Inl ChunkNotReady)"
    using os by (intro plan_bundles_spec) (simp add: get_fold_add_replica)
  show ?thesis
    using get rec bs reps plan inv'
    by (intro exI [of _ c]) (simp add: read_plan_tx_def st_bind_eval record_of_def file_content_def)
qed

end
