(* ===== verification/Central_Reach.thy ===== *)
theory Central_Reach
  imports Central_Tx
begin

text \<open>
  The central server as a state machine over its control connections: the invariant of its state, that
  every handler keeps it, and the reachable states.
\<close>

section \<open>Handlers that leave the registrations alone and announce nothing\<close>

definition same_registry :: "central_server \<Rightarrow> central_server \<Rightarrow> bool" where
  "same_registry s s' \<longleftrightarrow>
     cs_auth_tokens s' = cs_auth_tokens s \<and> cs_next_id s' = cs_next_id s \<and> cs_clients s' = cs_clients s \<and>
     cs_storages s' = cs_storages s \<and> cs_online_volumes s' = cs_online_volumes s \<and> cs_events s' = cs_events s"

definition serves :: "central_server \<Rightarrow> central_server \<Rightarrow> bool" where
  "serves s s' \<longleftrightarrow> same_registry s s' \<and> (db_inv (cs_db s) \<longrightarrow> db_inv (cs_db s'))"

interpretation serve: step_order serves
  by unfold_locales (auto simp: serves_def same_registry_def)

lemma run_tx_db_inv:
  assumes "tx_safe m" and "db_inv s"
  shows "db_inv (snd (run_tx ce m s))"
proof -
  obtain r s' where m: "m s = (r, s')" by force
  with assms have "db_inv s'" "db_inv (s'\<lparr> db_conn := db_conn s \<rparr>)" by (auto simp: tx_safe_def rolled_back_def)
  with m show ?thesis by (cases r; cases ce) (simp_all add: run_tx_def)
qed

lemma run_read_tx_db_inv: "tx_safe m \<Longrightarrow> db_inv s \<Longrightarrow> db_inv (snd (run_read_tx m s))"
  by (auto simp: tx_safe_def rolled_back_def run_read_tx_def split: prod.splits)

lemma serves_with_db:
  assumes "\<And>d. db_inv d \<Longrightarrow> db_inv (snd (m d))"
  shows "st_rel serves (with_db m)"
  using assms by (auto simp: st_rel_def serves_def same_registry_def with_db_def split: prod.splits) (metis snd_conv)

lemma serves_tx: "tx_safe m \<Longrightarrow> st_rel serves (with_db (run_tx ce m))"
  by (rule serves_with_db) (rule run_tx_db_inv)

lemma serves_read_tx: "tx_safe m \<Longrightarrow> st_rel serves (with_db (run_read_tx m))"
  by (rule serves_with_db) (rule run_read_tx_db_inv)

lemma tx_safe_ops:
  "tx_safe (list_directory dir limit cursor)" "tx_safe (get_bundle_replicas_by_id ids)" "tx_safe (get_file_change_logs i n)"
  "tx_safe (create_volume name m)" "tx_safe (update_volume_offset v off)" "tx_safe (delete_update_lease l)"
  "tx_safe (st_bind (get_file_by_path path) (\<lambda>file. st_return (fr_file_id file)))"
  unfolding get_file_change_logs_def Let_def
  by (intro tx_safe_keeps keeps_intros keeps_ops)+

lemma copy_file_db_inv:
  assumes now: "fits_i64 now" and inv: "db_inv d"
  shows "db_inv (snd (run_tx None (copy_file_tx i path now) d))"
proof -
  obtain r d' where res: "copy_file_tx i path now d = (r, d')" by force
  show ?thesis
  proof (cases "split_fs0_path_dir_and_name path")
    case (Inl e)
    with res inv show ?thesis by (auto simp: copy_file_tx_def st_bind_eval run_tx_def)
  next
    case (Inr p)
    obtain dir name where p: "p = (dir, name)" by (cases p)
    show ?thesis
    proof (cases "find_file d i")
      case None
      have "fst (get_file_by_id i d) = Inl (if fits_i64 i then NotFound
          else IntegerConversion (''file_id value '' @ show_u64 i @ '' does not fit in i64''))"
        and "snd (get_file_by_id i d) = d"
        using get_file_by_id_spec [OF db_invD(1) [OF inv], of i] None by simp_all
      then have "\<exists>e. copy_file_tx i path now d = (Inl e, d)"
        using Inr p by (auto simp: copy_file_tx_def copy_file_by_id_def st_bind_def split: prod.splits sum.splits)
      then obtain e where "copy_file_tx i path now d = (Inl e, d)" by blast
      with inv show ?thesis by (simp add: run_tx_def)
    next
      case (Some f)
      from copy_file_tx_spec [OF inv now Some Inr [unfolded p] res] res show ?thesis
        by (cases r) (auto simp: run_tx_def rolled_back_def)
    qed
  qed
qed

lemma rename_file_db_inv:
  assumes now: "fits_i64 now" and inv: "db_inv d"
  shows "db_inv (snd (run_tx None (rename_file_tx i path now) d))"
proof -
  obtain r d' where res: "rename_file_tx i path now d = (r, d')" by force
  show ?thesis
  proof (cases "split_fs0_path_dir_and_name path")
    case (Inl e)
    with res inv show ?thesis by (auto simp: rename_file_tx_def st_bind_eval run_tx_def)
  next
    case (Inr p)
    obtain dir name where p: "p = (dir, name)" by (cases p)
    show ?thesis
    proof (cases "find_file d i")
      case None
      obtain r1 t where ren: "rename_file_by_id i path now d = (r1, t)" by force
      with rename_file_by_id_spec [OF inv now Inr [unfolded p], of i] None have "\<exists>e. r1 = Inl e"
        by (cases r1) (auto simp: moved_file_def)
      then obtain e where "r1 = Inl e" by blast
      with ren res Inr p have "r = Inl e" "d' = t" by (simp_all add: rename_file_tx_def st_bind_eval)
      with rename_file_rolled_back [OF inv ren, of t] res show ?thesis by (simp add: run_tx_def rolled_back_def)
    next
      case (Some f)
      from rename_file_tx_spec [OF inv now Some Inr [unfolded p] res] res show ?thesis
        by (cases r) (auto simp: run_tx_def rolled_back_def)
    qed
  qed
qed

section \<open>Requests of clients\<close>

text \<open>The clock reads milliseconds that fit in \<open>i64\<close>; a lease period later still does.\<close>

definition clock_ok :: "env \<Rightarrow> bool" where
  "clock_ok E \<longleftrightarrow> (\<forall>n. fits_i64 (ev_now E n))"

text \<open>
  A failed \<open>COMMIT\<close> of a copy or a rename may leave a directory in the cache that the rollback has
  removed, so the invariant needs that these commits succeed.
\<close>

definition commit_ok :: "env \<Rightarrow> control_request \<Rightarrow> bool" where
  "commit_ok E request \<longleftrightarrow>
     (case request of
        control_request.CopyFile _ _ \<Rightarrow> ev_commit E 0 = None
      | control_request.CopyFileById _ _ \<Rightarrow> ev_commit E 0 = None
      | control_request.RenameFile _ _ \<Rightarrow> ev_commit E 0 = None
      | control_request.RenameFileById _ _ \<Rightarrow> ev_commit E 0 = None
      | _ \<Rightarrow> True)"

lemma serves_rpc: "st_rel serves (rpc E c request)"
  by (simp add: st_rel_def rpc_def serves_def same_registry_def)

lemma serves_grant: "st_rel serves (grant_upload_lease_to_specific_storage E i lease)"
  unfolding grant_upload_lease_to_specific_storage_def
  by (intro serve.rel_intros)
    (simp add: st_rel_def serves_def same_registry_def rpc_def)

lemma serves_revoke: "st_rel serves (st_modify (revoke_mounted E i l))"
  by (rule serve.rel_modify)
    (auto simp: revoke_mounted_def revoke_storage_upload_lease_def rpc_def serves_def same_registry_def split: option.splits)

lemmas serves_intros = serve.rel_intros rel_case_prod serves_tx serves_read_tx

lemma serves_begin_update_prepare: "clock_ok E \<Longrightarrow> st_rel serves (begin_update_prepare E request)"
  unfolding begin_update_prepare_def
  by (intro serves_intros tx_safe_begin_update_tx) (simp add: clock_ok_def)

lemma serves_begin_update_finish: "st_rel serves (begin_update_finish E lease granted)"
  unfolding begin_update_finish_def by (intro serves_intros tx_safe_ops)

lemma serves_begin_update: "clock_ok E \<Longrightarrow> st_rel serves (begin_update E request)"
  unfolding begin_update_def
proof (intro serve.rel_bind serves_begin_update_prepare, assumption)
  fix x :: "u64 \<times> update_lease"
  obtain i lease where x: "x = (i, lease)" by (cases x)
  show "st_rel serves (case x of (i, lease) \<Rightarrow> \<lambda>s. case grant_upload_lease_to_specific_storage E i lease s of
      (granted, s') \<Rightarrow> begin_update_finish E lease granted s')"
    unfolding x prod.case
  proof (rule st_relI)
    fix s
    obtain g t where g: "grant_upload_lease_to_specific_storage E i lease s = (g, t)" by force
    have "serves s t" by (rule st_relD [OF serves_grant g])
    moreover have "serves t (snd (begin_update_finish E lease g t))"
      using serves_begin_update_finish by (simp add: st_rel_def)
    ultimately show "serves s (snd (case grant_upload_lease_to_specific_storage E i lease s of
        (granted, s') \<Rightarrow> begin_update_finish E lease granted s'))"
      using g by (auto intro: serve.step_trans)
  qed
qed

lemma serves_copy: "clock_ok E \<Longrightarrow> ev_commit E 0 = None \<Longrightarrow> st_rel serves (handle_copy_file_by_id E i path)"
  unfolding handle_copy_file_by_id_def
  by (rule serve.rel_bind, rule serves_with_db) (auto intro: copy_file_db_inv serve.rel_return simp only: clock_ok_def)

lemma serves_rename: "clock_ok E \<Longrightarrow> ev_commit E 0 = None \<Longrightarrow> st_rel serves (handle_rename_file_by_id E i path)"
  unfolding handle_rename_file_by_id_def
  by (rule serve.rel_bind, rule serves_with_db) (auto intro: rename_file_db_inv serve.rel_return simp only: clock_ok_def)

lemma serves_file_id: "st_rel serves (file_id_by_path path)"
  unfolding file_id_by_path_def by (intro serves_intros tx_safe_ops)

lemma serves_delete: "st_rel serves (handle_delete_file_by_id E i)"
  unfolding handle_delete_file_by_id_def by (intro serves_intros tx_safe_delete_file)

lemma serves_read_plan: "st_rel serves (get_file_read_plan_by_id i)"
  unfolding get_file_read_plan_by_id_def by (intro serves_intros tx_safe_read_plan)

lemma serves_client_request:
  assumes "clock_ok E" and "commit_ok E request"
  shows "st_rel serves (handle_client_request E request)"
proof (cases "(E, request)" rule: handle_client_request.cases)
qed (use assms in \<open>auto simp only: handle_client_request.simps central_status_def handle_create_volume_def
    handle_list_directory_def get_file_read_plan_def handle_has_bundle_def handle_delete_file_def handle_copy_file_def
    handle_rename_file_def handle_get_file_change_logs_def commit_update_def abort_update_def commit_ok_def control_request.case
    intro!: serves_intros serves_file_id serves_read_plan serves_delete serves_copy serves_rename serves_begin_update
      serves_revoke tx_safe_ops tx_safe_commit_update tx_safe_lease_volume tx_safe_abort_update\<close>)

section \<open>Registrations\<close>

definition volume_ids :: "storage_control_connection \<Rightarrow> u64 set" where
  "volume_ids st = svi_volume_id ` set (spi_volumes (scc_peer st))"

text \<open>
  The registrations: identifiers are below the counter, a storage is filed under its identifier, a volume
  is online exactly on the one storage that has mounted it, and every client has shown an allowed token.
\<close>

definition registry_ok :: "central_server \<Rightarrow> bool" where
  "registry_ok s \<longleftrightarrow>
     hm_ok (cs_clients s) \<and> hm_ok (cs_storages s) \<and> hm_ok (cs_online_volumes s) \<and>
     (\<forall>i c. hm_get (cs_clients s) i = Some c \<longrightarrow> i < cs_next_id s \<and> ccc_token c \<in> set (cs_auth_tokens s)) \<and>
     (\<forall>i st. hm_get (cs_storages s) i = Some st \<longrightarrow> i < cs_next_id s \<and> spi_storage_id (scc_peer st) = i) \<and>
     (\<forall>v i. hm_get (cs_online_volumes s) v = Some i \<longleftrightarrow>
        (\<exists>st. hm_get (cs_storages s) i = Some st \<and> v \<in> volume_ids st))"

definition server_inv :: "central_server \<Rightarrow> bool" where
  "server_inv s \<longleftrightarrow> db_inv (cs_db s) \<and> registry_ok s"

lemma server_inv_init: "server_inv (central_server_init tokens)"
  by (simp add: server_inv_def registry_ok_def central_server_init_def db_inv_open hm_ok_def)

lemma server_inv_start: "db_inv db \<Longrightarrow> server_inv (central_server_start tokens db)"
  by (simp add: server_inv_def registry_ok_def central_server_start_def central_server_init_def hm_ok_def)

lemma server_inv_serves: "serves s s' \<Longrightarrow> server_inv s \<Longrightarrow> server_inv s'"
  by (simp add: server_inv_def serves_def registry_ok_def same_registry_def)

text \<open>Fewer than \<open>2 ^ 64 - 1\<close> identifiers have been given out.\<close>

definition ids_left :: "central_server \<Rightarrow> bool" where
  "ids_left s \<longleftrightarrow> unat (cs_next_id s) + 1 < 2 ^ 64"

lemma ids_left_less: "ids_left s \<Longrightarrow> i < cs_next_id s \<Longrightarrow> i < cs_next_id s + 1"
  and ids_left_self: "ids_left s \<Longrightarrow> cs_next_id s < cs_next_id s + 1"
proof -
  assume "ids_left s"
  then have "unat (cs_next_id s + 1) = unat (cs_next_id s) + 1"
    by (subst unat_add_no_overflow) (simp_all add: ids_left_def)
  then show "i < cs_next_id s \<Longrightarrow> i < cs_next_id s + 1" "cs_next_id s < cs_next_id s + 1"
    by (simp_all add: word_less_nat_alt)
qed

lemma token_allowed_iff: "token_allowed token s \<longleftrightarrow> token \<in> set (cs_auth_tokens s)"
  by (simp add: token_allowed_def list_ex_iff)

lemma register_client_inv:
  assumes inv: "server_inv s" and left: "ids_left s" and res: "register_client token connection s = (r, s')"
  shows "server_inv s' \<and>
    (case r of
       Inr (i, peers) \<Rightarrow> token_allowed token s \<and> i = cs_next_id s \<and> peers = storage_peers_snapshot s \<and>
         hm_get (cs_clients s) i = None \<and> cs_db s' = cs_db s \<and> cs_storages s' = cs_storages s \<and>
         hm_get (cs_clients s') = (hm_get (cs_clients s))(i \<mapsto> \<lparr> ccc_token = token, ccc_connection = connection \<rparr>)
     | Inl e \<Rightarrow> e = Unauthorized \<and> \<not> token_allowed token s \<and> s' = s)"
proof (cases "token_allowed token s")
  case False
  with res inv show ?thesis by (auto simp: register_client_def)
next
  case True
  let ?c = "\<lparr> ccc_token = token, ccc_connection = connection \<rparr>"
  let ?s = "s\<lparr> cs_next_id := cs_next_id s + 1, cs_clients := hm_insert (cs_next_id s) ?c (cs_clients s) \<rparr>"
  have r: "r = Inr (cs_next_id s, storage_peers_snapshot s)" and s': "s' = ?s"
    using res True by (auto simp: register_client_def next_id_def st_bind_eval storage_peers_snapshot_def)
  have "registry_ok ?s"
    using inv True ids_left_less [OF left] ids_left_self [OF left]
    unfolding registry_ok_def server_inv_def
    by (auto simp: hm.get_ins hm.ok_ins token_allowed_iff split: if_splits)
  moreover have "hm_get (cs_clients s) (cs_next_id s) = None"
    using inv unfolding server_inv_def registry_ok_def by (metis less_irrefl option.exhaust)
  ultimately show ?thesis using inv True r by (simp add: s' server_inv_def hm.get_ins)
qed

lemma register_volumes_ids:
  assumes "register_volumes vs d = (Inr ws, d')"
  shows "map svi_volume_id ws = map svi_volume_id vs"
  using assms
  by (induction vs arbitrary: ws d d') (auto simp: Let_def st_bind_Inr_iff split: if_splits)

lemma get_fold_mount:
  "hm_get (fold (\<lambda>v. hm_insert (svi_volume_id v) i) vs m) x = (if x \<in> svi_volume_id ` set vs then Some i else hm_get m x)"
  by (induction vs arbitrary: m) (auto simp: hm.get_ins)

lemma registry_ok_mount:
  assumes ok: "registry_ok s" and left: "ids_left s"
    and free: "\<And>v. v \<in> svi_volume_id ` set vs \<Longrightarrow> hm_get (cs_online_volumes s) v = None"
    and st: "spi_storage_id (scc_peer st) = cs_next_id s" "spi_volumes (scc_peer st) = vs"
  shows "registry_ok (s\<lparr> cs_next_id := cs_next_id s + 1,
     cs_online_volumes := fold (\<lambda>v. hm_insert (svi_volume_id v) (cs_next_id s)) vs (cs_online_volumes s),
     cs_storages := hm_insert (cs_next_id s) st (cs_storages s) \<rparr>)"
proof -
  have new: "hm_get (cs_storages s) (cs_next_id s) = None"
    using ok unfolding registry_ok_def by (metis less_irrefl option.exhaust)
  have vids: "volume_ids st = svi_volume_id ` set vs" using st(2) by (simp add: volume_ids_def)
  have "hm_ok (fold (\<lambda>v. hm_insert (svi_volume_id v) (cs_next_id s)) vs (cs_online_volumes s))"
    using ok hm.ok_fold_ins [of "cs_online_volumes s" svi_volume_id "\<lambda>_. cs_next_id s" vs] by (simp add: registry_ok_def)
  moreover have "(if v \<in> svi_volume_id ` set vs then Some (cs_next_id s) else hm_get (cs_online_volumes s) v) = Some i \<longleftrightarrow>
      (\<exists>x. ((hm_get (cs_storages s))(cs_next_id s \<mapsto> st)) i = Some x \<and> v \<in> volume_ids x)" for v i
  proof -
    have on: "hm_get (cs_online_volumes s) v = Some i \<longleftrightarrow> (\<exists>x. hm_get (cs_storages s) i = Some x \<and> v \<in> volume_ids x)"
      using ok by (simp add: registry_ok_def)
    show ?thesis
      using on new free [of v] vids by (cases "i = cs_next_id s"; cases "v \<in> svi_volume_id ` set vs") auto
  qed
  ultimately show ?thesis
    using ok ids_left_less [OF left] ids_left_self [OF left] st(1)
    unfolding registry_ok_def by (simp add: hm.get_ins hm.ok_ins get_fold_mount)
qed

lemma registry_ok_next_id:
  "registry_ok s \<Longrightarrow> ids_left s \<Longrightarrow> registry_ok (s\<lparr> cs_next_id := cs_next_id s + 1 \<rparr>)"
  using ids_left_less [of s] unfolding registry_ok_def by auto

text \<open>Registering a storage: its volumes must be known, of the same size and not mounted.\<close>

lemma register_storage_inv:
  assumes inv: "server_inv s" and left: "ids_left s"
    and res: "register_storage E name token vs endpoint connection s = (r, s')"
  shows "server_inv s' \<and> cs_clients s' = cs_clients s \<and>
    (case r of
       Inr (i, peers) \<Rightarrow> token_allowed token s \<and> i = cs_next_id s \<and> hm_get (cs_storages s) i = None \<and>
         (\<forall>v\<in>set vs. hm_get (cs_online_volumes s) (svi_volume_id v) = None) \<and>
         (\<exists>st. scc_connection st = connection \<and> volume_ids st = svi_volume_id ` set vs \<and>
            hm_get (cs_storages s') = (hm_get (cs_storages s))(i \<mapsto> st))
     | Inl e \<Rightarrow> cs_storages s' = cs_storages s \<and> cs_online_volumes s' = cs_online_volumes s)"
proof (cases "token_allowed token s")
  case False
  with res inv show ?thesis by (auto simp: register_storage_def)
next
  case True
  let ?m = "run_tx (ev_commit E 0) (register_volumes vs)"
  obtain r1 d where tx: "?m (cs_db s) = (r1, d)" by force
  define t where "t = s\<lparr> cs_db := d \<rparr>"
  have with_tx: "with_db ?m s = (r1, t)" using tx by (simp add: with_db_def t_def)
  have inv_t: "server_inv t"
    using st_relD [OF serves_tx [OF tx_safe_register_volumes] with_tx] inv by (rule server_inv_serves)
  have left_t: "ids_left t" using left by (simp add: ids_left_def t_def)
  show ?thesis
  proof (cases r1)
    case (Inl e)
    with res True with_tx inv_t show ?thesis by (auto simp: register_storage_def st_bind_eval t_def)
  next
    case (Inr ws)
    with tx have ids: "map svi_volume_id ws = map svi_volume_id vs"
      using register_volumes_ids [of vs "cs_db s" ws d] by (simp add: run_tx_Inr_iff)
    have idset: "svi_volume_id ` set ws = svi_volume_id ` set vs" using arg_cong [OF ids, of set] by (simp only: set_map)
    let ?i = "cs_next_id s"
    define u where "u = t\<lparr> cs_next_id := ?i + 1 \<rparr>"
    have inv_u: "server_inv u" using inv_t left_t registry_ok_next_id [of t] by (simp add: server_inv_def u_def t_def)
    show ?thesis
    proof (cases "list_ex (\<lambda>v. hm_get (cs_online_volumes s) (svi_volume_id v) \<noteq> None) ws")
      case mounted: True
      with res True with_tx Inr have "r = Inl VolumeAlreadyMounted" "s' = u"
        by (auto simp: register_storage_def st_bind_eval next_id_def mount_volumes_def t_def u_def Let_def)
      with inv_u show ?thesis by (simp add: u_def t_def)
    next
      case free: False
      let ?peer = "\<lparr> spi_storage_id = ?i, spi_name = name, spi_volumes = ws, spi_iroh_endpoint = endpoint \<rparr>"
      let ?st = "\<lparr> scc_peer = ?peer, scc_connection = connection \<rparr>"
      have free': "hm_get (cs_online_volumes t) v = None" if "v \<in> svi_volume_id ` set ws" for v
        using free that by (auto simp: list_ex_iff t_def)
      have s': "s' = t\<lparr> cs_next_id := ?i + 1,
          cs_online_volumes := fold (\<lambda>v. hm_insert (svi_volume_id v) ?i) ws (cs_online_volumes s),
          cs_storages := hm_insert ?i ?st (cs_storages s) \<rparr>" and r: "\<exists>peers. r = Inr (?i, peers)"
        using res True with_tx Inr free
        by (auto simp: register_storage_def st_bind_eval next_id_def mount_volumes_def t_def Let_def)
      have "registry_ok s'"
        using registry_ok_mount [where st = ?st, OF _ left_t free'] inv_t unfolding s' by (simp add: server_inv_def t_def)
      moreover have "hm_get (cs_storages s) ?i = None"
        using inv unfolding server_inv_def registry_ok_def by (metis less_irrefl option.exhaust)
      moreover have "hm_get (cs_online_volumes s) (svi_volume_id v) = None" if "v \<in> set vs" for v
        using free' [of "svi_volume_id v"] that idset by (force simp: t_def)
      moreover have "volume_ids ?st = svi_volume_id ` set vs" using idset by (simp add: volume_ids_def)
      ultimately show ?thesis
        using r True inv_t
        by (auto simp: s' server_inv_def t_def hm.get_ins intro!: exI [of _ ?st])
    qed
  qed
qed

lemma unregister_client_inv:
  assumes "server_inv s"
  shows "server_inv (unregister_client i s)"
    and "hm_get (cs_clients (unregister_client i s)) = (hm_get (cs_clients s))(i := None)"
    and "cs_storages (unregister_client i s) = cs_storages s"
    and "cs_online_volumes (unregister_client i s) = cs_online_volumes s"
  using assms
  by (auto simp: unregister_client_def server_inv_def registry_ok_def hm.get_rem hm.ok_rem fun_eq_iff
      split: option.splits if_splits)

lemma unregister_storage_spec:
  assumes inv: "server_inv s" and res: "unregister_storage i s = (event, s')"
  shows "server_inv s'" and "hm_get (cs_storages s') = (hm_get (cs_storages s))(i := None)"
    and "hm_get (cs_online_volumes s') v = (if hm_get (cs_online_volumes s) v = Some i then None else hm_get (cs_online_volumes s) v)"
    and "cs_clients s' = cs_clients s" and "cs_db s' = cs_db s"
    and "event = (if hm_get (cs_storages s) i = None then None else Some (StorageRemoved i))"
proof -
  have ok: "hm_ok (cs_online_volumes s)" "hm_ok (cs_storages s)" using inv by (simp_all add: server_inv_def registry_ok_def)
  have stor: "hm_get (cs_storages s') = (hm_get (cs_storages s))(i := None)" and okst: "hm_ok (cs_storages s')"
    and same: "cs_clients s' = cs_clients s" "cs_db s' = cs_db s" "cs_next_id s' = cs_next_id s" "cs_auth_tokens s' = cs_auth_tokens s"
    and on: "cs_online_volumes s' = filter (\<lambda>(v, m). m \<noteq> i) (cs_online_volumes s)"
    and ev: "event = (if hm_get (cs_storages s) i = None then None else Some (StorageRemoved i))"
    using res ok(2) by (auto simp: unregister_storage_def Let_def hm.get_rem hm.ok_rem fun_eq_iff split: option.splits)
  have online: "hm_get (cs_online_volumes s') v =
      (if hm_get (cs_online_volumes s) v = Some i then None else hm_get (cs_online_volumes s) v)" for v
    unfolding on map_of_filter_value [OF ok(1)] by (auto split: option.splits)
  show "hm_get (cs_storages s') = (hm_get (cs_storages s))(i := None)" "cs_clients s' = cs_clients s" "cs_db s' = cs_db s"
    "hm_get (cs_online_volumes s') v = (if hm_get (cs_online_volumes s) v = Some i then None else hm_get (cs_online_volumes s) v)"
    "event = (if hm_get (cs_storages s) i = None then None else Some (StorageRemoved i))"
    using stor same online ev by auto
  have "hm_ok (cs_online_volumes s')" unfolding on by (rule hm_ok_filter [OF ok(1)])
  moreover have "hm_get (cs_online_volumes s') w = Some j \<longleftrightarrow>
      (\<exists>st. hm_get (cs_storages s') j = Some st \<and> w \<in> volume_ids st)" for w j
  proof -
    have "hm_get (cs_online_volumes s) w = Some j \<longleftrightarrow> (\<exists>st. hm_get (cs_storages s) j = Some st \<and> w \<in> volume_ids st)"
      using inv by (simp add: server_inv_def registry_ok_def)
    then show ?thesis unfolding online stor by auto
  qed
  ultimately show "server_inv s'"
    using inv okst same unfolding server_inv_def registry_ok_def stor by (auto split: if_splits)
qed

lemma server_inv_log [simp]:
  "server_inv (s\<lparr> cs_events := e \<rparr>) \<longleftrightarrow> server_inv s" "server_inv (s\<lparr> cs_closed := c \<rparr>) \<longleftrightarrow> server_inv s"
  by (simp_all add: server_inv_def registry_ok_def)

lemma server_inv_broadcast [simp]: "server_inv (broadcast_event e s) \<longleftrightarrow> server_inv s"
  by (simp add: broadcast_event_def)

lemma server_inv_announce [simp]: "server_inv (announce_storage i s) \<longleftrightarrow> server_inv s"
  by (simp add: announce_storage_def split: option.splits)

lemma close_connection_inv:
  assumes "server_inv s"
  shows "server_inv (close_connection c identity s)"
proof (cases identity)
  case (Storage i)
  obtain ev s1 where u: "unregister_storage i s = (ev, s1)" by force
  from unregister_storage_spec(1) [OF assms u] u Storage show ?thesis
    by (cases ev) (simp_all add: close_connection_def Let_def)
qed (use assms unregister_client_inv(1) [OF assms] in \<open>simp_all add: close_connection_def\<close>)

section \<open>Requests of storages\<close>

lemma registry_ok_peer:
  assumes ok: "registry_ok s" and st: "hm_get (cs_storages s) i = Some st"
    and new: "spi_storage_id (scc_peer st') = spi_storage_id (scc_peer st)" "volume_ids st' = volume_ids st"
  shows "registry_ok (s\<lparr> cs_storages := hm_insert i st' (cs_storages s) \<rparr>)"
proof -
  have "hm_get (cs_online_volumes s) v = Some j \<longleftrightarrow>
      (\<exists>x. ((hm_get (cs_storages s))(i \<mapsto> st')) j = Some x \<and> v \<in> volume_ids x)" for v j
    using ok st new(2) by (cases "j = i") (auto simp: registry_ok_def)
  then show ?thesis using ok st new(1) unfolding registry_ok_def by (auto simp: hm.get_ins hm.ok_ins split: if_splits)
qed

lemma update_first_volume_ids:
  "update_first_volume i f vs = Some ws \<Longrightarrow> (\<And>v. svi_volume_id (f v) = svi_volume_id v) \<Longrightarrow>
     map svi_volume_id ws = map svi_volume_id vs"
  by (induction vs arbitrary: ws) (auto split: if_splits)

text \<open>A request of a storage keeps who is registered and on which connection.\<close>

definition same_parties :: "central_server \<Rightarrow> central_server \<Rightarrow> bool" where
  "same_parties s s' \<longleftrightarrow>
     cs_clients s' = cs_clients s \<and> cs_next_id s' = cs_next_id s \<and>
     (\<forall>j. map_option scc_connection (hm_get (cs_storages s') j) = map_option scc_connection (hm_get (cs_storages s) j))"

lemma same_parties_serves: "serves s s' \<Longrightarrow> same_parties s s'"
  by (simp add: serves_def same_registry_def same_parties_def)

lemma same_parties_announce [simp]: "same_parties s (announce_storage i s') \<longleftrightarrow> same_parties s s'"
  by (simp add: announce_storage_def broadcast_event_def same_parties_def split: option.splits)

lemma update_endpoint_inv:
  assumes inv: "server_inv s" and res: "update_storage_endpoint i endpoint s = (r, s')"
  shows "server_inv s' \<and> same_parties s s'"
proof (cases "hm_get (cs_storages s) i")
  case None
  with res inv show ?thesis by (auto simp: update_storage_endpoint_def same_parties_def)
next
  case (Some st)
  let ?st = "st\<lparr> scc_peer := (scc_peer st)\<lparr> spi_iroh_endpoint := endpoint \<rparr> \<rparr>"
  have s': "s' = s\<lparr> cs_storages := hm_insert i ?st (cs_storages s) \<rparr>"
    using res Some by (auto simp: update_storage_endpoint_def)
  from registry_ok_peer [OF _ Some, of ?st] inv Some show ?thesis
    unfolding s' server_inv_def by (simp add: volume_ids_def same_parties_def hm.get_ins)
qed

lemma update_offset_inv:
  assumes inv: "server_inv s" and res: "update_storage_volume_offset E i v off s = (r, s')"
  shows "server_inv s' \<and> same_parties s s'"
proof -
  let ?m = "with_db (run_tx (ev_commit E 0) (update_volume_offset v off))"
  obtain r1 t where tx: "?m s = (r1, t)" by force
  have t: "serves s t" by (rule st_relD [OF serves_tx [OF tx_safe_ops(5)] tx])
  have inv_t: "server_inv t" by (rule server_inv_serves [OF t inv])
  have same: "server_inv s' \<and> same_parties s s'" if "s' = t" using that inv_t same_parties_serves [OF t] by simp
  show ?thesis
  proof (cases r1)
    case (Inl e)
    with res tx same show ?thesis by (simp add: update_storage_volume_offset_def st_bind_eval)
  next
    case (Inr reg)
    let ?f = "\<lambda>x. x\<lparr> svi_name := svi_name reg, svi_max_bytes := svi_max_bytes reg,
               svi_max_volume_offset := svi_max_volume_offset reg \<rparr>"
    show ?thesis
    proof (cases "\<exists>st ws. hm_get (cs_storages t) i = Some st \<and> update_first_volume v ?f (spi_volumes (scc_peer st)) = Some ws")
      case False
      with res tx Inr same show ?thesis
        by (cases "hm_get (cs_storages t) i") (auto simp: update_storage_volume_offset_def st_bind_eval)
    next
      case True
      then obtain st ws where st: "hm_get (cs_storages t) i = Some st"
        and ws: "update_first_volume v ?f (spi_volumes (scc_peer st)) = Some ws" by blast
      let ?st = "st\<lparr> scc_peer := (scc_peer st)\<lparr> spi_volumes := ws \<rparr> \<rparr>"
      have s': "s' = t\<lparr> cs_storages := hm_insert i ?st (cs_storages t) \<rparr>"
        using res tx Inr st ws by (auto simp: update_storage_volume_offset_def st_bind_eval)
      have "set (map svi_volume_id ws) = set (map svi_volume_id (spi_volumes (scc_peer st)))"
        using update_first_volume_ids [OF ws] by simp
      then have "volume_ids ?st = volume_ids st" by (simp add: volume_ids_def)
      moreover have "map_option scc_connection (hm_get (cs_storages s) i) = Some (scc_connection st)"
        using same_parties_serves [OF t] st by (metis same_parties_def option.map(2))
      ultimately show ?thesis
        using registry_ok_peer [where st' = ?st, OF _ st] inv_t same_parties_serves [OF t]
        unfolding s' server_inv_def by (auto simp: same_parties_def hm.get_ins)
    qed
  qed
qed

lemma serves_storage_requests:
  "st_rel serves (handle_create_volume E name m)" "st_rel serves (validate_client_auth c token)"
  "st_rel serves (report_bundle_replica E i events)" "st_rel serves (st_throw e)"
  unfolding handle_create_volume_def validate_client_auth_def report_bundle_replica_def
  by (intro serves_intros tx_safe_ops tx_safe_apply_replica_events)+

lemma storage_request_inv:
  assumes inv: "server_inv s" and res: "handle_storage_request E i request s = (r, s')"
  shows "server_inv s' \<and> same_parties s s'"
proof -
  have S: "server_inv s' \<and> same_parties s s'" if "st_rel serves (handle_storage_request E i request)"
    using st_relD [OF that res] inv server_inv_serves same_parties_serves by blast
  show ?thesis
  proof (cases "(E, i, request)" rule: handle_storage_request.cases)
    case (4 E' i' j endpoint)
    then have req: "request = control_request.UpdateStorageEndpoint j endpoint" by simp
    obtain r1 t where u: "update_storage_endpoint i endpoint s = (r1, t)" by force
    show ?thesis
    proof (cases "j = i")
      case True
      with update_endpoint_inv [OF inv u] res req u show ?thesis by (cases r1) (auto simp: st_bind_eval)
    next
      case False
      with res req inv show ?thesis by (auto simp: same_parties_def)
    qed
  next
    case (5 E' i' v off)
    with update_offset_inv [OF inv] res show ?thesis by simp
  qed (rule S; auto simp only: handle_storage_request.simps prod.inject intro!: serves_storage_requests)+
qed

section \<open>Dispatch\<close>

definition registration :: "control_request \<Rightarrow> bool" where
  "registration request \<longleftrightarrow>
     (case request of
        control_request.RegisterClient _ _ _ \<Rightarrow> True
      | control_request.RegisterStorage _ _ _ _ _ \<Rightarrow> True
      | _ \<Rightarrow> False)"

lemma handle_control_request_other:
  "\<not> registration request \<Longrightarrow>
     handle_control_request E connection request identity s =
     respond (case identity of
       Client _ \<Rightarrow> (case handle_client_request E request s of (r, s') \<Rightarrow> (r, identity, s'))
     | Storage storage_id \<Rightarrow> (case handle_storage_request E storage_id request s of (r, s') \<Rightarrow> (r, identity, s'))
     | Anonymous \<Rightarrow> (Inl Unauthorized, identity, s))"
  by (cases request; cases identity) (simp_all add: registration_def)

lemma respond_snd: "snd (respond x) = snd x"
  by (simp add: respond_def split: prod.splits)

text \<open>Who a connection speaks for: the party that registered last over it.\<close>

definition speaks_for :: "central_server \<Rightarrow> conn \<Rightarrow> control_connection_identity \<Rightarrow> bool" where
  "speaks_for s c identity \<longleftrightarrow>
     (case identity of
        Anonymous \<Rightarrow> True
      | Client i \<Rightarrow> map_option ccc_connection (hm_get (cs_clients s) i) = Some c
      | Storage i \<Rightarrow> map_option scc_connection (hm_get (cs_storages s) i) = Some c)"

lemma speaks_for_parties: "same_parties s s' \<Longrightarrow> speaks_for s c i \<Longrightarrow> speaks_for s' c i"
  by (cases i) (simp_all add: speaks_for_def same_parties_def)

text \<open>What a request keeps: the invariant, that the connection speaks for its identity, and whom every other
  connection speaks for.\<close>

definition request_keeps :: "conn \<Rightarrow> control_connection_identity \<Rightarrow> central_server \<Rightarrow> central_server \<Rightarrow> bool" where
  "request_keeps c i s s' \<longleftrightarrow>
     server_inv s' \<and> speaks_for s' c i \<and> (\<forall>d j. speaks_for s d j \<longrightarrow> speaks_for s' d j)"

lemma request_keeps_parties:
  "server_inv s' \<Longrightarrow> same_parties s s' \<Longrightarrow> speaks_for s c i \<Longrightarrow> request_keeps c i s s'"
  by (simp add: request_keeps_def speaks_for_parties)

lemma speaks_for_new_client:
  assumes "hm_get (cs_clients s') = (hm_get (cs_clients s))(i \<mapsto> x)" and "hm_get (cs_clients s) i = None"
    and "cs_storages s' = cs_storages s"
  shows "speaks_for s d j \<Longrightarrow> speaks_for s' d j"
  using assms by (cases j) (auto simp: speaks_for_def)

lemma speaks_for_new_storage:
  assumes "hm_get (cs_storages s') = (hm_get (cs_storages s))(i \<mapsto> x)" and "hm_get (cs_storages s) i = None"
    and "cs_clients s' = cs_clients s"
  shows "speaks_for s d j \<Longrightarrow> speaks_for s' d j"
  using assms by (cases j) (auto simp: speaks_for_def)

lemma speaks_for_announce [simp]: "speaks_for (announce_storage i s) d j \<longleftrightarrow> speaks_for s d j"
  by (cases j) (simp_all add: speaks_for_def announce_storage_def broadcast_event_def split: option.splits)

lemma version_checked:
  "validate_registration_version v = Inr () \<longleftrightarrow> v = FS0_VERSION"
  "validate_registration_version v = Inl e \<longleftrightarrow> v \<noteq> FS0_VERSION \<and> e = Fs0Version FS0_VERSION v"
  by (auto simp: validate_registration_version_def)

lemma register_client_request:
  assumes inv: "server_inv s" and left: "ids_left s" and i: "speaks_for s c i"
    and res: "handle_control_request E c (control_request.RegisterClient name token version) i s = (resp, i', s')"
  shows "request_keeps c i' s s'"
proof (cases "version = FS0_VERSION")
  case False
  then have "validate_registration_version version = Inl (Fs0Version FS0_VERSION version)" by (simp add: version_checked)
  with res inv i show ?thesis by (auto simp: respond_def request_keeps_def st_bind_eval)
next
  case True
  then have v: "validate_registration_version version = Inr ()" by (simp add: version_checked)
  obtain r t where reg: "register_client token c s = (r, t)" by force
  note R = register_client_inv [OF inv left reg]
  show ?thesis
  proof (cases r)
    case (Inl e)
    with res reg v R i show ?thesis by (auto simp: respond_def request_keeps_def st_bind_eval)
  next
    case (Inr x)
    obtain k peers where x: "x = (k, peers)" by (cases x)
    from R Inr x have new: "hm_get (cs_clients s) k = None" "cs_storages t = cs_storages s" "server_inv t"
      "hm_get (cs_clients t) = (hm_get (cs_clients s))(k \<mapsto> \<lparr> ccc_token = token, ccc_connection = c \<rparr>)" by auto
    have "i' = Client k" "s' = t" using res reg v Inr x by (auto simp: respond_def st_bind_eval)
    with new speaks_for_new_client [OF new(4,1,2)] show ?thesis by (auto simp: request_keeps_def speaks_for_def [of t c])
  qed
qed

lemma register_storage_request:
  assumes inv: "server_inv s" and left: "ids_left s" and i: "speaks_for s c i"
    and res: "handle_control_request E c (control_request.RegisterStorage name token version vs endpoint) i s = (resp, i', s')"
  shows "request_keeps c i' s s'"
proof (cases "version = FS0_VERSION")
  case False
  then have "validate_registration_version version = Inl (Fs0Version FS0_VERSION version)" by (simp add: version_checked)
  with res inv i show ?thesis by (auto simp: respond_def request_keeps_def st_bind_eval)
next
  case True
  then have v: "validate_registration_version version = Inr ()" by (simp add: version_checked)
  obtain r t where reg: "register_storage E name token vs endpoint c s = (r, t)" by force
  note R = register_storage_inv [OF inv left reg]
  show ?thesis
  proof (cases r)
    case (Inl e)
    with R have t: "server_inv t" "cs_clients t = cs_clients s" "cs_storages t = cs_storages s" by simp_all
    then have "speaks_for s d j \<Longrightarrow> speaks_for t d j" for d j by (cases j) (simp_all add: speaks_for_def)
    moreover have "i' = i" "s' = t" using res reg v Inl by (auto simp: respond_def st_bind_eval)
    ultimately show ?thesis using t i by (simp add: request_keeps_def)
  next
    case (Inr x)
    obtain k peers where x: "x = (k, peers)" by (cases x)
    from R Inr x obtain st where new: "hm_get (cs_storages s) k = None" "cs_clients t = cs_clients s" "server_inv t"
      "hm_get (cs_storages t) = (hm_get (cs_storages s))(k \<mapsto> st)" "scc_connection st = c" by auto
    have "i' = Storage k" "s' = announce_storage k t" using res reg v Inr x by (auto simp: respond_def st_bind_eval)
    with new speaks_for_new_storage [OF new(4,1,2)] show ?thesis
      by (auto simp: request_keeps_def speaks_for_def [of t c])
  qed
qed

lemma request_inv:
  assumes inv: "server_inv s" and left: "ids_left s" and i: "speaks_for s c i"
    and env: "clock_ok E" "commit_ok E request"
    and res: "handle_control_request E c request i s = (resp, i', s')"
  shows "request_keeps c i' s s'"
proof (cases "registration request")
  case True
  with register_client_request [OF inv left i] register_storage_request [OF inv left i] res show ?thesis
    by (cases request) (simp_all add: registration_def)
next
  case False
  note other = handle_control_request_other [OF False, of E c i s, unfolded res]
  show ?thesis
  proof (cases i)
    case Anonymous
    with other inv show ?thesis by (simp add: respond_def request_keeps_def speaks_for_def)
  next
    case (Client k)
    obtain r t where h: "handle_client_request E request s = (r, t)" by force
    from st_relD [OF serves_client_request [OF env] h] have "server_inv t" "same_parties s t"
      using inv server_inv_serves same_parties_serves by blast+
    moreover have "i' = i" "s' = t" using other h Client by (auto simp: respond_def)
    ultimately show ?thesis using i by (simp add: request_keeps_parties)
  next
    case (Storage k)
    obtain r t where h: "handle_storage_request E k request s = (r, t)" by force
    from storage_request_inv [OF inv h] have "server_inv t" "same_parties s t" by simp_all
    moreover have "i' = i" "s' = t" using other h Storage by (auto simp: respond_def)
    ultimately show ?thesis using i by (simp add: request_keeps_parties)
  qed
qed

section \<open>Reachable states\<close>

text \<open>
  The control connections of a running server: whom each speaks for, and the update that it has begun and
  whose lease the storage has not yet granted. Requests on one connection are served one after the other
  (the handler holds the lock of its identity); requests on different connections interleave, and an
  update that waits for a storage lets them run.
\<close>

record central_system =
  sys_server :: central_server
  sys_conns :: "conn \<Rightarrow> control_connection_identity option"
  sys_pending :: "conn \<Rightarrow> (u64 \<times> update_lease) option"

definition central_system_init :: "string list \<Rightarrow> central_system" where
  "central_system_init tokens = \<lparr> sys_server = central_server_init tokens, sys_conns = Map.empty, sys_pending = Map.empty \<rparr>"

text \<open>A server that starts has no connections and no registrations; identifiers are given out from 1 again.\<close>

definition central_system_start :: "string list \<Rightarrow> central_db \<Rightarrow> central_system" where
  "central_system_start tokens db = \<lparr> sys_server = central_server_start tokens db, sys_conns = Map.empty, sys_pending = Map.empty \<rparr>"

definition env_ok :: "env \<Rightarrow> control_request \<Rightarrow> central_server \<Rightarrow> bool" where
  "env_ok E request s \<longleftrightarrow> clock_ok E \<and> commit_ok E request \<and> ids_left s"

inductive central_step :: "central_system \<Rightarrow> central_system \<Rightarrow> bool" where
  accept: "sys_conns x c = None \<Longrightarrow> central_step x (x\<lparr> sys_conns := (sys_conns x)(c \<mapsto> Anonymous) \<rparr>)"
| request: "sys_conns x c = Some i \<Longrightarrow> sys_pending x c = None \<Longrightarrow> env_ok E req (sys_server x) \<Longrightarrow>
    handle_control_request E c req i (sys_server x) = (response, i', s') \<Longrightarrow>
    central_step x (x\<lparr> sys_server := s', sys_conns := (sys_conns x)(c \<mapsto> i') \<rparr>)"
| update_begins: "sys_conns x c = Some (Client i) \<Longrightarrow> sys_pending x c = None \<Longrightarrow> clock_ok E \<Longrightarrow>
    begin_update_prepare E req (sys_server x) = (Inr (storage_id, lease), s') \<Longrightarrow>
    central_step x (x\<lparr> sys_server := s', sys_pending := (sys_pending x)(c \<mapsto> (storage_id, lease)) \<rparr>)"
| update_granted: "sys_pending x c = Some (storage_id, lease) \<Longrightarrow>
    grant_upload_lease_to_specific_storage E storage_id lease (sys_server x) = (granted, s1) \<Longrightarrow>
    begin_update_finish E lease granted s1 = (response, s') \<Longrightarrow>
    central_step x (x\<lparr> sys_server := s', sys_pending := (sys_pending x)(c := None) \<rparr>)"
| disconnect: "sys_conns x c = Some i \<Longrightarrow> sys_pending x c = None \<Longrightarrow>
    central_step x (x\<lparr> sys_server := close_connection c i (sys_server x), sys_conns := (sys_conns x)(c := None) \<rparr>)"
| restart: "central_step x (central_system_start tokens (central_db_load (db_conn (cs_db (sys_server x)))))"

inductive reachable :: "string list \<Rightarrow> central_system \<Rightarrow> bool" for tokens where
  start: "reachable tokens (central_system_init tokens)"
| step: "reachable tokens x \<Longrightarrow> central_step x y \<Longrightarrow> reachable tokens y"

text \<open>The invariant: that of the server, and every open connection speaks for the party that registered over it.\<close>

definition system_inv :: "central_system \<Rightarrow> bool" where
  "system_inv x \<longleftrightarrow>
     server_inv (sys_server x) \<and> (\<forall>c i. sys_conns x c = Some i \<longrightarrow> speaks_for (sys_server x) c i)"

lemma speaks_for_close:
  assumes inv: "server_inv s" and other: "d \<noteq> c" and c: "speaks_for s c i" and d: "speaks_for s d j"
  shows "speaks_for (close_connection c i s) d j"
proof (cases i)
  case Anonymous
  with d show ?thesis by (cases j) (simp_all add: close_connection_def speaks_for_def)
next
  case (Client k)
  with other c have "j \<noteq> Client k" using d by (auto simp: speaks_for_def)
  with Client d unregister_client_inv [OF inv, of k] show ?thesis
    by (cases j) (auto simp: close_connection_def speaks_for_def)
next
  case (Storage k)
  obtain ev t where u: "unregister_storage k s = (ev, t)" by force
  note U = unregister_storage_spec [OF inv u]
  from other c Storage have "j \<noteq> Storage k" using d by (auto simp: speaks_for_def)
  with Storage d U(2,4) u show ?thesis
    by (cases j; cases ev) (auto simp: close_connection_def speaks_for_def broadcast_event_def)
qed

lemma system_inv_serves:
  assumes "system_inv x" and "serves (sys_server x) s'" and "sys_conns y = sys_conns x" and "sys_server y = s'"
  shows "system_inv y"
  using assms server_inv_serves [of "sys_server x" s'] speaks_for_parties [OF same_parties_serves]
  by (auto simp: system_inv_def)

lemma system_inv_step:
  assumes step: "central_step x y" and inv: "system_inv x"
  shows "system_inv y"
  using step
proof (cases rule: central_step.cases)
  case (accept c)
  with inv show ?thesis by (auto simp: system_inv_def speaks_for_def)
next
  case (request c i E req response i' s')
  from inv request have "request_keeps c i' (sys_server x) s'"
    by (intro request_inv [where i = i]) (auto simp: system_inv_def env_ok_def)
  with inv request show ?thesis by (auto simp: system_inv_def request_keeps_def)
next
  case (update_begins c i E req storage_id lease s')
  from st_relD [OF serves_begin_update_prepare this(5)] update_begins inv show ?thesis
    by (intro system_inv_serves [OF inv]) simp_all
next
  case (update_granted c storage_id lease E granted s1 response s')
  have "serves (sys_server x) s1" by (rule st_relD [OF serves_grant update_granted(3)])
  moreover have "serves s1 s'" by (rule st_relD [OF serves_begin_update_finish update_granted(4)])
  ultimately have "serves (sys_server x) s'" by (rule serve.step_trans)
  with update_granted show ?thesis by (intro system_inv_serves [OF inv]) simp_all
next
  case (disconnect c i)
  with inv show ?thesis
    by (auto simp: system_inv_def close_connection_inv intro!: speaks_for_close)
next
  case (restart tokens)
  from inv have "db_inv (cs_db (sys_server x))" by (simp add: system_inv_def server_inv_def)
  then have "server_inv (central_server_start tokens (central_db_load (db_conn (cs_db (sys_server x)))))"
    by (intro server_inv_start db_inv_load)
  then show ?thesis unfolding restart by (simp add: system_inv_def central_system_start_def)
qed

lemma reachable_system_inv: "reachable tokens x \<Longrightarrow> system_inv x"
proof (induction rule: reachable.induct)
  case start
  show ?case by (simp add: system_inv_def central_system_init_def server_inv_init)
next
  case (step x y)
  then show ?case by (blast intro: system_inv_step)
qed

end
