(* ===== verification/Client_Central.thy ===== *)
theory Client_Central
  imports Client_Session Central_Reach
begin

text \<open>
  The list of storages a client keeps follows the registry of the central server: it starts as the snapshot in the
  answer to the registration, and every event that central broadcasts when a storage registers, changes its endpoint
  or goes away brings it to what the registry has become. Only the fill of a volume that a storage reports is not
  announced; until the next announcement of that storage the list is out of date in it, and in nothing else.
\<close>

definition peers_ok :: "storage_peer_info list \<Rightarrow> bool" where
  "peers_ok ps \<longleftrightarrow> sorted (map spi_storage_id ps) \<and> distinct (map spi_storage_id ps)"

definition peer_map :: "storage_peer_info list \<Rightarrow> u64 \<Rightarrow> storage_peer_info option" where
  "peer_map ps i = find (\<lambda>p. spi_storage_id p = i) ps"

lemma peer_map_iff: "distinct (map spi_storage_id ps) \<Longrightarrow> peer_map ps i = Some p \<longleftrightarrow> p \<in> set ps \<and> spi_storage_id p = i"
  unfolding peer_map_def using find_key [of spi_storage_id ps p] by (auto dest: find_SomeD)

lemma peer_map_eqI:
  assumes "distinct (map spi_storage_id ps)" and "\<And>p. p \<in> set ps \<longleftrightarrow> m (spi_storage_id p) = Some p"
    and "\<And>i p. m i = Some p \<Longrightarrow> spi_storage_id p = i"
  shows "peer_map ps = m"
proof
  fix i show "peer_map ps i = m i" using assms by (intro option_eqI) (auto simp: peer_map_iff)
qed

lemma replace_peer_Some:
  "replace_peer p ps = Some qs \<Longrightarrow> map spi_storage_id qs = map spi_storage_id ps \<and> p \<in> set qs \<and>
     (distinct (map spi_storage_id ps) \<longrightarrow> set qs = insert p {q \<in> set ps. spi_storage_id q \<noteq> spi_storage_id p})"
proof (induction ps arbitrary: qs)
  case (Cons q ps)
  show ?case
  proof (cases "spi_storage_id q = spi_storage_id p")
    case True
    then have "qs = p # ps" using Cons.prems by simp
    then show ?thesis using True by (auto simp: image_iff)
  next
    case False
    then obtain rs where rs: "replace_peer p ps = Some rs" "qs = q # rs" using Cons.prems by (auto split: option.splits)
    show ?thesis using Cons.IH [OF rs(1)] rs(2) False by auto
  qed
qed simp

lemma replace_peer_None: "replace_peer p ps = None \<longleftrightarrow> spi_storage_id p \<notin> spi_storage_id ` set ps"
  by (induction ps) auto

lemma distinct_sort_key: "distinct (map f (sort_key g xs)) \<longleftrightarrow> distinct (map f xs)"
  by (simp add: distinct_map)

lemma storage_changed_peers:
  assumes "peers_ok ps"
  shows "peers_ok (snd (client_event (Event (StorageChanged p)) ps))"
    and "peer_map (snd (client_event (Event (StorageChanged p)) ps)) = (peer_map ps)(spi_storage_id p \<mapsto> p)"
proof -
  let ?qs = "case replace_peer p ps of Some qs \<Rightarrow> qs | None \<Rightarrow> ps @ [p]"
  have d: "distinct (map spi_storage_id ps)" using assms by (simp add: peers_ok_def)
  have dq: "distinct (map spi_storage_id ?qs)"
  proof (cases "replace_peer p ps")
    case (Some qs)
    then show ?thesis using replace_peer_Some d by (metis option.simps(5))
  next
    case None
    then have "spi_storage_id p \<notin> spi_storage_id ` set ps" by (simp add: replace_peer_None)
    then show ?thesis using d None by simp
  qed
  then have dq': "distinct (map spi_storage_id (sort_key spi_storage_id ?qs))" by (simp add: distinct_map)
  then show "peers_ok (snd (client_event (Event (StorageChanged p)) ps))" by (simp add: peers_ok_def)
  have set: "set ?qs = insert p {q \<in> set ps. spi_storage_id q \<noteq> spi_storage_id p}"
  proof (cases "replace_peer p ps")
    case (Some qs)
    then show ?thesis using replace_peer_Some [OF Some] d by simp
  next
    case None
    then have "spi_storage_id p \<notin> spi_storage_id ` set ps" by (simp add: replace_peer_None)
    then have "{q \<in> set ps. spi_storage_id q \<noteq> spi_storage_id p} = set ps" by (auto simp: image_iff)
    then show ?thesis using None by simp
  qed
  have "peer_map (sort_key spi_storage_id ?qs) = (peer_map ps)(spi_storage_id p \<mapsto> p)"
  proof (rule peer_map_eqI [OF dq'])
    fix q show "q \<in> set (sort_key spi_storage_id ?qs) \<longleftrightarrow> ((peer_map ps)(spi_storage_id p \<mapsto> p)) (spi_storage_id q) = Some q"
      unfolding set_sort set using peer_map_iff [OF d, of "spi_storage_id q" q] by auto
  next
    fix i q assume "((peer_map ps)(spi_storage_id p \<mapsto> p)) i = Some q"
    then show "spi_storage_id q = i" using peer_map_iff [OF d, of i q] by (auto split: if_splits)
  qed
  then show "peer_map (snd (client_event (Event (StorageChanged p)) ps)) = (peer_map ps)(spi_storage_id p \<mapsto> p)" by simp
qed

lemma storage_removed_peers:
  assumes "peers_ok ps"
  shows "peers_ok (snd (client_event (Event (StorageRemoved i)) ps))"
    and "peer_map (snd (client_event (Event (StorageRemoved i)) ps)) = (peer_map ps)(i := None)"
proof -
  have d: "distinct (map spi_storage_id ps)" using assms by (simp add: peers_ok_def)
  have df: "distinct (map spi_storage_id (filter (\<lambda>p. spi_storage_id p \<noteq> i) ps))" using d by (simp add: distinct_map_filter)
  then show "peers_ok (snd (client_event (Event (StorageRemoved i)) ps))" using assms by (simp add: peers_ok_def sorted_filter)
  have "peer_map (filter (\<lambda>p. spi_storage_id p \<noteq> i) ps) = (peer_map ps)(i := None)"
    using d by (intro peer_map_eqI [OF df]) (auto simp: peer_map_iff split: if_splits)
  then show "peer_map (snd (client_event (Event (StorageRemoved i)) ps)) = (peer_map ps)(i := None)" by simp
qed

text \<open>The answer to a registration lists the registry.\<close>

lemma snapshot_peers:
  assumes ok: "registry_ok s"
  shows "peers_ok (storage_peers_snapshot s) \<and> peer_map (storage_peers_snapshot s) = (\<lambda>i. storage_peer i s)"
proof -
  have m: "hm_ok (cs_storages s)" and ids: "\<And>i st. hm_get (cs_storages s) i = Some st \<Longrightarrow> spi_storage_id (scc_peer st) = i"
    using ok by (simp_all add: registry_ok_def)
  have "map spi_storage_id (map (scc_peer \<circ> snd) (cs_storages s)) = map fst (cs_storages s)"
  proof (unfold list.map_comp, rule map_cong [OF refl])
    fix e assume "e \<in> set (cs_storages s)"
    then have "hm_get (cs_storages s) (fst e) = Some (snd e)" using m by (simp add: hm_ok_def map_of_is_SomeI)
    then show "(spi_storage_id \<circ> (scc_peer \<circ> snd)) e = fst e" using ids by simp
  qed
  then have d: "distinct (map spi_storage_id (storage_peers_snapshot s))"
    using m unfolding hm_ok_def storage_peers_snapshot_def by (metis distinct_sort_key)
  moreover have "peer_map (storage_peers_snapshot s) = (\<lambda>i. storage_peer i s)"
  proof (rule peer_map_eqI [OF d])
    fix p
    have "p \<in> set (storage_peers_snapshot s) \<longleftrightarrow> (\<exists>i st. hm_get (cs_storages s) i = Some st \<and> p = scc_peer st)"
      using m unfolding storage_peers_snapshot_def hm_ok_def by (force simp: map_of_eq_Some_iff)
    then show "p \<in> set (storage_peers_snapshot s) \<longleftrightarrow> storage_peer (spi_storage_id p) s = Some p"
      unfolding storage_peer_def map_option_eq_Some using ids by metis
  next
    fix i p assume "storage_peer i s = Some p"
    then show "spi_storage_id p = i" using ids by (auto simp: storage_peer_def)
  qed
  ultimately show ?thesis by (simp add: peers_ok_def storage_peers_snapshot_def)
qed

text \<open>What a storage may change without an event: the name, the size and the fill that central has filed for a volume.\<close>

definition volume_view :: "storage_volume_info \<Rightarrow> storage_volume_info" where
  "volume_view v = v\<lparr> svi_name := [], svi_max_bytes := 0, svi_max_volume_offset := 0 \<rparr>"

definition peer_view :: "storage_peer_info \<Rightarrow> storage_peer_info" where
  "peer_view p = p\<lparr> spi_volumes := map volume_view (spi_volumes p) \<rparr>"

text \<open>The list answers as the registry does, for the storages in \<open>stale\<close> up to such a change.\<close>

definition follows :: "storage_peer_info list \<Rightarrow> u64 set \<Rightarrow> central_server \<Rightarrow> bool" where
  "follows ps stale s \<longleftrightarrow> peers_ok ps \<and>
     (\<forall>i. (i \<notin> stale \<longrightarrow> peer_map ps i = storage_peer i s) \<and>
        map_option peer_view (peer_map ps i) = map_option peer_view (storage_peer i s))"

section \<open>What a step of central changes and announces\<close>

definition broadcasts :: "protocol_event \<Rightarrow> central_server \<Rightarrow> central_server \<Rightarrow> bool" where
  "broadcasts e s s' \<longleftrightarrow> cs_events s' = cs_events s @ map (\<lambda>c. (c, e))
     (map (ccc_connection \<circ> snd) (cs_clients s') @ map (scc_connection \<circ> snd) (cs_storages s'))"

text \<open>A storage has reported how far a volume is filled, and central has filed it.\<close>

definition reports_offset :: "u64 \<Rightarrow> central_system \<Rightarrow> central_system \<Rightarrow> bool" where
  "reports_offset i x y \<longleftrightarrow>
     (\<exists>c E v off. sys_conns x c = Some (Storage i) \<and>
        handle_control_request E c (control_request.UpdateStorageVolumeOffset v off) (Storage i) (sys_server x) =
          (protocol_response.Control control_response.UpdateStorageVolumeOffset, Storage i, sys_server y))"

definition silent :: "central_server \<Rightarrow> central_server \<Rightarrow> bool" where
  "silent s s' \<longleftrightarrow> cs_events s' = cs_events s \<and> (\<forall>i. storage_peer i s' = storage_peer i s)"

interpretation quiet: step_order "\<lambda>s s'. cs_events s' = cs_events s"
  by unfold_locales auto

lemma silent_serves: "serves s s' \<Longrightarrow> silent s s'"
  by (simp add: serves_def same_registry_def silent_def storage_peer_def)

lemma quiet_with_db: "st_rel (\<lambda>s s'. cs_events s' = cs_events s) (with_db m)"
  by (simp add: st_rel_def with_db_def split: prod.split)

lemma register_storage_quiet: "st_rel (\<lambda>s s'. cs_events s' = cs_events s) (register_storage E name token vs endpoint c)"
  unfolding register_storage_def Let_def
  by (intro quiet.rel_intros quiet_with_db) (auto simp: st_rel_def next_id_def mount_volumes_def)

definition announces :: "storage_peer_info \<Rightarrow> central_server \<Rightarrow> central_server \<Rightarrow> bool" where
  "announces p s s' \<longleftrightarrow> broadcasts (StorageChanged p) s s' \<and>
     (\<forall>j. storage_peer j s' = (if j = spi_storage_id p then Some p else storage_peer j s))"

definition removes :: "u64 \<Rightarrow> central_server \<Rightarrow> central_server \<Rightarrow> bool" where
  "removes i s s' \<longleftrightarrow> broadcasts (StorageRemoved i) s s' \<and>
     (\<forall>j. storage_peer j s' = (if j = i then None else storage_peer j s))"

definition refills :: "u64 \<Rightarrow> central_server \<Rightarrow> central_server \<Rightarrow> bool" where
  "refills i s s' \<longleftrightarrow> cs_events s' = cs_events s \<and> (\<forall>j. j \<noteq> i \<longrightarrow> storage_peer j s' = storage_peer j s) \<and>
     map_option peer_view (storage_peer i s') = map_option peer_view (storage_peer i s)"

lemma announce_announces:
  assumes "storage_peer i t = Some p" and "spi_storage_id p = i" and "cs_events t = cs_events s"
    and "\<And>j. j \<noteq> i \<Longrightarrow> storage_peer j t = storage_peer j s"
  shows "announces p s (announce_storage i t)"
proof -
  have a: "announce_storage i t = broadcast_event (StorageChanged p) t" using assms(1) by (simp add: announce_storage_def)
  have "storage_peer j (broadcast_event (StorageChanged p) t) = storage_peer j t" for j
    by (simp add: storage_peer_def broadcast_event_def)
  then show ?thesis
    unfolding announces_def broadcasts_def a using assms by (auto simp: broadcast_event_def)
qed

text \<open>A storage that registers is announced, one that changes its endpoint too, and one that reports the fill of a volume is not.\<close>

lemma register_storage_effect:
  assumes inv: "server_inv s" and left: "ids_left s"
    and res: "handle_control_request E c (control_request.RegisterStorage name token version vs endpoint) i s = (resp, i', s')"
  shows "silent s s' \<or> (\<exists>p. announces p s s')"
proof (cases "version = FS0_VERSION")
  case False
  then have "validate_registration_version version = Inl (Fs0Version FS0_VERSION version)" by (simp add: version_checked)
  with res show ?thesis by (auto simp: respond_def silent_def st_bind_eval)
next
  case True
  then have v: "validate_registration_version version = Inr ()" by (simp add: version_checked)
  obtain r t where reg: "register_storage E name token vs endpoint c s = (r, t)" by force
  have ev: "cs_events t = cs_events s" by (rule st_relD [OF register_storage_quiet reg])
  note R = register_storage_inv [OF inv left reg]
  show ?thesis
  proof (cases r)
    case (Inl e)
    with R have "cs_storages t = cs_storages s" by simp
    moreover have "s' = t" using res reg v Inl by (auto simp: respond_def st_bind_eval)
    ultimately show ?thesis using ev by (simp add: silent_def storage_peer_def)
  next
    case (Inr x)
    obtain k peers where x: "x = (k, peers)" by (cases x)
    from R Inr x obtain st where st: "hm_get (cs_storages t) = (hm_get (cs_storages s))(k \<mapsto> st)" and inv': "server_inv t" by auto
    have s': "s' = announce_storage k t" using res reg v Inr x by (auto simp: respond_def st_bind_eval)
    have "spi_storage_id (scc_peer st) = k"
      using inv' st unfolding server_inv_def registry_ok_def by (metis fun_upd_same)
    then have "announces (scc_peer st) s s'"
      unfolding s' using ev by (intro announce_announces) (simp_all add: storage_peer_def st)
    then show ?thesis by blast
  qed
qed

lemma update_endpoint_effect:
  assumes inv: "server_inv s" and res: "handle_storage_request E i (control_request.UpdateStorageEndpoint j endpoint) s = (r, s')"
  shows "silent s s' \<or> (\<exists>p. announces p s s')"
proof (cases "j = i \<and> hm_get (cs_storages s) i \<noteq> None")
  case False
  with res have "s' = s" by (auto simp: update_storage_endpoint_def st_bind_eval split: if_splits)
  then show ?thesis by (simp add: silent_def)
next
  case True
  then obtain st where st: "hm_get (cs_storages s) i = Some st" by blast
  let ?p = "(scc_peer st)\<lparr> spi_iroh_endpoint := endpoint \<rparr>"
  have s': "s' = announce_storage i (s\<lparr> cs_storages := hm_insert i (st\<lparr> scc_peer := ?p \<rparr>) (cs_storages s) \<rparr>)"
    using res True st by (auto simp: update_storage_endpoint_def st_bind_eval)
  have "spi_storage_id (scc_peer st) = i" using inv st by (simp add: server_inv_def registry_ok_def)
  then have "announces ?p s s'" unfolding s' by (intro announce_announces) (simp_all add: storage_peer_def hm.get_ins)
  then show ?thesis by blast
qed

lemma update_first_volume_view:
  "update_first_volume i f vs = Some ws \<Longrightarrow> (\<And>v. volume_view (f v) = volume_view v) \<Longrightarrow> map volume_view ws = map volume_view vs"
  by (induction vs arbitrary: ws) (auto split: if_splits)

lemma update_offset_effect:
  assumes res: "update_storage_volume_offset E i v off s = (r, s')"
  shows "silent s s' \<or> (r = Inr control_response.UpdateStorageVolumeOffset \<and> refills i s s')"
proof -
  let ?m = "with_db (run_tx (ev_commit E 0) (update_volume_offset v off))"
  obtain r1 t where tx: "?m s = (r1, t)" by force
  have t: "silent s t" by (rule silent_serves) (rule st_relD [OF serves_tx [OF tx_safe_ops(5)] tx])
  show ?thesis
  proof (cases r1)
    case (Inl e)
    with res tx t show ?thesis by (simp add: update_storage_volume_offset_def st_bind_eval)
  next
    case (Inr reg)
    let ?f = "\<lambda>x. x\<lparr> svi_name := svi_name reg, svi_max_bytes := svi_max_bytes reg,
               svi_max_volume_offset := svi_max_volume_offset reg \<rparr>"
    show ?thesis
    proof (cases "\<exists>st ws. hm_get (cs_storages t) i = Some st \<and> update_first_volume v ?f (spi_volumes (scc_peer st)) = Some ws")
      case False
      with res tx Inr t show ?thesis
        by (cases "hm_get (cs_storages t) i") (auto simp: update_storage_volume_offset_def st_bind_eval)
    next
      case True
      then obtain st ws where st: "hm_get (cs_storages t) i = Some st"
        and ws: "update_first_volume v ?f (spi_volumes (scc_peer st)) = Some ws" by blast
      let ?st = "st\<lparr> scc_peer := (scc_peer st)\<lparr> spi_volumes := ws \<rparr> \<rparr>"
      have s': "s' = t\<lparr> cs_storages := hm_insert i ?st (cs_storages t) \<rparr>" and r: "r = Inr control_response.UpdateStorageVolumeOffset"
        using res tx Inr st ws by (auto simp: update_storage_volume_offset_def st_bind_eval)
      have "map volume_view ws = map volume_view (spi_volumes (scc_peer st))"
        by (rule update_first_volume_view [OF ws]) (simp add: volume_view_def)
      then have "peer_view (scc_peer ?st) = peer_view (scc_peer st)" by (simp add: peer_view_def)
      moreover have "storage_peer j s' = (if j = i then Some (scc_peer ?st) else storage_peer j t)" for j
        by (simp add: s' storage_peer_def hm.get_ins)
      moreover have "storage_peer i t = Some (scc_peer st)" "cs_events s' = cs_events t" using st by (simp_all add: s' storage_peer_def)
      moreover have "cs_events t = cs_events s" "\<And>j. storage_peer j s = storage_peer j t" using t by (simp_all add: silent_def)
      ultimately have "refills i s s'" unfolding refills_def by simp
      with r show ?thesis by simp
    qed
  qed
qed

lemma storage_request_effect:
  assumes inv: "server_inv s" and res: "handle_storage_request E i request s = (r, s')"
  shows "silent s s' \<or> (\<exists>p. announces p s s') \<or>
    (\<exists>v off. request = control_request.UpdateStorageVolumeOffset v off \<and> r = Inr control_response.UpdateStorageVolumeOffset \<and> refills i s s')"
proof -
  have S: "silent s s'" if "st_rel serves (handle_storage_request E i request)"
    using st_relD [OF that res] by (rule silent_serves)
  show ?thesis
  proof (cases "(E, i, request)" rule: handle_storage_request.cases)
    case (4 E' i' j endpoint)
    with update_endpoint_effect [OF inv, of E i j endpoint r s'] res show ?thesis by auto
  next
    case (5 E' i' v off)
    with update_offset_effect [of E i v off s r s'] res show ?thesis by auto
  qed (rule disjI1, rule S; auto simp only: handle_storage_request.simps prod.inject intro!: serves_storage_requests)+
qed

lemma register_client_effect:
  assumes res: "handle_control_request E c (control_request.RegisterClient name token version) i s = (resp, i', s')"
  shows "cs_events s' = cs_events s \<and> cs_storages s' = cs_storages s \<and>
    (\<forall>k ps. resp = protocol_response.Control (control_response.RegisterClient k ps) \<longrightarrow> ps = storage_peers_snapshot s)"
proof (cases "version = FS0_VERSION")
  case False
  then have "validate_registration_version version = Inl (Fs0Version FS0_VERSION version)" by (simp add: version_checked)
  with res show ?thesis by (auto simp: respond_def st_bind_eval)
next
  case True
  then have v: "validate_registration_version version = Inr ()" by (simp add: version_checked)
  show ?thesis
    using res v by (cases "token_allowed token s")
      (auto simp: respond_def register_client_def next_id_def st_bind_eval storage_peers_snapshot_def)
qed

lemma request_effect:
  assumes inv: "server_inv s" and env: "env_ok E request s"
    and res: "handle_control_request E c request i s = (resp, i', s')"
  shows "silent s s' \<or> (\<exists>p. announces p s s') \<or>
    (\<exists>k v off. i = Storage k \<and> request = control_request.UpdateStorageVolumeOffset v off \<and>
       resp = protocol_response.Control control_response.UpdateStorageVolumeOffset \<and> i' = i \<and> refills k s s')"
proof (cases "registration request")
  case True
  then consider (client) name token version where "request = control_request.RegisterClient name token version"
    | (storage) name token version vs endpoint where "request = control_request.RegisterStorage name token version vs endpoint"
    by (cases request) (simp_all add: registration_def)
  then show ?thesis
  proof cases
    case client
    have left: "ids_left s" using env by (simp add: env_ok_def)
    have "cs_events s' = cs_events s \<and> cs_storages s' = cs_storages s"
      using register_client_effect [OF res [unfolded client]] by blast
    then show ?thesis by (simp add: silent_def storage_peer_def)
  next
    case storage
    from register_storage_effect [OF inv _ res [unfolded storage]] env show ?thesis by (auto simp: env_ok_def)
  qed
next
  case False
  note other = handle_control_request_other [OF False, of E c i s, unfolded res]
  show ?thesis
  proof (cases i)
    case Anonymous
    with other show ?thesis by (simp add: respond_def silent_def)
  next
    case (Client k)
    obtain r t where h: "handle_client_request E request s = (r, t)" by force
    have "clock_ok E" "commit_ok E request" using env by (simp_all add: env_ok_def)
    from silent_serves [OF st_relD [OF serves_client_request [OF this] h]] have "silent s t" .
    moreover have "s' = t" using other h Client by (auto simp: respond_def)
    ultimately show ?thesis by simp
  next
    case (Storage k)
    obtain r t where h: "handle_storage_request E k request s = (r, t)" by force
    moreover have "s' = t" "i' = i" "resp = (case r of Inr response \<Rightarrow> protocol_response.Control response | Inl err \<Rightarrow> protocol_response.Error err)"
      using other h Storage by (auto simp: respond_def)
    ultimately show ?thesis using storage_request_effect [OF inv h] Storage by auto
  qed
qed

lemma close_effect:
  assumes inv: "server_inv s"
  shows "silent s (close_connection c i s) \<or> (\<exists>k. removes k s (close_connection c i s))"
proof (cases i)
  case (Storage k)
  obtain ev t where u: "unregister_storage k s = (ev, t)" by force
  note U = unregister_storage_spec [OF inv u]
  have t: "storage_peer j t = (if j = k then None else storage_peer j s)" for j by (simp add: storage_peer_def U(2))
  have e: "cs_events t = cs_events s" using u by (auto simp: unregister_storage_def Let_def split: option.splits)
  show ?thesis
  proof (cases "hm_get (cs_storages s) k")
    case None
    then have "ev = None" using U(6) by simp
    then have "cs_events (close_connection c i s) = cs_events s" "cs_storages (close_connection c i s) = cs_storages t"
      using u e by (simp_all add: close_connection_def Storage)
    moreover have "storage_peer j t = storage_peer j s" for j using t [of j] None by (simp add: storage_peer_def)
    ultimately show ?thesis by (simp add: silent_def storage_peer_def)
  next
    case (Some st)
    then have "close_connection c i s = (broadcast_event (StorageRemoved k) t)\<lparr> cs_closed := cs_closed t @ [c] \<rparr>"
      using U(6) u by (simp add: close_connection_def Storage broadcast_event_def)
    then have "removes k s (close_connection c i s)"
      using t e by (simp add: removes_def broadcasts_def broadcast_event_def storage_peer_def)
    then show ?thesis by blast
  qed
qed (auto simp: close_connection_def silent_def unregister_client_def storage_peer_def split: option.splits)

text \<open>Every step of a server that goes on running.\<close>

lemma step_effect:
  assumes inv: "system_inv x" and step: "central_step x y" and on: "sys_conns y d \<noteq> None"
  shows "silent (sys_server x) (sys_server y) \<or> (\<exists>p. announces p (sys_server x) (sys_server y)) \<or>
    (\<exists>i. removes i (sys_server x) (sys_server y)) \<or> (\<exists>i. reports_offset i x y \<and> refills i (sys_server x) (sys_server y))"
  using step
proof (cases rule: central_step.cases)
  case (accept c)
  then show ?thesis by (simp add: silent_def)
next
  case (request c i E req response i' s')
  have "server_inv (sys_server x)" using inv by (simp add: system_inv_def)
  from request_effect [OF this request(4,5)] show ?thesis
  proof (elim disjE exE conjE)
    fix k v off assume "i = Storage k" "req = control_request.UpdateStorageVolumeOffset v off" "i' = i"
      "response = protocol_response.Control control_response.UpdateStorageVolumeOffset" "refills k (sys_server x) s'"
    note k = this
    have y: "sys_server y = s'" using request(1) by simp
    have "reports_offset k x y" unfolding reports_offset_def y
      by (intro exI conjI) (rule request(2) [unfolded k(1)], rule request(5) [unfolded k(1-4) k(1)])
    moreover have "refills k (sys_server x) (sys_server y)" unfolding y by (rule k(5))
    ultimately show ?thesis by blast
  qed (use request(1) in \<open>simp_all, blast\<close>)
next
  case (update_begins c i E req storage_id lease s')
  from silent_serves [OF st_relD [OF serves_begin_update_prepare this(5)]] update_begins show ?thesis by simp
next
  case (update_granted c storage_id lease E granted s1 response s')
  have "serves (sys_server x) s1" by (rule st_relD [OF serves_grant update_granted(3)])
  moreover have "serves s1 s'" by (rule st_relD [OF serves_begin_update_finish update_granted(4)])
  ultimately have "serves (sys_server x) s'" by (rule serve.step_trans)
  then have "silent (sys_server x) s'" by (rule silent_serves)
  with update_granted show ?thesis by simp
next
  case (disconnect c i)
  with close_effect [of "sys_server x" c i] inv show ?thesis by (auto simp: system_inv_def)
next
  case (restart tokens)
  with on show ?thesis by (simp add: central_system_start_def)
qed

section \<open>A client that listens\<close>

text \<open>The events that a step sends over a connection, and what the listener of a client makes of them in turn.\<close>

definition heard :: "conn \<Rightarrow> central_system \<Rightarrow> central_system \<Rightarrow> protocol_event list" where
  "heard d x y = map snd (filter (\<lambda>(c, e). c = d) (drop (length (cs_events (sys_server x))) (cs_events (sys_server y))))"

definition hear_all :: "protocol_event list \<Rightarrow> storage_peer_info list \<Rightarrow> storage_peer_info list" where
  "hear_all = fold (\<lambda>e ps. snd (client_event (Event e) ps))"

fun about_storage :: "protocol_event \<Rightarrow> u64" where
  "about_storage (StorageChanged p) = spi_storage_id p"
| "about_storage (StorageRemoved i) = i"

text \<open>The storages that have reported a fill since they were last heard of.\<close>

definition unannounced :: "conn \<Rightarrow> central_system \<Rightarrow> central_system \<Rightarrow> u64 set \<Rightarrow> u64 set" where
  "unannounced d x y stale = {i. (i \<in> stale \<or> reports_offset i x y) \<and> i \<notin> about_storage ` set (heard d x y)}"

text \<open>
  A client that registered over the connection \<open>d\<close> as \<open>k\<close>, starting with the list in the answer, while the steps of
  central go on and the connection still speaks for that client: its list is \<open>ps\<close>.
\<close>

inductive listening :: "conn \<Rightarrow> u64 \<Rightarrow> central_system \<Rightarrow> storage_peer_info list \<Rightarrow> u64 set \<Rightarrow> bool" for d k where
  registers: "reachable tokens x \<Longrightarrow> sys_conns x d = Some i \<Longrightarrow> sys_pending x d = None \<Longrightarrow>
    request = control_request.RegisterClient name token version \<Longrightarrow> env_ok E request (sys_server x) \<Longrightarrow>
    handle_control_request E d request i (sys_server x) = (protocol_response.Control (control_response.RegisterClient k ps), i', s') \<Longrightarrow>
    listening d k (x\<lparr> sys_server := s', sys_conns := (sys_conns x)(d \<mapsto> i') \<rparr>) ps {}"
| hears: "listening d k x ps stale \<Longrightarrow> central_step x y \<Longrightarrow> sys_conns y d = Some (Client k) \<Longrightarrow>
    listening d k y (hear_all (heard d x y) ps) (unannounced d x y stale)"

lemma heard_silent: "cs_events (sys_server y) = cs_events (sys_server x) \<Longrightarrow> heard d x y = []"
  by (simp add: heard_def)

lemma heard_broadcast:
  assumes "broadcasts e (sys_server x) (sys_server y)" and "speaks_for (sys_server y) d (Client k)"
  shows "\<exists>n. heard d x y = replicate (Suc n) e"
proof -
  let ?cs = "map (ccc_connection \<circ> snd) (cs_clients (sys_server y)) @ map (scc_connection \<circ> snd) (cs_storages (sys_server y))"
  obtain c where "hm_get (cs_clients (sys_server y)) k = Some c" "ccc_connection c = d" using assms(2) by (auto simp: speaks_for_def)
  then have "(k, c) \<in> set (cs_clients (sys_server y))" "ccc_connection c = d" by (auto dest: map_of_SomeD)
  then have d: "d \<in> set (filter (\<lambda>c. c = d) ?cs)" by force
  have "heard d x y = map (\<lambda>_. e) (filter (\<lambda>c. c = d) ?cs)"
    using assms(1) unfolding heard_def broadcasts_def by (simp add: filter_map comp_def)
  also have "\<dots> = replicate (length (filter (\<lambda>c. c = d) ?cs)) e" by (simp add: map_replicate_const)
  finally have h: "heard d x y = replicate (length (filter (\<lambda>c. c = d) ?cs)) e" .
  have "0 < length (filter (\<lambda>c. c = d) ?cs)" using d by (rule length_pos_if_in_set)
  then obtain n where "length (filter (\<lambda>c. c = d) ?cs) = Suc n" using gr0_implies_Suc by blast
  with h show ?thesis by (intro exI [of _ n]) (simp only:)
qed

text \<open>Hearing of a storage once or several times.\<close>

lemma hear_all_simps: "hear_all [] ps = ps" "hear_all (e # es) ps = hear_all es (snd (client_event (Event e) ps))"
  by (simp_all add: hear_all_def)

lemma hear_all_changed:
  assumes "peers_ok ps"
  shows "peers_ok (hear_all (replicate n (StorageChanged p)) ps) \<and>
    (0 < n \<longrightarrow> peer_map (hear_all (replicate n (StorageChanged p)) ps) = (peer_map ps)(spi_storage_id p \<mapsto> p))"
  using assms
proof (induction n arbitrary: ps)
  case (Suc n)
  from Suc.IH [OF storage_changed_peers(1) [OF Suc.prems, of p]] storage_changed_peers(2) [OF Suc.prems, of p] show ?case
    by (cases n) (simp_all add: hear_all_simps fun_upd_upd del: client_event.simps fun_upd_apply)
qed (simp add: hear_all_simps)

lemma hear_all_removed:
  assumes "peers_ok ps"
  shows "peers_ok (hear_all (replicate n (StorageRemoved i)) ps) \<and>
    (0 < n \<longrightarrow> peer_map (hear_all (replicate n (StorageRemoved i)) ps) = (peer_map ps)(i := None))"
  using assms
proof (induction n arbitrary: ps)
  case (Suc n)
  from Suc.IH [OF storage_removed_peers(1) [OF Suc.prems, of i]] storage_removed_peers(2) [OF Suc.prems, of i] show ?case
    by (cases n) (simp_all add: hear_all_simps fun_upd_upd del: client_event.simps fun_upd_apply)
qed (simp add: hear_all_simps)

lemma hears_follows:
  assumes old: "follows ps stale (sys_server x)" and inv: "system_inv x" and step: "central_step x y"
    and on: "sys_conns y d = Some (Client k)"
  shows "follows (hear_all (heard d x y) ps) (unannounced d x y stale) (sys_server y)"
proof -
  have ok: "peers_ok ps" and eq: "\<And>i. i \<notin> stale \<Longrightarrow> peer_map ps i = storage_peer i (sys_server x)"
    and view: "\<And>i. map_option peer_view (peer_map ps i) = map_option peer_view (storage_peer i (sys_server x))"
    using old by (simp_all add: follows_def)
  have "system_inv y" by (rule system_inv_step [OF step inv])
  then have speaks: "speaks_for (sys_server y) d (Client k)" using on by (simp add: system_inv_def)
  have "sys_conns y d \<noteq> None" using on by simp
  from step_effect [OF inv step this] show ?thesis
  proof (elim disjE exE conjE)
    assume "silent (sys_server x) (sys_server y)"
    then show ?thesis using ok eq view
      by (simp add: silent_def heard_silent follows_def hear_all_def unannounced_def)
  next
    fix p assume a: "announces p (sys_server x) (sys_server y)"
    then obtain n where h: "heard d x y = replicate (Suc n) (StorageChanged p)"
      using heard_broadcast [OF _ speaks] unfolding announces_def by blast
    have "unannounced d x y stale \<supseteq> stale - {spi_storage_id p}" "spi_storage_id p \<notin> unannounced d x y stale"
      by (auto simp: unannounced_def h)
    with hear_all_changed [OF ok, of "Suc n" p] a eq view show ?thesis
      unfolding follows_def h announces_def by auto
  next
    fix i assume a: "removes i (sys_server x) (sys_server y)"
    then obtain n where h: "heard d x y = replicate (Suc n) (StorageRemoved i)"
      using heard_broadcast [OF _ speaks] unfolding removes_def by blast
    have "unannounced d x y stale \<supseteq> stale - {i}" "i \<notin> unannounced d x y stale"
      by (auto simp: unannounced_def h)
    with hear_all_removed [OF ok, of "Suc n" i] a eq view show ?thesis
      unfolding follows_def h removes_def by auto
  next
    fix i assume r: "reports_offset i x y" and a: "refills i (sys_server x) (sys_server y)"
    have h: "heard d x y = []" using a by (simp add: refills_def heard_silent)
    have i: "i \<in> unannounced d x y stale" "stale \<subseteq> unannounced d x y stale" using r by (auto simp: unannounced_def h)
    show ?thesis unfolding follows_def
    proof (intro conjI allI impI)
      fix j
      show "j \<notin> unannounced d x y stale \<Longrightarrow> peer_map (hear_all (heard d x y) ps) j = storage_peer j (sys_server y)"
        using i eq [of j] a by (cases "j = i") (auto simp: hear_all_def h refills_def)
      show "map_option peer_view (peer_map (hear_all (heard d x y) ps) j) = map_option peer_view (storage_peer j (sys_server y))"
        using view [of j] a by (cases "j = i") (simp_all add: hear_all_def h refills_def)
    qed (simp add: hear_all_def h ok)
  qed
qed

lemma registers_step:
  assumes "sys_conns x d = Some i" and "sys_pending x d = None" and "env_ok E request (sys_server x)"
    and "handle_control_request E d request i (sys_server x) = (response, i', s')"
  shows "central_step x (x\<lparr> sys_server := s', sys_conns := (sys_conns x)(d \<mapsto> i') \<rparr>)"
  using assms by (rule central_step.request)

lemma listening_follows: "listening d k x ps stale \<Longrightarrow> system_inv x \<and> follows ps stale (sys_server x)"
proof (induction rule: listening.induct)
  case (registers tokens x i request name token version E ps i' s')
  have inv: "system_inv x" by (rule reachable_system_inv [OF registers(1)])
  then have reg: "server_inv (sys_server x)" "registry_ok (sys_server x)" by (simp_all add: system_inv_def server_inv_def)
  have ps: "ps = storage_peers_snapshot (sys_server x)" and same: "cs_storages s' = cs_storages (sys_server x)"
    using register_client_effect [OF registers(6) [unfolded registers(4)]] by simp_all
  have "follows ps {} s'"
    using snapshot_peers [OF reg(2)] same unfolding follows_def ps by (simp add: storage_peer_def)
  moreover have "system_inv (x\<lparr> sys_server := s', sys_conns := (sys_conns x)(d \<mapsto> i') \<rparr>)"
    by (rule system_inv_step [OF registers_step [OF registers(2,3,5,6)] inv])
  ultimately show ?case by simp
next
  case (hears x ps stale y)
  then show ?case using system_inv_step hears_follows by blast
qed

end
