(* ===== verification/Client_Transfer.thy ===== *)
theory Client_Transfer
  imports Client_Session
begin

text \<open>
  Uploading and downloading a file (\<^verbatim>\<open>fs0-client/src/client.rs\<close>). The chunks of a transfer run in the scheduler of the
  session, whose callbacks may come at any time: the state they share with the transfer is a record with one
  function for each place that locks it, and what the transfer as a whole ends with is the outcome of a sequence of
  such events. The loops that cut a file into chunks and bundles, and that place chunks in the file when it is
  read, are functions.
\<close>

section \<open>The state of a transfer\<close>

text \<open>\<open>InternalDownloadState\<close> and \<open>InternalUploadState\<close> have the same fields. \<open>ts_done_tx\<close> says whether the sender is
  still there, \<open>ts_sent\<close> what it has sent.\<close>

record transfer_state =
  ts_remain_chunks :: u64
  ts_total_chunks :: u64
  ts_scheduling_done :: bool
  ts_first_error :: "fs0_error option"
  ts_done_tx :: bool
  ts_sent :: "(unit fs0_result) option"

definition transfer_new :: transfer_state where
  "transfer_new = \<lparr> ts_remain_chunks = 0, ts_total_chunks = 0, ts_scheduling_done = False, ts_first_error = None,
     ts_done_tx = True, ts_sent = None \<rparr>"

definition chunk_scheduled :: "transfer_state \<Rightarrow> transfer_state" where
  "chunk_scheduled st = st\<lparr> ts_remain_chunks := ts_remain_chunks st + 1, ts_total_chunks := ts_total_chunks st + 1 \<rparr>"

definition record_error :: "fs0_error \<Rightarrow> transfer_state \<Rightarrow> transfer_state" where
  "record_error e st = (if ts_first_error st = None then st\<lparr> ts_first_error := Some e \<rparr> else st)"

text \<open>The sender is taken and the error too.\<close>

definition send_done :: "transfer_state \<Rightarrow> transfer_state" where
  "send_done st =
     (if ts_done_tx st
      then st\<lparr> ts_done_tx := False, ts_first_error := None,
               ts_sent := Some (case ts_first_error st of Some e \<Rightarrow> Inl e | None \<Rightarrow> Inr ()) \<rparr>
      else st)"

text \<open>The end of both callbacks.\<close>

definition chunk_completed :: "transfer_state \<Rightarrow> transfer_state" where
  "chunk_completed st =
     (let st = st\<lparr> ts_remain_chunks := saturating_sub (ts_remain_chunks st) 1 \<rparr> in
      if ts_scheduling_done st \<and> ts_remain_chunks st = 0 then send_done st else st)"

definition upload_complete :: "hash_id \<Rightarrow> u64 \<Rightarrow> upload_chunk_response fs0_result \<Rightarrow> transfer_state \<Rightarrow> transfer_state" where
  "upload_complete chunk_id raw_len result st = chunk_completed
     (case result of
        Inr response \<Rightarrow>
          if ucs_chunk_id response \<noteq> chunk_id \<or> ucs_raw_len response \<noteq> raw_len
          then record_error (InvalidData ''uploaded chunk metadata does not match request'') st else st
      | Inl e \<Rightarrow> record_error e st)"

record download_write_job =
  dwj_raw_offset :: u64
  dwj_raw_bytes :: "u8 list"

text \<open>The callback of a download also sends the bytes to the writer, whose channel may be closed.\<close>

definition download_complete ::
  "hash_id \<Rightarrow> u64 \<Rightarrow> u64 \<Rightarrow> bool \<Rightarrow> download_result fs0_result \<Rightarrow> transfer_state \<Rightarrow> download_write_job option \<times> transfer_state" where
  "download_complete chunk_id raw_len raw_offset writer_open result st =
     (case result of
        Inr response \<Rightarrow>
          if dcs_chunk_id response \<noteq> chunk_id \<or> of_nat (length (dcs_raw_bytes response)) \<noteq> raw_len
          then (None, chunk_completed (record_error (InvalidData ''downloaded chunk metadata does not match request'') st))
          else if \<not> writer_open then (None, chunk_completed (record_error (Internal ''download writer task closed'') st))
          else (Some \<lparr> dwj_raw_offset = raw_offset, dwj_raw_bytes = dcs_raw_bytes response \<rparr>, chunk_completed st)
      | Inl e \<Rightarrow> (None, chunk_completed (record_error e st)))"

text \<open>After the last chunk has been scheduled: whether the transfer waits for the receiver.\<close>

definition finish_scheduling :: "transfer_state \<Rightarrow> bool \<times> transfer_state" where
  "finish_scheduling st =
     (let st = st\<lparr> ts_scheduling_done := True \<rparr> in
      if ts_remain_chunks st = 0 then (False, send_done st) else (True, st))"

section \<open>Upload\<close>

record upload_bundle =
  ub_bundle_id :: hash_id
  ub_raw_len :: u64
  ub_chunks :: "bundle_chunk_ref list"

text \<open>
  What the loop has done so far: the calls of \<open>read\<close>, what they have left of the file, and the jobs enqueued. A read
  returns at least one byte while there is one, and may return fewer than asked for: \<open>ux_read k = Inr n\<close> says that the
  \<open>k\<close>-th one returns at most \<open>n + 1\<close>. \<open>ux_enqueue\<close> is the error of enqueueing a job.
\<close>

record upload_progress =
  up_reads :: nat
  up_rest :: "u8 list"
  up_jobs :: "upload_job list"

record upload_ctx =
  ux_lease_id :: u64
  ux_file_id :: u64
  ux_volume_id :: u64
  ux_path :: string
  ux_read :: "nat \<Rightarrow> string + nat"
  ux_enqueue :: "nat \<Rightarrow> fs0_error option"

type_synonym 'a upload_op = "(upload_progress, fs0_error, 'a) st"

definition reader_read :: "upload_ctx \<Rightarrow> nat \<Rightarrow> (u8 list) upload_op" where
  "reader_read X limit = (\<lambda>p.
     case ux_read X (up_reads p) of
       Inl msg \<Rightarrow> (Inl (Io msg), p\<lparr> up_reads := up_reads p + 1 \<rparr>)
     | Inr n \<Rightarrow>
         let m = min (n + 1) limit in
         (Inr (take m (up_rest p)), p\<lparr> up_reads := up_reads p + 1, up_rest := drop m (up_rest p) \<rparr>))"

definition read_limit :: "u64 \<Rightarrow> nat" where
  "read_limit raw_len = min (unat VOLUME_RAW_CHUNK_SIZE) (unat (VOLUME_BUNDLE_RAW_SIZE - raw_len))"

definition upload_job_of :: "upload_ctx \<Rightarrow> 'h blake3 \<Rightarrow> u64 \<Rightarrow> u8 list \<Rightarrow> upload_job" where
  "upload_job_of X B chunk_offset raw =
     \<lparr> ucj_lease_id = ux_lease_id X, ucj_file_id = ux_file_id X, ucj_volume_id = ux_volume_id X, ucj_chunk_id = blake3_hash B raw,
       ucj_raw_len = of_nat (length raw), ucj_source_path = ux_path X, ucj_source_offset = chunk_offset \<rparr>"

definition enqueue_job :: "upload_ctx \<Rightarrow> upload_job \<Rightarrow> unit upload_op" where
  "enqueue_job X job = (\<lambda>p.
     (case ux_enqueue X (length (up_jobs p)) of Some e \<Rightarrow> Inl e | None \<Rightarrow> Inr (), p\<lparr> up_jobs := up_jobs p @ [job] \<rparr>))"

lemma reader_read_shorter: "reader_read X n p = (Inr raw, p') \<Longrightarrow> raw \<noteq> [] \<Longrightarrow> length (up_rest p') < length (up_rest p)"
  by (auto simp: reader_read_def Let_def split: sum.splits)

lemma enqueue_job_rest [simp]: "up_rest (snd (enqueue_job X job p)) = up_rest p"
  by (simp add: enqueue_job_def)

text \<open>The inner loop, which fills one bundle.\<close>

function upload_chunks ::
  "upload_ctx \<Rightarrow> 'h blake3 \<Rightarrow> u64 \<Rightarrow> u64 \<Rightarrow> bundle_chunk_ref list \<Rightarrow> (u64 \<times> bundle_chunk_ref list) upload_op" where
  "upload_chunks X B new_size raw_len chunks p =
     (if raw_len < VOLUME_BUNDLE_RAW_SIZE then
        (case reader_read X (read_limit raw_len) p of
           (Inl e, p') \<Rightarrow> (Inl e, p')
         | (Inr raw, p') \<Rightarrow>
             if raw = [] then (Inr (raw_len, chunks), p')
             else
               (case checked_add new_size raw_len of
                  None \<Rightarrow> (Inl (IntegerConversion ''uploaded chunk offset overflow''), p')
                | Some chunk_offset \<Rightarrow>
                    (case enqueue_job X (upload_job_of X B chunk_offset raw) p' of
                       (Inl e, p'') \<Rightarrow> (Inl e, p'')
                     | (Inr _, p'') \<Rightarrow>
                         upload_chunks X B new_size (raw_len + of_nat (length raw))
                           (chunks @ [\<lparr> bcr_chunk_index = of_nat (length chunks), bcr_chunk_id = blake3_hash B raw \<rparr>]) p'')))
      else (Inr (raw_len, chunks), p))"
  by pat_completeness auto
termination
  by (relation "measure (\<lambda>(X, B, new_size, raw_len, chunks, p). length (up_rest p))")
    (auto simp: enqueue_job_def dest!: reader_read_shorter [OF sym])

declare upload_chunks.simps [simp del]

lemma upload_chunks_InrE:
  assumes "upload_chunks X B new_size raw_len chunks p = (Inr (n, chunks'), p')"
  obtains (full) "VOLUME_BUNDLE_RAW_SIZE \<le> raw_len" "n = raw_len" "chunks' = chunks" "p' = p"
  | (eof) "raw_len < VOLUME_BUNDLE_RAW_SIZE" "reader_read X (read_limit raw_len) p = (Inr [], p')" "n = raw_len" "chunks' = chunks"
  | (chunk) raw p1 off where "raw_len < VOLUME_BUNDLE_RAW_SIZE" "reader_read X (read_limit raw_len) p = (Inr raw, p1)" "raw \<noteq> []"
      "checked_add new_size raw_len = Some off"
      "upload_chunks X B new_size (raw_len + of_nat (length raw))
         (chunks @ [\<lparr> bcr_chunk_index = of_nat (length chunks), bcr_chunk_id = blake3_hash B raw \<rparr>])
         (p1\<lparr> up_jobs := up_jobs p1 @ [upload_job_of X B off raw] \<rparr>) = (Inr (n, chunks'), p')"
proof (cases "raw_len < VOLUME_BUNDLE_RAW_SIZE")
  case True
  obtain r p1 where r: "reader_read X (read_limit raw_len) p = (r, p1)" by force
  note eq = assms [unfolded upload_chunks.simps [of X B new_size raw_len chunks p] r prod.case, simplified True if_True]
  show ?thesis
  proof (cases "r = Inr []")
    case True
    with eq have "n = raw_len" "chunks' = chunks" "p' = p1" by simp_all
    with True r \<open>raw_len < _\<close> show ?thesis by (intro eof) simp_all
  next
    case False
    obtain raw where raw: "r = Inr raw" "raw \<noteq> []" using eq False by (cases r) auto
    obtain off where off: "checked_add new_size raw_len = Some off" using eq raw by (cases "checked_add new_size raw_len") auto
    have "ux_enqueue X (length (up_jobs p1)) = None"
      using eq raw off by (cases "ux_enqueue X (length (up_jobs p1))") (simp_all add: enqueue_job_def)
    then show ?thesis using eq raw off r \<open>raw_len < _\<close> by (intro chunk [of raw p1 off]) (simp_all add: enqueue_job_def)
  qed
next
  case False
  with assms have "n = raw_len" "chunks' = chunks" "p' = p" by (simp_all add: upload_chunks.simps [of X B new_size raw_len chunks p])
  with False show ?thesis by (intro full) simp_all
qed

lemma upload_chunks_shorter:
  "upload_chunks X B new_size raw_len chunks p = (Inr (n, chunks'), p') \<Longrightarrow>
     length (up_rest p') + length chunks' \<le> length (up_rest p) + length chunks"
proof (induction "length (up_rest p)" arbitrary: raw_len chunks p rule: less_induct)
  case less
  from less.prems show ?case
  proof (cases rule: upload_chunks_InrE)
    case eof
    then show ?thesis by (auto simp: reader_read_def Let_def split: sum.splits)
  next
    case (chunk raw p1 off)
    have shrink: "length (up_rest p1) < length (up_rest p)" using chunk(2,3) by (rule reader_read_shorter)
    from less.hyps [OF _ chunk(5)] shrink show ?thesis by simp
  qed simp
qed

text \<open>The outer loop, which ends with the first bundle that gets no chunk.\<close>

function upload_bundles :: "upload_ctx \<Rightarrow> 'h blake3 \<Rightarrow> u64 \<Rightarrow> upload_bundle list \<Rightarrow> (u64 \<times> upload_bundle list) upload_op" where
  "upload_bundles X B new_size bundles p =
     (case upload_chunks X B new_size 0 [] p of
        (Inl e, p') \<Rightarrow> (Inl e, p')
      | (Inr (raw_len, chunks), p') \<Rightarrow>
          if chunks = [] then (Inr (new_size, bundles), p')
          else
            (case checked_add new_size raw_len of
               None \<Rightarrow> (Inl (IntegerConversion ''uploaded file size overflow''), p')
             | Some n \<Rightarrow>
                 upload_bundles X B n
                   (bundles @ [\<lparr> ub_bundle_id = bundle_hash_from_chunks B chunks, ub_raw_len = raw_len, ub_chunks = chunks \<rparr>]) p'))"
  by pat_completeness auto
termination
proof (relation "measure (\<lambda>(X, B, new_size, bundles, p). length (up_rest p))", goal_cases)
  case (2 X B new_size bundles p r p' rc raw_len chunks n)
  then have "upload_chunks X B new_size 0 [] p = (Inr (raw_len, chunks), p')" by simp
  from upload_chunks_shorter [OF this] 2 show ?case by (cases chunks) auto
qed simp

declare upload_bundles.simps [simp del]

text \<open>Committing the bundles; a bundle that the volume already has is not committed again.\<close>

definition commit_upload_bundle :: "('e, 'w) client_env \<Rightarrow> u64 \<Rightarrow> u64 \<Rightarrow> u64 \<Rightarrow> upload_bundle \<Rightarrow> ('w, committed_bundle) session_op" where
  "commit_upload_bundle E volume_id lease_id file_id bundle =
     st_bind (session_has_bundle E volume_id (ub_bundle_id bundle)) (\<lambda>existing.
     case existing of
       Some (raw_len, compressed_len) \<Rightarrow>
         if raw_len \<noteq> ub_raw_len bundle then st_throw (InvalidData ''existing bundle raw_len does not match uploaded bundle'')
         else st_return \<lparr> cb_bundle_id = ub_bundle_id bundle, cb_raw_len = raw_len, cb_compressed_len = compressed_len \<rparr>
     | None \<Rightarrow>
         st_bind (session_commit_bundle E \<lparr> cbr_lease_id = lease_id, cbr_file_id = file_id, cbr_volume_id = volume_id,
           cbr_bundle_id = ub_bundle_id bundle, cbr_chunks = ub_chunks bundle \<rparr>) (\<lambda>committed.
         if cb_raw_len committed \<noteq> ub_raw_len bundle then st_throw (InvalidData ''committed bundle raw_len does not match uploaded bundle'')
         else st_return committed))"

fun commit_upload_bundles ::
  "('e, 'w) client_env \<Rightarrow> u64 \<Rightarrow> u64 \<Rightarrow> u64 \<Rightarrow> upload_bundle list \<Rightarrow> ('w, committed_bundle list) session_op" where
  "commit_upload_bundles E volume_id lease_id file_id [] = st_return []"
| "commit_upload_bundles E volume_id lease_id file_id (bundle # bundles) =
     st_bind (commit_upload_bundle E volume_id lease_id file_id bundle) (\<lambda>committed.
     st_bind (commit_upload_bundles E volume_id lease_id file_id bundles) (\<lambda>rest. st_return (committed # rest)))"

text \<open>The first storage that has the volume of the lease.\<close>

fun find_map :: "('a \<Rightarrow> 'b option) \<Rightarrow> 'a list \<Rightarrow> 'b option" where
  "find_map f [] = None"
| "find_map f (x # xs) = (case f x of Some y \<Rightarrow> Some y | None \<Rightarrow> find_map f xs)"

definition lease_storage :: "u64 \<Rightarrow> storage_peer_info list \<Rightarrow> (u64 \<times> u64) option" where
  "lease_storage volume_id storages =
     find_map (\<lambda>storage. map_option (\<lambda>volume. (spi_storage_id storage, svi_volume_id volume))
       (find (\<lambda>volume. svi_volume_id volume = volume_id) (spi_volumes storage))) storages"

text \<open>
  What an upload needs from outside besides the world: how the local file is read, errors of enqueueing, the order in
  which the chunks complete and how many of them do so before the last one has been scheduled.
  The chunks are counted as scheduled before the first one completes: the counters are the same in every other
  interleaving, which \<^verbatim>\<open>Client_Safety\<close> covers. Each job runs its handler; that jobs for the same chunk share one run
  is the matter of \<^verbatim>\<open>Request_Scheduler\<close>. When the loop fails, the jobs that it has enqueued run on in the background of
  the code; the transfer no longer waits for them and the model leaves them out.
\<close>

record upload_env =
  ue_read :: "nat \<Rightarrow> string + nat"
  ue_enqueue :: "nat \<Rightarrow> fs0_error option"
  ue_order :: "upload_job list \<Rightarrow> upload_job list"
  ue_before :: nat

text \<open>The jobs of the scheduler, each followed by its callback, in the order in which they complete.\<close>

fun complete_uploads ::
  "('e, 'w) client_env \<Rightarrow> 'h blake3 \<Rightarrow> zstd \<Rightarrow> upload_job list \<Rightarrow> transfer_state \<Rightarrow> storage_session_inner \<times> 'w fs0_client \<Rightarrow>
   transfer_state \<times> (storage_session_inner \<times> 'w fs0_client)" where
  "complete_uploads E B Z [] st xs = (st, xs)"
| "complete_uploads E B Z (job # jobs) st xs =
     (case upload_chunk_job E B Z job xs of
        (result, xs') \<Rightarrow> complete_uploads E B Z jobs (upload_complete (ucj_chunk_id job) (ucj_raw_len job) result st) xs')"

definition run_uploads :: "('e, 'w) client_env \<Rightarrow> 'h blake3 \<Rightarrow> zstd \<Rightarrow> upload_env \<Rightarrow> upload_job list \<Rightarrow> ('w, unit) session_op" where
  "run_uploads E B Z U jobs xs =
     (case complete_uploads E B Z (take (ue_before U) (ue_order U jobs)) ((chunk_scheduled ^^ length jobs) transfer_new) xs of
        (st, xs) \<Rightarrow>
          (case finish_scheduling st of
             (wait, st) \<Rightarrow>
               (case complete_uploads E B Z (drop (ue_before U) (ue_order U jobs)) st xs of
                  (st, xs) \<Rightarrow>
                    (if wait then (case ts_sent st of Some result \<Rightarrow> result | None \<Rightarrow> Inl (Internal ''upload completion channel closed''))
                     else Inr (), xs))))"

definition upload_ctx_of :: "upload_env \<Rightarrow> update_lease \<Rightarrow> u64 \<Rightarrow> string \<Rightarrow> upload_ctx" where
  "upload_ctx_of U lease volume_id path =
     \<lparr> ux_lease_id = ul_lease_id lease, ux_file_id = ul_file_id lease, ux_volume_id = volume_id, ux_path = path,
       ux_read = ue_read U, ux_enqueue = ue_enqueue U \<rparr>"

definition upload_body ::
  "('e, 'w) client_env \<Rightarrow> 'h blake3 \<Rightarrow> zstd \<Rightarrow> upload_env \<Rightarrow> update_lease \<Rightarrow> string \<Rightarrow> u8 list \<Rightarrow> ('w, u64 \<times> committed_bundle list) client_op" where
  "upload_body E B Z U lease path contents =
     st_bind (st_gets (\<lambda>s. lease_storage (ul_volume_id lease) (cse_storages (fcl_central s)))) (\<lambda>found.
     st_bind (st_lift (ok_or NotFound found)) (\<lambda>(storage_id, volume_id).
     in_session storage_id
       (case upload_bundles (upload_ctx_of U lease volume_id path) B 0 [] \<lparr> up_reads = 0, up_rest = contents, up_jobs = [] \<rparr> of
          (r, p) \<Rightarrow>
            st_bind (st_lift r) (\<lambda>(new_size, bundles).
            st_bind (run_uploads E B Z U (up_jobs p)) (\<lambda>_.
            st_bind (commit_upload_bundles E volume_id (ul_lease_id lease) (ul_file_id lease) bundles) (\<lambda>committed.
            st_return (new_size, committed)))))))"

text \<open>Aborting ignores its result.\<close>

definition abort_quietly :: "('e, 'w) client_env \<Rightarrow> update_lease \<Rightarrow> fs0_error \<Rightarrow> ('w, 'a) client_op" where
  "abort_quietly E lease e = (\<lambda>s. (Inl e, snd (call_abort_update E (ul_lease_id lease) (ul_file_id lease) s)))"

definition upload_file_inner ::
  "('e, 'w) client_env \<Rightarrow> 'h blake3 \<Rightarrow> zstd \<Rightarrow> upload_env \<Rightarrow> string \<Rightarrow> string \<Rightarrow> string option \<Rightarrow> ('w, file_record) client_op" where
  "upload_file_inner E B Z U remote_path local_path prefer_volume_name =
     st_bind (st_gets (\<lambda>s. ce_file E local_path (fcl_world s))) (\<lambda>opened.
     st_bind (st_lift (case opened of Inl msg \<Rightarrow> Inl (Io msg) | Inr contents \<Rightarrow> Inr contents)) (\<lambda>contents.
     st_bind (call_begin_update E \<lparr> bur_path = remote_path, bur_offset = 0, bur_prefer_volume_name = prefer_volume_name,
       bur_update_size_hint = Some (of_nat (length contents)) \<rparr>) (\<lambda>lease s.
     case upload_body E B Z U lease local_path contents s of
       (Inl e, s') \<Rightarrow> abort_quietly E lease e s'
     | (Inr (new_size, bundles), s') \<Rightarrow>
         (case call_commit_update E \<lparr> cur_lease_id = ul_lease_id lease, cur_file_id = ul_file_id lease,
             cur_base_size = ul_base_size lease, cur_new_size = new_size, cur_bundles = bundles \<rparr> s' of
            (Inl e, s'') \<Rightarrow> abort_quietly E lease e s''
          | (Inr f, s'') \<Rightarrow> (Inr f, s'')))))"

section \<open>Download\<close>

definition find_replica :: "file_bundle_ref \<Rightarrow> storage_peer_info list \<Rightarrow> (replica_location \<times> storage_peer_info) option" where
  "find_replica bundle storages =
     find_map (\<lambda>replica. map_option (Pair replica) (find (\<lambda>storage. spi_storage_id storage = rl_storage_id replica) storages))
       (fbr_replicas bundle)"

text \<open>Where a chunk goes in the file and how long it has to be.\<close>

definition chunk_region :: "u64 \<Rightarrow> u64 \<Rightarrow> u64 \<Rightarrow> u64 \<Rightarrow> (u64 \<times> u64) fs0_result" where
  "chunk_region plan_size bundle_offset bundle_raw_len chunk_index =
     res_bind (ok_or (IntegerConversion ''download chunk offset overflow'') (checked_mul chunk_index VOLUME_RAW_CHUNK_SIZE)) (\<lambda>chunk_offset.
     if bundle_raw_len \<le> chunk_offset then Inl (InvalidData ''download chunk offset exceeds bundle raw_len'')
     else
       let raw_len = min VOLUME_RAW_CHUNK_SIZE (bundle_raw_len - chunk_offset) in
       res_bind (ok_or (IntegerConversion ''download file offset overflow'') (checked_add bundle_offset chunk_offset)) (\<lambda>raw_offset.
       case checked_add raw_offset raw_len of
         None \<Rightarrow> Inl (InvalidData ''download chunk exceeds file size'')
       | Some e \<Rightarrow> if plan_size < e then Inl (InvalidData ''download chunk exceeds file size'') else Inr (raw_offset, raw_len)))"

record download_job =
  dj_storage_id :: u64
  dj_volume_id :: u64
  dj_chunk_id :: hash_id
  dj_raw_offset :: u64
  dj_raw_len :: u64

text \<open>The loop over the chunks of a bundle; \<open>enq\<close> gives the error of enqueueing the \<open>n\<close>-th chunk.\<close>

fun chunk_jobs ::
  "(nat \<Rightarrow> fs0_error option) \<Rightarrow> u64 \<Rightarrow> u64 \<Rightarrow> u64 \<Rightarrow> replica_location \<Rightarrow> bundle_chunk_ref list \<Rightarrow> download_job list \<Rightarrow> (download_job list) fs0_result" where
  "chunk_jobs enq plan_size bundle_offset bundle_raw_len replica [] jobs = Inr jobs"
| "chunk_jobs enq plan_size bundle_offset bundle_raw_len replica (chunk # chunks) jobs =
     res_bind (chunk_region plan_size bundle_offset bundle_raw_len (bcr_chunk_index chunk)) (\<lambda>(raw_offset, raw_len).
     case enq (length jobs) of
       Some e \<Rightarrow> Inl e
     | None \<Rightarrow>
         chunk_jobs enq plan_size bundle_offset bundle_raw_len replica chunks
           (jobs @ [\<lparr> dj_storage_id = rl_storage_id replica, dj_volume_id = rl_volume_id replica, dj_chunk_id = bcr_chunk_id chunk,
              dj_raw_offset = raw_offset, dj_raw_len = raw_len \<rparr>]))"

fun bundle_jobs ::
  "('e, 'w) client_env \<Rightarrow> (nat \<Rightarrow> fs0_error option) \<Rightarrow> u64 \<Rightarrow> storage_peer_info list \<Rightarrow> file_bundle_ref list \<Rightarrow> download_job list \<Rightarrow>
   ('w, download_job list) client_op" where
  "bundle_jobs E enq plan_size storages [] jobs = st_return jobs"
| "bundle_jobs E enq plan_size storages (bundle # bundles) jobs =
     st_bind (st_lift (ok_or (IntegerConversion ''download bundle offset overflow'')
       (checked_mul (fbr_bundle_index bundle) VOLUME_BUNDLE_RAW_SIZE))) (\<lambda>bundle_offset.
     st_bind (st_lift (ok_or NotFound (find_replica bundle storages))) (\<lambda>(replica, storage).
     st_bind (in_session (spi_storage_id storage) (session_list_bundle_chunks E (rl_volume_id replica) (fbr_bundle_id bundle))) (\<lambda>chunks.
     st_bind (st_lift (chunk_jobs enq plan_size bundle_offset (fbr_raw_len bundle) replica (sort_key bcr_chunk_index chunks) jobs)) (\<lambda>jobs.
     bundle_jobs E enq plan_size storages bundles jobs))))"

text \<open>
  The writer: \<open>seek\<close> and \<open>write_all\<close> for each job, in the order in which they were sent, up to the first error.
  A write past the end of the file fills the gap with zeros.
\<close>

definition write_job :: "download_write_job \<Rightarrow> u8 list \<Rightarrow> u8 list" where
  "write_job job contents =
     (let off = unat (dwj_raw_offset job); n = length (dwj_raw_bytes job);
          padded = contents @ replicate (off + n - length contents) 0
      in take off padded @ dwj_raw_bytes job @ drop (off + n) padded)"

fun run_writer :: "(nat \<Rightarrow> string option) \<Rightarrow> nat \<Rightarrow> download_write_job list \<Rightarrow> u8 list \<Rightarrow> unit fs0_result \<times> u8 list" where
  "run_writer fails k [] contents = (case fails k of Some msg \<Rightarrow> Inl (Io msg) | None \<Rightarrow> Inr (), contents)"
| "run_writer fails k (job # jobs) contents =
     (case fails k of Some msg \<Rightarrow> (Inl (Io msg), contents) | None \<Rightarrow> run_writer fails (k + 1) jobs (write_job job contents))"

record transfer_stats =
  tst_chunks :: u64
  tst_size :: u64

text \<open>
  \<open>dle_create\<close> is the error of creating the file, \<open>dle_order\<close> the order in which the chunks complete, \<open>dle_before\<close> how many
  do so before the last one has been scheduled, \<open>dle_writer_open\<close> whether the channel of the writer is still open.
\<close>

record download_env =
  dle_create :: "string option"
  dle_enqueue :: "nat \<Rightarrow> fs0_error option"
  dle_order :: "download_job list \<Rightarrow> download_job list"
  dle_before :: nat
  dle_writer_open :: "nat \<Rightarrow> bool"
  dle_write :: "nat \<Rightarrow> string option"

definition run_download_job :: "('e, 'w) client_env \<Rightarrow> 'h blake3 \<Rightarrow> zstd \<Rightarrow> download_job \<Rightarrow> ('w, download_result) client_op" where
  "run_download_job E B Z job =
     in_session (dj_storage_id job) (download_chunk_job E B Z \<lparr> dcr_volume_id = dj_volume_id job, dcr_chunk_id = dj_chunk_id job \<rparr>)"

text \<open>The jobs of the schedulers, each followed by its callback, in the order in which they complete, with the write jobs sent.\<close>

fun complete_downloads ::
  "('e, 'w) client_env \<Rightarrow> 'h blake3 \<Rightarrow> zstd \<Rightarrow> (nat \<Rightarrow> bool) \<Rightarrow> nat \<Rightarrow> download_job list \<Rightarrow> transfer_state \<Rightarrow> 'w fs0_client \<Rightarrow>
   (download_write_job list \<times> transfer_state) \<times> 'w fs0_client" where
  "complete_downloads E B Z writer_open k [] st s = (([], st), s)"
| "complete_downloads E B Z writer_open k (job # jobs) st s =
     (case run_download_job E B Z job s of
        (result, s) \<Rightarrow>
          (case download_complete (dj_chunk_id job) (dj_raw_len job) (dj_raw_offset job) (writer_open k) result st of
             (sent, st) \<Rightarrow>
               (case complete_downloads E B Z writer_open (k + 1) jobs st s of
                  ((writes, st), s) \<Rightarrow> (((case sent of None \<Rightarrow> writes | Some w \<Rightarrow> w # writes), st), s))))"

definition run_downloads ::
  "('e, 'w) client_env \<Rightarrow> 'h blake3 \<Rightarrow> zstd \<Rightarrow> download_env \<Rightarrow> download_job list \<Rightarrow> 'w fs0_client \<Rightarrow>
   (unit fs0_result \<times> download_write_job list) \<times> 'w fs0_client" where
  "run_downloads E B Z D jobs s =
     (let before = take (dle_before D) (dle_order D jobs); after = drop (dle_before D) (dle_order D jobs) in
      case complete_downloads E B Z (dle_writer_open D) 0 before ((chunk_scheduled ^^ length jobs) transfer_new) s of
        ((writes, st), s) \<Rightarrow>
          (case finish_scheduling st of
             (wait, st) \<Rightarrow>
               (case complete_downloads E B Z (dle_writer_open D) (length before) after st s of
                  ((writes', st), s) \<Rightarrow>
                    ((if wait then (case ts_sent st of Some result \<Rightarrow> result | None \<Rightarrow> Inl (Internal ''download completion channel closed''))
                      else Inr (), writes @ writes'), s))))"

definition download_file_chunks ::
  "('e, 'w) client_env \<Rightarrow> 'h blake3 \<Rightarrow> zstd \<Rightarrow> download_env \<Rightarrow> file_read_plan \<Rightarrow> storage_peer_info list \<Rightarrow> 'w fs0_client \<Rightarrow>
   (unit fs0_result \<times> download_write_job list) \<times> 'w fs0_client" where
  "download_file_chunks E B Z D plan storages s =
     (case bundle_jobs E (dle_enqueue D) (frp_size plan) storages (frp_bundles plan) [] s of
        (Inl e, s') \<Rightarrow> ((Inl e, []), s')
      | (Inr jobs, s') \<Rightarrow> run_downloads E B Z D jobs s')"

definition download_file ::
  "('e, 'w) client_env \<Rightarrow> 'h blake3 \<Rightarrow> zstd \<Rightarrow> download_env \<Rightarrow> string \<Rightarrow> ('w, transfer_stats \<times> u8 list) client_op" where
  "download_file E B Z D remote_path =
     st_bind (call_get_file_read_plan E remote_path) (\<lambda>plan.
     st_bind (st_gets (\<lambda>s. cse_storages (fcl_central s))) (\<lambda>storages.
     st_bind (st_lift (case dle_create D of Some msg \<Rightarrow> Inl (Io msg) | None \<Rightarrow> Inr ())) (\<lambda>_ s.
     case download_file_chunks E B Z D plan storages s of
       ((download_result, writes), s') \<Rightarrow>
         (case run_writer (dle_write D) 0 writes (replicate (unat (frp_size plan)) 0) of
            (writer_result, contents) \<Rightarrow>
              (res_bind download_result (\<lambda>_. res_bind writer_result (\<lambda>_.
                 Inr (\<lparr> tst_chunks = div_ceil (frp_size plan) VOLUME_RAW_CHUNK_SIZE, tst_size = frp_size plan \<rparr>, contents))), s')))))"

end
