(* ===== verification/Client_Safety.thy ===== *)
theory Client_Safety
  imports Client_Transfer "HOL-Library.Multiset"
begin

text \<open>
  What a transfer ends with, how the upload loop cuts a file into chunks and bundles, and that writing the chunks
  where the download loop places them gives the file back, in whatever order they arrive.
\<close>

section \<open>The outcome of a transfer\<close>

datatype transfer_event = Scheduled | Completed "fs0_error option"

fun run_event :: "transfer_event \<Rightarrow> transfer_state \<Rightarrow> transfer_state" where
  "run_event Scheduled st = chunk_scheduled st"
| "run_event (Completed None) st = chunk_completed st"
| "run_event (Completed (Some e)) st = chunk_completed (record_error e st)"

definition upload_outcome :: "hash_id \<Rightarrow> u64 \<Rightarrow> upload_chunk_response fs0_result \<Rightarrow> fs0_error option" where
  "upload_outcome chunk_id raw_len result =
     (case result of
        Inl e \<Rightarrow> Some e
      | Inr r \<Rightarrow> if ucs_chunk_id r = chunk_id \<and> ucs_raw_len r = raw_len then None
          else Some (InvalidData ''uploaded chunk metadata does not match request''))"

lemma upload_complete_event: "upload_complete chunk_id raw_len result st = run_event (Completed (upload_outcome chunk_id raw_len result)) st"
  by (auto simp: upload_complete_def upload_outcome_def split: sum.splits)

lemma download_complete_event:
  "\<exists>e. snd (download_complete chunk_id raw_len raw_offset writer_open result st) = run_event (Completed e) st \<and>
     (case fst (download_complete chunk_id raw_len raw_offset writer_open result st) of
        None \<Rightarrow> e \<noteq> None
      | Some job \<Rightarrow> e = None \<and> dwj_raw_offset job = raw_offset \<and> of_nat (length (dwj_raw_bytes job)) = raw_len \<and>
          result = Inr \<lparr> dcs_chunk_id = chunk_id, dcs_raw_bytes = dwj_raw_bytes job \<rparr>)"
proof (cases result)
  case (Inl e)
  then show ?thesis by (intro exI [of _ "Some e"]) (simp add: download_complete_def)
next
  case (Inr r)
  let ?bad = "Some (InvalidData ''downloaded chunk metadata does not match request'')"
    and ?closed = "Some (Internal ''download writer task closed'')"
  let ?e = "if dcs_chunk_id r \<noteq> chunk_id \<or> of_nat (length (dcs_raw_bytes r)) \<noteq> raw_len then ?bad else if \<not> writer_open then ?closed else None"
  show ?thesis using Inr by (intro exI [of _ ?e]) (auto simp: download_complete_def)
qed

text \<open>
  The receiver gets what was sent. \<open>before\<close> are the events up to the end of scheduling, \<open>after\<close> those that follow;
  no value means that the transfer is still waiting.
\<close>

definition transfer_result :: "transfer_event list \<Rightarrow> transfer_event list \<Rightarrow> (unit fs0_result) option" where
  "transfer_result before after =
     (case finish_scheduling (fold run_event before transfer_new) of
        (wait, st) \<Rightarrow> if wait then ts_sent (fold run_event after st) else Some (Inr ()))"

text \<open>The chunks in flight after some events, none when more have completed than were scheduled.\<close>

fun outstanding :: "nat \<Rightarrow> transfer_event list \<Rightarrow> nat option" where
  "outstanding n [] = Some n"
| "outstanding n (Scheduled # evs) = outstanding (Suc n) evs"
| "outstanding n (Completed _ # evs) = (case n of 0 \<Rightarrow> None | Suc m \<Rightarrow> outstanding m evs)"

fun first_failure :: "transfer_event list \<Rightarrow> fs0_error option" where
  "first_failure [] = None"
| "first_failure (Completed (Some e) # evs) = Some e"
| "first_failure (_ # evs) = first_failure evs"

lemma first_failure_append:
  "first_failure (xs @ ys) = (case first_failure xs of Some e \<Rightarrow> Some e | None \<Rightarrow> first_failure ys)"
  by (induction xs rule: first_failure.induct) auto

lemma outstanding_bounds: "outstanding n evs = Some k \<Longrightarrow> n \<le> k + length evs \<and> k \<le> n + length evs"
  by (induction n evs rule: outstanding.induct) (auto split: nat.splits)

lemma unat_of_nat_small64: "n < 2 ^ 64 \<Longrightarrow> unat (of_nat n :: u64) = n"
  by (simp add: unat_of_nat take_bit_nat_eq_self)

lemma saturating_sub_Suc: "Suc m < 2 ^ 64 \<Longrightarrow> saturating_sub (of_nat (Suc m)) 1 = of_nat m"
  by (rule word_unat_eq_iff [THEN iffD2]) (simp only: unat_saturating_sub unat_of_nat_small64, simp add: unat_of_nat_small64)

definition agrees :: "nat \<Rightarrow> fs0_error option \<Rightarrow> bool \<Rightarrow> transfer_state \<Rightarrow> bool" where
  "agrees n e scheduled st \<longleftrightarrow> ts_remain_chunks st = of_nat n \<and> ts_first_error st = e \<and> ts_scheduling_done st = scheduled \<and>
     ts_done_tx st \<and> ts_sent st = None"

lemma agrees_new: "agrees 0 None False transfer_new"
  by (simp add: agrees_def transfer_new_def)

lemma agrees_scheduled: "agrees n e scheduled st \<Longrightarrow> agrees (Suc n) e scheduled (chunk_scheduled st)"
  by (simp add: agrees_def chunk_scheduled_def)

lemma agrees_completed:
  assumes "agrees (Suc m) e scheduled st" and "Suc m < 2 ^ 64" and "\<not> scheduled \<or> 0 < m"
  shows "agrees m (case e of Some x \<Rightarrow> Some x | None \<Rightarrow> f) scheduled (run_event (Completed f) st)"
proof -
  have "of_nat m \<noteq> (0 :: u64)" if "0 < m"
    using that assms(2) unat_of_nat_small64 [of m] by (metis Suc_lessD less_numeral_extra(3) unat_0)
  moreover have "saturating_sub (1 + of_nat m) 1 = of_nat m" using saturating_sub_Suc [OF assms(2)] by simp
  ultimately show ?thesis
    using assms by (cases f; cases e) (auto simp: agrees_def chunk_completed_def record_error_def Let_def)
qed

lemma agrees_run:
  assumes "agrees n e False st" and "outstanding n evs = Some m" and "n + length evs < 2 ^ 64"
  shows "agrees m (case e of Some x \<Rightarrow> Some x | None \<Rightarrow> first_failure evs) False (fold run_event evs st)"
  using assms
proof (induction evs arbitrary: n e st)
  case Nil
  then show ?case by (auto split: option.splits)
next
  case (Cons ev evs)
  show ?case
  proof (cases ev)
    case Scheduled
    show ?thesis using Cons.IH [OF agrees_scheduled [OF Cons.prems(1)]] Cons.prems(2,3) unfolding Scheduled by (simp split: option.splits)
  next
    case (Completed f)
    with Cons.prems obtain k where k: "n = Suc k" "outstanding k evs = Some m" by (auto split: nat.splits)
    have "agrees k (case e of Some x \<Rightarrow> Some x | None \<Rightarrow> f) False (run_event (Completed f) st)"
      using Cons.prems k by (intro agrees_completed) auto
    from Cons.IH [OF this k(2)] Cons.prems k Completed show ?thesis
      by (cases f) (auto split: option.splits)
  qed
qed

lemma last_completed:
  assumes "agrees 1 e True st"
  shows "ts_sent (run_event (Completed f) st) = Some (case (case e of Some x \<Rightarrow> Some x | None \<Rightarrow> f) of Some x \<Rightarrow> Inl x | None \<Rightarrow> Inr ())"
  using assms saturating_sub_Suc [of 0]
  by (cases f; cases e) (auto simp: agrees_def chunk_completed_def record_error_def send_done_def Let_def)

lemma remaining_completions:
  assumes "agrees (Suc m) e True st" and "outstanding (Suc m) evs = Some 0" and "length evs = Suc m" and "Suc m < 2 ^ 64"
  shows "ts_sent (fold run_event evs st) =
    Some (case (case e of Some x \<Rightarrow> Some x | None \<Rightarrow> first_failure evs) of Some x \<Rightarrow> Inl x | None \<Rightarrow> Inr ())"
  using assms
proof (induction m arbitrary: e st evs)
  case 0
  then obtain f where "evs = [Completed f]" by (cases evs; cases "hd evs") auto
  with 0 last_completed [of e st f] show ?case by (cases f) (auto split: option.splits)
next
  case (Suc m)
  from Suc.prems obtain ev evs' where evs: "evs = ev # evs'" "length evs' = Suc m" by (cases evs) auto
  have "ev \<noteq> Scheduled" using Suc.prems(2) outstanding_bounds [of "Suc (Suc (Suc m))" evs' 0] evs by auto
  then obtain f where f: "ev = Completed f" by (cases ev) auto
  have "agrees (Suc m) (case e of Some x \<Rightarrow> Some x | None \<Rightarrow> f) True (run_event (Completed f) st)"
    using Suc.prems by (intro agrees_completed) auto
  from Suc.IH [OF this] Suc.prems evs f show ?case by (cases f) (auto split: option.splits)
qed

text \<open>
  With chunks in flight at the end of scheduling the transfer waits for all of them and reports the first failure.
  When all chunks have completed by then it succeeds, whatever the completions were.
\<close>

lemma transfer_result_spec:
  assumes before: "outstanding 0 before = Some m" "length before < 2 ^ 64"
    and after: "outstanding m after = Some 0" "length after = m"
  shows "transfer_result before after =
    Some (if m = 0 then Inr () else case first_failure (before @ after) of Some e \<Rightarrow> Inl e | None \<Rightarrow> Inr ())"
proof -
  let ?st = "fold run_event before transfer_new"
  have a: "agrees m (first_failure before) False ?st" using agrees_run [OF agrees_new before(1)] before(2) by simp
  have m: "m < 2 ^ 64" using outstanding_bounds [OF before(1)] before(2) by simp
  show ?thesis
  proof (cases m)
    case 0
    then show ?thesis using a by (simp add: transfer_result_def finish_scheduling_def agrees_def Let_def)
  next
    case (Suc k)
    have "of_nat m \<noteq> (0 :: u64)" using m Suc unat_of_nat_small64 [of m] by auto
    then have fin: "finish_scheduling ?st = (True, ?st\<lparr> ts_scheduling_done := True \<rparr>)"
      using a by (simp add: finish_scheduling_def agrees_def Let_def)
    have "agrees (Suc k) (first_failure before) True (?st\<lparr> ts_scheduling_done := True \<rparr>)" using a Suc by (simp add: agrees_def)
    from remaining_completions [OF this] after m Suc fin show ?thesis
      by (auto simp: transfer_result_def first_failure_append split: option.splits)
  qed
qed

section \<open>Cutting a file\<close>

abbreviation chunk_max :: nat where "chunk_max \<equiv> 2 ^ 20"
abbreviation bundle_max :: nat where "bundle_max \<equiv> 2 ^ 27"

lemma unat_sizes: "unat VOLUME_RAW_CHUNK_SIZE = chunk_max" "unat VOLUME_BUNDLE_RAW_SIZE = bundle_max"
  by (simp_all add: VOLUME_RAW_CHUNK_SIZE_def VOLUME_BUNDLE_RAW_SIZE_def)

text \<open>The references and the jobs of a list of pieces.\<close>

fun piece_refs :: "'h blake3 \<Rightarrow> nat \<Rightarrow> u8 list list \<Rightarrow> bundle_chunk_ref list" where
  "piece_refs B k [] = []"
| "piece_refs B k (x # xs) = \<lparr> bcr_chunk_index = of_nat k, bcr_chunk_id = blake3_hash B x \<rparr> # piece_refs B (Suc k) xs"

fun piece_jobs :: "upload_ctx \<Rightarrow> 'h blake3 \<Rightarrow> nat \<Rightarrow> u8 list list \<Rightarrow> upload_job list" where
  "piece_jobs X B off [] = []"
| "piece_jobs X B off (x # xs) = upload_job_of X B (of_nat off) x # piece_jobs X B (off + length x) xs"

definition piece_ok :: "u8 list \<Rightarrow> bool" where
  "piece_ok x \<longleftrightarrow> x \<noteq> [] \<and> length x \<le> chunk_max"

definition full_reads :: "upload_ctx \<Rightarrow> bool" where
  "full_reads X \<longleftrightarrow> (\<forall>k. \<exists>n. ux_read X k = Inr n \<and> chunk_max \<le> n + 1)"

lemma length_piece_refs [simp]: "length (piece_refs B k xs) = length xs"
  by (induction xs arbitrary: k) auto

lemma piece_jobs_append: "piece_jobs X B off (xs @ ys) = piece_jobs X B off xs @ piece_jobs X B (off + length (concat xs)) ys"
  by (induction xs arbitrary: off) (auto simp: add.assoc)

lemma reader_read_Inr:
  assumes "reader_read X n p = (Inr raw, p')"
  shows "up_rest p = raw @ up_rest p'" and "up_jobs p' = up_jobs p" and "length raw \<le> n"
    and "full_reads X \<Longrightarrow> n \<le> chunk_max \<Longrightarrow> raw = take n (up_rest p)"
    and "raw = [] \<Longrightarrow> 0 < n \<Longrightarrow> up_rest p = []"
proof -
  from assms obtain k where k: "ux_read X (up_reads p) = Inr k" "raw = take (min (k + 1) n) (up_rest p)"
    "p' = p\<lparr> up_reads := up_reads p + 1, up_rest := drop (min (k + 1) n) (up_rest p) \<rparr>"
    by (auto simp: reader_read_def Let_def split: sum.splits)
  show "up_rest p = raw @ up_rest p'" "up_jobs p' = up_jobs p" "length raw \<le> n" "raw = [] \<Longrightarrow> 0 < n \<Longrightarrow> up_rest p = []"
    using k by auto
  assume "full_reads X" "n \<le> chunk_max"
  then obtain j where "ux_read X (up_reads p) = Inr j" "chunk_max \<le> j + 1" unfolding full_reads_def by blast
  with k(1) \<open>n \<le> chunk_max\<close> have "min (k + 1) n = n" by simp
  with k(2) show "raw = take n (up_rest p)" by simp
qed

lemma unat_read_limit: "unat raw_len \<le> bundle_max \<Longrightarrow> read_limit raw_len = min chunk_max (bundle_max - unat raw_len)"
  unfolding read_limit_def by (subst unat_sub) (auto simp: unat_sizes word_le_nat_alt)

text \<open>The pieces of one bundle: consecutive, each a chunk, the bundle full unless the file has ended.\<close>

definition cut_bundle :: "upload_ctx \<Rightarrow> 'h blake3 \<Rightarrow> nat \<Rightarrow> nat \<Rightarrow> bundle_chunk_ref list \<Rightarrow> upload_progress \<Rightarrow> u64 \<Rightarrow> bundle_chunk_ref list \<Rightarrow> upload_progress \<Rightarrow> u8 list list \<Rightarrow> bool" where
  "cut_bundle X B size0 raw0 chunks p n chunks' p' xs \<longleftrightarrow>
     up_rest p = concat xs @ up_rest p' \<and> list_all piece_ok xs \<and> chunks' = chunks @ piece_refs B (length chunks) xs \<and>
     unat n = raw0 + length (concat xs) \<and> unat n \<le> bundle_max \<and> up_jobs p' = up_jobs p @ piece_jobs X B (size0 + raw0) xs \<and>
     (up_rest p' = [] \<or> unat n = bundle_max) \<and>
     (full_reads X \<and> chunk_max dvd raw0 \<longrightarrow> (\<forall>i<length xs. length (xs ! i) = chunk_max \<or> Suc i = length xs \<and> up_rest p' = []))"

lemma upload_chunks_cut:
  assumes "upload_chunks X B new_size raw_len chunks p = (Inr (n, chunks'), p')" and "unat raw_len \<le> bundle_max"
  shows "\<exists>xs. cut_bundle X B (unat new_size) (unat raw_len) chunks p n chunks' p' xs"
  using assms
proof (induction "length (up_rest p)" arbitrary: raw_len chunks p rule: less_induct)
  case less
  from less.prems(1) show ?case
  proof (cases rule: upload_chunks_InrE)
    case full
    then show ?thesis using less.prems(2) by (intro exI [of _ "[]"]) (auto simp: cut_bundle_def word_le_nat_alt unat_sizes)
  next
    case eof
    have "0 < read_limit raw_len" using eof(1) less.prems(2) by (simp add: unat_read_limit word_less_nat_alt unat_sizes)
    with reader_read_Inr [OF eof(2)] eof less.prems(2) show ?thesis by (intro exI [of _ "[]"]) (auto simp: cut_bundle_def)
  next
    case (chunk raw p1 off)
    note r = reader_read_Inr [OF chunk(2)]
    let ?n = "read_limit raw_len" and ?p2 = "p1\<lparr> up_jobs := up_jobs p1 @ [upload_job_of X B off raw] \<rparr>"
    have lim: "?n = min chunk_max (bundle_max - unat raw_len)" using less.prems(2) by (rule unat_read_limit)
    have len: "length raw \<le> ?n" by (rule r(3))
    then have small: "unat raw_len + length raw \<le> bundle_max" using lim less.prems(2) by (simp, linarith)
    have u: "unat (raw_len + of_nat (length raw)) = unat raw_len + length raw"
      using small by (subst unat_add_no_overflow) (simp_all add: unat_of_nat_small64)
    have off: "unat off = unat new_size + unat raw_len" using chunk(4) by (rule checked_add_SomeD)
    have shorter: "length (up_rest ?p2) < length (up_rest p)" using reader_read_shorter [OF chunk(2,3)] by simp
    from less.hyps [OF shorter chunk(5)] u small obtain xs where
      xs: "cut_bundle X B (unat new_size) (unat raw_len + length raw)
        (chunks @ [\<lparr> bcr_chunk_index = of_nat (length chunks), bcr_chunk_id = blake3_hash B raw \<rparr>]) ?p2 n chunks' p' xs" by auto
    have job: "upload_job_of X B off raw = upload_job_of X B (of_nat (unat new_size + unat raw_len)) raw" using off by (simp flip: off)
    have fullest: "(\<forall>i<length (raw # xs). length ((raw # xs) ! i) = chunk_max \<or> Suc i = length (raw # xs) \<and> up_rest p' = [])"
      if full: "full_reads X" and dvd: "chunk_max dvd unat raw_len"
    proof -
      have lt: "unat raw_len < bundle_max" using chunk(1) by (simp add: word_less_nat_alt unat_sizes)
      have "chunk_max dvd bundle_max" by (simp add: le_imp_power_dvd)
      with dvd lt have "chunk_max \<le> bundle_max - unat raw_len" by (metis dvd_diff_nat dvd_imp_le less_imp_le zero_less_diff)
      with lim have n: "?n = chunk_max" by simp
      have raw: "raw = take chunk_max (up_rest p)" using r(4) [OF full] n by simp
      show ?thesis
      proof (cases "length raw = chunk_max")
        case True
        then have "chunk_max dvd unat raw_len + length raw" using dvd by simp
        with xs full have "\<forall>i<length xs. length (xs ! i) = chunk_max \<or> Suc i = length xs \<and> up_rest p' = []" by (simp add: cut_bundle_def)
        with True show ?thesis by (auto simp: nth_Cons split: nat.splits)
      next
        case False
        then have "length (up_rest p) < chunk_max" using raw by (simp add: min_def split: if_splits)
        then have "up_rest p1 = []" using r(1) raw by (metis append_self_conv less_imp_le take_all)
        then have "concat xs = []" "up_rest p' = []" using xs by (simp_all add: cut_bundle_def)
        moreover have "list_all piece_ok xs" using xs by (simp add: cut_bundle_def)
        ultimately have "xs = []" by (cases xs) (auto simp: piece_ok_def)
        with \<open>up_rest p' = []\<close> show ?thesis by simp
      qed
    qed
    have "piece_ok raw" using chunk(3) len lim by (simp add: piece_ok_def)
    with xs r(1,2) job fullest show ?thesis
      by (intro exI [of _ "raw # xs"]) (auto simp: cut_bundle_def add.assoc)
  qed
qed

text \<open>The whole file: groups of pieces, one for each bundle.\<close>

definition group_len :: "u8 list list \<Rightarrow> nat" where
  "group_len g = length (concat g)"

definition bundle_of :: "'h blake3 \<Rightarrow> u8 list list \<Rightarrow> upload_bundle" where
  "bundle_of B g = \<lparr> ub_bundle_id = bundle_hash_from_chunks B (piece_refs B 0 g), ub_raw_len = of_nat (group_len g), ub_chunks = piece_refs B 0 g \<rparr>"

fun groups_ok :: "u8 list list list \<Rightarrow> bool" where
  "groups_ok [] \<longleftrightarrow> True"
| "groups_ok (g # gs) \<longleftrightarrow> g \<noteq> [] \<and> list_all piece_ok g \<and> group_len g \<le> bundle_max \<and> (gs \<noteq> [] \<longrightarrow> group_len g = bundle_max) \<and> groups_ok gs"

fun full_groups :: "u8 list list list \<Rightarrow> bool" where
  "full_groups [] \<longleftrightarrow> True"
| "full_groups (g # gs) \<longleftrightarrow> (\<forall>i<length g. length (g ! i) = chunk_max \<or> Suc i = length g \<and> gs = []) \<and> full_groups gs"

definition cut_file :: "upload_ctx \<Rightarrow> 'h blake3 \<Rightarrow> nat \<Rightarrow> upload_bundle list \<Rightarrow> upload_progress \<Rightarrow> u64 \<Rightarrow> upload_bundle list \<Rightarrow> upload_progress \<Rightarrow> u8 list list list \<Rightarrow> bool" where
  "cut_file X B size0 bundles p n bundles' p' gs \<longleftrightarrow>
     up_rest p = concat (concat gs) \<and> up_rest p' = [] \<and> groups_ok gs \<and> (full_reads X \<longrightarrow> full_groups gs) \<and>
     bundles' = bundles @ map (bundle_of B) gs \<and> unat n = size0 + length (up_rest p) \<and>
     up_jobs p' = up_jobs p @ piece_jobs X B size0 (concat gs)"

lemma concat_ok_Nil: "groups_ok gs \<Longrightarrow> concat (concat gs) = [] \<Longrightarrow> gs = []"
  by (cases gs) (auto simp: piece_ok_def list_all_iff neq_Nil_conv)

lemma upload_bundles_cut:
  assumes "upload_bundles X B new_size bundles p = (Inr (n, bundles'), p')"
  shows "\<exists>gs. cut_file X B (unat new_size) bundles p n bundles' p' gs"
  using assms
proof (induction "length (up_rest p)" arbitrary: new_size bundles p rule: less_induct)
  case less
  note eq = less.prems [unfolded upload_bundles.simps [of X B new_size bundles p]]
  obtain raw_len chunks p1 where c: "upload_chunks X B new_size 0 [] p = (Inr (raw_len, chunks), p1)"
    using eq by (cases "upload_chunks X B new_size 0 [] p"; cases "fst (upload_chunks X B new_size 0 [] p)") auto
  from upload_chunks_cut [OF c] obtain xs where "cut_bundle X B (unat new_size) 0 [] p raw_len chunks p1 xs" by auto
  then have xs: "up_rest p = concat xs @ up_rest p1" "list_all piece_ok xs" "chunks = piece_refs B 0 xs" "unat raw_len = group_len xs"
    "group_len xs \<le> bundle_max" "up_jobs p1 = up_jobs p @ piece_jobs X B (unat new_size) xs" "up_rest p1 = [] \<or> group_len xs = bundle_max"
    "full_reads X \<Longrightarrow> \<forall>i<length xs. length (xs ! i) = chunk_max \<or> Suc i = length xs \<and> up_rest p1 = []"
    by (auto simp: cut_bundle_def group_len_def)
  show ?case
  proof (cases "xs = []")
    case True
    then have "chunks = []" "up_rest p1 = []" using xs(3,7) by (auto simp: group_len_def)
    with True eq c xs show ?thesis by (intro exI [of _ "[]"]) (simp add: cut_file_def)
  next
    case False
    then have ne: "chunks \<noteq> []" using xs(3) by (cases xs) auto
    obtain m where m: "checked_add new_size raw_len = Some m" using eq c ne by (cases "checked_add new_size raw_len") auto
    have rl: "raw_len = of_nat (group_len xs)" by (simp flip: xs(4))
    have b: "\<lparr> ub_bundle_id = bundle_hash_from_chunks B chunks, ub_raw_len = raw_len, ub_chunks = chunks \<rparr> = bundle_of B xs"
      by (simp add: bundle_of_def xs(3) rl)
    have run: "upload_bundles X B m (bundles @ [bundle_of B xs]) p1 = (Inr (n, bundles'), p')" using eq c ne m by (simp add: b)
    have shorter: "length (up_rest p1) < length (up_rest p)" using xs(1,2) False by (cases xs) (auto simp: piece_ok_def)
    from less.hyps [OF shorter run] obtain gs where gs: "cut_file X B (unat m) (bundles @ [bundle_of B xs]) p1 n bundles' p' gs" by blast
    have um: "unat m = unat new_size + group_len xs" using checked_add_SomeD [OF m] xs(4) by simp
    have gs_Nil: "gs = [] \<longleftrightarrow> up_rest p1 = []" using gs concat_ok_Nil by (auto simp: cut_file_def)
    have "groups_ok (xs # gs)" using gs xs False gs_Nil by (auto simp: cut_file_def)
    moreover have "full_reads X \<longrightarrow> full_groups (xs # gs)" using gs xs(8) gs_Nil by (auto simp: cut_file_def)
    moreover have "up_jobs p' = up_jobs p @ piece_jobs X B (unat new_size) (concat (xs # gs))"
      using gs xs(6) um by (simp add: cut_file_def piece_jobs_append group_len_def)
    ultimately show ?thesis
      using gs xs(1) um by (intro exI [of _ "xs # gs"]) (auto simp: cut_file_def group_len_def)
  qed
qed

text \<open>Without errors of the reader and of the scheduler the loops succeed.\<close>

definition no_errors :: "upload_ctx \<Rightarrow> bool" where
  "no_errors X \<longleftrightarrow> (\<forall>k. \<exists>n. ux_read X k = Inr n) \<and> (\<forall>k. ux_enqueue X k = None)"

lemma upload_chunks_succeeds:
  assumes "no_errors X" and "unat new_size + unat raw_len + length (up_rest p) < 2 ^ 64" and "unat raw_len \<le> bundle_max"
  shows "\<exists>n chunks' p'. upload_chunks X B new_size raw_len chunks p = (Inr (n, chunks'), p')"
  using assms(2,3)
proof (induction "length (up_rest p)" arbitrary: raw_len chunks p rule: less_induct)
  case less
  show ?case
  proof (cases "raw_len < VOLUME_BUNDLE_RAW_SIZE")
    case False
    then show ?thesis by (simp add: upload_chunks.simps [of X B new_size raw_len chunks p])
  next
    case True
    have "\<exists>raw p1. reader_read X (read_limit raw_len) p = (Inr raw, p1)"
      using assms(1) by (auto simp: no_errors_def reader_read_def Let_def split: sum.splits)
        (metis sum.distinct(1))
    then obtain raw p1 where r: "reader_read X (read_limit raw_len) p = (Inr raw, p1)" by blast
    note R = reader_read_Inr [OF r]
    let ?off = "new_size + raw_len"
    have off: "checked_add new_size raw_len = Some ?off" using less.prems by (simp add: checked_add_def)
    let ?p2 = "p1\<lparr> up_jobs := up_jobs p1 @ [upload_job_of X B ?off raw] \<rparr>"
    have e: "enqueue_job X (upload_job_of X B ?off raw) p1 = (Inr (), ?p2)" using assms(1) by (simp add: enqueue_job_def no_errors_def)
    have small: "unat raw_len + length raw \<le> bundle_max"
      using R(3) less.prems(2) unat_read_limit [OF less.prems(2)] by (simp, linarith)
    have u: "unat (raw_len + of_nat (length raw)) = unat raw_len + length raw"
      using small by (subst unat_add_no_overflow) (simp_all add: unat_of_nat_small64)
    show ?thesis
    proof (cases "raw = []")
      case True
      then show ?thesis using r \<open>raw_len < _\<close> by (simp add: upload_chunks.simps [of X B new_size raw_len chunks p])
    next
      case False
      have "length (up_rest ?p2) < length (up_rest p)" using reader_read_shorter [OF r False] by simp
      from less.hyps [OF this, of "raw_len + of_nat (length raw)"
          "chunks @ [\<lparr> bcr_chunk_index = of_nat (length chunks), bcr_chunk_id = blake3_hash B raw \<rparr>]"] show ?thesis
        using r \<open>raw_len < _\<close> False off e u small R(1) less.prems(1)
        by (simp add: upload_chunks.simps [of X B new_size raw_len chunks p])
    qed
  qed
qed

lemma upload_bundles_succeeds:
  assumes "no_errors X" and "unat new_size + length (up_rest p) < 2 ^ 64"
  shows "\<exists>n bundles' p'. upload_bundles X B new_size bundles p = (Inr (n, bundles'), p')"
  using assms(2)
proof (induction "length (up_rest p)" arbitrary: new_size bundles p rule: less_induct)
  case less
  obtain raw_len chunks p1 where c: "upload_chunks X B new_size 0 [] p = (Inr (raw_len, chunks), p1)"
    using upload_chunks_succeeds [OF assms(1), of new_size 0 p B "[]"] less.prems by auto
  from upload_chunks_cut [OF c] obtain xs where xs: "cut_bundle X B (unat new_size) 0 [] p raw_len chunks p1 xs" by auto
  show ?case
  proof (cases "chunks = []")
    case True
    with c show ?thesis by (simp add: upload_bundles.simps [of X B new_size bundles p])
  next
    case False
    have u: "unat new_size + unat raw_len + length (up_rest p1) = unat new_size + length (up_rest p)"
      using xs by (simp add: cut_bundle_def)
    then have m: "checked_add new_size raw_len = Some (new_size + raw_len)" using less.prems by (simp add: checked_add_def)
    have "length (up_rest p1) < length (up_rest p)" using upload_chunks_shorter [OF c] False by (cases chunks) auto
    from less.hyps [OF this, of "new_size + raw_len"] u less.prems c False m show ?thesis
      by (simp add: upload_bundles.simps [of X B new_size bundles p] unat_add_no_overflow)
  qed
qed

text \<open>Each job finds its piece in the file again.\<close>

lemma piece_jobs_slices:
  assumes "job \<in> set (piece_jobs X B off xs)" and "contents = pre @ concat xs @ post" and "off = length pre"
    and "length contents < 2 ^ 64" and "list_all piece_ok xs"
  shows "\<exists>x. x \<in> set xs \<and> ucj_chunk_id job = blake3_hash B x \<and> read_chunk_from_file (Inr contents) (ucj_source_offset job) (ucj_raw_len job) = Inr x"
  using assms
proof (induction xs arbitrary: off pre)
  case (Cons x xs)
  show ?case
  proof (cases "job = upload_job_of X B (of_nat off) x")
    case True
    have len: "length x \<le> chunk_max" "unat (of_nat (length x) :: u64) = length x" "unat (of_nat off :: u64) = off"
      using Cons.prems by (auto simp: piece_ok_def intro!: unat_of_nat_small64)
    then have "\<not> VOLUME_RAW_CHUNK_SIZE < of_nat (length x)" by (simp add: word_less_nat_alt unat_sizes)
    with True len Cons.prems(2,3) show ?thesis
      by (intro exI [of _ x]) (simp add: upload_job_of_def read_chunk_from_file_def)
  next
    case False
    with Cons.prems have "job \<in> set (piece_jobs X B (off + length x) xs)" by simp
    from Cons.IH [OF this, of "pre @ x"] Cons.prems show ?thesis by auto
  qed
qed simp

section \<open>Putting a file together\<close>

fun piece_downloads :: "'h blake3 \<Rightarrow> replica_location \<Rightarrow> nat \<Rightarrow> u8 list list \<Rightarrow> download_job list" where
  "piece_downloads B replica off [] = []"
| "piece_downloads B replica off (x # xs) =
     \<lparr> dj_storage_id = rl_storage_id replica, dj_volume_id = rl_volume_id replica, dj_chunk_id = blake3_hash B x,
       dj_raw_offset = of_nat off, dj_raw_len = of_nat (length x) \<rparr> # piece_downloads B replica (off + length x) xs"

lemma of_nat_mult_chunk: "of_nat k * VOLUME_RAW_CHUNK_SIZE = of_nat (k * chunk_max)"
  by (simp add: VOLUME_RAW_CHUNK_SIZE_def)

lemma chunk_region_eq:
  assumes "k * chunk_max + m \<le> raw" and "0 < m" and "m = min chunk_max (raw - k * chunk_max)"
    and "bo + raw \<le> plan" and "plan < 2 ^ 64"
  shows "chunk_region (of_nat plan) (of_nat bo) (of_nat raw) (of_nat k) = Inr (of_nat (bo + k * chunk_max), of_nat m)"
proof -
  let ?o = "k * chunk_max"
  have small: "?o < 2 ^ 64" "raw < 2 ^ 64" "bo + ?o + m < 2 ^ 64" "k < 2 ^ 64" "bo + ?o < 2 ^ 64" "m < 2 ^ 64" "bo < 2 ^ 64"
    using assms by (auto intro: le_less_trans [of _ plan])
  have mul: "checked_mul (of_nat k) VOLUME_RAW_CHUNK_SIZE = Some (of_nat ?o)"
    using small unfolding checked_mul_def unat_of_nat_small64 [OF small(4)] unat_sizes by (simp add: of_nat_mult_chunk)
  have lt: "\<not> (of_nat raw :: u64) \<le> of_nat ?o"
    using assms(1,2) small by (simp add: word_le_nat_alt unat_of_nat_small64 del: of_nat_mult)
  have sub: "unat ((of_nat raw :: u64) - of_nat ?o) = raw - ?o"
    using lt small by (subst unat_sub) (simp_all add: unat_of_nat_small64 word_le_nat_alt del: of_nat_mult)
  have min: "min VOLUME_RAW_CHUNK_SIZE ((of_nat raw :: u64) - of_nat ?o) = of_nat m"
  proof (rule word_unat_eq_iff [THEN iffD2])
    have "unat (min VOLUME_RAW_CHUNK_SIZE ((of_nat raw :: u64) - of_nat ?o)) = min chunk_max (raw - ?o)"
      unfolding min_def word_le_nat_alt using sub unat_sizes by (auto simp del: of_nat_mult)
    then show "unat (min VOLUME_RAW_CHUNK_SIZE ((of_nat raw :: u64) - of_nat ?o)) = unat (of_nat m :: u64)"
      using assms(3) small by (simp add: unat_of_nat_small64)
  qed
  have add1: "checked_add (of_nat bo) (of_nat ?o) = Some (of_nat (bo + ?o))"
    using small by (simp add: checked_add_def unat_of_nat_small64 del: of_nat_mult)
  have "checked_add (of_nat x) (of_nat y) = Some (of_nat (x + y))" if "x + y < 2 ^ 64" for x y
    using that by (simp add: checked_add_def unat_of_nat_small64)
  then have add2: "checked_add (of_nat (bo + ?o)) (of_nat m) = Some (of_nat (bo + ?o + m))" using small(3) by blast
  have "\<not> (of_nat plan :: u64) < of_nat (bo + ?o + m)"
    using assms small by (simp add: word_less_nat_alt unat_of_nat_small64 del: of_nat_mult of_nat_add)
  with mul lt min add1 add2 show ?thesis by (simp add: chunk_region_def Let_def del: of_nat_mult of_nat_add)
qed

lemma chunk_jobs_pieces:
  assumes "\<forall>i<length xs. length (xs ! i) = chunk_max \<or> Suc i = length xs" and "list_all piece_ok xs"
    and "raw = k * chunk_max + length (concat xs)" and "bo + raw \<le> plan" and "plan < 2 ^ 64" and "\<And>n. enq n = None"
  shows "chunk_jobs enq (of_nat plan) (of_nat bo) (of_nat raw) replica (piece_refs B k xs) jobs =
    Inr (jobs @ piece_downloads B replica (bo + k * chunk_max) xs)"
  using assms(1-3)
proof (induction xs arbitrary: k jobs)
  case (Cons x xs)
  let ?m = "length x"
  have pos: "0 < ?m" "?m \<le> chunk_max" using Cons.prems(2) by (auto simp: piece_ok_def)
  have m: "?m = min chunk_max (raw - k * chunk_max)" "k * chunk_max + ?m \<le> raw"
    using Cons.prems(1,3) pos by (cases xs; force)+
  note region = chunk_region_eq [OF m(2) pos(1) m(1) assms(4,5)]
  show ?case
  proof (cases xs)
    case Nil
    then show ?thesis using region assms(6) by simp
  next
    case (Cons y ys)
    then have full: "?m = chunk_max" using Cons.prems(1) by force
    have "\<forall>i<length xs. length (xs ! i) = chunk_max \<or> Suc i = length xs" using \<open>\<forall>i<length (x # xs). _ i\<close> by force
    from Cons.IH [OF this, of "Suc k"] show ?thesis using region assms(6) Cons.prems full by (simp add: algebra_simps)
  qed
qed simp

text \<open>A write job that carries a slice of the contents moves the file towards them.\<close>

definition slice_of :: "u8 list \<Rightarrow> download_write_job \<Rightarrow> bool" where
  "slice_of contents w \<longleftrightarrow> unat (dwj_raw_offset w) + length (dwj_raw_bytes w) \<le> length contents \<and>
     dwj_raw_bytes w = take (length (dwj_raw_bytes w)) (drop (unat (dwj_raw_offset w)) contents)"

definition covers :: "download_write_job \<Rightarrow> nat \<Rightarrow> bool" where
  "covers w i \<longleftrightarrow> unat (dwj_raw_offset w) \<le> i \<and> i < unat (dwj_raw_offset w) + length (dwj_raw_bytes w)"

lemma write_job_slice:
  assumes "slice_of contents w" and "length f = length contents"
  shows "length (write_job w f) = length contents" and "i < length contents \<Longrightarrow> write_job w f ! i = (if covers w i then contents ! i else f ! i)"
proof -
  let ?o = "unat (dwj_raw_offset w)" and ?b = "dwj_raw_bytes w"
  have w: "write_job w f = take ?o f @ ?b @ drop (?o + length ?b) f"
    using assms by (simp add: write_job_def Let_def slice_of_def)
  show "length (write_job w f) = length contents" using assms by (simp add: w slice_of_def)
  have b: "?b ! j = contents ! (?o + j)" if "j < length ?b" for j
  proof -
    have eq: "?b = take (length ?b) (drop ?o contents)" and le: "?o + length ?b \<le> length contents"
      using assms(1) unfolding slice_of_def by blast+
    have "?b ! j = take (length ?b) (drop ?o contents) ! j" using eq by (rule arg_cong [where f = "\<lambda>l. l ! j"])
    then show ?thesis using that le by simp
  qed
  assume "i < length contents"
  moreover have "?o + length ?b \<le> length contents" using assms(1) unfolding slice_of_def by blast
  ultimately show "write_job w f ! i = (if covers w i then contents ! i else f ! i)"
    using assms(2) b by (auto simp: w covers_def nth_append)
qed

lemma write_slices:
  assumes "\<forall>w\<in>set ws. slice_of contents w" and "length f = length contents"
  shows "length (fold write_job ws f) = length contents \<and>
    (\<forall>i<length contents. fold write_job ws f ! i = (if \<exists>w\<in>set ws. covers w i then contents ! i else f ! i))"
  using assms
proof (induction ws arbitrary: f)
  case (Cons w ws)
  have "slice_of contents w" using Cons.prems(1) by simp
  note step = write_job_slice [OF this Cons.prems(2)]
  show ?case using Cons.IH [of "write_job w f"] Cons.prems(1) step by auto
qed simp

lemma run_writer_ok: "(\<And>k. fails k = None) \<Longrightarrow> run_writer fails k ws f = (Inr (), fold write_job ws f)"
  by (induction ws arbitrary: k f) auto

text \<open>The chunk of a job has arrived: its hash and its length are right, and it is one of the byte strings \<open>K\<close> that the
  storages hand out.\<close>

definition fetched :: "'h blake3 \<Rightarrow> u8 list set \<Rightarrow> download_job \<Rightarrow> download_write_job \<Rightarrow> bool" where
  "fetched B K job w \<longleftrightarrow> dwj_raw_bytes w \<in> K \<and> dwj_raw_offset w = dj_raw_offset job \<and> of_nat (length (dwj_raw_bytes w)) = dj_raw_len job \<and>
     length (dwj_raw_bytes w) \<le> chunk_max \<and> blake3_hash B (dwj_raw_bytes w) = dj_chunk_id job"

text \<open>No other of the byte strings that the storages hand out has the hash of this one.\<close>

definition hash_tells :: "'h blake3 \<Rightarrow> u8 list set \<Rightarrow> u8 list \<Rightarrow> bool" where
  "hash_tells B K x \<longleftrightarrow> (\<forall>y\<in>K. blake3_hash B y = blake3_hash B x \<longrightarrow> y = x)"

lemma piece_downloads_slices:
  assumes "job \<in> set (piece_downloads B replica off xs)" and "contents = pre @ concat xs @ post" and "off = length pre"
    and "length contents < 2 ^ 64" and "list_all piece_ok xs" and "\<forall>x\<in>set xs. hash_tells B K x" and "fetched B K job w"
  shows "slice_of contents w"
  using assms
proof (induction xs arbitrary: off pre)
  case (Cons x xs)
  show ?case
  proof (cases "job \<in> set (piece_downloads B replica (off + length x) xs)")
    case False
    with Cons.prems have job: "job = \<lparr> dj_storage_id = rl_storage_id replica, dj_volume_id = rl_volume_id replica, dj_chunk_id = blake3_hash B x,
       dj_raw_offset = of_nat off, dj_raw_len = of_nat (length x) \<rparr>" by simp
    have u: "unat (of_nat off :: u64) = off" "unat (of_nat (length x) :: u64) = length x"
      using Cons.prems by (auto intro!: unat_of_nat_small64)
    have "unat (of_nat (length (dwj_raw_bytes w)) :: u64) = length (dwj_raw_bytes w)"
      using Cons.prems(7) by (intro unat_of_nat_small64) (auto simp: fetched_def)
    with Cons.prems(7) u have "length (dwj_raw_bytes w) = length x" by (metis download_job.select_convs(5) fetched_def job)
    with Cons.prems(6,7) have "dwj_raw_bytes w = x" by (auto simp: fetched_def job hash_tells_def)
    with Cons.prems(2,3,7) u show ?thesis by (simp add: slice_of_def fetched_def job)
  next
    case True
    from Cons.IH [OF True, of "pre @ x"] Cons.prems show ?thesis by auto
  qed
qed simp

lemma piece_downloads_cover:
  assumes "off \<le> i" and "i < off + length (concat xs)" and "off + length (concat xs) < 2 ^ 64" and "list_all piece_ok xs"
  shows "\<exists>job\<in>set (piece_downloads B replica off xs). \<forall>w. fetched B K job w \<longrightarrow> covers w i"
  using assms
proof (induction xs arbitrary: off)
  case (Cons x xs)
  show ?case
  proof (cases "i < off + length x")
    case True
    let ?job = "\<lparr> dj_storage_id = rl_storage_id replica, dj_volume_id = rl_volume_id replica, dj_chunk_id = blake3_hash B x,
       dj_raw_offset = of_nat off, dj_raw_len = of_nat (length x) \<rparr>"
    have u: "unat (of_nat off :: u64) = off" "unat (of_nat (length x) :: u64) = length x"
      using Cons.prems by (auto intro!: unat_of_nat_small64)
    have "covers w i" if w: "fetched B K ?job w" for w
    proof -
      have "unat (of_nat (length (dwj_raw_bytes w)) :: u64) = length (dwj_raw_bytes w)"
        using w by (intro unat_of_nat_small64) (auto simp: fetched_def)
      then have "length (dwj_raw_bytes w) = length x" using w u by (simp add: fetched_def)
      then show ?thesis using w u True Cons.prems(1) by (simp add: covers_def fetched_def)
    qed
    then show ?thesis by auto
  next
    case False
    from Cons.IH [of "off + length x"] False Cons.prems show ?thesis by auto
  qed
qed simp

lemma piece_refs_sorted: "k + length xs \<le> 2 ^ 63 \<Longrightarrow> sorted (map bcr_chunk_index (piece_refs B k xs)) \<and> (\<forall>r\<in>set (piece_refs B k xs). of_nat k \<le> bcr_chunk_index r)"
proof (induction xs arbitrary: k)
  case (Cons x xs)
  from Cons.IH [of "Suc k"] Cons.prems have IH: "sorted (map bcr_chunk_index (piece_refs B (Suc k) xs))"
    "\<forall>r\<in>set (piece_refs B (Suc k) xs). of_nat (Suc k) \<le> bcr_chunk_index r" by simp_all
  have "(of_nat k :: u64) \<le> of_nat (Suc k)"
    using Cons.prems unat_of_nat_small64 [of k] unat_of_nat_small64 [of "Suc k"] by (simp only: word_le_nat_alt) simp
  with IH show ?case by (auto intro: order_trans)
qed simp

text \<open>The plan of a file that was uploaded in the given groups, and a storage that lists the chunks of a bundle.\<close>

fun plan_fits :: "nat \<Rightarrow> file_bundle_ref list \<Rightarrow> upload_bundle list \<Rightarrow> bool" where
  "plan_fits k [] [] \<longleftrightarrow> True"
| "plan_fits k (b # bs) (u # us) \<longleftrightarrow>
     fbr_bundle_index b = of_nat k \<and> fbr_raw_len b = ub_raw_len u \<and> fbr_bundle_id b = ub_bundle_id u \<and> plan_fits (Suc k) bs us"
| "plan_fits k _ _ \<longleftrightarrow> False"

text \<open>
  What the storages do is stated relative to a property \<open>I\<close> of the client and the world behind it that the calls
  keep, such as that the sessions are those of the storages that central has announced.
\<close>

definition lists_bundle :: "('e, 'w) client_env \<Rightarrow> ('w fs0_client \<Rightarrow> bool) \<Rightarrow> storage_peer_info list \<Rightarrow> file_bundle_ref \<Rightarrow> upload_bundle \<Rightarrow> bool" where
  "lists_bundle E I storages b u \<longleftrightarrow>
     (\<exists>replica storage. find_replica b storages = Some (replica, storage) \<and>
        (\<forall>s. I s \<longrightarrow> (\<exists>s'. in_session (spi_storage_id storage) (session_list_bundle_chunks E (rl_volume_id replica) (fbr_bundle_id b)) s =
           (Inr (ub_chunks u), s') \<and> I s')))"

text \<open>The storage that the client picks for a bundle lists its chunks and hands out each of them.\<close>

definition serves_bundle ::
  "('e, 'w) client_env \<Rightarrow> 'h blake3 \<Rightarrow> zstd \<Rightarrow> u8 list set \<Rightarrow> ('w fs0_client \<Rightarrow> bool) \<Rightarrow> storage_peer_info list \<Rightarrow> file_bundle_ref \<Rightarrow> upload_bundle \<Rightarrow> bool" where
  "serves_bundle E B Z K I storages b u \<longleftrightarrow> lists_bundle E I storages b u \<and>
     (\<forall>replica storage. find_replica b storages = Some (replica, storage) \<longrightarrow>
        (\<forall>ref\<in>set (ub_chunks u). \<forall>s. I s \<longrightarrow> (\<exists>r s'. in_session (rl_storage_id replica)
           (download_chunk_job E B Z \<lparr> dcr_volume_id = rl_volume_id replica, dcr_chunk_id = bcr_chunk_id ref \<rparr>) s = (Inr r, s') \<and> I s' \<and> dcs_raw_bytes r \<in> K)))"

text \<open>A job for a piece of the file that the storage hands out.\<close>

definition job_good :: "('e, 'w) client_env \<Rightarrow> 'h blake3 \<Rightarrow> zstd \<Rightarrow> u8 list set \<Rightarrow> ('w fs0_client \<Rightarrow> bool) \<Rightarrow> download_job \<Rightarrow> bool" where
  "job_good E B Z K I job \<longleftrightarrow>
     (\<exists>x. dj_chunk_id job = blake3_hash B x \<and> dj_raw_len job = of_nat (length x) \<and> piece_ok x \<and> hash_tells B K x) \<and>
     (\<forall>s. I s \<longrightarrow> (\<exists>r s'. run_download_job E B Z job s = (Inr r, s') \<and> I s' \<and> dcs_raw_bytes r \<in> K))"

lemma piece_downloads_length: "length (piece_downloads B replica off xs) = length xs"
  by (induction xs arbitrary: off) auto

lemma piece_refs_ids: "bcr_chunk_id ` set (piece_refs B k xs) = blake3_hash B ` set xs"
  by (induction xs arbitrary: k) auto

lemma piece_downloads_good:
  assumes "\<And>id. id \<in> blake3_hash B ` set xs \<Longrightarrow> \<forall>s. I s \<longrightarrow> (\<exists>r s'. in_session (rl_storage_id replica)
      (download_chunk_job E B Z \<lparr> dcr_volume_id = rl_volume_id replica, dcr_chunk_id = id \<rparr>) s = (Inr r, s') \<and> I s' \<and> dcs_raw_bytes r \<in> K)"
    and "list_all piece_ok xs" and "\<forall>x\<in>set xs. hash_tells B K x"
  shows "list_all (job_good E B Z K I) (piece_downloads B replica off xs)"
  using assms by (induction xs arbitrary: off) (auto simp: job_good_def run_download_job_def)

definition jobs_cover :: "'h blake3 \<Rightarrow> u8 list set \<Rightarrow> u8 list \<Rightarrow> nat \<Rightarrow> nat \<Rightarrow> download_job list \<Rightarrow> bool" where
  "jobs_cover B K contents a z js \<longleftrightarrow>
     (\<forall>job\<in>set js. \<forall>w. fetched B K job w \<longrightarrow> slice_of contents w) \<and>
     (\<forall>i. a \<le> i \<and> i < z \<longrightarrow> (\<exists>job\<in>set js. \<forall>w. fetched B K job w \<longrightarrow> covers w i))"

lemma jobs_cover_append: "jobs_cover B K c a m xs \<Longrightarrow> jobs_cover B K c m z ys \<Longrightarrow> jobs_cover B K c a z (xs @ ys)"
proof -
  assume xs: "jobs_cover B K c a m xs" and ys: "jobs_cover B K c m z ys"
  have "\<exists>job\<in>set (xs @ ys). \<forall>w. fetched B K job w \<longrightarrow> covers w i" if "a \<le> i \<and> i < z" for i
  proof (cases "i < m")
    case True
    with xs that show ?thesis unfolding jobs_cover_def by (metis UnI1 set_append)
  next
    case False
    with ys that show ?thesis unfolding jobs_cover_def by (metis UnI2 linorder_not_le set_append)
  qed
  with xs ys show ?thesis by (auto simp: jobs_cover_def)
qed

lemma bundle_jobs_layout:
  assumes "groups_ok gs" and "full_groups gs" and "plan_fits k bs (map (bundle_of B) gs)"
    and "list_all2 (serves_bundle E B Z K I storages) bs (map (bundle_of B) gs)"
    and "contents = pre @ concat (concat gs)" and "gs \<noteq> [] \<longrightarrow> length pre = k * bundle_max" and "length contents < 2 ^ 63"
    and "\<forall>x\<in>set (concat gs). hash_tells B K x" and "I s" and enq: "\<And>n. enq n = None"
  shows "\<exists>js s'. bundle_jobs E enq (of_nat (length contents)) storages bs jobs s = (Inr (jobs @ js), s') \<and> I s' \<and>
    jobs_cover B K contents (length pre) (length contents) js \<and> list_all (job_good E B Z K I) js \<and> length js \<le> length (concat (concat gs))"
  using assms(1-9)
proof (induction gs arbitrary: k bs pre jobs s)
  case Nil
  then have "bs = []" by (cases bs) auto
  then show ?case using Nil by (auto simp: jobs_cover_def)
next
  case (Cons g gs)
  from Cons.prems(3) obtain b bs' where bs: "bs = b # bs'" by (cases bs) auto
  let ?bo = "k * bundle_max"
  have pre: "length pre = ?bo" using Cons.prems(6) by blast
  have g: "list_all piece_ok g" "group_len g \<le> bundle_max" using Cons.prems(1) by simp_all
  have total: "?bo + group_len g \<le> length contents" using Cons.prems(5) pre by (simp add: group_len_def)
  have small: "?bo < 2 ^ 63" "group_len g < 2 ^ 63" "k < 2 ^ 63" using total Cons.prems(7) by auto
  have raw: "fbr_raw_len b = of_nat (group_len g)" using Cons.prems(3) by (simp add: bs bundle_of_def)
  have mul: "checked_mul (fbr_bundle_index b) VOLUME_BUNDLE_RAW_SIZE = Some (of_nat ?bo)"
  proof -
    have "fbr_bundle_index b = of_nat k" using Cons.prems(3) by (simp add: bs)
    moreover have "of_nat k * VOLUME_BUNDLE_RAW_SIZE = of_nat ?bo" by (simp add: VOLUME_BUNDLE_RAW_SIZE_def)
    ultimately show ?thesis using small unat_of_nat_small64 [of k] by (simp add: checked_mul_def unat_sizes)
  qed
  from Cons.prems(4) obtain replica storage s1 where rep: "find_replica b storages = Some (replica, storage)"
    and ls: "in_session (spi_storage_id storage) (session_list_bundle_chunks E (rl_volume_id replica) (fbr_bundle_id b)) s = (Inr (piece_refs B 0 g), s1)" "I s1"
    using Cons.prems(9) unfolding bs by (auto simp: serves_bundle_def lists_bundle_def bundle_of_def)
  have ids: "\<And>id. id \<in> blake3_hash B ` set g \<Longrightarrow> \<forall>s. I s \<longrightarrow> (\<exists>r s'. in_session (rl_storage_id replica)
      (download_chunk_job E B Z \<lparr> dcr_volume_id = rl_volume_id replica, dcr_chunk_id = id \<rparr>) s = (Inr r, s') \<and> I s' \<and> dcs_raw_bytes r \<in> K)"
    using Cons.prems(4) rep unfolding bs by (auto simp: serves_bundle_def bundle_of_def simp flip: piece_refs_ids [of B 0 g])
  have len: "length g \<le> group_len g" using g(1) unfolding group_len_def
  proof (induction g)
    case (Cons x xs)
    then show ?case by (cases x) (auto simp: piece_ok_def)
  qed simp
  have sorted: "sort_key bcr_chunk_index (piece_refs B 0 g) = piece_refs B 0 g"
    using piece_refs_sorted [of 0 g B] len small(2) by (intro sort_key_id_if_sorted) simp
  have fg: "\<forall>i<length g. length (g ! i) = chunk_max \<or> Suc i = length g" using Cons.prems(2) by auto
  let ?js = "piece_downloads B replica ?bo g"
  have cj: "chunk_jobs enq (of_nat (length contents)) (of_nat ?bo) (of_nat (group_len g)) replica (piece_refs B 0 g) jobs = Inr (jobs @ ?js)"
    using chunk_jobs_pieces [OF fg g(1), of "group_len g" 0 ?bo "length contents" enq replica B jobs] total Cons.prems(7) enq
    by (simp add: group_len_def)
  have c: "contents = pre @ concat g @ concat (concat gs)" using Cons.prems(5) by simp
  have sole: "\<forall>x\<in>set g. hash_tells B K x" using Cons.prems(8) by simp
  have good: "list_all (job_good E B Z K I) (piece_downloads B replica (k * bundle_max) g)" by (rule piece_downloads_good [OF ids g(1) sole])
  have small': "length contents < 2 ^ 64" using Cons.prems(7) by simp
  have end_g: "length (pre @ concat g) = ?bo + length (concat g)" using pre by simp
  have cov: "jobs_cover B K contents (length pre) (length (pre @ concat g)) ?js"
    unfolding jobs_cover_def
  proof (intro conjI ballI allI impI)
    fix job w assume "job \<in> set ?js" "fetched B K job w"
    from piece_downloads_slices [OF this(1) c pre [symmetric] small' g(1) sole this(2)] show "slice_of contents w" .
  next
    fix i assume i: "length pre \<le> i \<and> i < length (pre @ concat g)"
    have "?bo \<le> i" "i < ?bo + length (concat g)" using i pre by auto
    moreover have "?bo + length (concat g) < 2 ^ 64" using total small' unfolding group_len_def by linarith
    ultimately show "\<exists>job\<in>set ?js. \<forall>w. fetched B K job w \<longrightarrow> covers w i" using g(1) by (rule piece_downloads_cover)
  qed
  have next_pre: "gs \<noteq> [] \<longrightarrow> length (pre @ concat g) = Suc k * bundle_max"
    using Cons.prems(1) pre by (auto simp: group_len_def)
  have "\<exists>js s'. bundle_jobs E enq (of_nat (length contents)) storages bs' (jobs @ ?js) s1 = (Inr ((jobs @ ?js) @ js), s') \<and> I s' \<and>
      jobs_cover B K contents (length (pre @ concat g)) (length contents) js \<and> list_all (job_good E B Z K I) js \<and>
      length js \<le> length (concat (concat gs))"
    using Cons.prems next_pre ls(2) by (intro Cons.IH [of "Suc k"]) (simp_all add: bs)
  then obtain js s' where js: "bundle_jobs E enq (of_nat (length contents)) storages bs' (jobs @ ?js) s1 = (Inr ((jobs @ ?js) @ js), s')" "I s'"
    "jobs_cover B K contents (length (pre @ concat g)) (length contents) js" "list_all (job_good E B Z K I) js" "length js \<le> length (concat (concat gs))" by blast
  have "length (?js @ js) \<le> length (concat (concat (g # gs)))"
    using js(5) len by (simp add: piece_downloads_length group_len_def)
  then show ?case
    using js jobs_cover_append [OF cov js(3)] good mul rep ls(1) cj sorted raw
    by (intro exI [of _ "?js @ js"] exI [of _ s']) (simp add: bs)
qed

lemma jobs_restore:
  assumes cov: "jobs_cover B K contents 0 (length contents) jobs" and perm: "set js = set jobs" and ws: "list_all2 (fetched B K) js ws"
  shows "fold write_job ws (replicate (length contents) 0) = contents"
proof -
  have sl: "\<forall>w\<in>set ws. slice_of contents w"
    using cov perm ws unfolding jobs_cover_def by (metis in_set_conv_nth list_all2_conv_all_nth)
  have cv: "\<exists>w\<in>set ws. covers w i" if "i < length contents" for i
  proof -
    from cov that obtain job where "job \<in> set jobs" "\<forall>w. fetched B K job w \<longrightarrow> covers w i" unfolding jobs_cover_def by blast
    then show ?thesis using perm ws by (metis in_set_conv_nth list_all2_conv_all_nth)
  qed
  from write_slices [OF sl, of "replicate (length contents) 0"] cv show ?thesis by (auto intro: nth_equalityI)
qed

text \<open>Good jobs complete, in any order, with the chunks that were asked for.\<close>

lemma in_session_Inr: "in_session i m s = (Inr r, s') \<Longrightarrow> \<exists>xs xs'. m xs = (Inr r, xs')"
  by (auto simp: in_session_def st_bind_def split: sum.splits prod.splits)

lemma good_job_runs:
  assumes "job_good E B Z K I job" and "I s"
  shows "\<exists>r s' w. run_download_job E B Z job s = (Inr r, s') \<and> I s' \<and>
    download_complete (dj_chunk_id job) (dj_raw_len job) (dj_raw_offset job) True (Inr r) st = (Some w, chunk_completed st) \<and> fetched B K job w"
proof -
  from assms obtain x r s' where x: "dj_chunk_id job = blake3_hash B x" "dj_raw_len job = of_nat (length x)" "piece_ok x" "hash_tells B K x"
    and run: "run_download_job E B Z job s = (Inr r, s')" "I s'" "dcs_raw_bytes r \<in> K" unfolding job_good_def by blast
  from run(1) obtain bytes where "decompress_chunk B Z (dj_chunk_id job) bytes = Inr (dcs_raw_bytes r)" and id: "dcs_chunk_id r = dj_chunk_id job"
    unfolding run_download_job_def by (auto simp: download_chunk_job_def st_bind_Inr_iff dest!: in_session_Inr)
  then have "blake3_hash B (dcs_raw_bytes r) = blake3_hash B x"
    by (auto simp: decompress_chunk_def res_bind_Inr_iff x(1) split: if_splits)
  then have raw: "dcs_raw_bytes r = x" using x(4) run(3) by (simp add: hash_tells_def)
  let ?w = "\<lparr> dwj_raw_offset = dj_raw_offset job, dwj_raw_bytes = x \<rparr>"
  have "fetched B K job ?w" using x run(3) raw by (simp add: fetched_def piece_ok_def)
  moreover have "download_complete (dj_chunk_id job) (dj_raw_len job) (dj_raw_offset job) True (Inr r) st = (Some ?w, chunk_completed st)"
    using id raw x(2) by (simp add: download_complete_def)
  ultimately show ?thesis using run by blast
qed

lemma complete_downloads_good:
  assumes "list_all (job_good E B Z K I) jobs" and "I s"
  shows "\<exists>ws s'. complete_downloads E B Z (\<lambda>_. True) k jobs st s = ((ws, (chunk_completed ^^ length jobs) st), s') \<and> I s' \<and> list_all2 (fetched B K) jobs ws"
  using assms
proof (induction jobs arbitrary: k st s)
  case (Cons job jobs)
  then obtain r s1 w where "run_download_job E B Z job s = (Inr r, s1)" and s1: "I s1"
    and "download_complete (dj_chunk_id job) (dj_raw_len job) (dj_raw_offset job) True (Inr r) st = (Some w, chunk_completed st)"
    and "fetched B K job w" using good_job_runs [of E B Z K I job s st] by auto
  moreover obtain ws s' where "complete_downloads E B Z (\<lambda>_. True) (k + 1) jobs (chunk_completed st) s1 =
      ((ws, (chunk_completed ^^ length jobs) (chunk_completed st)), s')" "I s'" "list_all2 (fetched B K) jobs ws"
    using Cons.IH [of s1 "k + 1" "chunk_completed st"] Cons.prems s1 by auto
  ultimately show ?case by (simp add: funpow_swap1)
qed simp

lemma run_event_funs: "run_event Scheduled = chunk_scheduled" "run_event (Completed None) = chunk_completed"
  by (simp_all add: fun_eq_iff)

lemma outstanding_append: "outstanding n (xs @ ys) = (case outstanding n xs of None \<Rightarrow> None | Some m \<Rightarrow> outstanding m ys)"
  by (induction n xs rule: outstanding.induct) (auto split: nat.splits)

lemma outstanding_replicate:
  "outstanding m (replicate n Scheduled) = Some (m + n)"
  "k \<le> m \<Longrightarrow> outstanding m (replicate k (Completed e)) = Some (m - k)"
  by (induction n arbitrary: m, simp_all) (induction k arbitrary: m, auto split: nat.splits)

lemma first_failure_replicate: "first_failure (replicate n Scheduled) = None" "first_failure (replicate n (Completed None)) = None"
  by (induction n) simp_all

text \<open>When every chunk completes without an error the transfer succeeds, whenever the last one is scheduled.\<close>

lemma transfer_without_errors:
  assumes "k \<le> n" and "n < 2 ^ 63"
  shows "case finish_scheduling ((chunk_completed ^^ k) ((chunk_scheduled ^^ n) transfer_new)) of
    (wait, st) \<Rightarrow> \<not> wait \<or> ts_sent ((chunk_completed ^^ (n - k)) st) = Some (Inr ())"
proof -
  let ?before = "replicate n Scheduled @ replicate k (Completed None)" and ?after = "replicate (n - k) (Completed None)"
  have "outstanding 0 ?before = Some (n - k)" "length ?before < 2 ^ 64" "outstanding (n - k) ?after = Some 0" "length ?after = n - k"
    using assms by (simp_all add: outstanding_append outstanding_replicate)
  from transfer_result_spec [OF this] have "transfer_result ?before ?after = Some (Inr ())"
    by (simp add: first_failure_append first_failure_replicate)
  then show ?thesis by (auto simp: transfer_result_def run_event_funs split: prod.splits if_splits)
qed

text \<open>What was uploaded is what is downloaded.\<close>

definition completes_all :: "download_env \<Rightarrow> bool" where
  "completes_all D \<longleftrightarrow>
     dle_create D = None \<and> (\<forall>n. dle_enqueue D n = None) \<and> (\<forall>n. dle_write D n = None) \<and> (\<forall>n. dle_writer_open D n) \<and>
     (\<forall>jobs. mset (dle_order D jobs) = mset jobs)"

lemma run_downloads_good:
  assumes D: "completes_all D" and good: "list_all (job_good E B Z K I) jobs" and n: "length jobs < 2 ^ 63" and I: "I s"
  shows "\<exists>ws s'. run_downloads E B Z D jobs s = ((Inr (), ws), s') \<and> list_all2 (fetched B K) (dle_order D jobs) ws"
proof -
  let ?order = "dle_order D jobs" and ?k = "min (dle_before D) (length jobs)"
  have perm: "mset ?order = mset jobs" using D by (simp add: completes_all_def)
  then have len: "length ?order = length jobs" by (rule mset_eq_length)
  have good': "list_all (job_good E B Z K I) ?order" using good mset_eq_setD [OF perm] by (simp add: list_all_iff)
  let ?before = "take (dle_before D) ?order" and ?after = "drop (dle_before D) ?order" and ?st = "(chunk_scheduled ^^ length jobs) transfer_new"
  have parts: "list_all (job_good E B Z K I) ?before" "list_all (job_good E B Z K I) ?after"
    using good' by (auto simp: list_all_iff dest: in_set_takeD in_set_dropD)
  have opn: "dle_writer_open D = (\<lambda>_. True)" using D by (auto simp: completes_all_def)
  have lens: "length ?before = ?k" "length ?after = length jobs - ?k" using len by auto
  obtain ws s1 where w: "complete_downloads E B Z (dle_writer_open D) 0 ?before ?st s = ((ws, (chunk_completed ^^ ?k) ?st), s1)"
    "I s1" "list_all2 (fetched B K) ?before ws" using complete_downloads_good [OF parts(1) I, of 0 ?st] unfolding opn lens(1) by blast
  obtain wait st where fin: "finish_scheduling ((chunk_completed ^^ ?k) ?st) = (wait, st)" by force
  obtain ws' s2 where w': "complete_downloads E B Z (dle_writer_open D) (length ?before) ?after st s1 = ((ws', (chunk_completed ^^ (length jobs - ?k)) st), s2)"
    "list_all2 (fetched B K) ?after ws'" using complete_downloads_good [OF parts(2) w(2), of "length ?before" st] unfolding opn lens(2) by blast
  have "\<not> wait \<or> ts_sent ((chunk_completed ^^ (length jobs - ?k)) st) = Some (Inr ())"
    using transfer_without_errors [of ?k "length jobs"] n fin by auto
  then have "run_downloads E B Z D jobs s = ((Inr (), ws @ ws'), s2)"
    unfolding run_downloads_def Let_def w(1) prod.case fin w'(1) by auto
  moreover have "list_all2 (fetched B K) (?before @ ?after) (ws @ ws')" using w(3) w'(2) by (rule list_all2_appendI)
  ultimately show ?thesis by simp
qed

lemma download_uploaded:
  assumes up: "upload_bundles X B 0 [] \<lparr> up_reads = 0, up_rest = contents, up_jobs = [] \<rparr> = (Inr (n, bundles), p)"
    and reads: "full_reads X" and len: "length contents < 2 ^ 63" and sole: "\<And>a m. hash_tells B K (take m (drop a contents))"
    and plan: "call_get_file_read_plan E path s = (Inr plan, s1)" "frp_size plan = n" "plan_fits 0 (frp_bundles plan) bundles"
    and serves: "list_all2 (serves_bundle E B Z K I (cse_storages (fcl_central s1))) (frp_bundles plan) bundles"
    and I: "I s1" and D: "completes_all D"
  shows "\<exists>s'. download_file E B Z D path s = (Inr (\<lparr> tst_chunks = div_ceil n VOLUME_RAW_CHUNK_SIZE, tst_size = n \<rparr>, contents), s')"
proof -
  from upload_bundles_cut [OF up] obtain gs where gs: "cut_file X B 0 [] \<lparr> up_reads = 0, up_rest = contents, up_jobs = [] \<rparr> n bundles p gs"
    by (metis unat_0)
  then have c: "contents = [] @ concat (concat gs)" "groups_ok gs" "full_groups gs" "bundles = map (bundle_of B) gs" "unat n = length contents"
    using reads by (simp_all add: cut_file_def)
  have n: "n = of_nat (length contents)" by (simp flip: c(5))
  have pieces: "hash_tells B K x" if "x \<in> set (concat gs)" for x
  proof -
    from that obtain ys zs where "concat gs = ys @ x # zs" by (meson split_list)
    then have "x = take (length x) (drop (length (concat ys)) contents)" using c(1) by simp
    then show ?thesis using sole by metis
  qed
  from D have d: "dle_create D = None" "\<And>k. dle_enqueue D k = None" "\<And>k. dle_write D k = None" by (simp_all add: completes_all_def)
  have "\<exists>js s'. bundle_jobs E (dle_enqueue D) (of_nat (length contents)) (cse_storages (fcl_central s1)) (frp_bundles plan) [] s1 = (Inr ([] @ js), s') \<and> I s' \<and>
    jobs_cover B K contents (length ([] :: u8 list)) (length contents) js \<and> list_all (job_good E B Z K I) js \<and> length js \<le> length (concat (concat gs))"
    using c plan(3) serves len pieces d(2) I by (intro bundle_jobs_layout [where gs = gs and k = 0]) auto
  then obtain jobs s2 where jobs: "bundle_jobs E (dle_enqueue D) n (cse_storages (fcl_central s1)) (frp_bundles plan) [] s1 = (Inr jobs, s2)" "I s2"
    and cov: "jobs_cover B K contents 0 (length contents) jobs" and good: "list_all (job_good E B Z K I) jobs" and few: "length jobs < 2 ^ 63"
    using len c(1) by (auto simp: n)
  obtain ws s3 where t: "run_downloads E B Z D jobs s2 = ((Inr (), ws), s3)" "list_all2 (fetched B K) (dle_order D jobs) ws"
    using run_downloads_good [OF D good few jobs(2)] by blast
  have "mset (dle_order D jobs) = mset jobs" using D by (simp add: completes_all_def)
  then have "set (dle_order D jobs) = set jobs" by (rule mset_eq_setD)
  then have "fold write_job ws (replicate (unat n) 0) = contents" using jobs_restore [OF cov _ t(2)] c(5) by simp
  then show ?thesis
    using plan jobs(1) t(1) d by (intro exI [of _ s3]) (simp add: download_file_def download_file_chunks_def run_writer_ok)
qed

end
