(* ===== verification/Volume_Db.thy ===== *)
theory Volume_Db
  imports Sql_Base Fs0_Protocol
begin

text \<open>
  The database of a volume: the tables of \<^verbatim>\<open>fs0-volume/src/schema.sql\<close> and the methods of \<open>VolumeDb\<close>
  (\<^verbatim>\<open>fs0-volume/src/db.rs\<close>). Integers are stored as \<open>i64\<close>; the checked conversions of the code are kept.
\<close>

section \<open>Tables\<close>

record volume_meta =
  vm_volume_id :: u64
  vm_format_version :: u64
  vm_max_bytes :: u64
  vm_active_volume_offset :: u64
  vm_created_at_ms :: u64
  vm_updated_at_ms :: u64

record chunk_meta =
  cm_chunk_id :: hash_id
  cm_compressed_hash :: hash_id
  cm_volume_offset :: u64
  cm_raw_len :: u64
  cm_compressed_len :: u64

record bundle_meta =
  bm_bundle_id :: hash_id
  bm_raw_len :: u64
  bm_compressed_len :: u64
  bm_chunk_count :: u64

record bundle_chunk_row =
  bc_bundle_id :: hash_id
  bc_chunk_index :: i64
  bc_chunk_id :: hash_id

record change_record_row =
  ch_event_id :: i64
  ch_event_type :: string
  ch_bundle_id :: hash_id

text \<open>\<open>volume_meta\<close> has the one row with \<open>id = 1\<close>.\<close>

record volume_tables =
  vt_meta :: "volume_meta option"
  vt_chunks :: "chunk_meta list"
  vt_bundle_chunks :: "bundle_chunk_row list"
  vt_changes :: "change_record_row list"
  vt_changes_seq :: i64

record volume_db =
  vd_conn :: volume_tables
  vd_meta :: volume_meta

type_synonym 'a vdb = "(volume_db, fs0_error, 'a) st"

definition empty_volume_tables :: volume_tables where
  "empty_volume_tables = \<lparr> vt_meta = None, vt_chunks = [], vt_bundle_chunks = [], vt_changes = [], vt_changes_seq = 0 \<rparr>"

section \<open>Creating and opening\<close>

definition meta_to_row :: "volume_meta \<Rightarrow> volume_meta fs0_result" where
  "meta_to_row meta =
     res_bind (u64_to_i64 (vm_volume_id meta) ''volume_id'') (\<lambda>volume_id.
     res_bind (u64_to_i64 (vm_format_version meta) ''format_version'') (\<lambda>format_version.
     res_bind (u64_to_i64 (vm_max_bytes meta) ''max_bytes'') (\<lambda>max_bytes.
     res_bind (u64_to_i64 (vm_active_volume_offset meta) ''active_volume_offset'') (\<lambda>active_volume_offset.
     res_bind (u64_to_i64 (vm_created_at_ms meta) ''created_at_ms'') (\<lambda>created_at_ms.
     res_bind (u64_to_i64 (vm_updated_at_ms meta) ''updated_at_ms'') (\<lambda>updated_at_ms.
     Inr \<lparr> vm_volume_id = volume_id, vm_format_version = format_version, vm_max_bytes = max_bytes,
       vm_active_volume_offset = active_volume_offset, vm_created_at_ms = created_at_ms,
       vm_updated_at_ms = updated_at_ms \<rparr>))))))"

text \<open>The file of the database with its tables exists from here on, also when the row cannot be written.\<close>

definition volume_db_create :: "volume_meta \<Rightarrow> volume_db fs0_result \<times> volume_tables" where
  "volume_db_create meta =
     (case meta_to_row meta of
        Inl e \<Rightarrow> (Inl e, empty_volume_tables)
      | Inr row \<Rightarrow>
          let t = empty_volume_tables\<lparr> vt_meta := Some row \<rparr> in (Inr \<lparr> vd_conn = t, vd_meta = meta \<rparr>, t))"

definition load_meta_from_conn :: "volume_tables \<Rightarrow> volume_meta fs0_result" where
  "load_meta_from_conn t =
     (case vt_meta t of
        None \<Rightarrow> Inl (Sqlite ''Query returned no rows'')
      | Some r \<Rightarrow>
          res_bind (row_u64 0 ''volume_id'' (vm_volume_id r)) (\<lambda>volume_id.
          res_bind (row_u64 1 ''format_version'' (vm_format_version r)) (\<lambda>format_version.
          res_bind (row_u64 2 ''max_bytes'' (vm_max_bytes r)) (\<lambda>max_bytes.
          res_bind (row_u64 3 ''active_volume_offset'' (vm_active_volume_offset r)) (\<lambda>active_volume_offset.
          res_bind (row_u64 4 ''created_at_ms'' (vm_created_at_ms r)) (\<lambda>created_at_ms.
          res_bind (row_u64 5 ''updated_at_ms'' (vm_updated_at_ms r)) (\<lambda>updated_at_ms.
          Inr \<lparr> vm_volume_id = volume_id, vm_format_version = format_version, vm_max_bytes = max_bytes,
            vm_active_volume_offset = active_volume_offset, vm_created_at_ms = created_at_ms,
            vm_updated_at_ms = updated_at_ms \<rparr>)))))))"

definition volume_db_open :: "volume_tables \<Rightarrow> volume_db fs0_result" where
  "volume_db_open t = res_bind (load_meta_from_conn t) (\<lambda>meta. Inr \<lparr> vd_conn = t, vd_meta = meta \<rparr>)"

definition update_conn :: "(volume_tables \<Rightarrow> volume_tables) \<Rightarrow> volume_db \<Rightarrow> volume_db" where
  "update_conn f s = s\<lparr> vd_conn := f (vd_conn s) \<rparr>"

definition assign_volume_id :: "u64 \<Rightarrow> u64 \<Rightarrow> volume_meta vdb" where
  "assign_volume_id volume_id updated_at_ms =
     st_bind (st_gets vd_meta) (\<lambda>meta.
     if vm_volume_id meta \<noteq> 0 \<and> vm_volume_id meta \<noteq> volume_id
     then st_throw (InvalidData (''volume already has id '' @ show_u64 (vm_volume_id meta) @ '', cannot assign '' @ show_u64 volume_id))
     else
       st_bind (st_lift (u64_to_i64 volume_id ''volume_id'')) (\<lambda>v.
       st_bind (st_lift (u64_to_i64 updated_at_ms ''updated_at_ms'')) (\<lambda>now.
       st_bind (st_modify (update_conn (\<lambda>t. t\<lparr> vt_meta :=
          map_option (\<lambda>r. r\<lparr> vm_volume_id := v, vm_updated_at_ms := now \<rparr>) (vt_meta t) \<rparr>))) (\<lambda>_.
       st_bind (st_modify (\<lambda>s. s\<lparr> vd_meta := (vd_meta s)\<lparr> vm_volume_id := volume_id, vm_updated_at_ms := updated_at_ms \<rparr> \<rparr>)) (\<lambda>_.
       st_gets vd_meta)))))"

section \<open>Chunks\<close>

definition row_to_chunk :: "chunk_meta \<Rightarrow> chunk_meta fs0_result" where
  "row_to_chunk r =
     res_bind (row_hash_id 0 ''chunk_id'' (as_bytes (cm_chunk_id r))) (\<lambda>chunk_id.
     res_bind (row_hash_id 1 ''compressed_hash'' (as_bytes (cm_compressed_hash r))) (\<lambda>compressed_hash.
     res_bind (row_u64 2 ''volume_offset'' (cm_volume_offset r)) (\<lambda>volume_offset.
     res_bind (row_u64 3 ''raw_len'' (cm_raw_len r)) (\<lambda>raw_len.
     res_bind (row_u64 4 ''compressed_len'' (cm_compressed_len r)) (\<lambda>compressed_len.
     Inr \<lparr> cm_chunk_id = chunk_id, cm_compressed_hash = compressed_hash, cm_volume_offset = volume_offset,
       cm_raw_len = raw_len, cm_compressed_len = compressed_len \<rparr>)))))"

definition chunk_row :: "volume_tables \<Rightarrow> hash_id \<Rightarrow> chunk_meta option" where
  "chunk_row t chunk_id = find (\<lambda>r. cm_chunk_id r = chunk_id) (vt_chunks t)"

definition load_chunk :: "hash_id \<Rightarrow> chunk_meta vdb" where
  "load_chunk chunk_id = (\<lambda>s.
     (case chunk_row (vd_conn s) chunk_id of
        None \<Rightarrow> Inl (ChunkNotFound chunk_id)
      | Some r \<Rightarrow> row_to_chunk r, s))"

text \<open>SQLite prepares no statement with more than 32766 parameters.\<close>

definition load_chunks_by_ids :: "hash_id list \<Rightarrow> (hash_id, chunk_meta) hmap vdb" where
  "load_chunks_by_ids chunk_ids =
     (if chunk_ids = [] then st_return []
      else if 32766 < length chunk_ids then st_throw (Sqlite ''too many SQL variables'')
      else (\<lambda>s. (res_bind (collect_rows row_to_chunk
              (filter (\<lambda>r. cm_chunk_id r \<in> set chunk_ids) (vt_chunks (vd_conn s)))) (\<lambda>rows.
            Inr (fold (\<lambda>chunk. hm_insert (cm_chunk_id chunk) chunk) rows [])), s)))"

lemma load_chunks_by_ids_code [code]:
  "load_chunks_by_ids chunk_ids =
     (if chunk_ids = [] then st_return []
      else if 32766 < int (length chunk_ids) then st_throw (Sqlite ''too many SQL variables'')
      else (\<lambda>s. (res_bind (collect_rows row_to_chunk
              (filter (\<lambda>r. cm_chunk_id r \<in> set chunk_ids) (vt_chunks (vd_conn s)))) (\<lambda>rows.
            Inr (fold (\<lambda>chunk. hm_insert (cm_chunk_id chunk) chunk) rows [])), s)))"
  unfolding load_chunks_by_ids_def nat_less_int by simp

text \<open>\<open>INSERT .. ON CONFLICT(chunk_id) DO NOTHING\<close>\<close>

definition insert_chunk :: "chunk_meta \<Rightarrow> unit vdb" where
  "insert_chunk chunk =
     st_bind (st_lift (u64_to_i64 (cm_volume_offset chunk) ''volume offset'')) (\<lambda>volume_offset.
     st_bind (st_lift (u64_to_i64 (cm_raw_len chunk) ''raw len'')) (\<lambda>raw_len.
     st_bind (st_lift (u64_to_i64 (cm_compressed_len chunk) ''compressed len'')) (\<lambda>compressed_len.
     (\<lambda>s. if length (as_bytes (cm_chunk_id chunk)) \<noteq> 32 then (Inl (check_error ''length(chunk_id) = 32''), s)
          else if length (as_bytes (cm_compressed_hash chunk)) \<noteq> 32 then (Inl (check_error ''length(compressed_hash) = 32''), s)
          else if chunk_row (vd_conn s) (cm_chunk_id chunk) \<noteq> None then (Inr (), s)
          else (Inr (), update_conn (\<lambda>t. t\<lparr> vt_chunks := vt_chunks t @
            [\<lparr> cm_chunk_id = cm_chunk_id chunk, cm_compressed_hash = cm_compressed_hash chunk,
               cm_volume_offset = volume_offset, cm_raw_len = raw_len, cm_compressed_len = compressed_len \<rparr>] \<rparr>) s)))))"

definition sql_max2 :: "i64 \<Rightarrow> i64 \<Rightarrow> i64" where
  "sql_max2 a b = (if sint a < sint b then b else a)"

definition reserve_active_volume_offset :: "u64 \<Rightarrow> u64 \<Rightarrow> volume_meta vdb" where
  "reserve_active_volume_offset active_volume_offset updated_at_ms =
     st_bind (st_lift (u64_to_i64 active_volume_offset ''active volume offset'')) (\<lambda>off.
     st_bind (st_lift (u64_to_i64 updated_at_ms ''updated_at_ms'')) (\<lambda>now.
     st_bind (st_modify (update_conn (\<lambda>t. t\<lparr> vt_meta := map_option (\<lambda>r. r\<lparr>
        vm_active_volume_offset := sql_max2 (vm_active_volume_offset r) off, vm_updated_at_ms := now \<rparr>) (vt_meta t) \<rparr>))) (\<lambda>_.
     st_bind (\<lambda>s. (load_meta_from_conn (vd_conn s), s)) (\<lambda>meta.
     st_bind (st_modify (\<lambda>s. s\<lparr> vd_meta := meta \<rparr>)) (\<lambda>_. st_gets vd_meta)))))"

text \<open>\<open>ON DELETE RESTRICT\<close>: a chunk that a bundle names is not deleted.\<close>

definition db_delete_chunk :: "hash_id \<Rightarrow> unit vdb" where
  "db_delete_chunk chunk_id = (\<lambda>s.
     if chunk_row (vd_conn s) chunk_id \<noteq> None \<and> list_ex (\<lambda>r. bc_chunk_id r = chunk_id) (vt_bundle_chunks (vd_conn s))
     then (Inl fk_error, s)
     else (Inr (), update_conn (\<lambda>t. t\<lparr> vt_chunks := filter (\<lambda>r. cm_chunk_id r \<noteq> chunk_id) (vt_chunks t) \<rparr>) s))"

section \<open>Bundles\<close>

text \<open>\<open>SUM\<close> fails when it leaves the range of \<open>i64\<close>; the columns it is used on are not negative.\<close>

definition sql_sum :: "i64 list \<Rightarrow> i64 fs0_result" where
  "sql_sum xs = (let n = \<Sum>x\<leftarrow>xs. sint x in if n < 2 ^ 63 then Inr (word_of_int n) else Inl (Sqlite ''integer overflow''))"

text \<open>\<open>bundle_chunks JOIN chunks\<close> for one bundle.\<close>

definition joined_chunks :: "volume_tables \<Rightarrow> hash_id \<Rightarrow> chunk_meta list" where
  "joined_chunks t bundle_id =
     concat (map (\<lambda>b. filter (\<lambda>c. cm_chunk_id c = bc_chunk_id b) (vt_chunks t))
       (filter (\<lambda>b. bc_bundle_id b = bundle_id) (vt_bundle_chunks t)))"

definition load_bundle :: "hash_id \<Rightarrow> bundle_meta vdb" where
  "load_bundle bundle_id = (\<lambda>s.
     let cs = joined_chunks (vd_conn s) bundle_id in
     (if cs = [] then Inl (BundleNotFound bundle_id)
      else
        res_bind (sql_sum (map cm_raw_len cs)) (\<lambda>raw_sum.
        res_bind (sql_sum (map cm_compressed_len cs)) (\<lambda>compressed_sum.
        res_bind (row_hash_id 0 ''bundle_id'' (as_bytes bundle_id)) (\<lambda>bundle_id.
        res_bind (row_u64 1 ''raw_len'' raw_sum) (\<lambda>raw_len.
        res_bind (row_u64 2 ''compressed_len'' compressed_sum) (\<lambda>compressed_len.
        res_bind (row_u64 3 ''chunk_count'' (of_nat (length cs))) (\<lambda>chunk_count.
        Inr \<lparr> bm_bundle_id = bundle_id, bm_raw_len = raw_len, bm_compressed_len = compressed_len,
          bm_chunk_count = chunk_count \<rparr>)))))), s))"

definition insert_bundle_chunk :: "hash_id \<Rightarrow> bundle_chunk_ref \<Rightarrow> unit vdb" where
  "insert_bundle_chunk bundle_id chunk =
     st_bind (st_lift (u64_to_i64 (bcr_chunk_index chunk) ''chunk_index'')) (\<lambda>index s.
       if length (as_bytes bundle_id) \<noteq> 32 then (Inl (check_error ''length(bundle_id) = 32''), s)
       else if length (as_bytes (bcr_chunk_id chunk)) \<noteq> 32 then (Inl (check_error ''length(chunk_id) = 32''), s)
       else if list_ex (\<lambda>r. bc_bundle_id r = bundle_id \<and> bc_chunk_index r = index) (vt_bundle_chunks (vd_conn s))
       then (Inl (unique_error ''bundle_chunks.bundle_id, bundle_chunks.chunk_index''), s)
       else if chunk_row (vd_conn s) (bcr_chunk_id chunk) = None then (Inl fk_error, s)
       else (Inr (), update_conn (\<lambda>t. t\<lparr> vt_bundle_chunks := vt_bundle_chunks t @
          [\<lparr> bc_bundle_id = bundle_id, bc_chunk_index = index, bc_chunk_id = bcr_chunk_id chunk \<rparr>] \<rparr>) s))"

definition delete_bundle_rows :: "hash_id \<Rightarrow> volume_tables \<Rightarrow> volume_tables" where
  "delete_bundle_rows bundle_id t =
     t\<lparr> vt_bundle_chunks := filter (\<lambda>r. bc_bundle_id r \<noteq> bundle_id) (vt_bundle_chunks t) \<rparr>"

fun event_type_str :: "bundle_replica_event_kind \<Rightarrow> string" where
  "event_type_str bundle_replica_event_kind.Stored = ''bundle_stored''"
| "event_type_str bundle_replica_event_kind.Deleted = ''bundle_deleted''"

text \<open>\<open>INSERT .. ON CONFLICT(bundle_id) DO UPDATE SET event_type\<close>: the record keeps its number.\<close>

definition insert_bundle_change_record_tx :: "hash_id \<Rightarrow> bundle_replica_event_kind \<Rightarrow> unit vdb" where
  "insert_bundle_change_record_tx bundle_id kind = (\<lambda>s.
     let t = vd_conn s; event_type = event_type_str kind in
     case next_rowid (vt_changes_seq t) (map ch_event_id (vt_changes t)) of
       Inl e \<Rightarrow> (Inl e, s)
     | Inr rowid \<Rightarrow>
         if length (as_bytes bundle_id) \<noteq> 32 then (Inl (check_error ''length(bundle_id) = 32''), s)
         else if list_ex (\<lambda>r. ch_bundle_id r = bundle_id) (vt_changes t)
         then (Inr (), update_conn (\<lambda>t. t\<lparr> vt_changes :=
                map (\<lambda>r. if ch_bundle_id r = bundle_id then r\<lparr> ch_event_type := event_type \<rparr> else r) (vt_changes t) \<rparr>) s)
         else (Inr (), update_conn (\<lambda>t. t\<lparr> vt_changes := vt_changes t @
                [\<lparr> ch_event_id = rowid, ch_event_type = event_type, ch_bundle_id = bundle_id \<rparr>], vt_changes_seq := rowid \<rparr>) s))"

text \<open>A transaction of the volume's database; the outcome of its \<open>COMMIT\<close> is the argument.\<close>

definition vdb_transaction :: "fs0_error option \<Rightarrow> 'a vdb \<Rightarrow> 'a vdb" where
  "vdb_transaction commit_err m = (\<lambda>s.
     case m s of
       (Inl e, s') \<Rightarrow> (Inl e, s)
     | (Inr x, s') \<Rightarrow> (case commit_err of None \<Rightarrow> (Inr x, s') | Some e \<Rightarrow> (Inl e, s)))"

definition db_commit_bundle :: "fs0_error option \<Rightarrow> hash_id \<Rightarrow> bundle_chunk_ref list \<Rightarrow> bundle_meta vdb" where
  "db_commit_bundle commit_err bundle_id chunks =
     st_bind (vdb_transaction commit_err
       (st_bind (st_modify (update_conn (delete_bundle_rows bundle_id))) (\<lambda>_.
        st_bind (st_iter (insert_bundle_chunk bundle_id) chunks) (\<lambda>_.
        insert_bundle_change_record_tx bundle_id bundle_replica_event_kind.Stored)))) (\<lambda>_.
     load_bundle bundle_id)"

definition db_delete_bundle :: "fs0_error option \<Rightarrow> hash_id \<Rightarrow> unit vdb" where
  "db_delete_bundle commit_err bundle_id =
     vdb_transaction commit_err
       (st_bind (st_modify (update_conn (delete_bundle_rows bundle_id))) (\<lambda>_.
        insert_bundle_change_record_tx bundle_id bundle_replica_event_kind.Deleted))"

definition row_to_chunk_ref :: "bundle_chunk_row \<Rightarrow> bundle_chunk_ref fs0_result" where
  "row_to_chunk_ref r =
     res_bind (row_u64 0 ''chunk_index'' (bc_chunk_index r)) (\<lambda>chunk_index.
     res_bind (row_hash_id 1 ''chunk_id'' (as_bytes (bc_chunk_id r))) (\<lambda>chunk_id.
     Inr \<lparr> bcr_chunk_index = chunk_index, bcr_chunk_id = chunk_id \<rparr>))"

definition db_list_bundle_chunks :: "hash_id \<Rightarrow> bundle_chunk_ref list vdb" where
  "db_list_bundle_chunks bundle_id = (\<lambda>s.
     (collect_rows row_to_chunk_ref (sort_key bc_chunk_index
        (filter (\<lambda>r. bc_bundle_id r = bundle_id) (vt_bundle_chunks (vd_conn s)))), s))"

section \<open>Change records\<close>

definition parse_change_kind :: "string \<Rightarrow> bundle_replica_event_kind fs0_result" where
  "parse_change_kind event_type =
     (if event_type = ''bundle_stored'' then Inr bundle_replica_event_kind.Stored
      else if event_type = ''bundle_deleted'' then Inr bundle_replica_event_kind.Deleted
      else Inl (conversion_failure 1 ''Text'' (''invalid bundle change record type: '' @ event_type)))"

definition row_to_change :: "volume_tables \<Rightarrow> u64 \<Rightarrow> change_record_row \<Rightarrow> bundle_replica_event fs0_result" where
  "row_to_change t volume_id r =
     (let cs = joined_chunks t (ch_bundle_id r) in
      res_bind (sql_sum (map cm_raw_len cs)) (\<lambda>raw_sum.
      res_bind (sql_sum (map cm_compressed_len cs)) (\<lambda>compressed_sum.
      res_bind (parse_change_kind (ch_event_type r)) (\<lambda>kind.
      res_bind (row_u64 0 ''event_id'' (ch_event_id r)) (\<lambda>event_id.
      res_bind (row_hash_id 2 ''bundle_id'' (as_bytes (ch_bundle_id r))) (\<lambda>bundle_id.
      res_bind (row_optional_u64 3 ''raw_len'' (Some raw_sum)) (\<lambda>raw_len.
      res_bind (row_optional_u64 4 ''compressed_len'' (Some compressed_sum)) (\<lambda>compressed_len.
      Inr \<lparr> bre_event_id = event_id, bre_kind = kind, bre_volume_id = volume_id, bre_bundle_id = bundle_id,
        bre_raw_len = raw_len, bre_compressed_len = compressed_len \<rparr>))))))))"

definition db_get_bundle_change_records :: "u64 \<Rightarrow> bundle_replica_event list vdb" where
  "db_get_bundle_change_records limit =
     st_bind (st_lift (u64_to_i64 limit ''limit'')) (\<lambda>n s.
       (collect_rows (row_to_change (vd_conn s) (vm_volume_id (vd_meta s)))
          (take (unat n) (sort_key ch_event_id (vt_changes (vd_conn s)))), s))"

definition db_remove_bundle_change_records :: "u64 \<Rightarrow> unit vdb" where
  "db_remove_bundle_change_records max_event_id =
     st_bind (st_lift (u64_to_i64 max_event_id ''max_event_id'')) (\<lambda>m.
     st_modify (update_conn (\<lambda>t. t\<lparr> vt_changes := filter (\<lambda>r. \<not> ch_event_id r \<le> m) (vt_changes t) \<rparr>)))"

section \<open>What the tables keep\<close>

definition chunk_ok :: "chunk_meta \<Rightarrow> bool" where
  "chunk_ok c \<longleftrightarrow> hash_ok (cm_chunk_id c) \<and> hash_ok (cm_compressed_hash c) \<and> fits_i64 (cm_volume_offset c) \<and>
     fits_i64 (cm_raw_len c) \<and> fits_i64 (cm_compressed_len c)"

definition meta_ok :: "volume_meta \<Rightarrow> bool" where
  "meta_ok m \<longleftrightarrow> fits_i64 (vm_volume_id m) \<and> fits_i64 (vm_format_version m) \<and> fits_i64 (vm_max_bytes m) \<and>
     fits_i64 (vm_active_volume_offset m) \<and> fits_i64 (vm_created_at_ms m) \<and> fits_i64 (vm_updated_at_ms m)"

definition bundle_rows_ok :: "volume_tables \<Rightarrow> bool" where
  "bundle_rows_ok t \<longleftrightarrow>
     distinct (map (\<lambda>r. (bc_bundle_id r, bc_chunk_index r)) (vt_bundle_chunks t)) \<and>
     (\<forall>r\<in>set (vt_bundle_chunks t). hash_ok (bc_bundle_id r) \<and> hash_ok (bc_chunk_id r) \<and> fits_i64 (bc_chunk_index r) \<and>
        chunk_row t (bc_chunk_id r) \<noteq> None)"

definition changes_ok :: "volume_tables \<Rightarrow> bool" where
  "changes_ok t \<longleftrightarrow>
     distinct (map ch_event_id (vt_changes t)) \<and> distinct (map ch_bundle_id (vt_changes t)) \<and> fits_i64 (vt_changes_seq t) \<and>
     (\<forall>r\<in>set (vt_changes t). hash_ok (ch_bundle_id r) \<and> ch_event_id r \<noteq> 0 \<and> ch_event_id r \<le> vt_changes_seq t \<and>
        (ch_event_type r = ''bundle_stored'' \<or> ch_event_type r = ''bundle_deleted''))"

definition vdb_ok :: "volume_db \<Rightarrow> bool" where
  "vdb_ok s \<longleftrightarrow>
     vt_meta (vd_conn s) = Some (vd_meta s) \<and> meta_ok (vd_meta s) \<and>
     distinct (map cm_chunk_id (vt_chunks (vd_conn s))) \<and> (\<forall>c\<in>set (vt_chunks (vd_conn s)). chunk_ok c) \<and>
     bundle_rows_ok (vd_conn s) \<and> changes_ok (vd_conn s)"

lemma row_hash_id_ok: "hash_ok h \<Longrightarrow> row_hash_id n name (as_bytes h) = Inr h"
  by (simp add: row_hash_id_def hash_ok_def)

lemma row_to_chunk_ok: "chunk_ok c \<Longrightarrow> row_to_chunk c = Inr c"
  by (simp add: row_to_chunk_def chunk_ok_def row_hash_id_ok row_u64_fits)

lemma chunk_row_SomeD: "chunk_row t i = Some c \<Longrightarrow> c \<in> set (vt_chunks t) \<and> cm_chunk_id c = i"
  unfolding chunk_row_def by (drule find_SomeD) simp

lemma chunk_row_member: "vdb_ok s \<Longrightarrow> c \<in> set (vt_chunks (vd_conn s)) \<Longrightarrow> chunk_row (vd_conn s) (cm_chunk_id c) = Some c"
  unfolding chunk_row_def vdb_ok_def by (simp add: find_key)

lemma chunk_row_None: "chunk_row t i = None \<longleftrightarrow> (\<forall>c\<in>set (vt_chunks t). cm_chunk_id c \<noteq> i)"
  by (auto simp: chunk_row_def find_None_iff)

lemma load_chunk_spec:
  "vdb_ok s \<Longrightarrow> load_chunk i s = (ok_or (ChunkNotFound i) (chunk_row (vd_conn s) i), s)"
  by (auto simp: load_chunk_def vdb_ok_def row_to_chunk_ok dest: chunk_row_SomeD split: option.splits)

lemma load_meta_ok: "vt_meta t = Some m \<Longrightarrow> meta_ok m \<Longrightarrow> load_meta_from_conn t = Inr m"
  by (simp add: load_meta_from_conn_def meta_ok_def row_u64_fits)

text \<open>Opening the database again gives what it was.\<close>

lemma volume_db_reopen: "vdb_ok s \<Longrightarrow> volume_db_open (vd_conn s) = Inr s"
  by (simp add: volume_db_open_def vdb_ok_def load_meta_ok)

lemma sint_fits: "fits_i64 v \<Longrightarrow> sint v = int (unat v)"
proof -
  assume "fits_i64 v"
  then have "0 \<le> sint v" using sint_neg_iff [of v] by (auto simp: fits_i64_def not_less)
  moreover have "sint v < 2 ^ 63" using sint_lt [of v] by simp
  ultimately have "take_bit 64 (sint v) = sint v" by (simp add: take_bit_eq_mod)
  then show ?thesis using uint_sint [of v] by simp
qed

lemma sql_max2_fits: "fits_i64 a \<Longrightarrow> fits_i64 b \<Longrightarrow> sql_max2 a b = max a b"
  by (auto simp: sql_max2_def max_def word_le_def word_uint_eq_iff sint_fits)

lemma reserve_active_volume_offset_spec:
  assumes ok: "vdb_ok s" and res: "reserve_active_volume_offset off now s = (r, s')"
  shows "(s' = s \<and> (\<exists>e. r = Inl e)) \<or>
    (r = Inr (vd_meta s') \<and> vdb_ok s' \<and>
     vd_meta s' = (vd_meta s)\<lparr> vm_active_volume_offset := max (vm_active_volume_offset (vd_meta s)) off, vm_updated_at_ms := now \<rparr> \<and>
     vt_chunks (vd_conn s') = vt_chunks (vd_conn s) \<and> vt_bundle_chunks (vd_conn s') = vt_bundle_chunks (vd_conn s))"
proof (cases "fits_i64 off \<and> fits_i64 now")
  case False
  then have "(\<exists>e. u64_to_i64 off ''active volume offset'' = Inl e) \<or> (\<exists>e. u64_to_i64 now ''updated_at_ms'' = Inl e)"
    by (auto simp: u64_to_i64_def fits_i64_def)
  with res show ?thesis
    by (cases "u64_to_i64 off ''active volume offset''")
      (auto simp: reserve_active_volume_offset_def)
next
  case True
  define m where "m = (vd_meta s)\<lparr> vm_active_volume_offset := max (vm_active_volume_offset (vd_meta s)) off, vm_updated_at_ms := now \<rparr>"
  define t where "t = (vd_conn s)\<lparr> vt_meta := Some m \<rparr>"
  have m: "meta_ok m" using ok True by (auto simp: m_def vdb_ok_def meta_ok_def max_def)
  have load: "load_meta_from_conn t = Inr m" using m by (intro load_meta_ok) (simp_all add: t_def)
  have upd: "update_conn (\<lambda>t. t\<lparr> vt_meta := map_option (\<lambda>r. r\<lparr>
        vm_active_volume_offset := sql_max2 (vm_active_volume_offset r) off, vm_updated_at_ms := now \<rparr>) (vt_meta t) \<rparr>) s =
      s\<lparr> vd_conn := t \<rparr>"
    using ok True by (auto simp: update_conn_def t_def m_def vdb_ok_def meta_ok_def sql_max2_fits)
  have "(r, s') = (Inr m, \<lparr> vd_conn = t, vd_meta = m \<rparr>)"
    using res True load upd by (cases s) (simp add: reserve_active_volume_offset_def u64_to_i64_Inr_iff [THEN iffD2])
  moreover have "vdb_ok \<lparr> vd_conn = t, vd_meta = m \<rparr>"
    using ok m by (simp add: vdb_ok_def t_def bundle_rows_ok_def changes_ok_def chunk_row_def)
  ultimately show ?thesis by (simp add: t_def m_def)
qed

lemma insert_chunk_spec:
  assumes ok: "vdb_ok s" and c: "chunk_ok c" and res: "insert_chunk c s = (r, s')"
  shows "r = Inr () \<and> vdb_ok s' \<and> vd_meta s' = vd_meta s \<and> vt_bundle_chunks (vd_conn s') = vt_bundle_chunks (vd_conn s) \<and>
    vt_chunks (vd_conn s') = vt_chunks (vd_conn s) @ (if chunk_row (vd_conn s) (cm_chunk_id c) = None then [c] else [])"
proof -
  have "(r, s') = (Inr (), if chunk_row (vd_conn s) (cm_chunk_id c) = None
      then update_conn (\<lambda>t. t\<lparr> vt_chunks := vt_chunks t @ [c] \<rparr>) s else s)"
    using res c by (cases c) (auto simp: insert_chunk_def chunk_ok_def hash_ok_def u64_to_i64_Inr_iff [THEN iffD2] split: if_splits)
  with ok c show ?thesis
    by (auto simp: vdb_ok_def update_conn_def chunk_row_None bundle_rows_ok_def changes_ok_def chunk_row_def find_append
        dest: find_None_D split: option.splits)
qed

lemma find_filter_key:
  "find (\<lambda>r. k r = j) (filter (\<lambda>r. k r \<noteq> i) xs) = (if j = i then None else find (\<lambda>r. k r = j) xs)"
  by (induction xs) auto

lemma chunk_row_filter:
  "chunk_row (t\<lparr> vt_chunks := filter (\<lambda>c. cm_chunk_id c \<noteq> i) (vt_chunks t) \<rparr>) j = (if j = i then None else chunk_row t j)"
  by (simp add: chunk_row_def find_filter_key)

text \<open>A chunk goes away only when no bundle names it.\<close>

lemma db_delete_chunk_spec:
  assumes ok: "vdb_ok s" and res: "db_delete_chunk i s = (r, s')"
  shows "vdb_ok s' \<and> vd_meta s' = vd_meta s \<and> vt_bundle_chunks (vd_conn s') = vt_bundle_chunks (vd_conn s) \<and>
    (if r = Inr () then vt_chunks (vd_conn s') = filter (\<lambda>c. cm_chunk_id c \<noteq> i) (vt_chunks (vd_conn s)) \<and>
        (\<forall>b\<in>set (vt_bundle_chunks (vd_conn s)). bc_chunk_id b \<noteq> i)
     else s' = s)"
proof (cases "chunk_row (vd_conn s) i \<noteq> None \<and> list_ex (\<lambda>r. bc_chunk_id r = i) (vt_bundle_chunks (vd_conn s))")
  case True
  with res ok show ?thesis by (auto simp: db_delete_chunk_def)
next
  case False
  then have unnamed: "\<forall>b\<in>set (vt_bundle_chunks (vd_conn s)). bc_chunk_id b \<noteq> i"
    using ok by (auto simp: vdb_ok_def bundle_rows_ok_def list_ex_iff)
  have "(r, s') = (Inr (), update_conn (\<lambda>t. t\<lparr> vt_chunks := filter (\<lambda>r. cm_chunk_id r \<noteq> i) (vt_chunks t) \<rparr>) s)"
    using False res by (auto simp: db_delete_chunk_def)
  with ok unnamed show ?thesis
    by (auto simp: vdb_ok_def update_conn_def bundle_rows_ok_def changes_ok_def chunk_row_filter distinct_map_filter)
qed

text \<open>The operations on bundles and change records leave the chunks and the header alone.\<close>

definition vdb_keeps :: "volume_db \<Rightarrow> volume_db \<Rightarrow> bool" where
  "vdb_keeps s s' \<longleftrightarrow> (vdb_ok s \<longrightarrow> vdb_ok s' \<and> vd_meta s' = vd_meta s \<and> vt_chunks (vd_conn s') = vt_chunks (vd_conn s))"

interpretation vkeep: step_order vdb_keeps
  by unfold_locales (auto simp: vdb_keeps_def)

lemma vkeep_query: "(\<And>s. snd (m s) = s) \<Longrightarrow> st_rel vdb_keeps m"
  by (simp add: st_rel_def vkeep.step_refl)

lemma vkeep_transaction: "st_rel vdb_keeps m \<Longrightarrow> st_rel vdb_keeps (vdb_transaction e m)"
  unfolding st_rel_def vdb_transaction_def
  by (auto simp: vkeep.step_refl split: prod.splits sum.splits option.splits) (metis snd_conv)

lemma chunk_row_cong: "vt_chunks t = vt_chunks t' \<Longrightarrow> chunk_row t = chunk_row t'"
  by (simp add: fun_eq_iff chunk_row_def)

lemma vkeep_delete_bundle_rows: "st_rel vdb_keeps (st_modify (update_conn (delete_bundle_rows b)))"
  by (rule vkeep.rel_modify)
    (auto simp: vdb_keeps_def vdb_ok_def update_conn_def delete_bundle_rows_def bundle_rows_ok_def changes_ok_def chunk_row_def
      distinct_map_filter)

definition chunk_link :: "hash_id \<Rightarrow> bundle_chunk_ref \<Rightarrow> bundle_chunk_row" where
  "chunk_link b c = \<lparr> bc_bundle_id = b, bc_chunk_index = bcr_chunk_index c, bc_chunk_id = bcr_chunk_id c \<rparr>"

definition add_links :: "hash_id \<Rightarrow> bundle_chunk_ref list \<Rightarrow> volume_tables \<Rightarrow> volume_tables" where
  "add_links b cs t = t\<lparr> vt_bundle_chunks := vt_bundle_chunks t @ map (chunk_link b) cs \<rparr>"

lemma insert_bundle_chunk_cases:
  assumes "insert_bundle_chunk b c s = (r, s')"
  obtains e where "r = Inl e" "s' = s"
  | "r = Inr ()" "s' = update_conn (add_links b [c]) s" "hash_ok b" "hash_ok (bcr_chunk_id c)" "fits_i64 (bcr_chunk_index c)"
    "(b, bcr_chunk_index c) \<notin> (\<lambda>r. (bc_bundle_id r, bc_chunk_index r)) ` set (vt_bundle_chunks (vd_conn s))"
    "chunk_row (vd_conn s) (bcr_chunk_id c) \<noteq> None"
proof (cases r)
  case (Inl e)
  with assms have "s' = s" by (auto simp: insert_bundle_chunk_def st_bind_Inl_iff split: if_splits)
  with Inl show thesis by (rule that(1))
next
  case (Inr u)
  with assms have "fits_i64 (bcr_chunk_index c)" "hash_ok b" "hash_ok (bcr_chunk_id c)"
    "chunk_row (vd_conn s) (bcr_chunk_id c) \<noteq> None" "s' = update_conn (add_links b [c]) s"
    "(b, bcr_chunk_index c) \<notin> (\<lambda>r. (bc_bundle_id r, bc_chunk_index r)) ` set (vt_bundle_chunks (vd_conn s))"
    by (auto simp: insert_bundle_chunk_def st_bind_Inr_iff u64_to_i64_Inr_iff list_ex_iff hash_ok_def update_conn_def
        add_links_def chunk_link_def split: if_splits)
  with Inr show thesis by (intro that(2)) simp_all
qed

lemma vkeep_insert_bundle_chunk: "st_rel vdb_keeps (insert_bundle_chunk b c)"
proof (rule st_relI)
  fix s
  show "vdb_keeps s (snd (insert_bundle_chunk b c s))"
  proof (cases rule: insert_bundle_chunk_cases [of b c s, OF surjective_pairing])
    case 2
    then show ?thesis
      by (auto simp: vdb_keeps_def vdb_ok_def update_conn_def add_links_def bundle_rows_ok_def changes_ok_def chunk_link_def
          chunk_row_def)
  qed (simp add: vkeep.step_refl)
qed

lemma insert_bundle_chunks_Inr:
  "st_iter (insert_bundle_chunk b) cs s = (Inr (), s') \<Longrightarrow> s' = update_conn (add_links b cs) s"
proof (induction cs arbitrary: s)
  case Nil
  then show ?case by (simp add: update_conn_def add_links_def)
next
  case (Cons c cs)
  then obtain s1 where s1: "insert_bundle_chunk b c s = (Inr (), s1)" and "st_iter (insert_bundle_chunk b) cs s1 = (Inr (), s')"
    by (auto simp: st_bind_Inr_iff)
  from this(2) have "s' = update_conn (add_links b cs) s1" by (rule Cons.IH)
  with s1 show ?case
    by (auto elim!: insert_bundle_chunk_cases simp: update_conn_def add_links_def)
qed

lemma insert_bundle_change_record_spec:
  assumes "insert_bundle_change_record_tx b kind s = (r, s')"
  shows "vdb_keeps s s' \<and> vt_bundle_chunks (vd_conn s') = vt_bundle_chunks (vd_conn s)"
proof (cases "next_rowid (vt_changes_seq (vd_conn s)) (map ch_event_id (vt_changes (vd_conn s)))")
  case (Inl e)
  with assms show ?thesis by (simp add: insert_bundle_change_record_tx_def Let_def vkeep.step_refl)
next
  case (Inr rowid)
  note new = next_rowid_Inr [OF Inr]
  let ?known = "list_ex (\<lambda>r. ch_bundle_id r = b) (vt_changes (vd_conn s))"
  have kind: "event_type_str kind = ''bundle_stored'' \<or> event_type_str kind = ''bundle_deleted''" by (cases kind) simp_all
  consider "s' = s" | "hash_ok b" ?known "s' = update_conn (\<lambda>t. t\<lparr> vt_changes := map (\<lambda>r. if ch_bundle_id r = b
        then r\<lparr> ch_event_type := event_type_str kind \<rparr> else r) (vt_changes t) \<rparr>) s"
    | "hash_ok b" "\<not> ?known" "s' = update_conn (\<lambda>t. t\<lparr> vt_changes := vt_changes t @
        [\<lparr> ch_event_id = rowid, ch_event_type = event_type_str kind, ch_bundle_id = b \<rparr>], vt_changes_seq := rowid \<rparr>) s"
    using assms Inr by (auto simp: insert_bundle_change_record_tx_def Let_def hash_ok_def split: if_splits)
  then show ?thesis
  proof cases
    case 1
    then show ?thesis by (simp add: vkeep.step_refl)
  next
    case 2
    have same: "ch_event_id \<circ> (\<lambda>r. if ch_bundle_id r = b then r\<lparr> ch_event_type := x \<rparr> else r) = ch_event_id"
      "ch_bundle_id \<circ> (\<lambda>r. if ch_bundle_id r = b then r\<lparr> ch_event_type := x \<rparr> else r) = ch_bundle_id" for x
      by auto
    show ?thesis
      using 2 kind by (auto simp: vdb_keeps_def vdb_ok_def update_conn_def bundle_rows_ok_def changes_ok_def chunk_row_def same)
  next
    case 3
    then show ?thesis
      using new kind
      by (auto simp: vdb_keeps_def vdb_ok_def update_conn_def bundle_rows_ok_def changes_ok_def chunk_row_def list_ex_iff
          dest: less_imp_le)
  qed
qed

lemma vkeep_change_record: "st_rel vdb_keeps (insert_bundle_change_record_tx b kind)"
  by (rule st_relI) (metis insert_bundle_change_record_spec surjective_pairing)

lemma load_bundle_state [simp]: "snd (load_bundle b s) = s"
  by (simp add: load_bundle_def Let_def)

lemma vkeep_load_bundle: "st_rel vdb_keeps (load_bundle b)"
  by (rule vkeep_query) simp

lemma vkeep_db_commit_bundle: "st_rel vdb_keeps (db_commit_bundle e b chunks)"
  unfolding db_commit_bundle_def
  by (intro vkeep.rel_bind vkeep_transaction vkeep.rel_iter vkeep_delete_bundle_rows vkeep_insert_bundle_chunk
      vkeep_change_record vkeep_load_bundle)

lemma vkeep_db_delete_bundle: "st_rel vdb_keeps (db_delete_bundle e b)"
  unfolding db_delete_bundle_def
  by (intro vkeep.rel_bind vkeep_transaction vkeep_delete_bundle_rows vkeep_change_record)

lemma vkeep_db_list_bundle_chunks: "st_rel vdb_keeps (db_list_bundle_chunks b)"
  by (rule vkeep_query) (simp add: db_list_bundle_chunks_def)

lemma vkeep_db_get_bundle_change_records: "st_rel vdb_keeps (db_get_bundle_change_records limit)"
  unfolding db_get_bundle_change_records_def by (intro vkeep.rel_bind vkeep.rel_lift vkeep_query) simp

lemma vkeep_db_remove_bundle_change_records: "st_rel vdb_keeps (db_remove_bundle_change_records m)"
  unfolding db_remove_bundle_change_records_def
  by (intro vkeep.rel_bind vkeep.rel_lift vkeep.rel_modify)
    (auto simp: vdb_keeps_def vdb_ok_def update_conn_def bundle_rows_ok_def changes_ok_def chunk_row_def distinct_map_filter)

lemma vkeep_load_chunks_by_ids: "st_rel vdb_keeps (load_chunks_by_ids ids)"
  by (rule vkeep_query) (simp add: load_chunks_by_ids_def)

lemma delete_then_add_links:
  "vt_bundle_chunks (add_links b cs (delete_bundle_rows b t)) =
     filter (\<lambda>r. bc_bundle_id r \<noteq> b) (vt_bundle_chunks t) @ map (chunk_link b) cs"
  by (simp add: add_links_def delete_bundle_rows_def)

text \<open>A commit replaces the rows of the bundle, or changes nothing.\<close>

lemma db_commit_bundle_rows:
  assumes res: "db_commit_bundle e b chunks s = (r, s')"
  shows "(s' = s \<and> (\<exists>err. r = Inl err)) \<or>
    vt_bundle_chunks (vd_conn s') = filter (\<lambda>r. bc_bundle_id r \<noteq> b) (vt_bundle_chunks (vd_conn s)) @ map (chunk_link b) chunks"
proof -
  let ?tx = "st_bind (st_modify (update_conn (delete_bundle_rows b))) (\<lambda>_. st_bind (st_iter (insert_bundle_chunk b) chunks)
    (\<lambda>_. insert_bundle_change_record_tx b bundle_replica_event_kind.Stored))"
  obtain r1 s1 where tx: "vdb_transaction e ?tx s = (r1, s1)" by force
  show ?thesis
  proof (cases r1)
    case (Inl err)
    then have "s1 = s" using tx by (auto simp: vdb_transaction_def split: prod.splits sum.splits option.splits)
    with Inl tx res show ?thesis by (auto simp: db_commit_bundle_def)
  next
    case (Inr u)
    then have "?tx s = (Inr (), s1)" using tx by (auto simp: vdb_transaction_def split: prod.splits sum.splits option.splits)
    then obtain s2 where "st_iter (insert_bundle_chunk b) chunks (update_conn (delete_bundle_rows b) s) = (Inr (), s2)"
      and cr: "insert_bundle_change_record_tx b bundle_replica_event_kind.Stored s2 = (Inr (), s1)"
      by (auto simp: st_bind_Inr_iff)
    from this(1) have "s2 = update_conn (add_links b chunks) (update_conn (delete_bundle_rows b) s)"
      by (rule insert_bundle_chunks_Inr)
    then have "vt_bundle_chunks (vd_conn s1) = vt_bundle_chunks (add_links b chunks (delete_bundle_rows b (vd_conn s)))"
      using insert_bundle_change_record_spec [OF cr] by (simp add: update_conn_def)
    moreover have "s' = s1" using res tx Inr load_bundle_state [of b s1] by (auto simp: db_commit_bundle_def)
    ultimately show ?thesis by (simp add: delete_then_add_links)
  qed
qed

lemma db_delete_bundle_rows:
  assumes res: "db_delete_bundle e b s = (r, s')"
  shows "(s' = s \<and> (\<exists>err. r = Inl err)) \<or>
    (r = Inr () \<and> vt_bundle_chunks (vd_conn s') = filter (\<lambda>r. bc_bundle_id r \<noteq> b) (vt_bundle_chunks (vd_conn s)))"
proof (cases r)
  case (Inl err)
  with res show ?thesis by (auto simp: db_delete_bundle_def vdb_transaction_def split: prod.splits sum.splits option.splits)
next
  case (Inr u)
  with res have "insert_bundle_change_record_tx b bundle_replica_event_kind.Deleted (update_conn (delete_bundle_rows b) s) = (Inr (), s')"
    by (auto simp: db_delete_bundle_def vdb_transaction_def st_bind_Inr_iff split: prod.splits sum.splits option.splits)
  from insert_bundle_change_record_spec [OF this] Inr show ?thesis by (simp add: update_conn_def delete_bundle_rows_def)
qed

text \<open>The chunks of a bundle in the order of their numbers.\<close>

definition links_of :: "hash_id \<Rightarrow> volume_tables \<Rightarrow> bundle_chunk_ref list" where
  "links_of b t = map (\<lambda>r. \<lparr> bcr_chunk_index = bc_chunk_index r, bcr_chunk_id = bc_chunk_id r \<rparr>)
     (sort_key bc_chunk_index (filter (\<lambda>r. bc_bundle_id r = b) (vt_bundle_chunks t)))"

lemma db_list_bundle_chunks_spec:
  assumes "vdb_ok s"
  shows "db_list_bundle_chunks b s = (Inr (links_of b (vd_conn s)), s)"
proof -
  have "collect_rows row_to_chunk_ref (sort_key bc_chunk_index (filter (\<lambda>r. bc_bundle_id r = b) (vt_bundle_chunks (vd_conn s)))) =
      Inr (links_of b (vd_conn s))"
    unfolding links_of_def using assms
    by (intro collect_rows_ok) (auto simp: vdb_ok_def bundle_rows_ok_def row_to_chunk_ref_def row_u64_fits row_hash_id_ok)
  then show ?thesis by (simp add: db_list_bundle_chunks_def)
qed

lemma load_chunks_by_ids_spec:
  assumes "vdb_ok s" and "load_chunks_by_ids ids s = (Inr m, s')"
  shows "s' = s \<and> length ids \<le> 32766 \<and> (\<forall>i. i \<in> set ids \<longrightarrow> hm_get m i = chunk_row (vd_conn s) i)"
proof (cases "ids = []")
  case True
  with assms show ?thesis by (auto simp: load_chunks_by_ids_def)
next
  case False
  let ?rows = "filter (\<lambda>r. cm_chunk_id r \<in> set ids) (vt_chunks (vd_conn s))"
  have "collect_rows row_to_chunk ?rows = Inr (map (\<lambda>c. c) ?rows)"
    using assms(1) by (intro collect_rows_ok) (auto simp: vdb_ok_def row_to_chunk_ok)
  with False assms(2) have m: "m = fold (\<lambda>c. hm_insert (cm_chunk_id c) c) ?rows []" "s' = s" "length ids \<le> 32766"
    by (auto simp: load_chunks_by_ids_def split: if_splits)
  have ins: "hm_get (fold (\<lambda>c. hm_insert (cm_chunk_id c) c) cs acc) i =
      (case find (\<lambda>c. cm_chunk_id c = i) cs of None \<Rightarrow> hm_get acc i | Some c \<Rightarrow> Some c)"
    if "distinct (map cm_chunk_id cs)" for cs acc i
    using that by (induction cs arbitrary: acc) (auto simp: image_iff update_conv split: option.splits dest: find_SomeD dest!: find_SomeD)
  have "hm_get m i = chunk_row (vd_conn s) i" if "i \<in> set ids" for i
  proof -
    have f: "find (\<lambda>c. cm_chunk_id c = i) (filter (\<lambda>r. cm_chunk_id r \<in> set ids) xs) = find (\<lambda>c. cm_chunk_id c = i) xs" for xs
      using that by (induction xs) auto
    have "distinct (map cm_chunk_id ?rows)" using assms(1) by (simp add: vdb_ok_def distinct_map_filter)
    from ins [OF this, of "[]" i] show ?thesis unfolding m(1) f chunk_row_def by (auto split: option.splits)
  qed
  with m show ?thesis by blast
qed

end
