(* ===== verification/Data_Files.thy ===== *)
theory Data_Files
  imports Fs0_Core
begin

text \<open>
  The data files of a volume: the loops of \<^verbatim>\<open>fs0-volume/src/io_platform.rs\<close> around reads and writes that may
  transfer fewer bytes than asked for, and the cache of open files of \<^verbatim>\<open>data_file_cache.rs\<close>. A file is its
  length and its bytes; a file of 4 GiB is a function, not a list.
\<close>

section \<open>Positional input and output\<close>

record data_file =
  df_len :: nat
  df_bytes :: "nat \<Rightarrow> u8"

definition empty_file :: data_file where
  "empty_file = \<lparr> df_len = 0, df_bytes = (\<lambda>_. 0) \<rparr>"

definition file_slice :: "data_file \<Rightarrow> nat \<Rightarrow> nat \<Rightarrow> u8 list" where
  "file_slice f off n = map (df_bytes f) [off..<off + n]"

text \<open>
  What a system call at an offset does: it fails with a message, or it transfers up to so many bytes.
\<close>

type_synonym io_calls = "nat \<Rightarrow> string + nat"

function read_at :: "io_calls \<Rightarrow> data_file \<Rightarrow> nat \<Rightarrow> nat \<Rightarrow> (u8 list) fs0_result" where
  "read_at io f off n =
     (if n = 0 then Inr []
      else
        case io off of
          Inl msg \<Rightarrow> Inl (Io msg)
        | Inr amount \<Rightarrow>
            let got = min n (min amount (df_len f - off)) in
            if got = 0 then Inl (Io ''failed to fill whole buffer'')
            else res_bind (read_at io f (off + got) (n - got)) (\<lambda>rest. Inr (file_slice f off got @ rest)))"
  by pat_completeness auto
termination
  by (relation "measure (\<lambda>(io, f, off, n). n)") auto

definition patch :: "data_file \<Rightarrow> nat \<Rightarrow> u8 list \<Rightarrow> data_file" where
  "patch f off bs =
     \<lparr> df_len = (if bs = [] then df_len f else max (df_len f) (off + length bs)),
       df_bytes = (\<lambda>i. if off \<le> i \<and> i < off + length bs then bs ! (i - off) else df_bytes f i) \<rparr>"

function write_at :: "io_calls \<Rightarrow> data_file \<Rightarrow> nat \<Rightarrow> u8 list \<Rightarrow> unit fs0_result \<times> data_file" where
  "write_at io f off buf =
     (if buf = [] then (Inr (), f)
      else
        case io off of
          Inl msg \<Rightarrow> (Inl (Io msg), f)
        | Inr amount \<Rightarrow>
            let written = min amount (length buf) in
            if written = 0 then (Inl (Io ''failed to write whole buffer''), f)
            else write_at io (patch f off (take written buf)) (off + written) (drop written buf))"
  by pat_completeness auto
termination
  by (relation "measure (\<lambda>(io, f, off, buf). length buf)") auto

declare read_at.simps [simp del] write_at.simps [simp del]

definition preallocate :: "data_file \<Rightarrow> nat \<Rightarrow> data_file" where
  "preallocate f len = f\<lparr> df_len := max (df_len f) len \<rparr>"

text \<open>Calls that make progress.\<close>

definition io_fair :: "io_calls \<Rightarrow> bool" where
  "io_fair io \<longleftrightarrow> (\<forall>off. case io off of Inl _ \<Rightarrow> False | Inr amount \<Rightarrow> 0 < amount)"

lemma length_file_slice [simp]: "length (file_slice f off n) = n"
  by (simp add: file_slice_def)

lemma file_slice_append: "file_slice f off a @ file_slice f (off + a) b = file_slice f off (a + b)"
proof -
  have "[off..<off + (a + b)] = [off..<off + a] @ [off + a..<off + a + b]"
    using upt_add_eq_append [of off "off + a" b] by (simp add: add.assoc)
  then show ?thesis by (simp add: file_slice_def)
qed

lemma io_fairE:
  assumes "io_fair io"
  obtains a where "io off = Inr a" and "0 < a"
  using assms that unfolding io_fair_def by (metis (full_types) sum.case sum.exhaust)

lemma patch_Nil [simp]: "patch f off [] = f"
  by (cases f) (auto simp: patch_def fun_eq_iff)

lemma read_at_fair:
  assumes fair: "io_fair io"
  shows "read_at io f off n =
    (if n = 0 \<or> off + n \<le> df_len f then Inr (file_slice f off n) else Inl (Io ''failed to fill whole buffer''))"
proof (induction n arbitrary: off rule: less_induct)
  case (less n)
  obtain a where a: "io off = Inr a" "0 < a" using io_fairE [OF fair] .
  let ?got = "min n (min a (df_len f - off))"
  show ?case
  proof (cases "n = 0 \<or> ?got = 0")
    case True
    with a show ?thesis by (subst read_at.simps) (auto simp: file_slice_def)
  next
    case False
    then have got: "n - ?got < n" "?got \<le> n" "0 < ?got" by auto
    have "read_at io f (off + ?got) (n - ?got) =
        (if off + n \<le> df_len f \<or> n = ?got then Inr (file_slice f (off + ?got) (n - ?got)) else Inl (Io ''failed to fill whole buffer''))"
      unfolding less [OF got(1)] using got by auto
    moreover have "n = ?got \<Longrightarrow> off + n \<le> df_len f" using False by linarith
    ultimately show ?thesis
      using a False got file_slice_append [of f off ?got "n - ?got"]
      by (subst read_at.simps) (auto simp: Let_def)
  qed
qed

lemma patch_append:
  "patch (patch f off xs) (off + length xs) ys = patch f off (xs @ ys)"
  by (auto simp: patch_def fun_eq_iff nth_append)

lemma write_at_fair:
  assumes fair: "io_fair io"
  shows "write_at io f off buf = (Inr (), patch f off buf)"
proof (induction "length buf" arbitrary: f off buf rule: less_induct)
  case less
  obtain a where a: "io off = Inr a" "0 < a" using io_fairE [OF fair] .
  show ?case
  proof (cases "buf = []")
    case True
    then show ?thesis by (subst write_at.simps) simp
  next
    case False
    let ?w = "min a (length buf)"
    have w: "0 < ?w" "length (drop ?w buf) < length buf" using a False by auto
    have "write_at io f off buf = write_at io (patch f off (take ?w buf)) (off + ?w) (drop ?w buf)"
      using a False by (subst write_at.simps) (auto simp: Let_def min_def)
    also have "\<dots> = (Inr (), patch (patch f off (take ?w buf)) (off + ?w) (drop ?w buf))"
      using less [OF w(2)] by simp
    also have "\<dots> = (Inr (), patch f off buf)"
      using patch_append [of f off "take ?w buf" "drop ?w buf"] by (simp add: min.absorb2)
    finally show ?thesis .
  qed
qed

text \<open>Whatever the calls do, a write changes no byte outside its range and never shortens the file.\<close>

lemma write_at_frame:
  assumes "write_at io f off buf = (r, f')"
  shows "df_len f \<le> df_len f'" and "i < off \<or> off + length buf \<le> i \<Longrightarrow> df_bytes f' i = df_bytes f i"
    and "r = Inr () \<Longrightarrow> f' = patch f off buf"
proof -
  have "df_len f \<le> df_len f' \<and> (\<forall>i. i < off \<or> off + length buf \<le> i \<longrightarrow> df_bytes f' i = df_bytes f i) \<and>
      (r = Inr () \<longrightarrow> f' = patch f off buf)"
    using assms
  proof (induction io f off buf rule: write_at.induct)
    case (1 io f off buf)
    show ?case
    proof (cases "buf = []")
      case True
      with 1(2) show ?thesis by (subst (asm) write_at.simps) auto
    next
      case ne: False
      show ?thesis
      proof (cases "io off")
        case (Inl msg)
        with 1(2) ne show ?thesis by (subst (asm) write_at.simps) auto
      next
        case (Inr a)
        let ?w = "min a (length buf)"
        show ?thesis
        proof (cases "?w = 0")
          case True
          with 1(2) ne Inr show ?thesis by (subst (asm) write_at.simps) (auto simp: Let_def)
        next
          case False
          let ?f = "patch f off (take ?w buf)"
          have rec: "write_at io ?f (off + ?w) (drop ?w buf) = (r, f')"
            using 1(2) ne Inr False by (subst (asm) write_at.simps) (simp add: Let_def)
          from 1(1) [OF ne Inr refl False rec]
          have ih: "df_len ?f \<le> df_len f'"
            "\<forall>i. i < off + ?w \<or> off + ?w + length (drop ?w buf) \<le> i \<longrightarrow> df_bytes f' i = df_bytes ?f i"
            "r = Inr () \<Longrightarrow> f' = patch ?f (off + ?w) (drop ?w buf)" by auto
          have "df_len f \<le> df_len ?f" by (simp add: patch_def)
          moreover have "df_bytes f' i = df_bytes f i" if "i < off \<or> off + length buf \<le> i" for i
            using that ih(2) by (auto simp: patch_def)
          moreover have "f' = patch f off buf" if "r = Inr ()"
            using ih(3) [OF that] patch_append [of f off "take ?w buf" "drop ?w buf"] by (simp add: min.absorb2)
          ultimately show ?thesis using ih(1) by auto
        qed
      qed
    qed
  qed
  then show "df_len f \<le> df_len f'" and "i < off \<or> off + length buf \<le> i \<Longrightarrow> df_bytes f' i = df_bytes f i"
    and "r = Inr () \<Longrightarrow> f' = patch f off buf" by blast+
qed

lemma file_slice_patch_same: "file_slice (patch f off bs) off (length bs) = bs"
  by (rule nth_equalityI) (auto simp: file_slice_def patch_def)

section \<open>The cache of open files\<close>

record data_file_slot =
  dfs_open :: bool
  dfs_last_access_ms :: u64

definition new_slot :: data_file_slot where
  "new_slot = \<lparr> dfs_open = False, dfs_last_access_ms = 0 \<rparr>"

text \<open>
  The slots of the cache and the files on disk: under \<open>n\<close> is the file whose name is the prefix
  \<^verbatim>\<open>.fs0.data.\<close> followed by \<open>n\<close>. The semaphores bound how many calls run at once, not what they do.
\<close>

record data_file_cache =
  dc_slots :: "data_file_slot list"
  dc_files :: "nat \<rightharpoonup> data_file"

definition with_capacity :: "nat \<Rightarrow> (nat \<rightharpoonup> data_file) \<Rightarrow> data_file_cache" where
  "with_capacity data_files files = \<lparr> dc_slots = replicate data_files new_slot, dc_files = files \<rparr>"

text \<open>What the operating system does during a call: the clock, opening, preallocating, reading, writing, syncing.\<close>

record disk_env =
  de_now :: u64
  de_open :: "string option"
  de_prealloc :: "string option"
  de_io :: io_calls
  de_sync :: "string option"

type_synonym 'a disk_op = "(data_file_cache, fs0_error, 'a) st"

definition set_slot :: "nat \<Rightarrow> data_file_slot \<Rightarrow> data_file_cache \<Rightarrow> data_file_cache" where
  "set_slot i slot c = c\<lparr> dc_slots := (dc_slots c)[i := slot] \<rparr>"

definition put_file :: "nat \<Rightarrow> data_file \<Rightarrow> data_file_cache \<Rightarrow> data_file_cache" where
  "put_file i f c = c\<lparr> dc_files := (dc_files c)(i \<mapsto> f) \<rparr>"

definition open_file :: "disk_env \<Rightarrow> nat \<Rightarrow> bool \<Rightarrow> data_file disk_op" where
  "open_file E i create_if_missing = (\<lambda>c.
     case de_open E of
       Some msg \<Rightarrow> (Inl (Io msg), c)
     | None \<Rightarrow>
         (case dc_files c i of
            Some f \<Rightarrow> (Inr f, c)
          | None \<Rightarrow>
              if create_if_missing then (Inr empty_file, put_file i empty_file c)
              else (Inl (Io ''No such file or directory (os error 2)''), c)))"

text \<open>On a machine with 64 bits the conversion of the index to \<open>usize\<close> cannot fail.\<close>

definition get_or_open :: "disk_env \<Rightarrow> u64 \<Rightarrow> bool \<Rightarrow> nat disk_op" where
  "get_or_open E index create_if_missing = (\<lambda>c.
     let i = unat index in
     if length (dc_slots c) \<le> i
     then (Inl (InvalidData (''data file index '' @ show_u64 index @ '' exceeds configured data files '' @
             show_nat (length (dc_slots c)))), c)
     else if dfs_open (dc_slots c ! i) then (Inr i, c)
     else
       st_bind (open_file E i create_if_missing) (\<lambda>f c.
         let opened = set_slot i ((dc_slots c ! i)\<lparr> dfs_open := True \<rparr>) in
         if create_if_missing \<and> df_len f < unat VOLUME_DEFAULT_DATA_FILE_SIZE
         then (case de_prealloc E of
                 Some msg \<Rightarrow> (Inl (Io msg), c)
               | None \<Rightarrow> (Inr i, opened (put_file i (preallocate f (unat VOLUME_DEFAULT_DATA_FILE_SIZE)) c)))
         else (Inr i, opened c)) c)"

definition touch :: "disk_env \<Rightarrow> nat \<Rightarrow> data_file_cache \<Rightarrow> data_file_cache" where
  "touch E i c = set_slot i ((dc_slots c ! i)\<lparr> dfs_last_access_ms := de_now E \<rparr>) c"

text \<open>An open file that is no longer on disk would still be read; here an open slot has its file.\<close>

definition slot_file :: "nat \<Rightarrow> data_file_cache \<Rightarrow> data_file" where
  "slot_file i c = (case dc_files c i of None \<Rightarrow> empty_file | Some f \<Rightarrow> f)"

definition cache_read_at :: "disk_env \<Rightarrow> u64 \<Rightarrow> u64 \<Rightarrow> nat \<Rightarrow> u8 list disk_op" where
  "cache_read_at E index off len =
     st_bind (get_or_open E index False) (\<lambda>i c.
       (read_at (de_io E) (slot_file i c) (unat off) len, touch E i c))"

definition cache_write_at :: "disk_env \<Rightarrow> u64 \<Rightarrow> u64 \<Rightarrow> u8 list \<Rightarrow> unit disk_op" where
  "cache_write_at E index off bytes =
     st_bind (get_or_open E index True) (\<lambda>i c.
       case write_at (de_io E) (slot_file i c) (unat off) bytes of
         (Inl e, f) \<Rightarrow> (Inl e, put_file i f (touch E i c))
       | (Inr _, f) \<Rightarrow>
           ((case de_sync E of None \<Rightarrow> Inr () | Some msg \<Rightarrow> Inl (Io msg)), put_file i f (touch E i c)))"

text \<open>\<open>busy\<close> are the slots whose lock is taken.\<close>

definition idle :: "u64 \<Rightarrow> data_file_slot \<Rightarrow> bool" where
  "idle now slot \<longleftrightarrow>
     dfs_last_access_ms slot \<noteq> 0 \<and> \<not> saturating_sub now (dfs_last_access_ms slot) \<le> VOLUME_DATA_FILE_IDLE_TTL_MS"

definition close_idle :: "nat set \<Rightarrow> u64 \<Rightarrow> data_file_cache \<Rightarrow> data_file_cache" where
  "close_idle busy now c = c\<lparr> dc_slots := map (\<lambda>(i, slot).
     if idle now slot \<and> i \<notin> busy then slot\<lparr> dfs_open := False \<rparr> else slot) (enumerate 0 (dc_slots c)) \<rparr>"

section \<open>What the cache keeps\<close>

text \<open>The bytes of all data files as one address space, indexed by file and offset.\<close>

definition disk_byte :: "data_file_cache \<Rightarrow> nat \<Rightarrow> nat \<Rightarrow> u8" where
  "disk_byte c i off = (case dc_files c i of None \<Rightarrow> 0 | Some f \<Rightarrow> df_bytes f off)"

definition disk_len :: "data_file_cache \<Rightarrow> nat \<Rightarrow> nat" where
  "disk_len c i = (case dc_files c i of None \<Rightarrow> 0 | Some f \<Rightarrow> df_len f)"

definition cache_ok :: "data_file_cache \<Rightarrow> bool" where
  "cache_ok c \<longleftrightarrow> (\<forall>i<length (dc_slots c). dfs_open (dc_slots c ! i) \<longrightarrow> dc_files c i \<noteq> None)"

text \<open>Files only grow, keep their bytes, and the number of slots does not change.\<close>

definition disk_grows :: "data_file_cache \<Rightarrow> data_file_cache \<Rightarrow> bool" where
  "disk_grows c c' \<longleftrightarrow>
     length (dc_slots c') = length (dc_slots c) \<and> (cache_ok c \<longrightarrow> cache_ok c') \<and>
     (\<forall>i. (dc_files c i \<noteq> None \<longrightarrow> dc_files c' i \<noteq> None) \<and> disk_len c i \<le> disk_len c' i \<and> disk_byte c' i = disk_byte c i)"

interpretation grows: step_order disk_grows
  by unfold_locales (auto simp: disk_grows_def intro: order_trans)

lemma cache_ok_with_capacity: "cache_ok (with_capacity n files)"
  by (simp add: cache_ok_def with_capacity_def new_slot_def)

lemma disk_grows_set_slot:
  "(dfs_open slot \<longrightarrow> dc_files c i \<noteq> None) \<Longrightarrow> disk_grows c (set_slot i slot c)"
  by (cases "i < length (dc_slots c)")
    (auto simp: disk_grows_def set_slot_def cache_ok_def disk_len_def disk_byte_def nth_list_update)

lemma disk_grows_touch: "cache_ok c \<Longrightarrow> i < length (dc_slots c) \<Longrightarrow> disk_grows c (touch E i c)"
  unfolding touch_def by (rule disk_grows_set_slot) (simp add: cache_ok_def)

lemma disk_grows_put_file:
  assumes "disk_len c i \<le> df_len f" and "df_bytes f = disk_byte c i"
  shows "disk_grows c (put_file i f c)"
  using assms by (auto simp: disk_grows_def put_file_def cache_ok_def disk_len_def disk_byte_def)

lemma disk_byte_file: "dc_files c i = Some f \<Longrightarrow> disk_byte c i = df_bytes f"
  by (simp add: fun_eq_iff disk_byte_def)

lemma preallocate_grows: "disk_grows c (put_file i (preallocate f n) c)" if "dc_files c i = Some f"
  using that by (intro disk_grows_put_file) (simp_all add: preallocate_def disk_len_def disk_byte_file)

lemma open_file_spec:
  assumes "open_file E i create c = (r, c')"
  shows "disk_grows c c' \<and> dc_slots c' = dc_slots c \<and> (\<forall>f. r = Inr f \<longrightarrow> dc_files c' i = Some f)"
proof (cases "de_open E")
  case None
  show ?thesis
  proof (cases "dc_files c i")
    case missing: None
    have "disk_grows c (put_file i empty_file c)"
      using missing by (intro disk_grows_put_file) (simp_all add: empty_file_def disk_len_def disk_byte_def fun_eq_iff)
    with None missing assms show ?thesis
      by (cases create) (auto simp: open_file_def put_file_def grows.step_refl)
  qed (use None assms in \<open>auto simp: open_file_def grows.step_refl\<close>)
qed (use assms in \<open>auto simp: open_file_def grows.step_refl\<close>)

lemma get_or_open_spec:
  assumes ok: "cache_ok c" and res: "get_or_open E index create c = (r, c')"
  shows "disk_grows c c' \<and> (\<forall>i. r = Inr i \<longrightarrow> i = unat index \<and> i < length (dc_slots c) \<and> dc_files c' i \<noteq> None)"
proof -
  let ?i = "unat index"
  consider (outside) "length (dc_slots c) \<le> ?i" | (already) "?i < length (dc_slots c)" "dfs_open (dc_slots c ! ?i)"
    | (closed) "?i < length (dc_slots c)" "\<not> dfs_open (dc_slots c ! ?i)" by linarith
  then show ?thesis
  proof cases
    case outside
    with res show ?thesis by (auto simp: get_or_open_def Let_def grows.step_refl)
  next
    case already
    with res ok show ?thesis by (auto simp: get_or_open_def Let_def grows.step_refl cache_ok_def)
  next
    case closed
    obtain r1 c1 where g: "open_file E ?i create c = (r1, c1)" by force
    note O = open_file_spec [OF g]
    show ?thesis
    proof (cases r1)
      case (Inl e)
      with res closed g O show ?thesis by (auto simp: get_or_open_def Let_def st_bind_eval)
    next
      case (Inr f)
      let ?slot = "(dc_slots c1 ! ?i)\<lparr> dfs_open := True \<rparr>"
      let ?p = "put_file ?i (preallocate f (unat VOLUME_DEFAULT_DATA_FILE_SIZE)) c1"
      have f: "dc_files c1 ?i = Some f" using O Inr by simp
      have opened: "disk_grows c (set_slot ?i ?slot c1)"
        using O f disk_grows_set_slot [of ?slot c1 ?i] by (auto intro: grows.step_trans)
      have "disk_grows c ?p" using O preallocate_grows [OF f] by (auto intro: grows.step_trans)
      then have pre: "disk_grows c (set_slot ?i ?slot ?p)"
        using disk_grows_set_slot [of ?slot ?p ?i] by (auto simp: put_file_def intro: grows.step_trans)
      consider "c' = c1" "\<exists>e. r = Inl e" | "c' = set_slot ?i ?slot c1" "r = Inr ?i" | "c' = set_slot ?i ?slot ?p" "r = Inr ?i"
        using res closed g Inr by (auto simp: get_or_open_def Let_def st_bind_eval split: if_splits option.splits)
      then show ?thesis
        using O opened pre closed f by cases (auto simp: set_slot_def put_file_def)
    qed
  qed
qed

lemma cache_read_at_spec:
  assumes ok: "cache_ok c" and res: "cache_read_at E index off len c = (r, c')"
  shows "disk_grows c c' \<and> (\<forall>bs. r = Inr bs \<and> io_fair (de_io E) \<longrightarrow>
    unat index < length (dc_slots c) \<and> bs = map (disk_byte c (unat index)) [unat off..<unat off + len])"
proof -
  obtain r1 c1 where g: "get_or_open E index False c = (r1, c1)" by force
  note O = get_or_open_spec [OF ok g]
  show ?thesis
  proof (cases r1)
    case (Inl e)
    with res g O show ?thesis by (auto simp: cache_read_at_def st_bind_eval)
  next
    case (Inr i)
    with O obtain f where i: "i = unat index" "i < length (dc_slots c)" and f: "dc_files c1 i = Some f" by auto
    have c': "c' = touch E i c1" and r: "r = read_at (de_io E) f (unat off) len"
      using res g Inr f by (auto simp: cache_read_at_def st_bind_eval slot_file_def)
    have ok1: "cache_ok c1" "length (dc_slots c1) = length (dc_slots c)" using O ok by (simp_all add: disk_grows_def)
    have "disk_grows c c'" using O disk_grows_touch [OF ok1(1)] i(2) ok1(2) c' by (auto intro: grows.step_trans)
    moreover have "df_bytes f = disk_byte c i" using O disk_byte_file [OF f] by (simp add: disk_grows_def)
    ultimately show ?thesis
      using r i read_at_fair [of "de_io E" f "unat off" len] by (auto simp: file_slice_def split: if_splits)
  qed
qed

text \<open>A write stores its bytes at the place and nothing elsewhere; when it fails, nothing outside its range changes.\<close>

lemma cache_write_at_spec:
  assumes ok: "cache_ok c" and res: "cache_write_at E index off bs c = (r, c')"
  shows "cache_ok c' \<and> length (dc_slots c') = length (dc_slots c) \<and> (\<forall>i. disk_len c i \<le> disk_len c' i) \<and>
    (\<forall>i p. i \<noteq> unat index \<or> p < unat off \<or> unat off + length bs \<le> p \<longrightarrow> disk_byte c' i p = disk_byte c i p) \<and>
    (\<forall>i. dc_files c i \<noteq> None \<longrightarrow> dc_files c' i \<noteq> None) \<and>
    (r = Inr () \<longrightarrow> unat index < length (dc_slots c) \<and> dc_files c' (unat index) \<noteq> None \<and>
       (bs \<noteq> [] \<longrightarrow> unat off + length bs \<le> disk_len c' (unat index)) \<and>
       map (disk_byte c' (unat index)) [unat off..<unat off + length bs] = bs)"
proof -
  obtain r1 c1 where g: "get_or_open E index True c = (r1, c1)" by force
  note O = get_or_open_spec [OF ok g]
  show ?thesis
  proof (cases r1)
    case (Inl e)
    with res g O ok show ?thesis by (auto simp: cache_write_at_def st_bind_eval disk_grows_def)
  next
    case (Inr i)
    with O obtain f where i: "i = unat index" "i < length (dc_slots c)" and f: "dc_files c1 i = Some f" by auto
    obtain w f' where w: "write_at (de_io E) f (unat off) bs = (w, f')" by force
    note W = write_at_frame [OF w]
    have c': "c' = put_file i f' (touch E i c1)" and r: "r = Inr () \<Longrightarrow> w = Inr ()"
      using res g Inr f w by (auto simp: cache_write_at_def st_bind_eval slot_file_def split: sum.splits)
    have ok1: "cache_ok c1" "length (dc_slots c1) = length (dc_slots c)" using O ok by (simp_all add: disk_grows_def)
    have t: "disk_grows c1 (touch E i c1)" using disk_grows_touch [OF ok1(1)] i(2) ok1(2) by simp
    have files: "dc_files (touch E i c1) = dc_files c1" by (simp add: touch_def set_slot_def)
    have "cache_ok c'" using t ok1(1) unfolding c' by (auto simp: disk_grows_def cache_ok_def put_file_def)
    moreover have "length (dc_slots c') = length (dc_slots c)" using ok1(2) by (simp add: c' put_file_def touch_def set_slot_def)
    moreover have "disk_len c j \<le> disk_len c' j" for j
    proof -
      have "disk_len c j \<le> disk_len c1 j" using O by (simp add: disk_grows_def)
      also have "\<dots> \<le> disk_len c' j" using W(1) f files by (auto simp: c' put_file_def disk_len_def)
      finally show ?thesis .
    qed
    moreover have "disk_byte c' j p = disk_byte c j p" if "j \<noteq> unat index \<or> p < unat off \<or> unat off + length bs \<le> p" for j p
    proof -
      have "disk_byte c1 = disk_byte c" using O by (simp add: disk_grows_def fun_eq_iff)
      moreover have "disk_byte c' j p = disk_byte c1 j p"
        using that W(2) [of p] f files i(1) by (auto simp: c' put_file_def disk_byte_def)
      ultimately show ?thesis by simp
    qed
    moreover have "dc_files c j \<noteq> None \<longrightarrow> dc_files c' j \<noteq> None" for j
      using O files by (auto simp: c' put_file_def disk_grows_def)
    moreover have "unat index < length (dc_slots c) \<and> dc_files c' (unat index) \<noteq> None \<and>
       (bs \<noteq> [] \<longrightarrow> unat off + length bs \<le> disk_len c' (unat index)) \<and>
       map (disk_byte c' (unat index)) [unat off..<unat off + length bs] = bs" if "r = Inr ()"
    proof -
      have f': "f' = patch f (unat off) bs" using W(3) r that by simp
      have "dc_files c' i = Some f'" by (simp add: c' put_file_def)
      with f' file_slice_patch_same [of f "unat off" bs] i show ?thesis
        by (auto simp: disk_len_def disk_byte_file file_slice_def patch_def)
    qed
    ultimately show ?thesis by auto
  qed
qed

lemma close_idle_spec:
  shows "length (dc_slots (close_idle busy now c)) = length (dc_slots c)" and "dc_files (close_idle busy now c) = dc_files c"
    and "i < length (dc_slots c) \<Longrightarrow> dc_slots (close_idle busy now c) ! i =
      (let slot = dc_slots c ! i in if idle now slot \<and> i \<notin> busy then slot\<lparr> dfs_open := False \<rparr> else slot)"
    and "disk_grows c (close_idle busy now c)"
proof -
  show len: "length (dc_slots (close_idle busy now c)) = length (dc_slots c)"
    and files: "dc_files (close_idle busy now c) = dc_files c" by (simp_all add: close_idle_def)
  show nth: "dc_slots (close_idle busy now c) ! i =
      (let slot = dc_slots c ! i in if idle now slot \<and> i \<notin> busy then slot\<lparr> dfs_open := False \<rparr> else slot)"
    if "i < length (dc_slots c)" for i
    using that by (simp add: close_idle_def nth_enumerate_eq Let_def)
  show "disk_grows c (close_idle busy now c)"
    using len files nth by (auto simp: disk_grows_def cache_ok_def disk_len_def disk_byte_def Let_def split: if_splits)
qed

text \<open>When the system calls succeed, so do the operations.\<close>

lemma cache_read_at_succeeds:
  assumes os: "de_open E = None" "io_fair (de_io E)" and i: "unat index < length (dc_slots c)" "dc_files c (unat index) \<noteq> None"
    and len: "unat off + n \<le> disk_len c (unat index)"
  shows "\<exists>c'. cache_read_at E index off n c = (Inr (map (disk_byte c (unat index)) [unat off..<unat off + n]), c')"
proof -
  from i(2) obtain f where f: "dc_files c (unat index) = Some f" by auto
  have "\<exists>c1. get_or_open E index False c = (Inr (unat index), c1) \<and> dc_files c1 = dc_files c"
    using os i f by (auto simp: get_or_open_def Let_def open_file_def set_slot_def)
  with len f os show ?thesis
    by (auto simp: cache_read_at_def slot_file_def read_at_fair file_slice_def disk_len_def disk_byte_file)
qed

lemma cache_write_at_succeeds:
  assumes "de_open E = None" "de_prealloc E = None" "de_sync E = None" "io_fair (de_io E)" and "unat index < length (dc_slots c)"
  shows "fst (cache_write_at E index off bs c) = Inr ()"
proof -
  have "\<exists>c1. get_or_open E index True c = (Inr (unat index), c1)"
    using assms by (cases "dc_files c (unat index)")
      (auto simp: get_or_open_def Let_def open_file_def set_slot_def empty_file_def VOLUME_DEFAULT_DATA_FILE_SIZE_def)
  with assms show ?thesis by (auto simp: cache_write_at_def write_at_fair)
qed

end
