(* ===== verification/Volume.thy ===== *)
theory Volume
  imports Volume_Db Data_Files
begin

text \<open>
  A volume (\<^verbatim>\<open>fs0-volume/src/volume.rs\<close>): chunks of compressed bytes laid out one after another in data files of
  4 GiB, their places and hashes in the volume's database, and bundles as numbered lists of chunks. The
  database is behind a lock; \<open>put_chunk\<close> takes it twice, to reserve a region and to record the chunk, and writes
  the bytes in between, so that puts overlap. The clock, the system calls on data files and the outcome of a
  \<open>COMMIT\<close> are arguments.
\<close>

section \<open>State and life cycle\<close>

record volume =
  vo_root :: string
  vo_db :: volume_db
  vo_files :: data_file_cache

type_synonym 'a vol = "(volume, fs0_error, 'a) st"

definition with_vdb :: "'a vdb \<Rightarrow> 'a vol" where
  "with_vdb m = (\<lambda>v. case m (vo_db v) of (r, d) \<Rightarrow> (r, v\<lparr> vo_db := d \<rparr>))"

definition with_files :: "'a disk_op \<Rightarrow> 'a vol" where
  "with_files m = (\<lambda>v. case m (vo_files v) of (r, c) \<Rightarrow> (r, v\<lparr> vo_files := c \<rparr>))"

text \<open>The directory of a volume: the database, when its file exists, and the data files.\<close>

record volume_dir =
  vr_db :: "volume_tables option"
  vr_files :: "nat \<rightharpoonup> data_file"

definition VOLUME_DB_FILE :: string where
  "VOLUME_DB_FILE = ''.fs0.sqlite''"

text \<open>\<open>Path::join\<close> with a relative name.\<close>

definition path_join :: "string \<Rightarrow> string \<Rightarrow> string" where
  "path_join root name = (if root = [] \<or> ends_with ''/'' root then root @ name else root @ ''/'' @ name)"

definition init_fs :: "string \<Rightarrow> string option \<Rightarrow> u64 \<Rightarrow> u64 \<Rightarrow> (volume_dir, fs0_error, unit) st" where
  "init_fs root mkdir_err now max_bytes = (\<lambda>d.
     if max_bytes < VOLUME_DEFAULT_DATA_FILE_SIZE then (Inl (InvalidConfig ''max_bytes must be at least 4GB''), d)
     else case mkdir_err of
       Some msg \<Rightarrow> (Inl (Io msg), d)
     | None \<Rightarrow>
         if vr_db d \<noteq> None then (Inl (AlreadyExists (path_join root VOLUME_DB_FILE)), d)
         else case volume_db_create \<lparr> vm_volume_id = 0, vm_format_version = VOLUME_FORMAT_VERSION, vm_max_bytes = max_bytes,
                vm_active_volume_offset = 0, vm_created_at_ms = now, vm_updated_at_ms = now \<rparr> of
           (r, t) \<Rightarrow> (res_bind r (\<lambda>_. Inr ()), d\<lparr> vr_db := Some t \<rparr>))"

definition init_volume_id :: "string \<Rightarrow> u64 \<Rightarrow> u64 \<Rightarrow> (volume_dir, fs0_error, volume_meta) st" where
  "init_volume_id root now volume_id = (\<lambda>d.
     case vr_db d of
       None \<Rightarrow> (Inl (VolumeNotFound (path_join root VOLUME_DB_FILE)), d)
     | Some t \<Rightarrow>
         (case volume_db_open t of
            Inl e \<Rightarrow> (Inl e, d)
          | Inr db \<Rightarrow> (case assign_volume_id volume_id now db of (r, db') \<Rightarrow> (r, d\<lparr> vr_db := Some (vd_conn db') \<rparr>))))"

definition volume_open :: "string \<Rightarrow> volume_dir \<Rightarrow> volume fs0_result" where
  "volume_open root d =
     (case vr_db d of
        None \<Rightarrow> Inl (VolumeNotFound (path_join root VOLUME_DB_FILE))
      | Some t \<Rightarrow>
          res_bind (volume_db_open t) (\<lambda>db.
          Inr \<lparr> vo_root = root, vo_db = db, vo_files =
            with_capacity (unat (div_ceil (vm_max_bytes (vd_meta db)) VOLUME_DEFAULT_DATA_FILE_SIZE)) (vr_files d) \<rparr>))"

text \<open>What a volume leaves on disk.\<close>

definition volume_on_disk :: "volume \<Rightarrow> volume_dir" where
  "volume_on_disk v = \<lparr> vr_db = Some (vd_conn (vo_db v)), vr_files = dc_files (vo_files v) \<rparr>"

section \<open>Chunks\<close>

definition write_compressed_bytes :: "disk_env \<Rightarrow> u64 \<Rightarrow> u8 list \<Rightarrow> unit vol" where
  "write_compressed_bytes E volume_offset bytes =
     with_files (cache_write_at E (volume_offset div VOLUME_DEFAULT_DATA_FILE_SIZE)
       (volume_offset mod VOLUME_DEFAULT_DATA_FILE_SIZE) bytes)"

definition read_compressed_bytes :: "disk_env \<Rightarrow> u64 \<Rightarrow> u64 \<Rightarrow> u8 list vol" where
  "read_compressed_bytes E volume_offset compressed_len =
     with_files (cache_read_at E (volume_offset div VOLUME_DEFAULT_DATA_FILE_SIZE)
       (volume_offset mod VOLUME_DEFAULT_DATA_FILE_SIZE) (unat compressed_len))"

definition put_chunk_check :: "u64 \<Rightarrow> u8 list \<Rightarrow> unit fs0_result" where
  "put_chunk_check raw_len bytes =
     (let compressed_len = (of_nat (length bytes) :: u64) in
      if raw_len = 0 then Inl (InvalidData ''raw_len must be greater than zero'')
      else if bytes = [] then Inl (InvalidData ''compressed_bytes cannot be empty'')
      else if VOLUME_DEFAULT_DATA_FILE_SIZE < compressed_len
      then Inl (InvalidData (''compressed chunk length '' @ show_u64 compressed_len @ '' exceeds data file size '' @
             show_u64 VOLUME_DEFAULT_DATA_FILE_SIZE))
      else Inr ())"

text \<open>A chunk that does not fit into the rest of its data file starts the next one.\<close>

definition place_chunk :: "u64 \<Rightarrow> u64 \<Rightarrow> u64" where
  "place_chunk active compressed_len =
     (if VOLUME_DEFAULT_DATA_FILE_SIZE < active mod VOLUME_DEFAULT_DATA_FILE_SIZE + compressed_len
      then (active div VOLUME_DEFAULT_DATA_FILE_SIZE + 1) * VOLUME_DEFAULT_DATA_FILE_SIZE
      else active)"

datatype put_plan = Existing chunk_meta | Insert chunk_meta

definition reserve_chunk :: "u64 \<Rightarrow> hash_id \<Rightarrow> hash_id \<Rightarrow> u64 \<Rightarrow> u64 \<Rightarrow> put_plan vdb" where
  "reserve_chunk now chunk_id compressed_hash raw_len compressed_len =
     st_bind (st_gets vd_meta) (\<lambda>meta.
     let volume_offset = place_chunk (vm_active_volume_offset meta) compressed_len in
     st_bind (st_lift (ok_or (IntegerConversion ''volume offset overflow'')
       (checked_add volume_offset compressed_len))) (\<lambda>next_active_offset.
     if vm_max_bytes meta < next_active_offset
     then st_throw (CapacityExceeded next_active_offset (vm_max_bytes meta))
     else
       st_bind (reserve_active_volume_offset next_active_offset now) (\<lambda>_.
       st_return (Insert \<lparr> cm_chunk_id = chunk_id, cm_compressed_hash = compressed_hash,
         cm_volume_offset = volume_offset, cm_raw_len = raw_len, cm_compressed_len = compressed_len \<rparr>))))"

definition plan_chunk :: "u64 \<Rightarrow> hash_id \<Rightarrow> hash_id \<Rightarrow> u64 \<Rightarrow> u64 \<Rightarrow> put_plan vdb" where
  "plan_chunk now chunk_id compressed_hash raw_len compressed_len = (\<lambda>s.
     case load_chunk chunk_id s of
       (Inr existing, s') \<Rightarrow>
         if cm_raw_len existing \<noteq> raw_len \<or> cm_compressed_len existing \<noteq> compressed_len \<or>
            cm_compressed_hash existing \<noteq> compressed_hash
         then (Inl (HashMismatch (cm_volume_offset existing)), s')
         else (Inr (Existing existing), s')
     | (Inl (ChunkNotFound _), s') \<Rightarrow> reserve_chunk now chunk_id compressed_hash raw_len compressed_len s'
     | (Inl e, s') \<Rightarrow> (Inl e, s'))"

text \<open>The first time the lock is held, the write, and the second time the lock is held.\<close>

definition put_begin :: "'h blake3 \<Rightarrow> u64 \<Rightarrow> hash_id \<Rightarrow> u64 \<Rightarrow> u8 list \<Rightarrow> put_plan vol" where
  "put_begin B now chunk_id raw_len bytes =
     st_bind (st_lift (put_chunk_check raw_len bytes)) (\<lambda>_.
     with_vdb (plan_chunk now chunk_id (blake3_hash B bytes) raw_len (of_nat (length bytes))))"

definition put_finish :: "chunk_meta \<Rightarrow> chunk_meta vol" where
  "put_finish chunk = with_vdb (st_bind (insert_chunk chunk) (\<lambda>_. load_chunk (cm_chunk_id chunk)))"

definition put_chunk :: "'h blake3 \<Rightarrow> u64 \<Rightarrow> disk_env \<Rightarrow> hash_id \<Rightarrow> u64 \<Rightarrow> u8 list \<Rightarrow> chunk_meta vol" where
  "put_chunk B now E chunk_id raw_len bytes =
     st_bind (put_begin B now chunk_id raw_len bytes) (\<lambda>plan.
       case plan of
         Existing existing \<Rightarrow> st_return existing
       | Insert chunk \<Rightarrow>
           st_bind (write_compressed_bytes E (cm_volume_offset chunk) bytes) (\<lambda>_. put_finish chunk))"

definition read_chunk :: "disk_env \<Rightarrow> hash_id \<Rightarrow> (chunk_meta \<times> u8 list) vol" where
  "read_chunk E chunk_id =
     st_bind (with_vdb (load_chunk chunk_id)) (\<lambda>chunk.
     st_bind (read_compressed_bytes E (cm_volume_offset chunk) (cm_compressed_len chunk)) (\<lambda>bytes.
     st_return (chunk, bytes)))"

definition vol_chunk_meta :: "hash_id \<Rightarrow> chunk_meta vol" where
  "vol_chunk_meta chunk_id = with_vdb (load_chunk chunk_id)"

definition delete_chunk :: "hash_id \<Rightarrow> unit vol" where
  "delete_chunk chunk_id = with_vdb (db_delete_chunk chunk_id)"

definition close_idle_data_files :: "nat set \<Rightarrow> u64 \<Rightarrow> volume \<Rightarrow> volume" where
  "close_idle_data_files busy now v = v\<lparr> vo_files := close_idle busy now (vo_files v) \<rparr>"

section \<open>Bundles\<close>

definition contiguous :: "bundle_chunk_ref list \<Rightarrow> bool" where
  "contiguous chunks = list_all (\<lambda>(i, chunk). bcr_chunk_index chunk = of_nat i) (enumerate 0 chunks)"

definition commit_bundle_check :: "'h blake3 \<Rightarrow> hash_id \<Rightarrow> bundle_chunk_ref list \<Rightarrow> unit fs0_result" where
  "commit_bundle_check B bundle_id chunks =
     (if chunks = [] then Inl (InvalidData ''bundle must contain at least one chunk'')
      else if \<not> contiguous chunks then Inl (InvalidData ''bundle chunk indexes must be contiguous'')
      else if bundle_hash_from_chunks B chunks \<noteq> bundle_id
      then Inl (InvalidData ''bundle id does not match committed chunk ids'')
      else Inr ())"

definition chunks_known :: "(hash_id, chunk_meta) hmap \<Rightarrow> bundle_chunk_ref list \<Rightarrow> unit fs0_result" where
  "chunks_known metas chunks =
     (case find (\<lambda>chunk. hm_get metas (bcr_chunk_id chunk) = None) chunks of
        None \<Rightarrow> Inr ()
      | Some chunk \<Rightarrow> Inl (ChunkNotFound (bcr_chunk_id chunk)))"

definition commit_bundle :: "'h blake3 \<Rightarrow> fs0_error option \<Rightarrow> hash_id \<Rightarrow> bundle_chunk_ref list \<Rightarrow> bundle_meta vol" where
  "commit_bundle B commit_err bundle_id chunks =
     st_bind (st_lift (commit_bundle_check B bundle_id chunks)) (\<lambda>_.
     with_vdb (\<lambda>s.
       case load_bundle bundle_id s of
         (Inr existing, s') \<Rightarrow> (Inr existing, s')
       | (Inl (BundleNotFound _), s') \<Rightarrow>
           st_bind (load_chunks_by_ids (map bcr_chunk_id chunks)) (\<lambda>metas.
           st_bind (st_lift (chunks_known metas chunks)) (\<lambda>_.
           db_commit_bundle commit_err bundle_id chunks)) s'
       | (Inl e, s') \<Rightarrow> (Inl e, s')))"

definition list_bundle_chunks :: "hash_id \<Rightarrow> bundle_chunk_ref list vol" where
  "list_bundle_chunks bundle_id =
     st_bind (with_vdb (db_list_bundle_chunks bundle_id)) (\<lambda>chunks.
     if chunks = [] then st_throw (BundleNotFound bundle_id) else st_return chunks)"

definition delete_bundle :: "fs0_error option \<Rightarrow> hash_id \<Rightarrow> unit vol" where
  "delete_bundle commit_err bundle_id = with_vdb (db_delete_bundle commit_err bundle_id)"

definition get_bundle_change_records :: "u64 \<Rightarrow> bundle_replica_event list vol" where
  "get_bundle_change_records limit = with_vdb (db_get_bundle_change_records limit)"

definition remove_bundle_change_records :: "u64 \<Rightarrow> unit vol" where
  "remove_bundle_change_records max_event_id = with_vdb (db_remove_bundle_change_records max_event_id)"

end
