(* ===== verification/Volume_Safety.thy ===== *)
theory Volume_Safety
  imports Volume
begin

text \<open>
  Safety of a volume under overlapping puts: the regions handed out never overlap and never cross the end of a
  data file, so that what is recorded for a chunk is what its region holds, whatever puts, deletions, failures of
  the operating system and restarts happen in between.
\<close>

section \<open>Placement\<close>

lemma unat_data_file_size: "unat VOLUME_DEFAULT_DATA_FILE_SIZE = 2 ^ 32"
  by (simp add: VOLUME_DEFAULT_DATA_FILE_SIZE_def)

lemma place_chunk_spec:
  assumes active: "fits_i64 active" and len: "unat len \<le> 2 ^ 32"
  shows "unat active \<le> unat (place_chunk active len)" and "unat (place_chunk active len) mod 2 ^ 32 + unat len \<le> 2 ^ 32"
    and "unat (place_chunk active len) \<le> unat active + 2 ^ 32"
proof -
  let ?S = "VOLUME_DEFAULT_DATA_FILE_SIZE" and ?a = "unat active"
  have a: "?a < 2 ^ 63" using active by (simp add: fits_i64_def)
  have m: "unat (active mod ?S) = ?a mod 2 ^ 32" and d: "unat (active div ?S) = ?a div 2 ^ 32"
    by (simp_all add: unat_mod unat_div unat_data_file_size)
  have rem: "?a mod 2 ^ 32 < 2 ^ 32" by simp
  have "unat (active mod ?S + len) = ?a mod 2 ^ 32 + unat len"
    using m len rem by (subst unat_add_no_overflow) simp_all
  then have over: "?S < active mod ?S + len \<longleftrightarrow> 2 ^ 32 < ?a mod 2 ^ 32 + unat len"
    by (simp add: word_less_nat_alt unat_data_file_size)
  have quot: "?a div 2 ^ 32 < 2 ^ 31" using a by (simp add: div_less_iff_less_mult)
  have next1: "unat (active div ?S + 1) = ?a div 2 ^ 32 + 1"
    using d quot by (subst unat_add_no_overflow) simp_all
  have "unat ((active div ?S + 1) * ?S) = (?a div 2 ^ 32 + 1) * 2 ^ 32"
    using next1 quot by (subst unat_mult_no_overflow) (simp_all add: unat_data_file_size)
  then have p: "unat (place_chunk active len) =
      (if 2 ^ 32 < ?a mod 2 ^ 32 + unat len then (?a div 2 ^ 32 + 1) * 2 ^ 32 else ?a)"
    by (simp add: place_chunk_def over)
  have eq: "?a = ?a div 2 ^ 32 * 2 ^ 32 + ?a mod 2 ^ 32" by simp
  show "unat active \<le> unat (place_chunk active len)" "unat (place_chunk active len) \<le> unat active + 2 ^ 32"
    unfolding p using eq rem by (simp_all add: add_mult_distrib del: mod_mult_div_eq div_mult_mod_eq, linarith+)
  show "unat (place_chunk active len) mod 2 ^ 32 + unat len \<le> 2 ^ 32" unfolding p using len by simp
qed

text \<open>The addresses of a chunk in the volume.\<close>

definition region :: "chunk_meta \<Rightarrow> nat set" where
  "region c = {unat (cm_volume_offset c)..<unat (cm_volume_offset c) + unat (cm_compressed_len c)}"

text \<open>A chunk that lies in one data file, inside what is handed out of the volume.\<close>

definition placed :: "volume_meta \<Rightarrow> chunk_meta \<Rightarrow> bool" where
  "placed m c \<longleftrightarrow> 0 < unat (cm_compressed_len c) \<and>
     unat (cm_volume_offset c) mod 2 ^ 32 + unat (cm_compressed_len c) \<le> 2 ^ 32 \<and>
     unat (cm_volume_offset c) + unat (cm_compressed_len c) \<le> unat (vm_active_volume_offset m)"

lemma reserve_chunk_spec:
  assumes ok: "vdb_ok s" and len: "0 < unat len" "unat len \<le> 2 ^ 32"
    and res: "reserve_chunk now i h raw len s = (r, s')"
  shows "(s' = s \<and> (\<exists>e. r = Inl e)) \<or>
    (\<exists>c. r = Inr (Insert c) \<and> vdb_ok s' \<and> vt_chunks (vd_conn s') = vt_chunks (vd_conn s) \<and>
       vt_bundle_chunks (vd_conn s') = vt_bundle_chunks (vd_conn s) \<and> vm_max_bytes (vd_meta s') = vm_max_bytes (vd_meta s) \<and> vm_volume_id (vd_meta s') = vm_volume_id (vd_meta s) \<and>
       c = \<lparr> cm_chunk_id = i, cm_compressed_hash = h, cm_volume_offset = cm_volume_offset c, cm_raw_len = raw, cm_compressed_len = len \<rparr> \<and>
       placed (vd_meta s') c \<and> unat (vm_active_volume_offset (vd_meta s)) \<le> unat (cm_volume_offset c) \<and>
       unat (vm_active_volume_offset (vd_meta s')) = unat (cm_volume_offset c) + unat len \<and>
       vm_active_volume_offset (vd_meta s') \<le> vm_max_bytes (vd_meta s))"
proof -
  define off where "off = place_chunk (vm_active_volume_offset (vd_meta s)) len"
  have fits: "fits_i64 (vm_active_volume_offset (vd_meta s))" using ok by (simp add: vdb_ok_def meta_ok_def)
  note P = place_chunk_spec [OF fits len(2), folded off_def]
  have "unat off + unat len < 2 ^ 64" using P(3) fits len(2) by (simp add: fits_i64_def)
  then have sum: "checked_add off len = Some (off + len)" "unat (off + len) = unat off + unat len"
    by (simp_all add: checked_add_def unat_add_no_overflow)
  show ?thesis
  proof (cases "vm_max_bytes (vd_meta s) < off + len")
    case True
    with res sum show ?thesis by (auto simp: reserve_chunk_def Let_def off_def)
  next
    case False
    obtain r1 s1 where r1: "reserve_active_volume_offset (off + len) now s = (r1, s1)" by force
    have "max (vm_active_volume_offset (vd_meta s)) (off + len) = off + len"
      using P(1) sum(2) by (simp add: max_def word_le_nat_alt)
    note R = reserve_active_volume_offset_spec [OF ok r1, unfolded this]
    let ?c = "\<lparr> cm_chunk_id = i, cm_compressed_hash = h, cm_volume_offset = off, cm_raw_len = raw, cm_compressed_len = len \<rparr>"
    have "(r, s') = (res_bind r1 (\<lambda>_. Inr (Insert ?c)), s1)"
      using res sum(1) False r1 by (cases r1) (simp_all add: reserve_chunk_def Let_def flip: off_def)
    with R sum(2) False P len show ?thesis
      by (auto simp: placed_def not_less)
  qed
qed

section \<open>Overlapping puts\<close>

text \<open>A put between its two uses of the lock: the chunk it reserved and the bytes it writes.\<close>

record put_in_flight =
  pf_chunk :: chunk_meta
  pf_bytes :: "u8 list"
  pf_written :: bool

type_synonym volume_system = "volume \<times> put_in_flight list"

text \<open>The steps of a volume in use. Vectors have fewer than \<open>2 ^ 63\<close> bytes and a \<open>HashId\<close> has 32. The task of a put may be
  dropped at any of its awaits; its write may still run before that.\<close>

inductive volume_step :: "'h blake3 \<Rightarrow> volume_system \<Rightarrow> volume_system \<Rightarrow> bool" for B where
  put_starts: "put_begin B now i raw bytes v = (Inr (Insert c), v') \<Longrightarrow> hash_ok i \<Longrightarrow> length bytes < 2 ^ 63 \<Longrightarrow>
    volume_step B (v, ps) (v', ps @ [\<lparr> pf_chunk = c, pf_bytes = bytes, pf_written = False \<rparr>])"
| put_answers: "put_begin B now i raw bytes v = (r, v') \<Longrightarrow> \<forall>c. r \<noteq> Inr (Insert c) \<Longrightarrow> length bytes < 2 ^ 63 \<Longrightarrow>
    volume_step B (v, ps) (v', ps)"
| put_writes: "write_compressed_bytes E (cm_volume_offset (pf_chunk p)) (pf_bytes p) v = (Inr (), v') \<Longrightarrow>
    volume_step B (v, ps @ p # qs) (v', ps @ p\<lparr> pf_written := True \<rparr> # qs)"
| put_fails: "write_compressed_bytes E (cm_volume_offset (pf_chunk p)) (pf_bytes p) v = (Inl e, v') \<Longrightarrow>
    volume_step B (v, ps @ p # qs) (v', ps @ qs)"
| put_ends: "put_finish (pf_chunk p) v = (r, v') \<Longrightarrow> pf_written p \<Longrightarrow> volume_step B (v, ps @ p # qs) (v', ps @ qs)"
| put_cut: "volume_step B (v, ps @ p # qs) (v, ps @ qs)"
| reads: "read_chunk E i v = (r, v') \<Longrightarrow> volume_step B (v, ps) (v', ps)"
| deletes_chunk: "delete_chunk i v = (r, v') \<Longrightarrow> volume_step B (v, ps) (v', ps)"
| commits_bundle: "commit_bundle B e b chunks v = (r, v') \<Longrightarrow> volume_step B (v, ps) (v', ps)"
| lists_bundle: "list_bundle_chunks b v = (r, v') \<Longrightarrow> volume_step B (v, ps) (v', ps)"
| deletes_bundle: "delete_bundle e b v = (r, v') \<Longrightarrow> volume_step B (v, ps) (v', ps)"
| gets_changes: "get_bundle_change_records limit v = (r, v') \<Longrightarrow> volume_step B (v, ps) (v', ps)"
| removes_changes: "remove_bundle_change_records n v = (r, v') \<Longrightarrow> volume_step B (v, ps) (v', ps)"
| closes_idle: "volume_step B (v, ps) (close_idle_data_files busy now v, ps)"
| restarts: "volume_open path (volume_on_disk v) = Inr v' \<Longrightarrow> volume_step B (v, ps) (v', [])"

text \<open>From a volume that was just initialised.\<close>

inductive volume_reachable :: "'h blake3 \<Rightarrow> volume_system \<Rightarrow> bool" for B where
  fresh: "init_fs path err now max_bytes \<lparr> vr_db = None, vr_files = Map.empty \<rparr> = (Inr (), d) \<Longrightarrow>
    init_volume_id path now' volume_id d = (Inr m, d') \<Longrightarrow> volume_open path d' = Inr v \<Longrightarrow> volume_reachable B (v, [])"
| steps: "volume_reachable B s \<Longrightarrow> volume_step B s s' \<Longrightarrow> volume_reachable B s'"

section \<open>The invariant\<close>

definition chunk_data :: "data_file_cache \<Rightarrow> chunk_meta \<Rightarrow> u8 list" where
  "chunk_data f c = map (disk_byte f (unat (cm_volume_offset c) div 2 ^ 32))
     [unat (cm_volume_offset c) mod 2 ^ 32..<unat (cm_volume_offset c) mod 2 ^ 32 + unat (cm_compressed_len c)]"

text \<open>The data file of a chunk exists and is long enough.\<close>

definition on_disk :: "data_file_cache \<Rightarrow> chunk_meta \<Rightarrow> bool" where
  "on_disk f c \<longleftrightarrow> dc_files f (unat (cm_volume_offset c) div 2 ^ 32) \<noteq> None \<and>
     unat (cm_volume_offset c) mod 2 ^ 32 + unat (cm_compressed_len c) \<le> disk_len f (unat (cm_volume_offset c) div 2 ^ 32)"

definition regions_apart :: "chunk_meta list \<Rightarrow> bool" where
  "regions_apart cs \<longleftrightarrow> distinct (map cm_volume_offset cs) \<and>
     (\<forall>a\<in>set cs. \<forall>b\<in>set cs. cm_volume_offset a \<noteq> cm_volume_offset b \<longrightarrow> region a \<inter> region b = {})"

text \<open>What a put in flight has of its chunk.\<close>

definition put_ok :: "'h blake3 \<Rightarrow> data_file_cache \<Rightarrow> put_in_flight \<Rightarrow> bool" where
  "put_ok B f p \<longleftrightarrow> hash_ok (cm_chunk_id (pf_chunk p)) \<and> length (pf_bytes p) = unat (cm_compressed_len (pf_chunk p)) \<and>
     blake3_hash B (pf_bytes p) = cm_compressed_hash (pf_chunk p) \<and>
     (pf_written p \<longrightarrow> chunk_data f (pf_chunk p) = pf_bytes p \<and> on_disk f (pf_chunk p))"

definition bundles_ok :: "'h blake3 \<Rightarrow> volume_tables \<Rightarrow> bool" where
  "bundles_ok B t \<longleftrightarrow> (\<forall>b\<in>bc_bundle_id ` set (vt_bundle_chunks t).
     contiguous (links_of b t) \<and> bundle_hash_from_chunks B (links_of b t) = b)"

definition volume_inv :: "'h blake3 \<Rightarrow> volume_system \<Rightarrow> bool" where
  "volume_inv B = (\<lambda>(v, ps).
     let t = vd_conn (vo_db v); m = vd_meta (vo_db v); cs = vt_chunks t @ map pf_chunk ps in
     vdb_ok (vo_db v) \<and> cache_ok (vo_files v) \<and> vm_active_volume_offset m \<le> vm_max_bytes m \<and>
     length (dc_slots (vo_files v)) = unat (div_ceil (vm_max_bytes m) VOLUME_DEFAULT_DATA_FILE_SIZE) \<and>
     regions_apart cs \<and> (\<forall>c\<in>set cs. placed m c) \<and>
     (\<forall>c\<in>set (vt_chunks t). blake3_hash B (chunk_data (vo_files v) c) = cm_compressed_hash c \<and> on_disk (vo_files v) c) \<and>
     (\<forall>p\<in>set ps. put_ok B (vo_files v) p) \<and> bundles_ok B t)"

lemmas volume_inv_unfold = volume_inv_def Let_def prod.case

lemma chunk_data_cong: "disk_byte f' (unat (cm_volume_offset c) div 2 ^ 32) = disk_byte f (unat (cm_volume_offset c) div 2 ^ 32) \<Longrightarrow>
    chunk_data f' c = chunk_data f c"
  by (simp add: chunk_data_def)

lemma volume_inv_db:
  assumes "volume_inv B (v, ps)" and "vdb_keeps (vo_db v) d" and "bundles_ok B (vd_conn d)"
  shows "volume_inv B (v\<lparr> vo_db := d \<rparr>, ps)"
  using assms by (simp add: volume_inv_unfold vdb_keeps_def)

lemma on_disk_mono:
  "on_disk f c \<Longrightarrow> (\<And>i. dc_files f i \<noteq> None \<Longrightarrow> dc_files f' i \<noteq> None) \<Longrightarrow> (\<And>i. disk_len f i \<le> disk_len f' i) \<Longrightarrow> on_disk f' c"
  unfolding on_disk_def by (meson order_trans)

lemma volume_inv_files:
  assumes "volume_inv B (v, ps)" and "disk_grows (vo_files v) f"
  shows "volume_inv B (v\<lparr> vo_files := f \<rparr>, ps)"
proof -
  have "chunk_data f c = chunk_data (vo_files v) c" for c
    using assms(2) by (intro chunk_data_cong) (simp add: disk_grows_def)
  moreover have "on_disk (vo_files v) c \<Longrightarrow> on_disk f c" for c
    by (erule on_disk_mono) (use assms(2) in \<open>auto simp: disk_grows_def\<close>)
  ultimately show ?thesis using assms by (simp add: volume_inv_unfold disk_grows_def put_ok_def)
qed

lemma regions_apart_subset:
  "regions_apart cs \<Longrightarrow> set cs' \<subseteq> set cs \<Longrightarrow> distinct (map cm_volume_offset cs') \<Longrightarrow> regions_apart cs'"
  unfolding regions_apart_def by blast

lemma volume_inv_drop: "volume_inv B (v, ps @ p # qs) \<Longrightarrow> volume_inv B (v, ps @ qs)"
  by (auto simp: volume_inv_unfold intro: regions_apart_subset) (auto simp: regions_apart_def)

lemma with_vdb_eq: "with_vdb m v = (r, v') \<longleftrightarrow> m (vo_db v) = (r, vo_db v') \<and> v' = v\<lparr> vo_db := vo_db v' \<rparr>"
  by (cases "m (vo_db v)"; cases v; cases v') (auto simp: with_vdb_def)

lemma with_files_eq: "with_files m v = (r, v') \<longleftrightarrow> m (vo_files v) = (r, vo_files v') \<and> v' = v\<lparr> vo_files := vo_files v' \<rparr>"
  by (cases "m (vo_files v)"; cases v; cases v') (auto simp: with_files_def)

section \<open>Bundles\<close>

lemma contiguous_iff: "contiguous cs \<longleftrightarrow> (\<forall>i<length cs. bcr_chunk_index (cs ! i) = of_nat i)"
  by (auto simp: contiguous_def list_all_length nth_enumerate_eq)

lemma links_of_other:
  "vt_bundle_chunks t' = filter (\<lambda>r. bc_bundle_id r \<noteq> b) (vt_bundle_chunks t) @ rows \<Longrightarrow> (\<And>r. r \<in> set rows \<Longrightarrow> bc_bundle_id r = b) \<Longrightarrow>
     b' \<noteq> b \<Longrightarrow> links_of b' t' = links_of b' t"
proof -
  assume rows: "vt_bundle_chunks t' = filter (\<lambda>r. bc_bundle_id r \<noteq> b) (vt_bundle_chunks t) @ rows"
    and b: "\<And>r. r \<in> set rows \<Longrightarrow> bc_bundle_id r = b" and "b' \<noteq> b"
  then have "filter (\<lambda>r. bc_bundle_id r = b') (vt_bundle_chunks t') = filter (\<lambda>r. bc_bundle_id r = b') (vt_bundle_chunks t)"
    by (auto simp: filter_empty_conv intro!: filter_cong)
  then show ?thesis by (simp add: links_of_def)
qed

lemma links_of_committed:
  assumes rows: "vt_bundle_chunks t = filter (\<lambda>r. bc_bundle_id r \<noteq> b) rs @ map (chunk_link b) cs"
    and cs: "contiguous cs" "length cs < 2 ^ 63"
  shows "links_of b t = cs"
proof -
  have own: "filter (\<lambda>r. bc_bundle_id r = b) (vt_bundle_chunks t) = map (chunk_link b) cs"
    by (simp add: rows filter_map comp_def chunk_link_def)
  have "sorted (map bc_chunk_index (map (chunk_link b) cs))"
  proof (rule sorted_iff_nth_mono [THEN iffD2], intro allI impI)
    fix i j assume "i \<le> j" "j < length (map bc_chunk_index (map (chunk_link b) cs))"
    with cs show "map bc_chunk_index (map (chunk_link b) cs) ! i \<le> map bc_chunk_index (map (chunk_link b) cs) ! j"
      by (simp add: chunk_link_def contiguous_iff word_le_nat_alt unat_of_nat take_bit_eq_mod)
  qed
  then have "sort_key bc_chunk_index (map (chunk_link b) cs) = map (chunk_link b) cs" by (rule sort_key_id_if_sorted)
  then show ?thesis by (simp add: links_of_def own chunk_link_def comp_def map_idI)
qed

lemma commit_bundle_check_ok:
  "commit_bundle_check B b cs = Inr () \<longleftrightarrow> cs \<noteq> [] \<and> contiguous cs \<and> bundle_hash_from_chunks B cs = b"
  by (auto simp: commit_bundle_check_def)

text \<open>A committed bundle is the list of its chunks, other bundles stay, and a failure changes no bundle.\<close>

lemma commit_bundle_spec:
  assumes ok: "vdb_ok (vo_db v)" and res: "commit_bundle B e b cs v = (r, v')"
  shows "v' = v\<lparr> vo_db := vo_db v' \<rparr> \<and> vo_files v' = vo_files v \<and> vdb_keeps (vo_db v) (vo_db v') \<and>
    (vd_conn (vo_db v') = vd_conn (vo_db v) \<or>
     (contiguous cs \<and> bundle_hash_from_chunks B cs = b \<and> length cs < 2 ^ 63 \<and>
      vt_bundle_chunks (vd_conn (vo_db v')) =
        filter (\<lambda>r. bc_bundle_id r \<noteq> b) (vt_bundle_chunks (vd_conn (vo_db v))) @ map (chunk_link b) cs))"
proof (cases "commit_bundle_check B b cs")
  case (Inl err)
  with res show ?thesis by (auto simp: commit_bundle_def vkeep.step_refl)
next
  case (Inr u)
  obtain r1 s1 where lb: "load_bundle b (vo_db v) = (r1, s1)" by force
  then have s1: "s1 = vo_db v" using load_bundle_state [of b "vo_db v"] by simp
  let ?ins = "st_bind (load_chunks_by_ids (map bcr_chunk_id cs)) (\<lambda>metas.
           st_bind (st_lift (chunks_known metas cs)) (\<lambda>_. db_commit_bundle e b cs))"
  have v': "v' = v\<lparr> vo_db := vo_db v' \<rparr>" and db: "vo_db v' = vo_db v \<or> ?ins (vo_db v) = (r, vo_db v')"
    using res Inr lb s1 by (auto simp: commit_bundle_def with_vdb_eq split: sum.splits fs0_error.splits)
  show ?thesis
  proof (cases "vo_db v' = vo_db v")
    case True
    with v' show ?thesis by (simp add: vkeep.step_refl)
  next
    case False
    with db have ins: "?ins (vo_db v) = (r, vo_db v')" by simp
    obtain lr ls where lc: "load_chunks_by_ids (map bcr_chunk_id cs) (vo_db v) = (lr, ls)" by force
    have ls: "ls = vo_db v" using arg_cong [OF lc, of snd] by (simp add: load_chunks_by_ids_def split: if_splits)
    from ins lc ls False obtain metas where lr: "lr = Inr metas" by (cases lr) auto
    have len: "length cs \<le> 32766" using load_chunks_by_ids_spec [OF ok lc [unfolded lr]] by simp
    from ins lc ls lr False have commit: "db_commit_bundle e b cs (vo_db v) = (r, vo_db v')"
      by (cases "chunks_known metas cs") auto
    have "vt_bundle_chunks (vd_conn (vo_db v')) =
        filter (\<lambda>r. bc_bundle_id r \<noteq> b) (vt_bundle_chunks (vd_conn (vo_db v))) @ map (chunk_link b) cs"
      using db_commit_bundle_rows [OF commit] False by blast
    moreover have "vdb_keeps (vo_db v) (vo_db v')" using vkeep_db_commit_bundle commit by (rule st_relD)
    moreover have "vo_files v' = vo_files v" by (subst v') simp
    ultimately show ?thesis using Inr len v' by (simp add: commit_bundle_check_ok)
  qed
qed

lemma bundles_ok_commit:
  assumes "bundles_ok B t" and "contiguous cs" "bundle_hash_from_chunks B cs = b" "length cs < 2 ^ 63"
    and rows: "vt_bundle_chunks t' = filter (\<lambda>r. bc_bundle_id r \<noteq> b) (vt_bundle_chunks t) @ map (chunk_link b) cs"
  shows "bundles_ok B t'"
  unfolding bundles_ok_def
proof
  fix b' assume "b' \<in> bc_bundle_id ` set (vt_bundle_chunks t')"
  then have "b' = b \<or> b' \<in> bc_bundle_id ` set (vt_bundle_chunks t)" by (auto simp: rows chunk_link_def)
  moreover have "b' \<noteq> b \<Longrightarrow> links_of b' t' = links_of b' t" by (rule links_of_other [OF rows]) (auto simp: chunk_link_def)
  moreover have "links_of b t' = cs" using rows assms(2,4) by (rule links_of_committed)
  ultimately show "contiguous (links_of b' t') \<and> bundle_hash_from_chunks B (links_of b' t') = b'"
    using assms by (cases "b' = b") (auto simp: bundles_ok_def)
qed

lemma bundles_ok_delete:
  assumes "bundles_ok B t" and rows: "vt_bundle_chunks t' = filter (\<lambda>r. bc_bundle_id r \<noteq> b) (vt_bundle_chunks t)"
  shows "bundles_ok B t'"
proof -
  have "links_of b' t' = links_of b' t" if "b' \<noteq> b" for b'
    using that by (intro links_of_other [where rows = "[]"]) (simp_all add: rows)
  with assms show ?thesis by (auto simp: bundles_ok_def)
qed

lemma bundles_ok_cong: "vt_bundle_chunks t' = vt_bundle_chunks t \<Longrightarrow> bundles_ok B t' = bundles_ok B t"
  by (simp add: bundles_ok_def links_of_def)

section \<open>The steps keep the invariant\<close>

lemma unat_place: "unat (off div VOLUME_DEFAULT_DATA_FILE_SIZE) = unat off div 2 ^ 32" "unat (off mod VOLUME_DEFAULT_DATA_FILE_SIZE) = unat off mod 2 ^ 32"
  by (simp_all add: unat_mod unat_div unat_data_file_size)

lemma chunk_data_frame:
  assumes frame: "\<And>i q. i \<noteq> n div 2 ^ 32 \<or> q < n mod 2 ^ 32 \<or> n mod 2 ^ 32 + len \<le> q \<Longrightarrow> disk_byte f' i q = disk_byte f i q"
    and apart: "region c \<inter> {n..<n + len} = {}"
  shows "chunk_data f' c = chunk_data f c"
  unfolding chunk_data_def
proof (rule map_cong [OF refl])
  let ?o = "unat (cm_volume_offset c)"
  fix q assume "q \<in> set [?o mod 2 ^ 32..<?o mod 2 ^ 32 + unat (cm_compressed_len c)]"
  then have q: "?o mod 2 ^ 32 \<le> q" "q < ?o mod 2 ^ 32 + unat (cm_compressed_len c)" by simp_all
  show "disk_byte f' (?o div 2 ^ 32) q = disk_byte f (?o div 2 ^ 32) q"
  proof (rule frame, rule ccontr)
    assume "\<not> (?o div 2 ^ 32 \<noteq> n div 2 ^ 32 \<or> q < n mod 2 ^ 32 \<or> n mod 2 ^ 32 + len \<le> q)"
    then have same: "?o div 2 ^ 32 = n div 2 ^ 32" and n: "n mod 2 ^ 32 \<le> q" "q < n mod 2 ^ 32 + len" by auto
    define d where "d = n div 2 ^ 32 * 2 ^ 32"
    have "?o = d + ?o mod 2 ^ 32" unfolding d_def same [symmetric] by (rule div_mult_mod_eq [symmetric])
    moreover have "n = d + n mod 2 ^ 32" unfolding d_def by (rule div_mult_mod_eq [symmetric])
    ultimately have "?o \<le> d + q" "d + q < ?o + unat (cm_compressed_len c)" "n \<le> d + q" "d + q < n + len"
      using q n by linarith+
    then have "d + q \<in> region c \<inter> {n..<n + len}" by (simp add: region_def)
    with apart show False by blast
  qed
qed

lemma write_chunk_frame:
  assumes inv: "volume_inv B (v, ps @ p # qs)"
    and res: "write_compressed_bytes E (cm_volume_offset (pf_chunk p)) (pf_bytes p) v = (r, v')"
  shows "vo_db v' = vo_db v" and "cache_ok (vo_files v')" and "length (dc_slots (vo_files v')) = length (dc_slots (vo_files v))"
    and "on_disk (vo_files v) c \<Longrightarrow> on_disk (vo_files v') c"
    and "c \<in> set (vt_chunks (vd_conn (vo_db v)) @ map pf_chunk (ps @ qs)) \<Longrightarrow> chunk_data (vo_files v') c = chunk_data (vo_files v) c"
    and "r = Inr () \<Longrightarrow> chunk_data (vo_files v') (pf_chunk p) = pf_bytes p \<and> on_disk (vo_files v') (pf_chunk p)"
proof -
  let ?c = "pf_chunk p" and ?f = "vo_files v" and ?f' = "vo_files v'" and ?t = "vd_conn (vo_db v)"
  let ?n = "unat (cm_volume_offset ?c)"
  have w: "cache_write_at E (cm_volume_offset ?c div VOLUME_DEFAULT_DATA_FILE_SIZE)
      (cm_volume_offset ?c mod VOLUME_DEFAULT_DATA_FILE_SIZE) (pf_bytes p) ?f = (r, ?f')" and v': "v' = v\<lparr> vo_files := ?f' \<rparr>"
    using res by (simp_all add: write_compressed_bytes_def with_files_eq)
  have ok: "cache_ok ?f" using inv by (simp add: volume_inv_unfold)
  note W = cache_write_at_spec [OF ok w, unfolded unat_place]
  show "vo_db v' = vo_db v" by (subst v') simp
  show "cache_ok ?f'" "length (dc_slots ?f') = length (dc_slots ?f)" using W by blast+
  show "on_disk ?f c \<Longrightarrow> on_disk ?f' c" by (erule on_disk_mono) (use W in auto)
  let ?cs = "vt_chunks ?t @ map pf_chunk (ps @ p # qs)"
  have apart: "regions_apart ?cs" and len: "length (pf_bytes p) = unat (cm_compressed_len ?c)" and pos: "0 < unat (cm_compressed_len ?c)"
    using inv by (simp_all add: volume_inv_unfold put_ok_def placed_def)
  show "chunk_data ?f' c = chunk_data ?f c" if "c \<in> set (vt_chunks ?t @ map pf_chunk (ps @ qs))"
  proof (rule chunk_data_frame [where n = ?n and len = "length (pf_bytes p)"])
    have "cm_volume_offset ?c \<notin> cm_volume_offset ` set (vt_chunks ?t @ map pf_chunk (ps @ qs))"
      using apart by (auto simp: regions_apart_def image_Un image_comp)
    then have "cm_volume_offset c \<noteq> cm_volume_offset ?c" using that by (metis imageI)
    moreover have "c \<in> set ?cs" "?c \<in> set ?cs" using that by auto
    ultimately have "region c \<inter> region ?c = {}" using apart unfolding regions_apart_def by blast
    then show "region c \<inter> {?n..<?n + length (pf_bytes p)} = {}" by (simp add: region_def len)
  qed (use W in blast)
  assume "r = Inr ()"
  with W pos show "chunk_data ?f' ?c = pf_bytes p \<and> on_disk ?f' ?c" by (auto simp: chunk_data_def on_disk_def len)
qed

lemma write_chunk_spec:
  assumes inv: "volume_inv B (v, ps @ p # qs)"
    and res: "write_compressed_bytes E (cm_volume_offset (pf_chunk p)) (pf_bytes p) v = (r, v')"
  shows "volume_inv B (v', ps @ qs)" and "r = Inr () \<Longrightarrow> volume_inv B (v', ps @ p\<lparr> pf_written := True \<rparr> # qs)"
proof -
  note F = write_chunk_frame [OF inv res]
  have *: "volume_inv B (v', ps @ qs)"
    using volume_inv_drop [OF inv] F(1-5) by (auto simp: volume_inv_unfold put_ok_def)
  then show "volume_inv B (v', ps @ qs)" .
  assume "r = Inr ()"
  then have "put_ok B (vo_files v') (p\<lparr> pf_written := True \<rparr>)" using F(6) inv by (simp add: put_ok_def volume_inv_unfold)
  with * inv show "volume_inv B (v', ps @ p\<lparr> pf_written := True \<rparr> # qs)"
    by (simp add: volume_inv_unfold F(1))
qed

lemma put_chunk_check_ok:
  assumes "put_chunk_check raw bytes = Inr ()" and "length bytes < 2 ^ 63"
  shows "unat (of_nat (length bytes) :: u64) = length bytes" "0 < length bytes" "length bytes \<le> 2 ^ 32" "raw \<noteq> 0"
proof -
  show len: "unat (of_nat (length bytes) :: u64) = length bytes" using assms(2) by (simp add: unat_of_nat take_bit_eq_mod)
  with assms(1) show "0 < length bytes" "length bytes \<le> 2 ^ 32" "raw \<noteq> 0"
    by (auto simp: put_chunk_check_def Let_def word_less_nat_alt unat_data_file_size split: if_splits)
qed

text \<open>The first part of a put: nothing changes, or a new region after all others is handed out.\<close>

lemma put_begin_spec:
  assumes ok: "vdb_ok (vo_db v)" and len: "length bytes < 2 ^ 63" and res: "put_begin B now i raw bytes v = (r, v')"
  shows "(v' = v \<and> (\<forall>c. r \<noteq> Inr (Insert c))) \<or>
    (\<exists>c. r = Inr (Insert c) \<and> v' = v\<lparr> vo_db := vo_db v' \<rparr> \<and> vdb_ok (vo_db v') \<and> chunk_row (vd_conn (vo_db v)) i = None \<and>
       vt_chunks (vd_conn (vo_db v')) = vt_chunks (vd_conn (vo_db v)) \<and>
       vt_bundle_chunks (vd_conn (vo_db v')) = vt_bundle_chunks (vd_conn (vo_db v)) \<and>
       vm_max_bytes (vd_meta (vo_db v')) = vm_max_bytes (vd_meta (vo_db v)) \<and>
       vm_volume_id (vd_meta (vo_db v')) = vm_volume_id (vd_meta (vo_db v)) \<and>
       cm_chunk_id c = i \<and> cm_compressed_hash c = blake3_hash B bytes \<and> cm_raw_len c = raw \<and>
       unat (cm_compressed_len c) = length bytes \<and> placed (vd_meta (vo_db v')) c \<and>
       unat (vm_active_volume_offset (vd_meta (vo_db v))) \<le> unat (cm_volume_offset c) \<and>
       vm_active_volume_offset (vd_meta (vo_db v)) \<le> vm_active_volume_offset (vd_meta (vo_db v')) \<and>
       vm_active_volume_offset (vd_meta (vo_db v')) \<le> vm_max_bytes (vd_meta (vo_db v')))"
proof (cases "put_chunk_check raw bytes")
  case (Inl e)
  with res show ?thesis by (auto simp: put_begin_def)
next
  case (Inr u)
  note C = put_chunk_check_ok [OF Inr [simplified] len]
  let ?len = "of_nat (length bytes) :: u64" and ?h = "blake3_hash B bytes"
  have plan: "plan_chunk now i ?h raw ?len (vo_db v) = (r, vo_db v')" and v': "v' = v\<lparr> vo_db := vo_db v' \<rparr>"
    using res Inr by (simp_all add: put_begin_def with_vdb_eq)
  show ?thesis
  proof (cases "chunk_row (vd_conn (vo_db v)) i")
    case (Some c)
    then have "vo_db v' = vo_db v" and "\<forall>c. r \<noteq> Inr (Insert c)"
      using plan by (auto simp: plan_chunk_def load_chunk_spec [OF ok] split: if_splits)
    with v' show ?thesis by simp
  next
    case None
    then have "reserve_chunk now i ?h raw ?len (vo_db v) = (r, vo_db v')"
      using plan by (simp add: plan_chunk_def load_chunk_spec [OF ok])
    from reserve_chunk_spec [OF ok _ _ this] C have R: "(vo_db v' = vo_db v \<and> (\<exists>e. r = Inl e)) \<or>
      (\<exists>c. r = Inr (Insert c) \<and> vdb_ok (vo_db v') \<and> vt_chunks (vd_conn (vo_db v')) = vt_chunks (vd_conn (vo_db v)) \<and>
       vt_bundle_chunks (vd_conn (vo_db v')) = vt_bundle_chunks (vd_conn (vo_db v)) \<and> vm_max_bytes (vd_meta (vo_db v')) = vm_max_bytes (vd_meta (vo_db v)) \<and>
       vm_volume_id (vd_meta (vo_db v')) = vm_volume_id (vd_meta (vo_db v)) \<and>
       c = \<lparr> cm_chunk_id = i, cm_compressed_hash = ?h, cm_volume_offset = cm_volume_offset c, cm_raw_len = raw, cm_compressed_len = ?len \<rparr> \<and>
       placed (vd_meta (vo_db v')) c \<and> unat (vm_active_volume_offset (vd_meta (vo_db v))) \<le> unat (cm_volume_offset c) \<and>
       unat (vm_active_volume_offset (vd_meta (vo_db v'))) = unat (cm_volume_offset c) + unat ?len \<and>
       vm_active_volume_offset (vd_meta (vo_db v')) \<le> vm_max_bytes (vd_meta (vo_db v)))"
      by simp
    then show ?thesis
    proof (elim disjE exE conjE)
      assume "vo_db v' = vo_db v"
      with v' show ?thesis if "r = Inl e" for e using that by simp
    next
      fix c
      assume c: "c = \<lparr> cm_chunk_id = i, cm_compressed_hash = ?h, cm_volume_offset = cm_volume_offset c, cm_raw_len = raw, cm_compressed_len = ?len \<rparr>"
        and rest: "r = Inr (Insert c)" "vdb_ok (vo_db v')" "vt_chunks (vd_conn (vo_db v')) = vt_chunks (vd_conn (vo_db v))"
          "vt_bundle_chunks (vd_conn (vo_db v')) = vt_bundle_chunks (vd_conn (vo_db v))"
          "vm_max_bytes (vd_meta (vo_db v')) = vm_max_bytes (vd_meta (vo_db v))"
          "vm_volume_id (vd_meta (vo_db v')) = vm_volume_id (vd_meta (vo_db v))" "placed (vd_meta (vo_db v')) c"
          "unat (vm_active_volume_offset (vd_meta (vo_db v))) \<le> unat (cm_volume_offset c)"
          "unat (vm_active_volume_offset (vd_meta (vo_db v'))) = unat (cm_volume_offset c) + unat ?len"
          "vm_active_volume_offset (vd_meta (vo_db v')) \<le> vm_max_bytes (vd_meta (vo_db v))"
      have fields: "cm_chunk_id c = i" "cm_compressed_hash c = ?h" "cm_raw_len c = raw" "cm_compressed_len c = ?len"
        by (subst c, simp)+
      show ?thesis using None v' rest fields C(1) by (simp add: word_le_nat_alt)
    qed
  qed
qed

lemma regions_apart_new:
  assumes "regions_apart cs" and "\<forall>a\<in>set cs. placed m a" and "unat (vm_active_volume_offset m) \<le> unat (cm_volume_offset c)"
  shows "regions_apart (cs @ [c])"
proof -
  have before: "unat (cm_volume_offset a) + unat (cm_compressed_len a) \<le> unat (cm_volume_offset c)"
    "0 < unat (cm_compressed_len a)" if "a \<in> set cs" for a
    using that assms(2,3) by (auto simp: placed_def)
  then have "cm_volume_offset c \<notin> cm_volume_offset ` set cs" by fastforce
  moreover have "region a \<inter> region c = {}" if "a \<in> set cs" for a
    using before [OF that] by (auto simp: region_def)
  ultimately show ?thesis using assms(1) unfolding regions_apart_def by auto
qed

lemma placed_mono: "placed m c \<Longrightarrow> vm_active_volume_offset m \<le> vm_active_volume_offset m' \<Longrightarrow> placed m' c"
  by (simp add: placed_def word_le_nat_alt)

lemma volume_inv_put_starts:
  assumes inv: "volume_inv B (v, ps)" and res: "put_begin B now i raw bytes v = (Inr (Insert c), v')"
    and args: "hash_ok i" "length bytes < 2 ^ 63"
  shows "volume_inv B (v', ps @ [\<lparr> pf_chunk = c, pf_bytes = bytes, pf_written = False \<rparr>])"
proof -
  have ok: "vdb_ok (vo_db v)" using inv by (simp add: volume_inv_unfold)
  let ?m = "vd_meta (vo_db v)" and ?m' = "vd_meta (vo_db v')"
  from put_begin_spec [OF ok args(2) res] have P: "v' = v\<lparr> vo_db := vo_db v' \<rparr>" "vdb_ok (vo_db v')"
      "vt_chunks (vd_conn (vo_db v')) = vt_chunks (vd_conn (vo_db v))"
      "vt_bundle_chunks (vd_conn (vo_db v')) = vt_bundle_chunks (vd_conn (vo_db v))" "vm_max_bytes ?m' = vm_max_bytes ?m"
      "cm_chunk_id c = i" "cm_compressed_hash c = blake3_hash B bytes" "unat (cm_compressed_len c) = length bytes"
      "placed ?m' c" "unat (vm_active_volume_offset ?m) \<le> unat (cm_volume_offset c)"
      "vm_active_volume_offset ?m \<le> vm_active_volume_offset ?m'" "vm_active_volume_offset ?m' \<le> vm_max_bytes ?m'"
    by auto
  have files: "vo_files v' = vo_files v" by (subst P(1)) simp
  let ?cs = "vt_chunks (vd_conn (vo_db v)) @ map pf_chunk ps"
  have "regions_apart (?cs @ [c])" using inv P(10) by (intro regions_apart_new) (simp_all add: volume_inv_unfold)
  moreover have "\<forall>a\<in>set ?cs. placed ?m' a"
    using inv P(11) by (auto simp: volume_inv_unfold intro: placed_mono)
  moreover have "put_ok B (vo_files v) \<lparr> pf_chunk = c, pf_bytes = bytes, pf_written = False \<rparr>"
    using P args by (simp add: put_ok_def)
  moreover have "bundles_ok B (vd_conn (vo_db v'))" using inv bundles_ok_cong [OF P(4), of B] by (simp add: volume_inv_unfold)
  ultimately show ?thesis using inv P(2,3,5,9,12) by (simp add: volume_inv_unfold files)
qed

lemma insert_chunk_unfit: "\<not> fits_i64 (cm_raw_len c) \<Longrightarrow> insert_chunk c s = (r, s') \<Longrightarrow> s' = s \<and> (\<exists>e. r = Inl e)"
  by (cases "u64_to_i64 (cm_volume_offset c) ''volume offset''"; cases "u64_to_i64 (cm_raw_len c) ''raw len''")
    (auto simp: insert_chunk_def u64_to_i64_Inr_iff)

lemma blake3_hash_ok: "blake3_ok B \<Longrightarrow> hash_ok (blake3_hash B bs)"
  by (simp add: blake3_ok_def blake3_hash_def hash_ok_def)

lemma put_chunk_ok:
  assumes "volume_inv B (v, ps)" and "p \<in> set ps" and "blake3_ok B" and "fits_i64 (cm_raw_len (pf_chunk p))"
  shows "chunk_ok (pf_chunk p)"
proof -
  have p: "put_ok B (vo_files v) p" "placed (vd_meta (vo_db v)) (pf_chunk p)" "fits_i64 (vm_active_volume_offset (vd_meta (vo_db v)))"
    using assms(1,2) by (auto simp: volume_inv_unfold vdb_ok_def meta_ok_def)
  then have "hash_ok (cm_compressed_hash (pf_chunk p))"
    using blake3_hash_ok [OF assms(3), of "pf_bytes p"] by (simp add: put_ok_def)
  with p assms(4) show ?thesis by (auto simp: chunk_ok_def put_ok_def placed_def fits_i64_def)
qed

lemma volume_inv_put_ends:
  assumes inv: "volume_inv B (v, ps @ p # qs)" and B: "blake3_ok B" and written: "pf_written p"
    and res: "put_finish (pf_chunk p) v = (r, v')"
  shows "volume_inv B (v', ps @ qs)"
proof -
  let ?c = "pf_chunk p"
  have ok: "vdb_ok (vo_db v)" using inv by (simp add: volume_inv_unfold)
  obtain r1 s1 where ins: "insert_chunk ?c (vo_db v) = (r1, s1)" by force
  have v': "v' = v\<lparr> vo_db := vo_db v' \<rparr>" and fin: "st_bind (insert_chunk ?c) (\<lambda>_. load_chunk (cm_chunk_id ?c)) (vo_db v) = (r, vo_db v')"
    using res by (simp_all add: put_finish_def with_vdb_eq)
  have files: "vo_files v' = vo_files v" by (subst v') simp
  have db: "vo_db v' = s1"
    using fin ins by (cases r1) (auto simp: load_chunk_def)
  show ?thesis
  proof (cases "fits_i64 (cm_raw_len ?c) \<and> chunk_row (vd_conn (vo_db v)) (cm_chunk_id ?c) = None")
    case False
    have "s1 = vo_db v \<or> (vdb_ok s1 \<and> vd_meta s1 = vd_meta (vo_db v) \<and> vt_bundle_chunks (vd_conn s1) = vt_bundle_chunks (vd_conn (vo_db v)) \<and>
        vt_chunks (vd_conn s1) = vt_chunks (vd_conn (vo_db v)))"
    proof (cases "fits_i64 (cm_raw_len ?c)")
      case True
      with False insert_chunk_spec [OF ok put_chunk_ok [OF inv _ B] ins] show ?thesis by (simp split: if_splits)
    qed (use insert_chunk_unfit [OF _ ins] in blast)
    then have "vdb_keeps (vo_db v) s1" "vt_bundle_chunks (vd_conn s1) = vt_bundle_chunks (vd_conn (vo_db v))"
      by (auto simp: vdb_keeps_def)
    moreover have "bundles_ok B (vd_conn (vo_db v))" using inv by (simp add: volume_inv_unfold)
    ultimately have "volume_inv B (v\<lparr> vo_db := s1 \<rparr>, ps @ qs)"
      using bundles_ok_cong by (intro volume_inv_db [OF volume_inv_drop [OF inv]]) blast+
    then show ?thesis using v' unfolding db by simp
  next
    case True
    note I = insert_chunk_spec [OF ok put_chunk_ok [OF inv _ B] ins]
    have rows: "vt_chunks (vd_conn s1) = vt_chunks (vd_conn (vo_db v)) @ [?c]" "vdb_ok s1" "vd_meta s1 = vd_meta (vo_db v)"
      "vt_bundle_chunks (vd_conn s1) = vt_bundle_chunks (vd_conn (vo_db v))"
      using I True by simp_all
    have apart: "regions_apart (vt_chunks (vd_conn (vo_db v)) @ map pf_chunk (ps @ p # qs))" using inv by (simp add: volume_inv_unfold)
    then have "distinct (map cm_volume_offset (vt_chunks (vd_conn s1) @ map pf_chunk (ps @ qs)))"
      unfolding rows(1) by (auto simp: regions_apart_def)
    then have "regions_apart (vt_chunks (vd_conn s1) @ map pf_chunk (ps @ qs))"
      by (intro regions_apart_subset [OF apart]) (auto simp: rows(1))
    moreover have "blake3_hash B (chunk_data (vo_files v) ?c) = cm_compressed_hash ?c \<and> on_disk (vo_files v) ?c"
      using inv written by (auto simp: volume_inv_unfold put_ok_def)
    ultimately show ?thesis
      using inv rows by (auto simp: volume_inv_unfold db files bundles_ok_cong [OF rows(4)])
  qed
qed

lemma volume_inv_deletes_chunk:
  assumes inv: "volume_inv B (v, ps)" and res: "delete_chunk i v = (r, v')"
  shows "volume_inv B (v', ps)"
proof -
  have ok: "vdb_ok (vo_db v)" using inv by (simp add: volume_inv_unfold)
  have del: "db_delete_chunk i (vo_db v) = (r, vo_db v')" and v': "v' = v\<lparr> vo_db := vo_db v' \<rparr>"
    using res by (simp_all add: delete_chunk_def with_vdb_eq)
  have files: "vo_files v' = vo_files v" by (subst v') simp
  let ?t = "vd_conn (vo_db v)" and ?t' = "vd_conn (vo_db v')"
  note D = db_delete_chunk_spec [OF ok del]
  have apart: "regions_apart (vt_chunks ?t @ map pf_chunk ps)" using inv by (simp add: volume_inv_unfold)
  then have "distinct (map cm_volume_offset (vt_chunks ?t @ map pf_chunk ps))" by (simp add: regions_apart_def)
  then have rows: "set (vt_chunks ?t') \<subseteq> set (vt_chunks ?t)" "distinct (map cm_volume_offset (vt_chunks ?t' @ map pf_chunk ps))"
    using D by (auto simp: distinct_map_filter split: if_splits)
  then have "regions_apart (vt_chunks ?t' @ map pf_chunk ps)"
    by (intro regions_apart_subset [OF apart]) auto
  moreover have "vdb_ok (vo_db v')" "vd_meta (vo_db v') = vd_meta (vo_db v)" "vt_bundle_chunks ?t' = vt_bundle_chunks ?t"
    using D by blast+
  ultimately show ?thesis using inv rows(1) bundles_ok_cong [of ?t' ?t B]
    by (simp add: volume_inv_unfold files ball_Un subset_iff)
qed

lemma volume_inv_restarts:
  assumes inv: "volume_inv B (v, ps)" and res: "volume_open path (volume_on_disk v) = Inr v'"
  shows "volume_inv B (v', [])" and "vo_db v' = vo_db v" and "dc_files (vo_files v') = dc_files (vo_files v)"
proof -
  have ok: "vdb_ok (vo_db v)" using inv by (simp add: volume_inv_unfold)
  let ?f = "with_capacity (unat (div_ceil (vm_max_bytes (vd_meta (vo_db v))) VOLUME_DEFAULT_DATA_FILE_SIZE)) (dc_files (vo_files v))"
  have v': "v' = \<lparr> vo_root = path, vo_db = vo_db v, vo_files = ?f \<rparr>"
    using res by (simp add: volume_open_def volume_on_disk_def volume_db_reopen [OF ok])
  then show "vo_db v' = vo_db v" "dc_files (vo_files v') = dc_files (vo_files v)" by (simp_all add: with_capacity_def)
  have "chunk_data ?f c = chunk_data (vo_files v) c" for c
    by (intro chunk_data_cong) (simp add: disk_byte_def with_capacity_def fun_eq_iff)
  moreover have "on_disk ?f c = on_disk (vo_files v) c" for c
    by (simp add: on_disk_def disk_len_def with_capacity_def)
  moreover have "length (dc_slots ?f) = unat (div_ceil (vm_max_bytes (vd_meta (vo_db v))) VOLUME_DEFAULT_DATA_FILE_SIZE)"
    by (simp add: with_capacity_def)
  ultimately show "volume_inv B (v', [])"
    using inv cache_ok_with_capacity by (auto simp: volume_inv_unfold v' regions_apart_def)
qed

lemma volume_inv_query:
  assumes inv: "volume_inv B (v, ps)" and m: "st_rel vdb_keeps m" and res: "m (vo_db v) = (r, vo_db v')"
    and v': "v' = v\<lparr> vo_db := vo_db v' \<rparr>" and rows: "vt_bundle_chunks (vd_conn (vo_db v')) = vt_bundle_chunks (vd_conn (vo_db v))"
  shows "volume_inv B (v', ps)"
proof -
  have "bundles_ok B (vd_conn (vo_db v'))" using inv bundles_ok_cong [OF rows, of B] by (simp add: volume_inv_unfold)
  with volume_inv_db [OF inv st_relD [OF m res]] v' show ?thesis by simp
qed

lemma list_bundle_chunks_spec:
  "vdb_ok (vo_db v) \<Longrightarrow> list_bundle_chunks b v =
     (let cs = links_of b (vd_conn (vo_db v)) in if cs = [] then Inl (BundleNotFound b) else Inr cs, v)"
  by (simp add: list_bundle_chunks_def with_vdb_def db_list_bundle_chunks_spec Let_def)

lemma volume_inv_commits:
  assumes inv: "volume_inv B (v, ps)" and res: "commit_bundle B e b cs v = (r, v')"
  shows "volume_inv B (v', ps)"
proof -
  have ok: "vdb_ok (vo_db v)" "bundles_ok B (vd_conn (vo_db v))" using inv by (simp_all add: volume_inv_unfold)
  note C = commit_bundle_spec [OF ok(1) res]
  then have "bundles_ok B (vd_conn (vo_db v'))" using ok(2) bundles_ok_commit [OF ok(2)] by auto
  moreover have "v' = v\<lparr> vo_db := vo_db v' \<rparr>" using C by blast
  ultimately show ?thesis using volume_inv_db [OF inv, of "vo_db v'"] C by metis
qed

lemma volume_inv_deletes_bundle:
  assumes inv: "volume_inv B (v, ps)" and res: "delete_bundle e b v = (r, v')"
  shows "volume_inv B (v', ps)"
proof -
  have del: "db_delete_bundle e b (vo_db v) = (r, vo_db v')" and v': "v' = v\<lparr> vo_db := vo_db v' \<rparr>"
    using res by (simp_all add: delete_bundle_def with_vdb_eq)
  have ok: "bundles_ok B (vd_conn (vo_db v))" using inv by (simp add: volume_inv_unfold)
  have "bundles_ok B (vd_conn (vo_db v'))"
    using db_delete_bundle_rows [OF del] ok bundles_ok_delete [OF ok] by auto
  with volume_inv_db [OF inv st_relD [OF vkeep_db_delete_bundle del]] v' show ?thesis by simp
qed

lemma volume_inv_reads:
  assumes inv: "volume_inv B (v, ps)" and res: "read_chunk E i v = (r, v')"
  shows "volume_inv B (v', ps)" and "vo_db v' = vo_db v"
    and "r = Inr (c, bs) \<Longrightarrow> io_fair (de_io E) \<Longrightarrow>
      chunk_row (vd_conn (vo_db v)) i = Some c \<and> bs = chunk_data (vo_files v) c"
    and "chunk_data (vo_files v') = chunk_data (vo_files v)"
proof -
  have ok: "vdb_ok (vo_db v)" "cache_ok (vo_files v)" using inv by (simp_all add: volume_inv_unfold)
  have load: "with_vdb (load_chunk i) v = (ok_or (ChunkNotFound i) (chunk_row (vd_conn (vo_db v)) i), v)"
    by (simp add: with_vdb_def load_chunk_spec [OF ok(1)])
  have "volume_inv B (v', ps) \<and> vo_db v' = vo_db v \<and> (r = Inr (c, bs) \<longrightarrow> io_fair (de_io E) \<longrightarrow>
      chunk_row (vd_conn (vo_db v)) i = Some c \<and> bs = chunk_data (vo_files v) c) \<and> chunk_data (vo_files v') = chunk_data (vo_files v)"
  proof (cases "chunk_row (vd_conn (vo_db v)) i")
    case None
    with res load inv show ?thesis by (auto simp: read_chunk_def)
  next
    case (Some d)
    obtain r1 f where rd: "cache_read_at E (cm_volume_offset d div VOLUME_DEFAULT_DATA_FILE_SIZE)
        (cm_volume_offset d mod VOLUME_DEFAULT_DATA_FILE_SIZE) (unat (cm_compressed_len d)) (vo_files v) = (r1, f)" by force
    note R = cache_read_at_spec [OF ok(2) rd, unfolded unat_place]
    have eq: "(r, v') = (res_bind r1 (\<lambda>bytes. Inr (d, bytes)), v\<lparr> vo_files := f \<rparr>)"
      using res load Some rd by (cases r1) (simp_all add: read_chunk_def read_compressed_bytes_def with_files_def)
    moreover have "chunk_data f = chunk_data (vo_files v)"
      using R by (intro ext chunk_data_cong) (simp add: disk_grows_def)
    ultimately show ?thesis
      using Some R volume_inv_files [OF inv, of f] by (auto simp: res_bind_Inr_iff chunk_data_def)
  qed
  then show "volume_inv B (v', ps)" "vo_db v' = vo_db v" "r = Inr (c, bs) \<Longrightarrow> io_fair (de_io E) \<Longrightarrow>
      chunk_row (vd_conn (vo_db v)) i = Some c \<and> bs = chunk_data (vo_files v) c" "chunk_data (vo_files v') = chunk_data (vo_files v)"
    by blast+
qed

lemma volume_inv_step:
  assumes "blake3_ok B" and "volume_step B s s'" and "volume_inv B s"
  shows "volume_inv B s'"
  using assms(2,3)
proof cases
  case (put_starts now i raw bytes v c v' ps)
  with assms(3) show ?thesis by (auto intro: volume_inv_put_starts)
next
  case (put_answers now i raw bytes v r v' ps)
  then have "vdb_ok (vo_db v)" using assms(3) by (simp add: volume_inv_unfold)
  from put_begin_spec [OF this put_answers(5,3)] put_answers assms(3) show ?thesis by auto
next
  case (put_writes E p v v' ps qs)
  with assms(3) show ?thesis by (auto intro: write_chunk_spec)
next
  case (put_fails E p v e v' ps qs)
  with assms(3) show ?thesis by (auto intro: write_chunk_spec)
next
  case (put_ends p v r v' ps qs)
  with assms(1,3) show ?thesis by (auto intro: volume_inv_put_ends)
next
  case (put_cut v ps p qs)
  with assms(3) volume_inv_drop show ?thesis by blast
next
  case (lists_bundle b v r v' ps)
  then have "vdb_ok (vo_db v)" using assms(3) by (simp add: volume_inv_unfold)
  from list_bundle_chunks_spec [OF this, of b] lists_bundle assms(3) show ?thesis by (simp add: Let_def)
next
  case (gets_changes limit v r v' ps)
  then have g: "db_get_bundle_change_records limit (vo_db v) = (r, vo_db v')" "v' = v\<lparr> vo_db := vo_db v' \<rparr>"
    by (simp_all add: get_bundle_change_records_def with_vdb_eq)
  have "vo_db v' = vo_db v" using g(1)
    by (cases "u64_to_i64 limit ''limit''") (auto simp: db_get_bundle_change_records_def)
  with volume_inv_query [OF _ vkeep_db_get_bundle_change_records g] gets_changes assms(3) show ?thesis by simp
next
  case (removes_changes n v r v' ps)
  then have g: "db_remove_bundle_change_records n (vo_db v) = (r, vo_db v')" "v' = v\<lparr> vo_db := vo_db v' \<rparr>"
    by (simp_all add: remove_bundle_change_records_def with_vdb_eq)
  have "vt_bundle_chunks (vd_conn (vo_db v')) = vt_bundle_chunks (vd_conn (vo_db v))" using arg_cong [OF g(1), of snd]
    by (cases "u64_to_i64 n ''max_event_id''") (auto simp: db_remove_bundle_change_records_def update_conn_def dest!: sym [of _ "vo_db v'"])
  with volume_inv_query [OF _ vkeep_db_remove_bundle_change_records g] removes_changes assms(3) show ?thesis by simp
next
  case (closes_idle v ps busy now)
  with assms(3) show ?thesis
    by (simp add: close_idle_data_files_def volume_inv_files close_idle_spec(4))
qed (auto intro: volume_inv_reads volume_inv_deletes_chunk volume_inv_commits volume_inv_deletes_bundle volume_inv_restarts)

lemma fresh_volume_inv:
  assumes "init_fs path err now max_bytes \<lparr> vr_db = None, vr_files = Map.empty \<rparr> = (Inr (), d)"
    and "init_volume_id path now' volume_id d = (Inr m, d')" and "volume_open path d' = Inr v"
  shows "volume_inv B (v, [])"
proof -
  let ?m = "\<lparr> vm_volume_id = 0, vm_format_version = VOLUME_FORMAT_VERSION, vm_max_bytes = max_bytes,
    vm_active_volume_offset = 0, vm_created_at_ms = now, vm_updated_at_ms = now \<rparr>"
  obtain row where row: "meta_to_row ?m = Inr row" and d: "d = \<lparr> vr_db = Some (empty_volume_tables\<lparr> vt_meta := Some row \<rparr>), vr_files = Map.empty \<rparr>"
    using assms(1) by (cases "meta_to_row ?m") (auto simp: init_fs_def volume_db_create_def Let_def split: if_splits option.splits)
  have "row = ?m \<and> meta_ok ?m" using row
    by (auto simp: meta_to_row_def res_bind_Inr_iff u64_to_i64_Inr_iff meta_ok_def)
  then have m: "row = ?m" "meta_ok ?m" by auto
  let ?db = "\<lparr> vd_conn = empty_volume_tables\<lparr> vt_meta := Some ?m \<rparr>, vd_meta = ?m \<rparr>"
  have "vdb_ok ?db"
    using m by (simp add: vdb_ok_def empty_volume_tables_def bundle_rows_ok_def changes_ok_def fits_i64_def)
  from volume_db_reopen [OF this] have "volume_db_open (empty_volume_tables\<lparr> vt_meta := Some ?m \<rparr>) = Inr ?db" by simp
  with assms(2) m d obtain db' where db': "assign_volume_id volume_id now' ?db = (Inr m, db')" "d' = d\<lparr> vr_db := Some (vd_conn db') \<rparr>"
    by (auto simp: init_volume_id_def split: prod.splits)
  let ?m' = "?m\<lparr> vm_volume_id := volume_id, vm_updated_at_ms := now' \<rparr>"
  have db'_eq: "db' = \<lparr> vd_conn = empty_volume_tables\<lparr> vt_meta := Some ?m' \<rparr>, vd_meta = ?m' \<rparr>" and fits: "fits_i64 volume_id" "fits_i64 now'"
    using db'(1) by (auto simp: assign_volume_id_def update_conn_def st_bind_Inr_iff u64_to_i64_Inr_iff empty_volume_tables_def)
  have ok': "vdb_ok db'"
    using m fits by (simp add: db'_eq vdb_ok_def empty_volume_tables_def bundle_rows_ok_def changes_ok_def fits_i64_def meta_ok_def)
  have v: "v = \<lparr> vo_root = path, vo_db = db', vo_files = with_capacity (unat (div_ceil max_bytes VOLUME_DEFAULT_DATA_FILE_SIZE)) Map.empty \<rparr>"
    using assms(3) volume_db_reopen [OF ok'] by (auto simp: volume_open_def db' d db'_eq)
  have "length (dc_slots (vo_files v)) = unat (div_ceil max_bytes VOLUME_DEFAULT_DATA_FILE_SIZE)" by (simp add: v with_capacity_def)
  then show ?thesis
    using ok' cache_ok_with_capacity
    by (auto simp: volume_inv_unfold v db'_eq empty_volume_tables_def regions_apart_def bundles_ok_def)
qed

lemma volume_reachable_inv: "volume_reachable B s \<Longrightarrow> blake3_ok B \<Longrightarrow> volume_inv B s"
  by (induction rule: volume_reachable.induct) (auto intro: fresh_volume_inv volume_inv_step)

section \<open>What clients of a volume see\<close>

text \<open>The place of a chunk has a slot in the cache of data files.\<close>

lemma placed_slot:
  assumes "placed m c" and "vm_active_volume_offset m \<le> vm_max_bytes m"
  shows "unat (cm_volume_offset c) div 2 ^ 32 < unat (div_ceil (vm_max_bytes m) VOLUME_DEFAULT_DATA_FILE_SIZE)"
proof -
  let ?M = "unat (vm_max_bytes m)" and ?o = "unat (cm_volume_offset c)"
  have "?o < ?M" using assms by (auto simp: placed_def word_le_nat_alt)
  then have "?o + 2 ^ 32 \<le> ?M + 2 ^ 32 - 1" by simp
  then have "(?o + 2 ^ 32) div 2 ^ 32 \<le> (?M + 2 ^ 32 - 1) div 2 ^ 32" by (rule div_le_mono)
  moreover have "(?o + 2 ^ 32) div 2 ^ 32 = ?o div 2 ^ 32 + 1" by simp
  ultimately have "?o div 2 ^ 32 < (?M + 2 ^ 32 - 1) div 2 ^ 32" by linarith
  then show ?thesis by (simp add: unat_div_ceil unat_data_file_size)
qed

lemma read_chunk_succeeds:
  assumes inv: "volume_inv B (v, ps)" and c: "chunk_row (vd_conn (vo_db v)) i = Some c"
    and os: "de_open E = None" "io_fair (de_io E)"
  shows "\<exists>v'. read_chunk E i v = (Inr (c, chunk_data (vo_files v) c), v')"
proof -
  have ok: "vdb_ok (vo_db v)" using inv by (simp add: volume_inv_unfold)
  have "c \<in> set (vt_chunks (vd_conn (vo_db v)))" using chunk_row_SomeD [OF c] by simp
  then have P: "placed (vd_meta (vo_db v)) c" "on_disk (vo_files v) c"
    using inv by (auto simp: volume_inv_unfold)
  let ?S = VOLUME_DEFAULT_DATA_FILE_SIZE
  have "unat (cm_volume_offset c div ?S) < length (dc_slots (vo_files v))"
    using placed_slot [OF P(1)] inv by (simp add: volume_inv_unfold unat_place)
  moreover have "dc_files (vo_files v) (unat (cm_volume_offset c div ?S)) \<noteq> None"
    "unat (cm_volume_offset c mod ?S) + unat (cm_compressed_len c) \<le> disk_len (vo_files v) (unat (cm_volume_offset c div ?S))"
    using P(2) unfolding on_disk_def unat_place by blast+
  ultimately have "\<exists>f. cache_read_at E (cm_volume_offset c div ?S) (cm_volume_offset c mod ?S) (unat (cm_compressed_len c)) (vo_files v) =
      (Inr (map (disk_byte (vo_files v) (unat (cm_volume_offset c div ?S)))
        [unat (cm_volume_offset c mod ?S)..<unat (cm_volume_offset c mod ?S) + unat (cm_compressed_len c)]), f)"
    by (rule cache_read_at_succeeds [OF os])
  then obtain f where "cache_read_at E (cm_volume_offset c div ?S) (cm_volume_offset c mod ?S) (unat (cm_compressed_len c)) (vo_files v) =
      (Inr (chunk_data (vo_files v) c), f)"
    unfolding chunk_data_def unat_place by blast
  then show ?thesis
    by (simp add: read_chunk_def with_vdb_def load_chunk_spec [OF ok] c read_compressed_bytes_def with_files_def)
qed

lemma put_begin_existing:
  assumes ok: "vdb_ok (vo_db v)" and len: "length bytes < 2 ^ 63" and res: "put_begin B now i raw bytes v = (Inr (Existing c), v')"
  shows "chunk_row (vd_conn (vo_db v)) i = Some c \<and> cm_raw_len c = raw \<and> cm_compressed_hash c = blake3_hash B bytes \<and>
    unat (cm_compressed_len c) = length bytes"
proof -
  have chk: "put_chunk_check raw bytes = Inr ()"
    and plan: "plan_chunk now i (blake3_hash B bytes) raw (of_nat (length bytes)) (vo_db v) = (Inr (Existing c), vo_db v')"
    using res by (auto simp: put_begin_def with_vdb_eq st_bind_Inr_iff)
  show ?thesis
  proof (cases "chunk_row (vd_conn (vo_db v)) i")
    case None
    with plan have "reserve_chunk now i (blake3_hash B bytes) raw (of_nat (length bytes)) (vo_db v) = (Inr (Existing c), vo_db v')"
      by (simp add: plan_chunk_def load_chunk_spec [OF ok])
    then show ?thesis by (auto simp: reserve_chunk_def Let_def st_bind_Inr_iff split: if_splits)
  next
    case (Some d)
    with plan put_chunk_check_ok [OF chk len] show ?thesis
      by (auto simp: plan_chunk_def load_chunk_spec [OF ok] split: if_splits)
  qed
qed

lemma put_finish_meta: "put_finish c v = (r, v') \<Longrightarrow> vd_meta (vo_db v') = vd_meta (vo_db v)"
  by (auto simp: put_finish_def with_vdb_def insert_chunk_def load_chunk_def update_conn_def st_bind_def split: prod.splits sum.splits if_splits option.splits)

lemma put_finish_fresh:
  assumes ok: "vdb_ok (vo_db v)" and res: "put_finish d v = (r, v')" and new: "chunk_row (vd_conn (vo_db v)) (cm_chunk_id d) = None"
    and r: "r = Inr c"
  shows "c = d \<and> chunk_row (vd_conn (vo_db v')) (cm_chunk_id d) = Some d \<and> vo_files v' = vo_files v"
proof -
  from res r obtain s1 where ins: "insert_chunk d (vo_db v) = (Inr (), s1)" and load: "load_chunk (cm_chunk_id d) s1 = (Inr c, vo_db v')"
    and v': "v' = v\<lparr> vo_db := vo_db v' \<rparr>"
    by (auto simp: put_finish_def with_vdb_eq st_bind_Inr_iff)
  have "vo_db v' = s1" using load by (auto simp: load_chunk_def split: option.splits)
  moreover have "chunk_ok d \<and> vt_chunks (vd_conn s1) = vt_chunks (vd_conn (vo_db v)) @ [d]"
    using ins new by (cases d) (auto simp: insert_chunk_def chunk_ok_def hash_ok_def st_bind_Inr_iff u64_to_i64_Inr_iff update_conn_def
        split: if_splits)
  ultimately have d: "chunk_ok d" "chunk_row (vd_conn s1) (cm_chunk_id d) = Some d"
    using new by (auto simp: chunk_row_def find_append)
  then have "c = d" using load by (auto simp: load_chunk_def row_to_chunk_ok)
  moreover have "vo_files v' = vo_files v" by (subst v') simp
  ultimately show ?thesis using d \<open>vo_db v' = s1\<close> by simp
qed

text \<open>What a put that answers has done; \<open>cm_raw_len\<close> and the hash are those of the request.\<close>

lemma put_chunk_spec:
  assumes inv: "volume_inv B (v, ps)" and B: "blake3_ok B" and args: "hash_ok i" "length bytes < 2 ^ 63"
    and res: "put_chunk B now E i raw bytes v = (r, v')"
  shows "volume_inv B (v', ps)" and "r = Inr c \<Longrightarrow>
    chunk_row (vd_conn (vo_db v')) i = Some c \<and> cm_raw_len c = raw \<and> cm_compressed_hash c = blake3_hash B bytes \<and>
    unat (cm_compressed_len c) = length bytes \<and> (chunk_row (vd_conn (vo_db v)) i = None \<longrightarrow> chunk_data (vo_files v') c = bytes)"
    and "vm_volume_id (vd_meta (vo_db v')) = vm_volume_id (vd_meta (vo_db v))"
proof -
  have ok: "vdb_ok (vo_db v)" using inv by (simp add: volume_inv_unfold)
  obtain r1 v1 where b: "put_begin B now i raw bytes v = (r1, v1)" by force
  note P = put_begin_spec [OF ok args(2) b]
  have "volume_inv B (v', ps) \<and> vm_volume_id (vd_meta (vo_db v')) = vm_volume_id (vd_meta (vo_db v)) \<and> (r = Inr c \<longrightarrow>
    chunk_row (vd_conn (vo_db v')) i = Some c \<and> cm_raw_len c = raw \<and> cm_compressed_hash c = blake3_hash B bytes \<and>
    unat (cm_compressed_len c) = length bytes \<and> (chunk_row (vd_conn (vo_db v)) i = None \<longrightarrow> chunk_data (vo_files v') c = bytes))"
  proof (cases "\<exists>d. r1 = Inr (Insert d)")
    case False
    then have v1: "v1 = v" using P by blast
    consider e where "r1 = Inl e" | x where "r1 = Inr (Existing x)" using False by (metis put_plan.exhaust sum.exhaust_sel)
    then show ?thesis
    proof cases
      case 1
      with res b v1 inv show ?thesis by (auto simp: put_chunk_def)
    next
      case 2
      with put_begin_existing [OF ok args(2) b [unfolded 2]] res b v1 inv show ?thesis by (auto simp: put_chunk_def)
    qed
  next
    case True
    then obtain d where d: "r1 = Inr (Insert d)" by blast
    let ?p = "\<lparr> pf_chunk = d, pf_bytes = bytes, pf_written = False \<rparr>"
    have inv1: "volume_inv B (v1, ps @ [?p])" using inv b [unfolded d] args by (rule volume_inv_put_starts)
    obtain r2 v2 where w: "write_compressed_bytes E (cm_volume_offset d) bytes v1 = (r2, v2)" by force
    have W: "volume_inv B (v2, ps @ [])" "r2 = Inr () \<Longrightarrow> volume_inv B (v2, ps @ [?p\<lparr> pf_written := True \<rparr>])"
      using write_chunk_spec [of B v1 ps ?p "[]" E r2 v2] inv1 w by simp_all
    have db2: "vo_db v2 = vo_db v1" using write_chunk_frame(1) [OF inv1, of E r2 v2] w by simp
    have id2: "vm_volume_id (vd_meta (vo_db v2)) = vm_volume_id (vd_meta (vo_db v))" using P d db2 by auto
    show ?thesis
    proof (cases r2)
      case (Inl e)
      then have "r = Inl e" "v' = v2" using res b d w by (auto simp: put_chunk_def)
      with W(1) id2 show ?thesis by simp
    next
      case (Inr u)
      have inv2: "volume_inv B (v2, ps @ [?p\<lparr> pf_written := True \<rparr>])" using W(2) Inr by simp
      have fin: "put_finish d v2 = (r, v')" using res b d w Inr by (simp add: put_chunk_def)
      have inv': "volume_inv B (v', ps)"
        using volume_inv_put_ends [of B v2 ps "?p\<lparr> pf_written := True \<rparr>" "[]" r v'] inv2 B fin by simp
      have data: "chunk_data (vo_files v2) d = bytes" using inv2 by (simp add: volume_inv_unfold put_ok_def)
      have None: "chunk_row (vd_conn (vo_db v2)) i = None" "cm_chunk_id d = i" "cm_raw_len d = raw" "cm_compressed_hash d = blake3_hash B bytes"
          "unat (cm_compressed_len d) = length bytes"
        using P d by (auto simp: db2 chunk_row_def)
      have "r = Inr d \<and> chunk_row (vd_conn (vo_db v')) i = Some d \<and> vo_files v' = vo_files v2" if "r = Inr c"
        using put_finish_fresh [OF _ fin] inv2 None that by (auto simp: volume_inv_unfold)
      moreover have "vd_meta (vo_db v') = vd_meta (vo_db v2)" using fin by (rule put_finish_meta)
      ultimately show ?thesis using inv' data None id2 by auto
    qed
  qed
  then show "volume_inv B (v', ps)" and "r = Inr c \<Longrightarrow>
    chunk_row (vd_conn (vo_db v')) i = Some c \<and> cm_raw_len c = raw \<and> cm_compressed_hash c = blake3_hash B bytes \<and>
    unat (cm_compressed_len c) = length bytes \<and> (chunk_row (vd_conn (vo_db v)) i = None \<longrightarrow> chunk_data (vo_files v') c = bytes)"
    "vm_volume_id (vd_meta (vo_db v')) = vm_volume_id (vd_meta (vo_db v))"
    by blast+
qed

text \<open>A recorded chunk keeps its row and its bytes until it is deleted.\<close>

definition chunk_kept :: "hash_id \<Rightarrow> volume \<Rightarrow> volume \<Rightarrow> bool" where
  "chunk_kept i v v' \<longleftrightarrow> (\<forall>c. chunk_row (vd_conn (vo_db v)) i = Some c \<longrightarrow>
     chunk_row (vd_conn (vo_db v')) i = Some c \<and> chunk_data (vo_files v') c = chunk_data (vo_files v) c)"

lemma chunk_kept_same:
  "(\<And>c. c \<in> set (vt_chunks (vd_conn (vo_db v))) \<Longrightarrow> chunk_data (vo_files v') c = chunk_data (vo_files v) c) \<Longrightarrow>
     vt_chunks (vd_conn (vo_db v')) = vt_chunks (vd_conn (vo_db v)) @ cs \<Longrightarrow> chunk_kept i v v'"
  by (auto simp: chunk_kept_def chunk_row_def find_append dest: find_SomeD)

lemma chunk_kept_keeps:
  assumes "volume_inv B (v, ps)" and "vdb_keeps (vo_db v) (vo_db v')" and "vo_files v' = vo_files v"
  shows "chunk_kept i v v'"
proof -
  have "vdb_ok (vo_db v)" using assms(1) by (simp add: volume_inv_unfold)
  with assms show ?thesis by (intro chunk_kept_same [where cs = "[]"]) (simp_all add: vdb_keeps_def)
qed

lemma with_vdb_files: "with_vdb m v = (r, v') \<Longrightarrow> vo_files v' = vo_files v"
  by (auto simp: with_vdb_def split: prod.splits)

lemma chunk_kept_vdb:
  assumes "volume_inv B (v, ps)" and "with_vdb m v = (r, v')" and "st_rel vdb_keeps m"
  shows "chunk_kept i v v'"
  using assms with_vdb_files [OF assms(2)] by (intro chunk_kept_keeps) (auto simp: with_vdb_eq dest: st_relD)

lemma put_finish_rows:
  assumes "volume_inv B (v, ps @ p # qs)" and "blake3_ok B" and "put_finish (pf_chunk p) v = (r, v')"
  shows "\<exists>cs. vt_chunks (vd_conn (vo_db v')) = vt_chunks (vd_conn (vo_db v)) @ cs"
proof -
  have ok: "vdb_ok (vo_db v)" using assms(1) by (simp add: volume_inv_unfold)
  obtain r1 s1 where ins: "insert_chunk (pf_chunk p) (vo_db v) = (r1, s1)" by force
  have "vo_db v' = s1"
    using assms(3) ins by (cases r1) (auto simp: put_finish_def with_vdb_def load_chunk_def split: option.splits)
  with insert_chunk_unfit [OF _ ins] insert_chunk_spec [OF ok put_chunk_ok [OF assms(1) _ assms(2)] ins] show ?thesis
    by (cases "fits_i64 (cm_raw_len (pf_chunk p))") (auto intro: exI [of _ "[]"])
qed

lemma chunk_kept_deletes:
  assumes inv: "volume_inv B (v, ps)" and res: "delete_chunk j v = (r, v')"
  shows "chunk_kept i v v' \<or> (r = Inr () \<and> i = j)"
proof -
  have ok: "vdb_ok (vo_db v)" using inv by (simp add: volume_inv_unfold)
  have del: "db_delete_chunk j (vo_db v) = (r, vo_db v')" and files: "vo_files v' = vo_files v"
    using res with_vdb_files by (auto simp: delete_chunk_def with_vdb_eq)
  show ?thesis
  proof (cases "r = Inr ()")
    case True
    with db_delete_chunk_spec [OF ok del] files show ?thesis
      by (auto simp: chunk_kept_def chunk_row_def find_filter_key)
  next
    case False
    with db_delete_chunk_spec [OF ok del] files show ?thesis by (auto simp: chunk_kept_def)
  qed
qed

lemma volume_step_keeps:
  assumes "volume_step B s s'" and "volume_inv B s" and B: "blake3_ok B"
  shows "chunk_kept i (fst s) (fst s') \<or> (\<exists>u. delete_chunk i (fst s) = (Inr u, fst s'))"
  using assms(1)
proof cases
  case (put_starts now j raw bytes v c v' ps)
  then have ok: "vdb_ok (vo_db v)" using assms(2) by (simp add: volume_inv_unfold)
  have P: "vt_chunks (vd_conn (vo_db v')) = vt_chunks (vd_conn (vo_db v))" "v' = v\<lparr> vo_db := vo_db v' \<rparr>"
    using put_begin_spec [OF ok put_starts(5,3)] by auto
  have "vo_files v' = vo_files v" by (subst P(2)) simp
  then show ?thesis using put_starts(1,2) P(1) chunk_kept_same [of v v' "[]" i] by simp
next
  case (put_answers now j raw bytes v r v' ps)
  then have ok: "vdb_ok (vo_db v)" using assms(2) by (simp add: volume_inv_unfold)
  have "v' = v" using put_begin_spec [OF ok put_answers(5,3)] put_answers(4) by auto
  then show ?thesis using put_answers by (simp add: chunk_kept_def)
next
  case (put_writes E p v v' ps qs)
  note F = write_chunk_frame [OF assms(2) [unfolded put_writes(1)] put_writes(3)]
  then show ?thesis using put_writes(1,2) chunk_kept_same [of v v' "[]" i] by simp
next
  case (put_fails E p v e v' ps qs)
  note F = write_chunk_frame [OF assms(2) [unfolded put_fails(1)] put_fails(3)]
  then show ?thesis using put_fails(1,2) chunk_kept_same [of v v' "[]" i] by simp
next
  case (put_ends p v r v' ps qs)
  then have "vo_files v' = vo_files v" by (simp add: put_finish_def with_vdb_files)
  moreover obtain cs where "vt_chunks (vd_conn (vo_db v')) = vt_chunks (vd_conn (vo_db v)) @ cs"
    using put_finish_rows [OF assms(2) [unfolded put_ends(1)] B put_ends(3)] by blast
  ultimately show ?thesis using put_ends(1,2) chunk_kept_same [of v v' cs i] by simp
next
  case (put_cut v ps p qs)
  then show ?thesis by (simp add: chunk_kept_def)
next
  case (reads E j v r v' ps)
  then have inv: "volume_inv B (v, ps)" using assms(2) by simp
  have "chunk_data (vo_files v') = chunk_data (vo_files v)" "vo_db v' = vo_db v"
    using volume_inv_reads [OF inv reads(3)] by blast+
  then show ?thesis using reads by (simp add: chunk_kept_def)
next
  case (deletes_chunk j v r v' ps)
  then show ?thesis using chunk_kept_deletes [of B v ps j r v' i] assms(2) by auto
next
  case (commits_bundle e b chunks v r v' ps)
  then have inv: "volume_inv B (v, ps)" using assms(2) by simp
  then have "vdb_ok (vo_db v)" by (simp add: volume_inv_unfold)
  from commit_bundle_spec [OF this commits_bundle(3)] chunk_kept_keeps [OF inv] commits_bundle(1,2) show ?thesis by simp
next
  case (lists_bundle b v r v' ps)
  then have "vdb_ok (vo_db v)" using assms(2) by (simp add: volume_inv_unfold)
  from list_bundle_chunks_spec [OF this, of b] lists_bundle show ?thesis by (simp add: Let_def chunk_kept_def)
next
  case (deletes_bundle e b v r v' ps)
  then show ?thesis
    using chunk_kept_vdb [OF _ _ vkeep_db_delete_bundle] assms(2) by (auto simp: delete_bundle_def)
next
  case (gets_changes limit v r v' ps)
  then show ?thesis
    using chunk_kept_vdb [OF _ _ vkeep_db_get_bundle_change_records] assms(2) by (auto simp: get_bundle_change_records_def)
next
  case (removes_changes n v r v' ps)
  then show ?thesis
    using chunk_kept_vdb [OF _ _ vkeep_db_remove_bundle_change_records] assms(2) by (auto simp: remove_bundle_change_records_def)
next
  case (closes_idle v ps busy now)
  have "chunk_data (close_idle busy now (vo_files v)) c = chunk_data (vo_files v) c" for c
    by (rule chunk_data_cong) (use close_idle_spec(4) [of "vo_files v" busy now] in \<open>simp add: disk_grows_def\<close>)
  then show ?thesis using closes_idle by (simp add: chunk_kept_def close_idle_data_files_def)
next
  case (restarts path v v' ps)
  then have inv: "volume_inv B (v, ps)" using assms(2) by simp
  note R = volume_inv_restarts [OF inv restarts(3)]
  have "chunk_data (vo_files v') c = chunk_data (vo_files v) c" for c
    by (rule chunk_data_cong) (simp add: R(3) disk_byte_def fun_eq_iff)
  then show ?thesis using restarts(1,2) R(2) by (simp add: chunk_kept_def)
qed

end
