(* ===== verification/Storage_Server.thy ===== *)
theory Storage_Server
  imports Volume_Safety Fs0_Config
begin

text \<open>
  The storage server (\<^verbatim>\<open>fs0-storage/src\<close>): opening the configured volumes, registering with central, the upload leases
  central grants and revokes, the handlers of data connections, and the reporter that tells central which
  bundles a volume stores. A handler is a computation on the server state; the clock, the disk, the network and
  the crates \<^verbatim>\<open>blake3\<close> and \<^verbatim>\<open>zstd\<close> are arguments. What central answers may depend on all requests sent before.
\<close>

section \<open>State\<close>

record upload_lease_state =
  uls_file_id :: u64
  uls_volume_id :: u64
  uls_expires_at_ms :: u64

text \<open>\<open>ss_connected\<close> says whether there is a connection to central; \<open>ss_sent\<close> are the requests sent on it.\<close>

record storage_server =
  ss_config :: storage_config
  ss_storage_id :: u64
  ss_connected :: bool
  ss_last_reported_endpoint :: "u8 list"
  ss_volumes :: "(u64, volume) hmap"
  ss_upload_leases :: "(u64, upload_lease_state) hmap"
  ss_sent :: "protocol_request list"

type_synonym 'a storage_op = "(storage_server, fs0_error, 'a) st"

record 'h storage_env =
  se_now :: u64
  se_disk :: disk_env
  se_commit :: "fs0_error option"
  se_rpc :: "protocol_request list \<Rightarrow> protocol_request \<Rightarrow> protocol_response fs0_result"
  se_debug :: "protocol_response \<Rightarrow> string"
  se_connect :: "unit fs0_result"
  se_endpoint :: "(u8 list) fs0_result"
  se_blake3 :: "'h blake3"
  se_zstd :: zstd

section \<open>Volumes\<close>

fun open_volumes_loop ::
  "(string \<Rightarrow> volume_dir) \<Rightarrow> storage_volume_config list \<Rightarrow> u64 set \<Rightarrow> string set \<Rightarrow> (u64, volume) hmap \<Rightarrow> ((u64, volume) hmap) fs0_result" where
  "open_volumes_loop dirs [] seen_ids seen_names volumes = Inr volumes"
| "open_volumes_loop dirs (c # cs) seen_ids seen_names volumes =
     (if svc_name c \<in> seen_names then Inl (InvalidConfig (''duplicate volume name '' @ svc_name c))
      else
        res_bind (volume_open (svc_path c) (dirs (svc_path c))) (\<lambda>volume.
        let volume_id = vm_volume_id (vd_meta (vo_db volume)) in
        if volume_id = 0
        then Inl (InvalidConfig (''volume '' @ svc_path c @ '' has not been assigned a central volume id''))
        else if volume_id \<in> seen_ids then Inl (InvalidConfig (''duplicate volume id '' @ show_u64 volume_id))
        else open_volumes_loop dirs cs (insert volume_id seen_ids) (insert (svc_name c) seen_names)
               (hm_insert volume_id volume volumes)))"

definition open_volumes :: "(string \<Rightarrow> volume_dir) \<Rightarrow> storage_config \<Rightarrow> ((u64, volume) hmap) fs0_result" where
  "open_volumes dirs config = open_volumes_loop dirs (sc_volumes config) {} {} []"

fun storage_volume_infos_loop ::
  "(u64, volume) hmap \<Rightarrow> storage_volume_config list \<Rightarrow> (storage_volume_info list) fs0_result" where
  "storage_volume_infos_loop volumes [] = Inr []"
| "storage_volume_infos_loop volumes (c # cs) =
     (case find (\<lambda>volume. vo_root volume = svc_path c) (map snd volumes) of
        None \<Rightarrow> Inl (VolumeNotFound (svc_path c))
      | Some volume \<Rightarrow>
          let meta = vd_meta (vo_db volume) in
          res_bind (storage_volume_infos_loop volumes cs) (\<lambda>infos.
          Inr (\<lparr> svi_volume_id = vm_volume_id meta, svi_name = svc_name c, svi_max_bytes = vm_max_bytes meta,
            svi_max_volume_offset = vm_active_volume_offset meta, svi_read_only = svc_read_only c \<rparr> # infos)))"

definition storage_volume_infos :: "storage_config \<Rightarrow> (u64, volume) hmap \<Rightarrow> (storage_volume_info list) fs0_result" where
  "storage_volume_infos config volumes = storage_volume_infos_loop volumes (sc_volumes config)"

definition volumes_meta :: "storage_server \<Rightarrow> volume_meta list" where
  "volumes_meta s = sort_key vm_volume_id (map (\<lambda>(_, v). vd_meta (vo_db v)) (ss_volumes s))"

text \<open>Using the volume of an identifier, which has to be there.\<close>

definition with_volume :: "u64 \<Rightarrow> 'a vol \<Rightarrow> 'a storage_op" where
  "with_volume volume_id m = (\<lambda>s.
     case hm_get (ss_volumes s) volume_id of
       None \<Rightarrow> (Inl UnknownVolume, s)
     | Some v \<Rightarrow> (case m v of (r, v') \<Rightarrow> (r, s\<lparr> ss_volumes := hm_insert volume_id v' (ss_volumes s) \<rparr>)))"

definition storage_close_idle_data_files :: "nat set \<Rightarrow> u64 \<Rightarrow> storage_server \<Rightarrow> storage_server" where
  "storage_close_idle_data_files busy now s = s\<lparr> ss_volumes := map (\<lambda>(i, v). (i, close_idle_data_files busy now v)) (ss_volumes s) \<rparr>"

section \<open>The connection to central\<close>

definition central_rpc :: "'h storage_env \<Rightarrow> protocol_request \<Rightarrow> protocol_response storage_op" where
  "central_rpc E request = (\<lambda>s. (se_rpc E (ss_sent s) request, s\<lparr> ss_sent := ss_sent s @ [request] \<rparr>))"

definition connection_or_unavailable :: "unit storage_op" where
  "connection_or_unavailable = (\<lambda>s. (if ss_connected s then Inr () else Inl CentralUnavailable, s))"

text \<open>What the callers make of an answer: the expected response, the error in it, or an invalid frame.\<close>

definition expect_control :: "'h storage_env \<Rightarrow> string \<Rightarrow> (control_response \<Rightarrow> 'a option) \<Rightarrow> protocol_response \<Rightarrow> 'a fs0_result" where
  "expect_control E what accept response =
     (let unexpected = Inl (InvalidFrame (''unexpected '' @ what @ '' response: '' @ se_debug E response)) in
      case response of
        protocol_response.Control c \<Rightarrow> (case accept c of Some x \<Rightarrow> Inr x | None \<Rightarrow> unexpected)
      | Error e \<Rightarrow> Inl e
      | _ \<Rightarrow> unexpected)"

definition register_with_central :: "'h storage_env \<Rightarrow> (u64 \<times> u8 list) storage_op" where
  "register_with_central E =
     st_bind (\<lambda>s. (storage_volume_infos (ss_config s) (ss_volumes s), s)) (\<lambda>volumes.
     st_bind (st_lift (se_endpoint E)) (\<lambda>data_endpoint.
     st_bind (st_gets ss_config) (\<lambda>config.
     st_bind (central_rpc E (protocol_request.Control (control_request.RegisterStorage (sc_name config) (sc_token config) FS0_VERSION
       volumes data_endpoint))) (\<lambda>response.
     st_lift (expect_control E ''storage registration''
       (\<lambda>c. case c of control_response.RegisterStorage storage_id storages \<Rightarrow> Some (storage_id, data_endpoint) | _ \<Rightarrow> None) response)))))"

definition connect_and_register :: "'h storage_env \<Rightarrow> unit storage_op" where
  "connect_and_register E =
     st_bind (st_lift (se_connect E)) (\<lambda>_.
     st_bind (register_with_central E) (\<lambda>(storage_id, endpoint).
     st_modify (\<lambda>s. s\<lparr> ss_storage_id := storage_id, ss_connected := True, ss_last_reported_endpoint := endpoint \<rparr>)))"

text \<open>What the task of the connection does when the connection ends.\<close>

definition central_connection_lost :: "storage_server \<Rightarrow> storage_server" where
  "central_connection_lost s = s\<lparr> ss_connected := False, ss_storage_id := 0 \<rparr>"

definition central_connection_close :: "storage_server \<Rightarrow> storage_server" where
  "central_connection_close s = s\<lparr> ss_connected := False, ss_storage_id := 0, ss_last_reported_endpoint := [] \<rparr>"

definition central_validate_client_auth :: "'h storage_env \<Rightarrow> u64 \<Rightarrow> string \<Rightarrow> unit storage_op" where
  "central_validate_client_auth E client_id client_token =
     st_bind connection_or_unavailable (\<lambda>_.
     st_bind (central_rpc E (protocol_request.Control (control_request.ValidateClientAuth client_id client_token))) (\<lambda>response.
     st_lift (expect_control E ''validate client auth''
       (\<lambda>c. case c of control_response.ValidateClientAuth _ \<Rightarrow> Some () | _ \<Rightarrow> None) response)))"

definition central_update_storage_endpoint :: "'h storage_env \<Rightarrow> u8 list \<Rightarrow> unit storage_op" where
  "central_update_storage_endpoint E iroh_endpoint =
     st_bind (st_gets ss_storage_id) (\<lambda>storage_id.
     if storage_id = 0 then st_throw CentralUnavailable
     else
       st_bind connection_or_unavailable (\<lambda>_.
       st_bind (central_rpc E (protocol_request.Control (control_request.UpdateStorageEndpoint storage_id iroh_endpoint))) (\<lambda>response.
       st_bind (st_lift (expect_control E ''update storage endpoint''
         (\<lambda>c. case c of control_response.UpdateStorageEndpoint \<Rightarrow> Some () | _ \<Rightarrow> None) response)) (\<lambda>_.
       st_modify (\<lambda>s. s\<lparr> ss_last_reported_endpoint := iroh_endpoint \<rparr>)))))"

definition central_report_bundle_replica :: "'h storage_env \<Rightarrow> bundle_replica_event list \<Rightarrow> unit storage_op" where
  "central_report_bundle_replica E events =
     st_bind connection_or_unavailable (\<lambda>_.
     st_bind (central_rpc E (protocol_request.Control (control_request.ReportBundleReplica events))) (\<lambda>response.
     st_lift (expect_control E ''report bundle replica''
       (\<lambda>c. case c of control_response.ReportBundleReplica \<Rightarrow> Some () | _ \<Rightarrow> None) response)))"

definition central_update_storage_volume_offset :: "'h storage_env \<Rightarrow> u64 \<Rightarrow> u64 \<Rightarrow> unit storage_op" where
  "central_update_storage_volume_offset E volume_id max_volume_offset =
     st_bind connection_or_unavailable (\<lambda>_.
     st_bind (central_rpc E (protocol_request.Control (control_request.UpdateStorageVolumeOffset volume_id max_volume_offset))) (\<lambda>response.
     st_lift (expect_control E ''update storage volume offset''
       (\<lambda>c. case c of control_response.UpdateStorageVolumeOffset \<Rightarrow> Some () | _ \<Rightarrow> None) response)))"

section \<open>Reporting bundles\<close>

text \<open>
  A turn of the loop of \<open>sync_volume\<close> takes at most 128 records, reports them and removes them up to the last one.
  A turn that goes on has removed at least one record, so that the loop ends.
\<close>

definition report_turn :: "'h storage_env \<Rightarrow> u64 \<Rightarrow> bool storage_op" where
  "report_turn E volume_id =
     st_bind (with_volume volume_id (get_bundle_change_records 128)) (\<lambda>events.
     if events = [] then st_return False
     else
       let events = sort_key bre_event_id events; max_event_id = bre_event_id (last events) in
       st_bind (central_report_bundle_replica E events) (\<lambda>_.
       st_bind (with_volume volume_id (remove_bundle_change_records max_event_id)) (\<lambda>_.
       st_return True)))"

definition change_count :: "u64 \<Rightarrow> storage_server \<Rightarrow> nat" where
  "change_count volume_id s =
     (case hm_get (ss_volumes s) volume_id of None \<Rightarrow> 0 | Some v \<Rightarrow> length (vt_changes (vd_conn (vo_db v))))"

lemma with_volume_cases:
  assumes "with_volume i m s = (r, s')"
  obtains "hm_get (ss_volumes s) i = None" "r = Inl UnknownVolume" "s' = s"
  | v v' where "hm_get (ss_volumes s) i = Some v" "m v = (r, v')" "s' = s\<lparr> ss_volumes := hm_insert i v' (ss_volumes s) \<rparr>"
  using assms by (auto simp: with_volume_def split: option.splits prod.splits)

lemma central_report_volumes: "central_report_bundle_replica E events s = (r, s') \<Longrightarrow> ss_volumes s' = ss_volumes s"
  by (auto simp: central_report_bundle_replica_def connection_or_unavailable_def central_rpc_def st_bind_def split: prod.splits sum.splits if_splits)

lemma collect_rows_map:
  assumes "collect_rows f rs = Inr xs" and "\<And>r x. r \<in> set rs \<Longrightarrow> f r = Inr x \<Longrightarrow> g x = h r"
  shows "map g xs = map h rs"
  using assms by (induction rs arbitrary: xs) (auto simp: res_bind_Inr_iff)

lemma row_to_change_event_id: "row_to_change t i r = Inr e \<Longrightarrow> bre_event_id e = ch_event_id r"
  by (auto simp: row_to_change_def Let_def res_bind_Inr_iff row_u64_Inr_iff)

lemma get_changes_ids:
  assumes "get_bundle_change_records limit v = (Inr events, v')"
  shows "v' = v" and "map bre_event_id events = map ch_event_id (take (unat limit) (sort_key ch_event_id (vt_changes (vd_conn (vo_db v)))))"
  using assms by (auto simp: get_bundle_change_records_def with_vdb_def db_get_bundle_change_records_def st_bind_Inr_iff u64_to_i64_Inr_iff
      intro!: collect_rows_map row_to_change_event_id split: prod.splits)

lemma remove_changes_rows:
  assumes "remove_bundle_change_records n v = (Inr u, v')"
  shows "vt_changes (vd_conn (vo_db v')) = filter (\<lambda>r. \<not> ch_event_id r \<le> n) (vt_changes (vd_conn (vo_db v)))"
  using assms by (auto simp: remove_bundle_change_records_def with_vdb_def db_remove_bundle_change_records_def st_bind_Inr_iff
      u64_to_i64_Inr_iff update_conn_def split: prod.splits)

lemma central_report_sent:
  "central_report_bundle_replica E events s = (Inr (), s') \<Longrightarrow>
     ss_sent s' = ss_sent s @ [protocol_request.Control (control_request.ReportBundleReplica events)]"
  by (auto simp: central_report_bundle_replica_def connection_or_unavailable_def central_rpc_def st_bind_Inr_iff split: if_splits)

lemma report_turn_TrueE:
  assumes "report_turn E i s = (Inr True, s')"
  obtains v v' events where "hm_get (ss_volumes s) i = Some v" "get_bundle_change_records 128 v = (Inr events, v)" "events \<noteq> []"
    "remove_bundle_change_records (bre_event_id (last (sort_key bre_event_id events))) v = (Inr (), v')"
    "hm_get (ss_volumes s') i = Some v'"
    "ss_sent s' = ss_sent s @ [protocol_request.Control (control_request.ReportBundleReplica (sort_key bre_event_id events))]"
proof -
  from assms obtain events s1 s2 where
    get: "with_volume i (get_bundle_change_records 128) s = (Inr events, s1)" and ne: "events \<noteq> []"
    and rep: "central_report_bundle_replica E (sort_key bre_event_id events) s1 = (Inr (), s2)"
    and rem: "with_volume i (remove_bundle_change_records (bre_event_id (last (sort_key bre_event_id events)))) s2 = (Inr (), s')"
    by (auto simp: report_turn_def Let_def st_bind_Inr_iff split: if_splits)
  from get obtain v v1 where v: "hm_get (ss_volumes s) i = Some v" and g: "get_bundle_change_records 128 v = (Inr events, v1)"
    and s1: "s1 = s\<lparr> ss_volumes := hm_insert i v1 (ss_volumes s) \<rparr>"
    by (auto elim: with_volume_cases)
  have v1: "v1 = v" using get_changes_ids(1) [OF g] .
  have v2: "hm_get (ss_volumes s2) i = Some v" using central_report_volumes [OF rep] v1 by (simp add: s1 update_conv)
  from rem v2 obtain v3 where r: "remove_bundle_change_records (bre_event_id (last (sort_key bre_event_id events))) v = (Inr (), v3)"
    and s': "s' = s2\<lparr> ss_volumes := hm_insert i v3 (ss_volumes s2) \<rparr>"
    by (auto elim: with_volume_cases)
  have "hm_get (ss_volumes s') i = Some v3" by (simp add: s' update_conv)
  moreover have "ss_sent s' = ss_sent s @ [protocol_request.Control (control_request.ReportBundleReplica (sort_key bre_event_id events))]"
    using central_report_sent [OF rep] by (simp add: s' s1)
  ultimately show thesis using that v g v1 ne r by blast
qed

lemma report_turn_decreases:
  assumes "report_turn E i s = (Inr True, s')"
  shows "change_count i s' < change_count i s"
proof -
  from assms obtain v v' events where v: "hm_get (ss_volumes s) i = Some v" "hm_get (ss_volumes s') i = Some v'"
    and g: "get_bundle_change_records 128 v = (Inr events, v)" "events \<noteq> []"
    and r: "remove_bundle_change_records (bre_event_id (last (sort_key bre_event_id events))) v = (Inr (), v')"
    by (elim report_turn_TrueE)
  let ?m = "bre_event_id (last (sort_key bre_event_id events))" and ?rows = "vt_changes (vd_conn (vo_db v))"
  have "last (sort_key bre_event_id events) \<in> set events" using g(2) by (metis last_in_set set_empty set_sort)
  then have "?m \<in> set (map bre_event_id events)" by simp
  then have "?m \<in> ch_event_id ` set ?rows" unfolding get_changes_ids(2) [OF g(1)] by (auto dest: in_set_takeD)
  then obtain row where "row \<in> set ?rows" "\<not> \<not> ch_event_id row \<le> ?m" by auto
  then have "length (filter (\<lambda>r. \<not> ch_event_id r \<le> ?m) ?rows) < length ?rows" by (rule length_filter_less)
  then show ?thesis using v by (simp add: change_count_def remove_changes_rows [OF r])
qed

function report_loop :: "'h storage_env \<Rightarrow> u64 \<Rightarrow> unit storage_op" where
  "report_loop E volume_id s =
     (case report_turn E volume_id s of
        (Inl e, s') \<Rightarrow> (Inl e, s')
      | (Inr again, s') \<Rightarrow> if again then report_loop E volume_id s' else (Inr (), s'))"
  by pat_completeness auto
termination
  by (relation "measure (\<lambda>(E, volume_id, s). change_count volume_id s)") (auto intro: report_turn_decreases)

declare report_loop.simps [simp del]

definition sync_volume :: "'h storage_env \<Rightarrow> u64 \<Rightarrow> unit storage_op" where
  "sync_volume E volume_id =
     st_bind (report_loop E volume_id) (\<lambda>_.
     st_bind (with_volume volume_id (st_gets (\<lambda>v. vm_active_volume_offset (vd_meta (vo_db v))))) (\<lambda>max_volume_offset.
     central_update_storage_volume_offset E volume_id max_volume_offset))"

definition sync_all :: "'h storage_env \<Rightarrow> unit storage_op" where
  "sync_all E = st_bind (st_gets (\<lambda>s. sort (map fst (ss_volumes s)))) (st_iter (sync_volume E))"

section \<open>Control requests\<close>

definition grant_upload_lease :: "grant_upload_lease_request \<Rightarrow> control_response storage_op" where
  "grant_upload_lease lease = (\<lambda>s.
     if hm_get (ss_volumes s) (gul_volume_id lease) = None then (Inl UnknownVolume, s)
     else (Inr (control_response.GrantUploadLease (gul_lease_id lease)),
       s\<lparr> ss_upload_leases := hm_insert (gul_lease_id lease)
         \<lparr> uls_file_id = gul_file_id lease, uls_volume_id = gul_volume_id lease, uls_expires_at_ms = gul_expires_at_ms lease \<rparr>
         (ss_upload_leases s) \<rparr>))"

definition revoke_upload_lease :: "u64 \<Rightarrow> control_response storage_op" where
  "revoke_upload_lease lease_id = (\<lambda>s.
     (Inr control_response.RevokeUploadLease, s\<lparr> ss_upload_leases := hm_remove lease_id (ss_upload_leases s) \<rparr>))"

fun storage_control_request :: "control_request \<Rightarrow> control_response storage_op" where
  "storage_control_request (control_request.GrantUploadLease lease) = grant_upload_lease lease"
| "storage_control_request (control_request.RevokeUploadLease lease_id) = revoke_upload_lease lease_id"
| "storage_control_request _ = st_throw InvalidRequest"

fun central_connection_request :: "protocol_request \<Rightarrow> storage_server \<Rightarrow> protocol_response \<times> storage_server" where
  "central_connection_request (protocol_request.Control request) s =
     (case storage_control_request request s of
        (Inr response, s') \<Rightarrow> (protocol_response.Control response, s')
      | (Inl e, s') \<Rightarrow> (Error e, s'))"
| "central_connection_request _ s = (Error InvalidRequest, s)"

section \<open>Data requests\<close>

text \<open>The block that \<open>upload_chunk\<close> and \<open>commit_bundle\<close> start with: expired leases go, the one named has to fit.\<close>

definition check_upload_lease :: "u64 \<Rightarrow> u64 \<Rightarrow> u64 \<Rightarrow> u64 \<Rightarrow> unit storage_op" where
  "check_upload_lease now lease_id file_id volume_id = (\<lambda>s.
     let leases = filter (\<lambda>(_, lease). now < uls_expires_at_ms lease) (ss_upload_leases s);
         s' = s\<lparr> ss_upload_leases := leases \<rparr> in
     case hm_get leases lease_id of
       Some lease \<Rightarrow>
         if uls_file_id lease = file_id \<and> uls_volume_id lease = volume_id then (Inr (), s') else (Inl Unauthorized, s')
     | None \<Rightarrow> (Inl Unauthorized, s'))"

definition has_chunk :: "u64 \<Rightarrow> hash_id \<Rightarrow> data_response storage_op" where
  "has_chunk volume_id chunk_id = (\<lambda>s.
     case with_volume volume_id (vol_chunk_meta chunk_id) s of
       (Inr meta, s') \<Rightarrow> (Inr (data_response.HasChunk True (Some (cm_raw_len meta)) (Some (cm_compressed_len meta))), s')
     | (Inl (ChunkNotFound _), s') \<Rightarrow> (Inr (data_response.HasChunk False None None), s')
     | (Inl e, s') \<Rightarrow> (Inl e, s'))"

text \<open>On a machine with 64 bits \<open>raw_len\<close> is a \<open>usize\<close>.\<close>

definition check_chunk_hash :: "'h storage_env \<Rightarrow> upload_chunk_request \<Rightarrow> unit fs0_result" where
  "check_chunk_hash E request =
     res_bind (zstd_decompress (se_zstd E) (ucr_compressed_bytes request) (unat (ucr_raw_len request))) (\<lambda>raw.
     if (of_nat (length raw) :: u64) \<noteq> ucr_raw_len request
     then Inl (InvalidData (''decompressed chunk length '' @ show_nat (length raw) @ '' does not match raw_len '' @
            show_u64 (ucr_raw_len request)))
     else if blake3_hash (se_blake3 E) raw \<noteq> ucr_chunk_id request then Inl (HashMismatch 0)
     else Inr ())"

definition upload_chunk :: "'h storage_env \<Rightarrow> upload_chunk_request \<Rightarrow> data_response storage_op" where
  "upload_chunk E request =
     st_bind (check_upload_lease (se_now E) (ucr_lease_id request) (ucr_file_id request) (ucr_volume_id request)) (\<lambda>_.
     st_bind (st_gets ss_config) (\<lambda>config.
     st_bind (st_lift (if sc_check_hash_before_write config then check_chunk_hash E request else Inr ())) (\<lambda>_.
     st_bind (with_volume (ucr_volume_id request)
       (put_chunk (se_blake3 E) (se_now E) (se_disk E) (ucr_chunk_id request) (ucr_raw_len request) (ucr_compressed_bytes request))) (\<lambda>meta.
     st_return (data_response.UploadChunk \<lparr> ucs_chunk_id = ucr_chunk_id request, ucs_raw_len = cm_raw_len meta,
       ucs_compressed_len = cm_compressed_len meta \<rparr>)))))"

definition download_chunk :: "'h storage_env \<Rightarrow> download_chunk_request \<Rightarrow> data_response storage_op" where
  "download_chunk E request =
     st_bind (with_volume (dcr_volume_id request) (read_chunk (se_disk E) (dcr_chunk_id request))) (\<lambda>(_, bytes).
     st_return (data_response.DownloadChunk bytes))"

fun sum_bundle_lens :: "bundle_chunk_ref list \<Rightarrow> u64 \<Rightarrow> u64 \<Rightarrow> (u64 \<times> u64) vol" where
  "sum_bundle_lens [] raw_len compressed_len = st_return (raw_len, compressed_len)"
| "sum_bundle_lens (chunk # chunks) raw_len compressed_len =
     st_bind (vol_chunk_meta (bcr_chunk_id chunk)) (\<lambda>meta.
     st_bind (st_lift (ok_or (IntegerConversion ''bundle raw_len overflow'') (checked_add raw_len (cm_raw_len meta)))) (\<lambda>raw_len.
     st_bind (st_lift (ok_or (IntegerConversion ''bundle compressed_len overflow'')
       (checked_add compressed_len (cm_compressed_len meta)))) (\<lambda>compressed_len.
     sum_bundle_lens chunks raw_len compressed_len)))"

definition bundle_lens :: "hash_id \<Rightarrow> ((u64 \<times> u64) option) vol" where
  "bundle_lens bundle_id = (\<lambda>v.
     case list_bundle_chunks bundle_id v of
       (Inr chunks, v') \<Rightarrow> st_bind (sum_bundle_lens chunks 0 0) (\<lambda>lens. st_return (Some lens)) v'
     | (Inl (BundleNotFound _), v') \<Rightarrow> (Inr None, v')
     | (Inl e, v') \<Rightarrow> (Inl e, v'))"

definition has_bundle :: "u64 \<Rightarrow> hash_id \<Rightarrow> data_response storage_op" where
  "has_bundle volume_id bundle_id =
     st_bind (with_volume volume_id (bundle_lens bundle_id)) (\<lambda>lens.
     st_return (case lens of
        Some (raw_len, compressed_len) \<Rightarrow> data_response.HasBundle True (Some raw_len) (Some compressed_len)
      | None \<Rightarrow> data_response.HasBundle False None None))"

definition storage_commit_bundle :: "'h storage_env \<Rightarrow> commit_bundle_request \<Rightarrow> data_response storage_op" where
  "storage_commit_bundle E request =
     st_bind (check_upload_lease (se_now E) (cbr_lease_id request) (cbr_file_id request) (cbr_volume_id request)) (\<lambda>_.
     st_bind (with_volume (cbr_volume_id request)
       (commit_bundle (se_blake3 E) (se_commit E) (cbr_bundle_id request) (cbr_chunks request))) (\<lambda>bundle.
     st_bind (sync_volume E (cbr_volume_id request)) (\<lambda>_.
     st_return (data_response.CommitBundle \<lparr> cbs_bundle_id = cbr_bundle_id request, cbs_raw_len = bm_raw_len bundle,
       cbs_compressed_len = bm_compressed_len bundle \<rparr>))))"

definition storage_list_bundle_chunks :: "u64 \<Rightarrow> hash_id \<Rightarrow> data_response storage_op" where
  "storage_list_bundle_chunks volume_id bundle_id =
     st_bind (with_volume volume_id (list_bundle_chunks bundle_id)) (\<lambda>chunks. st_return (data_response.ListBundleChunks chunks))"

fun handle_data_request :: "'h storage_env \<Rightarrow> data_request \<Rightarrow> data_response storage_op" where
  "handle_data_request E (data_request.Authenticate _ _) = st_throw InvalidRequest"
| "handle_data_request E (data_request.HasChunk volume_id chunk_id) = has_chunk volume_id chunk_id"
| "handle_data_request E (data_request.UploadChunk request) = upload_chunk E request"
| "handle_data_request E (data_request.DownloadChunk request) = download_chunk E request"
| "handle_data_request E (data_request.HasBundle volume_id bundle_id) = has_bundle volume_id bundle_id"
| "handle_data_request E (data_request.CommitBundle request) = storage_commit_bundle E request"
| "handle_data_request E (data_request.ListBundleChunks volume_id bundle_id) = storage_list_bundle_chunks volume_id bundle_id"

text \<open>
  A request on a data connection: before the client has authenticated only that is accepted, afterwards
  everything else. The first component of the state is the client of the connection.
\<close>

fun data_connection_request ::
  "'h storage_env \<Rightarrow> protocol_request \<Rightarrow> u64 option \<times> storage_server \<Rightarrow> data_response fs0_result \<times> (u64 option \<times> storage_server)" where
  "data_connection_request E (protocol_request.Data (data_request.Authenticate client_id client_token)) (None, s) =
     (case central_validate_client_auth E client_id client_token s of
        (Inr _, s') \<Rightarrow> (Inr (data_response.Authenticate client_id), (Some client_id, s'))
      | (Inl e, s') \<Rightarrow> (Inl e, (None, s')))"
| "data_connection_request E _ (None, s) = (Inl Unauthorized, (None, s))"
| "data_connection_request E (protocol_request.Data (data_request.Authenticate _ _)) (Some c, s) = (Inl InvalidRequest, (Some c, s))"
| "data_connection_request E (protocol_request.Data request) (Some c, s) =
     (case handle_data_request E request s of (r, s') \<Rightarrow> (r, (Some c, s')))"
| "data_connection_request E _ (Some c, s) = (Inl InvalidRequest, (Some c, s))"

definition data_connection_respond ::
  "'h storage_env \<Rightarrow> protocol_request \<Rightarrow> u64 option \<times> storage_server \<Rightarrow> protocol_response \<times> (u64 option \<times> storage_server)" where
  "data_connection_respond E request st =
     (case data_connection_request E request st of
        (Inr response, st') \<Rightarrow> (protocol_response.Data response, st')
      | (Inl e, st') \<Rightarrow> (Error e, st'))"

end
