(* ===== verification/Storage_Safety.thy ===== *)
theory Storage_Safety
  imports Storage_Server
begin

text \<open>
  What a storage server keeps: every volume it holds satisfies the invariant of volumes and is filed under its
  own identifier; only authenticated connections reach the volumes; chunks and bundles are written only under an
  upload lease that fits and has not expired; the reporter leaves no change unreported.
\<close>

section \<open>The invariant\<close>

definition volumes_ok :: "'h blake3 \<Rightarrow> (u64, volume) hmap \<Rightarrow> bool" where
  "volumes_ok B vs \<longleftrightarrow> (\<forall>i v. hm_get vs i = Some v \<longrightarrow> volume_inv B (v, []) \<and> vm_volume_id (vd_meta (vo_db v)) = i)"

text \<open>What an operation does to a volume is steps of the volume, whatever puts are in flight on it.\<close>

definition vol_keeps :: "'h blake3 \<Rightarrow> volume \<Rightarrow> volume \<Rightarrow> bool" where
  "vol_keeps B v v' \<longleftrightarrow> (\<forall>ps. (volume_step B)\<^sup>*\<^sup>* (v, ps) (v', ps))"

interpretation volk: step_order "vol_keeps B"
  by unfold_locales (auto simp: vol_keeps_def intro: rtranclp_trans)

definition storage_keeps :: "'h blake3 \<Rightarrow> storage_server \<Rightarrow> storage_server \<Rightarrow> bool" where
  "storage_keeps B s s' \<longleftrightarrow> ss_config s' = ss_config s \<and> ss_storage_id s' = ss_storage_id s \<and> ss_connected s' = ss_connected s \<and>
     ss_last_reported_endpoint s' = ss_last_reported_endpoint s \<and> set (ss_sent s) \<subseteq> set (ss_sent s') \<and>
     (hm_ok (ss_upload_leases s) \<longrightarrow> hm_ok (ss_upload_leases s') \<and> hm_get (ss_upload_leases s') \<subseteq>\<^sub>m hm_get (ss_upload_leases s)) \<and>
     dom (hm_get (ss_volumes s')) = dom (hm_get (ss_volumes s)) \<and>
     (\<forall>i v v'. hm_get (ss_volumes s) i = Some v \<longrightarrow> hm_get (ss_volumes s') i = Some v' \<longrightarrow> vol_keeps B v v')"

interpretation skeep: step_order "storage_keeps B"
proof
  show "storage_keeps B s s" for s by (auto simp: storage_keeps_def volk.step_refl)
next
  fix s t u assume st: "storage_keeps B s t" and tu: "storage_keeps B t u"
  have "vol_keeps B v w" if v: "hm_get (ss_volumes s) i = Some v" and w: "hm_get (ss_volumes u) i = Some w" for i v w
  proof -
    have "i \<in> dom (hm_get (ss_volumes t))" using st v unfolding storage_keeps_def by blast
    then obtain x where "hm_get (ss_volumes t) i = Some x" by blast
    then show ?thesis using st tu v w unfolding storage_keeps_def by (blast intro: volk.step_trans)
  qed
  then show "storage_keeps B s u" using st tu by (auto simp: storage_keeps_def intro: map_le_trans)
qed

lemma skeep_with_volume:
  assumes "st_rel (vol_keeps B) m"
  shows "st_rel (storage_keeps B) (with_volume i m)"
proof (rule st_relI)
  fix s
  obtain r s' where res: "with_volume i m s = (r, s')" by force
  then have "storage_keeps B s s'"
  proof (cases rule: with_volume_cases)
    case (2 v v')
    then have "vol_keeps B v v'" using st_relD [OF assms] by blast
    with 2 show ?thesis by (auto simp: storage_keeps_def update_conv volk.step_refl split: if_splits)
  qed (simp add: skeep.step_refl)
  with res show "storage_keeps B s (snd (with_volume i m s))" by simp
qed

lemma skeep_lease: "st_rel (storage_keeps B) (check_upload_lease now l f v)"
proof (rule st_relI)
  fix s :: storage_server
  let ?ls = "filter (\<lambda>(_, lease). now < uls_expires_at_ms lease) (ss_upload_leases s)"
  have "hm_ok (ss_upload_leases s) \<Longrightarrow> hm_ok ?ls \<and> hm_get ?ls \<subseteq>\<^sub>m hm_get (ss_upload_leases s)"
    using map_of_filter_value [of "ss_upload_leases s" "\<lambda>lease. now < uls_expires_at_ms lease"]
    by (auto simp: hm_ok_filter map_le_def split: option.splits if_splits)
  moreover have "snd (check_upload_lease now l f v s) = s\<lparr> ss_upload_leases := ?ls \<rparr>"
    by (simp add: check_upload_lease_def Let_def split: option.splits)
  ultimately show "storage_keeps B s (snd (check_upload_lease now l f v s))" by (simp add: storage_keeps_def volk.step_refl)
qed

lemma skeep_central:
  "st_rel (storage_keeps B) (central_rpc E q)" "st_rel (storage_keeps B) connection_or_unavailable"
  by (auto simp: st_rel_def storage_keeps_def volk.step_refl central_rpc_def connection_or_unavailable_def)

lemma skeep_validate: "st_rel (storage_keeps B) (central_validate_client_auth E c t)"
  unfolding central_validate_client_auth_def by (intro skeep.rel_intros skeep_central)

lemma skeep_report: "st_rel (storage_keeps B) (central_report_bundle_replica E events)"
  unfolding central_report_bundle_replica_def by (intro skeep.rel_intros skeep_central)

lemma skeep_offset: "st_rel (storage_keeps B) (central_update_storage_volume_offset E i off)"
  unfolding central_update_storage_volume_offset_def by (intro skeep.rel_intros skeep_central)

section \<open>Operations on volumes\<close>

lemma volkI: "(\<And>v r v' ps. m v = (r, v') \<Longrightarrow> volume_step B (v, ps) (v', ps)) \<Longrightarrow> st_rel (vol_keeps B) m"
  unfolding st_rel_def vol_keeps_def by (blast intro: r_into_rtranclp surjective_pairing)

lemma volk_chunk_meta: "st_rel (vol_keeps B) (vol_chunk_meta i)"
  by (auto simp: st_rel_def vol_keeps_def vol_chunk_meta_def with_vdb_def load_chunk_def split: prod.splits)

lemmas volk_reads = volkI [OF volume_step.reads] volkI [OF volume_step.lists_bundle] volkI [OF volume_step.gets_changes]
lemmas volk_writes = volkI [OF volume_step.commits_bundle] volkI [OF volume_step.removes_changes]

lemma volk_sum: "st_rel (vol_keeps B) (sum_bundle_lens cs a b)"
  by (induction cs arbitrary: a b) (auto intro!: volk.rel_intros volk_chunk_meta)

lemma volk_bundle_lens: "st_rel (vol_keeps B) (bundle_lens b)"
proof (rule st_relI)
  fix v
  obtain r v1 where l: "list_bundle_chunks b v = (r, v1)" by force
  then have "vol_keeps B v v1" using volk_reads(2) by (rule st_relD [rotated])
  moreover have "st_rel (vol_keeps B) (st_bind (sum_bundle_lens cs 0 0) (\<lambda>lens. st_return (Some lens)))" for cs
    by (intro volk.rel_bind volk_sum volk.rel_return)
  then have "vol_keeps B v1 (snd (st_bind (sum_bundle_lens cs 0 0) (\<lambda>lens. st_return (Some lens)) v1))" for cs
    by (simp add: st_rel_def)
  ultimately show "vol_keeps B v (snd (bundle_lens b v))"
    by (auto simp: bundle_lens_def l intro: volk.step_trans split: sum.splits fs0_error.splits)
qed

text \<open>A put that runs alone is the steps of its parts.\<close>

lemma volk_put:
  assumes "hash_ok i" and "length bytes < 2 ^ 63"
  shows "st_rel (vol_keeps B) (put_chunk B now E i raw bytes)"
proof (rule st_relI)
  fix v
  obtain r v1 where b: "put_begin B now i raw bytes v = (r, v1)" by force
  show "vol_keeps B v (snd (put_chunk B now E i raw bytes v))"
  proof (cases "\<exists>c. r = Inr (Insert c)")
    case False
    then have "volume_step B (v, ps) (v1, ps)" for ps using volume_step.put_answers [OF b _ assms(2)] by blast
    moreover have "snd (put_chunk B now E i raw bytes v) = v1"
      using False b by (auto simp: put_chunk_def st_bind_def split: sum.splits put_plan.splits)
    ultimately show ?thesis by (auto simp: vol_keeps_def)
  next
    case True
    then obtain c where r: "r = Inr (Insert c)" by blast
    let ?p = "\<lparr> pf_chunk = c, pf_bytes = bytes, pf_written = False \<rparr>"
    obtain w v2 where w: "write_compressed_bytes E (cm_volume_offset c) bytes v1 = (w, v2)" by force
    have start: "volume_step B (v, ps) (v1, ps @ [?p])" for ps using volume_step.put_starts [OF b [unfolded r] assms] .
    show ?thesis
    proof (cases w)
      case (Inl e)
      then have "volume_step B (v1, ps @ [?p]) (v2, ps)" for ps
        using volume_step.put_fails [of E ?p v1 e v2 B ps "[]"] w by simp
      moreover have "snd (put_chunk B now E i raw bytes v) = v2" using b r w Inl by (simp add: put_chunk_def st_bind_def)
      ultimately show ?thesis using start unfolding vol_keeps_def by (metis converse_rtranclp_into_rtranclp r_into_rtranclp)
    next
      case (Inr u)
      obtain f v3 where f: "put_finish c v2 = (f, v3)" by force
      have "volume_step B (v1, ps @ [?p]) (v2, ps @ [?p\<lparr> pf_written := True \<rparr>])" for ps
        using volume_step.put_writes [of E ?p v1 v2 B ps "[]"] w Inr by simp
      moreover have "volume_step B (v2, ps @ [?p\<lparr> pf_written := True \<rparr>]) (v3, ps)" for ps
        using volume_step.put_ends [of "?p\<lparr> pf_written := True \<rparr>" v2 f v3 B ps "[]"] f by simp
      moreover have "snd (put_chunk B now E i raw bytes v) = v3" using b r w Inr f by (simp add: put_chunk_def st_bind_def)
      ultimately show ?thesis using start unfolding vol_keeps_def by (metis converse_rtranclp_into_rtranclp r_into_rtranclp)
    qed
  qed
qed

text \<open>So the invariant of the volumes is kept, with their identifiers.\<close>

lemma vdb_keeps_id: "st_rel vdb_keeps m \<Longrightarrow> with_vdb m v = (r, v') \<Longrightarrow> vdb_ok (vo_db v) \<Longrightarrow> vd_meta (vo_db v') = vd_meta (vo_db v)"
  using st_relD [of vdb_keeps m "vo_db v" r "vo_db v'"] by (simp add: with_vdb_eq vdb_keeps_def)

lemma volume_step_id:
  assumes step: "volume_step B s s'" and inv: "volume_inv B s"
  shows "vm_volume_id (vd_meta (vo_db (fst s'))) = vm_volume_id (vd_meta (vo_db (fst s)))"
proof -
  have ok: "vdb_ok (vo_db (fst s))" using inv by (cases s) (simp add: volume_inv_unfold)
  show ?thesis
    using step
  proof cases
    case (put_starts now i raw bytes v c v' ps)
    with put_begin_spec [OF _ put_starts(5,3)] ok show ?thesis by auto
  next
    case (put_answers now i raw bytes v r v' ps)
    with put_begin_spec [OF _ put_answers(5,3)] ok show ?thesis by auto
  next
    case (commits_bundle e b chunks v r v' ps)
    with ok commit_bundle_spec [of v B e b chunks r v'] show ?thesis by (simp add: vdb_keeps_def)
  next
    case (lists_bundle b v r v' ps)
    with ok list_bundle_chunks_spec [of v b] show ?thesis by (simp add: Let_def)
  next
    case (deletes_bundle e b v r v' ps)
    with ok vdb_keeps_id [OF vkeep_db_delete_bundle] show ?thesis by (simp add: delete_bundle_def)
  next
    case (gets_changes limit v r v' ps)
    with ok vdb_keeps_id [OF vkeep_db_get_bundle_change_records] show ?thesis by (simp add: get_bundle_change_records_def)
  next
    case (removes_changes n v r v' ps)
    with ok vdb_keeps_id [OF vkeep_db_remove_bundle_change_records] show ?thesis by (simp add: remove_bundle_change_records_def)
  next
    case (restarts path v v' ps)
    with inv volume_inv_restarts(2) [of B v ps path v'] show ?thesis by simp
  next
    case (reads E i v r v' ps)
    with inv volume_inv_reads(2) [of B v ps E i r v'] show ?thesis by simp
  next
    case (put_ends p v r v' ps qs)
    then show ?thesis by (simp add: put_finish_meta)
  next
    case (deletes_chunk i v r v' ps)
    then show ?thesis by (auto simp: delete_chunk_def with_vdb_eq db_delete_chunk_def update_conn_def split: if_splits dest!: sym [of _ "vo_db v'"])
  qed (auto simp: write_compressed_bytes_def with_files_def close_idle_data_files_def split: prod.splits)
qed

lemma volume_steps_inv:
  assumes "(volume_step B)\<^sup>*\<^sup>* s s'" and "volume_inv B s" and "blake3_ok B"
  shows "volume_inv B s' \<and> vm_volume_id (vd_meta (vo_db (fst s'))) = vm_volume_id (vd_meta (vo_db (fst s)))"
  using assms by (induction rule: rtranclp_induct) (auto intro: volume_inv_step simp: volume_step_id)

lemma storage_keeps_ok:
  assumes "storage_keeps B s s'" and "volumes_ok B (ss_volumes s)" and "blake3_ok B"
  shows "volumes_ok B (ss_volumes s')"
  unfolding volumes_ok_def
proof (intro allI impI)
  fix i v' assume v': "hm_get (ss_volumes s') i = Some v'"
  then obtain v where v: "hm_get (ss_volumes s) i = Some v" using assms(1) unfolding storage_keeps_def by (metis domD domI)
  with v' have "(volume_step B)\<^sup>*\<^sup>* (v, []) (v', [])" using assms(1) by (simp add: storage_keeps_def vol_keeps_def)
  from volume_steps_inv [OF this _ assms(3)] v assms(2)
  show "volume_inv B (v', []) \<and> vm_volume_id (vd_meta (vo_db v')) = i" by (simp add: volumes_ok_def)
qed

section \<open>Requests\<close>

text \<open>What deserialising a request guarantees: a \<open>HashId\<close> has 32 bytes and a vector fewer than \<open>2 ^ 63\<close>.\<close>

fun data_request_ok :: "data_request \<Rightarrow> bool" where
  "data_request_ok (data_request.UploadChunk q) \<longleftrightarrow> hash_ok (ucr_chunk_id q) \<and> length (ucr_compressed_bytes q) < 2 ^ 63"
| "data_request_ok _ \<longleftrightarrow> True"

lemma skeep_has_chunk: "st_rel (storage_keeps B) (has_chunk i c)"
proof (rule st_relI)
  fix s
  have "storage_keeps B s (snd (with_volume i (vol_chunk_meta c) s))"
    using skeep_with_volume [OF volk_chunk_meta [of B]] by (simp add: st_rel_def)
  then show "storage_keeps B s (snd (has_chunk i c s))"
    by (auto simp: has_chunk_def split: prod.splits sum.splits fs0_error.splits)
qed

lemma skeep_upload:
  assumes "data_request_ok (data_request.UploadChunk q)"
  shows "st_rel (storage_keeps (se_blake3 E)) (upload_chunk E q)"
  using assms unfolding upload_chunk_def by (intro skeep.rel_intros skeep_lease skeep_with_volume volk_put) simp_all

lemma skeep_download: "st_rel (storage_keeps B) (download_chunk E q)"
proof -
  have "st_rel (storage_keeps B) (case x of (a, bytes) \<Rightarrow> st_return (f a bytes))" for x and f :: "chunk_meta \<Rightarrow> u8 list \<Rightarrow> data_response"
    by (cases x) (simp add: skeep.rel_return)
  then show ?thesis unfolding download_chunk_def by (intro skeep.rel_bind skeep_with_volume volk_reads(1))
qed

lemma skeep_has_bundle: "st_rel (storage_keeps B) (has_bundle i b)"
  unfolding has_bundle_def by (intro skeep.rel_intros skeep_with_volume volk_bundle_lens)

lemma skeep_list: "st_rel (storage_keeps B) (storage_list_bundle_chunks i b)"
  unfolding storage_list_bundle_chunks_def by (intro skeep.rel_intros skeep_with_volume volk_reads(2))

lemma skeep_turn: "st_rel (storage_keeps B) (report_turn E i)"
  unfolding report_turn_def Let_def
  by (intro skeep.rel_intros skeep_with_volume volk_reads(3) volk_writes(2) skeep_report)

lemma skeep_loop: "storage_keeps B s (snd (report_loop E i s))"
proof (induction E i s rule: report_loop.induct)
  case (1 E i s)
  obtain r s1 where t: "report_turn E i s = (r, s1)" by force
  have k: "storage_keeps B s s1" using skeep_turn t by (rule st_relD)
  show ?case
  proof (cases "r = Inr True")
    case True
    have "storage_keeps B s1 (snd (report_loop E i s1))" using 1 [OF t [symmetric] True] by simp
    with k show ?thesis using True t by (subst report_loop.simps) (auto intro: skeep.step_trans)
  next
    case False
    then show ?thesis using k t by (subst report_loop.simps) (auto split: sum.splits)
  qed
qed

lemma skeep_sync: "st_rel (storage_keeps B) (sync_volume E i)"
  unfolding sync_volume_def
  by (intro skeep.rel_intros skeep_with_volume volk.rel_gets skeep_offset) (simp add: st_rel_def skeep_loop)

lemma skeep_commit: "st_rel (storage_keeps (se_blake3 E)) (storage_commit_bundle E q)"
  unfolding storage_commit_bundle_def by (intro skeep.rel_intros skeep_lease skeep_with_volume volk_writes(1) skeep_sync)

lemma skeep_data_request:
  assumes "data_request_ok q"
  shows "st_rel (storage_keeps (se_blake3 E)) (handle_data_request E q)"
  using assms
  by (cases q) (simp_all add: skeep.rel_throw skeep_has_chunk skeep_upload skeep_download skeep_has_bundle skeep_commit skeep_list)

lemma data_connection_request_keeps:
  assumes "\<And>q. request = protocol_request.Data q \<Longrightarrow> data_request_ok q"
    and res: "data_connection_request E request (c, s) = (r, (c', s'))"
  shows "storage_keeps (se_blake3 E) s s'"
proof -
  have h: "handle_data_request E q s = (r', s'') \<Longrightarrow> request = protocol_request.Data q \<Longrightarrow> storage_keeps (se_blake3 E) s s''" for q r' s''
    using st_relD [OF skeep_data_request] assms(1) by blast
  have a: "central_validate_client_auth E i t s = (r', s'') \<Longrightarrow> storage_keeps (se_blake3 E) s s''" for i t r' s''
    using st_relD [OF skeep_validate] by blast
  show ?thesis
  proof (cases request)
    case (Data q)
    with res h a show ?thesis
      by (cases c; cases q) (auto simp: skeep.step_refl simp del: handle_data_request.simps split: prod.splits sum.splits)
  qed (use res in \<open>cases c; auto simp: skeep.step_refl\<close>)+
qed

lemma expect_control_Inr_iff:
  "expect_control E what accept response = Inr x \<longleftrightarrow> (\<exists>c. response = protocol_response.Control c \<and> accept c = Some x)"
  by (cases response) (auto simp: expect_control_def Let_def split: option.splits)

lemma accepts_validation:
  "(case c of control_response.ValidateClientAuth _ \<Rightarrow> Some () | _ \<Rightarrow> None) = Some u \<longleftrightarrow> (\<exists>j. c = control_response.ValidateClientAuth j)"
  by (cases c) auto

text \<open>Without authentication nothing is reached: volumes and leases stay, and only central's word makes a client known.\<close>

lemma unauthenticated_request:
  assumes "data_connection_request E request (None, s) = (r, (c', s'))"
  shows "ss_volumes s' = ss_volumes s \<and> ss_upload_leases s' = ss_upload_leases s \<and>
    (case c' of
       Some i \<Rightarrow> (\<exists>t. request = protocol_request.Data (data_request.Authenticate i t) \<and> ss_connected s \<and>
         (\<exists>j. se_rpc E (ss_sent s) (protocol_request.Control (control_request.ValidateClientAuth i t)) =
            Inr (protocol_response.Control (control_response.ValidateClientAuth j))) \<and> r = Inr (data_response.Authenticate i))
     | None \<Rightarrow> (\<exists>e. r = Inl e))"
proof (cases "\<exists>i t. request = protocol_request.Data (data_request.Authenticate i t)")
  case False
  then have "data_connection_request E request (None, s) = (Inl Unauthorized, (None, s))"
    by (cases request; simp) (rename_tac q, case_tac q; simp)
  with assms show ?thesis by auto
next
  case True
  then obtain i t where q: "request = protocol_request.Data (data_request.Authenticate i t)" by blast
  obtain r1 s1 where v: "central_validate_client_auth E i t s = (r1, s1)" by force
  have s1: "ss_volumes s1 = ss_volumes s \<and> ss_upload_leases s1 = ss_upload_leases s"
    using v by (auto simp: central_validate_client_auth_def connection_or_unavailable_def central_rpc_def st_bind_def
        split: prod.splits sum.splits if_splits)
  show ?thesis
  proof (cases r1)
    case (Inl e)
    with assms q v s1 show ?thesis by auto
  next
    case (Inr u)
    from v Inr have "ss_connected s \<and> (\<exists>j. se_rpc E (ss_sent s) (protocol_request.Control (control_request.ValidateClientAuth i t)) =
            Inr (protocol_response.Control (control_response.ValidateClientAuth j)))"
      by (auto simp: central_validate_client_auth_def connection_or_unavailable_def central_rpc_def st_bind_Inr_iff expect_control_Inr_iff
          accepts_validation split: if_splits)
    with assms q v s1 Inr show ?thesis by auto
  qed
qed

section \<open>Leases\<close>

definition lease_covers :: "u64 \<Rightarrow> u64 \<Rightarrow> u64 \<Rightarrow> u64 \<Rightarrow> storage_server \<Rightarrow> bool" where
  "lease_covers now lease_id file_id volume_id s \<longleftrightarrow>
     (case hm_get (ss_upload_leases s) lease_id of
        None \<Rightarrow> False
      | Some l \<Rightarrow> now < uls_expires_at_ms l \<and> uls_file_id l = file_id \<and> uls_volume_id l = volume_id)"

lemma check_upload_lease_spec:
  assumes "hm_ok (ss_upload_leases s)"
  shows "check_upload_lease now l f i s =
    (if lease_covers now l f i s then Inr () else Inl Unauthorized,
     s\<lparr> ss_upload_leases := filter (\<lambda>(_, lease). now < uls_expires_at_ms lease) (ss_upload_leases s) \<rparr>)"
  using map_of_filter_value [OF assms, of "\<lambda>lease. now < uls_expires_at_ms lease" l]
  by (auto simp: check_upload_lease_def lease_covers_def Let_def split: option.splits)

lemma upload_chunk_unauthorized:
  assumes "hm_ok (ss_upload_leases s)" and "\<not> lease_covers (se_now E) (ucr_lease_id q) (ucr_file_id q) (ucr_volume_id q) s"
  shows "fst (upload_chunk E q s) = Inl Unauthorized \<and> ss_volumes (snd (upload_chunk E q s)) = ss_volumes s"
  using assms by (simp add: upload_chunk_def st_bind_def check_upload_lease_spec)

text \<open>An accepted upload is in the volume of its lease, and nowhere else.\<close>

lemma upload_chunk_Inr:
  assumes leases: "hm_ok (ss_upload_leases s)" and res: "upload_chunk E q s = (Inr response, s')"
  shows "lease_covers (se_now E) (ucr_lease_id q) (ucr_file_id q) (ucr_volume_id q) s \<and>
    (sc_check_hash_before_write (ss_config s) \<longrightarrow> check_chunk_hash E q = Inr ()) \<and>
    (\<exists>v v' c. hm_get (ss_volumes s) (ucr_volume_id q) = Some v \<and>
       put_chunk (se_blake3 E) (se_now E) (se_disk E) (ucr_chunk_id q) (ucr_raw_len q) (ucr_compressed_bytes q) v = (Inr c, v') \<and>
       hm_get (ss_volumes s') = (hm_get (ss_volumes s))(ucr_volume_id q \<mapsto> v') \<and>
       response = data_response.UploadChunk \<lparr> ucs_chunk_id = ucr_chunk_id q, ucs_raw_len = cm_raw_len c, ucs_compressed_len = cm_compressed_len c \<rparr>)"
proof -
  from res obtain s1 c where l: "check_upload_lease (se_now E) (ucr_lease_id q) (ucr_file_id q) (ucr_volume_id q) s = (Inr (), s1)"
    and chk: "(if sc_check_hash_before_write (ss_config s1) then check_chunk_hash E q else Inr ()) = Inr ()"
    and put: "with_volume (ucr_volume_id q) (put_chunk (se_blake3 E) (se_now E) (se_disk E) (ucr_chunk_id q) (ucr_raw_len q)
        (ucr_compressed_bytes q)) s1 = (Inr c, s')"
    and resp: "response = data_response.UploadChunk \<lparr> ucs_chunk_id = ucr_chunk_id q, ucs_raw_len = cm_raw_len c, ucs_compressed_len = cm_compressed_len c \<rparr>"
    by (auto simp: upload_chunk_def st_bind_Inr_iff)
  have cov: "lease_covers (se_now E) (ucr_lease_id q) (ucr_file_id q) (ucr_volume_id q) s" and s1: "ss_config s1 = ss_config s" "ss_volumes s1 = ss_volumes s"
    using l by (auto simp: check_upload_lease_spec [OF leases] split: if_splits)
  from put obtain v v' where v: "hm_get (ss_volumes s) (ucr_volume_id q) = Some v"
    and p: "put_chunk (se_blake3 E) (se_now E) (se_disk E) (ucr_chunk_id q) (ucr_raw_len q) (ucr_compressed_bytes q) v = (Inr c, v')"
    and s': "s' = s1\<lparr> ss_volumes := hm_insert (ucr_volume_id q) v' (ss_volumes s) \<rparr>"
    using s1 by (auto elim: with_volume_cases)
  have "hm_get (ss_volumes s') = (hm_get (ss_volumes s))(ucr_volume_id q \<mapsto> v')" by (simp add: s' fun_eq_iff update_conv)
  with cov chk v p resp show ?thesis unfolding s1(1) by (auto split: if_splits)
qed

text \<open>With the check of hashes, what is accepted decompresses to bytes whose length and hash are the ones that the request names.\<close>

definition content_as_named :: "'h storage_env \<Rightarrow> upload_chunk_request \<Rightarrow> bool" where
  "content_as_named E q \<longleftrightarrow>
     (\<exists>raw. z_decompress (se_zstd E) (ucr_compressed_bytes q) (unat (ucr_raw_len q)) = Inr raw \<and>
        (of_nat (length raw) :: u64) = ucr_raw_len q \<and> blake3_hash (se_blake3 E) raw = ucr_chunk_id q)"

lemma check_chunk_hash_Inr_iff: "check_chunk_hash E q = Inr () \<longleftrightarrow> content_as_named E q"
  by (auto simp: check_chunk_hash_def content_as_named_def zstd_decompress_def res_bind_Inr_iff split: sum.splits if_splits)

text \<open>Refused or not, an upload leaves the volumes that it does not name alone; refused for its content, every one.\<close>

lemma upload_chunk_frame:
  assumes leases: "hm_ok (ss_upload_leases s)" and res: "upload_chunk E q s = (r, s')"
  shows "(sc_check_hash_before_write (ss_config s) \<and> \<not> content_as_named E q \<longrightarrow> isl r \<and> ss_volumes s' = ss_volumes s) \<and>
    (\<forall>i. i \<noteq> ucr_volume_id q \<longrightarrow> hm_get (ss_volumes s') i = hm_get (ss_volumes s) i)"
proof -
  note st = res [unfolded upload_chunk_def st_bind_def check_upload_lease_spec [OF leases]]
  show ?thesis
  proof (cases "lease_covers (se_now E) (ucr_lease_id q) (ucr_file_id q) (ucr_volume_id q) s")
    case False
    with st have "isl r" "ss_volumes s' = ss_volumes s" by auto
    then show ?thesis by simp
  next
    case lease: True
    show ?thesis
    proof (cases "if sc_check_hash_before_write (ss_config s) then check_chunk_hash E q else Inr ()")
      case (Inl e)
      with st lease have "isl r" "ss_volumes s' = ss_volumes s" by auto
      then show ?thesis by simp
    next
      case (Inr u)
      then have content: "\<not> (sc_check_hash_before_write (ss_config s) \<and> \<not> content_as_named E q)"
        by (auto simp flip: check_chunk_hash_Inr_iff split: if_splits)
      have "\<forall>i. i \<noteq> ucr_volume_id q \<longrightarrow> hm_get (ss_volumes s') i = hm_get (ss_volumes s) i"
        using st lease Inr by (auto simp: with_volume_def update_conv split: option.splits prod.splits sum.splits)
      with content show ?thesis by blast
    qed
  qed
qed

text \<open>An upload and a later download on the same server.\<close>

lemma upload_then_download:
  assumes ok: "volumes_ok (se_blake3 E) (ss_volumes s)" "hm_ok (ss_upload_leases s)" "blake3_ok (se_blake3 E)"
    and q: "data_request_ok (data_request.UploadChunk q)"
    and up: "upload_chunk E q s = (Inr response, s')"
    and new: "\<And>v. hm_get (ss_volumes s) (ucr_volume_id q) = Some v \<Longrightarrow> chunk_row (vd_conn (vo_db v)) (ucr_chunk_id q) = None"
    and os: "de_open (se_disk E') = None" "io_fair (de_io (se_disk E'))"
  shows "fst (download_chunk E' \<lparr> dcr_volume_id = ucr_volume_id q, dcr_chunk_id = ucr_chunk_id q \<rparr> s') =
    Inr (data_response.DownloadChunk (ucr_compressed_bytes q))"
proof -
  obtain v v' c where v: "hm_get (ss_volumes s) (ucr_volume_id q) = Some v"
    and put: "put_chunk (se_blake3 E) (se_now E) (se_disk E) (ucr_chunk_id q) (ucr_raw_len q) (ucr_compressed_bytes q) v = (Inr c, v')"
    and s': "hm_get (ss_volumes s') (ucr_volume_id q) = Some v'"
    using upload_chunk_Inr [OF ok(2) up] by auto
  have inv: "volume_inv (se_blake3 E) (v, [])" using ok(1) v by (simp add: volumes_ok_def)
  note P = put_chunk_spec [OF inv ok(3) _ _ put]
  have "volume_inv (se_blake3 E) (v', [])" "chunk_row (vd_conn (vo_db v')) (ucr_chunk_id q) = Some c"
    "chunk_data (vo_files v') c = ucr_compressed_bytes q"
    using P q new [OF v] by simp_all
  from read_chunk_succeeds [OF this(1,2) os] this(3) obtain v'' where
    "read_chunk (se_disk E') (ucr_chunk_id q) v' = (Inr (c, ucr_compressed_bytes q), v'')" by auto
  with s' show ?thesis by (simp add: download_chunk_def with_volume_def)
qed

section \<open>The reporter\<close>

definition change_ids :: "u64 \<Rightarrow> storage_server \<Rightarrow> u64 list" where
  "change_ids i s = (case hm_get (ss_volumes s) i of None \<Rightarrow> [] | Some v \<Rightarrow> sort (map ch_event_id (vt_changes (vd_conn (vo_db v)))))"

definition report_of :: "bundle_replica_event list \<Rightarrow> protocol_request" where
  "report_of events = protocol_request.Control (control_request.ReportBundleReplica events)"

lemma sorted_le_last: "sorted xs \<Longrightarrow> x \<in> set xs \<Longrightarrow> x \<le> last xs"
  by (induction xs) auto

lemma filter_after_take:
  assumes "sorted_wrt (<) (xs :: 'a :: linorder list)" and "xs \<noteq> []" and "0 < n"
  shows "filter (\<lambda>x. \<not> x \<le> last (take n xs)) xs = drop n xs"
proof -
  have ne: "take n xs \<noteq> []" using assms by simp
  have "x \<le> last (take n xs)" if "x \<in> set (take n xs)" for x
  proof -
    have s: "sorted (take n xs)" using assms(1) by (simp add: sorted_wrt_take strict_sorted_iff)
    then show ?thesis using that by (rule sorted_le_last)
  qed
  moreover have "last (take n xs) < x" if "x \<in> set (drop n xs)" for x
  proof -
    have "sorted_wrt (<) (take n xs @ drop n xs)" using assms(1) by simp
    then show ?thesis using that ne last_in_set [OF ne] unfolding sorted_wrt_append by blast
  qed
  ultimately have "filter (\<lambda>x. \<not> x \<le> last (take n xs)) (take n xs) = []" "filter (\<lambda>x. \<not> x \<le> last (take n xs)) (drop n xs) = drop n xs"
    by (fastforce simp: filter_empty_conv filter_id_conv not_le)+
  then show ?thesis by (metis append_take_drop_id filter_append append_Nil)
qed

lemma map_insort_key: "map f (insort_key f x xs) = insort (f x) (map f xs)"
  by (induction xs) auto

lemma map_sort_key: "map f (sort_key f xs) = sort (map f xs)"
  by (induction xs) (auto simp: map_insort_key)

lemma report_turn_reports:
  assumes t: "report_turn E i s = (Inr True, s')" and d: "distinct (change_ids i s)"
  shows "\<exists>events. events \<noteq> [] \<and> length events \<le> 128 \<and> ss_sent s' = ss_sent s @ [report_of events] \<and>
      map bre_event_id events @ change_ids i s' = change_ids i s"
proof -
  from t obtain v v' events where v: "hm_get (ss_volumes s) i = Some v" "hm_get (ss_volumes s') i = Some v'"
    and g: "get_bundle_change_records 128 v = (Inr events, v)" "events \<noteq> []"
    and r: "remove_bundle_change_records (bre_event_id (last (sort_key bre_event_id events))) v = (Inr (), v')"
    and sent: "ss_sent s' = ss_sent s @ [protocol_request.Control (control_request.ReportBundleReplica (sort_key bre_event_id events))]"
    by (elim report_turn_TrueE)
  let ?rows = "vt_changes (vd_conn (vo_db v))" and ?ev = "sort_key bre_event_id events"
  let ?ids = "sort (map ch_event_id ?rows)"
  have ids: "map bre_event_id events = take 128 ?ids"
    unfolding get_changes_ids(2) [OF g(1)] by (simp add: map_sort_key flip: take_map)
  then have ev: "map bre_event_id ?ev = take 128 ?ids" by (simp add: map_sort_key sorted_sort_id sorted_wrt_take)
  have "?ev \<noteq> []" using g(2) by (metis set_empty set_sort)
  then have m: "bre_event_id (last ?ev) = last (take 128 ?ids)" by (simp add: ev flip: last_map)
  have strict: "sorted_wrt (<) ?ids" using d v(1) by (simp add: change_ids_def strict_sorted_iff)
  have "?ids \<noteq> []" using \<open>?ev \<noteq> []\<close> ev by auto
  have "change_ids i s' = sort (filter (\<lambda>x. \<not> x \<le> last (take 128 ?ids)) (map ch_event_id ?rows))"
    using v(2) by (simp add: change_ids_def remove_changes_rows [OF r] m filter_map comp_def)
  also have "\<dots> = filter (\<lambda>x. \<not> x \<le> last (take 128 ?ids)) ?ids" by (simp add: filter_sort)
  also have "\<dots> = drop 128 ?ids" using strict \<open>?ids \<noteq> []\<close> by (rule filter_after_take) simp
  finally have rest: "change_ids i s' = drop 128 ?ids" .
  have "length ?ev \<le> 128" using arg_cong [OF ev, of length] by simp
  moreover have "change_ids i s = ?ids" using v(1) by (simp add: change_ids_def)
  then have "map bre_event_id ?ev @ change_ids i s' = change_ids i s" unfolding ev rest by simp
  ultimately show ?thesis using \<open>?ev \<noteq> []\<close> sent by (auto simp: report_of_def)
qed

lemma report_turn_False:
  assumes "report_turn E i s = (Inr False, s')"
  shows "change_ids i s = []" and "change_ids i s' = []" and "ss_sent s' = ss_sent s"
proof -
  from assms obtain s1 where get: "with_volume i (get_bundle_change_records 128) s = (Inr [], s1)" and "s' = s1"
    by (auto simp: report_turn_def Let_def st_bind_Inr_iff split: if_splits)
  from get obtain v v1 where v: "hm_get (ss_volumes s) i = Some v" and g: "get_bundle_change_records 128 v = (Inr [], v1)"
    and s1: "s1 = s\<lparr> ss_volumes := hm_insert i v1 (ss_volumes s) \<rparr>"
    by (auto elim: with_volume_cases)
  note G = get_changes_ids [OF g]
  have "vt_changes (vd_conn (vo_db v)) = []" using arg_cong [OF G(2), of length] by (auto simp: min_def split: if_splits)
  with v G(1) s1 \<open>s' = s1\<close> show "change_ids i s = []" "change_ids i s' = []" "ss_sent s' = ss_sent s"
    by (simp_all add: change_ids_def update_conv)
qed

text \<open>The reporter tells every recorded change once, in the order of the numbers and at most 128 at a time.\<close>

lemma report_loop_reports:
  assumes "report_loop E i s = (Inr (), s')" and "distinct (change_ids i s)"
  shows "change_ids i s' = [] \<and> (\<exists>batches. ss_sent s' = ss_sent s @ map report_of batches \<and>
    concat (map (map bre_event_id) batches) = change_ids i s \<and> (\<forall>b\<in>set batches. b \<noteq> [] \<and> length b \<le> 128))"
  using assms
proof (induction E i s rule: report_loop.induct)
  case (1 E i s)
  obtain r s1 where t: "report_turn E i s = (r, s1)" by force
  consider "r = Inr True" | "r = Inr False" | e where "r = Inl e" by (metis sum.exhaust)
  then show ?case
  proof cases
    case 1
    note r = this
    have loop: "report_loop E i s1 = (Inr (), s')" using "1.prems"(1) t r by (subst (asm) report_loop.simps) simp
    obtain events where e: "events \<noteq> []" "length events \<le> 128" "ss_sent s1 = ss_sent s @ [report_of events]"
      "map bre_event_id events @ change_ids i s1 = change_ids i s"
      using report_turn_reports [OF t [unfolded r] "1.prems"(2)] by blast
    then have "distinct (change_ids i s1)" using "1.prems"(2) by (metis distinct_append)
    from "1.IH" [OF t [symmetric] r _ loop this] obtain batches where b: "change_ids i s' = []"
      "ss_sent s' = ss_sent s1 @ map report_of batches" "concat (map (map bre_event_id) batches) = change_ids i s1"
      "\<forall>b\<in>set batches. b \<noteq> [] \<and> length b \<le> 128" by auto
    show ?thesis
      using e b by (intro conjI exI [of _ "events # batches"]) simp_all
  next
    case 2
    then have "s' = s1" using "1.prems"(1) t by (subst (asm) report_loop.simps) simp
    with report_turn_False [OF t [unfolded 2]] show ?thesis by (intro conjI exI [of _ "[]"]) simp_all
  next
    case 3
    then show ?thesis using "1.prems"(1) t by (subst (asm) report_loop.simps) simp
  qed
qed

end
