(* ===== verification/Client_Storage.thy ===== *)
theory Client_Storage
  imports Client_Safety Storage_Safety
begin

text \<open>
  A client session connected to the storage server of \<^verbatim>\<open>Storage_Server\<close>: the world of the client is the data connection,
  that is the authenticated client and the state of the server, and a call is answered by the server's handler. What the
  upload job of the client stores, its download job gets back.
\<close>

type_synonym data_world = "u64 option \<times> storage_server"

definition talks_to :: "('e, data_world) client_env \<Rightarrow> 'h storage_env \<Rightarrow> nat \<Rightarrow> bool" where
  "talks_to E S c \<longleftrightarrow>
     (\<forall>w. \<not> ce_is_closed E c w) \<and>
     (\<forall>request timeout w. ce_rpc E c request timeout w = (case data_connection_respond S request w of (r, w') \<Rightarrow> (Inr r, w')))"

text \<open>A session that is connected and authenticated, and what a request on it does.\<close>

definition session_on :: "nat \<Rightarrow> u64 \<Rightarrow> storage_server \<Rightarrow> storage_session_inner \<times> data_world fs0_client \<Rightarrow> bool" where
  "session_on c i s xs \<longleftrightarrow> sse_connection (fst xs) = Some c \<and> fcl_world (snd xs) = (Some i, s)"

lemma session_request_serves:
  assumes talk: "talks_to E S c" and on: "session_on c i s xs" and req: "\<And>j t. request \<noteq> data_request.Authenticate j t"
    and h: "handle_data_request S request s = (r, s')"
  shows "\<exists>xs'. session_request E request xs = (r, xs') \<and> session_on c i s' xs'"
proof -
  obtain x cl where xs: "xs = (x, cl)" by force
  have x: "sse_connection x = Some c" "fcl_world cl = (Some i, s)" using on by (simp_all add: session_on_def xs)
  have conn: "ensure_connected E (x, cl) = (Inr c, (x, cl))" using talk x by (simp add: ensure_connected_def talks_to_def)
  have dc: "data_connection_request S (protocol_request.Data request) (Some i, s) = (r, (Some i, s'))"
  proof (cases request)
    case (Authenticate j t)
    with req show ?thesis by blast
  qed (use h in \<open>simp_all del: handle_data_request.simps\<close>)
  let ?resp = "case r of Inr a \<Rightarrow> protocol_response.Data a | Inl e \<Rightarrow> Error e"
  have resp: "data_connection_respond S (protocol_request.Data request) (Some i, s) = (?resp, (Some i, s'))"
    using dc by (simp add: data_connection_respond_def split: sum.splits)
  have rpc: "on_client (outside (ce_rpc E c (protocol_request.Data request) (request_timeout request))) (x, cl) =
      (Inr ?resp, (x, cl\<lparr> fcl_world := (Some i, s') \<rparr>))"
    using talk x resp by (simp add: on_client_def outside_def talks_to_def)
  have "data_answer E ?resp = r" by (cases r) (simp_all add: data_answer_def)
  moreover have "\<not> ce_is_closed E c w" for w using talk unfolding talks_to_def by blast
  ultimately show ?thesis
    using conn rpc x by (cases r) (simp_all add: xs session_request_def st_bind_def session_on_def)
qed

text \<open>The calls of the jobs.\<close>

lemma session_has_chunk_serves:
  assumes "talks_to E S c" and "session_on c i s xs" and "has_chunk v k s = (Inr (data_response.HasChunk found raw cmp), s')"
  shows "\<exists>xs'. session_has_chunk E v k xs = (ok_or (unexpected_data (ce_debug_data E (data_response.HasChunk found raw cmp))) (exists_lens found raw cmp), xs') \<and>
    session_on c i s' xs'"
  using session_request_serves [OF assms(1,2), of "data_request.HasChunk v k"] assms(3)
  by (force simp: session_has_chunk_def expect_data_def st_bind_def)

lemma session_upload_serves:
  assumes "talks_to E S c" and "session_on c i s xs" and "upload_chunk S q s = (r, s')"
  shows "\<exists>xs'. session_upload_chunk E q xs =
      (case r of Inl e \<Rightarrow> Inl e | Inr a \<Rightarrow> ok_or (unexpected_data (ce_debug_data E a)) (case a of data_response.UploadChunk u \<Rightarrow> Some u | _ \<Rightarrow> None), xs') \<and>
    session_on c i s' xs'"
  using session_request_serves [OF assms(1,2), of "data_request.UploadChunk q"] assms(3)
  by (cases r) (force simp: session_upload_chunk_def expect_data_def st_bind_def)+

lemma session_download_serves:
  assumes "talks_to E S c" and "session_on c i s xs" and "download_chunk S q s = (Inr (data_response.DownloadChunk bytes), s')"
  shows "\<exists>xs'. session_download_chunk E q xs = (Inr bytes, xs') \<and> session_on c i s' xs'"
  using session_request_serves [OF assms(1,2), of "data_request.DownloadChunk q"] assms(3)
  by (force simp: session_download_chunk_def expect_data_def st_bind_def)

lemma has_chunk_missing:
  assumes "hm_get (ss_volumes s) v = Some vol" and "chunk_row (vd_conn (vo_db vol)) k = None" and "vdb_ok (vo_db vol)"
  shows "\<exists>s'. has_chunk v k s = (Inr (data_response.HasChunk False None None), s') \<and> hm_get (ss_volumes s') = hm_get (ss_volumes s) \<and>
    ss_upload_leases s' = ss_upload_leases s \<and> ss_config s' = ss_config s"
proof -
  have "vol_chunk_meta k vol = (Inl (ChunkNotFound k), vol)"
    using load_chunk_spec [OF assms(3), of k] assms(2) by (simp add: vol_chunk_meta_def with_vdb_def)
  with assms(1) show ?thesis by (auto simp: has_chunk_def with_volume_def fun_eq_iff update_conv)
qed

text \<open>The chunk of a job is new to the volume: it is read from the file, compressed and uploaded.\<close>

lemma upload_job_new:
  assumes talk: "talks_to E S c" and on: "session_on c i s xs"
    and vol: "hm_get (ss_volumes s) (ucj_volume_id job) = Some vol" "chunk_row (vd_conn (vo_db vol)) (ucj_chunk_id job) = None" "vdb_ok (vo_db vol)"
    and res: "upload_chunk_job E B Z job xs = (Inr response, xs')"
  shows "\<exists>opened raw out s1 s2. read_chunk_from_file opened (ucj_source_offset job) (ucj_raw_len job) = Inr raw \<and>
    (\<exists>w. ce_file E (ucj_source_path job) w = opened) \<and>
    blake3_hash B raw = ucj_chunk_id job \<and> zstd_compress Z raw DEFAULT_ZSTD_LEVEL = Inr out \<and>
    hm_get (ss_volumes s1) = hm_get (ss_volumes s) \<and> ss_upload_leases s1 = ss_upload_leases s \<and> ss_config s1 = ss_config s \<and>
    upload_chunk S \<lparr> ucr_lease_id = ucj_lease_id job, ucr_file_id = ucj_file_id job, ucr_volume_id = ucj_volume_id job,
      ucr_chunk_id = ucj_chunk_id job, ucr_raw_len = ucj_raw_len job, ucr_compressed_bytes = out \<rparr> s1 = (Inr (data_response.UploadChunk response), s2) \<and>
    session_on c i s2 xs'"
proof -
  from has_chunk_missing [OF vol] obtain s1 where has: "has_chunk (ucj_volume_id job) (ucj_chunk_id job) s = (Inr (data_response.HasChunk False None None), s1)"
    and s1: "hm_get (ss_volumes s1) = hm_get (ss_volumes s)" "ss_upload_leases s1 = ss_upload_leases s" "ss_config s1 = ss_config s" by blast
  from session_has_chunk_serves [OF talk on has] obtain x1 where x1: "session_has_chunk E (ucj_volume_id job) (ucj_chunk_id job) xs = (Inr None, x1)"
    and on1: "session_on c i s1 x1" by (auto simp: exists_lens_def)
  let ?opened = "ce_file E (ucj_source_path job) (fcl_world (snd x1))"
  from res x1 obtain raw out where raw: "read_chunk_from_file ?opened (ucj_source_offset job) (ucj_raw_len job) = Inr raw"
    "blake3_hash B raw = ucj_chunk_id job" "zstd_compress Z raw DEFAULT_ZSTD_LEVEL = Inr out"
    and up: "session_upload_chunk E \<lparr> ucr_lease_id = ucj_lease_id job, ucr_file_id = ucj_file_id job, ucr_volume_id = ucj_volume_id job,
      ucr_chunk_id = ucj_chunk_id job, ucr_raw_len = ucj_raw_len job, ucr_compressed_bytes = out \<rparr> x1 = (Inr response, xs')"
    by (auto simp: upload_chunk_job_def st_bind_Inr_iff case_prod_beta split: if_splits)
  let ?q = "\<lparr> ucr_lease_id = ucj_lease_id job, ucr_file_id = ucj_file_id job, ucr_volume_id = ucj_volume_id job,
      ucr_chunk_id = ucj_chunk_id job, ucr_raw_len = ucj_raw_len job, ucr_compressed_bytes = out \<rparr>"
  obtain r s2 where u: "upload_chunk S ?q s1 = (r, s2)" by force
  from session_upload_serves [OF talk on1 u] up have on2: "session_on c i s2 xs'"
    and r: "(case r of Inl e \<Rightarrow> Inl e | Inr a \<Rightarrow> ok_or (unexpected_data (ce_debug_data E a)) (case a of data_response.UploadChunk u \<Rightarrow> Some u | _ \<Rightarrow> None)) = Inr response"
    by auto
  from r have "r = Inr (data_response.UploadChunk response)" by (cases r) (auto split: data_response.splits)
  with raw u s1 on2 show ?thesis by blast
qed

lemma chunk_round_trip:
  assumes talk: "talks_to E S c" and on: "session_on c i s xs"
    and ok: "volumes_ok (se_blake3 S) (ss_volumes s)" "hm_ok (ss_upload_leases s)" "blake3_ok (se_blake3 S)"
    and Z: "zstd_ok Z" "\<And>raw out. length raw \<le> 2 ^ 20 \<Longrightarrow> zstd_compress Z raw DEFAULT_ZSTD_LEVEL = Inr out \<Longrightarrow> length out < 2 ^ 63"
    and os: "de_open (se_disk S) = None" "io_fair (de_io (se_disk S))"
    and vol: "hm_get (ss_volumes s) (ucj_volume_id job) = Some vol" "chunk_row (vd_conn (vo_db vol)) (ucj_chunk_id job) = None"
    and res: "upload_chunk_job E (se_blake3 S) Z job xs = (Inr response, xs')"
  shows "\<exists>w raw xs''. read_chunk_from_file (ce_file E (ucj_source_path job) w) (ucj_source_offset job) (ucj_raw_len job) = Inr raw \<and>
    download_chunk_job E (se_blake3 S) Z \<lparr> dcr_volume_id = ucj_volume_id job, dcr_chunk_id = ucj_chunk_id job \<rparr> xs' =
      (Inr \<lparr> dcs_chunk_id = ucj_chunk_id job, dcs_raw_bytes = raw \<rparr>, xs'')"
proof -
  have vdb: "vdb_ok (vo_db vol)" using ok(1) vol(1) by (auto simp: volumes_ok_def volume_inv_def Let_def)
  from upload_job_new [OF talk on vol vdb res] obtain w raw out s1 s2 where
    raw: "read_chunk_from_file (ce_file E (ucj_source_path job) w) (ucj_source_offset job) (ucj_raw_len job) = Inr raw"
    and h: "blake3_hash (se_blake3 S) raw = ucj_chunk_id job" and z: "zstd_compress Z raw DEFAULT_ZSTD_LEVEL = Inr out"
    and s1: "hm_get (ss_volumes s1) = hm_get (ss_volumes s)" "ss_upload_leases s1 = ss_upload_leases s"
    and up: "upload_chunk S \<lparr> ucr_lease_id = ucj_lease_id job, ucr_file_id = ucj_file_id job, ucr_volume_id = ucj_volume_id job,
      ucr_chunk_id = ucj_chunk_id job, ucr_raw_len = ucj_raw_len job, ucr_compressed_bytes = out \<rparr> s1 = (Inr (data_response.UploadChunk response), s2)"
    and on2: "session_on c i s2 xs'" by blast
  have short: "length raw \<le> chunk_max"
    using raw by (auto simp: read_chunk_from_file_def Let_def word_less_nat_alt unat_sizes split: if_splits sum.splits)
  have vols: "volumes_ok (se_blake3 S) (ss_volumes s1)" using ok(1) s1(1) by (simp add: volumes_ok_def)
  have hash: "hash_ok (ucj_chunk_id job)" using ok(3) by (auto simp: hash_ok_def blake3_ok_def blake3_hash_def simp flip: h)
  have "fst (download_chunk S \<lparr> dcr_volume_id = ucj_volume_id job, dcr_chunk_id = ucj_chunk_id job \<rparr> s2) = Inr (data_response.DownloadChunk out)"
    using upload_then_download [OF vols _ ok(3) _ up _ os] s1 ok(2) hash Z(2) [OF short z] vol by simp
  then obtain s3 where dl: "download_chunk S \<lparr> dcr_volume_id = ucj_volume_id job, dcr_chunk_id = ucj_chunk_id job \<rparr> s2 = (Inr (data_response.DownloadChunk out), s3)"
    by (metis prod.collapse)
  from session_download_serves [OF talk on2 dl] obtain x3
    where x3: "session_download_chunk E \<lparr> dcr_volume_id = ucj_volume_id job, dcr_chunk_id = ucj_chunk_id job \<rparr> xs' = (Inr out, x3)" by blast
  from short have "decompress_chunk (se_blake3 S) Z (ucj_chunk_id job) out = Inr raw"
    using zstd_round_trip [OF Z(1) z, of chunk_max] h by (simp add: decompress_chunk_def unat_sizes word_less_nat_alt unat_of_nat_small64)
  with x3 raw show ?thesis by (intro exI [of _ w] exI [of _ raw] exI [of _ x3]) (simp add: download_chunk_job_def)
qed

end
