(* ===== verification/Fs0_Cli.thy ===== *)
theory Fs0_Cli
  imports Client_Transfer Volume
begin

text \<open>
  The commands of \<^verbatim>\<open>fs0-cli\<close> that compute something: sizes given on the command line, \<^verbatim>\<open>storage create-volume\<close> and
  \<^verbatim>\<open>put-dir\<close>. Command line arguments are taken to be ASCII, for which \<open>trim\<close> removes the white space of ASCII.
\<close>

section \<open>Sizes\<close>

definition is_whitespace :: "char \<Rightarrow> bool" where
  "is_whitespace c \<longleftrightarrow> (let n = of_char c :: nat in 9 \<le> n \<and> n \<le> 13 \<or> n = 32)"

definition str_trim :: "string \<Rightarrow> string" where
  "str_trim s = rev (dropWhile is_whitespace (rev (dropWhile is_whitespace s)))"

definition trim_end_matches :: "char \<Rightarrow> string \<Rightarrow> string" where
  "trim_end_matches c s = rev (dropWhile (\<lambda>x. x = c) (rev s))"

definition is_digit :: "char \<Rightarrow> bool" where
  "is_digit c \<longleftrightarrow> 48 \<le> (of_char c :: nat) \<and> (of_char c :: nat) \<le> 57"

fun digits_value :: "nat \<Rightarrow> string \<Rightarrow> nat" where
  "digits_value acc [] = acc"
| "digits_value acc (c # cs) = digits_value (10 * acc + (of_char c - 48)) cs"

text \<open>\<open>str::parse::<u64>\<close>: digits after an optional plus sign, and the number fits.\<close>

definition parse_u64 :: "string \<Rightarrow> u64 option" where
  "parse_u64 s =
     (let digits = (case s of c # cs \<Rightarrow> if c = CHR ''+'' then cs else s | [] \<Rightarrow> []) in
      if digits \<noteq> [] \<and> list_all is_digit digits \<and> digits_value 0 digits < 2 ^ 64 then Some (of_nat (digits_value 0 digits)) else None)"

definition unit_of :: "char \<Rightarrow> u64 option" where
  "unit_of c =
     (if c \<in> {CHR ''k'', CHR ''K''} then Some 1024
      else if c \<in> {CHR ''m'', CHR ''M''} then Some (1024 ^ 2)
      else if c \<in> {CHR ''g'', CHR ''G''} then Some (1024 ^ 3)
      else if c \<in> {CHR ''t'', CHR ''T''} then Some (1024 ^ 4)
      else None)"

definition split_unit :: "string \<Rightarrow> string \<times> u64" where
  "split_unit s =
     (if s = [] then (s, 1) else case unit_of (last s) of Some m \<Rightarrow> (butlast s, m) | None \<Rightarrow> (s, 1))"

definition parse_bytes :: "string \<Rightarrow> u64 fs0_result" where
  "parse_bytes value =
     (case split_unit (str_trim value) of
        (number, multiplier) \<Rightarrow>
          res_bind (ok_or InvalidRequest (parse_u64 number)) (\<lambda>n.
          ok_or InvalidRequest (checked_mul n multiplier)))"

section \<open>Creating a volume\<close>

text \<open>
  The directory of the volume is initialised before central is asked for an identifier. \<open>cfg\<close> is the loaded storage
  configuration, \<open>now\<close> and \<open>now'\<close> are the two readings of the clock.
\<close>

definition create_volume_client :: "('e, 'w) client_env \<Rightarrow> storage_config \<Rightarrow> string \<Rightarrow> u64 \<Rightarrow> 'w \<Rightarrow> u64 fs0_result \<times> 'w" where
  "create_volume_client E cfg name max_bytes w =
     (case client_connect E (client_config_new (sc_token cfg) (sc_central_endpoint cfg) (sc_relay cfg)) w of
        (Inl e, s) \<Rightarrow> (Inl e, fcl_world s)
      | (Inr _, s) \<Rightarrow>
          (case call_create_volume E name max_bytes s of
             (Inl e, s') \<Rightarrow> (Inl e, fcl_world s')
           | (Inr volume_id, s') \<Rightarrow>
               (case client_shutdown E s' of (r, s'') \<Rightarrow> (res_bind r (\<lambda>_. Inr volume_id), fcl_world s''))))"

definition create_command ::
  "('e, 'w) client_env \<Rightarrow> storage_config fs0_result \<Rightarrow> string option \<Rightarrow> u64 \<Rightarrow> u64 \<Rightarrow> string \<Rightarrow> string \<Rightarrow> string \<Rightarrow>
   volume_dir \<times> 'w \<Rightarrow> volume_meta fs0_result \<times> (volume_dir \<times> 'w)" where
  "create_command E cfg mkdir_err now now' path name max_bytes st =
     (case st of (d, w) \<Rightarrow>
        (case parse_bytes max_bytes of
           Inl e \<Rightarrow> (Inl e, (d, w))
         | Inr n \<Rightarrow>
             (case init_fs path mkdir_err now n d of
                (Inl e, d') \<Rightarrow> (Inl e, (d', w))
              | (Inr _, d') \<Rightarrow>
                  (case cfg of
                     Inl e \<Rightarrow> (Inl e, (d', w))
                   | Inr c \<Rightarrow>
                       (case create_volume_client E c name n w of
                          (Inl e, w') \<Rightarrow> (Inl e, (d', w'))
                        | (Inr volume_id, w') \<Rightarrow>
                            (case init_volume_id path now' volume_id d' of (r, d'') \<Rightarrow> (r, (d'', w'))))))))"

section \<open>Uploading a directory\<close>

text \<open>A directory tree: what \<open>read_dir\<close> gives for a directory (or its error), files with their size or the error of
  \<open>metadata\<close>, and other entries such as links.\<close>

datatype local_entry =
    LDir string "string + local_entry list"
  | LFile string "string + u64"
  | LOther string

fun entry_name :: "local_entry \<Rightarrow> string" where
  "entry_name (LDir n _) = n"
| "entry_name (LFile n _) = n"
| "entry_name (LOther n) = n"

record upload_file =
  uf_local_path :: "string list"
  uf_remote_path :: string
  uf_bytes :: u64

definition normalize_remote_dir :: "string \<Rightarrow> string" where
  "normalize_remote_dir remote_dir =
     (let trimmed = str_trim remote_dir in
      if trimmed = [] \<or> trimmed = ''/'' then ''/''
      else let t = trim_end_matches (CHR ''/'') trimmed in if starts_with ''/'' t then t else CHR ''/'' # t)"

text \<open>A component that is not UTF-8 makes the path invalid; \<open>utf8\<close> and \<open>display\<close> are those of \<^verbatim>\<open>std::path\<close>.\<close>

fun push_components :: "(string \<Rightarrow> bool) \<Rightarrow> fs0_error \<Rightarrow> string list \<Rightarrow> string \<Rightarrow> string fs0_result" where
  "push_components utf8 err [] remote_path = Inr remote_path"
| "push_components utf8 err (c # cs) remote_path =
     (if utf8 c then push_components utf8 err cs (remote_path @ ''/'' @ c) else Inl err)"

definition upload_remote_path :: "(string \<Rightarrow> bool) \<Rightarrow> (string list \<Rightarrow> string) \<Rightarrow> string \<Rightarrow> string list \<Rightarrow> string fs0_result" where
  "upload_remote_path utf8 display remote_dir relative_path =
     push_components utf8 (InvalidPath (display relative_path)) relative_path (trim_end_matches (CHR ''/'') remote_dir)"

text \<open>The entries of a directory in the order of their paths; paths are relative to the root of the upload.\<close>

definition join_entries :: "(string \<times> (upload_file list) fs0_result) list \<Rightarrow> (upload_file list) fs0_result" where
  "join_entries rs =
     fold (\<lambda>(_, r) acc. res_bind acc (\<lambda>files. res_bind r (\<lambda>more. Inr (files @ more)))) (sort_key fst rs) (Inr [])"

fun collect_entry ::
  "(string \<Rightarrow> bool) \<Rightarrow> (string list \<Rightarrow> string) \<Rightarrow> string \<Rightarrow> string list \<Rightarrow> local_entry \<Rightarrow> (upload_file list) fs0_result" where
  "collect_entry utf8 display remote_dir dir (LOther n) = Inr []"
| "collect_entry utf8 display remote_dir dir (LFile n size_bytes) =
     res_bind (upload_remote_path utf8 display remote_dir (dir @ [n])) (\<lambda>remote_path.
     case size_bytes of
       Inl msg \<Rightarrow> Inl (Io msg)
     | Inr b \<Rightarrow> Inr [\<lparr> uf_local_path = dir @ [n], uf_remote_path = remote_path, uf_bytes = b \<rparr>])"
| "collect_entry utf8 display remote_dir dir (LDir n contents) =
     (case contents of
        Inl msg \<Rightarrow> Inl (Io msg)
      | Inr entries \<Rightarrow>
          join_entries (map (\<lambda>e. (entry_name e, collect_entry utf8 display remote_dir (dir @ [n]) e)) entries))"

text \<open>The root is what \<open>canonicalize\<close> found: an error, something that is no directory, or a directory.\<close>

definition collect_upload_files ::
  "(string \<Rightarrow> bool) \<Rightarrow> (string list \<Rightarrow> string) \<Rightarrow> string \<Rightarrow> string + (string + local_entry list) option \<Rightarrow> string \<Rightarrow> (upload_file list) fs0_result" where
  "collect_upload_files utf8 display local_dir root remote_dir =
     (case root of
        Inl msg \<Rightarrow> Inl (Io msg)
      | Inr None \<Rightarrow> Inl (InvalidPath local_dir)
      | Inr (Some (Inl msg)) \<Rightarrow> Inl (Io msg)
      | Inr (Some (Inr entries)) \<Rightarrow>
          res_bind (join_entries (map (\<lambda>e. (entry_name e, collect_entry utf8 display remote_dir [] e)) entries)) (\<lambda>files.
          Inr (sort_key uf_remote_path files)))"

record put_dir_summary =
  pds_uploaded_files :: u64
  pds_uploaded_bytes :: u64
  pds_skipped_files :: u64
  pds_skipped_bytes :: u64

definition remote_same_size :: "file_read_plan fs0_result \<Rightarrow> u64 \<Rightarrow> bool fs0_result" where
  "remote_same_size plan bytes =
     (case plan of Inr p \<Rightarrow> Inr (frp_size p = bytes) | Inl NotFound \<Rightarrow> Inr False | Inl e \<Rightarrow> Inl e)"

text \<open>The loop; \<open>plan_of\<close> and \<open>upload\<close> are the two operations of the client that it uses.\<close>

fun upload_files ::
  "(string \<Rightarrow> 's \<Rightarrow> file_read_plan fs0_result \<times> 's) \<Rightarrow> (string \<Rightarrow> string list \<Rightarrow> 's \<Rightarrow> file_record fs0_result \<times> 's) \<Rightarrow>
   upload_file list \<Rightarrow> put_dir_summary \<Rightarrow> 's \<Rightarrow> put_dir_summary fs0_result \<times> 's" where
  "upload_files plan_of upload [] summary s = (Inr summary, s)"
| "upload_files plan_of upload (f # fs) summary s =
     (case plan_of (uf_remote_path f) s of
        (plan, s') \<Rightarrow>
          (case remote_same_size plan (uf_bytes f) of
             Inl e \<Rightarrow> (Inl e, s')
           | Inr True \<Rightarrow>
               upload_files plan_of upload fs
                 (summary\<lparr> pds_skipped_files := pds_skipped_files summary + 1, pds_skipped_bytes := pds_skipped_bytes summary + uf_bytes f \<rparr>) s'
           | Inr False \<Rightarrow>
               (case upload (uf_remote_path f) (uf_local_path f) s' of
                  (Inl e, s'') \<Rightarrow> (Inl e, s'')
                | (Inr r, s'') \<Rightarrow>
                    upload_files plan_of upload fs
                      (summary\<lparr> pds_uploaded_files := pds_uploaded_files summary + 1,
                                pds_uploaded_bytes := pds_uploaded_bytes summary + frec_size_bytes r \<rparr>) s'')))"

definition put_dir_client ::
  "('e, 'w) client_env \<Rightarrow> 'h blake3 \<Rightarrow> zstd \<Rightarrow> (string list \<Rightarrow> upload_env) \<Rightarrow> (string list \<Rightarrow> string) \<Rightarrow> string option \<Rightarrow> upload_file list \<Rightarrow>
   ('w, put_dir_summary) client_op" where
  "put_dir_client E B Z U local_path prefer_volume files =
     upload_files (call_get_file_read_plan E) (\<lambda>remote loc. upload_file_inner E B Z (U loc) remote (local_path loc) prefer_volume) files
       \<lparr> pds_uploaded_files = 0, pds_uploaded_bytes = 0, pds_skipped_files = 0, pds_skipped_bytes = 0 \<rparr>"

section \<open>Properties\<close>

lemma digits_value_append: "digits_value acc (xs @ [c]) = 10 * digits_value acc xs + (of_char c - 48)"
  by (induction xs arbitrary: acc) auto

lemma of_char_digit: "d < 10 \<Longrightarrow> of_char (char_of (48 + d :: nat) :: char) = (48 + d :: nat)"
  by (simp add: of_char_of)

lemma show_nat_digits: "list_all is_digit (show_nat n) \<and> show_nat n \<noteq> [] \<and> digits_value 0 (show_nat n) = n"
proof (induction n rule: less_induct)
  case (less n)
  show ?case
  proof (cases "n < 10")
    case True
    then show ?thesis by (simp add: show_nat.simps [of n] is_digit_def of_char_digit)
  next
    case False
    then have "n div 10 < n" by simp
    from less [OF this] False show ?thesis
      by (simp add: show_nat.simps [of n] is_digit_def of_char_digit digits_value_append)
  qed
qed

lemma unit_letters: "list_all (\<lambda>c. \<not> is_digit c \<and> \<not> is_whitespace c) ''kKmMgGtT''" "\<not> is_digit (CHR ''+'')"
  by code_simp+

lemma unit_of_letter: "unit_of u = Some m \<Longrightarrow> u \<in> set ''kKmMgGtT''"
  by (simp add: unit_of_def split: if_splits) blast+

lemma digit_plain: "is_digit c \<Longrightarrow> \<not> is_whitespace c \<and> c \<noteq> CHR ''+'' \<and> unit_of c = None"
  using unit_letters unit_of_letter [of c] unfolding list_all_iff
  by (cases "unit_of c") (auto simp: is_digit_def is_whitespace_def Let_def simp del: set_simps)

lemma parse_show_nat: "parse_u64 (show_nat n) = (if n < 2 ^ 64 then Some (of_nat n) else None)"
proof -
  obtain c cs where s: "show_nat n = c # cs" using show_nat_digits [of n] by (cases "show_nat n") auto
  have "c \<noteq> CHR ''+''" using show_nat_digits [of n] digit_plain by (auto simp: s)
  then show ?thesis using show_nat_digits [of n] by (simp add: parse_u64_def s Let_def)
qed

lemma str_trim_id: "s \<noteq> [] \<Longrightarrow> \<not> is_whitespace (hd s) \<Longrightarrow> \<not> is_whitespace (last s) \<Longrightarrow> str_trim s = s"
proof -
  assume "s \<noteq> []" "\<not> is_whitespace (hd s)" "\<not> is_whitespace (last s)"
  then have "dropWhile is_whitespace s = s" "dropWhile is_whitespace (rev s) = rev s"
    by (simp_all add: dropWhile_eq_self_iff hd_rev)
  then show ?thesis by (simp add: str_trim_def)
qed

text \<open>A printed number with a unit is that many units, or refused when it does not fit; without a unit it is bytes.\<close>

lemma parse_bytes_printed:
  assumes "unit_of u = Some m"
  shows "parse_bytes (show_nat n @ [u]) =
    (if n * unat m < 2 ^ 64 then Inr (of_nat (n * unat m)) else Inl InvalidRequest)"
proof -
  have d: "list_all is_digit (show_nat n)" "show_nat n \<noteq> []" using show_nat_digits by auto
  have u: "\<not> is_whitespace u" using unit_letters(1) unit_of_letter [OF assms] unfolding list_all_iff by blast
  have "is_digit (hd (show_nat n))" using d by (cases "show_nat n") auto
  then have trim: "str_trim (show_nat n @ [u]) = show_nat n @ [u]" using d(2) u digit_plain by (intro str_trim_id) auto
  have split: "split_unit (show_nat n @ [u]) = (show_nat n, m)" using assms by (simp add: split_unit_def)
  have m: "0 < unat m" using assms by (auto simp: unit_of_def split: if_splits)
  show ?thesis
  proof (cases "n < 2 ^ 64")
    case True
    then have "unat (of_nat n :: u64) = n" by (simp add: unat_of_nat take_bit_nat_eq_self)
    moreover have "of_nat n * m = of_nat (n * unat m)" by simp
    ultimately show ?thesis using True by (simp add: parse_bytes_def trim split parse_show_nat checked_mul_def)
  next
    case False
    have "2 ^ 64 \<le> n * unat m" using False m by (metis One_nat_def Suc_leI le_trans linorder_not_le mult.right_neutral mult_le_mono2)
    with False show ?thesis by (simp add: parse_bytes_def trim split parse_show_nat)
  qed
qed

lemma parse_bytes_printed_plain:
  "parse_bytes (show_nat n) = (if n < 2 ^ 64 then Inr (of_nat n) else Inl InvalidRequest)"
proof -
  have d: "list_all is_digit (show_nat n)" "show_nat n \<noteq> []" using show_nat_digits by auto
  then have "is_digit (hd (show_nat n))" "is_digit (last (show_nat n))" unfolding list_all_iff by auto
  then have trim: "str_trim (show_nat n) = show_nat n" and "unit_of (last (show_nat n)) = None"
    using d(2) digit_plain by (auto intro: str_trim_id)
  then have split: "split_unit (show_nat n) = (show_nat n, 1)" by (simp add: split_unit_def)
  show ?thesis
    by (simp add: parse_bytes_def trim split parse_show_nat checked_mul_def unat_of_nat take_bit_nat_eq_self)
qed

lemma parse_bytes_sizes:
  assumes "(letters, e) \<in> {('''', 0), (''k'', 10), (''K'', 10), (''m'', 20), (''M'', 20), (''g'', 30), (''G'', 30), (''t'', 40), (''T'', 40)}"
  shows "parse_bytes (show_nat n @ letters) = (if n * 2 ^ e < 2 ^ 64 then Inr (of_nat (n * 2 ^ e)) else Inl InvalidRequest)"
proof (cases letters)
  case Nil
  with assms show ?thesis using parse_bytes_printed_plain [of n] by simp
next
  case (Cons u us)
  have "us = [] \<and> unit_of u = Some (2 ^ e) \<and> e \<in> {10, 20, 30, 40}"
    using assms unfolding Cons insert_iff prod.inject list.inject empty_iff
    by (elim disjE conjE) (simp_all add: unit_of_def)
  then have "us = []" and m: "unit_of u = Some (2 ^ e)" and e: "e \<in> {10, 20, 30, 40}" by blast+
  from e have "unat (2 ^ e :: u64) = 2 ^ e" unfolding insert_iff empty_iff by (elim disjE) simp_all
  with parse_bytes_printed [OF m, of n] show ?thesis by (simp add: Cons \<open>us = []\<close>)
qed

lemma parse_bytes_other_letter:
  assumes "c \<notin> set ''kKmMgGtT''" "\<not> is_digit c" "\<not> is_whitespace c"
  shows "parse_bytes (show_nat n @ [c]) = Inl InvalidRequest"
proof -
  have d: "list_all is_digit (show_nat n)" "show_nat n \<noteq> []" using show_nat_digits by auto
  then obtain x xs where s: "show_nat n = x # xs" and x: "is_digit x" by (cases "show_nat n") auto
  have trim: "str_trim (show_nat n @ [c]) = show_nat n @ [c]" using s x assms(3) digit_plain by (intro str_trim_id) auto
  have "unit_of c = None" using assms(1) unit_of_letter [of c] by (cases "unit_of c") auto
  then have split: "split_unit (show_nat n @ [c]) = (show_nat n @ [c], 1)" by (simp add: split_unit_def)
  have "x \<noteq> CHR ''+''" using x digit_plain by blast
  then have "parse_u64 (show_nat n @ [c]) = None" using assms(2) by (simp add: parse_u64_def s Let_def)
  then show ?thesis by (simp add: parse_bytes_def trim split)
qed

text \<open>When central cannot be reached the directory stays initialised and the command can not be repeated.\<close>

lemma create_command_not_repeatable:
  assumes "create_command E cfg None now now' path name max_bytes (\<lparr> vr_db = None, vr_files = fs \<rparr>, w) = (Inl e, (d, w'))"
    and "parse_bytes max_bytes = Inr n" and "VOLUME_DEFAULT_DATA_FILE_SIZE \<le> n" and "fits_i64 n" "fits_i64 now"
    and "\<And>c. cfg = Inr c \<Longrightarrow> \<exists>e'. fst (create_volume_client E c name n w) = Inl e'"
  shows "fst (create_command E2 cfg2 None now2 now2' path name max_bytes (d, w2)) = Inl (AlreadyExists (path_join path VOLUME_DB_FILE))"
proof -
  have big: "\<not> n < VOLUME_DEFAULT_DATA_FILE_SIZE" using assms(3) by simp
  have "\<exists>t. init_fs path None now n \<lparr> vr_db = None, vr_files = fs \<rparr> = (Inr (), \<lparr> vr_db = Some t, vr_files = fs \<rparr>)"
    using big assms(4,5)
    by (simp add: init_fs_def volume_db_create_def meta_to_row_def u64_to_i64_def fits_i64_def VOLUME_FORMAT_VERSION_def Let_def)
  then obtain t where "init_fs path None now n \<lparr> vr_db = None, vr_files = fs \<rparr> = (Inr (), \<lparr> vr_db = Some t, vr_files = fs \<rparr>)" by blast
  with assms(1,2,6) have "vr_db d \<noteq> None"
    by (cases cfg; cases "create_volume_client E (projr cfg) name n w") (auto simp: create_command_def)
  then show ?thesis using assms(2,3) by (simp add: create_command_def init_fs_def)
qed

end
