(* ===== verification/Request_Scheduler.thy ===== *)
theory Request_Scheduler
  imports Fs0_Core "HOL-Library.Multiset"
begin

text \<open>
  The scheduler of chunk requests (\<^verbatim>\<open>fs0-client/src/storage_session/request_scheduler.rs\<close>): requests with the same hash
  share one execution of the handler, and a semaphore bounds how many handlers run. Its code is asynchronous: what
  runs between two awaits is a function on the state, and a task that is between two of them is an element of a
  multiset. Slots live in a list, so that two tasks can share one; callbacks are named, and the calls made are
  kept with the hash they were made for, as are the results that slots were completed with. Handlers may return
  anything, at any time.
\<close>

section \<open>Slots\<close>

record ('q, 'c) request_slot =
  rs_result :: "'q fs0_result option"
  rs_callbacks :: "'c list"

definition slot_new :: "('q, 'c) request_slot" where
  "slot_new = \<lparr> rs_result = None, rs_callbacks = [] \<rparr>"

text \<open>\<open>complete\<close> up to the end of its lock: the callbacks it is going to call.\<close>

definition slot_complete :: "'q fs0_result \<Rightarrow> ('q, 'c) request_slot \<Rightarrow> 'c list \<times> ('q, 'c) request_slot" where
  "slot_complete result slot = (rs_callbacks slot, slot\<lparr> rs_result := Some result, rs_callbacks := [] \<rparr>)"

text \<open>\<open>add_callback\<close> up to the end of its lock: the result to call the callback with, if there is one.\<close>

definition slot_add_callback :: "'c \<Rightarrow> ('q, 'c) request_slot \<Rightarrow> 'q fs0_result option \<times> ('q, 'c) request_slot" where
  "slot_add_callback callback slot =
     (case rs_result slot of
        Some result \<Rightarrow> (Some result, slot)
      | None \<Rightarrow> (None, slot\<lparr> rs_callbacks := rs_callbacks slot @ [callback] \<rparr>))"

section \<open>Tasks\<close>

text \<open>
  Where a call of \<open>enqueue_blocking\<close> or a task it spawned can be: about to add its callback to the slot; an owner
  waiting for a permit; a handler running; calling the callbacks of a completed slot one after the other, holding a
  permit or (after a failed \<open>acquire_owned\<close>) none; or about to call its callback with a result that was already there.
\<close>

datatype ('r, 'q, 'c) sched_task =
    Adding nat hash_id 'r 'c bool
  | Waiting nat hash_id 'r
  | Running nat hash_id 'r
  | Calling nat hash_id bool "'q fs0_result" "'c list"
  | Late nat hash_id "'q fs0_result" 'c

record ('r, 'q, 'c) scheduler =
  sd_permits :: nat
  sd_closed :: "string option"
  sd_in_flight :: "(hash_id, nat) hmap"
  sd_slots :: "('q, 'c) request_slot list"
  sd_tasks :: "('r, 'q, 'c) sched_task multiset"
  sd_returned :: "(hash_id \<times> 'q fs0_result) list"
  sd_called :: "(hash_id \<times> 'c \<times> 'q fs0_result) list"

definition scheduler_new :: "nat \<Rightarrow> ('r, 'q, 'c) scheduler" where
  "scheduler_new concurrency =
     \<lparr> sd_permits = max concurrency 1, sd_closed = None, sd_in_flight = [], sd_slots = [], sd_tasks = {#}, sd_returned = [],
       sd_called = [] \<rparr>"

text \<open>\<open>enqueue_blocking\<close>: the block that finds or creates the slot.\<close>

definition enqueue_find :: "hash_id \<Rightarrow> 'r \<Rightarrow> 'c \<Rightarrow> ('r, 'q, 'c) scheduler \<Rightarrow> ('r, 'q, 'c) scheduler" where
  "enqueue_find h request callback s =
     (case hm_get (sd_in_flight s) h of
        Some slot \<Rightarrow> s\<lparr> sd_tasks := add_mset (Adding slot h request callback False) (sd_tasks s) \<rparr>
      | None \<Rightarrow>
          let slot = length (sd_slots s) in
          s\<lparr> sd_in_flight := hm_insert h slot (sd_in_flight s), sd_slots := sd_slots s @ [slot_new],
             sd_tasks := add_mset (Adding slot h request callback True) (sd_tasks s) \<rparr>)"

text \<open>The callback is added; the owner goes on to wait for a permit, the others return.\<close>

definition next_of_add :: "nat \<Rightarrow> hash_id \<Rightarrow> 'r \<Rightarrow> 'c \<Rightarrow> bool \<Rightarrow> 'q fs0_result option \<Rightarrow> ('r, 'q, 'c) sched_task multiset" where
  "next_of_add slot h request callback owner result =
     (case result of Some r \<Rightarrow> {# Late slot h r callback #} | None \<Rightarrow> {#}) +
     (if owner then {# Waiting slot h request #} else {#})"

definition enqueue_add :: "nat \<Rightarrow> hash_id \<Rightarrow> 'r \<Rightarrow> 'c \<Rightarrow> bool \<Rightarrow> ('r, 'q, 'c) scheduler \<Rightarrow> ('r, 'q, 'c) scheduler" where
  "enqueue_add slot h request callback owner s =
     (case slot_add_callback callback (sd_slots s ! slot) of
        (result, sl) \<Rightarrow>
          s\<lparr> sd_slots := (sd_slots s)[slot := sl],
             sd_tasks := sd_tasks s - {# Adding slot h request callback owner #} + next_of_add slot h request callback owner result \<rparr>)"

text \<open>A permit is there: the task that runs the handler is spawned.\<close>

definition enqueue_spawn :: "nat \<Rightarrow> hash_id \<Rightarrow> 'r \<Rightarrow> ('r, 'q, 'c) scheduler \<Rightarrow> ('r, 'q, 'c) scheduler" where
  "enqueue_spawn slot h request s =
     s\<lparr> sd_permits := sd_permits s - 1,
        sd_tasks := sd_tasks s - {# Waiting slot h request #} + {# Running slot h request #} \<rparr>"

text \<open>The slot is completed, after the handler has returned or after the semaphore was found closed.\<close>

definition complete_slot ::
  "('r, 'q, 'c) sched_task \<Rightarrow> nat \<Rightarrow> hash_id \<Rightarrow> bool \<Rightarrow> 'q fs0_result \<Rightarrow> ('r, 'q, 'c) scheduler \<Rightarrow> ('r, 'q, 'c) scheduler" where
  "complete_slot task slot h permit result s =
     (case slot_complete result (sd_slots s ! slot) of
        (callbacks, sl) \<Rightarrow>
          s\<lparr> sd_slots := (sd_slots s)[slot := sl], sd_returned := sd_returned s @ [(h, result)],
             sd_tasks := sd_tasks s - {# task #} + {# Calling slot h permit result callbacks #} \<rparr>)"

definition enqueue_denied :: "nat \<Rightarrow> hash_id \<Rightarrow> 'r \<Rightarrow> string \<Rightarrow> ('r, 'q, 'c) scheduler \<Rightarrow> ('r, 'q, 'c) scheduler" where
  "enqueue_denied slot h request msg = complete_slot (Waiting slot h request) slot h False (Inl (Internal msg))"

definition handler_returns :: "nat \<Rightarrow> hash_id \<Rightarrow> 'r \<Rightarrow> 'q fs0_result \<Rightarrow> ('r, 'q, 'c) scheduler \<Rightarrow> ('r, 'q, 'c) scheduler" where
  "handler_returns slot h request result = complete_slot (Running slot h request) slot h True result"

definition call_next ::
  "nat \<Rightarrow> hash_id \<Rightarrow> bool \<Rightarrow> 'q fs0_result \<Rightarrow> 'c \<Rightarrow> 'c list \<Rightarrow> ('r, 'q, 'c) scheduler \<Rightarrow> ('r, 'q, 'c) scheduler" where
  "call_next slot h permit result callback callbacks s =
     s\<lparr> sd_called := sd_called s @ [(h, callback, result)],
        sd_tasks := sd_tasks s - {# Calling slot h permit result (callback # callbacks) #} + {# Calling slot h permit result callbacks #} \<rparr>"

definition call_late :: "nat \<Rightarrow> hash_id \<Rightarrow> 'q fs0_result \<Rightarrow> 'c \<Rightarrow> ('r, 'q, 'c) scheduler \<Rightarrow> ('r, 'q, 'c) scheduler" where
  "call_late slot h result callback s =
     s\<lparr> sd_called := sd_called s @ [(h, callback, result)], sd_tasks := sd_tasks s - {# Late slot h result callback #} \<rparr>"

text \<open>After the last callback the entry goes and the permit, if held, is released.\<close>

definition remove_in_flight :: "nat \<Rightarrow> hash_id \<Rightarrow> bool \<Rightarrow> 'q fs0_result \<Rightarrow> ('r, 'q, 'c) scheduler \<Rightarrow> ('r, 'q, 'c) scheduler" where
  "remove_in_flight slot h permit result s =
     s\<lparr> sd_in_flight := hm_remove h (sd_in_flight s), sd_permits := (if permit then sd_permits s + 1 else sd_permits s),
        sd_tasks := sd_tasks s - {# Calling slot h permit result [] #} \<rparr>"

section \<open>Steps\<close>

inductive sched_step :: "('r, 'q, 'c) scheduler \<Rightarrow> ('r, 'q, 'c) scheduler \<Rightarrow> bool" where
  adds: "Adding slot h request callback owner \<in># sd_tasks s \<Longrightarrow> sched_step s (enqueue_add slot h request callback owner s)"
| spawns: "Waiting slot h request \<in># sd_tasks s \<Longrightarrow> sd_closed s = None \<Longrightarrow> 0 < sd_permits s \<Longrightarrow>
    sched_step s (enqueue_spawn slot h request s)"
| denied: "Waiting slot h request \<in># sd_tasks s \<Longrightarrow> sd_closed s = Some msg \<Longrightarrow> sched_step s (enqueue_denied slot h request msg s)"
| returns: "Running slot h request \<in># sd_tasks s \<Longrightarrow> sched_step s (handler_returns slot h request result s)"
| calls: "Calling slot h permit result (callback # callbacks) \<in># sd_tasks s \<Longrightarrow>
    sched_step s (call_next slot h permit result callback callbacks s)"
| calls_late: "Late slot h result callback \<in># sd_tasks s \<Longrightarrow> sched_step s (call_late slot h result callback s)"
| removes: "Calling slot h permit result [] \<in># sd_tasks s \<Longrightarrow> sched_step s (remove_in_flight slot h permit result s)"

text \<open>The states that calls of \<open>enqueue_blocking\<close> and steps lead to, with the hashes and callbacks of the calls.\<close>

inductive sched_reachable :: "nat \<Rightarrow> (hash_id \<times> 'c) list \<Rightarrow> ('r, 'q, 'c) scheduler \<Rightarrow> bool" for concurrency where
  fresh: "sched_reachable concurrency [] (scheduler_new concurrency)"
| enqueued: "sched_reachable concurrency es s \<Longrightarrow> sched_reachable concurrency (es @ [(h, callback)]) (enqueue_find h request callback s)"
| closed: "sched_reachable concurrency es s \<Longrightarrow> sched_reachable concurrency es (s\<lparr> sd_closed := Some msg \<rparr>)"
| steps: "sched_reachable concurrency es s \<Longrightarrow> sched_step s s' \<Longrightarrow> sched_reachable concurrency es s'"

section \<open>The invariant\<close>

fun holds_permit :: "('r, 'q, 'c) sched_task \<Rightarrow> bool" where
  "holds_permit (Running _ _ _) = True"
| "holds_permit (Calling _ _ permit _ _) = permit"
| "holds_permit _ = False"

text \<open>The slot that a task has created and not yet removed, and whether the slot still waits for its result.\<close>

fun owned :: "('r, 'q, 'c) sched_task \<Rightarrow> (nat \<times> hash_id) multiset" where
  "owned (Adding slot h _ _ owner) = (if owner then {# (slot, h) #} else {#})"
| "owned (Waiting slot h _) = {# (slot, h) #}"
| "owned (Running slot h _) = {# (slot, h) #}"
| "owned (Calling slot h _ _ _) = {# (slot, h) #}"
| "owned (Late _ _ _ _) = {#}"

fun unfinished :: "('r, 'q, 'c) sched_task \<Rightarrow> nat set" where
  "unfinished (Adding slot _ _ _ owner) = (if owner then {slot} else {})"
| "unfinished (Waiting slot _ _) = {slot}"
| "unfinished (Running slot _ _) = {slot}"
| "unfinished _ = {}"

fun task_slot :: "('r, 'q, 'c) sched_task \<Rightarrow> nat \<times> hash_id" where
  "task_slot (Adding slot h _ _ _) = (slot, h)"
| "task_slot (Waiting slot h _) = (slot, h)"
| "task_slot (Running slot h _) = (slot, h)"
| "task_slot (Calling slot h _ _ _) = (slot, h)"
| "task_slot (Late slot h _ _) = (slot, h)"

text \<open>The callbacks that a task has still to hand over or to call, and the result it calls them with.\<close>

fun task_callbacks :: "('r, 'q, 'c) sched_task \<Rightarrow> (hash_id \<times> 'c) multiset" where
  "task_callbacks (Adding _ h _ callback _) = {# (h, callback) #}"
| "task_callbacks (Calling _ h _ _ callbacks) = image_mset (Pair h) (mset callbacks)"
| "task_callbacks (Late _ h _ callback) = {# (h, callback) #}"
| "task_callbacks _ = {#}"

fun task_result :: "('r, 'q, 'c) sched_task \<Rightarrow> (hash_id \<times> 'q fs0_result) set" where
  "task_result (Calling _ h _ result _) = {(h, result)}"
| "task_result (Late _ h result _) = {(h, result)}"
| "task_result _ = {}"

definition permits_ok :: "nat \<Rightarrow> ('r, 'q, 'c) scheduler \<Rightarrow> bool" where
  "permits_ok concurrency s \<longleftrightarrow> sd_permits s + size (filter_mset holds_permit (sd_tasks s)) = max concurrency 1"

definition slot_callbacks :: "(nat \<Rightarrow> hash_id) \<Rightarrow> ('q, 'c) request_slot list \<Rightarrow> (hash_id \<times> 'c) multiset" where
  "slot_callbacks hs slots = (\<Sum>i<length slots. image_mset (Pair (hs i)) (mset (rs_callbacks (slots ! i))))"

definition pending_callbacks :: "(nat \<Rightarrow> hash_id) \<Rightarrow> ('r, 'q, 'c) scheduler \<Rightarrow> (hash_id \<times> 'c) multiset" where
  "pending_callbacks hs s = (\<Sum>t\<in>#sd_tasks s. task_callbacks t) + slot_callbacks hs (sd_slots s)"

definition called_callbacks :: "('r, 'q, 'c) scheduler \<Rightarrow> (hash_id \<times> 'c) multiset" where
  "called_callbacks s = mset (map (\<lambda>(h, callback, result). (h, callback)) (sd_called s))"

definition owners_ok :: "(nat \<Rightarrow> hash_id) \<Rightarrow> ('r, 'q, 'c) scheduler \<Rightarrow> bool" where
  "owners_ok hs s \<longleftrightarrow>
     hm_ok (sd_in_flight s) \<and> distinct (map snd (sd_in_flight s)) \<and>
     mset (map prod.swap (sd_in_flight s)) = (\<Sum>t\<in>#sd_tasks s. owned t) \<and>
     (\<forall>t\<in>#sd_tasks s. fst (task_slot t) < length (sd_slots s) \<and> hs (fst (task_slot t)) = snd (task_slot t))"

definition slots_ok :: "('r, 'q, 'c) scheduler \<Rightarrow> bool" where
  "slots_ok s \<longleftrightarrow>
     (\<forall>i<length (sd_slots s).
        (rs_result (sd_slots s ! i) = None \<longleftrightarrow> (\<exists>t\<in>#sd_tasks s. i \<in> unfinished t)) \<and>
        ((\<exists>t\<in>#sd_tasks s. i \<in> unfinished t) \<or> rs_callbacks (sd_slots s ! i) = []))"

definition results_ok :: "(nat \<Rightarrow> hash_id) \<Rightarrow> ('r, 'q, 'c) scheduler \<Rightarrow> bool" where
  "results_ok hs s \<longleftrightarrow>
     (\<forall>i<length (sd_slots s). \<forall>r. rs_result (sd_slots s ! i) = Some r \<longrightarrow> (hs i, r) \<in> set (sd_returned s)) \<and>
     (\<forall>t\<in>#sd_tasks s. task_result t \<subseteq> set (sd_returned s)) \<and>
     (\<forall>(h, callback, r)\<in>set (sd_called s). (h, r) \<in> set (sd_returned s))"

definition sched_inv :: "nat \<Rightarrow> (hash_id \<times> 'c) list \<Rightarrow> (nat \<Rightarrow> hash_id) \<Rightarrow> ('r, 'q, 'c) scheduler \<Rightarrow> bool" where
  "sched_inv concurrency es hs s \<longleftrightarrow>
     permits_ok concurrency s \<and> owners_ok hs s \<and> slots_ok s \<and> results_ok hs s \<and>
     called_callbacks s + pending_callbacks hs s = mset es"

lemmas sched_inv_defs = sched_inv_def permits_ok_def owners_ok_def slots_ok_def results_ok_def

lemmas sched_ops = enqueue_find_def enqueue_add_def enqueue_spawn_def enqueue_denied_def handler_returns_def complete_slot_def
  call_next_def call_late_def remove_in_flight_def slot_complete_def slot_add_callback_def next_of_add_def slot_new_def

lemma sched_inv_new: "sched_inv concurrency [] hs (scheduler_new concurrency)"
  by (simp add: sched_inv_defs scheduler_new_def hm_ok_def called_callbacks_def pending_callbacks_def slot_callbacks_def)

lemma slot_callbacks_update:
  assumes "i < length slots" "h = hs i"
  shows "slot_callbacks hs (slots[i := sl]) + image_mset (Pair h) (mset (rs_callbacks (slots ! i))) =
    slot_callbacks hs slots + image_mset (Pair h) (mset (rs_callbacks sl))"
proof -
  have eq: "slot_callbacks hs slots' = image_mset (Pair h) (mset (rs_callbacks (slots' ! i))) +
      (\<Sum>j\<in>{..<length slots} - {i}. image_mset (Pair (hs j)) (mset (rs_callbacks (slots' ! j))))"
    if "length slots' = length slots" for slots' :: "('q, 'c) request_slot list"
    using assms that unfolding slot_callbacks_def by (simp add: sum.remove [of "{..<length slots}" i])
  have "(\<Sum>j\<in>{..<length slots} - {i}. image_mset (Pair (hs j)) (mset (rs_callbacks (slots[i := sl] ! j)))) =
      (\<Sum>j\<in>{..<length slots} - {i}. image_mset (Pair (hs j)) (mset (rs_callbacks (slots ! j))))"
    by (rule sum.cong) auto
  with assms show ?thesis by (simp add: eq)
qed

lemma slot_callbacks_append:
  "slot_callbacks hs (slots @ [sl]) = slot_callbacks hs slots + image_mset (Pair (hs (length slots))) (mset (rs_callbacks sl))"
  by (simp add: slot_callbacks_def nth_append)

lemma slot_callbacks_cong: "(\<And>i. i < length slots \<Longrightarrow> hs i = hs' i) \<Longrightarrow> slot_callbacks hs slots = slot_callbacks hs' slots"
  unfolding slot_callbacks_def by (rule sum.cong) auto

text \<open>No slot has two owners.\<close>

lemma owned_once:
  assumes ok: "owners_ok hs s" and tasks: "sd_tasks s = add_mset t M" and t: "owned t = {# (i, h) #}"
  shows "\<forall>u\<in>#M. \<forall>h'. (i, h') \<notin># owned u"
proof (intro ballI allI notI)
  fix u h' assume u: "u \<in># M" "(i, h') \<in># owned u"
  have eq: "mset (map prod.swap (sd_in_flight s)) = add_mset (i, h) (\<Sum>t\<in>#M. owned t)"
    using ok t by (simp add: owners_ok_def tasks)
  have "(i, h') \<in># (\<Sum>t\<in>#M. owned t)" using u by auto
  then obtain N where N: "(\<Sum>t\<in>#M. owned t) = add_mset (i, h') N" by (metis multi_member_split)
  have "mset (map snd (sd_in_flight s)) = image_mset fst (mset (map prod.swap (sd_in_flight s)))"
    by (simp add: image_mset.compositionality comp_def)
  also have "\<dots> = add_mset i (add_mset i (image_mset fst N))" unfolding eq N by simp
  finally have "mset (map snd (sd_in_flight s)) = add_mset i (add_mset i (image_mset fst N))" .
  then have "count (mset (map snd (sd_in_flight s))) i \<ge> 2" by simp
  then show False using ok by (simp add: owners_ok_def distinct_count_atmost_1 split: if_splits)
qed

lemma unfinished_owned: "i \<in> unfinished t \<Longrightarrow> \<exists>h. (i, h) \<in># owned t"
  by (cases t) (auto split: if_splits)

lemma in_flight_slot:
  assumes ok: "owners_ok hs s" and mem: "(h, slot) \<in> set (sd_in_flight s)"
  shows "slot < length (sd_slots s) \<and> hs slot = h"
proof -
  have "(slot, h) \<in> set (map prod.swap (sd_in_flight s))" using mem by force
  then have "(slot, h) \<in># (\<Sum>t\<in>#sd_tasks s. owned t)"
    using ok unfolding owners_ok_def by (metis set_mset_mset)
  then obtain t where "t \<in># sd_tasks s" "(slot, h) \<in># owned t" by auto
  moreover from this(2) have "task_slot t = (slot, h)" by (cases t) (auto split: if_splits)
  ultimately show ?thesis using ok by (fastforce simp: owners_ok_def)
qed

lemma hm_insert_new: "k \<notin> fst ` set m \<Longrightarrow> hm_insert k v m = m @ [(k, v)]"
  by (induction m) auto

lemma enqueue_find_inv:
  assumes inv: "sched_inv n es hs s"
  shows "\<exists>hs'. sched_inv n (es @ [(h, callback)]) hs' (enqueue_find h request callback s)"
proof (cases "hm_get (sd_in_flight s) h")
  case (Some slot)
  then have "slot < length (sd_slots s)" "hs slot = h"
    using inv in_flight_slot [of hs s h slot] map_of_SomeD [OF Some] by (simp_all add: sched_inv_def)
  with inv Some show ?thesis
    by (intro exI [of _ hs]) (simp add: sched_inv_defs sched_ops called_callbacks_def pending_callbacks_def)
next
  case None
  let ?n = "length (sd_slots s)" and ?hs = "hs(length (sd_slots s) := h)"
  have new: "h \<notin> fst ` set (sd_in_flight s)" using None by (simp add: map_of_eq_None_iff)
  have ins: "hm_insert h ?n (sd_in_flight s) = sd_in_flight s @ [(h, ?n)]"
    using new by (rule hm_insert_new)
  have small: "i < ?n" if "i \<in> snd ` set (sd_in_flight s)" for i
    using that inv in_flight_slot [of hs s] by (auto simp: sched_inv_def)
  have tasks: "\<forall>t\<in>#sd_tasks s. fst (task_slot t) < ?n" using inv by (simp add: sched_inv_def owners_ok_def)
  have un: "\<forall>t\<in>#sd_tasks s. ?n \<notin> unfinished t"
  proof (intro ballI notI)
    fix t assume "t \<in># sd_tasks s" "?n \<in> unfinished t"
    moreover from this(2) have "fst (task_slot t) = ?n" by (cases t) (auto split: if_splits)
    ultimately show False using tasks by auto
  qed
  have "?n \<notin> snd ` set (sd_in_flight s)" using small by blast
  moreover have "slot_callbacks ?hs (sd_slots s) = slot_callbacks hs (sd_slots s)" by (rule slot_callbacks_cong) simp
  ultimately show ?thesis
    using inv None new ins tasks un
    by (intro exI [of _ ?hs])
      (auto simp: sched_inv_defs sched_ops called_callbacks_def pending_callbacks_def Let_def hm_ok_def slot_callbacks_append
        nth_append less_Suc_eq)
qed

lemma enqueue_add_inv:
  assumes inv: "sched_inv n es hs s" and t: "Adding slot h request callback owner \<in># sd_tasks s"
  shows "sched_inv n es hs (enqueue_add slot h request callback owner s)"
proof -
  from t obtain M where M: "sd_tasks s = add_mset (Adding slot h request callback owner) M" by (metis multi_member_split)
  have slot: "slot < length (sd_slots s)" "hs slot = h" using inv by (auto simp: sched_inv_def owners_ok_def M)
  show ?thesis
  proof (cases "rs_result (sd_slots s ! slot)")
    case None
    let ?sl = "(sd_slots s ! slot)\<lparr> rs_callbacks := rs_callbacks (sd_slots s ! slot) @ [callback] \<rparr>"
    have cb: "slot_callbacks hs ((sd_slots s)[slot := ?sl]) = add_mset (h, callback) (slot_callbacks hs (sd_slots s))"
      using slot_callbacks_update [OF slot(1), of h hs ?sl] slot(2) by simp
    let ?s = "enqueue_add slot h request callback owner s"
    have s': "?s = s\<lparr> sd_slots := (sd_slots s)[slot := ?sl], sd_tasks := (if owner then add_mset (Waiting slot h request) M else M) \<rparr>"
      by (simp add: sched_ops M None)
    have "slots_ok ?s" using inv slot None unfolding s' by (auto simp: sched_inv_def slots_ok_def M nth_list_update)
    moreover have "results_ok hs ?s" using inv slot unfolding s' by (auto simp: sched_inv_def results_ok_def M nth_list_update)
    moreover have "owners_ok hs ?s" "permits_ok n ?s" using inv slot unfolding s' by (auto simp: sched_inv_def owners_ok_def permits_ok_def M)
    moreover have "called_callbacks ?s + pending_callbacks hs ?s = mset es"
      using inv cb unfolding s' by (auto simp: sched_inv_def called_callbacks_def pending_callbacks_def M)
    ultimately show ?thesis by (simp add: sched_inv_def)
  next
    case (Some r)
    then have "\<not> owner" using inv slot M by (auto simp: sched_inv_def slots_ok_def)
    with inv Some slot M show ?thesis
      by (auto simp: sched_inv_defs sched_ops called_callbacks_def pending_callbacks_def nth_list_update split: if_splits)
  qed
qed

lemma enqueue_spawn_inv:
  assumes inv: "sched_inv n es hs s" and t: "Waiting slot h request \<in># sd_tasks s" and free: "0 < sd_permits s"
  shows "sched_inv n es hs (enqueue_spawn slot h request s)"
proof -
  from t obtain M where M: "sd_tasks s = add_mset (Waiting slot h request) M" by (metis multi_member_split)
  with inv free show ?thesis
    by (auto simp: sched_inv_defs sched_ops called_callbacks_def pending_callbacks_def)
qed

lemma complete_slot_inv:
  assumes inv: "sched_inv n es hs s" and t: "task \<in># sd_tasks s"
    and task: "task = Waiting slot h request \<and> \<not> permit \<or> task = Running slot h request \<and> permit"
  shows "sched_inv n es hs (complete_slot task slot h permit result s)"
proof -
  from t obtain M where M: "sd_tasks s = add_mset task M" by (metis multi_member_split)
  have own: "owned task = {# (slot, h) #}" "task_slot task = (slot, h)" "task_callbacks task = {#}" "holds_permit task = permit"
    using task by auto
  have slot: "slot < length (sd_slots s)" "hs slot = h" using inv own by (auto simp: sched_inv_def owners_ok_def M)
  have once: "\<forall>u\<in>#M. slot \<notin> unfinished u"
    using owned_once [OF _ M own(1), of hs] inv unfinished_owned by (metis sched_inv_def)
  let ?sl = "(sd_slots s ! slot)\<lparr> rs_result := Some result, rs_callbacks := [] \<rparr>"
  have cb: "slot_callbacks hs ((sd_slots s)[slot := ?sl]) + image_mset (Pair h) (mset (rs_callbacks (sd_slots s ! slot))) =
      slot_callbacks hs (sd_slots s)"
    using slot_callbacks_update [OF slot(1), of h hs ?sl] slot(2) by simp
  have un: "unfinished task = {slot}" using task by auto
  have "slots_ok (complete_slot task slot h permit result s)"
    using inv once un slot by (auto simp: sched_inv_def slots_ok_def sched_ops M nth_list_update)
  moreover have "called_callbacks (complete_slot task slot h permit result s) + pending_callbacks hs (complete_slot task slot h permit result s) = mset es"
    using inv own cb [symmetric] by (simp add: sched_inv_def called_callbacks_def pending_callbacks_def sched_ops M ac_simps)
  moreover have "results_ok hs (complete_slot task slot h permit result s)"
    using inv slot by (fastforce simp: sched_inv_def results_ok_def sched_ops M nth_list_update)
  moreover have "permits_ok n (complete_slot task slot h permit result s)" "owners_ok hs (complete_slot task slot h permit result s)"
    using inv own slot by (auto simp: sched_inv_def permits_ok_def owners_ok_def sched_ops M)
  ultimately show ?thesis by (simp add: sched_inv_def)
qed

lemma call_inv:
  assumes inv: "sched_inv n es hs s"
  shows "Calling slot h permit result (callback # callbacks) \<in># sd_tasks s \<Longrightarrow>
      sched_inv n es hs (call_next slot h permit result callback callbacks s)"
    and "Late slot h result callback \<in># sd_tasks s \<Longrightarrow> sched_inv n es hs (call_late slot h result callback s)"
proof -
  assume "Calling slot h permit result (callback # callbacks) \<in># sd_tasks s"
  then obtain M where M: "sd_tasks s = add_mset (Calling slot h permit result (callback # callbacks)) M" by (metis multi_member_split)
  with inv show "sched_inv n es hs (call_next slot h permit result callback callbacks s)"
    by (auto simp: sched_inv_defs sched_ops called_callbacks_def pending_callbacks_def)
next
  assume "Late slot h result callback \<in># sd_tasks s"
  then obtain M where M: "sd_tasks s = add_mset (Late slot h result callback) M" by (metis multi_member_split)
  with inv show "sched_inv n es hs (call_late slot h result callback s)"
    by (auto simp: sched_inv_defs sched_ops called_callbacks_def pending_callbacks_def)
qed

lemma remove_inv:
  assumes inv: "sched_inv n es hs s" and t: "Calling slot h permit result [] \<in># sd_tasks s"
  shows "sched_inv n es hs (remove_in_flight slot h permit result s)"
proof -
  from t obtain M where M: "sd_tasks s = add_mset (Calling slot h permit result []) M" by (metis multi_member_split)
  have eq: "mset (map prod.swap (sd_in_flight s)) = add_mset (slot, h) (\<Sum>t\<in>#M. owned t)"
    and dist: "hm_ok (sd_in_flight s)" using inv by (simp_all add: sched_inv_def owners_ok_def M)
  from eq have "(slot, h) \<in># mset (map prod.swap (sd_in_flight s))" by simp
  then have mem: "(h, slot) \<in> set (sd_in_flight s)" by auto
  then obtain xs ys where split: "sd_in_flight s = xs @ (h, slot) # ys" by (meson split_list)
  have "h \<notin> fst ` set xs" "h \<notin> fst ` set ys" using dist by (auto simp: hm_ok_def split)
  then have "filter (\<lambda>(k, v). h \<noteq> k) xs = xs" "filter (\<lambda>(k, v). h \<noteq> k) ys = ys" by (force intro!: filter_True)+
  then have del: "hm_remove h (sd_in_flight s) = xs @ ys" by (simp add: split AList.delete_eq)
  from eq have "mset (map prod.swap (xs @ ys)) = (\<Sum>t\<in>#M. owned t)" by (simp add: split)
  with inv M del split show ?thesis
    by (auto simp: sched_inv_defs sched_ops called_callbacks_def pending_callbacks_def hm_ok_def)
qed

lemma sched_step_inv: "sched_step s s' \<Longrightarrow> sched_inv n es hs s \<Longrightarrow> sched_inv n es hs s'"
  by (induction rule: sched_step.induct)
    (auto intro: enqueue_add_inv enqueue_spawn_inv call_inv remove_inv simp: enqueue_denied_def handler_returns_def
      intro!: complete_slot_inv)

lemma sched_reachable_inv: "sched_reachable n es s \<Longrightarrow> \<exists>hs. sched_inv n es hs s"
proof (induction rule: sched_reachable.induct)
  case fresh
  show ?case using sched_inv_new by blast
next
  case (enqueued es s h callback request)
  from enqueued.IH obtain hs where "sched_inv n es hs s" by blast
  then show ?case by (rule enqueue_find_inv)
next
  case (closed es s msg)
  then show ?case
    by (auto simp: sched_inv_defs called_callbacks_def pending_callbacks_def)
next
  case (steps es s s')
  then show ?case using sched_step_inv by blast
qed

section \<open>What the scheduler promises\<close>

text \<open>No more handlers run than the semaphore has permits, and no two for the same hash.\<close>

definition running :: "('r, 'q, 'c) scheduler \<Rightarrow> hash_id multiset" where
  "running s = (\<Sum>t\<in>#sd_tasks s. case t of Running slot h request \<Rightarrow> {# h #} | _ \<Rightarrow> {#})"

lemma size_running_le: "size (\<Sum>t\<in>#M. case t of Running slot h request \<Rightarrow> {# h #} | _ \<Rightarrow> {#}) \<le> size (filter_mset holds_permit M)"
  by (induction M) (auto split: sched_task.splits)

lemma running_bounded: "sched_inv n es hs s \<Longrightarrow> size (running s) \<le> max n 1"
  using size_running_le [of "sd_tasks s"] by (simp add: sched_inv_def permits_ok_def running_def)

lemma running_owned: "(\<Sum>t\<in>#M. case t of Running slot h request \<Rightarrow> {# h #} | _ \<Rightarrow> {#}) \<subseteq># image_mset snd (\<Sum>t\<in>#M. owned t)"
proof (induction M)
  case (add t M)
  have "(case t of Running slot h request \<Rightarrow> {# h #} | _ \<Rightarrow> {#}) \<subseteq># image_mset snd (owned t)"
    by (cases t) auto
  with add.IH show ?case by (simp add: subset_mset.add_mono)
qed simp

lemma running_distinct:
  assumes "sched_inv n es hs s"
  shows "count (running s) h \<le> 1"
proof -
  have "image_mset snd (\<Sum>t\<in>#sd_tasks s. owned t) = mset (map fst (sd_in_flight s))"
  proof -
    have "image_mset snd (mset (map prod.swap (sd_in_flight s))) = mset (map fst (sd_in_flight s))"
      by (simp add: image_mset.compositionality comp_def)
    then show ?thesis using assms by (simp add: sched_inv_def owners_ok_def)
  qed
  then have "running s \<subseteq># mset (map fst (sd_in_flight s))" using running_owned [of "sd_tasks s"] by (simp add: running_def)
  then have "count (running s) h \<le> count (mset (map fst (sd_in_flight s))) h" by (simp add: mset_subset_eq_count)
  also have "\<dots> \<le> 1" using assms by (simp add: sched_inv_def owners_ok_def hm_ok_def distinct_count_atmost_1)
  finally show ?thesis .
qed

text \<open>Every step brings the work to be done closer to its end, and while there is work some step is possible.\<close>

fun task_work :: "('r, 'q, 'c) sched_task \<Rightarrow> nat" where
  "task_work (Adding _ _ _ _ owner) = (if owner then 6 else 2)"
| "task_work (Waiting _ _ _) = 4"
| "task_work (Running _ _ _) = 3"
| "task_work (Calling _ _ _ _ callbacks) = 1 + length callbacks"
| "task_work (Late _ _ _ _) = 1"

definition sched_work :: "('r, 'q, 'c) scheduler \<Rightarrow> nat" where
  "sched_work s = (\<Sum>t\<in>#sd_tasks s. task_work t) + (\<Sum>sl\<leftarrow>sd_slots s. length (rs_callbacks sl))"

lemma sum_list_update_nat:
  "i < length xs \<Longrightarrow> (\<Sum>x\<leftarrow>xs[i := y]. f x) + f (xs ! i) = (\<Sum>x\<leftarrow>xs. f x) + (f y :: nat)"
  by (induction xs arbitrary: i) (auto split: nat.splits)

lemma sched_step_work:
  assumes "sched_step s s'" and "owners_ok hs s"
  shows "sched_work s' < sched_work s"
  using assms
proof (induction rule: sched_step.induct)
  case (adds slot h request callback owner s)
  then obtain M where M: "sd_tasks s = add_mset (Adding slot h request callback owner) M" by (metis multi_member_split)
  with adds have "slot < length (sd_slots s)" by (auto simp: owners_ok_def)
  from sum_list_update_nat [OF this, of "\<lambda>sl. length (rs_callbacks sl)"
      "(sd_slots s ! slot)\<lparr> rs_callbacks := rs_callbacks (sd_slots s ! slot) @ [callback] \<rparr>"] show ?case
    by (cases "rs_result (sd_slots s ! slot)") (simp_all add: sched_work_def sched_ops M)
next
  case (spawns slot h request s)
  then obtain M where M: "sd_tasks s = add_mset (Waiting slot h request) M" by (metis multi_member_split)
  then show ?case by (simp add: sched_work_def sched_ops)
next
  case (denied slot h request s msg)
  then obtain M where M: "sd_tasks s = add_mset (Waiting slot h request) M" by (metis multi_member_split)
  with denied have "slot < length (sd_slots s)" by (auto simp: owners_ok_def)
  from sum_list_update_nat [OF this, of "\<lambda>sl. length (rs_callbacks sl)"
      "(sd_slots s ! slot)\<lparr> rs_result := Some (Inl (Internal msg)), rs_callbacks := [] \<rparr>"] show ?case
    by (simp add: sched_work_def sched_ops M)
next
  case (returns slot h request s result)
  then obtain M where M: "sd_tasks s = add_mset (Running slot h request) M" by (metis multi_member_split)
  with returns have "slot < length (sd_slots s)" by (auto simp: owners_ok_def)
  from sum_list_update_nat [OF this, of "\<lambda>sl. length (rs_callbacks sl)"
      "(sd_slots s ! slot)\<lparr> rs_result := Some result, rs_callbacks := [] \<rparr>"] show ?case
    by (simp add: sched_work_def sched_ops M)
next
  case (calls slot h permit result callback callbacks s)
  then obtain M where M: "sd_tasks s = add_mset (Calling slot h permit result (callback # callbacks)) M" by (metis multi_member_split)
  then show ?case by (simp add: sched_work_def sched_ops)
next
  case (calls_late slot h result callback s)
  then obtain M where M: "sd_tasks s = add_mset (Late slot h result callback) M" by (metis multi_member_split)
  then show ?case by (simp add: sched_work_def sched_ops)
next
  case (removes slot h permit result s)
  then obtain M where M: "sd_tasks s = add_mset (Calling slot h permit result []) M" by (metis multi_member_split)
  then show ?case by (simp add: sched_work_def sched_ops)
qed

lemma sched_progress:
  assumes inv: "sched_inv n es hs s" and work: "sd_tasks s \<noteq> {#}"
  shows "\<exists>s'. sched_step s s'"
proof -
  have moves: "\<exists>s'. sched_step s s'" if t: "t \<in># sd_tasks s" and not: "\<forall>slot h request. t \<noteq> Waiting slot h request" for t
  proof (cases t)
    case (Adding slot h request callback owner)
    then show ?thesis using t sched_step.adds [of slot h request callback owner s] by auto
  next
    case (Running slot h request)
    then show ?thesis using t sched_step.returns [of slot h request s] by auto
  next
    case (Calling slot h permit result callbacks)
    then show ?thesis
      using t sched_step.calls [of slot h permit result _ _ s] sched_step.removes [of slot h permit result s] by (cases callbacks) auto
  next
    case (Late slot h result callback)
    then show ?thesis using t sched_step.calls_late [of slot h result callback s] by auto
  qed (use not in blast)
  from work obtain t where t: "t \<in># sd_tasks s" by (meson multiset_nonemptyE)
  show ?thesis
  proof (cases "\<exists>u\<in>#sd_tasks s. holds_permit u")
    case True
    then obtain u where u: "u \<in># sd_tasks s" "holds_permit u" by blast
    then have "\<forall>slot h request. u \<noteq> Waiting slot h request" by auto
    with moves [OF u(1)] show ?thesis by blast
  next
    case False
    then have "size (filter_mset holds_permit (sd_tasks s)) = 0" by auto
    moreover have "sd_permits s + size (filter_mset holds_permit (sd_tasks s)) = max n 1"
      using inv unfolding sched_inv_def permits_ok_def by blast
    ultimately have "0 < sd_permits s" by linarith
    then have "Waiting slot h request \<in># sd_tasks s \<Longrightarrow> \<exists>s'. sched_step s s'" for slot h request
      using sched_step.spawns [of slot h request s] sched_step.denied [of slot h request s] by (cases "sd_closed s") blast+
    then show ?thesis using t moves [OF t] by blast
  qed
qed

lemma sched_drains:
  assumes "sched_inv n es hs s"
  shows "\<exists>s'. sched_step\<^sup>*\<^sup>* s s' \<and> sd_tasks s' = {#} \<and> sched_inv n es hs s'"
  using assms
proof (induction "sched_work s" arbitrary: s rule: less_induct)
  case less
  show ?case
  proof (cases "sd_tasks s = {#}")
    case False
    from sched_progress [OF less.prems this] obtain t where t: "sched_step s t" by blast
    moreover have "sched_inv n es hs t" using t less.prems by (rule sched_step_inv)
    moreover have "owners_ok hs s" using less.prems by (simp add: sched_inv_def)
    with t have "sched_work t < sched_work s" by (rule sched_step_work)
    ultimately show ?thesis using less.hyps [of t] by (meson converse_rtranclp_into_rtranclp)
  qed (use less.prems in blast)
qed

text \<open>When no task is left, every callback has been called exactly as often as it was handed in.\<close>

lemma sched_idle_called:
  assumes inv: "sched_inv n es hs s" and idle: "sd_tasks s = {#}"
  shows "called_callbacks s = mset es" and "sd_in_flight s = []" and "sd_permits s = max n 1"
proof -
  have "rs_callbacks (sd_slots s ! i) = []" if "i < length (sd_slots s)" for i
    using inv that idle by (auto simp: sched_inv_def slots_ok_def)
  then have "slot_callbacks hs (sd_slots s) = {#}" by (simp add: slot_callbacks_def)
  then show "called_callbacks s = mset es" using inv idle by (simp add: sched_inv_def pending_callbacks_def)
  show "sd_in_flight s = []" using inv idle by (simp add: sched_inv_def owners_ok_def)
  show "sd_permits s = max n 1" using inv idle by (simp add: sched_inv_def permits_ok_def)
qed

lemma sched_called_once: "sched_inv n es hs s \<Longrightarrow> called_callbacks s \<subseteq># mset es"
  by (metis mset_subset_eq_add_left sched_inv_def)

lemma sched_called_result: "sched_inv n es hs s \<Longrightarrow> (h, callback, r) \<in> set (sd_called s) \<Longrightarrow> (h, r) \<in> set (sd_returned s)"
  by (auto simp: sched_inv_def results_ok_def)

end
