(* ===== verification/Transport.thy ===== *)
theory Transport
  imports Fs0_Protocol
begin

text \<open>
  The transport (\<^verbatim>\<open>fs0-transport/src\<close>): frames of a length and a body, remote calls over a stream, the side that
  accepts streams, and connecting with retries. Streams are lists of bytes; opening them, timeouts and the crate
  \<^verbatim>\<open>postcard\<close> that encodes values are arguments.
\<close>

section \<open>Frames\<close>

record 'a codec =
  to_allocvec :: "'a \<Rightarrow> string + u8 list"
  from_bytes :: "u8 list \<Rightarrow> string + 'a"

text \<open>What is relied on of the codec: what was encoded decodes to the same value.\<close>

definition codec_ok :: "'a codec \<Rightarrow> bool" where
  "codec_ok C \<longleftrightarrow> (\<forall>v bs. to_allocvec C v = Inr bs \<longrightarrow> from_bytes C bs = Inr v)"

definition u32_to_le_bytes :: "u32 \<Rightarrow> u8 list" where
  "u32_to_le_bytes n = map (\<lambda>i. of_nat (unat n div 256 ^ i)) [0..<TRANSPORT_FRAME_LEN_BYTES]"

definition u32_from_le_bytes :: "u8 list \<Rightarrow> u32" where
  "u32_from_le_bytes bs = of_nat (\<Sum>i<length bs. unat (bs ! i) * 256 ^ i)"

type_synonym 'a stream_op = "(u8 list, fs0_error, 'a) st"

text \<open>\<open>read_exact\<close> of a stream that has these bytes left and then ends.\<close>

definition read_exact :: "nat \<Rightarrow> u8 list stream_op" where
  "read_exact n = (\<lambda>input. if length input < n then (Inl (Io ''early eof''), []) else (Inr (take n input), drop n input))"

definition read_frame :: "'a codec \<Rightarrow> 'a stream_op" where
  "read_frame C =
     st_bind (read_exact TRANSPORT_FRAME_LEN_BYTES) (\<lambda>len.
     let body_len = unat (u32_from_le_bytes len) in
     if TRANSPORT_MAX_FRAME_BODY_LEN < body_len then st_throw (FrameTooLarge body_len TRANSPORT_MAX_FRAME_BODY_LEN)
     else
       st_bind (read_exact body_len) (\<lambda>body.
       st_lift (case from_bytes C body of Inl msg \<Rightarrow> Inl (Postcard msg) | Inr value \<Rightarrow> Inr value)))"

text \<open>A write call fails after some bytes with a message, or writes all.\<close>

definition write_all :: "(nat \<times> string) option \<Rightarrow> u8 list \<Rightarrow> unit stream_op" where
  "write_all failure bytes = (\<lambda>out.
     case failure of
       None \<Rightarrow> (Inr (), out @ bytes)
     | Some (k, msg) \<Rightarrow> (Inl (Io msg), out @ take k bytes))"

record write_env =
  we_len :: "(nat \<times> string) option"
  we_body :: "(nat \<times> string) option"
  we_flush :: "string option"

definition write_frame :: "'a codec \<Rightarrow> write_env \<Rightarrow> 'a \<Rightarrow> unit stream_op" where
  "write_frame C W value =
     st_bind (st_lift (case to_allocvec C value of Inl msg \<Rightarrow> Inl (Postcard msg) | Inr body \<Rightarrow> Inr body)) (\<lambda>body.
     if TRANSPORT_MAX_FRAME_BODY_LEN < length body then st_throw (FrameTooLarge (length body) TRANSPORT_MAX_FRAME_BODY_LEN)
     else
       st_bind (write_all (we_len W) (u32_to_le_bytes (of_nat (length body)))) (\<lambda>_.
       st_bind (write_all (we_body W) body) (\<lambda>_.
       st_lift (case we_flush W of None \<Rightarrow> Inr () | Some msg \<Rightarrow> Inl (Io msg)))))"

section \<open>Remote calls\<close>

text \<open>
  The outside of a call: opening the stream, the writes, finishing the stream, what comes back for the bytes
  sent, and whether time runs out first (with the printed duration).
\<close>

record rpc_env =
  re_open :: "string option"
  re_write :: write_env
  re_finish :: "string option"
  re_reply :: "u8 list \<Rightarrow> u8 list"
  re_timeout :: "string option"

definition internal :: "string option \<Rightarrow> unit fs0_result" where
  "internal e = (case e of None \<Rightarrow> Inr () | Some msg \<Rightarrow> Inl (Internal msg))"

definition transport_rpc :: "protocol_request codec \<Rightarrow> protocol_response codec \<Rightarrow> rpc_env \<Rightarrow> protocol_request \<Rightarrow> protocol_response fs0_result" where
  "transport_rpc Q A E request =
     (case re_timeout E of
        Some timeout \<Rightarrow> Inl (Internal (''transport rpc timed out after '' @ timeout))
      | None \<Rightarrow>
          res_bind (internal (re_open E)) (\<lambda>_.
          case write_frame Q (re_write E) request [] of
            (Inl e, _) \<Rightarrow> Inl e
          | (Inr _, sent) \<Rightarrow> res_bind (internal (re_finish E)) (\<lambda>_. fst (read_frame A (re_reply E sent)))))"

text \<open>The task of an accepted stream: one request, one response; the bytes written are the result.\<close>

definition accept_bi ::
  "protocol_request codec \<Rightarrow> protocol_response codec \<Rightarrow> write_env \<Rightarrow> (protocol_request \<Rightarrow> 's \<Rightarrow> (protocol_response option) fs0_result \<times> 's) \<Rightarrow>
   u8 list \<Rightarrow> 's \<Rightarrow> u8 list \<times> 's" where
  "accept_bi Q A W handler input s =
     (case (case fst (read_frame Q input) of
              Inr request \<Rightarrow>
                (case handler request s of
                   (Inr (Some response), s') \<Rightarrow> (response, s')
                 | (Inr None, s') \<Rightarrow> (Error InvalidRequest, s')
                 | (Inl e, s') \<Rightarrow> (Error e, s'))
            | Inl e \<Rightarrow> (Error e, s)) of
        (response, s') \<Rightarrow> (snd (write_frame A W response []), s'))"

text \<open>The task of an accepted one-way stream: events until the stream ends or a frame is bad. A frame has at least
  the bytes of its length, so that the loop ends.\<close>

lemma read_frame_shorter: "read_frame C input = (Inr v, rest) \<Longrightarrow> length rest < length input"
  by (auto simp: read_frame_def st_bind_Inr_iff read_exact_def Let_def TRANSPORT_FRAME_LEN_BYTES_def split: if_splits)

function accept_uni ::
  "protocol_event codec \<Rightarrow> (protocol_request \<Rightarrow> 's \<Rightarrow> (protocol_response option) fs0_result \<times> 's) \<Rightarrow> u8 list \<Rightarrow> 's \<Rightarrow> 's" where
  "accept_uni C handler input s =
     (case read_frame C input of
        (Inl e, _) \<Rightarrow> s
      | (Inr event, rest) \<Rightarrow> accept_uni C handler rest (snd (handler (protocol_request.Event event) s)))"
  by pat_completeness auto
termination
  by (relation "measure (\<lambda>(C, handler, input, s). length input)") (auto dest: sym intro: read_frame_shorter)

declare accept_uni.simps [simp del]

fun protocol_request_kind :: "protocol_request \<Rightarrow> string" where
  "protocol_request_kind (protocol_request.Control _) = ''control''"
| "protocol_request_kind (protocol_request.Data _) = ''data''"
| "protocol_request_kind (protocol_request.Event _) = ''event''"
| "protocol_request_kind (protocol_request.CentralAdmin _) = ''central_admin''"
| "protocol_request_kind (protocol_request.StorageAdmin _) = ''storage_admin''"

fun protocol_response_kind :: "protocol_response \<Rightarrow> string" where
  "protocol_response_kind (Error _) = ''error''"
| "protocol_response_kind (protocol_response.Control _) = ''control''"
| "protocol_response_kind (protocol_response.Data _) = ''data''"
| "protocol_response_kind (protocol_response.CentralAdmin _) = ''central_admin''"
| "protocol_response_kind (protocol_response.StorageAdmin _) = ''storage_admin''"

section \<open>Connecting with retries\<close>

text \<open>A \<open>Duration\<close> in nanoseconds; its largest value has \<open>u64::MAX\<close> seconds.\<close>

definition DURATION_MAX :: nat where
  "DURATION_MAX = (2 ^ 64 - 1) * 10 ^ 9 + 999999999"

definition duration_checked_mul :: "nat \<Rightarrow> nat \<Rightarrow> nat option" where
  "duration_checked_mul d factor = (if d * factor \<le> DURATION_MAX then Some (d * factor) else None)"

record connect_retry =
  cr_max_attempts :: nat
  cr_initial_delay :: nat
  cr_max_delay :: nat

record connect_options =
  co_timeout :: nat
  co_retry :: connect_retry

definition retry_disabled :: connect_retry where
  "retry_disabled = \<lparr> cr_max_attempts = 1, cr_initial_delay = 0, cr_max_delay = 0 \<rparr>"

definition retry_new :: "nat \<Rightarrow> nat \<Rightarrow> nat \<Rightarrow> connect_retry" where
  "retry_new max_attempts initial_delay max_delay =
     \<lparr> cr_max_attempts = max max_attempts 1, cr_initial_delay = initial_delay, cr_max_delay = max max_delay initial_delay \<rparr>"

definition connect_options_default :: connect_options where
  "connect_options_default = \<lparr> co_timeout = 15 * 10 ^ 9, co_retry = retry_disabled \<rparr>"

definition delay_after_attempt :: "connect_retry \<Rightarrow> nat \<Rightarrow> nat" where
  "delay_after_attempt r attempt =
     (let exponent = min (attempt - 1) 31; factor = 2 ^ exponent in
      min (case duration_checked_mul (cr_initial_delay r) factor of None \<Rightarrow> cr_max_delay r | Some d \<Rightarrow> d) (cr_max_delay r))"

text \<open>The outcome of an attempt: a connection, a failure, or running out of time; the times slept are recorded.\<close>

datatype attempt_outcome = Connected nat | ConnectFailed string | TimedOut string

fun attempt_result :: "attempt_outcome \<Rightarrow> nat fs0_result" where
  "attempt_result (Connected c) = Inr c"
| "attempt_result (ConnectFailed msg) = Inl (Internal msg)"
| "attempt_result (TimedOut timeout) = Inl (Internal (''transport connect timed out after '' @ timeout))"

function connect_loop :: "connect_retry \<Rightarrow> (nat \<Rightarrow> attempt_outcome) \<Rightarrow> nat \<Rightarrow> nat list \<Rightarrow> nat fs0_result \<times> nat list" where
  "connect_loop r outcome attempt slept =
     (if cr_max_attempts r < attempt then (Inl (Internal ''transport connect had no attempts''), slept)
      else
        case attempt_result (outcome attempt) of
          Inr c \<Rightarrow> (Inr c, slept)
        | Inl e \<Rightarrow>
            if attempt = cr_max_attempts r then (Inl e, slept)
            else connect_loop r outcome (attempt + 1) (slept @ [delay_after_attempt r attempt]))"
  by pat_completeness auto
termination
  by (relation "measure (\<lambda>(r, outcome, attempt, slept). cr_max_attempts r + 1 - attempt)") auto

declare connect_loop.simps [simp del]

definition connect :: "connect_options option \<Rightarrow> (nat \<Rightarrow> attempt_outcome) \<Rightarrow> nat fs0_result \<times> nat list" where
  "connect options outcome =
     connect_loop (co_retry (case options of None \<Rightarrow> connect_options_default | Some opts \<Rightarrow> opts)) outcome 1 []"

section \<open>What frames and calls keep\<close>

lemma le_digits: "(\<Sum>i<k. (n div 256 ^ i mod 256) * 256 ^ i) = n mod 256 ^ (k :: nat)" for n :: nat
proof (induction k)
  case (Suc k)
  have "n mod 256 ^ Suc k = 256 ^ k * (n div 256 ^ k mod 256) + n mod 256 ^ k"
    by (simp only: power_Suc2 mod_mult2_eq)
  with Suc show ?case by simp
qed simp

lemma u32_le_round_trip: "u32_from_le_bytes (u32_to_le_bytes n) = n"
proof -
  have nth: "unat (u32_to_le_bytes n ! i) = unat n div 256 ^ i mod 256" if "i < 4" for i
    using that by (simp add: u32_to_le_bytes_def TRANSPORT_FRAME_LEN_BYTES_def unat_of_nat take_bit_eq_mod)
  have "(\<Sum>i<4. unat (u32_to_le_bytes n ! i) * 256 ^ i) = unat n mod 256 ^ 4"
    using le_digits [of "unat n" 4] nth by simp
  also have "\<dots> = unat n" using unsigned_less [of n, where 'a = nat] by simp
  finally show ?thesis by (simp add: u32_from_le_bytes_def u32_to_le_bytes_def TRANSPORT_FRAME_LEN_BYTES_def)
qed

lemma length_u32_to_le_bytes: "length (u32_to_le_bytes n) = 4"
  by (simp add: u32_to_le_bytes_def TRANSPORT_FRAME_LEN_BYTES_def)

definition writes_through :: "write_env \<Rightarrow> bool" where
  "writes_through W \<longleftrightarrow> we_len W = None \<and> we_body W = None \<and> we_flush W = None"

definition frame_fits :: "'a codec \<Rightarrow> 'a \<Rightarrow> bool" where
  "frame_fits C v \<longleftrightarrow> (\<exists>body. to_allocvec C v = Inr body \<and> length body \<le> TRANSPORT_MAX_FRAME_BODY_LEN)"

lemma write_frame_ok:
  assumes "writes_through W" and "to_allocvec C v = Inr body" and "length body \<le> TRANSPORT_MAX_FRAME_BODY_LEN"
  shows "write_frame C W v out = (Inr (), out @ u32_to_le_bytes (of_nat (length body)) @ body)"
  using assms by (simp add: write_frame_def write_all_def writes_through_def)

lemma read_frame_written:
  assumes "codec_ok C" and "to_allocvec C v = Inr body" and "length body \<le> TRANSPORT_MAX_FRAME_BODY_LEN"
  shows "read_frame C (u32_to_le_bytes (of_nat (length body)) @ body @ rest) = (Inr v, rest)"
proof -
  have "unat (of_nat (length body) :: u32) = length body"
    using assms(3) by (simp add: unat_of_nat take_bit_eq_mod TRANSPORT_MAX_FRAME_BODY_LEN_def)
  with assms show ?thesis
    by (simp add: read_frame_def read_exact_def st_bind_def Let_def TRANSPORT_FRAME_LEN_BYTES_def length_u32_to_le_bytes
        u32_le_round_trip codec_ok_def)
qed

lemma frame_round_trip:
  assumes "codec_ok C" and "writes_through W" and "frame_fits C v"
  shows "fst (write_frame C W v out) = Inr () \<and> (\<exists>bs. snd (write_frame C W v out) = out @ bs \<and> (\<forall>rest. read_frame C (bs @ rest) = (Inr v, rest)))"
  using assms read_frame_written [OF assms(1)] unfolding frame_fits_def by (auto simp: write_frame_ok)

lemma rpc_serves:
  assumes Q: "codec_ok Q" and A: "codec_ok A" and env: "re_timeout E = None" "re_open E = None" "re_finish E = None" "writes_through (re_write E)"
    and fits: "frame_fits Q request" "frame_fits A response" and W: "writes_through W"
    and h: "handler request s = (Inr (Some response), s')"
    and reply: "re_reply E = (\<lambda>sent. fst (accept_bi Q A W handler sent s))"
  shows "transport_rpc Q A E request = Inr response"
proof -
  obtain bs where w: "write_frame Q (re_write E) request [] = (Inr (), bs)" and r: "read_frame Q bs = (Inr request, [])"
    using frame_round_trip [OF Q env(4) fits(1), of "[]"] by (metis append_Nil append_Nil2 prod.collapse)
  obtain cs where w': "write_frame A W response [] = (Inr (), cs)" and r': "read_frame A cs = (Inr response, [])"
    using frame_round_trip [OF A W fits(2), of "[]"] by (metis append_Nil append_Nil2 prod.collapse)
  show ?thesis using env w r w' r' h by (simp add: transport_rpc_def internal_def reply accept_bi_def)
qed

text \<open>A request that is too large is refused before anything is sent; a frame that claims to be is refused unread.\<close>

lemma write_frame_too_large:
  assumes "to_allocvec C v = Inr body" and "TRANSPORT_MAX_FRAME_BODY_LEN < length body"
  shows "write_frame C W v out = (Inl (FrameTooLarge (length body) TRANSPORT_MAX_FRAME_BODY_LEN), out)"
  using assms by (simp add: write_frame_def)

lemma accept_uni_events:
  assumes C: "codec_ok C" and W: "writes_through W" and fits: "\<forall>e\<in>set events. frame_fits C e" and bad: "\<exists>e. fst (read_frame C tail) = Inl e"
  shows "accept_uni C handler (concat (map (\<lambda>e. snd (write_frame C W e [])) events) @ tail) s =
    fold (\<lambda>e s. snd (handler (protocol_request.Event e) s)) events s"
  using fits
proof (induction events arbitrary: s)
  case Nil
  with bad show ?case by (subst accept_uni.simps) (auto split: prod.splits)
next
  case (Cons e es)
  then obtain bs where bs: "snd (write_frame C W e []) = bs" "\<And>rest. read_frame C (bs @ rest) = (Inr e, rest)"
    using frame_round_trip [OF C W, of e "[]"] by auto
  show ?case using Cons bs by (subst accept_uni.simps) simp
qed

section \<open>What retrying keeps\<close>

definition retry_ok :: "connect_retry \<Rightarrow> bool" where
  "retry_ok r \<longleftrightarrow> 1 \<le> cr_max_attempts r \<and> cr_initial_delay r \<le> cr_max_delay r \<and> cr_max_delay r \<le> DURATION_MAX"

lemma delay_bound: "delay_after_attempt r attempt \<le> cr_max_delay r"
  by (simp add: delay_after_attempt_def Let_def)

lemma delay_exact:
  assumes "cr_max_delay r \<le> DURATION_MAX"
  shows "delay_after_attempt r attempt = min (cr_initial_delay r * 2 ^ min (attempt - 1) 31) (cr_max_delay r)"
  using assms by (auto simp: delay_after_attempt_def duration_checked_mul_def Let_def min_def)

lemma delay_mono: "cr_max_delay r \<le> DURATION_MAX \<Longrightarrow> a \<le> b \<Longrightarrow> delay_after_attempt r a \<le> delay_after_attempt r b"
proof -
  assume "cr_max_delay r \<le> DURATION_MAX" "a \<le> b"
  moreover have "cr_initial_delay r * 2 ^ min (a - 1) 31 \<le> cr_initial_delay r * (2 :: nat) ^ min (b - 1) 31"
    using \<open>a \<le> b\<close> by (intro mult_le_mono2 power_increasing) auto
  ultimately show ?thesis by (auto simp: delay_exact min_le_iff_disj intro: min.mono)
qed

text \<open>Connecting gives the first connection that comes about within the attempts, or else the last error; between
  two attempts it waits.\<close>

definition is_connected :: "attempt_outcome \<Rightarrow> bool" where
  "is_connected out = (case out of Connected _ \<Rightarrow> True | _ \<Rightarrow> False)"

lemma attempt_result_connected: "is_connected out \<longleftrightarrow> (\<exists>c. attempt_result out = Inr c)"
  by (cases out) (auto simp: is_connected_def)

lemma connect_loop_spec:
  assumes "attempt \<le> cr_max_attempts r"
  shows "connect_loop r outcome attempt slept =
    (let n = (case find (\<lambda>n. is_connected (outcome n)) [attempt..<Suc (cr_max_attempts r)] of Some n \<Rightarrow> n | None \<Rightarrow> cr_max_attempts r)
     in (attempt_result (outcome n), slept @ map (delay_after_attempt r) [attempt..<n]))"
  using assms
proof (induction r outcome attempt slept rule: connect_loop.induct)
  case (1 r outcome attempt slept)
  have up: "[attempt..<Suc (cr_max_attempts r)] = attempt # [attempt + 1..<Suc (cr_max_attempts r)]"
    using "1.prems" by (simp add: upt_conv_Cons)
  show ?case
  proof (cases "attempt_result (outcome attempt)")
    case (Inr c)
    then have "is_connected (outcome attempt)" by (simp add: attempt_result_connected)
    with Inr "1.prems" show ?thesis by (subst connect_loop.simps) (simp add: up del: upt_Suc)
  next
    case (Inl e)
    then have nc: "\<not> is_connected (outcome attempt)" by (simp add: attempt_result_connected)
    show ?thesis
    proof (cases "attempt = cr_max_attempts r")
      case True
      with Inl nc show ?thesis by (subst connect_loop.simps) simp
    next
      case False
      then have lt: "attempt < cr_max_attempts r" using "1.prems" by simp
      let ?find = "find (\<lambda>n. is_connected (outcome n)) [attempt + 1..<Suc (cr_max_attempts r)]"
      let ?n = "case ?find of Some n \<Rightarrow> n | None \<Rightarrow> cr_max_attempts r"
      have n: "attempt < ?n" using lt by (auto simp del: upt_Suc split: option.splits dest!: find_SomeD)
      have "connect_loop r outcome attempt slept = connect_loop r outcome (attempt + 1) (slept @ [delay_after_attempt r attempt])"
        using lt Inl by (subst connect_loop.simps) simp
      also have "\<dots> = (attempt_result (outcome ?n), slept @ [delay_after_attempt r attempt] @ map (delay_after_attempt r) [attempt + 1..<?n])"
        using "1.IH" [OF _ Inl False] lt by (simp add: Let_def del: upt_Suc)
      also have "[delay_after_attempt r attempt] @ map (delay_after_attempt r) [attempt + 1..<?n] = map (delay_after_attempt r) [attempt..<?n]"
        using n by (simp add: upt_conv_Cons)
      finally show ?thesis using nc by (simp add: up Let_def del: upt_Suc)
    qed
  qed
qed

end
