(* ===== verification/Volume_Usage.thy ===== *)
theory Volume_Usage
  imports Central_Tx
begin

text \<open>
  The fill of a volume above which \<open>begin_update\<close> passes it over (\<open>request_handlers/update.rs\<close> of \<open>crates/fs0-central/src\<close>).
  The code compares a quotient of two binary64 numbers with 0.95. For volumes of up to \<open>2 ^ 48\<close> bytes (256 TiB) this is
  shown to be the exact comparison of the fractions, and which volumes qualify is stated with it, without rounding.
\<close>

section \<open>Rounding\<close>

lemma bit_len_bounds: "0 < n \<Longrightarrow> 0 < bit_len n \<and> 2 ^ (bit_len n - 1) \<le> n \<and> n < 2 ^ bit_len n"
proof (induction n rule: less_induct)
  case (less n)
  show ?case
  proof (cases "n = 1")
    case True
    then show ?thesis by (simp add: bit_len.simps)
  next
    case False
    let ?m = "n div 2"
    have "0 < ?m" "?m < n" using less.prems False by simp_all
    from less.IH [OF this(2) this(1)] have m: "0 < bit_len ?m" "2 ^ (bit_len ?m - 1) \<le> ?m" "?m < 2 ^ bit_len ?m" by simp_all
    have len: "bit_len n = Suc (bit_len ?m)" using less.prems by (simp add: bit_len.simps [of n])
    have "2 ^ bit_len ?m = 2 * (2 :: nat) ^ (bit_len ?m - 1)" using m(1) by (cases "bit_len ?m") simp_all
    then have "2 ^ bit_len ?m \<le> n" using m(2) by linarith
    moreover have "n < 2 * 2 ^ bit_len ?m" using m(3) by linarith
    ultimately show ?thesis by (simp add: len)
  qed
qed

lemma round_half_even_bounds: "0 < d \<Longrightarrow> n div d \<le> round_half_even n d \<and> round_half_even n d \<le> Suc (n div d)"
  by (simp add: round_half_even_def Let_def)

lemma round_half_even_le:
  assumes "0 < d" and "n < 2 ^ k * d"
  shows "round_half_even n d \<le> 2 ^ k"
proof -
  have "n div d < 2 ^ k" using assms by (simp add: less_mult_imp_div_less)
  then show ?thesis using round_half_even_bounds [OF assms(1), of n] by linarith
qed

lemma round_half_even_ge: "0 < d \<Longrightarrow> 2 ^ k * d \<le> n \<Longrightarrow> 2 ^ k \<le> round_half_even n d"
  using round_half_even_bounds [of d n] by (metis le_trans less_eq_div_iff_mult_less_eq)

text \<open>A fraction is rounded up to an even number from half below it on.\<close>

lemma even_le_round_half_even:
  assumes "even c" and "0 < c" and "0 < d"
  shows "c \<le> round_half_even n d \<longleftrightarrow> (2 * c - 1) * d \<le> 2 * n"
proof -
  let ?q = "n div d" and ?r = "n mod d"
  have n: "n = ?q * d + ?r" "?r < d" using assms(3) by simp_all
  have two: "(2 * c - 1) * d \<le> 2 * n \<longleftrightarrow> (2 * c - 1) * d \<le> 2 * ?q * d + 2 * ?r"
    using n(1) by (metis distrib_left mult.assoc)
  consider "c \<le> ?q" | "c = Suc ?q" | "?q + 2 \<le> c" by linarith
  then show ?thesis
  proof cases
    case 1
    then have "(2 * c - 1) * d \<le> 2 * ?q * d" by (intro mult_right_mono) simp_all
    with 1 show ?thesis using round_half_even_bounds [OF assms(3), of n] two by linarith
  next
    case 2
    then have "odd ?q" using assms(1) by simp
    then have "c \<le> round_half_even n d \<longleftrightarrow> d \<le> 2 * ?r" unfolding 2 by (simp add: round_half_even_def Let_def not_less)
    moreover have "(2 * c - 1) * d = 2 * ?q * d + d" unfolding 2 by (simp add: algebra_simps)
    ultimately show ?thesis using two by linarith
  next
    case 3
    then have "\<not> c \<le> round_half_even n d" using round_half_even_bounds [OF assms(3), of n] by linarith
    moreover have "(2 * ?q + 3) * d \<le> (2 * c - 1) * d" using 3 by (intro mult_right_mono) simp_all
    then have "2 * ?q * d + 3 * d \<le> (2 * c - 1) * d" by (simp add: algebra_simps)
    ultimately show ?thesis using two n(2) by linarith
  qed
qed

lemma u64_as_f64_small:
  assumes "unat v < 2 ^ 53"
  shows "u64_as_f64 v = unat v"
proof -
  have "bit_len (unat v) \<le> 53"
  proof (cases "unat v = 0")
    case False
    then have "(2 :: nat) ^ (bit_len (unat v) - 1) < 2 ^ 53" using bit_len_bounds [of "unat v"] assms by linarith
    then have "bit_len (unat v) - 1 < 53" by (rule power_less_imp_less_exp [rotated]) simp
    then show ?thesis by linarith
  qed (simp add: bit_len.simps)
  then show ?thesis by (simp add: u64_as_f64_def round_half_even_def)
qed

lemma u64_as_f64_large:
  assumes "2 ^ 53 \<le> unat v"
  shows "2 ^ 53 \<le> u64_as_f64 v"
proof -
  let ?n = "unat v" and ?k = "bit_len (unat v) - 53"
  have b: "2 ^ (bit_len ?n - 1) \<le> ?n" "?n < 2 ^ bit_len ?n" using bit_len_bounds [of ?n] assms by auto
  have "(2 :: nat) ^ 53 < 2 ^ bit_len ?n" using assms b(2) by linarith
  then have len: "53 < bit_len ?n" by (rule power_less_imp_less_exp [rotated]) simp
  then have e: "bit_len ?n - 1 = 52 + ?k" by simp
  have "2 ^ 52 * 2 ^ ?k \<le> ?n" using b(1) unfolding e power_add .
  then have "2 ^ 52 \<le> round_half_even ?n (2 ^ ?k)" by (intro round_half_even_ge) simp_all
  moreover have "(2 :: nat) ^ 1 \<le> 2 ^ ?k" using len by (intro power_increasing) simp_all
  ultimately have "2 ^ 52 * 2 \<le> round_half_even ?n (2 ^ ?k) * 2 ^ ?k" by (intro mult_mono) simp_all
  then show ?thesis by (simp add: u64_as_f64_def Let_def)
qed

section \<open>The quotient\<close>

text \<open>The significand of a quotient has 53 bits.\<close>

lemma f64_div_normal:
  assumes "0 < a" and "0 < b"
  obtains s where "f64_div a b = (round_half_even (a * 2 ^ nat s) (b * 2 ^ nat (- s)), s)"
    and "2 ^ 52 * (b * 2 ^ nat (- s)) \<le> a * 2 ^ nat s" and "a * 2 ^ nat s < 2 ^ 53 * (b * 2 ^ nat (- s))"
proof -
  define s where "s = 53 + int (bit_len b) - int (bit_len a)"
  let ?N = "\<lambda>s. a * 2 ^ nat s" and ?D = "\<lambda>s. b * 2 ^ nat (- s)"
  have la: "0 < bit_len a" "2 ^ (bit_len a - 1) \<le> a" "a < 2 ^ bit_len a" using bit_len_bounds [OF assms(1)] by auto
  have lb: "0 < bit_len b" "2 ^ (bit_len b - 1) \<le> b" "b < 2 ^ bit_len b" using bit_len_bounds [OF assms(2)] by auto
  have e1: "52 + (bit_len b + nat (- s)) = bit_len a - 1 + nat s" and e2: "bit_len a + nat s = 54 + (bit_len b - 1 + nat (- s))"
    using la(1) lb(1) by (simp_all add: s_def)
  have "2 ^ 52 * ?D s \<le> 2 ^ 52 * (2 ^ bit_len b * 2 ^ nat (- s))" using lb(3) by simp
  also have "\<dots> = 2 ^ (bit_len a - 1) * 2 ^ nat s" using arg_cong [OF e1, of "(^) (2 :: nat)"] by (simp only: power_add mult.assoc)
  also have "\<dots> \<le> ?N s" using la(2) by simp
  finally have low: "2 ^ 52 * ?D s \<le> ?N s" .
  have "?N s < 2 ^ bit_len a * 2 ^ nat s" using la(3) by simp
  also have "\<dots> = 2 ^ 54 * (2 ^ (bit_len b - 1) * 2 ^ nat (- s))" using arg_cong [OF e2, of "(^) (2 :: nat)"] by (simp only: power_add mult.assoc)
  also have "\<dots> \<le> 2 ^ 54 * ?D s" using lb(2) by simp
  finally have high: "?N s < 2 ^ 54 * ?D s" .
  have div: "f64_div a b = (let s' = (if 2 ^ 53 * ?D s \<le> ?N s then s - 1 else s) in (round_half_even (?N s') (?D s'), s'))"
    using assms by (simp add: f64_div_def s_def Let_def mult.commute mult.left_commute)
  show ?thesis
  proof (cases "2 ^ 53 * ?D s \<le> ?N s")
    case False
    then show ?thesis using that [of s] low div by simp
  next
    case True
    have "2 ^ 52 * ?D (s - 1) \<le> ?N (s - 1) \<and> ?N (s - 1) < 2 ^ 53 * ?D (s - 1)"
    proof (cases "1 \<le> s")
      case s: True
      then have "nat s = Suc (nat (s - 1))" "nat (- s) = 0" "nat (- (s - 1)) = 0" by simp_all
      with True high show ?thesis by simp
    next
      case s: False
      then have "nat s = 0" "nat (s - 1) = 0" "nat (- (s - 1)) = Suc (nat (- s))" by simp_all
      with True high show ?thesis by simp
    qed
    with True div show ?thesis by (intro that [of "s - 1"]) (simp_all add: Let_def)
  qed
qed

section \<open>The threshold\<close>

text \<open>The double nearest to 0.95 lies so close to it that rounding does not matter for a divisor of up to \<open>2 ^ 48\<close>.\<close>

lemma f64_ge_threshold:
  assumes "0 < b" and "b \<le> 2 ^ 48"
  shows "f64_ge (f64_div a b) UPDATE_VOLUME_USAGE_THRESHOLD \<longleftrightarrow> 19 * b \<le> 20 * a"
proof (cases "a = 0")
  case True
  then show ?thesis using assms(1) by (simp add: f64_div_def f64_ge_def UPDATE_VOLUME_USAGE_THRESHOLD_def)
next
  case False
  let ?c = "8556839292003942 :: nat"
  obtain s where div: "f64_div a b = (round_half_even (a * 2 ^ nat s) (b * 2 ^ nat (- s)), s)" (is "_ = (?m, s)")
    and low: "2 ^ 52 * (b * 2 ^ nat (- s)) \<le> a * 2 ^ nat s" and high: "a * 2 ^ nat s < 2 ^ 53 * (b * 2 ^ nat (- s))"
    using False assms(1) by (elim f64_div_normal [of a b, rotated 2]) auto
  have ge: "f64_ge (f64_div a b) UPDATE_VOLUME_USAGE_THRESHOLD \<longleftrightarrow> ?c * 2 ^ nat (s - 53) \<le> ?m * 2 ^ nat (53 - s)"
    by (simp add: div f64_ge_def UPDATE_VOLUME_USAGE_THRESHOLD_def)
  have d: "0 < b * 2 ^ nat (- s)" using assms(1) by simp
  have m: "2 ^ 52 \<le> ?m" "?m \<le> 2 ^ 53" by (rule round_half_even_ge [OF d low], rule round_half_even_le [OF d high])
  consider "53 < s" | "s = 53" | "s < 53" by linarith
  then show ?thesis
  proof cases
    case 1
    then have "(2 :: nat) ^ 1 \<le> 2 ^ nat (s - 53)" by (intro power_increasing) auto
    then have "?c * 2 \<le> ?c * 2 ^ nat (s - 53)" by simp
    moreover have "?m * 2 ^ nat (53 - s) \<le> 2 ^ 53" using 1 m(2) by simp
    moreover have "(2 :: nat) ^ 54 \<le> 2 ^ nat s" using 1 by (intro power_increasing) auto
    then have "a * 2 ^ 54 \<le> a * 2 ^ nat s" by (rule mult_le_mono2)
    then have "a * 2 ^ 54 < 2 ^ 53 * b" using high 1 by (intro le_less_trans [OF _ high [THEN less_le_trans]]) simp_all
    then have "\<not> 19 * b \<le> 20 * a" by simp
    ultimately show ?thesis unfolding ge by simp
  next
    case 2
    then have "?c * 2 ^ nat (s - 53) \<le> ?m * 2 ^ nat (53 - s) \<longleftrightarrow> ?c \<le> round_half_even (a * 2 ^ 53) b" by simp
    also have "\<dots> \<longleftrightarrow> (2 * ?c - 1) * b \<le> 2 * (a * 2 ^ 53)" using assms(1) by (intro even_le_round_half_even) simp_all
    also have "\<dots> \<longleftrightarrow> 19 * b \<le> 20 * a" using assms(2) by simp linarith
    finally show ?thesis unfolding ge .
  next
    case 3
    then have "(2 :: nat) ^ 1 \<le> 2 ^ nat (53 - s)" by (intro power_increasing) auto
    then have "2 ^ 52 * 2 \<le> ?m * 2 ^ nat (53 - s)" using m(1) by (intro mult_mono) simp_all
    then have "?c * 2 ^ nat (s - 53) \<le> ?m * 2 ^ nat (53 - s)" using 3 by simp
    moreover have "b \<le> a"
    proof -
      have "(2 :: nat) ^ nat s \<le> 2 ^ 52" using 3 by (intro power_increasing) auto
      then have "a * 2 ^ nat s \<le> a * 2 ^ 52" by (rule mult_le_mono2)
      with low have "2 ^ 52 * (b * 2 ^ nat (- s)) \<le> a * 2 ^ 52" by (rule le_trans)
      then have "b * 2 ^ nat (- s) \<le> a" by simp
      moreover have "b * 1 \<le> b * 2 ^ nat (- s)" by (rule mult_le_mono2) simp
      ultimately show ?thesis by linarith
    qed
    ultimately show ?thesis unfolding ge by linarith
  qed
qed

lemma usage_exceeded_iff:
  assumes "0 < svi_max_bytes v" and "unat (svi_max_bytes v) \<le> 2 ^ 48"
  shows "usage_exceeded v \<longleftrightarrow> 19 * unat (svi_max_bytes v) \<le> 20 * unat (svi_max_volume_offset v)"
proof -
  have b: "u64_as_f64 (svi_max_bytes v) = unat (svi_max_bytes v)" using assms(2) by (intro u64_as_f64_small) simp
  have pos: "0 < unat (svi_max_bytes v)" using assms(1) by (simp add: word_less_nat_alt)
  have "19 * unat (svi_max_bytes v) \<le> 20 * u64_as_f64 (svi_max_volume_offset v) \<longleftrightarrow>
      19 * unat (svi_max_bytes v) \<le> 20 * unat (svi_max_volume_offset v)"
  proof (cases "unat (svi_max_volume_offset v) < 2 ^ 53")
    case True
    then show ?thesis by (simp add: u64_as_f64_small)
  next
    case False
    then have "2 ^ 53 \<le> unat (svi_max_volume_offset v)" "2 ^ 53 \<le> u64_as_f64 (svi_max_volume_offset v)"
      using u64_as_f64_large [of "svi_max_volume_offset v"] by simp_all
    with assms(2) show ?thesis by simp
  qed
  then show ?thesis unfolding usage_exceeded_def b f64_ge_threshold [OF pos assms(2)] .
qed

section \<open>The volumes that qualify\<close>

text \<open>
  A volume takes an update when it can be written, has a size, is filled to less than 95 percent and has the announced
  number of bytes left. Above 256 TiB the quotient is the one that binary64 gives.
\<close>

definition filled_below_threshold :: "storage_volume_info \<Rightarrow> bool" where
  "filled_below_threshold v \<longleftrightarrow>
     (if unat (svi_max_bytes v) \<le> 2 ^ 48 then 20 * unat (svi_max_volume_offset v) < 19 * unat (svi_max_bytes v)
      else \<not> usage_exceeded v)"

definition qualifies :: "begin_update_request \<Rightarrow> storage_volume_info \<Rightarrow> bool" where
  "qualifies request v \<longleftrightarrow>
     \<not> svi_read_only v \<and> 0 < unat (svi_max_bytes v) \<and> filled_below_threshold v \<and>
     (\<forall>sz. bur_update_size_hint request = Some sz \<longrightarrow> sz = 0 \<or> unat (svi_max_volume_offset v) + unat sz \<le> unat (svi_max_bytes v))"

lemma saturating_room: "saturating_sub m off < sz \<longleftrightarrow> \<not> (sz = 0 \<or> unat off + unat sz \<le> unat m)" for m off sz :: u64
proof -
  have "sz = 0 \<longleftrightarrow> unat sz = 0" by (simp add: unat_eq_0)
  then show ?thesis by (simp only: word_less_nat_alt unat_saturating_sub) linarith
qed

lemma skip_volume_iff: "skip_volume request v \<longleftrightarrow> \<not> qualifies request v"
  using usage_exceeded_iff [of v] word_gt_0 [of "svi_max_bytes v"]
  by (auto simp: skip_volume_def qualifies_def filled_below_threshold_def saturating_room not_le unat_gt_0 split: option.splits)

text \<open>The choice between the volumes.\<close>

lemma select_volume_spec:
  "case select_volume request vs None of
     Some (i, v) \<Rightarrow> \<exists>x. (i, x) \<in> set vs \<and> v = svi_volume_id x \<and>
       \<not> svi_read_only x \<and> 0 < unat (svi_max_bytes x) \<and> filled_below_threshold x \<and>
       (\<forall>sz. bur_update_size_hint request = Some sz \<longrightarrow> sz = 0 \<or> unat (svi_max_volume_offset x) + unat sz \<le> unat (svi_max_bytes x)) \<and>
       ((\<exists>(j, y)\<in>set vs. qualifies request y \<and> bur_prefer_volume_name request = Some (svi_name y)) \<longrightarrow>
          bur_prefer_volume_name request = Some (svi_name x))
   | None \<Rightarrow> (\<forall>(i, x)\<in>set vs. \<not> qualifies request x)"
proof -
  have "case select_volume request vs None of
      Some (i, v) \<Rightarrow> \<exists>x. (i, x) \<in> set vs \<and> v = svi_volume_id x \<and> qualifies request x \<and>
        ((\<exists>(j, y)\<in>set vs. qualifies request y \<and> bur_prefer_volume_name request = Some (svi_name y)) \<longrightarrow>
           bur_prefer_volume_name request = Some (svi_name x))
    | None \<Rightarrow> (\<forall>(i, x)\<in>set vs. \<not> qualifies request x)"
    unfolding select_volume_cases skip_volume_iff
    by (auto split: option.splits simp: find_None_iff dest!: find_SomeD)
  then show ?thesis by (auto simp: qualifies_def split: option.splits)
qed

end
