(* ===== verification/Central_Properties.thy ===== *)
theory Central_Properties
  imports Central_Reach Volume_Usage
begin

text \<open>
  The properties of the central server: the database that names directories, files, bundles, replicas, leases and
  changes (\<open>crates/fs0-central/src/db\<close>), the transactions of the request handlers over it and the registry of
  connected clients and storages. Each property is instantiated at a concrete state that the operations themselves
  have produced from the freshly opened database.
\<close>

section \<open>Concrete states\<close>

text \<open>A file is created, a volume and a replica of a bundle are added, the file is leased and the bundle committed.\<close>

definition sample_file :: file_row where
  "sample_file = \<lparr> fr_file_id = 1, fr_dir_id = 1, fr_name = ''b'', fr_size_bytes = 0, fr_compressed_size_bytes = 0,
     fr_created_at_ms = 5, fr_updated_at_ms = 5 \<rparr>"

definition sample_db :: central_db where
  "sample_db = \<lparr>
     db_conn = \<lparr> t_volumes = [], t_volumes_seq = 0,
       t_dirs = [\<lparr> dr_dir_id = 0, dr_parent_dir_id = None, dr_name = [] \<rparr>,
                 \<lparr> dr_dir_id = 1, dr_parent_dir_id = Some 0, dr_name = ''a'' \<rparr>],
       t_files = [sample_file], t_files_seq = 1, t_file_bundles = [], t_replicas = [], t_leases = [], t_leases_seq = 0,
       t_events = [], t_events_seq = 0 \<rparr>,
     db_dir_cache = \<lparr> dcs_path_to_entry = [], dcs_id_to_path = [], dcs_next_access = 3 \<rparr> \<rparr>"

definition sample_bundle :: hash_id where
  "sample_bundle = HashId (replicate 32 1)"

definition sample_volume_db :: central_db where
  "sample_volume_db = sample_db\<lparr> db_conn := (db_conn sample_db)\<lparr>
     t_volumes := [\<lparr> vr_volume_id = 1, vr_name = ''v'', vr_max_bytes = 100, vr_max_volume_offset = 0 \<rparr>],
     t_volumes_seq := 1 \<rparr> \<rparr>"

definition sample_replica_db :: central_db where
  "sample_replica_db = sample_volume_db\<lparr> db_conn := (db_conn sample_volume_db)\<lparr>
     t_replicas := [\<lparr> br_bundle_id = sample_bundle, br_volume_id = 1, br_raw_len = 3, br_compressed_len = 2 \<rparr>] \<rparr> \<rparr>"

definition sample_update :: begin_update_request where
  "sample_update = \<lparr> bur_path = ''/a/b'', bur_offset = 0, bur_prefer_volume_name = None, bur_update_size_hint = None \<rparr>"

definition sample_lease_db :: central_db where
  "sample_lease_db = \<lparr> db_conn = (db_conn sample_replica_db)\<lparr>
       t_leases := [\<lparr> lr_lease_id = 1, lr_file_id = 1, lr_volume_id = 1, lr_base_size_bytes = 0, lr_offset_bytes = 0,
         lr_prefer_volume_name = None, lr_expires_at_ms = 60010, lr_created_at_ms = 10 \<rparr>], t_leases_seq := 1 \<rparr>,
     db_dir_cache = \<lparr> dcs_path_to_entry = [(''/a'', \<lparr> dce_dir_id = 1, dce_last_access = 5 \<rparr>)],
       dcs_id_to_path = [(1, ''/a'')], dcs_next_access = 6 \<rparr> \<rparr>"

definition sample_commit :: commit_update_request where
  "sample_commit = \<lparr> cur_lease_id = 1, cur_file_id = 1, cur_base_size = 0, cur_new_size = 3,
     cur_bundles = [\<lparr> cb_bundle_id = sample_bundle, cb_raw_len = 3, cb_compressed_len = 2 \<rparr>] \<rparr>"

definition sample_stored_db :: central_db where
  "sample_stored_db = \<lparr> db_conn = (db_conn sample_replica_db)\<lparr>
       t_files := [sample_file\<lparr> fr_size_bytes := 3, fr_compressed_size_bytes := 2, fr_updated_at_ms := 20 \<rparr>],
       t_file_bundles := [\<lparr> fb_file_id = 1, fb_bundle_index = 0, fb_bundle_id = sample_bundle \<rparr>],
       t_leases := [], t_leases_seq := 1,
       t_events := [\<lparr> er_event_id = 1, er_event_type = ''created'', er_new_dir = Some ''/a'', er_new_name = Some ''b'',
         er_file_id = Some 1, er_created_at_ms = 20 \<rparr>], t_events_seq := 1 \<rparr>,
     db_dir_cache = \<lparr> dcs_path_to_entry = [(''/a'', \<lparr> dce_dir_id = 1, dce_last_access = 7 \<rparr>)],
       dcs_id_to_path = [(1, ''/a'')], dcs_next_access = 8 \<rparr> \<rparr>"

lemma sample_create_run: "create_file ''/a/b'' 5 central_db_open = (Inr sample_file, sample_db)"
  by code_simp

lemma sample_volume_run: "create_volume ''v'' 100 sample_db =
    (Inr \<lparr> svi_volume_id = 1, svi_name = ''v'', svi_max_bytes = 100, svi_max_volume_offset = 0, svi_read_only = False \<rparr>,
     sample_volume_db)"
  by code_simp

lemma sample_replica_run: "insert_bundle_replica sample_bundle 1 3 2 sample_volume_db = (Inr (), sample_replica_db)"
  by code_simp

lemma sample_lease_run: "begin_update_tx sample_update 1 10 sample_replica_db =
    (Inr \<lparr> ul_lease_id = 1, ul_file_id = 1, ul_volume_id = 1, ul_base_size = 0, ul_offset = 0,
       ul_expires_at_ms = 60010, ul_prefer_volume_name = None \<rparr>, sample_lease_db)"
  by code_simp

lemma sample_commit_run: "commit_update_tx sample_commit 20 20 sample_lease_db =
    (Inr \<lparr> frec_file_id = 1, frec_path = ''/a/b'', frec_size_bytes = 3, frec_compressed_size_bytes = 2,
       frec_created_at_ms = 5, frec_updated_at_ms = 20 \<rparr>, sample_stored_db)"
  by code_simp

lemma sample_copy_run: "fst (copy_file_tx 1 ''/c/d'' 30 sample_stored_db) =
    Inr \<lparr> frec_file_id = 2, frec_path = ''/c/d'', frec_size_bytes = 3,
      frec_compressed_size_bytes = 2, frec_created_at_ms = 30, frec_updated_at_ms = 30 \<rparr>"
  by code_simp

lemma sample_rename_run: "fst (rename_file_tx 1 ''/c/d'' 30 sample_stored_db) =
    Inr \<lparr> frec_file_id = 1, frec_path = ''/c/d'', frec_size_bytes = 3,
      frec_compressed_size_bytes = 2, frec_created_at_ms = 5, frec_updated_at_ms = 30 \<rparr>"
  by code_simp

lemma sample_delete_run: "fst (delete_file_tx 1 30 sample_stored_db) = Inr ()"
  by code_simp

lemma sample_lookups:
  "find_file sample_stored_db 1 =
     Some (sample_file\<lparr> fr_size_bytes := 3, fr_compressed_size_bytes := 2, fr_updated_at_ms := 20 \<rparr>)"
  "file_at sample_stored_db [''a'', ''b''] = find_file sample_stored_db 1"
  "file_content sample_stored_db 1 = [sample_bundle]"
  "split_fs0_path_dir_and_name ''/c/d'' = Inr (''/c'', ''d'')"
  by code_simp+

lemma sample_fits: "fits_i64 1" "fits_i64 3" "fits_i64 5" "fits_i64 10" "fits_i64 20" "fits_i64 30"
  "fits_i64 (10 + UPDATE_LEASE_TTL_MS)"
  by (simp_all add: fits_i64_def UPDATE_LEASE_TTL_MS_def)

lemma run_eq: "fst x = r \<Longrightarrow> x = (r, snd x)"
  by (cases x) simp

lemma sample_inv: "db_inv sample_db" "db_inv sample_volume_db" "db_inv sample_replica_db" "db_inv sample_lease_db"
proof -
  show db: "db_inv sample_db" using create_file_law [OF db_inv_open sample_fits(3) sample_create_run] by blast
  show vol: "db_inv sample_volume_db" using create_volume_spec [OF db sample_volume_run] by blast
  show rep: "db_inv sample_replica_db" using insert_bundle_replica_spec [OF vol sample_replica_run] by blast
  show "db_inv sample_lease_db" using begin_update_tx_spec [OF rep sample_fits(4,7) sample_lease_run] by blast
qed

lemma sample_commit_ok: "request_ok sample_commit" "compressed_total sample_lease_db (cur_bundles sample_commit) < 2 ^ 63"
proof -
  show "request_ok sample_commit"
    by (simp add: request_ok_def sample_commit_def sample_bundle_def hash_ok_def)
  have "compressed_total sample_lease_db (cur_bundles sample_commit) = 2" by code_simp
  then show "compressed_total sample_lease_db (cur_bundles sample_commit) < 2 ^ 63" by simp
qed

lemmas sample_commit_facts = sample_fits sample_commit_ok sample_commit_run

lemma sample_commit_ids: "cur_lease_id sample_commit = 1" "cur_file_id sample_commit = 1" "cur_new_size sample_commit = 3"
  by (simp_all add: sample_commit_def)

lemma sample_stored_inv: "db_inv sample_stored_db"
  using commit_update_tx_spec [OF sample_inv(4) sample_fits(5,5) _ _ sample_commit_ok(1) _ sample_commit_ok(2) sample_commit_run]
  by (simp add: sample_commit_ids sample_fits)

section \<open>Files\<close>

text \<open>C2: committing an update. The transaction succeeds only when the lease is the file's own, has not expired and
  was taken at the size the file still has, every submitted bundle has a replica of the stated length and the lengths
  add up to the new size. Then the file consists of exactly the submitted bundles, has the new sizes, its lease is
  gone, the change is logged, and every other file and lease is as before. It fails only when one of these conditions
  does not hold or the database is full.\<close>

theorem commit_update_replaces_content:
  assumes "db_inv s" and "fits_i64 now" and "fits_i64 lease_now"
    and "fits_i64 (cur_lease_id request)" and "fits_i64 (cur_file_id request)" and "request_ok request"
    and "fits_i64 (cur_new_size request)" and "compressed_total s (cur_bundles request) < 2 ^ 63"
    and "commit_update_tx request now lease_now s = (r, s')"
  shows "case r of
      Inr record \<Rightarrow> commit_ready request lease_now s \<and> db_inv s' \<and>
        (\<exists>cs f. file_at s cs = Some f \<and> fr_file_id f = cur_file_id request \<and> committed request now cs f s record s')
    | Inl e \<Rightarrow> \<not> commit_ready request lease_now s \<or> e = Sqlite ''database or disk is full''"
  by (rule commit_update_tx_spec) (fact assms)+

theorem commit_update_replaces_content_witness:
  "\<exists>cs f. file_at sample_lease_db cs = Some f \<and> (\<exists>g. stored sample_stored_db cs = Some (g, [sample_bundle]))"
  using commit_update_replaces_content [OF sample_inv(4) sample_fits(5,5) _ _ sample_commit_ok(1) _ sample_commit_ok(2) sample_commit_run]
  by (auto simp: sample_commit_ids sample_fits committed_def) (auto simp: sample_commit_def)

text \<open>C5: beginning an update. A lease is given out only on a file that no unexpired lease holds; the lease records the
  size the file has, expires after the fixed time, and is the only lease of the file. A file that does not exist is
  created empty, with an offset of 0; an offset is never beyond the end of the file. Other files keep their unexpired
  leases and lose the expired ones.\<close>

theorem begin_update_exclusive:
  assumes "db_inv s" and "fits_i64 now" and "fits_i64 (now + UPDATE_LEASE_TTL_MS)"
    and "begin_update_tx request v now s = (Inr lease, s')"
  shows "db_inv s' \<and>
    (\<exists>cs f l. bur_path request = path_of cs \<and> list_all valid_component cs \<and> cs \<noteq> [] \<and>
       file_at s' = (file_at s)(cs \<mapsto> f) \<and>
       (case file_at s cs of
          Some g \<Rightarrow> f = g \<and> bur_offset request \<le> fr_size_bytes g
        | None \<Rightarrow> bur_offset request = 0 \<and> fr_size_bytes f = 0 \<and> cs \<notin> dir_paths s \<and> find_file s (fr_file_id f) = None) \<and>
       (\<forall>x. lease_of_file s (fr_file_id f) = Some x \<longrightarrow> lr_expires_at_ms x \<le> now) \<and>
       lease_of_file s' (fr_file_id f) = Some l \<and> lr_lease_id l = ul_lease_id lease \<and>
       lr_base_size_bytes l = fr_size_bytes f \<and> lr_offset_bytes l = bur_offset request \<and> lr_volume_id l = v \<and>
       lr_expires_at_ms l = now + UPDATE_LEASE_TTL_MS \<and>
       lease = \<lparr> ul_lease_id = ul_lease_id lease, ul_file_id = fr_file_id f, ul_volume_id = v, ul_base_size = fr_size_bytes f,
         ul_offset = bur_offset request, ul_expires_at_ms = now + UPDATE_LEASE_TTL_MS,
         ul_prefer_volume_name = bur_prefer_volume_name request \<rparr> \<and>
       (\<forall>j. j \<noteq> fr_file_id f \<longrightarrow> lease_of_file s' j =
          (case lease_of_file s j of None \<Rightarrow> None | Some x \<Rightarrow> if now < lr_expires_at_ms x then Some x else None)))"
  by (rule begin_update_tx_spec) (fact assms)+

theorem begin_update_exclusive_witness:
  "\<exists>cs l. ''/a/b'' = path_of cs \<and> lease_of_file sample_lease_db 1 = Some l \<and> lr_expires_at_ms l = 60010"
  using begin_update_exclusive [OF sample_inv(3) sample_fits(4,7) sample_lease_run]
  by (auto simp: sample_update_def UPDATE_LEASE_TTL_MS_def)

text \<open>C14: copying a file. The copy gets a new identifier, appears at the target path with the sizes and the bundles of
  the source, and is logged; nothing else changes. The target was neither a file nor a directory. When the copy fails
  the tables are those from before, and the reason is that the target, or a file above it, is in the way.\<close>

theorem copy_file_duplicates:
  assumes "db_inv s" and "fits_i64 now" and "find_file s i = Some f"
    and "split_fs0_path_dir_and_name path = Inr (dir, name)" and "copy_file_tx i path now s = (r, s')"
  shows "\<exists>cs. path = path_of cs \<and> list_all valid_component cs \<and> cs \<noteq> [] \<and>
    (case r of
       Inr record \<Rightarrow> \<exists>g. db_inv s' \<and> stored s cs = None \<and> cs \<notin> dir_paths s \<and>
         find_file s (fr_file_id g) = None \<and> fr_size_bytes g = fr_size_bytes f \<and>
         fr_compressed_size_bytes g = fr_compressed_size_bytes f \<and>
         stored s' = (stored s)(cs \<mapsto> (g, file_content s i)) \<and> record = record_of cs g \<and>
         log_added file_change_log_kind.Created (Some cs) (fr_file_id g) now s s'
     | Inl e \<Rightarrow> db_inv (rolled_back s s') \<and> path_taken s cs e)"
  by (rule copy_file_tx_spec) (fact assms)+

theorem copy_file_duplicates_witness:
  "\<exists>cs g. ''/c/d'' = path_of cs \<and> stored (snd (copy_file_tx 1 ''/c/d'' 30 sample_stored_db)) cs = Some (g, [sample_bundle])"
  using copy_file_duplicates [OF sample_stored_inv sample_fits(6) sample_lookups(1,4) run_eq [OF sample_copy_run]]
  by (auto simp: sample_lookups)

text \<open>C15: renaming a file. The file keeps its identifier, sizes and bundles and moves to the target path, leaving its
  old path; the target was free, or the file itself. Every other file is untouched and the move is logged.\<close>

theorem rename_file_moves:
  assumes "db_inv s" and "fits_i64 now" and "find_file s i = Some f"
    and "split_fs0_path_dir_and_name path = Inr (dir, name)" and "rename_file_tx i path now s = (r, s')"
  shows "\<exists>cs. path = path_of cs \<and> list_all valid_component cs \<and> cs \<noteq> [] \<and>
    (case r of
       Inr record \<Rightarrow> \<exists>g. db_inv s' \<and> g = f\<lparr> fr_dir_id := fr_dir_id g, fr_name := last cs, fr_updated_at_ms := now \<rparr> \<and>
         cs \<notin> dir_paths s \<and> (\<forall>h c. stored s cs = Some (h, c) \<longrightarrow> fr_file_id h = i) \<and>
         stored s' = (drop_stored i (stored s))(cs \<mapsto> (g, file_content s i)) \<and> record = record_of cs g \<and>
         log_added file_change_log_kind.Moved (Some cs) i now s s'
     | Inl e \<Rightarrow> db_inv (rolled_back s s') \<and> path_taken s cs e)"
  by (rule rename_file_tx_spec) (fact assms)+

theorem rename_file_moves_witness:
  "\<exists>cs g. ''/c/d'' = path_of cs \<and> stored (snd (rename_file_tx 1 ''/c/d'' 30 sample_stored_db)) cs = Some (g, [sample_bundle])"
  using rename_file_moves [OF sample_stored_inv sample_fits(6) sample_lookups(1,4) run_eq [OF sample_rename_run]]
  by (auto simp: sample_lookups)

text \<open>C16: deleting a file takes away that file and no other, keeps every directory and logs the deletion; a file that
  does not exist is reported as not found.\<close>

theorem delete_file_removes:
  assumes "db_inv s" and "fits_i64 now" and "fits_i64 i" and "delete_file_tx i now s = (r, s')"
  shows "case r of
      Inr _ \<Rightarrow> db_inv s' \<and> find_file s i \<noteq> None \<and> stored s' = drop_stored i (stored s) \<and> dir_paths s' = dir_paths s \<and>
        log_added file_change_log_kind.Deleted None i now s s'
    | Inl e \<Rightarrow> e = NotFound \<and> find_file s i = None \<or> e = Sqlite ''database or disk is full''"
  by (rule delete_file_tx_spec) (fact assms)+

theorem delete_file_removes_witness:
  "stored (snd (delete_file_tx 1 30 sample_stored_db)) = drop_stored 1 (stored sample_stored_db)"
  using delete_file_removes [OF sample_stored_inv sample_fits(6,1) run_eq [OF sample_delete_run]] by simp

text \<open>C17: a copy is independent of its source: after the source has been deleted, looking up the target path of the
  copy still finds the copy. This is a fact of the contract of a file store, which the database satisfies.\<close>

theorem copy_survives_delete:
  assumes "db_inv s" and "fits_i64 now" and "copy_file_by_id i path now s = (Inr f, s')" and "delete_file_by_id i s' = (Inr u, s'')"
  shows "\<exists>g t. get_file_by_path path s'' = (Inr g, t) \<and> fr_file_id g = fr_file_id f"
  by (rule cfs.copy_delete_lookup) (fact assms)+

lemma sample_copy_delete:
  "\<not> isl (fst (copy_file_by_id 1 ''/c/d'' 30 sample_stored_db)) \<and>
   fst (delete_file_by_id 1 (snd (copy_file_by_id 1 ''/c/d'' 30 sample_stored_db))) = Inr () \<and>
   map_sum id fr_file_id (fst (copy_file_by_id 1 ''/c/d'' 30 sample_stored_db)) = Inr 2"
  by code_simp

theorem copy_survives_delete_witness:
  "\<exists>g t. get_file_by_path ''/c/d'' (snd (delete_file_by_id 1 (snd (copy_file_by_id 1 ''/c/d'' 30 sample_stored_db)))) = (Inr g, t) \<and>
     fr_file_id g = 2"
proof -
  obtain f where f: "fst (copy_file_by_id 1 ''/c/d'' 30 sample_stored_db) = Inr f" and i: "fr_file_id f = 2"
    using sample_copy_delete by (cases "fst (copy_file_by_id 1 ''/c/d'' 30 sample_stored_db)") auto
  have d: "fst (delete_file_by_id 1 (snd (copy_file_by_id 1 ''/c/d'' 30 sample_stored_db))) = Inr ()"
    using sample_copy_delete by blast
  show ?thesis
    using copy_survives_delete [OF sample_stored_inv sample_fits(6) run_eq [OF f] run_eq [OF d]] i by simp
qed

text \<open>C18: the plan for reading a file names every bundle of the file in order, each with all its replicas on volumes
  that are online and their lengths; when some bundle has no replica online the answer is \<open>ChunkNotReady\<close>. Making
  the plan changes no table.\<close>

theorem read_plan_covers_file:
  assumes "db_inv s" and "file_at s cs = Some f"
  shows "\<exists>c. read_plan_tx online (fr_file_id f) s =
    ((if \<forall>b\<in>set (file_content s (fr_file_id f)). online_replicas (db_conn s) online b \<noteq> []
      then Inr \<lparr> frp_file_id = fr_file_id f, frp_path = path_of cs, frp_size = fr_size_bytes f,
             frp_bundles = map (planned_bundle (db_conn s) online) (bundle_rows s (fr_file_id f)) \<rparr>
      else Inl ChunkNotReady), s\<lparr> db_dir_cache := c \<rparr>) \<and> db_inv (s\<lparr> db_dir_cache := c \<rparr>)"
  by (rule read_plan_tx_spec) (fact assms)+

lemma sample_online: "online_replicas (db_conn sample_stored_db) [(1, 7)] sample_bundle \<noteq> []"
    "map fb_bundle_id (bundle_rows sample_stored_db 1) = [sample_bundle]"
  by code_simp+

theorem read_plan_covers_file_witness:
  "\<exists>plan. fst (read_plan_tx [(1, 7)] 1 sample_stored_db) = Inr plan \<and> map fbr_bundle_id (frp_bundles plan) = [sample_bundle]"
  using read_plan_covers_file [OF sample_stored_inv sample_lookups(2) [unfolded sample_lookups(1)], of "[(1, 7)]"] sample_online
  by (auto simp: sample_file_def sample_lookups planned_bundle_def Let_def comp_def)

text \<open>C19: the size computed for a file is the sum of the lengths of its bundles, raw and compressed, in 64 bits without
  wrapping, and it is computed exactly when every bundle has a replica.\<close>

theorem file_size_is_bundle_sum:
  assumes "links_ok (db_conn s)" and "fits_i64 i"
  shows "snd (calculate_size_by_file_id i s) = s \<and>
    (fst (calculate_size_by_file_id i s) = Inr (r, c) \<longleftrightarrow>
       (\<forall>b\<in>set (file_content s i). first_replica (db_conn s) b \<noteq> None) \<and>
       unat r = (\<Sum>b\<leftarrow>file_content s i. raw_len_of (db_conn s) b) \<and>
       unat c = (\<Sum>b\<leftarrow>file_content s i. compressed_len_of (db_conn s) b))"
  using calculate_size_spec [OF assms] by blast

lemma sample_lens: "first_replica (db_conn sample_stored_db) sample_bundle \<noteq> None"
    "raw_len_of (db_conn sample_stored_db) sample_bundle = 3" "compressed_len_of (db_conn sample_stored_db) sample_bundle = 2"
  by code_simp+

theorem file_size_is_bundle_sum_witness: "fst (calculate_size_by_file_id 1 sample_stored_db) = Inr (3, 2)"
  using file_size_is_bundle_sum [OF db_invD(2) [OF sample_stored_inv] sample_fits(1), of 3 2]
  by (simp add: sample_lookups sample_lens)

section \<open>Directories\<close>

text \<open>C20: creating a directory makes it and the missing directories above it, and nothing else: every path that
  resolved still resolves to the same directory. It fails only when a file is in the way or the database is full.\<close>

theorem create_dir_makes_prefixes:
  assumes "tree_ok s" and "split_fs0_path_components path = Inr cs"
  shows "\<exists>r s'. create_dir path s = (r, s') \<and> tree_ok s' \<and> same_walks s s' \<and>
    (case r of
       Inr d \<Rightarrow> walk (dirs_of s') ROOT_DIR_ID cs = Some d \<and> dir_paths s' = dir_paths s \<union> {qs. prefix qs cs}
     | Inl e \<Rightarrow> e = Sqlite ''database or disk is full'' \<or>
         (\<exists>qs. prefix qs cs \<and> file_at s' qs \<noteq> None \<and> e = AlreadyExists (path_of qs)))"
  using create_dir_spec [OF assms] by (auto simp: created_dirs_def)

lemma sample_dirs: "split_fs0_path_components ''/x/y'' = Inr [''x'', ''y'']" "fst (create_dir ''/x/y'' sample_db) = Inr 3"
    "fst (remove_dir ''/x/y'' (snd (create_dir ''/x/y'' sample_db))) = Inr ()"
  by code_simp+

theorem create_dir_makes_prefixes_witness:
  "dir_paths (snd (create_dir ''/x/y'' sample_db)) = dir_paths sample_db \<union> {qs. prefix qs [''x'', ''y'']}"
  using create_dir_makes_prefixes [OF db_invD(1) [OF sample_inv(1)] sample_dirs(1)] run_eq [OF sample_dirs(2)] by auto

text \<open>C21: listing a directory answers the files of the directory ordered by name, from the cursor on and at most as
  many as the limit between 1 and 1024; the next cursor is given exactly when files remain, and is the position of
  the first of them.\<close>

theorem list_directory_pages:
  assumes "tree_ok s" and "resolve_dir (dirs_of s) dir = Inr d"
    and "off = (case cursor of None \<Rightarrow> 0 | Some c \<Rightarrow> c)" and "fits_i64 off"
  shows "fst (list_directory dir limit cursor s) =
      Inr \<lparr> des_entries = take (clamp_limit limit) (drop (unat off) (listing s dir d)),
            des_next_cursor = (if unat off + clamp_limit limit < length (listing s dir d)
              then Some (off + of_nat (clamp_limit limit)) else None) \<rparr> \<and>
    db_conn (snd (list_directory dir limit cursor s)) = db_conn s"
  using list_directory_spec [OF assms, of limit] by auto

lemma sample_resolve: "resolve_dir (dirs_of sample_stored_db) ''/a'' = Inr 1"
    "map de_path (listing sample_stored_db ''/a'' 1) = [''/a/b'']" "clamp_limit 0 = 1"
    "length (listing sample_stored_db ''/a'' 1) = 1"
  by code_simp+

theorem list_directory_pages_witness:
  "map_sum id (\<lambda>p. (map de_path (des_entries p), des_next_cursor p)) (fst (list_directory ''/a'' 0 None sample_stored_db)) =
     Inr ([''/a/b''], None)"
  using list_directory_pages [OF db_invD(1) [OF sample_stored_inv] sample_resolve(1), of 0 None 0]
    sample_resolve(2)
  by (simp add: fits_i64_def sample_resolve(3,4) take_all)

text \<open>C23: paging through the log of changes loses nothing and repeats nothing: the entries after an event are the
  page that is answered followed by the entries after the identifier that the page says to continue from, and a page
  that names none is the last.\<close>

theorem change_log_pages:
  assumes "db_inv s" and "fits_i64 i"
  shows "\<exists>page. get_file_change_logs i limit s = (Inr page, s) \<and> length (fcls_operations page) \<le> clamp_limit limit \<and>
    events_after s i = fcls_operations page @
      (case fcls_next_event_id page of None \<Rightarrow> [] | Some e \<Rightarrow> events_after s e)"
proof -
  let ?n = "clamp_limit limit" and ?es = "events_after s i"
  have n: "0 < ?n" by (simp add: clamp_limit_def)
  show ?thesis
  proof (cases "?n < length ?es")
    case True
    then have "events_after s (fcl_event_id (last (take ?n ?es))) = drop ?n ?es" by (rule events_after_page [OF assms(1) n])
    then show ?thesis using True by (simp add: get_file_change_logs_spec [OF assms] Let_def)
  next
    case False
    then show ?thesis by (simp add: get_file_change_logs_spec [OF assms] Let_def)
  qed
qed


theorem change_log_pages_witness:
  "\<exists>page. get_file_change_logs 0 1 sample_stored_db = (Inr page, sample_stored_db) \<and>
     events_after sample_stored_db 0 = fcls_operations page @
       (case fcls_next_event_id page of None \<Rightarrow> [] | Some e \<Rightarrow> events_after sample_stored_db e)"
  using change_log_pages [OF sample_stored_inv, of 0 1] by (auto simp: fits_i64_def)

text \<open>C24: the cache of directories is transparent: resolving a path through it answers what the table of directories
  alone says, changes no table and keeps the cache coherent with the table.\<close>

theorem get_dir_id_by_path_transparent:
  assumes "dir_ok s"
  shows "fst (get_dir_id_by_path path s) = resolve_dir (dirs_of s) path \<and>
    db_conn (snd (get_dir_id_by_path path s)) = db_conn s \<and> dir_ok (snd (get_dir_id_by_path path s))"
  using get_dir_id_by_path_spec [OF assms, of path] by auto

theorem get_dir_id_by_path_transparent_witness: "fst (get_dir_id_by_path ''/a'' sample_stored_db) = Inr 1"
  using get_dir_id_by_path_transparent [of sample_stored_db "''/a''"] db_invD(1) [OF sample_stored_inv] sample_resolve(1)
  by (simp add: tree_ok_def)

section \<open>Transactions and the registry\<close>

text \<open>C25: the volume chosen for an update is one of the mounted volumes that qualify: it can be written, has a size, is
  filled to less than 95 percent (an exact comparison of the fractions for volumes of up to 256 TiB, above that the one that
  binary64 gives), and has the announced number of bytes left. When a volume that qualifies has the preferred name, one
  of that name is chosen; and none is chosen only when no volume qualifies.\<close>

theorem select_volume_qualifies:
  "case select_volume request vs None of
     Some (i, v) \<Rightarrow> \<exists>x. (i, x) \<in> set vs \<and> v = svi_volume_id x \<and>
       \<not> svi_read_only x \<and> 0 < unat (svi_max_bytes x) \<and> filled_below_threshold x \<and>
       (\<forall>sz. bur_update_size_hint request = Some sz \<longrightarrow> sz = 0 \<or> unat (svi_max_volume_offset x) + unat sz \<le> unat (svi_max_bytes x)) \<and>
       ((\<exists>(j, y)\<in>set vs. qualifies request y \<and> bur_prefer_volume_name request = Some (svi_name y)) \<longrightarrow>
          bur_prefer_volume_name request = Some (svi_name x))
   | None \<Rightarrow> (\<forall>(i, x)\<in>set vs. \<not> qualifies request x)"
  by (rule select_volume_spec)

definition sample_volumes :: "(u64 \<times> storage_volume_info) list" where
  "sample_volumes =
     [(7, \<lparr> svi_volume_id = 1, svi_name = ''v'', svi_max_bytes = 100, svi_max_volume_offset = 0, svi_read_only = True \<rparr>),
      (8, \<lparr> svi_volume_id = 2, svi_name = ''w'', svi_max_bytes = 100, svi_max_volume_offset = 50, svi_read_only = False \<rparr>)]"

lemma sample_selected: "select_volume sample_update sample_volumes None = Some (8, 2)"
  by (simp add: sample_update_def sample_volumes_def skip_volume_iff qualifies_def filled_below_threshold_def)

theorem select_volume_qualifies_witness: "\<exists>x. (8, x) \<in> set sample_volumes \<and> filled_below_threshold x"
  using select_volume_qualifies [of sample_volumes sample_update] unfolding sample_selected by auto

text \<open>C26: a connection that has not registered is refused: any request but a registration is answered with
  \<open>Unauthorized\<close> and changes nothing of the server; a registration with another version is refused with both versions.\<close>

theorem anonymous_is_refused:
  "(\<not> registration request \<longrightarrow>
     handle_control_request E c request Anonymous s = (protocol_response.Error Unauthorized, Anonymous, s)) \<and>
   (version \<noteq> FS0_VERSION \<longrightarrow>
     handle_control_request E c (control_request.RegisterClient client token version) identity s =
       (protocol_response.Error (Fs0Version FS0_VERSION version), identity, s) \<and>
     handle_control_request E c (control_request.RegisterStorage storage token version vs endpoint) identity s =
       (protocol_response.Error (Fs0Version FS0_VERSION version), identity, s))"
  by (simp add: handle_control_request_other respond_def validate_registration_version_def st_bind_eval)

definition sample_env :: env where
  "sample_env = \<lparr> ev_now = (\<lambda>_. 5), ev_commit = (\<lambda>_. None), ev_rpc = (\<lambda>_ _. Inl NotFound), ev_debug = (\<lambda>_. []) \<rparr>"

theorem anonymous_is_refused_witness:
  "handle_control_request sample_env 0 control_request.CentralStatus Anonymous (central_server_init [''t'']) =
     (protocol_response.Error Unauthorized, Anonymous, central_server_init [''t'']) \<and>
   fst (handle_control_request sample_env 0 (control_request.RegisterClient None ''t'' ''0'') Anonymous (central_server_init [''t''])) =
     protocol_response.Error (Fs0Version FS0_VERSION ''0'')"
  using anonymous_is_refused [of control_request.CentralStatus sample_env 0 "central_server_init [''t'']" "''0''" None "''t''" Anonymous]
  by (simp add: registration_def FS0_VERSION_def)

text \<open>C27: registering a storage. The storage gets a fresh identifier and holds exactly its volumes; none of them was
  mounted before, the token is an allowed one, and the registry keeps its invariant: every online volume belongs to
  exactly one registered storage. A refused registration leaves storages and online volumes as they were.\<close>

theorem register_storage_mounts:
  assumes "server_inv s" and "ids_left s" and "register_storage E name token vs endpoint connection s = (r, s')"
  shows "server_inv s' \<and> cs_clients s' = cs_clients s \<and>
    (case r of
       Inr (i, peers) \<Rightarrow> token_allowed token s \<and> i = cs_next_id s \<and> hm_get (cs_storages s) i = None \<and>
         (\<forall>v\<in>set vs. hm_get (cs_online_volumes s) (svi_volume_id v) = None) \<and>
         (\<exists>st. scc_connection st = connection \<and> volume_ids st = svi_volume_id ` set vs \<and>
            hm_get (cs_storages s') = (hm_get (cs_storages s))(i \<mapsto> st))
     | Inl e \<Rightarrow> cs_storages s' = cs_storages s \<and> cs_online_volumes s' = cs_online_volumes s)"
  by (rule register_storage_inv) (fact assms)+

definition sample_server :: central_server where
  "sample_server = (central_server_init [''t''])\<lparr> cs_db := sample_volume_db \<rparr>"

definition sample_volume :: storage_volume_info where
  "sample_volume = \<lparr> svi_volume_id = 1, svi_name = ''v'', svi_max_bytes = 100, svi_max_volume_offset = 0, svi_read_only = False \<rparr>"

lemma sample_server_inv: "server_inv sample_server" "ids_left sample_server"
  using sample_inv(2)
  by (simp_all add: sample_server_def central_server_init_def server_inv_def registry_ok_def hm_ok_def ids_left_def)

lemma sample_registered: "map_sum id fst (fst (register_storage sample_env ''s'' ''t'' [sample_volume] [] 0 sample_server)) = Inr 1"
  by code_simp

definition sample_mounted :: central_server where
  "sample_mounted = snd (register_storage sample_env ''s'' ''t'' [sample_volume] [] 0 sample_server)"

lemma sample_mounted_run:
  obtains peers where "register_storage sample_env ''s'' ''t'' [sample_volume] [] 0 sample_server = (Inr (1, peers), sample_mounted)"
  unfolding sample_mounted_def using sample_registered
  by (cases "fst (register_storage sample_env ''s'' ''t'' [sample_volume] [] 0 sample_server)") (auto dest!: run_eq)

theorem register_storage_mounts_witness:
  "server_inv sample_mounted \<and> (\<exists>st. hm_get (cs_storages sample_mounted) 1 = Some st \<and> volume_ids st = {1})"
proof -
  obtain peers where "register_storage sample_env ''s'' ''t'' [sample_volume] [] 0 sample_server = (Inr (1, peers), sample_mounted)"
    by (rule sample_mounted_run)
  from register_storage_mounts [OF sample_server_inv this] show ?thesis by (auto simp: sample_volume_def)
qed

text \<open>C4: whatever connections are accepted, whatever they request and however the steps of updates interleave with the
  requests of other connections, and whenever the server is stopped and started again on its database, the database
  keeps its invariant, the registry agrees with the storages that are connected, and a connection that has registered
  speaks for a party that the registry knows under that connection. The steps are those in which clocks show times of
  63 bits, identifiers are not used up and a \<open>COMMIT\<close> of a copy or a rename does not fail.\<close>

theorem reachable_states_are_consistent:
  assumes "reachable tokens x"
  shows "db_inv (cs_db (sys_server x)) \<and> registry_ok (sys_server x) \<and>
    (\<forall>c i. sys_conns x c = Some i \<longrightarrow> speaks_for (sys_server x) c i)"
  using reachable_system_inv [OF assms] by (simp add: system_inv_def server_inv_def)

theorem reachable_states_are_consistent_witness:
  "speaks_for (snd (snd (handle_control_request sample_env 0 (control_request.RegisterClient None ''t'' FS0_VERSION) Anonymous
     (central_server_init [''t''])))) 0 (Client 1)"
proof -
  let ?x = "central_system_init [''t'']"
  let ?y = "?x\<lparr> sys_conns := (sys_conns ?x)(0 \<mapsto> Anonymous) \<rparr>"
  let ?req = "control_request.RegisterClient None ''t'' FS0_VERSION"
  let ?res = "handle_control_request sample_env 0 ?req Anonymous (central_server_init [''t''])"
  have y: "reachable [''t''] ?y" by (rule reachable.step [OF reachable.start accept]) (simp add: central_system_init_def)
  have "central_step ?y (?y\<lparr> sys_server := snd (snd ?res), sys_conns := (sys_conns ?y)(0 \<mapsto> fst (snd ?res)) \<rparr>)"
    by (rule request [where E = sample_env and req = ?req and response = "fst ?res"])
      (simp_all add: central_system_init_def env_ok_def clock_ok_def commit_ok_def sample_env_def fits_i64_def ids_left_def
        central_server_init_def)
  from reachable_states_are_consistent [OF reachable.step [OF y this]]
  have "speaks_for (snd (snd ?res)) 0 (fst (snd ?res))" by simp
  moreover have "fst (snd ?res) = Client 1" by code_simp
  ultimately show ?thesis by simp
qed

end
