(* ===== verification/Storage_System.thy ===== *)
theory Storage_System
  imports Storage_Safety
begin

text \<open>
  The storage server as a running process (\<^verbatim>\<open>fs0-storage/src/server.rs\<close>, \<^verbatim>\<open>server/central_connection.rs\<close>, \<^verbatim>\<open>server/tasks.rs\<close>):
  how it starts, its connection to central with reconnections, the task that reports its address, the periodic tasks,
  and data connections whose requests overlap. An upload consists of the parts between its awaits, so that uploads to
  the same volume may interleave in any way and may be dropped between two parts.
\<close>

section \<open>Starting\<close>

definition storage_run ::
  "'h storage_env \<Rightarrow> unit fs0_result \<Rightarrow> (string \<Rightarrow> volume_dir) \<Rightarrow> storage_config \<Rightarrow> storage_server fs0_result" where
  "storage_run E bound dirs config =
     res_bind (open_volumes dirs config) (\<lambda>volumes.
     res_bind bound (\<lambda>_.
     case connect_and_register E \<lparr> ss_config = config, ss_storage_id = 0, ss_connected = False, ss_last_reported_endpoint = [],
         ss_volumes = volumes, ss_upload_leases = [], ss_sent = [] \<rparr> of
       (Inl e, _) \<Rightarrow> Inl e
     | (Inr _, s) \<Rightarrow> Inr s))"

section \<open>The address of the server\<close>

text \<open>The variables of the watching task, and what it does when the address may have changed or a report is pending.\<close>

record addr_watcher =
  aw_last_reported_endpoint :: "u8 list"
  aw_pending_report :: bool

definition watcher_new :: "storage_server \<Rightarrow> addr_watcher" where
  "watcher_new s = \<lparr> aw_last_reported_endpoint = ss_last_reported_endpoint s, aw_pending_report = False \<rparr>"

definition watcher_turn :: "'h storage_env \<Rightarrow> (u8 list) fs0_result \<Rightarrow> addr_watcher \<times> storage_server \<Rightarrow> addr_watcher \<times> storage_server" where
  "watcher_turn E endpoint = (\<lambda>(w, s).
     case endpoint of
       Inl _ \<Rightarrow> (w\<lparr> aw_pending_report := False \<rparr>, s)
     | Inr endpoint \<Rightarrow>
         if endpoint = aw_last_reported_endpoint w then (w\<lparr> aw_pending_report := False \<rparr>, s)
         else
           (case central_update_storage_endpoint E endpoint s of
              (Inr _, s') \<Rightarrow> (\<lparr> aw_last_reported_endpoint = endpoint, aw_pending_report = False \<rparr>, s')
            | (Inl _, s') \<Rightarrow> (w\<lparr> aw_pending_report := True \<rparr>, s')))"

section \<open>Uploads in parts\<close>

definition upload_admit :: "'h storage_env \<Rightarrow> upload_chunk_request \<Rightarrow> unit storage_op" where
  "upload_admit E request =
     st_bind (check_upload_lease (se_now E) (ucr_lease_id request) (ucr_file_id request) (ucr_volume_id request)) (\<lambda>_.
     st_bind (st_gets ss_config) (\<lambda>config.
     st_lift (if sc_check_hash_before_write config then check_chunk_hash E request else Inr ())))"

definition upload_begin :: "'h storage_env \<Rightarrow> upload_chunk_request \<Rightarrow> put_plan storage_op" where
  "upload_begin E request =
     st_bind (upload_admit E request) (\<lambda>_.
     with_volume (ucr_volume_id request)
       (put_begin (se_blake3 E) (se_now E) (ucr_chunk_id request) (ucr_raw_len request) (ucr_compressed_bytes request)))"

text \<open>Run one after the other the parts are the handler.\<close>

lemma upload_chunk_parts:
  "upload_chunk E q =
     st_bind (upload_admit E q) (\<lambda>_.
     st_bind (with_volume (ucr_volume_id q)
       (st_bind (put_begin (se_blake3 E) (se_now E) (ucr_chunk_id q) (ucr_raw_len q) (ucr_compressed_bytes q)) (\<lambda>plan.
        case plan of
          Existing existing \<Rightarrow> st_return existing
        | Insert chunk \<Rightarrow>
            st_bind (write_compressed_bytes (se_disk E) (cm_volume_offset chunk) (ucr_compressed_bytes q)) (\<lambda>_. put_finish chunk)))) (\<lambda>meta.
     st_return (data_response.UploadChunk \<lparr> ucs_chunk_id = ucr_chunk_id q, ucs_raw_len = cm_raw_len meta,
       ucs_compressed_len = cm_compressed_len meta \<rparr>)))"
  by (auto simp: fun_eq_iff upload_chunk_def upload_admit_def put_chunk_def st_bind_def split: sum.splits prod.splits)

section \<open>The system\<close>

text \<open>
  The task of the connection to central: it serves the connection until it is lost, and then connects again until the
  server exits. A failed attempt changes nothing but what was sent.
\<close>

inductive central_task :: "'h blake3 \<Rightarrow> bool \<Rightarrow> storage_server \<Rightarrow> storage_server \<Rightarrow> bool" for B exiting where
  request: "ss_connected s \<Longrightarrow> central_connection_request request s = (response, s') \<Longrightarrow> central_task B exiting s s'"
| lost: "ss_connected s \<Longrightarrow> central_task B exiting s (central_connection_lost s)"
| reconnect: "\<not> ss_connected s \<Longrightarrow> \<not> exiting \<Longrightarrow> se_blake3 E = B \<Longrightarrow> connect_and_register E s = (r, s') \<Longrightarrow> central_task B exiting s s'"

text \<open>
  The puts in flight of each volume, the data connections with the client that each speaks for, the watcher, and the
  flag that \<open>shutdown\<close> sets.
\<close>

record storage_system =
  sy_server :: storage_server
  sy_puts :: "u64 \<Rightarrow> put_in_flight list"
  sy_conns :: "nat \<Rightarrow> u64 option option"
  sy_watcher :: addr_watcher
  sy_exit :: bool

definition storage_system_new :: "storage_server \<Rightarrow> storage_system" where
  "storage_system_new s =
     \<lparr> sy_server = s, sy_puts = (\<lambda>_. []), sy_conns = Map.empty, sy_watcher = watcher_new s, sy_exit = False \<rparr>"

fun request_valid :: "protocol_request \<Rightarrow> bool" where
  "request_valid (protocol_request.Data q) \<longleftrightarrow> data_request_ok q"
| "request_valid _ \<longleftrightarrow> True"

inductive storage_step :: "'h blake3 \<Rightarrow> storage_system \<Rightarrow> storage_system \<Rightarrow> bool" for B where
  connects: "sy_conns x c = None \<Longrightarrow> \<not> sy_exit x \<Longrightarrow> storage_step B x (x\<lparr> sy_conns := (sy_conns x)(c \<mapsto> None) \<rparr>)"
| requests: "sy_conns x c = Some client \<Longrightarrow> se_blake3 E = B \<Longrightarrow> request_valid request \<Longrightarrow>
    data_connection_request E request (client, sy_server x) = (r, (client', s')) \<Longrightarrow>
    storage_step B x (x\<lparr> sy_server := s', sy_conns := (sy_conns x)(c \<mapsto> client') \<rparr>)"
| upload_starts: "sy_conns x c = Some (Some client) \<Longrightarrow> se_blake3 E = B \<Longrightarrow> data_request_ok (data_request.UploadChunk q) \<Longrightarrow>
    upload_begin E q (sy_server x) = (Inr (Insert chunk), s') \<Longrightarrow>
    storage_step B x (x\<lparr> sy_server := s', sy_puts := (sy_puts x)(ucr_volume_id q := sy_puts x (ucr_volume_id q) @
      [\<lparr> pf_chunk = chunk, pf_bytes = ucr_compressed_bytes q, pf_written = False \<rparr>]) \<rparr>)"
| upload_writes: "sy_puts x i = ps @ p # qs \<Longrightarrow>
    with_volume i (write_compressed_bytes E (cm_volume_offset (pf_chunk p)) (pf_bytes p)) (sy_server x) = (r, s') \<Longrightarrow>
    storage_step B x (x\<lparr> sy_server := s', sy_puts := (sy_puts x)(i :=
      (case r of Inr _ \<Rightarrow> ps @ p\<lparr> pf_written := True \<rparr> # qs | Inl _ \<Rightarrow> ps @ qs)) \<rparr>)"
| upload_ends: "sy_puts x i = ps @ p # qs \<Longrightarrow> pf_written p \<Longrightarrow> with_volume i (put_finish (pf_chunk p)) (sy_server x) = (r, s') \<Longrightarrow>
    storage_step B x (x\<lparr> sy_server := s', sy_puts := (sy_puts x)(i := ps @ qs) \<rparr>)"
| upload_cut: "sy_puts x i = ps @ p # qs \<Longrightarrow> storage_step B x (x\<lparr> sy_puts := (sy_puts x)(i := ps @ qs) \<rparr>)"
| disconnects: "storage_step B x (x\<lparr> sy_conns := (sy_conns x)(c := None) \<rparr>)"
| central_task: "central_task B (sy_exit x) (sy_server x) s' \<Longrightarrow> storage_step B x (x\<lparr> sy_server := s' \<rparr>)"
| watches: "\<not> sy_exit x \<Longrightarrow> se_blake3 E = B \<Longrightarrow> watcher_turn E endpoint (sy_watcher x, sy_server x) = (w, s') \<Longrightarrow>
    storage_step B x (x\<lparr> sy_watcher := w, sy_server := s' \<rparr>)"
| syncs: "\<not> sy_exit x \<Longrightarrow> se_blake3 E = B \<Longrightarrow> sync_all E (sy_server x) = (r, s') \<Longrightarrow> storage_step B x (x\<lparr> sy_server := s' \<rparr>)"
| closes_idle: "\<not> sy_exit x \<Longrightarrow> storage_step B x (x\<lparr> sy_server := storage_close_idle_data_files busy now (sy_server x) \<rparr>)"
| shuts_down: "storage_step B x (x\<lparr> sy_server := central_connection_close (sy_server x), sy_exit := True \<rparr>)"

text \<open>A start from directories in which, as far as they can be opened, volumes are that earlier runs may have left.\<close>

definition dirs_ok :: "'h blake3 \<Rightarrow> (string \<Rightarrow> volume_dir) \<Rightarrow> storage_config \<Rightarrow> bool" where
  "dirs_ok B dirs config \<longleftrightarrow>
     (\<forall>c\<in>set (sc_volumes config). \<forall>v. volume_open (svc_path c) (dirs (svc_path c)) = Inr v \<longrightarrow> volume_reachable B (v, []))"

inductive storage_reachable :: "'h blake3 \<Rightarrow> storage_system \<Rightarrow> bool" for B where
  start: "storage_run E bound dirs config = Inr s \<Longrightarrow> se_blake3 E = B \<Longrightarrow> dirs_ok B dirs config \<Longrightarrow> storage_reachable B (storage_system_new s)"
| step: "storage_reachable B x \<Longrightarrow> storage_step B x y \<Longrightarrow> storage_reachable B y"

section \<open>What the system keeps\<close>

text \<open>
  Every volume with its puts in flight is in a state that a volume can reach; leases are for volumes that are there;
  a storage identifier means a connection; and central has been asked about every client that a connection speaks for.
\<close>

definition storage_inv :: "'h blake3 \<Rightarrow> storage_system \<Rightarrow> bool" where
  "storage_inv B x \<longleftrightarrow>
     (let s = sy_server x in
      (\<forall>i v. hm_get (ss_volumes s) i = Some v \<longrightarrow> volume_reachable B (v, sy_puts x i) \<and> vm_volume_id (vd_meta (vo_db v)) = i) \<and>
      (\<forall>i. sy_puts x i \<noteq> [] \<longrightarrow> (\<exists>v. hm_get (ss_volumes s) i = Some v)) \<and>
      hm_ok (ss_upload_leases s) \<and>
      (\<forall>l lease. hm_get (ss_upload_leases s) l = Some lease \<longrightarrow> (\<exists>v. hm_get (ss_volumes s) (uls_volume_id lease) = Some v)) \<and>
      (ss_storage_id s \<noteq> 0 \<longrightarrow> ss_connected s) \<and>
      (\<forall>c i. sy_conns x c = Some (Some i) \<longrightarrow>
         (\<exists>t. protocol_request.Control (control_request.ValidateClientAuth i t) \<in> set (ss_sent s))))"

lemma storage_invD:
  assumes "storage_inv B x"
  shows "hm_get (ss_volumes (sy_server x)) i = Some v \<Longrightarrow> volume_reachable B (v, sy_puts x i) \<and> vm_volume_id (vd_meta (vo_db v)) = i"
    and "sy_puts x i \<noteq> [] \<Longrightarrow> \<exists>v. hm_get (ss_volumes (sy_server x)) i = Some v"
    and "hm_ok (ss_upload_leases (sy_server x))"
    and "hm_get (ss_upload_leases (sy_server x)) l = Some lease \<Longrightarrow>
      \<exists>v. hm_get (ss_volumes (sy_server x)) (uls_volume_id lease) = Some v"
    and "ss_storage_id (sy_server x) \<noteq> 0 \<Longrightarrow> ss_connected (sy_server x)"
    and "sy_conns x c = Some (Some k) \<Longrightarrow>
      \<exists>t. protocol_request.Control (control_request.ValidateClientAuth k t) \<in> set (ss_sent (sy_server x))"
  using assms unfolding storage_inv_def Let_def by blast+

lemma storage_invI:
  assumes x: "sy_server x = s" "sy_puts x = puts" "sy_conns x = conns"
    and "\<And>i v. hm_get (ss_volumes s) i = Some v \<Longrightarrow> volume_reachable B (v, puts i) \<and> vm_volume_id (vd_meta (vo_db v)) = i"
    and "\<And>i. puts i \<noteq> [] \<Longrightarrow> \<exists>v. hm_get (ss_volumes s) i = Some v"
    and "hm_ok (ss_upload_leases s)"
    and "\<And>l lease. hm_get (ss_upload_leases s) l = Some lease \<Longrightarrow> \<exists>v. hm_get (ss_volumes s) (uls_volume_id lease) = Some v"
    and "ss_storage_id s \<noteq> 0 \<Longrightarrow> ss_connected s"
    and "\<And>c k. conns c = Some (Some k) \<Longrightarrow> \<exists>t. protocol_request.Control (control_request.ValidateClientAuth k t) \<in> set (ss_sent s)"
  shows "storage_inv B x"
  using assms(4-) unfolding storage_inv_def Let_def x by blast

lemma storage_keepsD:
  assumes "storage_keeps B s s'"
  shows "dom (hm_get (ss_volumes s')) = dom (hm_get (ss_volumes s))" and "set (ss_sent s) \<subseteq> set (ss_sent s')"
    and "ss_storage_id s' = ss_storage_id s" and "ss_connected s' = ss_connected s"
    and "hm_ok (ss_upload_leases s) \<Longrightarrow> hm_ok (ss_upload_leases s') \<and> hm_get (ss_upload_leases s') \<subseteq>\<^sub>m hm_get (ss_upload_leases s)"
    and "hm_get (ss_volumes s) i = Some v \<Longrightarrow> hm_get (ss_volumes s') i = Some v' \<Longrightarrow> (volume_step B)\<^sup>*\<^sup>* (v, ps) (v', ps)"
  using assms by (auto simp: storage_keeps_def vol_keeps_def)

lemma open_volumes_loop_opened:
  "open_volumes_loop dirs cs ids names vs = Inr vs' \<Longrightarrow> hm_get vs' i = Some v \<Longrightarrow>
     hm_get vs i = Some v \<or> (\<exists>c\<in>set cs. volume_open (svc_path c) (dirs (svc_path c)) = Inr v) \<and> vm_volume_id (vd_meta (vo_db v)) = i"
proof (induction dirs cs ids names vs rule: open_volumes_loop.induct)
  case (2 dirs c cs ids names vs)
  then obtain w where w: "volume_open (svc_path c) (dirs (svc_path c)) = Inr w" "svc_name c \<notin> names"
    and rest: "open_volumes_loop dirs cs (insert (vm_volume_id (vd_meta (vo_db w))) ids) (insert (svc_name c) names)
      (hm_insert (vm_volume_id (vd_meta (vo_db w))) w vs) = Inr vs'"
    and id: "vm_volume_id (vd_meta (vo_db w)) \<noteq> 0" "vm_volume_id (vd_meta (vo_db w)) \<notin> ids"
    by (auto simp: res_bind_Inr_iff Let_def split: if_splits)
  have "hm_get (hm_insert (vm_volume_id (vd_meta (vo_db w))) w vs) i = Some v \<or>
      (\<exists>c\<in>set cs. volume_open (svc_path c) (dirs (svc_path c)) = Inr v) \<and> vm_volume_id (vd_meta (vo_db v)) = i"
    using "2.IH" [OF w(2) refl _ _ rest "2.prems"(2)] id by simp
  then show ?case using w(1) by (auto simp: update_conv split: if_splits)
qed simp

lemma connect_and_register_keeps:
  assumes "connect_and_register E s = (r, s')"
  shows "ss_config s' = ss_config s \<and> ss_volumes s' = ss_volumes s \<and> ss_upload_leases s' = ss_upload_leases s \<and>
    set (ss_sent s) \<subseteq> set (ss_sent s') \<and> (ss_connected s' \<or> ss_storage_id s' = ss_storage_id s \<and> ss_connected s' = ss_connected s)"
  using assms
  by (auto simp: connect_and_register_def register_with_central_def central_rpc_def st_bind_def split: prod.splits sum.splits)

lemma storage_inv_start:
  assumes "storage_run E bound dirs config = Inr s" and dirs: "dirs_ok B dirs config"
  shows "storage_inv B (storage_system_new s)"
proof -
  let ?s0 = "\<lambda>vs. \<lparr> ss_config = config, ss_storage_id = 0, ss_connected = False, ss_last_reported_endpoint = [],
    ss_volumes = vs, ss_upload_leases = [], ss_sent = [] \<rparr>"
  from assms(1) obtain vs where vs: "open_volumes dirs config = Inr vs"
    and run: "(case connect_and_register E (?s0 vs) of (Inl e, _) \<Rightarrow> Inl e | (Inr _, s) \<Rightarrow> Inr s) = Inr s"
    by (auto simp: storage_run_def res_bind_Inr_iff simp del: split_paired_All)
  obtain r t where c: "connect_and_register E (?s0 vs) = (r, t)" by force
  with run have t: "t = s" by (cases r) auto
  note C = connect_and_register_keeps [OF c [unfolded t], simplified]
  have "volume_reachable B (v, []) \<and> vm_volume_id (vd_meta (vo_db v)) = i" if "hm_get vs i = Some v" for i v
    using open_volumes_loop_opened [OF vs [unfolded open_volumes_def] that] dirs unfolding dirs_ok_def by auto
  with C show ?thesis by (auto simp: storage_inv_def storage_system_new_def Let_def hm_ok_def)
qed

lemma volume_reachable_steps: "(volume_step B)\<^sup>*\<^sup>* s s' \<Longrightarrow> volume_reachable B s \<Longrightarrow> volume_reachable B s'"
  by (induction rule: rtranclp_induct) (auto intro: volume_reachable.steps)

lemma volume_reachable_id: "(volume_step B)\<^sup>*\<^sup>* s s' \<Longrightarrow> volume_reachable B s \<Longrightarrow> blake3_ok B \<Longrightarrow>
    vm_volume_id (vd_meta (vo_db (fst s'))) = vm_volume_id (vd_meta (vo_db (fst s)))"
  using volume_steps_inv volume_reachable_inv by blast

text \<open>A server that keeps what handlers keep, with the connections it has or with one that central was asked about.\<close>

lemma storage_inv_keeps:
  assumes inv: "storage_inv B x" and B: "blake3_ok B" and k: "storage_keeps B (sy_server x) s'"
    and conns: "\<And>c i. conns c = Some (Some i) \<Longrightarrow> sy_conns x c = Some (Some i) \<or>
      (\<exists>t. protocol_request.Control (control_request.ValidateClientAuth i t) \<in> set (ss_sent s'))"
  shows "storage_inv B (x\<lparr> sy_server := s', sy_conns := conns \<rparr>)"
proof -
  note K = storage_keepsD [OF k] and I = storage_invD [OF inv]
  have there: "\<exists>v'. hm_get (ss_volumes s') i = Some v'" if "hm_get (ss_volumes (sy_server x)) i = Some v" for i v
    using K(1) that by blast
  have vol: "volume_reachable B (v', sy_puts x i) \<and> vm_volume_id (vd_meta (vo_db v')) = i" if v': "hm_get (ss_volumes s') i = Some v'" for i v'
  proof -
    obtain v where v: "hm_get (ss_volumes (sy_server x)) i = Some v" using K(1) v' by blast
    then have st: "(volume_step B)\<^sup>*\<^sup>* (v, sy_puts x i) (v', sy_puts x i)" using K(6) v' by blast
    from volume_reachable_steps [OF st] volume_reachable_id [OF st _ B] I(1) [OF v] show ?thesis by simp
  qed
  have lease: "\<exists>v. hm_get (ss_volumes s') (uls_volume_id lease) = Some v" if "hm_get (ss_upload_leases s') l = Some lease" for l lease
  proof -
    have "hm_get (ss_upload_leases (sy_server x)) l = Some lease" using K(5) [OF I(3)] that by (metis domI map_le_def)
    from I(4) [OF this] there show ?thesis by blast
  qed
  have client: "\<exists>t. protocol_request.Control (control_request.ValidateClientAuth i t) \<in> set (ss_sent s')" if "conns c = Some (Some i)" for c i
    using conns [OF that] I(6) K(2) by blast
  show ?thesis
  proof (rule storage_invI [where s = s' and puts = "sy_puts x" and conns = conns])
    show "\<exists>v. hm_get (ss_volumes s') i = Some v" if "sy_puts x i \<noteq> []" for i using I(2) [OF that] there by blast
    show "ss_storage_id s' \<noteq> 0 \<Longrightarrow> ss_connected s'" using I(5) K(3,4) by simp
  qed (use vol lease client K(5) [OF I(3)] in simp_all)
qed

lemma storage_inv_keeps_server:
  assumes "storage_inv B x" and "blake3_ok B" and "storage_keeps B (sy_server x) s'"
  shows "storage_inv B (x\<lparr> sy_server := s' \<rparr>)"
  using storage_inv_keeps [OF assms, of "sy_conns x"] by simp

text \<open>A step of one volume with its puts in flight.\<close>

lemma storage_inv_volume:
  assumes inv: "storage_inv B x" and B: "blake3_ok B" and res: "with_volume i m (sy_server x) = (r, s')"
    and dom: "i \<in> dom (hm_get (ss_volumes (sy_server x)))"
    and step: "\<And>v v'. hm_get (ss_volumes (sy_server x)) i = Some v \<Longrightarrow> m v = (r, v') \<Longrightarrow> volume_step B (v, sy_puts x i) (v', ps)"
  shows "storage_inv B (x\<lparr> sy_server := s', sy_puts := (sy_puts x)(i := ps) \<rparr>)"
proof -
  from dom res obtain v v' where v: "hm_get (ss_volumes (sy_server x)) i = Some v" "m v = (r, v')"
    and s': "s' = sy_server x\<lparr> ss_volumes := hm_insert i v' (ss_volumes (sy_server x)) \<rparr>" by (auto elim: with_volume_cases)
  have st: "(volume_step B)\<^sup>*\<^sup>* (v, sy_puts x i) (v', ps)" using step [OF v] by blast
  have r: "volume_reachable B (v, sy_puts x i)" "vm_volume_id (vd_meta (vo_db v)) = i"
    using inv v(1) by (simp_all add: storage_inv_def Let_def)
  have vol: "volume_reachable B (v', ps) \<and> vm_volume_id (vd_meta (vo_db v')) = i"
    using volume_reachable_steps [OF st r(1)] volume_reachable_id [OF st r(1) B] r(2) by simp
  have get: "hm_get (ss_volumes s') j = (if j = i then Some v' else hm_get (ss_volumes (sy_server x)) j)" for j
    by (auto simp: s' update_conv)
  have rest: "ss_upload_leases s' = ss_upload_leases (sy_server x)" "ss_storage_id s' = ss_storage_id (sy_server x)"
    "ss_connected s' = ss_connected (sy_server x)" "ss_sent s' = ss_sent (sy_server x)" by (simp_all add: s')
  show ?thesis
    by (rule storage_invI [where s = s' and puts = "(sy_puts x)(i := ps)" and conns = "sy_conns x"], simp_all only: rest get)
      (use vol storage_invD [OF inv] in \<open>auto split: if_splits\<close>)
qed

text \<open>Changes that leave the volumes alone.\<close>

lemma storage_inv_rest:
  assumes inv: "storage_inv B x" and vs: "ss_volumes s' = ss_volumes (sy_server x)"
    and ls: "hm_ok (ss_upload_leases s')"
      "\<And>l lease. hm_get (ss_upload_leases s') l = Some lease \<Longrightarrow> \<exists>v. hm_get (ss_volumes (sy_server x)) (uls_volume_id lease) = Some v"
    and conn: "ss_storage_id s' \<noteq> 0 \<Longrightarrow> ss_connected s'" and sent: "set (ss_sent (sy_server x)) \<subseteq> set (ss_sent s')"
    and y: "sy_server y = s'" "sy_puts y = sy_puts x" "sy_conns y = sy_conns x"
  shows "storage_inv B y"
proof (rule storage_invI [OF y])
  show "\<exists>t. protocol_request.Control (control_request.ValidateClientAuth k t) \<in> set (ss_sent s')" if "sy_conns x c = Some (Some k)" for c k
    using storage_invD(6) [OF inv that] sent by blast
qed (use storage_invD [OF inv] vs ls conn in simp_all)

lemma storage_control_request_keeps:
  assumes "storage_control_request q s = (r, s')" and "hm_ok (ss_upload_leases s)"
  shows "ss_volumes s' = ss_volumes s \<and> ss_sent s' = ss_sent s \<and> ss_storage_id s' = ss_storage_id s \<and> ss_connected s' = ss_connected s \<and>
    hm_ok (ss_upload_leases s') \<and>
    (\<forall>l lease. hm_get (ss_upload_leases s') l = Some lease \<longrightarrow>
       hm_get (ss_upload_leases s) l = Some lease \<or> (\<exists>v. hm_get (ss_volumes s) (uls_volume_id lease) = Some v))"
  using assms
  by (cases q) (auto simp: grant_upload_lease_def revoke_upload_lease_def hm_ok_def update_conv distinct_update distinct_delete
      delete_conv split: if_splits)

lemma central_connection_request_keeps:
  assumes "central_connection_request q s = (r, s')" and "hm_ok (ss_upload_leases s)"
  shows "ss_volumes s' = ss_volumes s \<and> ss_sent s' = ss_sent s \<and> ss_storage_id s' = ss_storage_id s \<and> ss_connected s' = ss_connected s \<and>
    hm_ok (ss_upload_leases s') \<and>
    (\<forall>l lease. hm_get (ss_upload_leases s') l = Some lease \<longrightarrow>
       hm_get (ss_upload_leases s) l = Some lease \<or> (\<exists>v. hm_get (ss_volumes s) (uls_volume_id lease) = Some v))"
proof (cases q)
  case (Control c)
  then obtain r' where "storage_control_request c s = (r', s')" using assms(1) by (auto split: prod.splits sum.splits)
  then show ?thesis using storage_control_request_keeps assms(2) by blast
qed (use assms in auto)

lemma watcher_turn_keeps:
  assumes "watcher_turn E endpoint (w, s) = (w', s')"
  shows "ss_volumes s' = ss_volumes s \<and> ss_upload_leases s' = ss_upload_leases s \<and> ss_storage_id s' = ss_storage_id s \<and>
    ss_connected s' = ss_connected s \<and> set (ss_sent s) \<subseteq> set (ss_sent s')"
  using assms
  by (auto simp: watcher_turn_def central_update_storage_endpoint_def connection_or_unavailable_def central_rpc_def st_bind_def
      split: prod.splits sum.splits if_splits)

lemma close_idle_keeps: "storage_keeps B s (storage_close_idle_data_files busy now s)"
proof -
  have "vol_keeps B v (close_idle_data_files b now v)" for v b
    unfolding vol_keeps_def using volume_step.closes_idle by blast
  then show ?thesis
    by (auto simp: storage_close_idle_data_files_def storage_keeps_def map_of_map dom_def)
qed

text \<open>A client that a connection did not have before is one that central was asked about.\<close>

lemma data_connection_request_client:
  assumes "data_connection_request E request (c, s) = (r, (Some i, s'))"
  shows "c = Some i \<or> (\<exists>t. protocol_request.Control (control_request.ValidateClientAuth i t) \<in> set (ss_sent s'))"
proof (cases c)
  case None
  from unauthenticated_request [OF assms [unfolded None]]
  obtain t where q: "request = protocol_request.Data (data_request.Authenticate i t)" and r: "r = Inr (data_response.Authenticate i)" by auto
  with assms None obtain u where "central_validate_client_auth E i t s = (Inr u, s')" by (auto split: prod.splits sum.splits)
  then have "protocol_request.Control (control_request.ValidateClientAuth i t) \<in> set (ss_sent s')"
    by (auto simp: central_validate_client_auth_def connection_or_unavailable_def central_rpc_def st_bind_def
        split: prod.splits sum.splits if_splits)
  then show ?thesis by blast
next
  case (Some k)
  have "\<exists>r s'. data_connection_request E request (Some k, s) = (r, (Some k, s'))"
    by (cases request; simp) (rename_tac q, case_tac q; simp split: prod.splits)
  with assms Some show ?thesis by auto
qed

lemma upload_admit_keeps: "st_rel (storage_keeps B) (upload_admit E q)"
  unfolding upload_admit_def by (intro skeep.rel_intros skeep_lease)

lemma sync_all_keeps: "st_rel (storage_keeps B) (sync_all E)"
  unfolding sync_all_def by (intro skeep.rel_intros skeep_sync)

lemma storage_inv_upload_starts:
  assumes inv: "storage_inv B x" and B: "blake3_ok B" and E: "se_blake3 E = B" and ok: "data_request_ok (data_request.UploadChunk q)"
    and run: "upload_begin E q (sy_server x) = (Inr (Insert chunk), s')"
  shows "storage_inv B (x\<lparr> sy_server := s', sy_puts := (sy_puts x)(ucr_volume_id q := sy_puts x (ucr_volume_id q) @
      [\<lparr> pf_chunk = chunk, pf_bytes = ucr_compressed_bytes q, pf_written = False \<rparr>]) \<rparr>)"
proof -
  from run obtain u s1 where admit: "upload_admit E q (sy_server x) = (Inr u, s1)"
    and start: "with_volume (ucr_volume_id q)
      (put_begin (se_blake3 E) (se_now E) (ucr_chunk_id q) (ucr_raw_len q) (ucr_compressed_bytes q)) s1 = (Inr (Insert chunk), s')"
    by (auto simp: upload_begin_def st_bind_Inr_iff)
  let ?x = "x\<lparr> sy_server := s1 \<rparr>"
  have "storage_inv B ?x" using storage_inv_keeps_server [OF inv B] st_relD [OF upload_admit_keeps admit] by blast
  then have "storage_inv B (?x\<lparr> sy_server := s', sy_puts := (sy_puts ?x)(ucr_volume_id q := sy_puts x (ucr_volume_id q) @
      [\<lparr> pf_chunk = chunk, pf_bytes = ucr_compressed_bytes q, pf_written = False \<rparr>]) \<rparr>)"
  proof (rule storage_inv_volume [OF _ B])
    show "with_volume (ucr_volume_id q)
      (put_begin (se_blake3 E) (se_now E) (ucr_chunk_id q) (ucr_raw_len q) (ucr_compressed_bytes q)) (sy_server ?x) = (Inr (Insert chunk), s')"
      using start by simp
    show "ucr_volume_id q \<in> dom (hm_get (ss_volumes (sy_server ?x)))" using start by (auto elim: with_volume_cases)
  qed (use E ok in \<open>auto intro: volume_step.put_starts\<close>)
  then show ?thesis by simp
qed

lemma central_task_keeps:
  assumes "central_task B exiting (sy_server x) s'" and inv: "storage_inv B x"
  shows "ss_volumes s' = ss_volumes (sy_server x) \<and> set (ss_sent (sy_server x)) \<subseteq> set (ss_sent s') \<and> hm_ok (ss_upload_leases s') \<and>
    (\<forall>l lease. hm_get (ss_upload_leases s') l = Some lease \<longrightarrow> (\<exists>v. hm_get (ss_volumes (sy_server x)) (uls_volume_id lease) = Some v)) \<and>
    (ss_storage_id s' \<noteq> 0 \<longrightarrow> ss_connected s')"
  using assms(1)
proof cases
  case (request q response)
  from central_connection_request_keeps [OF request(2) storage_invD(3) [OF inv]] storage_invD(4,5) [OF inv]
  show ?thesis by (metis order_refl)
next
  case lost
  then show ?thesis using storage_invD [OF inv] by (simp add: central_connection_lost_def)
next
  case (reconnect E r)
  note K = connect_and_register_keeps [OF reconnect(4)]
  with storage_invD [OF inv] show ?thesis by auto
qed

lemma storage_step_inv:
  assumes step: "storage_step B x y" and inv: "storage_inv B x" and B: "blake3_ok B"
  shows "storage_inv B y"
  using step
proof (cases rule: storage_step.cases)
  case (connects c)
  have "storage_inv B (x\<lparr> sy_server := sy_server x, sy_conns := (sy_conns x)(c \<mapsto> None) \<rparr>)"
    by (rule storage_inv_keeps [OF inv B skeep.step_refl]) (simp split: if_splits)
  then show ?thesis unfolding connects(1) by simp
next
  case (requests c client E request r client' s')
  have k: "storage_keeps B (sy_server x) s'"
  proof -
    have "data_request_ok q" if "request = protocol_request.Data q" for q using requests(4) that by simp
    from data_connection_request_keeps [OF this requests(5)] requests(3) show ?thesis by simp
  qed
  show ?thesis unfolding requests(1)
  proof (rule storage_inv_keeps [OF inv B k])
    fix c' i assume "((sy_conns x)(c \<mapsto> client')) c' = Some (Some i)"
    then show "sy_conns x c' = Some (Some i) \<or>
        (\<exists>t. protocol_request.Control (control_request.ValidateClientAuth i t) \<in> set (ss_sent s'))"
      using data_connection_request_client [of E request client "sy_server x" r i s'] requests(2,5) by (auto split: if_splits)
  qed
next
  case (upload_starts c client E q chunk s')
  then show ?thesis using storage_inv_upload_starts [OF inv B] by simp
next
  case (upload_writes i ps p qs E r s')
  show ?thesis unfolding upload_writes(1)
  proof (rule storage_inv_volume [OF inv B upload_writes(3)])
    show "i \<in> dom (hm_get (ss_volumes (sy_server x)))" using storage_invD(2) [OF inv, of i] upload_writes(2) by auto
    show "volume_step B (v, sy_puts x i) (v', case r of Inr _ \<Rightarrow> ps @ p\<lparr> pf_written := True \<rparr> # qs | Inl _ \<Rightarrow> ps @ qs)"
      if "write_compressed_bytes E (cm_volume_offset (pf_chunk p)) (pf_bytes p) v = (r, v')" for v v'
      using that upload_writes(2) by (cases r) (auto intro: volume_step.put_writes volume_step.put_fails)
  qed
next
  case (upload_ends i ps p qs r s')
  show ?thesis unfolding upload_ends(1)
  proof (rule storage_inv_volume [OF inv B upload_ends(4)])
    show "i \<in> dom (hm_get (ss_volumes (sy_server x)))" using storage_invD(2) [OF inv, of i] upload_ends(2) by auto
    show "volume_step B (v, sy_puts x i) (v', ps @ qs)" if "put_finish (pf_chunk p) v = (r, v')" for v v'
      using that upload_ends(2,3) by (auto intro: volume_step.put_ends)
  qed
next
  case (upload_cut i ps p qs)
  show ?thesis unfolding upload_cut(1)
  proof (rule storage_invI [where s = "sy_server x" and puts = "(sy_puts x)(i := ps @ qs)" and conns = "sy_conns x"])
    show "volume_reachable B (v, ((sy_puts x)(i := ps @ qs)) j) \<and> vm_volume_id (vd_meta (vo_db v)) = j"
      if "hm_get (ss_volumes (sy_server x)) j = Some v" for j v
      using storage_invD(1) [OF inv that] upload_cut(2) by (auto intro: volume_reachable.steps [OF _ volume_step.put_cut])
    show "\<exists>v. hm_get (ss_volumes (sy_server x)) j = Some v" if "((sy_puts x)(i := ps @ qs)) j \<noteq> []" for j
      using storage_invD(2) [OF inv, of j] that upload_cut(2) by (auto split: if_splits)
  qed (use storage_invD [OF inv] in simp_all)
next
  case (disconnects c)
  have "storage_inv B (x\<lparr> sy_server := sy_server x, sy_conns := (sy_conns x)(c := None) \<rparr>)"
    by (rule storage_inv_keeps [OF inv B skeep.step_refl]) (simp split: if_splits)
  then show ?thesis unfolding disconnects(1) by simp
next
  case (central_task s')
  show ?thesis unfolding central_task(1)
    by (rule storage_inv_rest [OF inv, of s']) (use central_task_keeps [OF central_task(2) inv] in auto)
next
  case (watches E endpoint w s')
  obtain w0 where "sy_watcher x = w0" by simp
  note K = watcher_turn_keeps [OF watches(4)]
  show ?thesis unfolding watches(1)
    by (rule storage_inv_rest [OF inv, of s']) (use K storage_invD [OF inv] in auto)
next
  case (syncs E r s')
  show ?thesis unfolding syncs(1) using storage_inv_keeps_server [OF inv B] st_relD [OF sync_all_keeps syncs(4)] by blast
next
  case (closes_idle busy now)
  show ?thesis unfolding closes_idle(1) using storage_inv_keeps_server [OF inv B close_idle_keeps] .
next
  case shuts_down
  show ?thesis unfolding shuts_down
    by (rule storage_inv_rest [OF inv]) (use storage_invD [OF inv] in \<open>simp_all add: central_connection_close_def\<close>)
qed

lemma storage_reachable_inv: "storage_reachable B x \<Longrightarrow> blake3_ok B \<Longrightarrow> storage_inv B x"
  by (induction rule: storage_reachable.induct) (auto intro: storage_inv_start storage_step_inv)

end
