(* ===== verification/Chunk_Store.thy ===== *)
theory Chunk_Store
  imports Volume_Safety
begin

text \<open>
  What the storage server relies on of a volume, as a contract: a store of chunks under their identifiers, to which
  putting adds, which never loses what it has, and which answers what was put. The volume satisfies the contract; and
  a put into a volume that has room, with an operating system that reports no error, succeeds.
\<close>

section \<open>The contract\<close>

text \<open>Putting a list of chunks one after another, stopping at the first error.\<close>

fun puts :: "(hash_id \<Rightarrow> u64 \<Rightarrow> u8 list \<Rightarrow> ('v, fs0_error, 'm) st) \<Rightarrow> (hash_id \<times> u64 \<times> u8 list) list \<Rightarrow> ('v, fs0_error, unit) st" where
  "puts put [] = st_return ()"
| "puts put ((i, raw, bytes) # cs) = st_bind (put i raw bytes) (\<lambda>_. puts put cs)"

definition wellformed :: "(hash_id \<times> u64 \<times> u8 list) list \<Rightarrow> bool" where
  "wellformed cs \<longleftrightarrow> list_all (\<lambda>(i, raw, bytes). hash_ok i \<and> length bytes < 2 ^ 63) cs"

locale chunk_store =
  fixes ok :: "'v \<Rightarrow> bool"
    and contents :: "'v \<Rightarrow> hash_id \<rightharpoonup> u64 \<times> u8 list"
    and put :: "hash_id \<Rightarrow> u64 \<Rightarrow> u8 list \<Rightarrow> ('v, fs0_error, 'm) st"
    and fetch :: "hash_id \<Rightarrow> ('v, fs0_error, 'm \<times> u8 list) st"
  assumes put_ok: "ok v \<Longrightarrow> hash_ok i \<Longrightarrow> length bytes < 2 ^ 63 \<Longrightarrow> put i raw bytes v = (r, v') \<Longrightarrow> ok v'"
    and put_keeps: "ok v \<Longrightarrow> hash_ok i \<Longrightarrow> length bytes < 2 ^ 63 \<Longrightarrow> put i raw bytes v = (r, v') \<Longrightarrow>
      j \<noteq> i \<or> contents v j \<noteq> None \<Longrightarrow> contents v' j = contents v j"
    and put_stores: "ok v \<Longrightarrow> hash_ok i \<Longrightarrow> length bytes < 2 ^ 63 \<Longrightarrow> put i raw bytes v = (Inr m, v') \<Longrightarrow>
      contents v i = None \<Longrightarrow> contents v' i = Some (raw, bytes)"
    and fetch_law: "ok v \<Longrightarrow> \<exists>r v'. fetch i v = (r, v') \<and> ok v' \<and> contents v' = contents v \<and>
      (case contents v i of None \<Rightarrow> r = Inl (ChunkNotFound i) | Some (raw, bytes) \<Rightarrow> \<exists>m. r = Inr (m, bytes))"
begin

lemma puts_spec:
  assumes "ok v" and "wellformed cs" and "puts put cs v = (Inr u, v')"
  shows "ok v' \<and> (\<forall>j. j \<notin> fst ` set cs \<or> contents v j \<noteq> None \<longrightarrow> contents v' j = contents v j) \<and>
    (distinct (map fst cs) \<longrightarrow> (\<forall>(i, x)\<in>set cs. contents v i = None \<longrightarrow> contents v' i = Some x))"
  using assms
proof (induction cs arbitrary: v)
  case (Cons c cs)
  obtain i raw bytes where c: "c = (i, raw, bytes)" by (cases c)
  from Cons.prems obtain m v1 where put: "put i raw bytes v = (Inr m, v1)" and rest: "puts put cs v1 = (Inr u, v')"
    by (auto simp: c st_bind_Inr_iff)
  have args: "hash_ok i" "length bytes < 2 ^ 63" "wellformed cs" using Cons.prems(2) by (simp_all add: c wellformed_def)
  note K = put_keeps [OF Cons.prems(1) args(1,2) put]
  note IH = Cons.IH [OF put_ok [OF Cons.prems(1) args(1,2) put] args(3) rest]
  show ?case
  proof (intro conjI allI impI)
    show "ok v'" using IH by blast
    show "contents v' j = contents v j" if "j \<notin> fst ` set (c # cs) \<or> contents v j \<noteq> None" for j
    proof -
      have "contents v1 j = contents v j" using that K [of j] by (auto simp: c)
      moreover have "j \<notin> fst ` set cs \<or> contents v1 j \<noteq> None" using that calculation by auto
      ultimately show ?thesis using IH by metis
    qed
    assume d: "distinct (map fst (c # cs))"
    show "\<forall>(i, x)\<in>set (c # cs). contents v i = None \<longrightarrow> contents v' i = Some x"
    proof (clarify)
      fix k raw' bytes' assume k: "(k, raw', bytes') \<in> set (c # cs)" and none: "contents v k = None"
      show "contents v' k = Some (raw', bytes')"
      proof (cases "k = i")
        case True
        then have "(k, raw', bytes') = c" using k d by (force simp: c image_iff)
        then have "contents v1 k = Some (raw', bytes')"
          using put_stores [OF Cons.prems(1) args(1,2) put] none by (simp add: c)
        then show ?thesis using IH by auto
      next
        case False
        then have "(k, raw', bytes') \<in> set cs" "contents v1 k = None" using k none K [of k] by (auto simp: c)
        then show ?thesis using IH d by auto
      qed
    qed
  qed
qed (simp add: wellformed_def)

text \<open>After the puts every chunk that was new is fetched as it was put.\<close>

lemma puts_fetch:
  assumes "ok v" and "wellformed cs" and "puts put cs v = (Inr u, v')" and "distinct (map fst cs)"
    and "(i, raw, bytes) \<in> set cs" and "contents v i = None"
  shows "\<exists>m v''. fetch i v' = (Inr (m, bytes), v'')"
proof -
  have "ok v'" "contents v' i = Some (raw, bytes)" using puts_spec [OF assms(1-3)] assms(4-6) by auto
  with fetch_law [of v' i] show ?thesis by auto
qed

end

section \<open>A volume is a chunk store\<close>

definition volume_contents :: "volume \<Rightarrow> hash_id \<rightharpoonup> u64 \<times> u8 list" where
  "volume_contents v i = map_option (\<lambda>c. (cm_raw_len c, chunk_data (vo_files v) c)) (chunk_row (vd_conn (vo_db v)) i)"

lemma put_chunk_rows:
  assumes inv: "volume_inv B (v, [])" and B: "blake3_ok B" and args: "hash_ok i" "length bytes < 2 ^ 63"
    and res: "put_chunk B now E i raw bytes v = (r, v')"
  shows "(\<exists>cs. vt_chunks (vd_conn (vo_db v')) = vt_chunks (vd_conn (vo_db v)) @ cs \<and> (\<forall>c\<in>set cs. cm_chunk_id c = i)) \<and>
    (\<forall>c\<in>set (vt_chunks (vd_conn (vo_db v))). chunk_data (vo_files v') c = chunk_data (vo_files v) c)"
proof -
  have ok: "vdb_ok (vo_db v)" using inv by (simp add: volume_inv_unfold)
  obtain r1 v1 where b: "put_begin B now i raw bytes v = (r1, v1)" by force
  note P = put_begin_spec [OF ok args(2) b]
  show ?thesis
  proof (cases "\<exists>d. r1 = Inr (Insert d)")
    case False
    then have "v' = v" using P res b
      by (cases r1) (auto simp: put_chunk_def split: put_plan.splits)
    then show ?thesis by simp
  next
    case True
    then obtain d where d: "r1 = Inr (Insert d)" by blast
    let ?p = "\<lparr> pf_chunk = d, pf_bytes = bytes, pf_written = False \<rparr>"
    have inv1: "volume_inv B (v1, [] @ ?p # [])" using volume_inv_put_starts [OF inv b [unfolded d] args] by simp
    have P1: "vt_chunks (vd_conn (vo_db v1)) = vt_chunks (vd_conn (vo_db v))" "cm_chunk_id d = i" and v1: "v1 = v\<lparr> vo_db := vo_db v1 \<rparr>"
      using P d by auto
    have files1: "vo_files v1 = vo_files v" by (subst v1) simp
    obtain r2 v2 where w: "write_compressed_bytes E (cm_volume_offset d) bytes v1 = (r2, v2)" by force
    have "write_compressed_bytes E (cm_volume_offset (pf_chunk ?p)) (pf_bytes ?p) v1 = (r2, v2)" using w by simp
    note F = write_chunk_frame [OF inv1 this]
    show ?thesis
    proof (cases r2)
      case (Inl e)
      then have "v' = v2" using res b d w by (auto simp: put_chunk_def)
      then show ?thesis using F(1,5) P1(1) files1 by simp
    next
      case (Inr u)
      have fin: "put_finish d v2 = (r, v')" using res b d w Inr by (simp add: put_chunk_def)
      have files': "vo_files v' = vo_files v2" using fin by (simp add: put_finish_def with_vdb_files)
      obtain r3 s3 where ins: "insert_chunk d (vo_db v2) = (r3, s3)" by force
      have "vo_db v' = s3"
        using fin ins by (cases r3) (auto simp: put_finish_def with_vdb_def load_chunk_def split: option.splits)
      moreover have "\<exists>cs. vt_chunks (vd_conn s3) = vt_chunks (vd_conn (vo_db v2)) @ cs \<and> (\<forall>c\<in>set cs. cm_chunk_id c = i)"
      proof (cases "fits_i64 (cm_raw_len d)")
        case True
        have "chunk_ok d" using put_chunk_ok [OF inv1, of ?p] B True by simp
        from insert_chunk_spec [OF _ this ins] ok P d F(1) P1(2) show ?thesis by auto
      next
        case False
        from insert_chunk_unfit [OF False ins] show ?thesis by auto
      qed
      ultimately show ?thesis using F(1,5) P1(1) files1 files' by auto
    qed
  qed
qed

definition serving :: "'h blake3 \<Rightarrow> disk_env \<Rightarrow> volume \<Rightarrow> bool" where
  "serving B E v \<longleftrightarrow> volume_inv B (v, []) \<and> blake3_ok B \<and> de_open E = None \<and> io_fair (de_io E)"

lemma volume_contents_put:
  assumes inv: "serving B E v" and args: "hash_ok i" "length bytes < 2 ^ 63"
    and res: "put_chunk B now E i raw bytes v = (r, v')" and j: "j \<noteq> i \<or> volume_contents v j \<noteq> None"
  shows "volume_contents v' j = volume_contents v j"
proof -
  have "volume_inv B (v, [])" "blake3_ok B" using inv by (simp_all add: serving_def)
  from put_chunk_rows [OF this args res] obtain cs
    where cs: "vt_chunks (vd_conn (vo_db v')) = vt_chunks (vd_conn (vo_db v)) @ cs" "\<forall>c\<in>set cs. cm_chunk_id c = i"
      and same: "\<forall>c\<in>set (vt_chunks (vd_conn (vo_db v))). chunk_data (vo_files v') c = chunk_data (vo_files v) c" by blast
  show ?thesis
  proof (cases "chunk_row (vd_conn (vo_db v)) j")
    case None
    then have "j \<noteq> i" using j by (auto simp: volume_contents_def)
    then have "find (\<lambda>c. cm_chunk_id c = j) cs = None" using cs(2) by (auto simp: find_None_iff)
    then have "chunk_row (vd_conn (vo_db v')) j = None" using None cs(1) by (simp add: chunk_row_def find_append)
    with None show ?thesis by (simp add: volume_contents_def)
  next
    case (Some c)
    then have "chunk_row (vd_conn (vo_db v')) j = Some c" using cs(1) by (simp add: chunk_row_def find_append)
    with Some same chunk_row_SomeD [OF Some] show ?thesis by (simp add: volume_contents_def)
  qed
qed

interpretation vcs: chunk_store "serving B E" volume_contents "put_chunk B now E" "read_chunk E"
proof
  fix v i bytes raw r v'
  assume "serving B E v" "hash_ok i" "length bytes < 2 ^ 63" "put_chunk B now E i raw bytes v = (r, v')"
  then show "serving B E v'" using put_chunk_spec(1) [of B v "[]" i bytes now E raw r v'] by (simp add: serving_def)
next
  fix v i bytes raw m v'
  assume "serving B E v" "hash_ok i" "length bytes < 2 ^ 63" "put_chunk B now E i raw bytes v = (Inr m, v')" "volume_contents v i = None"
  then show "volume_contents v' i = Some (raw, bytes)"
    using put_chunk_spec(2) [of B v "[]" i bytes now E raw "Inr m" v' m] by (simp add: serving_def volume_contents_def)
next
  fix v i
  assume s: "serving B E v"
  then have inv: "volume_inv B (v, [])" and os: "de_open E = None" "io_fair (de_io E)" by (simp_all add: serving_def)
  obtain r v' where res: "read_chunk E i v = (r, v')" by force
  note R = volume_inv_reads [OF inv res]
  have "volume_contents v' = volume_contents v" using R(2,4) by (simp add: volume_contents_def fun_eq_iff)
  moreover have "serving B E v'" using s R(1) by (simp add: serving_def)
  moreover have "case volume_contents v i of None \<Rightarrow> r = Inl (ChunkNotFound i) | Some (raw, bytes) \<Rightarrow> \<exists>m. r = Inr (m, bytes)"
  proof (cases "chunk_row (vd_conn (vo_db v)) i")
    case None
    then show ?thesis using res by (auto simp: volume_contents_def read_chunk_def with_vdb_def load_chunk_def)
  next
    case (Some c)
    with read_chunk_succeeds [OF inv Some os] res show ?thesis by (auto simp: volume_contents_def)
  qed
  ultimately show "\<exists>r v'. read_chunk E i v = (r, v') \<and> serving B E v' \<and> volume_contents v' = volume_contents v \<and>
      (case volume_contents v i of None \<Rightarrow> r = Inl (ChunkNotFound i) | Some (raw, bytes) \<Rightarrow> \<exists>m. r = Inr (m, bytes))"
    using res by blast
qed (rule volume_contents_put)

section \<open>Puts that have room succeed\<close>

lemma reserve_active_succeeds:
  assumes "vdb_ok s" and "fits_i64 off" and "fits_i64 now"
  shows "\<exists>m s'. reserve_active_volume_offset off now s = (Inr m, s')"
proof -
  define m where "m = (vd_meta s)\<lparr> vm_active_volume_offset := max (vm_active_volume_offset (vd_meta s)) off, vm_updated_at_ms := now \<rparr>"
  have "meta_ok m" using assms by (auto simp: m_def vdb_ok_def meta_ok_def max_def)
  then have "load_meta_from_conn ((vd_conn s)\<lparr> vt_meta := Some m \<rparr>) = Inr m" by (intro load_meta_ok) simp_all
  moreover have "vt_meta (vd_conn s) = Some (vd_meta s)" "sql_max2 (vm_active_volume_offset (vd_meta s)) off = max (vm_active_volume_offset (vd_meta s)) off"
    using assms by (auto simp: vdb_ok_def meta_ok_def sql_max2_fits)
  ultimately show ?thesis
    using assms(2,3) by (simp add: reserve_active_volume_offset_def update_conn_def m_def u64_to_i64_Inr_iff [THEN iffD2])
qed

text \<open>There is room for a chunk when its place ends within the volume.\<close>

definition has_room :: "volume \<Rightarrow> nat \<Rightarrow> bool" where
  "has_room v n \<longleftrightarrow> (let m = vd_meta (vo_db v) in
     unat (place_chunk (vm_active_volume_offset m) (of_nat n)) + n \<le> unat (vm_max_bytes m))"

lemma put_begin_succeeds:
  assumes ok: "vdb_ok (vo_db v)" and raw: "raw \<noteq> 0" and bytes: "bytes \<noteq> []" "length bytes \<le> 2 ^ 32"
    and new: "chunk_row (vd_conn (vo_db v)) i = None" and now: "fits_i64 now" and room: "has_room v (length bytes)"
  shows "\<exists>c v'. put_begin B now i raw bytes v = (Inr (Insert c), v')"
proof -
  let ?m = "vd_meta (vo_db v)" and ?len = "of_nat (length bytes) :: u64"
  let ?off = "place_chunk (vm_active_volume_offset ?m) ?len"
  have len: "unat ?len = length bytes" using bytes(2) by (simp add: unat_of_nat take_bit_eq_mod)
  have max: "fits_i64 (vm_max_bytes ?m)" using ok by (simp add: vdb_ok_def meta_ok_def)
  have le: "unat ?off + unat ?len \<le> unat (vm_max_bytes ?m)" using room len by (simp add: has_room_def Let_def)
  then have lt: "unat ?off + unat ?len < 2 ^ 64" using max by (simp add: fits_i64_def)
  then have add: "checked_add ?off ?len = Some (?off + ?len)" "unat (?off + ?len) = unat ?off + unat ?len"
    by (simp_all add: checked_add_def unat_add_no_overflow)
  have fits: "fits_i64 (?off + ?len)" "\<not> vm_max_bytes ?m < ?off + ?len"
    using le max by (simp_all add: fits_i64_def word_less_nat_alt add(2))
  obtain m s where "reserve_active_volume_offset (?off + ?len) now (vo_db v) = (Inr m, s)"
    using reserve_active_succeeds [OF ok fits(1) now] by blast
  moreover have "put_chunk_check raw bytes = Inr ()"
    using raw bytes len by (simp add: put_chunk_check_def Let_def word_less_nat_alt unat_data_file_size)
  ultimately show ?thesis
    using new add(1) fits(2)
    by (simp add: put_begin_def with_vdb_def plan_chunk_def load_chunk_spec [OF ok] reserve_chunk_def Let_def)
qed

text \<open>The calls to the operating system report no error.\<close>

definition disk_works :: "disk_env \<Rightarrow> bool" where
  "disk_works E \<longleftrightarrow> de_open E = None \<and> de_prealloc E = None \<and> de_sync E = None \<and> io_fair (de_io E)"

lemma put_chunk_succeeds:
  assumes inv: "volume_inv B (v, [])" and B: "blake3_ok B" and args: "hash_ok i" "raw \<noteq> 0" "fits_i64 raw" "bytes \<noteq> []" "length bytes \<le> 2 ^ 32"
    and new: "chunk_row (vd_conn (vo_db v)) i = None" and now: "fits_i64 now" and room: "has_room v (length bytes)"
    and disk: "disk_works E"
  shows "\<exists>c v'. put_chunk B now E i raw bytes v = (Inr c, v')"
proof -
  have ok: "vdb_ok (vo_db v)" using inv by (simp add: volume_inv_unfold)
  obtain c v1 where b: "put_begin B now i raw bytes v = (Inr (Insert c), v1)"
    using put_begin_succeeds [OF ok args(2,4,5) new now room] by blast
  have len: "length bytes < 2 ^ 63" using args(5) by simp
  let ?p = "\<lparr> pf_chunk = c, pf_bytes = bytes, pf_written = False \<rparr>"
  have inv1: "volume_inv B (v1, [] @ ?p # [])" using volume_inv_put_starts [OF inv b args(1) len] by simp
  have raw: "cm_raw_len c = raw" using put_begin_spec [OF ok len b] by auto
  have "placed (vd_meta (vo_db v1)) c" "vm_active_volume_offset (vd_meta (vo_db v1)) \<le> vm_max_bytes (vd_meta (vo_db v1))"
    using inv1 by (simp_all add: volume_inv_unfold)
  from placed_slot [OF this] inv1
  have "unat (cm_volume_offset c div VOLUME_DEFAULT_DATA_FILE_SIZE) < length (dc_slots (vo_files v1))"
    by (simp add: volume_inv_unfold unat_place)
  then have "fst (cache_write_at E (cm_volume_offset c div VOLUME_DEFAULT_DATA_FILE_SIZE)
      (cm_volume_offset c mod VOLUME_DEFAULT_DATA_FILE_SIZE) bytes (vo_files v1)) = Inr ()"
    using disk by (intro cache_write_at_succeeds) (simp_all add: disk_works_def)
  then obtain v2 where w: "write_compressed_bytes E (cm_volume_offset c) bytes v1 = (Inr (), v2)"
    by (simp add: write_compressed_bytes_def with_files_def case_prod_beta)
  have "write_compressed_bytes E (cm_volume_offset (pf_chunk ?p)) (pf_bytes ?p) v1 = (Inr (), v2)" using w by simp
  from write_chunk_frame(1) [OF inv1 this] have db2: "vo_db v2 = vo_db v1" .
  have "vdb_ok (vo_db v2)" using inv1 db2 by (simp add: volume_inv_unfold)
  moreover have cok: "chunk_ok c" using put_chunk_ok [OF inv1, of ?p] B args(3) raw by simp
  moreover obtain r s where ins: "insert_chunk c (vo_db v2) = (r, s)" by force
  ultimately have S: "r = Inr ()" "vdb_ok s" "chunk_row (vd_conn s) (cm_chunk_id c) \<noteq> None"
    using insert_chunk_spec [of "vo_db v2" c r s] by (auto simp: chunk_row_def find_append split: option.splits if_splits)
  then obtain d where "load_chunk (cm_chunk_id c) s = (Inr d, s)" using load_chunk_spec [of s "cm_chunk_id c"] by auto
  then have "\<exists>d v'. put_finish c v2 = (Inr d, v')" using ins S(1) by (simp add: put_finish_def with_vdb_def)
  then show ?thesis using b w by (simp add: put_chunk_def)
qed

section \<open>Bundles\<close>

lemma load_bundle_Inr:
  assumes "load_bundle b s = (Inr m, s')"
  shows "s' = s \<and> b \<in> bc_bundle_id ` set (vt_bundle_chunks (vd_conn s))"
  using assms by (auto simp: load_bundle_def Let_def joined_chunks_def image_iff filter_empty_conv List.map_filter_def split: if_splits)

lemma commit_bundle_known:
  assumes "commit_bundle B e b cs v = (Inr m, v')"
  shows "cs \<noteq> [] \<and> b \<in> bc_bundle_id ` set (vt_bundle_chunks (vd_conn (vo_db v')))"
proof -
  from assms have chk: "cs \<noteq> []" by (auto simp: commit_bundle_def st_bind_Inr_iff commit_bundle_check_ok)
  have "\<exists>s. load_bundle b s = (Inr m, vo_db v')"
    using assms
    by (auto simp: commit_bundle_def with_vdb_eq st_bind_Inr_iff db_commit_bundle_def split: prod.splits sum.splits fs0_error.splits)
  with chk load_bundle_Inr show ?thesis by metis
qed

text \<open>Listing a bundle that was committed answers a list of chunks that hashes to the identifier of the bundle, and the
  very list that was committed when the bundle was new.\<close>

lemma commit_then_list:
  assumes inv: "volume_inv B (v, ps)" and res: "commit_bundle B e b cs v = (Inr m, v')"
  shows "\<exists>ds. list_bundle_chunks b v' = (Inr ds, v') \<and> contiguous ds \<and> bundle_hash_from_chunks B ds = b \<and>
    (b \<notin> bc_bundle_id ` set (vt_bundle_chunks (vd_conn (vo_db v))) \<longrightarrow> ds = cs)"
proof -
  let ?t = "vd_conn (vo_db v)" and ?t' = "vd_conn (vo_db v')"
  have ok': "vdb_ok (vo_db v')" "bundles_ok B ?t'" using volume_inv_commits [OF inv res] by (simp_all add: volume_inv_unfold)
  note K = commit_bundle_known [OF res]
  then have "filter (\<lambda>r. bc_bundle_id r = b) (vt_bundle_chunks ?t') \<noteq> []" by (auto simp: filter_empty_conv)
  moreover have "length (links_of b ?t') = length (filter (\<lambda>r. bc_bundle_id r = b) (vt_bundle_chunks ?t'))"
    by (simp add: links_of_def)
  ultimately have links: "links_of b ?t' \<noteq> []" by fastforce
  have "vdb_ok (vo_db v)" using inv by (simp add: volume_inv_unfold)
  from commit_bundle_spec [OF this res] K have "b \<notin> bc_bundle_id ` set (vt_bundle_chunks ?t) \<longrightarrow> links_of b ?t' = cs"
    using links_of_committed [of ?t' b "vt_bundle_chunks ?t" cs] by auto
  moreover have "contiguous (links_of b ?t') \<and> bundle_hash_from_chunks B (links_of b ?t') = b"
    using ok'(2) K unfolding bundles_ok_def by blast
  ultimately show ?thesis using links by (simp add: list_bundle_chunks_spec [OF ok'(1)] Let_def)
qed

end
