(* ===== verification/Storage_Properties.thy ===== *)
theory Storage_Properties
  imports Storage_System Chunk_Store
begin

text \<open>
  The properties of a volume (\<open>crates/fs0-volume/src\<close>) and of the storage server over it
  (\<open>crates/fs0-storage/src\<close>), with a freshly initialised volume of 8 GiB, a hash that pads or cuts its input to 32
  bytes and an operating system that transfers at most 4 bytes in a call as the concrete instance.
\<close>

section \<open>Concrete states\<close>

definition sample_blake3 :: "u8 list blake3" where
  "sample_blake3 = \<lparr> b3_hash = (\<lambda>bs. take 32 (bs @ replicate 32 0)), b3_new = [], b3_update = (\<lambda>p h. h @ p),
     b3_finalize = (\<lambda>h. take 32 (h @ replicate 32 0)) \<rparr>"

lemma sample_blake3_ok: "blake3_ok sample_blake3"
proof -
  have "fold (\<lambda>p h. h @ p) ps acc = acc @ concat ps" for ps :: "u8 list list" and acc
    by (induction ps arbitrary: acc) auto
  then show ?thesis by (auto simp: blake3_ok_def sample_blake3_def min_def)
qed

definition sample_disk :: disk_env where
  "sample_disk = \<lparr> de_now = 5, de_open = None, de_prealloc = None, de_io = (\<lambda>_. Inr 4), de_sync = None \<rparr>"

lemma sample_disk_works: "disk_works sample_disk" "de_open sample_disk = None" "io_fair (de_io sample_disk)"
  by (simp_all add: disk_works_def sample_disk_def io_fair_def)

definition sample_dir :: volume_dir where
  "sample_dir = snd (init_volume_id ''r'' 1 9 (snd (init_fs ''r'' None 1 (8 * 1024 * 1024 * 1024) \<lparr> vr_db = None, vr_files = Map.empty \<rparr>)))"

definition sample_vol :: volume where
  "sample_vol = projr (volume_open ''r'' sample_dir)"

definition sample_chunk :: hash_id where
  "sample_chunk = blake3_hash sample_blake3 [1, 2, 3]"

lemma sample_init:
  "fst (init_fs ''r'' None 1 (8 * 1024 * 1024 * 1024) \<lparr> vr_db = None, vr_files = Map.empty \<rparr>) = Inr ()"
  "\<not> isl (fst (init_volume_id ''r'' 1 9 (snd (init_fs ''r'' None 1 (8 * 1024 * 1024 * 1024) \<lparr> vr_db = None, vr_files = Map.empty \<rparr>))))"
  "\<not> isl (volume_open ''r'' sample_dir)"
  by code_simp+

lemma sample_reachable: "volume_reachable sample_blake3 (sample_vol, [])"
proof (rule volume_reachable.fresh)
  show "init_fs ''r'' None 1 (8 * 1024 * 1024 * 1024) \<lparr> vr_db = None, vr_files = Map.empty \<rparr> =
      (Inr (), snd (init_fs ''r'' None 1 (8 * 1024 * 1024 * 1024) \<lparr> vr_db = None, vr_files = Map.empty \<rparr>))"
    using sample_init(1) by (metis prod.collapse)
  show "init_volume_id ''r'' 1 9 (snd (init_fs ''r'' None 1 (8 * 1024 * 1024 * 1024) \<lparr> vr_db = None, vr_files = Map.empty \<rparr>)) =
      (Inr (projr (fst (init_volume_id ''r'' 1 9 (snd (init_fs ''r'' None 1 (8 * 1024 * 1024 * 1024) \<lparr> vr_db = None, vr_files = Map.empty \<rparr>))))), sample_dir)"
    unfolding sample_dir_def using sample_init(2) by (metis prod.collapse sum.collapse(2))
  show "volume_open ''r'' sample_dir = Inr sample_vol" unfolding sample_vol_def using sample_init(3) by simp
qed

lemma sample_vol_inv: "volume_inv sample_blake3 (sample_vol, [])"
  using sample_reachable sample_blake3_ok by (rule volume_reachable_inv)

lemma sample_vol_meta: "vm_active_volume_offset (vd_meta (vo_db sample_vol)) = 0"
    "vm_max_bytes (vd_meta (vo_db sample_vol)) = 8 * 1024 * 1024 * 1024" "vm_volume_id (vd_meta (vo_db sample_vol)) = 9"
    "vt_chunks (vd_conn (vo_db sample_vol)) = []" "vt_bundle_chunks (vd_conn (vo_db sample_vol)) = []" "hash_ok sample_chunk"
  by code_simp+

lemma sample_room: "has_room sample_vol (Suc (Suc (Suc 0)))"
  by (simp add: has_room_def sample_vol_meta place_chunk_def VOLUME_DEFAULT_DATA_FILE_SIZE_def)

lemma sample_new: "chunk_row (vd_conn (vo_db sample_vol)) i = None"
  by (simp add: chunk_row_def sample_vol_meta)

lemma sample_put:
  obtains c v' where "put_chunk sample_blake3 7 sample_disk sample_chunk 3 [9, 8, 7] sample_vol = (Inr c, v')"
  using put_chunk_succeeds [OF sample_vol_inv sample_blake3_ok sample_vol_meta(6), of 3 "[9, 8, 7]" 7 sample_disk]
  by (auto simp: sample_new sample_room sample_disk_works fits_i64_def)

definition sample_meta :: volume_meta where
  "sample_meta = \<lparr> vm_volume_id = 9, vm_format_version = 1, vm_max_bytes = 8589934592, vm_active_volume_offset = 3,
     vm_created_at_ms = 1, vm_updated_at_ms = 7 \<rparr>"

definition sample_row :: chunk_meta where
  "sample_row = \<lparr> cm_chunk_id = sample_chunk, cm_compressed_hash = blake3_hash sample_blake3 [9, 8, 7], cm_volume_offset = 0,
     cm_raw_len = 3, cm_compressed_len = 3 \<rparr>"

definition sample_planned_db :: volume_db where
  "sample_planned_db = \<lparr> vd_conn = \<lparr> vt_meta = Some sample_meta, vt_chunks = [], vt_bundle_chunks = [], vt_changes = [],
     vt_changes_seq = 0 \<rparr>, vd_meta = sample_meta \<rparr>"

definition sample_put_db :: volume_db where
  "sample_put_db = sample_planned_db\<lparr> vd_conn := (vd_conn sample_planned_db)\<lparr> vt_chunks := [sample_row] \<rparr> \<rparr>"

lemma sample_planned: "fst (put_begin sample_blake3 7 sample_chunk 3 [9, 8, 7] sample_vol) = Inr (Insert sample_row)"
    "vo_db (snd (put_begin sample_blake3 7 sample_chunk 3 [9, 8, 7] sample_vol)) = sample_planned_db"
    "st_bind (insert_chunk sample_row) (\<lambda>_. load_chunk (cm_chunk_id sample_row)) sample_planned_db = (Inr sample_row, sample_put_db)"
  by code_simp+

lemma sample_put_run:
  obtains v' where "put_chunk sample_blake3 7 sample_disk sample_chunk 3 [9, 8, 7] sample_vol = (Inr sample_row, v')"
    and "vo_db v' = sample_put_db"
proof -
  obtain c v' where put: "put_chunk sample_blake3 7 sample_disk sample_chunk 3 [9, 8, 7] sample_vol = (Inr c, v')" by (rule sample_put)
  have b: "put_begin sample_blake3 7 sample_chunk 3 [9, 8, 7] sample_vol =
      (Inr (Insert sample_row), snd (put_begin sample_blake3 7 sample_chunk 3 [9, 8, 7] sample_vol))"
    using sample_planned(1) by (metis prod.collapse)
  from put b obtain v2 where w: "write_compressed_bytes sample_disk 0 [9, 8, 7]
      (snd (put_begin sample_blake3 7 sample_chunk 3 [9, 8, 7] sample_vol)) = (Inr (), v2)" and fin: "put_finish sample_row v2 = (Inr c, v')"
    by (auto simp: put_chunk_def st_bind_Inr_iff sample_row_def)
  from w have "vo_db v2 = sample_planned_db"
    using sample_planned(2) by (auto simp: write_compressed_bytes_def with_files_def split: prod.splits)
  with fin sample_planned(3) have "c = sample_row" "vo_db v' = sample_put_db" by (auto simp: put_finish_def with_vdb_def)
  with put that show ?thesis by simp
qed

definition sample_refs :: "bundle_chunk_ref list" where
  "sample_refs = [\<lparr> bcr_chunk_index = 0, bcr_chunk_id = sample_chunk \<rparr>]"

lemma sample_committed: "\<not> isl (fst (commit_bundle sample_blake3 None (bundle_hash_from_chunks sample_blake3 sample_refs) sample_refs
    (sample_vol\<lparr> vo_db := sample_put_db \<rparr>)))"
  by code_simp

lemma commit_bundle_db: "fst (commit_bundle B e b cs v) = fst (commit_bundle B e b cs (w\<lparr> vo_db := vo_db v \<rparr>))"
  by (cases "commit_bundle_check B b cs") (simp_all add: commit_bundle_def with_vdb_def split: prod.splits)

section \<open>Volumes\<close>

text \<open>C3: in every state that a volume can reach, by puts that overlap in any order and may fail or be cut off, reads,
  deletions, commits of bundles and restarts, the regions of the recorded chunks and of the puts in flight do not
  overlap and lie below the active offset and within the volume, every recorded chunk has its bytes on disk with the
  recorded hash, and every recorded bundle hashes to its identifier.\<close>

theorem volume_always_consistent:
  assumes "volume_reachable B (v, ps)" and "blake3_ok B"
  shows "regions_apart (vt_chunks (vd_conn (vo_db v)) @ map pf_chunk ps) \<and>
    (\<forall>c\<in>set (vt_chunks (vd_conn (vo_db v)) @ map pf_chunk ps). placed (vd_meta (vo_db v)) c) \<and>
    vm_active_volume_offset (vd_meta (vo_db v)) \<le> vm_max_bytes (vd_meta (vo_db v)) \<and>
    (\<forall>c\<in>set (vt_chunks (vd_conn (vo_db v))).
       blake3_hash B (chunk_data (vo_files v) c) = cm_compressed_hash c \<and> on_disk (vo_files v) c) \<and>
    bundles_ok B (vd_conn (vo_db v))"
  using volume_reachable_inv [OF assms] by (simp add: volume_inv_unfold)

theorem volume_always_consistent_witness:
  "\<exists>v' c. put_chunk sample_blake3 7 sample_disk sample_chunk 3 [9, 8, 7] sample_vol = (Inr c, v') \<and>
     bundles_ok sample_blake3 (vd_conn (vo_db sample_vol)) \<and> volume_inv sample_blake3 (v', [])"
proof -
  obtain c v' where "put_chunk sample_blake3 7 sample_disk sample_chunk 3 [9, 8, 7] sample_vol = (Inr c, v')" by (rule sample_put)
  moreover from put_chunk_spec(1) [OF sample_vol_inv sample_blake3_ok sample_vol_meta(6) _ this]
  have "volume_inv sample_blake3 (v', [])" by simp
  ultimately show ?thesis using volume_always_consistent [OF sample_reachable sample_blake3_ok] by blast
qed

text \<open>C6: a put into a volume with room, of a chunk that is not there, succeeds when the operating system reports no
  error; and reading the chunk back, also when every call transfers only part, answers the bytes that were put.\<close>

theorem put_then_read:
  assumes "volume_inv B (v, [])" and "blake3_ok B" and "hash_ok i" and "raw \<noteq> 0" and "fits_i64 raw"
    and "bytes \<noteq> []" and "length bytes \<le> 2 ^ 32" and "chunk_row (vd_conn (vo_db v)) i = None" and "fits_i64 now"
    and "has_room v (length bytes)" and "disk_works E"
  shows "\<exists>c v'. put_chunk B now E i raw bytes v = (Inr c, v') \<and> cm_raw_len c = raw \<and>
    (\<exists>v''. read_chunk E i v' = (Inr (c, bytes), v''))"
proof -
  obtain c v' where put: "put_chunk B now E i raw bytes v = (Inr c, v')" using put_chunk_succeeds [OF assms] by blast
  have len: "length bytes < 2 ^ 63" using assms(7) by simp
  have inv': "volume_inv B (v', [])" by (rule put_chunk_spec(1) [OF assms(1-3) len put])
  have c: "chunk_row (vd_conn (vo_db v')) i = Some c" "cm_raw_len c = raw" "chunk_data (vo_files v') c = bytes"
    using put_chunk_spec(2) [OF assms(1-3) len put refl] assms(8) by blast+
  have "de_open E = None" "io_fair (de_io E)" using assms(11) by (simp_all add: disk_works_def)
  from read_chunk_succeeds [OF inv' c(1) this] put c show ?thesis by auto
qed

theorem put_then_read_witness:
  "\<exists>c v'. put_chunk sample_blake3 7 sample_disk sample_chunk 3 [9, 8, 7] sample_vol = (Inr c, v') \<and>
     (\<exists>v''. read_chunk sample_disk sample_chunk v' = (Inr (c, [9, 8, 7]), v''))"
  using put_then_read [OF sample_vol_inv sample_blake3_ok sample_vol_meta(6), of 3 "[9, 8, 7]" 7 sample_disk]
  by (auto simp: sample_new sample_room sample_disk_works fits_i64_def)

text \<open>C7: a chunk is never lost: each step of a volume, whichever chunk or bundle it is about and also when it fails or
  is a restart, leaves the record and the bytes of a chunk as they are, unless the step deletes that very chunk.\<close>

theorem chunks_are_kept:
  assumes "volume_reachable B s" and "blake3_ok B" and "volume_step B s s'"
  shows "chunk_kept i (fst s) (fst s') \<or> (\<exists>u. delete_chunk i (fst s) = (Inr u, fst s'))"
  using volume_step_keeps [OF assms(3) volume_reachable_inv [OF assms(1,2)] assms(2)] .

theorem chunks_are_kept_witness:
  "chunk_kept sample_chunk sample_vol (close_idle_data_files {} 100 sample_vol) \<or>
     (\<exists>u. delete_chunk sample_chunk sample_vol = (Inr u, close_idle_data_files {} 100 sample_vol))"
  using chunks_are_kept [OF sample_reachable sample_blake3_ok volume_step.closes_idle] by simp

text \<open>C13: puts of several new chunks under different identifiers that all succeed leave every one of them to be read
  back as it was put, and every chunk that was there before unchanged: the volume is a chunk store.\<close>

theorem puts_then_reads:
  assumes "serving B E v" and "wellformed cs" and "puts (put_chunk B now E) cs v = (Inr u, v')"
    and "distinct (map fst cs)" and "(i, raw, bytes) \<in> set cs" and "volume_contents v i = None"
  shows "(\<exists>m v''. read_chunk E i v' = (Inr (m, bytes), v'')) \<and>
    (\<forall>j. volume_contents v j \<noteq> None \<longrightarrow> volume_contents v' j = volume_contents v j)"
  using vcs.puts_fetch [OF assms] vcs.puts_spec [OF assms(1-3)] by blast

theorem puts_then_reads_witness:
  "\<exists>u v'. puts (put_chunk sample_blake3 7 sample_disk) [(sample_chunk, 3, [9, 8, 7])] sample_vol = (Inr u, v') \<and>
     (\<exists>m v''. read_chunk sample_disk sample_chunk v' = (Inr (m, [9, 8, 7]), v''))"
proof -
  obtain c v' where put: "put_chunk sample_blake3 7 sample_disk sample_chunk 3 [9, 8, 7] sample_vol = (Inr c, v')" by (rule sample_put)
  then have run: "puts (put_chunk sample_blake3 7 sample_disk) [(sample_chunk, 3, [9, 8, 7])] sample_vol = (Inr (), v')" by simp
  have "serving sample_blake3 sample_disk sample_vol"
    by (simp add: serving_def sample_vol_inv sample_blake3_ok sample_disk_works)
  from puts_then_reads [OF this _ run, of sample_chunk 3 "[9, 8, 7]"] show ?thesis
    using run by (auto simp: wellformed_def sample_vol_meta volume_contents_def sample_new)
qed

text \<open>C28: committing a bundle and listing it. After a successful commit the bundle lists a sequence of chunks numbered
  from 0 that hashes to its identifier, and exactly the committed sequence when the bundle was new.\<close>

theorem commit_bundle_then_list:
  assumes "volume_inv B (v, ps)" and "commit_bundle B e b cs v = (Inr m, v')"
  shows "\<exists>ds. list_bundle_chunks b v' = (Inr ds, v') \<and> contiguous ds \<and> bundle_hash_from_chunks B ds = b \<and>
    (b \<notin> bc_bundle_id ` set (vt_bundle_chunks (vd_conn (vo_db v))) \<longrightarrow> ds = cs)"
  using assms by (rule commit_then_list)


theorem commit_bundle_then_list_witness:
  "\<exists>v v'. volume_inv sample_blake3 (v, []) \<and>
     list_bundle_chunks (bundle_hash_from_chunks sample_blake3 sample_refs) v' = (Inr sample_refs, v')"
proof -
  let ?b = "bundle_hash_from_chunks sample_blake3 sample_refs"
  obtain v where put: "put_chunk sample_blake3 7 sample_disk sample_chunk 3 [9, 8, 7] sample_vol = (Inr sample_row, v)"
    and db: "vo_db v = sample_put_db" by (rule sample_put_run)
  have inv: "volume_inv sample_blake3 (v, [])"
    by (rule put_chunk_spec(1) [OF sample_vol_inv sample_blake3_ok sample_vol_meta(6) _ put]) simp
  have "\<not> isl (fst (commit_bundle sample_blake3 None ?b sample_refs v))"
    using sample_committed commit_bundle_db [of sample_blake3 None ?b sample_refs v sample_vol] by (simp add: db)
  then obtain m v' where "commit_bundle sample_blake3 None ?b sample_refs v = (Inr m, v')"
    by (metis prod.collapse sum.collapse(2))
  from commit_bundle_then_list [OF inv this] show ?thesis
    using inv by (auto simp: db sample_put_db_def sample_planned_db_def)
qed

text \<open>C29: reading and writing at an offset, which the code does by looping over system calls that may transfer less
  than asked, does what a single call that transfers everything would do: a read answers the whole range, or fails
  when the range reaches beyond the file, and a write replaces exactly the range.\<close>

theorem partial_transfers_add_up:
  assumes "io_fair io"
  shows "read_at io f off n =
      (if n = 0 \<or> off + n \<le> df_len f then Inr (file_slice f off n) else Inl (Io ''failed to fill whole buffer'')) \<and>
    write_at io f off buf = (Inr (), patch f off buf)"
  using read_at_fair [OF assms] write_at_fair [OF assms] by blast

theorem partial_transfers_add_up_witness:
  "read_at (\<lambda>_. Inr 2) (patch empty_file 1 [7, 8, 9]) 0 4 = Inr [0, 7, 8, 9]"
  using partial_transfers_add_up [of "\<lambda>_. Inr 2" "patch empty_file 1 [7, 8, 9]" 0 4]
  by (simp add: io_fair_def file_slice_def patch_def empty_file_def upt_rec)

section \<open>The storage server\<close>

text \<open>C30: before a data connection has authenticated, no request changes a volume or a lease, and every request but an
  authentication is refused. The connection is bound to a client only by an authentication that the central server has
  confirmed for that client and token.\<close>

theorem unauthenticated_changes_nothing:
  assumes "data_connection_request E request (None, s) = (r, (c', s'))"
  shows "ss_volumes s' = ss_volumes s \<and> ss_upload_leases s' = ss_upload_leases s \<and>
    (case c' of
       Some i \<Rightarrow> (\<exists>t. request = protocol_request.Data (data_request.Authenticate i t) \<and> ss_connected s \<and>
         (\<exists>j. se_rpc E (ss_sent s) (protocol_request.Control (control_request.ValidateClientAuth i t)) =
            Inr (protocol_response.Control (control_response.ValidateClientAuth j))) \<and> r = Inr (data_response.Authenticate i))
     | None \<Rightarrow> (\<exists>e. r = Inl e))"
  using assms by (rule unauthenticated_request)

definition sample_config :: storage_config where
  "sample_config = \<lparr> sc_name = ''s'', sc_token = ''t'', sc_central_endpoint = \<lparr> ec_id = ''c'', ec_addr = ''a'' \<rparr>,
     sc_bind_port = None, sc_relay = None, sc_volumes = [], sc_check_hash_before_write = True \<rparr>"

definition sample_zstd :: zstd where
  "sample_zstd = \<lparr> z_compress = (\<lambda>bs _. Inr bs), z_decompress = (\<lambda>bs _. Inr bs) \<rparr>"

text \<open>The central server registers the storage, confirms every client and accepts every report.\<close>

fun sample_central :: "protocol_request \<Rightarrow> protocol_response fs0_result" where
  "sample_central (protocol_request.Control (control_request.ValidateClientAuth i t)) =
     Inr (protocol_response.Control (control_response.ValidateClientAuth i))"
| "sample_central (protocol_request.Control (control_request.ReportBundleReplica events)) =
     Inr (protocol_response.Control control_response.ReportBundleReplica)"
| "sample_central (protocol_request.Control (control_request.RegisterStorage name token version volumes iroh_endpoint)) =
     Inr (protocol_response.Control (control_response.RegisterStorage 1 []))"
| "sample_central _ = Inl NotFound"

definition sample_storage_env :: "u8 list storage_env" where
  "sample_storage_env = \<lparr> se_now = 7, se_disk = sample_disk, se_commit = None, se_rpc = (\<lambda>_. sample_central),
     se_debug = (\<lambda>_. []), se_connect = Inr (), se_endpoint = Inr [], se_blake3 = sample_blake3, se_zstd = sample_zstd \<rparr>"

definition sample_storage :: storage_server where
  "sample_storage = \<lparr> ss_config = sample_config, ss_storage_id = 1, ss_connected = True, ss_last_reported_endpoint = [],
     ss_volumes = [(9, sample_vol)],
     ss_upload_leases = [(4, \<lparr> uls_file_id = 1, uls_volume_id = 9, uls_expires_at_ms = 100 \<rparr>)], ss_sent = [] \<rparr>"

lemma sample_storage_ok: "volumes_ok sample_blake3 (ss_volumes sample_storage)" "hm_ok (ss_upload_leases sample_storage)"
  by (auto simp: volumes_ok_def sample_storage_def hm_ok_def sample_vol_inv sample_vol_meta split: if_splits)

theorem unauthenticated_changes_nothing_witness:
  "ss_volumes (snd (snd (data_connection_request sample_storage_env
     (protocol_request.Data (data_request.Authenticate 3 ''t'')) (None, sample_storage)))) = ss_volumes sample_storage"
proof -
  obtain r c' s' where "data_connection_request sample_storage_env
      (protocol_request.Data (data_request.Authenticate 3 ''t'')) (None, sample_storage) = (r, (c', s'))" by (metis prod.exhaust)
  with unauthenticated_changes_nothing [OF this] show ?thesis by simp
qed

text \<open>C12: a chunk is written only under a lease. Without an unexpired lease for the same file and volume the upload is
  refused and no volume changes. On a server that is configured to check before it writes, an upload whose bytes do not
  decompress to the length and the hash that the request names is refused too, and no volume changes; on a server that is
  not, neither is looked at. An upload that succeeds has the lease and, where the server checks, the named content, and went
  to the volume it names. Whatever its outcome, no other volume changes.\<close>

theorem upload_needs_lease:
  assumes "hm_ok (ss_upload_leases s)" and "upload_chunk E q s = (r, s')"
  shows "(\<not> lease_covers (se_now E) (ucr_lease_id q) (ucr_file_id q) (ucr_volume_id q) s \<longrightarrow>
      r = Inl Unauthorized \<and> ss_volumes s' = ss_volumes s) \<and>
    (sc_check_hash_before_write (ss_config s) \<and> \<not> content_as_named E q \<longrightarrow> isl r \<and> ss_volumes s' = ss_volumes s) \<and>
    (\<forall>response. r = Inr response \<longrightarrow>
      lease_covers (se_now E) (ucr_lease_id q) (ucr_file_id q) (ucr_volume_id q) s \<and>
      (sc_check_hash_before_write (ss_config s) \<longrightarrow>
         (\<exists>raw. z_decompress (se_zstd E) (ucr_compressed_bytes q) (unat (ucr_raw_len q)) = Inr raw \<and>
            of_nat (length raw) = ucr_raw_len q \<and> blake3_hash (se_blake3 E) raw = ucr_chunk_id q)) \<and>
      (\<exists>v v'. hm_get (ss_volumes s) (ucr_volume_id q) = Some v \<and>
         hm_get (ss_volumes s') = (hm_get (ss_volumes s))(ucr_volume_id q \<mapsto> v'))) \<and>
    (\<forall>i. i \<noteq> ucr_volume_id q \<longrightarrow> hm_get (ss_volumes s') i = hm_get (ss_volumes s) i)"
proof (intro conjI)
  show "\<forall>response. r = Inr response \<longrightarrow>
      lease_covers (se_now E) (ucr_lease_id q) (ucr_file_id q) (ucr_volume_id q) s \<and>
      (sc_check_hash_before_write (ss_config s) \<longrightarrow>
         (\<exists>raw. z_decompress (se_zstd E) (ucr_compressed_bytes q) (unat (ucr_raw_len q)) = Inr raw \<and>
            of_nat (length raw) = ucr_raw_len q \<and> blake3_hash (se_blake3 E) raw = ucr_chunk_id q)) \<and>
      (\<exists>v v'. hm_get (ss_volumes s) (ucr_volume_id q) = Some v \<and>
         hm_get (ss_volumes s') = (hm_get (ss_volumes s))(ucr_volume_id q \<mapsto> v'))"
    using upload_chunk_Inr [OF assms(1)] assms(2) unfolding check_chunk_hash_Inr_iff content_as_named_def by fastforce
qed (use upload_chunk_unauthorized [OF assms(1), of E q] upload_chunk_frame [OF assms] assms(2) in auto)

definition sample_upload :: upload_chunk_request where
  "sample_upload = \<lparr> ucr_lease_id = 4, ucr_file_id = 1, ucr_volume_id = 9, ucr_chunk_id = sample_chunk, ucr_raw_len = 3,
     ucr_compressed_bytes = [1, 2, 3] \<rparr>"

theorem upload_needs_lease_witness:
  "fst (upload_chunk sample_storage_env (sample_upload\<lparr> ucr_lease_id := 5 \<rparr>) sample_storage) = Inl Unauthorized \<and>
   isl (fst (upload_chunk sample_storage_env (sample_upload\<lparr> ucr_raw_len := 4 \<rparr>) sample_storage))"
proof -
  have "\<not> lease_covers (se_now sample_storage_env) 5 1 9 sample_storage" by code_simp
  then have lease: "fst (upload_chunk sample_storage_env (sample_upload\<lparr> ucr_lease_id := 5 \<rparr>) sample_storage) = Inl Unauthorized"
    using upload_needs_lease [OF sample_storage_ok(2) surjective_pairing, of sample_storage_env "sample_upload\<lparr> ucr_lease_id := 5 \<rparr>"]
    by (simp add: sample_upload_def)
  have "\<not> content_as_named sample_storage_env (sample_upload\<lparr> ucr_raw_len := 4 \<rparr>)" "sc_check_hash_before_write (ss_config sample_storage)"
    by (simp_all add: content_as_named_def sample_upload_def sample_storage_env_def sample_zstd_def sample_storage_def sample_config_def)
  then have "isl (fst (upload_chunk sample_storage_env (sample_upload\<lparr> ucr_raw_len := 4 \<rparr>) sample_storage))"
    using upload_needs_lease [OF sample_storage_ok(2) surjective_pairing, of sample_storage_env "sample_upload\<lparr> ucr_raw_len := 4 \<rparr>"] by blast
  with lease show ?thesis by blast
qed

lemma sample_upload_runs:
  obtains response s' where "upload_chunk sample_storage_env sample_upload sample_storage = (Inr response, s')"
proof -
  have "has_room sample_vol (length [1 :: u8, 2, 3])" using sample_room by simp
  then obtain c v' where put: "put_chunk sample_blake3 7 sample_disk sample_chunk 3 [1, 2, 3] sample_vol = (Inr c, v')"
    using put_chunk_succeeds [OF sample_vol_inv sample_blake3_ok sample_vol_meta(6), of 3 "[1, 2, 3]" 7 sample_disk]
    by (auto simp: sample_new sample_disk_works fits_i64_def)
  have "lease_covers 7 4 1 9 sample_storage" by code_simp
  moreover have "check_chunk_hash sample_storage_env sample_upload = Inr ()" by code_simp
  moreover have "ucr_volume_id sample_upload = 9" "ucr_lease_id sample_upload = 4" "ucr_file_id sample_upload = 1"
      "ucr_chunk_id sample_upload = sample_chunk" "ucr_raw_len sample_upload = 3" "ucr_compressed_bytes sample_upload = [1, 2, 3]"
      "se_now sample_storage_env = 7" "se_disk sample_storage_env = sample_disk" "se_blake3 sample_storage_env = sample_blake3"
      "hm_get (ss_volumes sample_storage) 9 = Some sample_vol"
    by (simp_all add: sample_upload_def sample_storage_env_def sample_storage_def)
  ultimately have "\<exists>response s'. upload_chunk sample_storage_env sample_upload sample_storage = (Inr response, s')"
    using put by (simp add: upload_chunk_def check_upload_lease_spec [OF sample_storage_ok(2)] with_volume_def)
  with that show ?thesis by blast
qed

text \<open>C31: synchronising a volume reports every recorded change of a bundle to the central server exactly once and in
  the order of the events, in batches of at most 128, and leaves no change recorded.\<close>

theorem all_changes_are_reported:
  assumes "report_loop E i s = (Inr (), s')" and "distinct (change_ids i s)"
  shows "change_ids i s' = [] \<and> (\<exists>batches. ss_sent s' = ss_sent s @ map report_of batches \<and>
    concat (map (map bre_event_id) batches) = change_ids i s \<and> (\<forall>b\<in>set batches. b \<noteq> [] \<and> length b \<le> 128))"
  using assms by (rule report_loop_reports)

definition sample_changed_storage :: storage_server where
  "sample_changed_storage = sample_storage\<lparr> ss_volumes := [(9, snd (commit_bundle sample_blake3 None
     (bundle_hash_from_chunks sample_blake3 sample_refs) sample_refs (sample_vol\<lparr> vo_db := sample_put_db \<rparr>)))] \<rparr>"

lemma sample_report: "change_ids 9 sample_changed_storage = [1]"
    "fst (report_loop sample_storage_env 9 sample_changed_storage) = Inr ()"
  by code_simp+

theorem all_changes_are_reported_witness:
  "change_ids 9 (snd (report_loop sample_storage_env 9 sample_changed_storage)) = []"
proof -
  have "report_loop sample_storage_env 9 sample_changed_storage = (Inr (), snd (report_loop sample_storage_env 9 sample_changed_storage))"
    using sample_report(2) by (metis prod.collapse)
  from all_changes_are_reported [OF this] show ?thesis by (simp add: sample_report(1))
qed

text \<open>C32: in every state of the running storage server, which starts from directories that earlier runs left, with
  uploads to a volume that overlap and may be dropped between their parts, any requests on any data connections, requests
  of central, lost and new connections to central, periodic tasks and the shutdown: every volume with its puts in flight
  keeps its invariant and is filed under its own identifier; puts and leases are for volumes that are there; the server
  has a storage identifier only while it is connected; and central was asked about every client that a connection speaks for.\<close>

theorem storage_always_consistent:
  assumes "storage_reachable B x" and "blake3_ok B"
  shows "(\<forall>i v. hm_get (ss_volumes (sy_server x)) i = Some v \<longrightarrow>
        volume_inv B (v, sy_puts x i) \<and> vm_volume_id (vd_meta (vo_db v)) = i) \<and>
    (\<forall>i. sy_puts x i \<noteq> [] \<longrightarrow> (\<exists>v. hm_get (ss_volumes (sy_server x)) i = Some v)) \<and>
    (\<forall>l lease. hm_get (ss_upload_leases (sy_server x)) l = Some lease \<longrightarrow>
        (\<exists>v. hm_get (ss_volumes (sy_server x)) (uls_volume_id lease) = Some v)) \<and>
    (ss_storage_id (sy_server x) \<noteq> 0 \<longrightarrow> ss_connected (sy_server x)) \<and>
    (\<forall>c k. sy_conns x c = Some (Some k) \<longrightarrow>
        (\<exists>t. protocol_request.Control (control_request.ValidateClientAuth k t) \<in> set (ss_sent (sy_server x))))"
proof -
  note I = storage_invD [OF storage_reachable_inv [OF assms]]
  show ?thesis using I(1) volume_reachable_inv [OF _ assms(2)] by (intro conjI allI impI I(2,4-6)) blast+
qed

text \<open>A server with one volume that has started, granted a lease, authenticated a client and begun an upload of its.\<close>

definition sample_started_config :: storage_config where
  "sample_started_config = sample_config\<lparr> sc_check_hash_before_write := False, sc_volumes := [\<lparr> svc_path = ''r'', svc_name = ''v'', svc_read_only = False,
     svc_read_concurrency = 1, svc_write_concurrency = 1 \<rparr>] \<rparr>"

lemma sample_storage_run:
  obtains s where "storage_run sample_storage_env (Inr ()) (\<lambda>_. sample_dir) sample_started_config = Inr s"
    and "ss_connected s" and "ss_volumes s = [(9, sample_vol)]" and "ss_upload_leases s = []" and "ss_config s = sample_started_config"
proof -
  have "volume_open ''r'' sample_dir = Inr sample_vol" unfolding sample_vol_def using sample_init(3) by simp
  moreover have "vo_root sample_vol = ''r''" by code_simp
  ultimately show thesis using that sample_vol_meta(3)
    by (simp add: storage_run_def open_volumes_def sample_started_config_def connect_and_register_def register_with_central_def
        storage_volume_infos_def central_rpc_def sample_storage_env_def expect_control_def st_bind_def Let_def)
qed

lemma sample_system:
  obtains x v where "storage_reachable sample_blake3 x" and "hm_get (ss_volumes (sy_server x)) 9 = Some v"
    and "sy_puts x 9 = [\<lparr> pf_chunk = sample_row, pf_bytes = [9, 8, 7], pf_written = False \<rparr>]" and "sy_conns x 0 = Some (Some 3)"
proof -
  let ?E = sample_storage_env and ?R = "storage_reachable sample_blake3"
  let ?q = "sample_upload\<lparr> ucr_compressed_bytes := [9, 8, 7] \<rparr>"
  let ?put = "\<lparr> pf_chunk = sample_row, pf_bytes = [9, 8, 7], pf_written = False \<rparr>"
  have E: "se_blake3 ?E = sample_blake3" "se_now ?E = 7" "\<And>sent. se_rpc ?E sent = sample_central" by (simp_all add: sample_storage_env_def)
  have opens: "volume_open ''r'' sample_dir = Inr sample_vol" unfolding sample_vol_def using sample_init(3) by simp
  obtain s where run: "storage_run ?E (Inr ()) (\<lambda>_. sample_dir) sample_started_config = Inr s"
    and s: "ss_connected s" "ss_volumes s = [(9, sample_vol)]" "ss_upload_leases s = []" "ss_config s = sample_started_config"
    by (rule sample_storage_run)
  have "dirs_ok sample_blake3 (\<lambda>_. sample_dir) sample_started_config"
    using sample_reachable opens by (simp add: dirs_ok_def sample_started_config_def)
  note R0 = storage_reachable.start [OF run E(1) this]
  let ?x0 = "storage_system_new s"
  let ?x1 = "?x0\<lparr> sy_conns := [0 \<mapsto> None] \<rparr>"
  have R1: "?R ?x1"
    using storage_reachable.step [OF R0 storage_step.connects [of ?x0 0]] by (simp add: storage_system_new_def)
  let ?auth = "control_request.ValidateClientAuth 3 ''t''"
  let ?s2 = "s\<lparr> ss_sent := ss_sent s @ [protocol_request.Control ?auth] \<rparr>"
  let ?x2 = "?x1\<lparr> sy_server := ?s2, sy_conns := [0 \<mapsto> Some 3] \<rparr>"
  have "data_connection_request ?E (protocol_request.Data (data_request.Authenticate 3 ''t'')) (None, s) =
      (Inr (data_response.Authenticate 3), (Some 3, ?s2))"
    using s(1) by (simp add: central_validate_client_auth_def connection_or_unavailable_def central_rpc_def E(3) expect_control_def st_bind_def)
  then have "storage_step sample_blake3 ?x1 ?x2"
    using storage_step.requests [of ?x1 0 None ?E sample_blake3 "protocol_request.Data (data_request.Authenticate 3 ''t'')"] E(1)
    by (simp add: storage_system_new_def del: data_connection_request.simps)
  note R2 = storage_reachable.step [OF R1 this]
  let ?grant = "\<lparr> gul_lease_id = 4, gul_file_id = 1, gul_volume_id = 9, gul_base_size = 0, gul_expires_at_ms = 100,
    gul_prefer_volume_name = None \<rparr>"
  let ?s3 = "?s2\<lparr> ss_upload_leases := [(4, \<lparr> uls_file_id = 1, uls_volume_id = 9, uls_expires_at_ms = 100 \<rparr>)] \<rparr>"
  let ?x3 = "?x2\<lparr> sy_server := ?s3 \<rparr>"
  have "storage_step sample_blake3 ?x2 ?x3"
    using storage_step.central_task [OF central_task.request [of "sy_server ?x2"
        "protocol_request.Control (control_request.GrantUploadLease ?grant)" "protocol_response.Control (control_response.GrantUploadLease 4)"
        ?s3 sample_blake3 "sy_exit ?x2"]] s
    by (simp add: storage_system_new_def grant_upload_lease_def)
  note R3 = storage_reachable.step [OF R2 this]
  obtain v where v: "put_begin sample_blake3 7 sample_chunk 3 [9, 8, 7] sample_vol = (Inr (Insert sample_row), v)"
    using sample_planned(1) by (metis prod.collapse)
  let ?x4 = "?x3\<lparr> sy_server := ?s3\<lparr> ss_volumes := [(9, v)] \<rparr>, sy_puts := (\<lambda>_. [])(9 := [?put]) \<rparr>"
  have "upload_begin ?E ?q ?s3 = (Inr (Insert sample_row), ?s3\<lparr> ss_volumes := [(9, v)] \<rparr>)"
    using v s by (simp add: upload_begin_def upload_admit_def check_upload_lease_def sample_upload_def with_volume_def E st_bind_def
        sample_started_config_def)
  then have "storage_step sample_blake3 ?x3 ?x4"
    using storage_step.upload_starts [of ?x3 0 3 ?E sample_blake3 ?q sample_row] E(1) sample_vol_meta(6)
    by (simp add: storage_system_new_def sample_upload_def)
  from that [OF storage_reachable.step [OF R3 this]] show thesis by simp
qed

theorem storage_always_consistent_witness:
  "\<exists>x v. storage_reachable sample_blake3 x \<and> hm_get (ss_volumes (sy_server x)) 9 = Some v \<and> sy_puts x 9 \<noteq> [] \<and>
     volume_inv sample_blake3 (v, sy_puts x 9) \<and>
     (\<exists>t. protocol_request.Control (control_request.ValidateClientAuth 3 t) \<in> set (ss_sent (sy_server x)))"
proof -
  obtain x v where x: "storage_reachable sample_blake3 x" "hm_get (ss_volumes (sy_server x)) 9 = Some v"
    and p: "sy_puts x 9 = [\<lparr> pf_chunk = sample_row, pf_bytes = [9, 8, 7], pf_written = False \<rparr>]" "sy_conns x 0 = Some (Some 3)"
    by (rule sample_system)
  have "sy_puts x 9 \<noteq> []" using p(1) by simp
  with storage_always_consistent [OF x(1) sample_blake3_ok] x p(2) show ?thesis by blast
qed

end
