(* ===== verification/Client_Properties.thy ===== *)
theory Client_Properties
  imports Client_Central Client_Storage Fs0_Cli Request_Scheduler Transport Central_Properties Storage_Properties
begin

text \<open>
  The properties of the client (\<open>crates/fs0-client/src\<close>), of the transport below it (\<open>crates/fs0-transport/src\<close>) and of the
  sizes that the command line takes (\<open>crates/fs0-cli/src\<close>), with small concrete clients as instances: one whose
  storage is the storage server of \<^verbatim>\<open>Storage_Properties\<close> and one whose storage answers from a table.
\<close>

section \<open>Chunks\<close>

text \<open>C8: a chunk through client and storage: when the upload job of a client session succeeds for a chunk that the
  volume of the storage server did not have, the download job on the same session gets the bytes of the source
  file back, through the requests, the compression, the checks of the server and the files of the volume.\<close>

theorem client_chunk_round_trip:
  assumes "talks_to E S c" and "session_on c i s xs"
    and "volumes_ok (se_blake3 S) (ss_volumes s)" and "hm_ok (ss_upload_leases s)" and "blake3_ok (se_blake3 S)"
    and "zstd_ok Z" and "\<forall>raw out. length raw \<le> 2 ^ 20 \<and> zstd_compress Z raw DEFAULT_ZSTD_LEVEL = Inr out \<longrightarrow> length out < 2 ^ 63"
    and "de_open (se_disk S) = None" and "io_fair (de_io (se_disk S))"
    and "hm_get (ss_volumes s) (ucj_volume_id job) = Some vol" and "chunk_row (vd_conn (vo_db vol)) (ucj_chunk_id job) = None"
    and "upload_chunk_job E (se_blake3 S) Z job xs = (Inr response, xs')"
  shows "\<exists>w raw xs''. read_chunk_from_file (ce_file E (ucj_source_path job) w) (ucj_source_offset job) (ucj_raw_len job) = Inr raw \<and>
    download_chunk_job E (se_blake3 S) Z \<lparr> dcr_volume_id = ucj_volume_id job, dcr_chunk_id = ucj_chunk_id job \<rparr> xs' =
      (Inr \<lparr> dcs_chunk_id = ucj_chunk_id job, dcs_raw_bytes = raw \<rparr>, xs'')"
  using assms by (intro chunk_round_trip) auto

definition sample_client_config :: client_config where
  "sample_client_config = client_config_new ''t'' \<lparr> ec_id = ''c'', ec_addr = ''a'' \<rparr> None"

definition sample_client_env :: "(unit, data_world) client_env" where
  "sample_client_env = \<lparr> ce_connect = (\<lambda>_ w. (Inr 0, w)),
     ce_rpc = (\<lambda>_ request _ w. case data_connection_respond sample_storage_env request w of (r, w') \<Rightarrow> (Inr r, w')),
     ce_is_closed = (\<lambda>_ _. False), ce_close = (\<lambda>_ w. w), ce_file = (\<lambda>_ _. Inr [1, 2, 3]), ce_endpoint = (\<lambda>_. ()),
     ce_from_bytes = (\<lambda>_. Inr ()), ce_debug = (\<lambda>_. []), ce_debug_control = (\<lambda>_. []), ce_debug_data = (\<lambda>_. []) \<rparr>"

definition sample_session :: "storage_session_inner \<times> data_world fs0_client" where
  "sample_session = (\<lparr> sse_config = sample_client_config, sse_client_id = 3, sse_storage_id = 1, sse_connection = Some 0 \<rparr>,
     \<lparr> fcl_config = sample_client_config, fcl_central = central_session_new sample_client_config None,
       fcl_storage_sessions = [], fcl_world = (Some 3, sample_storage) \<rparr>)"

definition sample_job :: upload_job where
  "sample_job = \<lparr> ucj_lease_id = 4, ucj_file_id = 1, ucj_volume_id = 9, ucj_chunk_id = sample_chunk, ucj_raw_len = 3,
     ucj_source_path = ''f'', ucj_source_offset = 0 \<rparr>"

lemma sample_talks: "talks_to sample_client_env sample_storage_env 0" "session_on 0 3 sample_storage sample_session"
  by (simp_all add: talks_to_def session_on_def sample_client_env_def sample_session_def)

lemma sample_has_chunk: "has_chunk 9 sample_chunk sample_storage = (Inr (data_response.HasChunk False None None), sample_storage)"
proof -
  have "vdb_ok (vo_db sample_vol)" using sample_vol_inv by (simp add: volume_inv_def Let_def)
  then have "vol_chunk_meta sample_chunk sample_vol = (Inl (ChunkNotFound sample_chunk), sample_vol)"
    using load_chunk_spec [of "vo_db sample_vol" sample_chunk] by (simp add: vol_chunk_meta_def with_vdb_def sample_new)
  then show ?thesis by (simp add: has_chunk_def with_volume_def sample_storage_def)
qed

lemma sample_job_runs:
  obtains response xs' where "upload_chunk_job sample_client_env sample_blake3 sample_zstd sample_job sample_session = (Inr response, xs')"
proof -
  let ?E = sample_client_env
  from session_has_chunk_serves [OF sample_talks sample_has_chunk] obtain x1
    where has: "session_has_chunk ?E 9 sample_chunk sample_session = (Inr None, x1)" and on: "session_on 0 3 sample_storage x1"
    by (auto simp: exists_lens_def)
  obtain r s' where up: "upload_chunk sample_storage_env sample_upload sample_storage = (Inr r, s')" by (rule sample_upload_runs)
  then obtain u where "r = data_response.UploadChunk u"
    by (auto simp: upload_chunk_def st_bind_Inr_iff)
  with session_upload_serves [OF sample_talks(1) on up] obtain x2 where put: "session_upload_chunk ?E sample_upload x1 = (Inr u, x2)" by auto
  have raw: "read_chunk_from_file (Inr [1, 2, 3]) 0 3 = Inr [1, 2, 3]"
    by (simp add: read_chunk_from_file_def VOLUME_RAW_CHUNK_SIZE_def)
  have "upload_chunk_job ?E sample_blake3 sample_zstd sample_job sample_session = (Inr u, x2)"
    using has put raw by (simp add: upload_chunk_job_def sample_job_def sample_upload_def sample_client_env_def sample_zstd_def
        zstd_compress_def sample_chunk_def split: prod.splits)
  with that show ?thesis by blast
qed

theorem client_chunk_round_trip_witness:
  "\<exists>response xs' xs''. upload_chunk_job sample_client_env sample_blake3 sample_zstd sample_job sample_session = (Inr response, xs') \<and>
     download_chunk_job sample_client_env sample_blake3 sample_zstd \<lparr> dcr_volume_id = 9, dcr_chunk_id = sample_chunk \<rparr> xs' =
       (Inr \<lparr> dcs_chunk_id = sample_chunk, dcs_raw_bytes = [1, 2, 3] \<rparr>, xs'')"
proof -
  obtain response xs' where up: "upload_chunk_job sample_client_env sample_blake3 sample_zstd sample_job sample_session = (Inr response, xs')"
    by (rule sample_job_runs)
  have S: "se_blake3 sample_storage_env = sample_blake3" "se_disk sample_storage_env = sample_disk" by (simp_all add: sample_storage_env_def)
  have job: "ucj_volume_id sample_job = 9" "ucj_chunk_id sample_job = sample_chunk" by (simp_all add: sample_job_def)
  have Z: "zstd_ok sample_zstd" "\<forall>raw out. length raw \<le> 2 ^ 20 \<and> zstd_compress sample_zstd raw DEFAULT_ZSTD_LEVEL = Inr out \<longrightarrow> length out < 2 ^ 63"
    by (auto simp: zstd_ok_def zstd_compress_def sample_zstd_def)
  have vol: "hm_get (ss_volumes sample_storage) (ucj_volume_id sample_job) = Some sample_vol" by (simp add: sample_storage_def job)
  have src: "read_chunk_from_file (ce_file sample_client_env (ucj_source_path sample_job) w) (ucj_source_offset sample_job) (ucj_raw_len sample_job) =
      Inr [1, 2, 3]" for w
    by (simp add: sample_client_env_def sample_job_def read_chunk_from_file_def VOLUME_RAW_CHUNK_SIZE_def)
  from client_chunk_round_trip [OF sample_talks, unfolded S, OF sample_storage_ok sample_blake3_ok Z sample_disk_works(2,3) vol sample_new up]
  show ?thesis using up by (simp add: src job)
qed

section \<open>The scheduler of chunk requests\<close>

text \<open>C10: in every state that calls of the scheduler and its tasks lead to, in any interleaving and with handlers that
  return anything, no more handlers run than the semaphore has permits and no two run for the same hash; a callback
  is called at most as often as it was handed in, and with a result that a handler returned for its hash.\<close>

theorem scheduler_is_safe:
  assumes "sched_reachable n es s"
  shows "size (running s) \<le> max n 1 \<and> (\<forall>h. count (running s) h \<le> 1) \<and> called_callbacks s \<subseteq># mset es \<and>
    (\<forall>(h, callback, r)\<in>set (sd_called s). (h, r) \<in> set (sd_returned s))"
proof -
  obtain hs where inv: "sched_inv n es hs s" using sched_reachable_inv [OF assms] by blast
  then show ?thesis using running_bounded running_distinct sched_called_once sched_called_result by fastforce
qed

text \<open>Two calls for the same hash and one for another, when there is one permit: a handler runs and two tasks are left.\<close>

definition sample_scheduler :: "(unit, nat, nat) scheduler" where
  "sample_scheduler =
     enqueue_find (HashId [2]) () 12 (enqueue_spawn 0 (HashId [1]) () (enqueue_add 0 (HashId [1]) () 11 False
       (enqueue_add 0 (HashId [1]) () 10 True (enqueue_find (HashId [1]) () 11 (enqueue_find (HashId [1]) () 10 (scheduler_new 1))))))"

lemma sample_scheduler_eq:
  "sample_scheduler = \<lparr> sd_permits = 0, sd_closed = None, sd_in_flight = [(HashId [1], 0), (HashId [2], 1)],
     sd_slots = [\<lparr> rs_result = None, rs_callbacks = [10, 11] \<rparr>, \<lparr> rs_result = None, rs_callbacks = [] \<rparr>],
     sd_tasks = {# Adding 1 (HashId [2]) () 12 True, Running 0 (HashId [1]) () #}, sd_returned = [], sd_called = [] \<rparr>"
  by (simp add: sample_scheduler_def sched_ops scheduler_new_def)

lemma sample_scheduler_reachable:
  "sched_reachable 1 [(HashId [1], 10), (HashId [1], 11), (HashId [2], 12)] sample_scheduler"
proof -
  let ?s1 = "enqueue_find (HashId [1]) () 11 (enqueue_find (HashId [1]) () 10 (scheduler_new 1)) :: (unit, nat, nat) scheduler"
  let ?s2 = "enqueue_add 0 (HashId [1]) () 10 True ?s1" and ?es = "[(HashId [1], 10), (HashId [1], 11)]"
  let ?s3 = "enqueue_add 0 (HashId [1]) () 11 False ?s2"
  have "sched_reachable 1 (([] @ [(HashId [1], 10)]) @ [(HashId [1], 11)]) ?s1" by (intro sched_reachable.intros)
  then have "sched_reachable 1 ?es ?s1" by simp
  moreover have "sched_step ?s1 ?s2" by (rule sched_step.adds) (simp add: sched_ops scheduler_new_def)
  moreover have "sched_step ?s2 ?s3" by (rule sched_step.adds) (simp add: sched_ops scheduler_new_def)
  moreover have "sched_step ?s3 (enqueue_spawn 0 (HashId [1]) () ?s3)"
    by (rule sched_step.spawns) (simp_all add: sched_ops scheduler_new_def)
  ultimately have "sched_reachable 1 ?es (enqueue_spawn 0 (HashId [1]) () ?s3)" by (meson sched_reachable.steps)
  from sched_reachable.enqueued [OF this, of "HashId [2]" 12 "()"] show ?thesis by (simp add: sample_scheduler_def)
qed

theorem scheduler_is_safe_witness:
  "size (running sample_scheduler) \<le> 1 \<and> running sample_scheduler = {# HashId [1] #} \<and> count (running sample_scheduler) (HashId [1]) \<le> 1"
  using scheduler_is_safe [OF sample_scheduler_reachable] by (simp add: running_def sample_scheduler_eq)

text \<open>C9: the scheduler never gets stuck and always finishes: while a task is left some step is possible, every step makes
  the remaining work smaller, and when no task is left every callback has been called exactly as often as it was
  handed in, no hash is in flight and all permits are back.\<close>

theorem scheduler_finishes:
  assumes "sched_reachable n es s"
  shows "(sd_tasks s \<noteq> {#} \<longrightarrow> (\<exists>s'. sched_step s s')) \<and> (\<forall>s'. sched_step s s' \<longrightarrow> sched_work s' < sched_work s) \<and>
    (sd_tasks s = {#} \<longrightarrow> called_callbacks s = mset es \<and> sd_in_flight s = [] \<and> sd_permits s = max n 1) \<and>
    (\<exists>s'. sched_step\<^sup>*\<^sup>* s s' \<and> sd_tasks s' = {#} \<and> called_callbacks s' = mset es)"
proof -
  obtain hs where inv: "sched_inv n es hs s" using sched_reachable_inv [OF assms] by blast
  then have "owners_ok hs s" by (simp add: sched_inv_def)
  moreover obtain s' where "sched_step\<^sup>*\<^sup>* s s'" "sd_tasks s' = {#}" "sched_inv n es hs s'" using sched_drains [OF inv] by blast
  ultimately show ?thesis using sched_progress [OF inv] sched_step_work sched_idle_called [OF inv] sched_idle_called(1) by blast
qed

theorem scheduler_finishes_witness:
  "\<exists>s'. sched_step\<^sup>*\<^sup>* sample_scheduler s' \<and> sd_tasks s' = {#} \<and>
     called_callbacks s' = {# (HashId [1], 10), (HashId [1], 11), (HashId [2], 12) #}"
  using scheduler_finishes [OF sample_scheduler_reachable] by simp

section \<open>Transfers\<close>

text \<open>C33: how the upload or the download of a file ends, for every order in which its chunks complete. When chunks are in
  flight at the end of scheduling, the transfer waits for all of them and then reports the first failure among all
  the completions; when every chunk has completed by then, it reports success, even if some of them have failed.\<close>

theorem transfer_outcome:
  assumes "outstanding 0 before = Some m" and "length before < 2 ^ 64" and "outstanding m after = Some 0" and "length after = m"
  shows "transfer_result before after =
    Some (if m = 0 then Inr () else case first_failure (before @ after) of Some e \<Rightarrow> Inl e | None \<Rightarrow> Inr ())"
  using assms by (rule transfer_result_spec)

theorem transfer_outcome_witness:
  "transfer_result [Scheduled] [Completed (Some NotFound)] = Some (Inl NotFound) \<and>
   transfer_result [Scheduled, Completed (Some NotFound)] [] = Some (Inr ())"
  using transfer_outcome [of "[Scheduled]" 1 "[Completed (Some NotFound)]"] transfer_outcome [of "[Scheduled, Completed (Some NotFound)]" 0 "[]"]
  by simp

section \<open>Transport\<close>

text \<open>C34: a value whose encoding fits a frame is written as one frame and read back from it, with what follows left on the
  stream; a value that does not fit is refused and nothing is written.\<close>

theorem frames_round_trip:
  assumes "codec_ok C" and "writes_through W" and "to_allocvec C v = Inr body"
  shows "if length body \<le> TRANSPORT_MAX_FRAME_BODY_LEN
    then fst (write_frame C W v out) = Inr () \<and>
      (\<exists>bs. snd (write_frame C W v out) = out @ bs \<and> (\<forall>rest. read_frame C (bs @ rest) = (Inr v, rest)))
    else write_frame C W v out = (Inl (FrameTooLarge (length body) TRANSPORT_MAX_FRAME_BODY_LEN), out)"
  using assms frame_round_trip [of C W v out] write_frame_too_large [of C v body W out] by (auto simp: frame_fits_def not_le)

definition sample_codec :: "'a \<Rightarrow> 'a codec" where
  "sample_codec v = \<lparr> to_allocvec = (\<lambda>x. if x = v then Inr [7] else Inl ''unknown''), from_bytes = (\<lambda>_. Inr v) \<rparr>"

definition sample_writes :: write_env where
  "sample_writes = \<lparr> we_len = None, we_body = None, we_flush = None \<rparr>"

lemma sample_codec_ok: "codec_ok (sample_codec v)" "to_allocvec (sample_codec v) v = Inr [7]" "frame_fits (sample_codec v) v"
    "writes_through sample_writes"
  by (auto simp: codec_ok_def sample_codec_def frame_fits_def writes_through_def sample_writes_def TRANSPORT_MAX_FRAME_BODY_LEN_def)

theorem frames_round_trip_witness:
  "\<exists>bs. snd (write_frame (sample_codec (Error NotFound)) sample_writes (Error NotFound) []) = bs \<and>
     read_frame (sample_codec (Error NotFound)) (bs @ [1, 2]) = (Inr (Error NotFound), [1, 2])"
  using frames_round_trip [OF sample_codec_ok(1,4,2), of "Error NotFound" "[]"] by (simp add: TRANSPORT_MAX_FRAME_BODY_LEN_def)

text \<open>C37: connecting ends after at most the configured number of attempts, with the first attempt that succeeds or else
  with the error of the last one, and sleeps between two attempts for the initial delay doubled each time (at most 31
  times), but never longer than the maximal delay.\<close>

theorem connect_retries:
  assumes "1 \<le> cr_max_attempts (co_retry options)" and "cr_max_delay (co_retry options) \<le> DURATION_MAX"
  shows "connect (Some options) outcome =
    (let r = co_retry options;
         n = (case find (\<lambda>n. is_connected (outcome n)) [1..<Suc (cr_max_attempts r)] of Some n \<Rightarrow> n | None \<Rightarrow> cr_max_attempts r)
     in (attempt_result (outcome n), map (\<lambda>k. min (cr_initial_delay r * 2 ^ min (k - 1) 31) (cr_max_delay r)) [1..<n]))"
  using assms by (simp add: connect_def connect_loop_spec Let_def delay_exact del: upt_Suc)

theorem connect_retries_witness:
  "connect (Some \<lparr> co_timeout = 10, co_retry = retry_new 5 3 10 \<rparr>) (\<lambda>n. if n < 4 then ConnectFailed ''no'' else Connected n) =
     (Inr 4, [3, 6, 10])"
  using connect_retries [of "\<lparr> co_timeout = 10, co_retry = retry_new 5 3 10 \<rparr>" "\<lambda>n. if n < 4 then ConnectFailed ''no'' else Connected n"]
  by (simp add: retry_new_def DURATION_MAX_def is_connected_def upt_rec)

section \<open>Storages that clients know\<close>

text \<open>C38: the list of storages of a client follows the registry of the central server, from the answer to its registration
  on a reachable state of central and over every step of central while the connection speaks for that client. The list is
  sorted and has every storage once, it holds exactly the storages that are registered, and the entry of each equals the one
  in the registry, unless the storage has reported the fill of a volume after it was last announced (\<open>stale\<close>): such a
  report is filed and not announced, and until the next announcement the entry may differ from the registry in the name, the
  size and the fill of volumes, and in nothing else. It is assumed that what central sends over the connection arrives and
  is handled in the order of the changes; every event travels on a stream of its own, so the code alone does not give that.\<close>

theorem clients_track_storages:
  assumes "listening d k x ps stale"
  shows "sorted (map spi_storage_id ps) \<and> distinct (map spi_storage_id ps) \<and>
    (\<forall>i. i \<notin> stale \<longrightarrow> peer_map ps i = storage_peer i (sys_server x)) \<and>
    (\<forall>i. map_option peer_view (peer_map ps i) = map_option peer_view (storage_peer i (sys_server x)))"
  using listening_follows [OF assms] unfolding follows_def peers_ok_def by blast

text \<open>A client registers, then a storage does.\<close>

definition first_request :: control_request where
  "first_request = control_request.RegisterClient None ''t'' FS0_VERSION"

definition second_request :: control_request where
  "second_request = control_request.RegisterStorage ''s'' ''t'' FS0_VERSION [] [7]"

definition joined_peer :: storage_peer_info where
  "joined_peer = \<lparr> spi_storage_id = 2, spi_name = ''s'', spi_volumes = [], spi_iroh_endpoint = [7] \<rparr>"

definition first_answer :: "protocol_response \<times> control_connection_identity \<times> central_server" where
  "first_answer = handle_control_request sample_env 0 first_request Anonymous (central_server_init [''t''])"

definition second_answer :: "protocol_response \<times> control_connection_identity \<times> central_server" where
  "second_answer = handle_control_request sample_env 3 second_request Anonymous (snd (snd first_answer))"

lemma sample_answers:
  "fst first_answer = protocol_response.Control (control_response.RegisterClient 1 [])" "fst (snd first_answer) = Client 1"
  "fst (snd second_answer) = Storage 2" "storage_peer 2 (snd (snd second_answer)) = Some joined_peer"
  "cs_next_id (snd (snd first_answer)) = 2"
  by code_simp+

lemma sample_listening:
  obtains x ps stale where "listening 0 1 x ps stale" and "storage_peer 2 (sys_server x) = Some joined_peer"
proof -
  let ?x0 = "(central_system_init [''t''])\<lparr> sys_conns := [0 \<mapsto> Anonymous] \<rparr>"
  have "central_step (central_system_init [''t'']) ?x0"
    using central_step.accept [of "central_system_init [''t'']" 0] by (simp add: central_system_init_def)
  then have r: "reachable [''t''] ?x0" using reachable.start reachable.step by blast
  have e1: "env_ok sample_env first_request (sys_server ?x0)"
    by (simp add: env_ok_def sample_env_def clock_ok_def commit_ok_def first_request_def ids_left_def central_system_init_def
        central_server_init_def fits_i64_def)
  have a1: "handle_control_request sample_env 0 first_request Anonymous (sys_server ?x0) =
      (protocol_response.Control (control_response.RegisterClient 1 []), Client 1, snd (snd first_answer))"
    using sample_answers(1,2) by (simp add: first_answer_def [symmetric] central_system_init_def prod_eq_iff)
  let ?x1 = "?x0\<lparr> sys_server := snd (snd first_answer), sys_conns := (sys_conns ?x0)(0 \<mapsto> Client 1) \<rparr>"
  have l1: "listening 0 1 ?x1 [] {}"
    by (rule listening.registers [OF r _ _ first_request_def e1 a1]) (simp_all add: central_system_init_def)
  let ?x2 = "?x1\<lparr> sys_conns := (sys_conns ?x1)(3 \<mapsto> Anonymous) \<rparr>"
  have "central_step ?x1 ?x2" by (rule central_step.accept) simp
  from listening.hears [OF l1 this] obtain ps stale where l2: "listening 0 1 ?x2 ps stale" by auto
  have e2: "env_ok sample_env second_request (sys_server ?x2)"
    by (simp add: env_ok_def sample_env_def clock_ok_def commit_ok_def second_request_def ids_left_def sample_answers fits_i64_def)
  have a2: "handle_control_request sample_env 3 second_request Anonymous (sys_server ?x2) =
      (fst second_answer, Storage 2, snd (snd second_answer))"
    using sample_answers(3) by (simp add: second_answer_def [symmetric] prod_eq_iff)
  let ?x3 = "?x2\<lparr> sys_server := snd (snd second_answer), sys_conns := (sys_conns ?x2)(3 \<mapsto> Storage 2) \<rparr>"
  have "central_step ?x2 ?x3" by (rule central_step.request [OF _ _ e2 a2]) (simp_all add: central_system_init_def)
  from listening.hears [OF l2 this] have "\<exists>ps stale. listening 0 1 ?x3 ps stale" by auto
  then show ?thesis using that [of ?x3] sample_answers(4) by auto
qed

theorem clients_track_storages_witness:
  "\<exists>x ps stale. listening 0 1 x ps stale \<and> storage_peer 2 (sys_server x) = Some joined_peer \<and>
     map_option peer_view (peer_map ps 2) = Some (peer_view joined_peer)"
proof -
  obtain x ps stale where l: "listening 0 1 x ps stale" and p: "storage_peer 2 (sys_server x) = Some joined_peer" by (rule sample_listening)
  then have "map_option peer_view (peer_map ps 2) = Some (peer_view joined_peer)" using clients_track_storages [OF l] by simp
  with l p show ?thesis by blast
qed

section \<open>Sizes on the command line\<close>

text \<open>C40: a printed number followed by nothing, or by one of the letters k, m, g and t in either case, is read as that
  many bytes, KiB, MiB, GiB and TiB, and is refused exactly when that does not fit 64 bits. Any other letter is refused.\<close>

theorem parse_bytes_reads_sizes:
  "((letters, e) \<in> {([], 0), (''k'', 10), (''K'', 10), (''m'', 20), (''M'', 20), (''g'', 30), (''G'', 30), (''t'', 40), (''T'', 40)} \<longrightarrow>
      parse_bytes (show_nat n @ letters) = (if n * 2 ^ e < 2 ^ 64 then Inr (of_nat (n * 2 ^ e)) else Inl InvalidRequest)) \<and>
   (c \<notin> set ''kKmMgGtT'' \<and> \<not> is_digit c \<and> \<not> is_whitespace c \<longrightarrow> parse_bytes (show_nat n @ [c]) = Inl InvalidRequest)"
  by (rule conjI, rule impI, rule parse_bytes_sizes, assumption, rule impI, elim conjE, rule parse_bytes_other_letter)

theorem parse_bytes_reads_sizes_witness:
  "parse_bytes ''16g'' = Inr 17179869184 \<and> parse_bytes ''5m'' = Inr 5242880 \<and> parse_bytes ''16777216T'' = Inl InvalidRequest \<and>
   parse_bytes ''5'' = Inr 5 \<and> parse_bytes ''5b'' = Inl InvalidRequest"
proof -
  have d: "char_of (49 :: nat) = CHR ''1''" "char_of (50 :: nat) = CHR ''2''" "char_of (53 :: nat) = CHR ''5''"
    "char_of (54 :: nat) = CHR ''6''" "char_of (55 :: nat) = CHR ''7''" by code_simp+
  have n: "show_nat 16 = ''16''" "show_nat 16777216 = ''16777216''" "show_nat 5 = ''5''"
    by (simp_all add: show_nat.simps [of "numeral x" for x] show_nat.simps [of "Suc 0"] d)
  have b: "CHR ''b'' \<notin> set ''kKmMgGtT'' \<and> \<not> is_digit (CHR ''b'') \<and> \<not> is_whitespace (CHR ''b'')" by code_simp
  have "parse_bytes (show_nat 16 @ ''g'') = Inr 17179869184" by (subst parse_bytes_reads_sizes [of "''g''" 30 16, THEN conjunct1, THEN mp], (rule insertI1 insertI2)+, simp)
  moreover have "parse_bytes (show_nat 5 @ ''m'') = Inr 5242880" by (subst parse_bytes_reads_sizes [of "''m''" 20 5, THEN conjunct1, THEN mp], (rule insertI1 insertI2)+, simp)
  moreover have "parse_bytes (show_nat 16777216 @ ''T'') = Inl InvalidRequest" by (subst parse_bytes_reads_sizes [of "''T''" 40 16777216, THEN conjunct1, THEN mp], (rule insertI1 insertI2)+, simp)
  moreover have "parse_bytes (show_nat 5 @ []) = Inr 5" by (subst parse_bytes_reads_sizes [of "[]" 0 5, THEN conjunct1, THEN mp], (rule insertI1 insertI2)+, simp)
  moreover have "parse_bytes (show_nat 5 @ ''b'') = Inl InvalidRequest" using parse_bytes_reads_sizes [THEN conjunct2, THEN mp, OF b] .
  ultimately show ?thesis by (simp add: n)
qed

section \<open>Files\<close>

text \<open>C1: what was uploaded is downloaded. When the loop that cuts a file has given its bundles, the central server
  answers a plan with these bundles, and the storage that the client picks for each bundle lists and hands out its
  chunks, the download succeeds and writes exactly the contents of the file, in whatever order the chunks complete
  and however many of them complete before the last one is scheduled. Two things are relied on. Every read of the
  source file gives as many bytes as were asked for, short of the end of the file (\<open>full_reads\<close>): the code asks once
  per chunk and takes what it gets, and a chunk cut short, which the interface of the reader allows, is put back at
  the wrong place by the download. And no two different byte strings among the pieces of the file and the strings
  \<open>K\<close> that the storages hand out have the same hash (\<open>hash_tells\<close>): nothing is asked of other inputs.\<close>

theorem download_restores_upload:
  assumes "upload_bundles X B 0 [] \<lparr> up_reads = 0, up_rest = contents, up_jobs = [] \<rparr> = (Inr (n, bundles), p)"
    and "full_reads X" and "length contents < 2 ^ 63" and "\<forall>a m. hash_tells B K (take m (drop a contents))"
    and "call_get_file_read_plan E path s = (Inr plan, s1)" and "frp_size plan = n" and "plan_fits 0 (frp_bundles plan) bundles"
    and "list_all2 (serves_bundle E B Z K I (cse_storages (fcl_central s1))) (frp_bundles plan) bundles"
    and "I s1" and "completes_all D"
  shows "\<exists>s'. download_file E B Z D path s = (Inr (\<lparr> tst_chunks = div_ceil n VOLUME_RAW_CHUNK_SIZE, tst_size = n \<rparr>, contents), s')"
  using assms by (intro download_uploaded [where I = I and K = K]) auto

text \<open>A hash that keeps short inputs, and a storage 5 with one volume that answers from a table.\<close>

definition table_blake3 :: "u8 list blake3" where
  "table_blake3 =
     (let h = (\<lambda>bs. if length bs < 31 then of_nat (length bs) # take 31 (bs @ replicate 31 0) else replicate 32 255)
      in \<lparr> b3_hash = h, b3_new = [], b3_update = (\<lambda>p acc. acc @ p), b3_finalize = h \<rparr>)"

lemma table_tells: "length x < 31 \<Longrightarrow> hash_tells table_blake3 K x"
proof -
  assume x: "length x < 31"
  have "y = x" if h: "b3_hash table_blake3 y = b3_hash table_blake3 x" for y
  proof (cases "length y < 31")
    case True
    with h x have eq: "(of_nat (length y) :: u8) = of_nat (length x)" "take 31 (y @ replicate 31 0) = take 31 (x @ replicate 31 0)"
      by (simp_all add: table_blake3_def Let_def)
    have "unat (of_nat (length y) :: u8) = length y" "unat (of_nat (length x) :: u8) = length x"
      using x True by (simp_all add: unat_of_nat take_bit_eq_mod)
    then have len: "length y = length x" using eq(1) by metis
    have "take (length x) (take 31 (y @ replicate 31 0)) = take (length x) (take 31 (x @ replicate 31 0))" using eq(2) by simp
    then show ?thesis using len x by simp
  next
    case False
    with h x have "(of_nat (length x) :: u8) = 255" by (simp add: table_blake3_def Let_def numeral_eq_Suc)
    then have "unat (of_nat (length x) :: u8) = 255" by simp
    then show ?thesis using x by (simp add: unat_of_nat take_bit_eq_mod)
  qed
  then show ?thesis by (simp add: hash_tells_def blake3_hash_def)
qed

definition table_refs :: "bundle_chunk_ref list" where
  "table_refs = [\<lparr> bcr_chunk_index = 0, bcr_chunk_id = blake3_hash table_blake3 [7, 8, 9] \<rparr>]"

definition table_plan :: file_read_plan where
  "table_plan = \<lparr> frp_file_id = 1, frp_path = ''/f'', frp_size = 3, frp_bundles =
     [\<lparr> fbr_bundle_index = 0, fbr_raw_len = 3, fbr_compressed_len = 3, fbr_bundle_id = bundle_hash_from_chunks table_blake3 table_refs,
        fbr_replicas = [\<lparr> rl_storage_id = 5, rl_volume_id = 9 \<rparr>] \<rparr>] \<rparr>"

fun table_answer :: "protocol_request \<Rightarrow> protocol_response" where
  "table_answer (protocol_request.Control (control_request.GetFileReadPlan path)) =
     protocol_response.Control (control_response.GetFileReadPlan table_plan)"
| "table_answer (protocol_request.Data (data_request.Authenticate i t)) = protocol_response.Data (data_response.Authenticate i)"
| "table_answer (protocol_request.Data (data_request.ListBundleChunks v b)) = protocol_response.Data (data_response.ListBundleChunks table_refs)"
| "table_answer (protocol_request.Data (data_request.DownloadChunk q)) = protocol_response.Data (data_response.DownloadChunk [7, 8, 9])"
| "table_answer _ = Error InvalidRequest"

definition table_env :: "(unit, unit) client_env" where
  "table_env = \<lparr> ce_connect = (\<lambda>_ w. (Inr 0, w)), ce_rpc = (\<lambda>_ request _ w. (Inr (table_answer request), w)),
     ce_is_closed = (\<lambda>_ _. False), ce_close = (\<lambda>_ w. w), ce_file = (\<lambda>_ _. Inr [7, 8, 9]), ce_endpoint = (\<lambda>_. ()),
     ce_from_bytes = (\<lambda>_. Inr ()), ce_debug = (\<lambda>_. []), ce_debug_control = (\<lambda>_. []), ce_debug_data = (\<lambda>_. []) \<rparr>"

definition table_peer :: storage_peer_info where
  "table_peer = \<lparr> spi_storage_id = 5, spi_name = ''s'', spi_volumes = [], spi_iroh_endpoint = [] \<rparr>"

definition table_client :: "unit fs0_client" where
  "table_client = \<lparr> fcl_config = sample_client_config,
     fcl_central = (central_session_new sample_client_config None)\<lparr> cse_connection := Some 0, cse_storages := [table_peer] \<rparr>,
     fcl_storage_sessions = [], fcl_world = () \<rparr>"

text \<open>The client knows the storage, and its session with it is one with it.\<close>

definition table_inv :: "unit fs0_client \<Rightarrow> bool" where
  "table_inv s \<longleftrightarrow> cse_storages (fcl_central s) = [table_peer] \<and> (\<forall>x. hm_get (fcl_storage_sessions s) 5 = Some x \<longrightarrow> sse_storage_id x = 5)"

lemma table_connected:
  assumes "table_inv s" and "sse_storage_id x = 5"
  shows "\<exists>c x'. ensure_connected table_env (x, s) = (Inr c, (x', s)) \<and> sse_storage_id x' = 5"
  using assms
  by (cases "sse_connection x")
    (simp_all add: ensure_connected_def session_connect_def table_inv_def session_storage_peer_def table_peer_def table_env_def st_bind_def
      on_client_def outside_def authenticate_def authenticated_def set_connection_def)

lemma table_request:
  assumes "table_inv s" and "sse_storage_id x = 5" and "table_answer (protocol_request.Data q) = protocol_response.Data r"
  shows "\<exists>x'. session_request table_env q (x, s) = (Inr r, (x', s)) \<and> sse_storage_id x' = 5"
proof -
  obtain c x' where "ensure_connected table_env (x, s) = (Inr c, (x', s))" "sse_storage_id x' = 5" using table_connected [OF assms(1,2)] by blast
  then show ?thesis using assms(3) by (simp add: session_request_def st_bind_def on_client_def outside_def table_env_def data_answer_def)
qed

lemma table_in_session:
  assumes inv: "table_inv s" and run: "\<And>x s. table_inv s \<Longrightarrow> sse_storage_id x = 5 \<Longrightarrow> \<exists>x'. m (x, s) = (Inr r, (x', s)) \<and> sse_storage_id x' = 5"
  shows "\<exists>s'. in_session 5 m s = (Inr r, s') \<and> table_inv s'"
proof -
  obtain x s1 where x: "storage_session 5 s = (Inr x, s1)" "table_inv s1" "sse_storage_id x = 5"
    using inv by (cases "hm_get (fcl_storage_sessions s) 5")
      (auto simp: storage_session_def table_inv_def storage_session_new_def Let_def update_conv)
  then obtain x' where "m (x, s1) = (Inr r, (x', s1))" "sse_storage_id x' = 5" using run by blast
  with x show ?thesis by (auto simp: in_session_def st_bind_def table_inv_def update_conv)
qed

definition table_ctx :: upload_ctx where
  "table_ctx = \<lparr> ux_lease_id = 4, ux_file_id = 1, ux_volume_id = 9, ux_path = ''f'', ux_read = (\<lambda>_. Inr (2 ^ 20)), ux_enqueue = (\<lambda>_. None) \<rparr>"

definition table_bundle :: upload_bundle where
  "table_bundle = \<lparr> ub_bundle_id = bundle_hash_from_chunks table_blake3 table_refs, ub_raw_len = 3, ub_chunks = table_refs \<rparr>"

lemma table_eof:
  assumes "up_rest p = []" and "raw_len < VOLUME_BUNDLE_RAW_SIZE"
  shows "upload_chunks table_ctx table_blake3 new_size raw_len chunks p = (Inr (raw_len, chunks), p\<lparr> up_reads := up_reads p + 1 \<rparr>)"
  using assms by (subst upload_chunks.simps) (simp add: reader_read_def table_ctx_def Let_def)

lemma table_uploaded:
  "\<exists>p. upload_bundles table_ctx table_blake3 0 [] \<lparr> up_reads = 0, up_rest = [7, 8, 9], up_jobs = [] \<rparr> = (Inr (3, [table_bundle]), p)"
proof -
  let ?p = "\<lparr> up_reads = 0, up_rest = [7, 8, 9], up_jobs = [] \<rparr>"
  let ?p1 = "\<lparr> up_reads = 1, up_rest = [], up_jobs = [upload_job_of table_ctx table_blake3 0 [7, 8, 9]] \<rparr>"
  have limit: "min (Suc (2 ^ 20)) (read_limit 0) = 2 ^ 20"
    by (simp add: read_limit_def VOLUME_RAW_CHUNK_SIZE_def VOLUME_BUNDLE_RAW_SIZE_def)
  have read: "reader_read table_ctx (read_limit 0) ?p = (Inr [7, 8, 9], \<lparr> up_reads = 1, up_rest = [], up_jobs = [] \<rparr>)"
    using limit by (simp add: reader_read_def table_ctx_def Let_def)
  have "upload_chunks table_ctx table_blake3 0 0 [] ?p = upload_chunks table_ctx table_blake3 0 3 table_refs ?p1"
    by (subst upload_chunks.simps) (simp add: read checked_add_def enqueue_job_def table_refs_def VOLUME_BUNDLE_RAW_SIZE_def, simp add: table_ctx_def)
  then have c: "upload_chunks table_ctx table_blake3 0 0 [] ?p = (Inr (3, table_refs), ?p1\<lparr> up_reads := 2 \<rparr>)"
    by (simp add: table_eof VOLUME_BUNDLE_RAW_SIZE_def)
  have "upload_bundles table_ctx table_blake3 0 [] ?p = upload_bundles table_ctx table_blake3 3 [table_bundle] (?p1\<lparr> up_reads := 2 \<rparr>)"
    by (subst upload_bundles.simps) (simp add: c checked_add_def table_bundle_def, simp add: table_refs_def)
  also have "\<dots> = (Inr (3, [table_bundle]), ?p1\<lparr> up_reads := 3 \<rparr>)"
    by (subst upload_bundles.simps) (simp add: table_eof VOLUME_BUNDLE_RAW_SIZE_def)
  finally show ?thesis by blast
qed

lemma table_serves: "serves_bundle table_env table_blake3 sample_zstd {[7, 8, 9]} table_inv [table_peer] (hd (frp_bundles table_plan)) table_bundle"
proof -
  let ?m = "session_list_bundle_chunks table_env 9 (ub_bundle_id table_bundle)"
  let ?d = "download_chunk_job table_env table_blake3 sample_zstd \<lparr> dcr_volume_id = 9, dcr_chunk_id = blake3_hash table_blake3 [7, 8, 9] \<rparr>"
  have M: "\<exists>x'. ?m (x, s) = (Inr table_refs, (x', s)) \<and> sse_storage_id x' = 5" if "table_inv s" "sse_storage_id x = 5" for x s
    using table_request [OF that, of "data_request.ListBundleChunks 9 (ub_bundle_id table_bundle)"]
    by (auto simp: session_list_bundle_chunks_def expect_data_def)
  have m: "\<exists>s'. in_session 5 ?m s = (Inr table_refs, s') \<and> table_inv s'" if "table_inv s" for s
    by (rule table_in_session [OF that M])
  have Dl: "\<exists>x'. ?d (x, s) = (Inr \<lparr> dcs_chunk_id = blake3_hash table_blake3 [7, 8, 9], dcs_raw_bytes = [7, 8, 9] \<rparr>, (x', s)) \<and> sse_storage_id x' = 5"
    if "table_inv s" "sse_storage_id x = 5" for x s
    using table_request [OF that, of "data_request.DownloadChunk \<lparr> dcr_volume_id = 9, dcr_chunk_id = blake3_hash table_blake3 [7, 8, 9] \<rparr>"]
    by (auto simp: download_chunk_job_def session_download_chunk_def expect_data_def decompress_chunk_def zstd_decompress_def sample_zstd_def
        VOLUME_RAW_CHUNK_SIZE_def)
  have d: "\<exists>r s'. in_session 5 ?d s = (Inr r, s') \<and> table_inv s' \<and> dcs_raw_bytes r \<in> {[7, 8, 9]}" if "table_inv s" for s
    using table_in_session [OF that Dl] by fastforce
  from m d show ?thesis
    by (auto simp: serves_bundle_def lists_bundle_def find_replica_def table_plan_def table_peer_def table_bundle_def table_refs_def)
qed

definition table_download :: download_env where
  "table_download = \<lparr> dle_create = None, dle_enqueue = (\<lambda>_. None), dle_order = rev, dle_before = 1, dle_writer_open = (\<lambda>_. True), dle_write = (\<lambda>_. None) \<rparr>"

theorem download_restores_upload_witness:
  "\<exists>s'. download_file table_env table_blake3 sample_zstd table_download ''/f'' table_client =
     (Inr (\<lparr> tst_chunks = 1, tst_size = 3 \<rparr>, [7, 8, 9]), s')"
proof -
  obtain p where up: "upload_bundles table_ctx table_blake3 0 [] \<lparr> up_reads = 0, up_rest = [7, 8, 9], up_jobs = [] \<rparr> = (Inr (3, [table_bundle]), p)"
    using table_uploaded by blast
  have reads: "full_reads table_ctx" "length [7 :: u8, 8, 9] < 2 ^ 63" by (simp_all add: full_reads_def table_ctx_def)
  have sole: "\<forall>a m. hash_tells table_blake3 {[7, 8, 9]} (take m (drop a [7, 8, 9]))" by (auto intro!: table_tells simp: min_def)
  have plan: "call_get_file_read_plan table_env ''/f'' table_client = (Inr table_plan, table_client)"
    by (simp add: call_get_file_read_plan_def expect_def central_request_def central_ensure_connected_def table_client_def table_env_def
        outside_def st_bind_def)
  have fits: "frp_size table_plan = 3" "plan_fits 0 (frp_bundles table_plan) [table_bundle]" by (simp_all add: table_plan_def table_bundle_def)
  have storages: "cse_storages (fcl_central table_client) = [table_peer]" by (simp add: table_client_def)
  have "frp_bundles table_plan = [hd (frp_bundles table_plan)]" by (simp add: table_plan_def)
  then have serves: "list_all2 (serves_bundle table_env table_blake3 sample_zstd {[7, 8, 9]} table_inv (cse_storages (fcl_central table_client)))
      (frp_bundles table_plan) [table_bundle]" using table_serves unfolding storages by (metis list.rel_intros)
  have "table_inv table_client" "completes_all table_download"
    by (simp_all add: table_inv_def table_client_def completes_all_def table_download_def)
  from download_restores_upload [OF up reads sole plan fits serves this] show ?thesis
    by (simp add: div_ceil_def VOLUME_RAW_CHUNK_SIZE_def)
qed

end
