(* ===== verification/Message_Types.thy ===== *)
theory Message_Types
  imports Central_Update Storage_Server Client_Session
begin

text \<open>
  Which response belongs to which request (\<^verbatim>\<open>fs0-core/src/protocol.rs\<close> pairs them by their names), that the handlers of
  the servers answer each request with a response of its own kind or with an error, and that the calls of a client
  therefore never take an answer of a server for an unexpected one.
\<close>

section \<open>Requests and their responses\<close>

text \<open>A request that names a file by its path may be answered like the one that names it by its identifier.\<close>

fun control_answer :: "control_request \<Rightarrow> control_response \<Rightarrow> bool" where
  "control_answer (control_request.RegisterClient _ _ _) r \<longleftrightarrow> (\<exists>i ps. r = control_response.RegisterClient i ps)"
| "control_answer (control_request.RegisterStorage _ _ _ _ _) r \<longleftrightarrow> (\<exists>i ps. r = control_response.RegisterStorage i ps)"
| "control_answer (control_request.UpdateStorageEndpoint _ _) r \<longleftrightarrow> r = control_response.UpdateStorageEndpoint"
| "control_answer (control_request.CreateVolume _ _) r \<longleftrightarrow> (\<exists>i. r = control_response.CreateVolume i)"
| "control_answer control_request.CentralStatus r \<longleftrightarrow> (\<exists>n ps. r = control_response.CentralStatus n ps)"
| "control_answer (control_request.ListDirectory _ _ _) r \<longleftrightarrow> (\<exists>es. r = control_response.ListDirectory es)"
| "control_answer (control_request.GetFileReadPlan _) r \<longleftrightarrow>
     (\<exists>p. r = control_response.GetFileReadPlan p \<or> r = control_response.GetFileReadPlanById p)"
| "control_answer (control_request.GetFileReadPlanById _) r \<longleftrightarrow> (\<exists>p. r = control_response.GetFileReadPlanById p)"
| "control_answer (control_request.HasBundle _ _) r \<longleftrightarrow> (\<exists>b. r = control_response.HasBundle b)"
| "control_answer (control_request.DeleteFile _) r \<longleftrightarrow> r = control_response.DeleteFile \<or> r = control_response.DeleteFileById"
| "control_answer (control_request.DeleteFileById _) r \<longleftrightarrow> r = control_response.DeleteFileById"
| "control_answer (control_request.CopyFile _ _) r \<longleftrightarrow> (\<exists>f. r = control_response.CopyFile f \<or> r = control_response.CopyFileById f)"
| "control_answer (control_request.CopyFileById _ _) r \<longleftrightarrow> (\<exists>f. r = control_response.CopyFileById f)"
| "control_answer (control_request.RenameFile _ _) r \<longleftrightarrow>
     (\<exists>f. r = control_response.RenameFile f \<or> r = control_response.RenameFileById f)"
| "control_answer (control_request.RenameFileById _ _) r \<longleftrightarrow> (\<exists>f. r = control_response.RenameFileById f)"
| "control_answer (control_request.GetFileChangeLogs _ _) r \<longleftrightarrow> (\<exists>logs. r = control_response.GetFileChangeLogs logs)"
| "control_answer (control_request.BeginUpdate _) r \<longleftrightarrow> (\<exists>lease. r = control_response.BeginUpdate lease)"
| "control_answer (control_request.CommitUpdate _) r \<longleftrightarrow> (\<exists>f. r = control_response.CommitUpdate f)"
| "control_answer (control_request.AbortUpdate _ _) r \<longleftrightarrow> r = control_response.AbortUpdate"
| "control_answer (control_request.GrantUploadLease _) r \<longleftrightarrow> (\<exists>i. r = control_response.GrantUploadLease i)"
| "control_answer (control_request.RevokeUploadLease _) r \<longleftrightarrow> r = control_response.RevokeUploadLease"
| "control_answer (control_request.ReportBundleReplica _) r \<longleftrightarrow> r = control_response.ReportBundleReplica"
| "control_answer (control_request.UpdateStorageVolumeOffset _ _) r \<longleftrightarrow> r = control_response.UpdateStorageVolumeOffset"
| "control_answer (control_request.ValidateClientAuth _ _) r \<longleftrightarrow> (\<exists>i. r = control_response.ValidateClientAuth i)"

text \<open>What exists is answered with its lengths; an upload and a commit name the chunk and the bundle of the request.\<close>

fun data_answer_of :: "data_request \<Rightarrow> data_response \<Rightarrow> bool" where
  "data_answer_of (data_request.Authenticate i _) r \<longleftrightarrow> r = data_response.Authenticate i"
| "data_answer_of (data_request.HasChunk _ _) r \<longleftrightarrow>
     (\<exists>found raw compressed. r = data_response.HasChunk found raw compressed \<and> (found \<longrightarrow> raw \<noteq> None \<and> compressed \<noteq> None))"
| "data_answer_of (data_request.UploadChunk q) r \<longleftrightarrow> (\<exists>x. r = data_response.UploadChunk x \<and> ucs_chunk_id x = ucr_chunk_id q)"
| "data_answer_of (data_request.DownloadChunk _) r \<longleftrightarrow> (\<exists>bytes. r = data_response.DownloadChunk bytes)"
| "data_answer_of (data_request.HasBundle _ _) r \<longleftrightarrow>
     (\<exists>found raw compressed. r = data_response.HasBundle found raw compressed \<and> (found \<longrightarrow> raw \<noteq> None \<and> compressed \<noteq> None))"
| "data_answer_of (data_request.CommitBundle q) r \<longleftrightarrow> (\<exists>x. r = data_response.CommitBundle x \<and> cbs_bundle_id x = cbr_bundle_id q)"
| "data_answer_of (data_request.ListBundleChunks _ _) r \<longleftrightarrow> (\<exists>chunks. r = data_response.ListBundleChunks chunks)"

section \<open>What a computation returns\<close>

definition st_returns :: "('a \<Rightarrow> bool) \<Rightarrow> ('s, 'e, 'a) st \<Rightarrow> bool" where
  "st_returns P m \<longleftrightarrow> (\<forall>s x s'. m s = (Inr x, s') \<longrightarrow> P x)"

lemma returns_return: "P x \<Longrightarrow> st_returns P (st_return x)"
  by (simp add: st_returns_def)

lemma returns_throw: "st_returns P (st_throw e)"
  by (simp add: st_returns_def)

lemma returns_bind: "(\<And>x. st_returns P (f x)) \<Longrightarrow> st_returns P (st_bind m f)"
  by (auto simp: st_returns_def st_bind_Inr_iff)

lemma returns_if: "(b \<Longrightarrow> st_returns P m) \<Longrightarrow> (\<not> b \<Longrightarrow> st_returns P m') \<Longrightarrow> st_returns P (if b then m else m')"
  by simp

lemma returns_option:
  "(v = None \<Longrightarrow> st_returns P m) \<Longrightarrow> (\<And>x. v = Some x \<Longrightarrow> st_returns P (f x)) \<Longrightarrow>
     st_returns P (case v of None \<Rightarrow> m | Some x \<Rightarrow> f x)"
  by (cases v) simp_all

lemma returns_pair: "(\<And>x y. st_returns P (f x y)) \<Longrightarrow> st_returns P (case p of (x, y) \<Rightarrow> f x y)"
  by (cases p) simp

lemmas returns_intros = returns_bind returns_if returns_option returns_pair returns_throw returns_return

section \<open>The servers answer in kind\<close>

lemma returns_gets: "(\<And>s. P (g s)) \<Longrightarrow> st_returns P (st_gets g)"
  by (simp add: st_returns_def)

lemma begin_update_answers: "st_returns (control_answer (control_request.BeginUpdate q)) (begin_update E q)"
proof -
  have finish: "begin_update_finish E lease granted s = (Inr x, s') \<Longrightarrow> x = control_response.BeginUpdate lease" for lease granted s x s'
    by (auto simp: begin_update_finish_def st_bind_Inr_iff split: sum.splits)
  show ?thesis unfolding begin_update_def
    by (intro returns_bind returns_pair) (auto simp: st_returns_def split: prod.splits dest: finish)
qed

lemma returns_update_endpoint:
  "st_returns (control_answer (control_request.UpdateStorageEndpoint j e')) (update_storage_endpoint i e)"
  by (simp add: update_storage_endpoint_def returns_intros del: st_bind_eval)

lemma returns_then: "st_returns P m \<Longrightarrow> st_returns P (st_bind m (\<lambda>x. st_bind (st_modify h) (\<lambda>_. st_return x)))"
  by (auto simp: st_returns_def st_bind_Inr_iff)

lemma client_request_answers: "st_returns (control_answer q) (handle_client_request E q)"
  by (cases q)
    (simp_all add: central_status_def handle_create_volume_def handle_list_directory_def get_file_read_plan_def
      get_file_read_plan_by_id_def handle_has_bundle_def handle_delete_file_def handle_delete_file_by_id_def handle_copy_file_def
      handle_copy_file_by_id_def handle_rename_file_def handle_rename_file_by_id_def handle_get_file_change_logs_def
      begin_update_answers commit_update_def abort_update_def returns_intros returns_gets del: st_bind_eval)

lemma storage_request_answers: "st_returns (control_answer q) (handle_storage_request E i q)"
  by (cases q)
    (simp_all add: handle_create_volume_def validate_client_auth_def report_bundle_replica_def returns_then returns_update_endpoint
      update_storage_volume_offset_def Let_def returns_intros del: st_bind_eval)

lemma control_request_answers:
  assumes "handle_control_request E c q i s = (protocol_response.Control r, i', s')"
  shows "control_answer q r"
proof -
  have other: "control_answer q r"
    if "respond (case i of Client _ \<Rightarrow> (case handle_client_request E q s of (r, s') \<Rightarrow> (r, i, s'))
        | Storage storage_id \<Rightarrow> (case handle_storage_request E storage_id q s of (r, s') \<Rightarrow> (r, i, s'))
        | Anonymous \<Rightarrow> (Inl Unauthorized, i, s)) = (protocol_response.Control r, i', s')"
  proof (cases i)
    case (Client k)
    then show ?thesis using that client_request_answers [of q E] by (auto simp: respond_def st_returns_def split: prod.splits sum.splits)
  next
    case (Storage k)
    then show ?thesis using that storage_request_answers [of q E k]
      by (cases "handle_storage_request E k q s") (auto simp: respond_def st_returns_def split: sum.splits)
  qed (use that in \<open>simp add: respond_def\<close>)
  show ?thesis
    by (cases q) (use assms other in \<open>auto simp: respond_def simp del: control_answer.simps(3-) split: prod.splits sum.splits\<close>)
qed

lemma storage_control_answers: "st_returns (control_answer q) (storage_control_request q)"
  by (cases q) (auto simp: st_returns_def grant_upload_lease_def revoke_upload_lease_def split: if_splits)

lemma has_chunk_answers: "st_returns (data_answer_of (data_request.HasChunk i c)) (has_chunk i c)"
  by (auto simp: st_returns_def has_chunk_def split: prod.splits sum.splits fs0_error.splits)

lemma data_request_answers: "st_returns (data_answer_of q) (handle_data_request E q)"
  by (cases q)
    (auto simp: has_chunk_answers upload_chunk_def download_chunk_def has_bundle_def storage_commit_bundle_def
      storage_list_bundle_chunks_def split: option.splits simp del: st_bind_eval intro!: returns_intros)

lemma data_connection_answers:
  assumes res: "data_connection_request E (protocol_request.Data q) st = (Inr r, x)"
  shows "data_answer_of q r"
proof (cases "fst st")
  case None
  with res obtain s where "data_connection_request E (protocol_request.Data q) (None, s) = (Inr r, x)" by (cases st) simp
  then show ?thesis by (cases q) (auto split: prod.splits sum.splits)
next
  case (Some i)
  with res obtain s where "data_connection_request E (protocol_request.Data q) (Some i, s) = (Inr r, x)" by (cases st) simp
  then have "\<exists>s'. handle_data_request E q s = (Inr r, s')"
    by (cases q) (auto simp del: handle_data_request.simps split: prod.splits)
  then show ?thesis using data_request_answers unfolding st_returns_def by blast
qed

section \<open>The calls of a client\<close>

text \<open>The answers that a client gets are those of the two servers; lost connections and frames may make any call fail.\<close>

definition served :: "'h blake3 \<Rightarrow> ('e, 'w) client_env \<Rightarrow> bool" where
  "served B E \<longleftrightarrow>
     (\<forall>c q t w r w'. ce_rpc E c (protocol_request.Control q) t w = (Inr (protocol_response.Control r), w') \<longrightarrow>
        (\<exists>E' conn i s i' s'. handle_control_request E' conn q i s = (protocol_response.Control r, i', s'))) \<and>
     (\<forall>c q t w r w'. ce_rpc E c (protocol_request.Data q) t w = (Inr (protocol_response.Data r), w') \<longrightarrow>
        (\<exists>E' st st'. se_blake3 E' = B \<and> data_connection_request E' (protocol_request.Data q) st = (Inr r, st')))"

lemma served_control:
  assumes "served B E" and "ce_rpc E c (protocol_request.Control q) t w = (Inr (protocol_response.Control r), w')"
  shows "control_answer q r"
  using assms(1) [unfolded served_def, THEN conjunct1, rule_format, OF assms(2)] by (elim exE) (rule control_request_answers)

lemma served_data:
  assumes "served B E" and "ce_rpc E c (protocol_request.Data q) t w = (Inr (protocol_response.Data r), w')"
  shows "data_answer_of q r"
  using assms(1) [unfolded served_def, THEN conjunct2, rule_format, OF assms(2)]
  by (elim exE conjE) (rule data_connection_answers)

text \<open>A call that fails only when the request itself fails, with the same error and the same state.\<close>

definition fails_like :: "('s, 'e, 'b) st \<Rightarrow> ('s, 'e, 'a) st \<Rightarrow> bool" where
  "fails_like request m \<longleftrightarrow> (\<forall>s e s'. m s = (Inl e, s') \<longrightarrow> request s = (Inl e, s'))"

lemma fails_like_bind:
  assumes "\<And>s x s'. request s = (Inr x, s') \<Longrightarrow> \<not> isl (fst (f x s'))"
  shows "fails_like request (st_bind request f)"
  unfolding fails_like_def
proof (intro allI impI)
  fix s e s' assume m: "st_bind request f s = (Inl e, s')"
  obtain r t where r: "request s = (r, t)" by force
  show "request s = (Inl e, s')"
  proof (cases r)
    case (Inl e')
    then show ?thesis using m r by (simp add: st_bind_def)
  next
    case (Inr x)
    then have "f x t = (Inl e, s')" using m r by (simp add: st_bind_def)
    with assms r Inr show ?thesis by (metis fst_conv sum.disc(1))
  qed
qed

lemma fails_like_trans: "fails_like a b \<Longrightarrow> fails_like b c \<Longrightarrow> fails_like a c"
  by (simp add: fails_like_def)

lemma central_request_answers:
  assumes "served B E" and "central_request E q s = (Inr r, s')"
  shows "control_answer q r"
proof -
  from assms(2) obtain c t response t' where o: "outside (ce_rpc E c (protocol_request.Control q) None) t = (Inr response, t')"
    and k: "(case response of Error e \<Rightarrow> st_throw e | protocol_response.Control r \<Rightarrow> st_return r
      | _ \<Rightarrow> st_throw (unexpected_control (ce_debug E response))) t' = (Inr r, s')"
    unfolding central_request_def st_bind_Inr_iff by blast
  from k have response: "response = protocol_response.Control r" by (cases response) simp_all
  obtain w' where "ce_rpc E c (protocol_request.Control q) None (fcl_world t) = (Inr response, w')"
    using o by (cases "ce_rpc E c (protocol_request.Control q) None (fcl_world t)") (simp add: outside_def)
  with served_control [OF assms(1)] response show ?thesis by blast
qed

lemma session_request_answers:
  assumes "served B E" and "session_request E q s = (Inr r, s')"
  shows "data_answer_of q r"
proof -
  from assms(2) obtain c x response y where o: "on_client (outside (ce_rpc E c (protocol_request.Data q) (request_timeout q))) x =
      (Inr response, y)" and k: "(case y of (z, u) \<Rightarrow> case data_answer E response of Inr r \<Rightarrow> (Inr r, (z, u))
        | Inl e \<Rightarrow> (Inl e, (if ce_is_closed E c (fcl_world u) then z\<lparr> sse_connection := None \<rparr> else z, u))) = (Inr r, s')"
    unfolding session_request_def st_bind_Inr_iff by blast
  from k have response: "response = protocol_response.Data r"
    by (cases response) (simp_all add: data_answer_def split: prod.splits)
  obtain z u where x: "x = (z, u)" by force
  obtain w' where "ce_rpc E c (protocol_request.Data q) (request_timeout q) (fcl_world u) = (Inr response, w')"
    using o by (cases "ce_rpc E c (protocol_request.Data q) (request_timeout q) (fcl_world u)") (simp add: outside_def on_client_def x)
  with served_data [OF assms(1)] response show ?thesis by blast
qed

lemma expect_fails_like:
  assumes "served B E" and "\<And>r. control_answer q r \<Longrightarrow> accept r \<noteq> None"
  shows "fails_like (central_request E q) (expect E accept q)"
  unfolding expect_def
proof (rule fails_like_bind)
  fix s r s' assume "central_request E q s = (Inr r, s')"
  then have "accept r \<noteq> None" using central_request_answers [OF assms(1)] assms(2) by blast
  then show "\<not> isl (fst (st_lift (ok_or (unexpected_control (ce_debug_control E r)) (accept r)) s'))" by (auto simp: ok_or_def)
qed

lemma expect_data_fails_like:
  assumes "served B E" and "\<And>r. data_answer_of q r \<Longrightarrow> accept r \<noteq> None"
  shows "fails_like (session_request E q) (expect_data E accept q)"
  unfolding expect_data_def
proof (rule fails_like_bind)
  fix s r s' assume "session_request E q s = (Inr r, s')"
  then have "accept r \<noteq> None" using session_request_answers [OF assms(1)] assms(2) by blast
  then show "\<not> isl (fst (st_lift (ok_or (unexpected_data (ce_debug_data E r)) (accept r)) s'))" by (auto simp: ok_or_def)
qed

lemma central_status_fails_like:
  assumes "served B E"
  shows "fails_like (central_request E control_request.CentralStatus) (call_central_status E)"
  unfolding call_central_status_def
  by (rule fails_like_trans [OF expect_fails_like [OF assms] fails_like_bind]) (auto simp: update_central_def split: prod.splits)

text \<open>The calls of the client: to central and, in the session with a storage, to that.\<close>

lemma control_calls_fail_like:
  assumes "served B E"
  shows "fails_like (central_request E (control_request.CreateVolume name max_bytes)) (call_create_volume E name max_bytes)"
    and "fails_like (central_request E (control_request.ListDirectory path limit cursor)) (call_list_directory E path limit cursor)"
    and "fails_like (central_request E (control_request.GetFileReadPlan path)) (call_get_file_read_plan E path)"
    and "fails_like (central_request E (control_request.HasBundle b v)) (call_has_bundle E b v)"
    and "fails_like (central_request E (control_request.DeleteFile path)) (call_delete_file E path)"
    and "fails_like (central_request E (control_request.DeleteFileById i)) (call_delete_file_by_id E i)"
    and "fails_like (central_request E (control_request.CopyFile path target)) (call_copy_file E path target)"
    and "fails_like (central_request E (control_request.CopyFileById i target)) (call_copy_file_by_id E i target)"
    and "fails_like (central_request E (control_request.RenameFile path target)) (call_rename_file E path target)"
    and "fails_like (central_request E (control_request.RenameFileById i target)) (call_rename_file_by_id E i target)"
    and "fails_like (central_request E (control_request.BeginUpdate bu)) (call_begin_update E bu)"
    and "fails_like (central_request E (control_request.CommitUpdate cu)) (call_commit_update E cu)"
    and "fails_like (central_request E (control_request.AbortUpdate l i)) (call_abort_update E l i)"
    and "fails_like (central_request E (control_request.GetFileChangeLogs i limit)) (call_get_file_change_logs E i limit)"
  unfolding call_create_volume_def call_list_directory_def call_get_file_read_plan_def call_has_bundle_def call_delete_file_def
    call_delete_file_by_id_def call_copy_file_def call_copy_file_by_id_def call_rename_file_def call_rename_file_by_id_def
    call_begin_update_def call_commit_update_def call_abort_update_def call_get_file_change_logs_def
  by (rule expect_fails_like [OF assms]; auto)+

lemma data_calls_fail_like:
  assumes "served B E"
  shows "fails_like (session_request E (data_request.HasChunk v c)) (session_has_chunk E v c)"
    and "fails_like (session_request E (data_request.UploadChunk up)) (session_upload_chunk E up)"
    and "fails_like (session_request E (data_request.DownloadChunk down)) (session_download_chunk E down)"
    and "fails_like (session_request E (data_request.HasBundle v b)) (session_has_bundle E v b)"
    and "fails_like (session_request E (data_request.CommitBundle commit)) (session_commit_bundle E commit)"
    and "fails_like (session_request E (data_request.ListBundleChunks v b)) (session_list_bundle_chunks E v b)"
  unfolding session_has_chunk_def session_upload_chunk_def session_download_chunk_def session_has_bundle_def
    session_commit_bundle_def session_list_bundle_chunks_def
  by (rule expect_data_fails_like [OF assms]; auto simp: exists_lens_def)+

end
