(* ===== verification/Connection_Accept.thy ===== *)
theory Connection_Accept
  imports Transport "HOL-Library.Sublist"
begin

text \<open>
  The accepting side of a connection (\<open>accept_loop\<close> and \<open>spawn_accept\<close> of \<^verbatim>\<open>fs0-transport/src/connection.rs\<close>): a task for
  each accepted stream, all running at the same time, calls the handler; the loop ends when a stream cannot be accepted,
  when a task panics or when it is told to exit, and drops its tasks. A stream is given by the bytes that it will
  deliver; a handler by the results that a call of it may have, so that calls of different streams may overlap.
\<close>

section \<open>The tasks of the streams\<close>

text \<open>
  A stream with a request: its bytes are read, the handler runs, the answer is written. A one-way stream: its bytes
  are read, the handler runs on an event before the next one is read.
\<close>

datatype stream_task =
    Reading_Request "u8 list"
  | Handling_Request protocol_request
  | Answering protocol_response
  | Reading_Event "u8 list"
  | Handling_Event "u8 list"

datatype stream_input = Bidirectional "u8 list" | Unidirectional "u8 list"

type_synonym request_handler = "protocol_request \<Rightarrow> (protocol_response option) fs0_result \<Rightarrow> bool"

fun answer_of :: "(protocol_response option) fs0_result \<Rightarrow> protocol_response" where
  "answer_of (Inr (Some response)) = response"
| "answer_of (Inr None) = Error InvalidRequest"
| "answer_of (Inl e) = Error e"

text \<open>The accepted streams, the tasks that run, the calls of the handler, what was written to the streams, and how the
  loop ended.\<close>

record accept_state =
  as_streams :: "nat \<Rightarrow> stream_input option"
  as_tasks :: "nat \<Rightarrow> stream_task option"
  as_calls :: "(nat \<times> protocol_request) list"
  as_written :: "(nat \<times> u8 list) list"
  as_result :: "unit fs0_result option"

definition accept_start :: accept_state where
  "accept_start = \<lparr> as_streams = Map.empty, as_tasks = Map.empty, as_calls = [], as_written = [], as_result = None \<rparr>"

definition end_loop :: "unit fs0_result \<Rightarrow> accept_state \<Rightarrow> accept_state" where
  "end_loop r x = x\<lparr> as_tasks := Map.empty, as_result := Some r \<rparr>"

inductive accept_step ::
  "protocol_request codec \<Rightarrow> protocol_event codec \<Rightarrow> protocol_response codec \<Rightarrow> request_handler \<Rightarrow> accept_state \<Rightarrow> accept_state \<Rightarrow> bool"
  for Q V A handler where
  accepts_bi: "as_result x = None \<Longrightarrow> as_streams x i = None \<Longrightarrow>
    accept_step Q V A handler x (x\<lparr> as_streams := (as_streams x)(i \<mapsto> Bidirectional bytes), as_tasks := (as_tasks x)(i \<mapsto> Reading_Request bytes) \<rparr>)"
| accepts_uni: "as_result x = None \<Longrightarrow> as_streams x i = None \<Longrightarrow>
    accept_step Q V A handler x (x\<lparr> as_streams := (as_streams x)(i \<mapsto> Unidirectional bytes), as_tasks := (as_tasks x)(i \<mapsto> Reading_Event bytes) \<rparr>)"
| calls: "as_tasks x i = Some (Reading_Request bytes) \<Longrightarrow> fst (read_frame Q bytes) = Inr request \<Longrightarrow>
    accept_step Q V A handler x (x\<lparr> as_tasks := (as_tasks x)(i \<mapsto> Handling_Request request), as_calls := as_calls x @ [(i, request)] \<rparr>)"
| bad_request: "as_tasks x i = Some (Reading_Request bytes) \<Longrightarrow> fst (read_frame Q bytes) = Inl e \<Longrightarrow>
    accept_step Q V A handler x (x\<lparr> as_tasks := (as_tasks x)(i \<mapsto> Answering (Error e)) \<rparr>)"
| returns: "as_tasks x i = Some (Handling_Request request) \<Longrightarrow> handler request r \<Longrightarrow>
    accept_step Q V A handler x (x\<lparr> as_tasks := (as_tasks x)(i \<mapsto> Answering (answer_of r)) \<rparr>)"
| answers: "as_tasks x i = Some (Answering response) \<Longrightarrow>
    accept_step Q V A handler x (x\<lparr> as_tasks := (as_tasks x)(i := None), as_written := as_written x @ [(i, snd (write_frame A W response []))] \<rparr>)"
| event: "as_tasks x i = Some (Reading_Event bytes) \<Longrightarrow> read_frame V bytes = (Inr event, rest) \<Longrightarrow>
    accept_step Q V A handler x (x\<lparr> as_tasks := (as_tasks x)(i \<mapsto> Handling_Event rest), as_calls := as_calls x @ [(i, protocol_request.Event event)] \<rparr>)"
| event_handled: "as_tasks x i = Some (Handling_Event rest) \<Longrightarrow>
    accept_step Q V A handler x (x\<lparr> as_tasks := (as_tasks x)(i \<mapsto> Reading_Event rest) \<rparr>)"
| events_end: "as_tasks x i = Some (Reading_Event bytes) \<Longrightarrow> read_frame V bytes = (Inl e, rest) \<Longrightarrow>
    accept_step Q V A handler x (x\<lparr> as_tasks := (as_tasks x)(i := None) \<rparr>)"
| panics: "as_tasks x i \<noteq> None \<Longrightarrow>
    accept_step Q V A handler x (end_loop (Inl (Internal (''transport stream task panicked: '' @ msg))) x)"
| accept_fails: "as_result x = None \<Longrightarrow> accept_step Q V A handler x (end_loop (Inl (Internal msg)) x)"
| exits: "as_result x = None \<Longrightarrow> accept_step Q V A handler x (end_loop (Inr ()) x)"

inductive accept_reachable ::
  "protocol_request codec \<Rightarrow> protocol_event codec \<Rightarrow> protocol_response codec \<Rightarrow> request_handler \<Rightarrow> accept_state \<Rightarrow> bool"
  for Q V A handler where
  start: "accept_reachable Q V A handler accept_start"
| step: "accept_reachable Q V A handler x \<Longrightarrow> accept_step Q V A handler x y \<Longrightarrow> accept_reachable Q V A handler y"

section \<open>What each stream asks for\<close>

function events_of :: "protocol_event codec \<Rightarrow> u8 list \<Rightarrow> protocol_event list" where
  "events_of V bytes = (case read_frame V bytes of (Inl e, _) \<Rightarrow> [] | (Inr event, rest) \<Rightarrow> event # events_of V rest)"
  by pat_completeness auto
termination by (relation "measure (\<lambda>(V, bytes). length bytes)") (auto dest: sym intro: read_frame_shorter)

declare events_of.simps [simp del]

fun requested :: "protocol_request codec \<Rightarrow> protocol_event codec \<Rightarrow> stream_input \<Rightarrow> protocol_request list" where
  "requested Q V (Bidirectional bytes) = (case fst (read_frame Q bytes) of Inl e \<Rightarrow> [] | Inr request \<Rightarrow> [request])"
| "requested Q V (Unidirectional bytes) = map protocol_request.Event (events_of V bytes)"

definition of_stream :: "nat \<Rightarrow> (nat \<times> 'a) list \<Rightarrow> 'a list" where
  "of_stream i xs = map snd (filter (\<lambda>x. fst x = i) xs)"

lemma of_stream_simps [simp]:
  "of_stream i [] = []" "of_stream i (xs @ [(j, y)]) = of_stream i xs @ (if j = i then [y] else [])"
  by (simp_all add: of_stream_def)

text \<open>The answer that belongs to the bytes of a stream: to the request in them, or that they hold none.\<close>

definition answer_for :: "protocol_request codec \<Rightarrow> request_handler \<Rightarrow> u8 list \<Rightarrow> protocol_response \<Rightarrow> bool" where
  "answer_for Q handler bytes response \<longleftrightarrow>
     (case fst (read_frame Q bytes) of
        Inl e \<Rightarrow> response = Error e
      | Inr request \<Rightarrow> \<exists>r. handler request r \<and> response = answer_of r)"

section \<open>The invariant\<close>

text \<open>Where a stream stands: what it has had of its calls and its answer, while its task runs and after.\<close>

fun stream_at ::
  "protocol_request codec \<Rightarrow> protocol_event codec \<Rightarrow> protocol_response codec \<Rightarrow> request_handler \<Rightarrow> bool \<Rightarrow>
   stream_input \<Rightarrow> stream_task option \<Rightarrow> protocol_request list \<Rightarrow> u8 list list \<Rightarrow> bool" where
  "stream_at Q V A handler over (Bidirectional bytes) (Some (Reading_Request b)) calls out \<longleftrightarrow> b = bytes \<and> calls = [] \<and> out = []"
| "stream_at Q V A handler over (Bidirectional bytes) (Some (Handling_Request q)) calls out \<longleftrightarrow>
     fst (read_frame Q bytes) = Inr q \<and> calls = [q] \<and> out = []"
| "stream_at Q V A handler over (Bidirectional bytes) (Some (Answering response)) calls out \<longleftrightarrow>
     calls = requested Q V (Bidirectional bytes) \<and> answer_for Q handler bytes response \<and> out = []"
| "stream_at Q V A handler over (Bidirectional bytes) None calls out \<longleftrightarrow>
     (over \<and> prefix calls (requested Q V (Bidirectional bytes)) \<and> out = []) \<or>
     (calls = requested Q V (Bidirectional bytes) \<and>
        (\<exists>W response. answer_for Q handler bytes response \<and> out = [snd (write_frame A W response [])]))"
| "stream_at Q V A handler over (Unidirectional bytes) (Some (Reading_Event rest)) calls out \<longleftrightarrow>
     requested Q V (Unidirectional bytes) = calls @ requested Q V (Unidirectional rest) \<and> out = []"
| "stream_at Q V A handler over (Unidirectional bytes) (Some (Handling_Event rest)) calls out \<longleftrightarrow>
     requested Q V (Unidirectional bytes) = calls @ requested Q V (Unidirectional rest) \<and> out = []"
| "stream_at Q V A handler over (Unidirectional bytes) None calls out \<longleftrightarrow>
     prefix calls (requested Q V (Unidirectional bytes)) \<and> (over \<or> calls = requested Q V (Unidirectional bytes)) \<and> out = []"
| "stream_at Q V A handler over _ _ calls out \<longleftrightarrow> False"

definition stream_inv ::
  "protocol_request codec \<Rightarrow> protocol_event codec \<Rightarrow> protocol_response codec \<Rightarrow> request_handler \<Rightarrow> accept_state \<Rightarrow> nat \<Rightarrow> bool" where
  "stream_inv Q V A handler x i \<longleftrightarrow>
     (case as_streams x i of
        None \<Rightarrow> as_tasks x i = None \<and> of_stream i (as_calls x) = [] \<and> of_stream i (as_written x) = []
      | Some input \<Rightarrow>
          stream_at Q V A handler (as_result x \<noteq> None) input (as_tasks x i) (of_stream i (as_calls x)) (of_stream i (as_written x)))"

lemma stream_at_over:
  "stream_at Q V A handler over input task calls out \<Longrightarrow> stream_at Q V A handler True input None calls out"
  by (cases "(Q, V, A, handler, over, input, task, calls, out)" rule: stream_at.cases) (auto split: sum.splits)

lemma stream_inv_end: "stream_inv Q V A handler x i \<Longrightarrow> stream_inv Q V A handler (end_loop r x) i"
  by (auto simp: stream_inv_def end_loop_def dest: stream_at_over split: option.splits)

lemma stream_inv_step:
  assumes "accept_step Q V A handler x y" and "\<And>i. stream_inv Q V A handler x i"
  shows "stream_inv Q V A handler y j"
  using assms(1)
proof cases
  case (accepts_bi i bytes)
  then show ?thesis using assms(2) [of j] by (auto simp: stream_inv_def split: option.splits)
next
  case (accepts_uni i bytes)
  then show ?thesis using assms(2) [of j] by (auto simp: stream_inv_def split: option.splits)
next
  case (calls i bytes request)
  then show ?thesis using assms(2) [of j]
    by (cases "as_streams x i"; cases "the (as_streams x i)") (auto simp: stream_inv_def split: option.splits)
next
  case (bad_request i bytes e)
  then show ?thesis using assms(2) [of j]
    by (cases "as_streams x i"; cases "the (as_streams x i)") (auto simp: stream_inv_def answer_for_def split: option.splits)
next
  case (returns i request r)
  then show ?thesis using assms(2) [of j]
    by (cases "as_streams x i"; cases "the (as_streams x i)") (auto simp: stream_inv_def answer_for_def split: option.splits)
next
  case (answers i response W)
  then show ?thesis using assms(2) [of j]
    by (cases "as_streams x i"; cases "the (as_streams x i)") (auto simp: stream_inv_def split: option.splits, blast)
next
  case (event i bytes event rest)
  then show ?thesis using assms(2) [of j]
    by (cases "as_streams x i"; cases "the (as_streams x i)")
      (auto simp: stream_inv_def events_of.simps [of V bytes] split: option.splits)
next
  case (event_handled i rest)
  then show ?thesis using assms(2) [of j]
    by (cases "as_streams x i"; cases "the (as_streams x i)") (auto simp: stream_inv_def split: option.splits)
next
  case (events_end i bytes e rest)
  then show ?thesis using assms(2) [of j]
    by (cases "as_streams x i"; cases "the (as_streams x i)")
      (auto simp: stream_inv_def events_of.simps [of V bytes] split: option.splits)
qed (simp_all add: stream_inv_end assms(2))

lemma accept_reachable_inv: "accept_reachable Q V A handler x \<Longrightarrow> stream_inv Q V A handler x i"
proof (induction arbitrary: i rule: accept_reachable.induct)
  case start
  show ?case by (simp add: stream_inv_def accept_start_def)
qed (rule stream_inv_step)

lemma streams_served:
  assumes "accept_reachable Q V A handler x" and "as_streams x i = Some input"
  shows "prefix (of_stream i (as_calls x)) (requested Q V input)"
    and "as_result x = None \<Longrightarrow> as_tasks x i = None \<Longrightarrow> of_stream i (as_calls x) = requested Q V input"
    and "input = Unidirectional bytes \<Longrightarrow> of_stream i (as_written x) = []"
    and "input = Bidirectional bytes \<Longrightarrow> of_stream i (as_written x) \<noteq> [] \<or> as_result x = None \<and> as_tasks x i = None \<Longrightarrow>
      of_stream i (as_calls x) = requested Q V input \<and>
      (\<exists>W response. answer_for Q handler bytes response \<and> of_stream i (as_written x) = [snd (write_frame A W response [])])"
proof -
  have at: "stream_at Q V A handler (as_result x \<noteq> None) input (as_tasks x i) (of_stream i (as_calls x)) (of_stream i (as_written x))"
    using accept_reachable_inv [OF assms(1), of i] assms(2) by (simp add: stream_inv_def)
  have at': "stream_at Q V A handler True input None (of_stream i (as_calls x)) (of_stream i (as_written x))"
    using stream_at_over [OF at] .
  show "prefix (of_stream i (as_calls x)) (requested Q V input)" using at' by (cases input) auto
  show "input = Unidirectional bytes \<Longrightarrow> of_stream i (as_written x) = []" using at' by simp
  show "as_result x = None \<Longrightarrow> as_tasks x i = None \<Longrightarrow> of_stream i (as_calls x) = requested Q V input" using at by (cases input) auto
  show "of_stream i (as_calls x) = requested Q V input \<and>
      (\<exists>W response. answer_for Q handler bytes response \<and> of_stream i (as_written x) = [snd (write_frame A W response [])])"
    if "input = Bidirectional bytes" and "of_stream i (as_written x) \<noteq> [] \<or> as_result x = None \<and> as_tasks x i = None"
    using at at' that by auto
qed

section \<open>The tasks run one after the other\<close>

text \<open>When no other stream is served at the same time the tasks do what \<open>accept_bi\<close> and \<open>accept_uni\<close> do.\<close>

lemma accept_uni_fold: "accept_uni V handler bytes s = fold (\<lambda>event s. snd (handler (protocol_request.Event event) s)) (events_of V bytes) s"
proof (induction V handler bytes s rule: accept_uni.induct)
  case (1 V handler bytes s)
  show ?case
    by (subst accept_uni.simps, subst events_of.simps) (use 1 in \<open>auto split: prod.splits sum.splits\<close>)
qed

lemma accept_bi_answer:
  obtains response where "answer_for Q (\<lambda>q r. r = fst (handler q s)) bytes response"
    and "fst (accept_bi Q A W handler bytes s) = snd (write_frame A W response [])"
proof (cases "fst (read_frame Q bytes)")
  case (Inl e)
  then show ?thesis using that [of "Error e"] by (simp add: answer_for_def accept_bi_def)
next
  case (Inr q)
  obtain r s' where h: "handler q s = (r, s')" by force
  show ?thesis
  proof (rule that)
    show "answer_for Q (\<lambda>q r. r = fst (handler q s)) bytes (answer_of r)" using Inr h by (auto simp: answer_for_def)
    show "fst (accept_bi Q A W handler bytes s) = snd (write_frame A W (answer_of r) [])"
      using Inr h by (cases r) (auto simp: accept_bi_def split: option.splits)
  qed
qed

section \<open>Sending an event\<close>

text \<open>A stream of its own for each event; what was written, also when the call then fails.\<close>

definition send_event :: "protocol_event codec \<Rightarrow> rpc_env \<Rightarrow> protocol_event \<Rightarrow> unit fs0_result \<times> u8 list" where
  "send_event V E event =
     (case internal (re_open E) of
        Inl e \<Rightarrow> (Inl e, [])
      | Inr _ \<Rightarrow>
          (case write_frame V (re_write E) event [] of
             (Inl e, sent) \<Rightarrow> (Inl e, sent)
           | (Inr _, sent) \<Rightarrow> (internal (re_finish E), sent)))"

text \<open>An event that was sent without an error is the one event of its stream.\<close>

lemma send_event_arrives:
  assumes "send_event V E event = (Inr (), sent)" and "codec_ok V" and "writes_through (re_write E)"
  shows "events_of V sent = [event]"
proof -
  from assms(1) obtain u where w: "write_frame V (re_write E) event [] = (Inr u, sent)"
    by (auto simp: send_event_def split: sum.splits prod.splits)
  then have "frame_fits V event" by (auto simp: write_frame_def st_bind_def frame_fits_def split: sum.splits if_splits)
  with frame_round_trip [OF assms(2,3), of event "[]"] w have r: "read_frame V sent = (Inr event, [])"
    by (metis append.right_neutral append_Nil snd_conv)
  have "read_frame V [] = (Inl (Io ''early eof''), [])"
    by (simp add: read_frame_def read_exact_def st_bind_def TRANSPORT_FRAME_LEN_BYTES_def)
  then have "events_of V [] = []" by (subst events_of.simps) simp
  with r show ?thesis by (subst events_of.simps) simp
qed

end
