(* ===== verification/Transport_Endpoint.thy ===== *)
theory Transport_Endpoint
  imports Transport Fs0_Config
begin

text \<open>
  Binding an endpoint (\<open>TransportOptions\<close> and \<open>Transport::bind\<close> of \<^verbatim>\<open>fs0-transport/src/transport.rs\<close>): which endpoint is
  asked of the crate \<^verbatim>\<open>iroh\<close> for which options, and which options are refused. Keys, relay addresses and certificates
  are of types of the crates, and their parsers are arguments.
\<close>

section \<open>Protocols and addresses\<close>

definition TRANSPORT_CONTROL_ALPN :: string where
  "TRANSPORT_CONTROL_ALPN = ''/fs0/control/1''"

definition TRANSPORT_DATA_ALPN :: string where
  "TRANSPORT_DATA_ALPN = ''/fs0/data/1''"

text \<open>An address of four numbers and a port.\<close>

type_synonym socket_addr = "u8 list \<times> u16"

definition any_addr :: "u16 \<Rightarrow> socket_addr" where
  "any_addr port = ([0, 0, 0, 0], port)"

section \<open>Options\<close>

record 'k transport_options =
  to_alpns :: "string list"
  to_secret_key :: "'k option"
  to_bind_addr :: "socket_addr option"
  to_relay :: "relay_client_config option"

definition transport_options_new :: "string list \<Rightarrow> 'k transport_options" where
  "transport_options_new alpns = \<lparr> to_alpns = alpns, to_secret_key = None, to_bind_addr = None, to_relay = None \<rparr>"

definition with_secret_key :: "'k \<Rightarrow> 'k transport_options \<Rightarrow> 'k transport_options" where
  "with_secret_key secret_key options = options\<lparr> to_secret_key := Some secret_key \<rparr>"

definition with_bind_addr :: "socket_addr \<Rightarrow> 'k transport_options \<Rightarrow> 'k transport_options" where
  "with_bind_addr bind_addr options = options\<lparr> to_bind_addr := Some bind_addr \<rparr>"

definition with_relay :: "relay_client_config option \<Rightarrow> 'k transport_options \<Rightarrow> 'k transport_options" where
  "with_relay relay options = options\<lparr> to_relay := relay \<rparr>"

definition connect_options_new :: connect_options where
  "connect_options_new = connect_options_default"

definition with_timeout :: "nat \<Rightarrow> connect_options \<Rightarrow> connect_options" where
  "with_timeout timeout options = options\<lparr> co_timeout := timeout \<rparr>"

definition with_retry :: "connect_retry \<Rightarrow> connect_options \<Rightarrow> connect_options" where
  "with_retry retry options = options\<lparr> co_retry := retry \<rparr>"

section \<open>Binding\<close>

datatype 'u relay_mode = Relay_Disabled | Relay_Custom 'u u16 string

text \<open>What the endpoint is built from.\<close>

record ('k, 'u, 'c) endpoint_plan =
  ep_alpns :: "string list"
  ep_relay_mode :: "'u relay_mode"
  ep_ca_roots :: "'c list option"
  ep_secret_key :: "'k option"
  ep_bind_addr :: "socket_addr option"

text \<open>The parsers of relay addresses and of certificates, which reads one after the other, what \<open>bind_addr\<close> has against an
  address, how it prints one, and the outcome of \<open>bind\<close>.\<close>

record ('k, 'u, 'c) iroh_env =
  ie_relay_url :: "string \<Rightarrow> string + 'u"
  ie_pem_slice :: "string \<Rightarrow> (string + 'c) list"
  ie_bind_addr :: "socket_addr \<Rightarrow> string option"
  ie_show_addr :: "socket_addr \<Rightarrow> string"
  ie_bind :: "('k, 'u, 'c) endpoint_plan \<Rightarrow> string option"

definition relay_mode_of :: "('k, 'u, 'c) iroh_env \<Rightarrow> relay_client_config \<Rightarrow> ('u relay_mode) fs0_result" where
  "relay_mode_of I config =
     (case ie_relay_url I (rcc_url config) of
        Inl err \<Rightarrow> Inl (InvalidConfig (''invalid relay url '' @ rcc_url config @ '': '' @ err))
      | Inr url \<Rightarrow> Inr (Relay_Custom url (rcc_quic_port config) (rcc_token config)))"

text \<open>\<open>collect\<close> into a \<open>Result\<close>: all values, or the first error.\<close>

fun collect_results :: "(string + 'c) list \<Rightarrow> string + 'c list" where
  "collect_results [] = Inr []"
| "collect_results (Inl err # rs) = Inl err"
| "collect_results (Inr c # rs) = (case collect_results rs of Inl err \<Rightarrow> Inl err | Inr cs \<Rightarrow> Inr (c # cs))"

definition ca_roots_config :: "('k, 'u, 'c) iroh_env \<Rightarrow> string \<Rightarrow> ('c list) fs0_result" where
  "ca_roots_config I ca_cert =
     (case collect_results (ie_pem_slice I ca_cert) of
        Inl err \<Rightarrow> Inl (InvalidConfig (''invalid relay ca_cert: '' @ err))
      | Inr certs \<Rightarrow>
          if certs = [] then Inl (InvalidConfig ''relay ca_cert contains no certificates'') else Inr certs)"

definition transport_bind :: "('k, 'u, 'c) iroh_env \<Rightarrow> 'k transport_options \<Rightarrow> ('k, 'u, 'c) endpoint_plan fs0_result" where
  "transport_bind I options =
     res_bind (case Option.bind (to_relay options) rcc_ca_cert of
         None \<Rightarrow> Inr None
       | Some ca_cert \<Rightarrow> map_sum id Some (ca_roots_config I ca_cert)) (\<lambda>ca_roots.
     res_bind (case to_relay options of None \<Rightarrow> Inr Relay_Disabled | Some relay \<Rightarrow> relay_mode_of I relay) (\<lambda>mode.
     res_bind (case to_bind_addr options of
         None \<Rightarrow> Inr ()
       | Some addr \<Rightarrow>
           (case ie_bind_addr I addr of
              None \<Rightarrow> Inr ()
            | Some err \<Rightarrow> Inl (InvalidConfig (''invalid transport bind address '' @ ie_show_addr I addr @ '': '' @ err)))) (\<lambda>_.
     let plan = \<lparr> ep_alpns = to_alpns options, ep_relay_mode = mode, ep_ca_roots = ca_roots, ep_secret_key = to_secret_key options,
                  ep_bind_addr = to_bind_addr options \<rparr> in
     case ie_bind I plan of Some err \<Rightarrow> Inl (Internal err) | None \<Rightarrow> Inr plan)))"

section \<open>What binding keeps\<close>

lemma collect_results_Inr: "collect_results rs = Inr cs \<longleftrightarrow> rs = map Inr cs"
proof (induction rs arbitrary: cs rule: collect_results.induct)
  case (3 c rs)
  show ?case
  proof (cases cs)
    case (Cons d ds)
    have "collect_results (Inr c # rs) = Inr cs \<longleftrightarrow> c = d \<and> collect_results rs = Inr ds"
      unfolding Cons by (auto split: sum.splits)
    then show ?thesis by (simp add: 3 Cons)
  qed (auto split: sum.splits)
qed auto

text \<open>An endpoint that was bound has the protocols, the key and the address of the options; without a relay it uses
  none, and certificates come only from the relay and are not empty.\<close>

lemma transport_bind_plan:
  assumes "transport_bind I options = Inr plan"
  shows "ep_alpns plan = to_alpns options \<and> ep_secret_key plan = to_secret_key options \<and> ep_bind_addr plan = to_bind_addr options \<and>
    (case to_relay options of
       None \<Rightarrow> ep_relay_mode plan = Relay_Disabled \<and> ep_ca_roots plan = None
     | Some relay \<Rightarrow>
         (\<exists>url. ie_relay_url I (rcc_url relay) = Inr url \<and> ep_relay_mode plan = Relay_Custom url (rcc_quic_port relay) (rcc_token relay)) \<and>
         (case rcc_ca_cert relay of
            None \<Rightarrow> ep_ca_roots plan = None
          | Some ca_cert \<Rightarrow> \<exists>certs. certs \<noteq> [] \<and> ie_pem_slice I ca_cert = map Inr certs \<and> ep_ca_roots plan = Some certs))"
  using assms
  by (auto simp: transport_bind_def res_bind_Inr_iff Let_def relay_mode_of_def ca_roots_config_def collect_results_Inr
      split: option.splits sum.splits if_splits)

end
