(* ===== verification/Server_Start.thy ===== *)
theory Server_Start
  imports Central_Reach Storage_System Transport_Endpoint Client_Session
begin

text \<open>
  How the processes start (\<^verbatim>\<open>fs0-central/src/server.rs\<close>, \<^verbatim>\<open>server/relay.rs\<close>, \<^verbatim>\<open>server/spawn.rs\<close>, \<open>StorageServer::run\<close>,
  \<open>Fs0Client::connect\<close>): what is checked and in which order, the endpoint and the relay that are asked for, and the
  server that then runs; and a control connection of central from its first request to its end.
\<close>

section \<open>The relay\<close>

text \<open>
  The files of the certificates and the key, the parsers, and what the libraries have against the configuration:
  a missing protocol version, the pair of certificates and key, or the sockets.
\<close>

record ('k, 'c, 'p) relay_env =
  rl_pem_file :: "string \<Rightarrow> string + (string + 'c) list"
  rl_private_key :: "string \<Rightarrow> string + 'p"
  rl_protocols :: "string option"
  rl_single_cert :: "'c list \<Rightarrow> 'p \<Rightarrow> string option"
  rl_spawn :: "string option"
  rl_secret_key :: "string \<Rightarrow> string + 'k"

record ('c, 'p) relay_tls =
  rt_https_addr :: socket_addr
  rt_certs :: "'c list"
  rt_key :: 'p

text \<open>The access check is a function of the token that a request carries.\<close>

record ('c, 'p) relay_server =
  rs_http_addr :: socket_addr
  rs_quic_addr :: socket_addr
  rs_access :: "string option \<Rightarrow> bool"
  rs_tls :: "('c, 'p) relay_tls"

definition relay_access_config :: "string \<Rightarrow> string option \<Rightarrow> bool" where
  "relay_access_config token auth_token \<longleftrightarrow> auth_token = Some token"

definition relay_tls_config :: "('k, 'c, 'p) relay_env \<Rightarrow> central_relay_config \<Rightarrow> ('c, 'p) relay_tls fs0_result" where
  "relay_tls_config R config =
     res_bind (case rl_pem_file R (crc_cert_path config) of
         Inl err \<Rightarrow> Inl (InvalidConfig (''failed to open central.relay cert_path '' @ crc_cert_path config @ '': '' @ err))
       | Inr items \<Rightarrow>
           (case collect_results items of
              Inl err \<Rightarrow> Inl (InvalidConfig (''failed to read central.relay cert_path '' @ crc_cert_path config @ '': '' @ err))
            | Inr certs \<Rightarrow> Inr certs)) (\<lambda>certs.
     if certs = [] then Inl (InvalidConfig (''central.relay cert_path '' @ crc_cert_path config @ '' contains no certificates''))
     else
       res_bind (case rl_private_key R (crc_key_path config) of
           Inl err \<Rightarrow> Inl (InvalidConfig (''failed to read central.relay key_path '' @ crc_key_path config @ '': '' @ err))
         | Inr private_key \<Rightarrow> Inr private_key) (\<lambda>private_key.
       case rl_protocols R of
         Some err \<Rightarrow> Inl (InvalidConfig (''failed to configure central.relay TLS protocols: '' @ err))
       | None \<Rightarrow>
           (case rl_single_cert R certs private_key of
              Some err \<Rightarrow> Inl (InvalidConfig (''invalid central.relay certificate or key: '' @ err))
            | None \<Rightarrow> Inr \<lparr> rt_https_addr = any_addr (crc_https_bind_port config), rt_certs = certs, rt_key = private_key \<rparr>)))"

definition spawn_relay :: "('k, 'c, 'p) relay_env \<Rightarrow> central_relay_config \<Rightarrow> ('c, 'p) relay_server fs0_result" where
  "spawn_relay R config =
     (if crc_token config = [] then Inl (InvalidConfig ''central.relay.token must not be empty'')
      else
        res_bind (relay_tls_config R config) (\<lambda>tls.
        case rl_spawn R of
          Some err \<Rightarrow> Inl (Internal (''failed to start relay: '' @ err))
        | None \<Rightarrow> Inr \<lparr> rs_http_addr = ([127, 0, 0, 1], 0), rs_quic_addr = any_addr (crc_quic_bind_port config),
            rs_access = relay_access_config (crc_token config), rs_tls = tls \<rparr>))"

section \<open>Central\<close>

text \<open>The content of the database file, when there is one, or the error of opening it.\<close>

definition central_db_of :: "(central_tables option) fs0_result \<Rightarrow> central_db fs0_result" where
  "central_db_of found = map_sum id (\<lambda>tables. case tables of None \<Rightarrow> central_db_open | Some t \<Rightarrow> central_db_load t) found"

definition central_transport_options :: "'k \<Rightarrow> central_config \<Rightarrow> 'k transport_options" where
  "central_transport_options secret_key config =
     with_bind_addr (any_addr (cc_bind_port config)) (with_secret_key secret_key (transport_options_new [TRANSPORT_CONTROL_ALPN]))"

definition central_run ::
  "('k, 'c, 'p) relay_env \<Rightarrow> ('k, 'u, 'c) iroh_env \<Rightarrow> (string \<Rightarrow> (central_tables option) fs0_result) \<Rightarrow> central_config \<Rightarrow>
   (('c, 'p) relay_server \<times> ('k, 'u, 'c) endpoint_plan \<times> central_server) fs0_result" where
  "central_run R I files config =
     (if cc_replication_factor config = 0 then Inl (InvalidConfig ''replication_factor must be greater than zero'')
      else
        res_bind (spawn_relay R (cc_relay config)) (\<lambda>relay.
        res_bind (case rl_secret_key R (cc_secret_key config) of
            Inl err \<Rightarrow> Inl (InvalidConfig (''invalid central.secret_key: '' @ err))
          | Inr secret_key \<Rightarrow> Inr secret_key) (\<lambda>secret_key.
        res_bind (transport_bind I (central_transport_options secret_key config)) (\<lambda>transport.
        res_bind (central_db_of (files (cc_db_path config))) (\<lambda>db.
        Inr (relay, transport, central_server_start (cc_auth_tokens config) db))))))"

subsection \<open>A control connection\<close>

text \<open>
  The requests of a connection are served one after the other; when it ends, what it had registered goes. A server that
  is exiting only closes the connection.
\<close>

fun serve_requests ::
  "conn \<Rightarrow> (env \<times> protocol_request) list \<Rightarrow> control_connection_identity \<Rightarrow> central_server \<Rightarrow>
   protocol_response list \<times> control_connection_identity \<times> central_server" where
  "serve_requests c [] i s = ([], i, s)"
| "serve_requests c ((E, q) # qs) i s =
     (case serve_request E c q i s of
        (response, i', s') \<Rightarrow> (case serve_requests c qs i' s' of (responses, i'', s'') \<Rightarrow> (response # responses, i'', s'')))"

definition handle_control_connection ::
  "bool \<Rightarrow> conn \<Rightarrow> (env \<times> protocol_request) list \<Rightarrow> central_server \<Rightarrow> protocol_response list \<times> central_server" where
  "handle_control_connection exiting c requests s =
     (case serve_requests c (if exiting then [] else requests) Anonymous s of
        (responses, identity, s') \<Rightarrow> (responses, close_connection c identity s'))"

definition accept_control_connection ::
  "bool \<Rightarrow> conn \<Rightarrow> (env \<times> protocol_request) list \<Rightarrow> central_server \<Rightarrow> protocol_response list \<times> central_server" where
  "accept_control_connection exiting c requests s =
     (if exiting then ([], s\<lparr> cs_closed := cs_closed s @ [c] \<rparr>) else handle_control_connection exiting c requests s)"

section \<open>Storages and clients\<close>

definition storage_transport_options :: "storage_config \<Rightarrow> 'k transport_options" where
  "storage_transport_options config =
     (let options = with_relay (sc_relay config) (transport_options_new [TRANSPORT_DATA_ALPN]) in
      case sc_bind_port config of None \<Rightarrow> options | Some port \<Rightarrow> with_bind_addr (any_addr port) options)"

definition storage_server_run ::
  "('k, 'u, 'c) iroh_env \<Rightarrow> 'h storage_env \<Rightarrow> (string \<Rightarrow> volume_dir) \<Rightarrow> storage_config \<Rightarrow> storage_server fs0_result" where
  "storage_server_run I E dirs config =
     storage_run E (map_sum id (\<lambda>_. ()) (transport_bind I (storage_transport_options config))) dirs config"

text \<open>A client whose endpoint cannot be bound does nothing; otherwise it connects to central.\<close>

definition client_run ::
  "('k, 'u, 'c) iroh_env \<Rightarrow> ('e, 'w) client_env \<Rightarrow> client_config \<Rightarrow> 'w \<Rightarrow> unit fs0_result \<times> 'w fs0_client" where
  "client_run I E config w =
     (case transport_bind I (with_relay (clc_relay config) (transport_options_new [])) of
        Inl e \<Rightarrow> (Inl e, \<lparr> fcl_config = config, fcl_central = central_session_new config (clc_name config), fcl_storage_sessions = [],
          fcl_world = w \<rparr>)
      | Inr _ \<Rightarrow> client_connect E config w)"

section \<open>What starting ensures\<close>

lemma spawn_relay_Inr:
  assumes "spawn_relay R config = Inr relay"
  shows "crc_token config \<noteq> [] \<and> rs_access relay = (\<lambda>t. t = Some (crc_token config)) \<and> rt_certs (rs_tls relay) \<noteq> [] \<and>
    rl_pem_file R (crc_cert_path config) = Inr (map Inr (rt_certs (rs_tls relay))) \<and>
    rl_private_key R (crc_key_path config) = Inr (rt_key (rs_tls relay)) \<and> rl_single_cert R (rt_certs (rs_tls relay)) (rt_key (rs_tls relay)) = None"
  using assms
  by (auto simp: spawn_relay_def relay_tls_config_def res_bind_Inr_iff collect_results_Inr relay_access_config_def fun_eq_iff
      split: if_splits sum.splits option.splits)

text \<open>The database that an earlier run left.\<close>

definition left_by_central :: "central_tables \<Rightarrow> bool" where
  "left_by_central t \<longleftrightarrow> (\<exists>tokens x. reachable tokens x \<and> db_conn (cs_db (sys_server x)) = t)"

lemma started_central_inv:
  assumes "central_db_of found = Inr db" and "\<And>t. found = Inr (Some t) \<Longrightarrow> left_by_central t"
  shows "\<exists>tokens'. reachable tokens' (central_system_start tokens db)"
proof -
  from assms(1) obtain tables where found: "found = Inr tables"
    and db: "db = (case tables of None \<Rightarrow> central_db_open | Some t \<Rightarrow> central_db_load t)"
    by (cases found) (auto simp: central_db_of_def)
  show ?thesis
  proof (cases tables)
    case None
    have "central_system_start tokens db = central_system_init tokens"
      by (simp add: None db central_system_start_def central_server_start_def central_system_init_def central_server_init_def)
    then show ?thesis using reachable.start by metis
  next
    case (Some t)
    then obtain tokens' x where x: "reachable tokens' x" "db_conn (cs_db (sys_server x)) = t"
      using assms(2) found unfolding left_by_central_def by blast
    from reachable.step [OF x(1) central_step.restart [of x tokens]] show ?thesis by (auto simp: x(2) db Some)
  qed
qed

lemma central_run_Inr:
  assumes "central_run R I files config = Inr (relay, transport, s)"
  shows "cc_replication_factor config \<noteq> 0 \<and> spawn_relay R (cc_relay config) = Inr relay \<and>
    (\<exists>secret_key. rl_secret_key R (cc_secret_key config) = Inr secret_key \<and>
       transport_bind I (central_transport_options secret_key config) = Inr transport) \<and>
    (\<exists>db. central_db_of (files (cc_db_path config)) = Inr db \<and> s = central_server_start (cc_auth_tokens config) db)"
  using assms by (auto simp: central_run_def res_bind_Inr_iff split: if_splits sum.splits)

text \<open>A connection on which nothing registers is refused every request and leaves the server as it was, but for its end.\<close>

lemma serve_requests_anonymous:
  assumes "\<forall>(E, q)\<in>set requests. \<forall>r. q = protocol_request.Control r \<longrightarrow> \<not> registration r"
  shows "\<exists>responses. serve_requests c requests Anonymous s = (responses, Anonymous, s) \<and> (\<forall>r\<in>set responses. \<exists>e. r = protocol_response.Error e)"
  using assms
proof (induction requests)
  case (Cons x requests)
  obtain E q where x: "x = (E, q)" by force
  have "\<exists>e. serve_request E c q Anonymous s = (protocol_response.Error e, Anonymous, s)"
    using Cons.prems x by (cases q) (auto simp: handle_control_request_other respond_def)
  with Cons x show ?case by fastforce
qed simp

lemma handle_control_connection_anonymous:
  assumes "\<forall>(E, q)\<in>set requests. \<forall>r. q = protocol_request.Control r \<longrightarrow> \<not> registration r"
  shows "snd (handle_control_connection exiting c requests s) = s\<lparr> cs_closed := cs_closed s @ [c] \<rparr>"
  using serve_requests_anonymous [OF assms, of c s]
  by (auto simp: handle_control_connection_def close_connection_def split: prod.splits)

end
