(* ===== verification/Config_Toml.thy ===== *)
theory Config_Toml
  imports Fs0_Config
begin

text \<open>
  The deserialisers that \<^verbatim>\<open>fs0-config/src/lib.rs\<close> derives for its configurations, with their defaults, renamings and
  flattened parts. A document is what the parser of the crate \<^verbatim>\<open>toml\<close> makes of the text; the wording of its errors, the
  parser itself and the formats of endpoint identifiers and socket addresses are arguments. Sections are tables; that
  the derived code would also take an array in the place of a table is left out.
\<close>

section \<open>Documents\<close>

datatype toml_value =
    Toml_String string
  | Toml_Integer int
  | Toml_Float string
  | Toml_Boolean bool
  | Toml_Datetime string
  | Toml_Array "toml_value list"
  | Toml_Table "(string \<times> toml_value) list"

text \<open>Parsing a text, what is wrong with a document, and the formats of identifiers and addresses.\<close>

record toml_env =
  tm_parse :: "string \<Rightarrow> string + toml_value"
  tm_message :: "toml_value \<Rightarrow> string"
  tm_endpoint_id :: "string \<Rightarrow> bool"
  tm_socket_addr :: "string \<Rightarrow> bool"

section \<open>Values and fields\<close>

fun de_string :: "toml_value \<Rightarrow> string option" where
  "de_string (Toml_String s) = Some s"
| "de_string _ = None"

fun de_bool :: "toml_value \<Rightarrow> bool option" where
  "de_bool (Toml_Boolean b) = Some b"
| "de_bool _ = None"

text \<open>Integers are refused when they do not fit.\<close>

fun de_u16 :: "toml_value \<Rightarrow> u16 option" where
  "de_u16 (Toml_Integer i) = (if 0 \<le> i \<and> i < 2 ^ 16 then Some (of_int i) else None)"
| "de_u16 _ = None"

fun de_u32 :: "toml_value \<Rightarrow> u32 option" where
  "de_u32 (Toml_Integer i) = (if 0 \<le> i \<and> i < 2 ^ 32 then Some (of_int i) else None)"
| "de_u32 _ = None"

fun de_usize :: "toml_value \<Rightarrow> nat option" where
  "de_usize (Toml_Integer i) = (if 0 \<le> i \<and> i < 2 ^ 64 then Some (nat i) else None)"
| "de_usize _ = None"

fun de_list :: "(toml_value \<Rightarrow> 'a option) \<Rightarrow> toml_value list \<Rightarrow> ('a list) option" where
  "de_list de [] = Some []"
| "de_list de (v # vs) = (case de v of None \<Rightarrow> None | Some x \<Rightarrow> map_option ((#) x) (de_list de vs))"

fun de_vec :: "(toml_value \<Rightarrow> 'a option) \<Rightarrow> toml_value \<Rightarrow> ('a list) option" where
  "de_vec de (Toml_Array vs) = de_list de vs"
| "de_vec de _ = None"

type_synonym toml_table = "(string \<times> toml_value) list"

fun de_struct :: "(toml_table \<Rightarrow> 'a option) \<Rightarrow> toml_value \<Rightarrow> 'a option" where
  "de_struct de (Toml_Table t) = de t"
| "de_struct de _ = None"

text \<open>A field that must be there, and one with a default; other keys of a table are ignored.\<close>

definition de_field :: "(toml_value \<Rightarrow> 'a option) \<Rightarrow> string \<Rightarrow> toml_table \<Rightarrow> 'a option" where
  "de_field de key t = Option.bind (map_of t key) de"

definition de_default :: "(toml_value \<Rightarrow> 'a option) \<Rightarrow> 'a \<Rightarrow> string \<Rightarrow> toml_table \<Rightarrow> 'a option" where
  "de_default de x key t = (case map_of t key of None \<Rightarrow> Some x | Some v \<Rightarrow> de v)"

definition de_optional :: "(toml_value \<Rightarrow> 'a option) \<Rightarrow> string \<Rightarrow> toml_table \<Rightarrow> ('a option) option" where
  "de_optional de = de_default (\<lambda>v. map_option Some (de v)) None"

section \<open>The configurations\<close>

definition de_endpoint_config :: "toml_env \<Rightarrow> toml_table \<Rightarrow> endpoint_config option" where
  "de_endpoint_config T t =
     Option.bind (de_field de_string ''central_endpoint_id'' t) (\<lambda>i.
     Option.bind (de_field de_string ''central_addr'' t) (\<lambda>addr.
     if tm_endpoint_id T i \<and> tm_socket_addr T addr then Some \<lparr> ec_id = i, ec_addr = addr \<rparr> else None))"

definition de_relay_client_config :: "toml_table \<Rightarrow> relay_client_config option" where
  "de_relay_client_config t =
     Option.bind (de_field de_string ''url'' t) (\<lambda>url.
     Option.bind (de_field de_string ''token'' t) (\<lambda>token.
     Option.bind (de_field de_u16 ''quic_port'' t) (\<lambda>quic_port.
     Option.bind (de_optional de_string ''ca_cert'' t) (\<lambda>ca_cert.
     Some \<lparr> rcc_url = url, rcc_token = token, rcc_quic_port = quic_port, rcc_ca_cert = ca_cert \<rparr>))))"

definition de_central_relay_config :: "toml_table \<Rightarrow> central_relay_config option" where
  "de_central_relay_config t =
     Option.bind (de_field de_string ''public_url'' t) (\<lambda>public_url.
     Option.bind (de_field de_string ''token'' t) (\<lambda>token.
     Option.bind (de_field de_u16 ''https_bind_port'' t) (\<lambda>https_bind_port.
     Option.bind (de_field de_string ''cert_path'' t) (\<lambda>cert_path.
     Option.bind (de_field de_string ''key_path'' t) (\<lambda>key_path.
     Option.bind (de_field de_u16 ''quic_bind_port'' t) (\<lambda>quic_bind_port.
     Some \<lparr> crc_public_url = public_url, crc_token = token, crc_https_bind_port = https_bind_port, crc_cert_path = cert_path,
       crc_key_path = key_path, crc_quic_bind_port = quic_bind_port \<rparr>))))))"

definition de_central_config :: "toml_table \<Rightarrow> central_config option" where
  "de_central_config t =
     Option.bind (de_field de_string ''db_path'' t) (\<lambda>db_path.
     Option.bind (de_field de_string ''secret_key'' t) (\<lambda>secret_key.
     Option.bind (de_field de_u16 ''bind_port'' t) (\<lambda>bind_port.
     Option.bind (de_default de_u16 DEFAULT_REPLICATION_FACTOR ''replication_factor'' t) (\<lambda>replication_factor.
     Option.bind (de_default (de_vec de_string) [] ''auth_tokens'' t) (\<lambda>auth_tokens.
     Option.bind (de_field (de_struct de_central_relay_config) ''relay'' t) (\<lambda>relay.
     Some \<lparr> cc_db_path = db_path, cc_secret_key = secret_key, cc_bind_port = bind_port, cc_replication_factor = replication_factor,
       cc_auth_tokens = auth_tokens, cc_relay = relay \<rparr>))))))"

definition VOLUME_READ_CONCURRENCY :: nat where
  "VOLUME_READ_CONCURRENCY = 4"

definition VOLUME_WRITE_CONCURRENCY :: nat where
  "VOLUME_WRITE_CONCURRENCY = 1"

definition de_storage_volume_config :: "toml_table \<Rightarrow> storage_volume_config option" where
  "de_storage_volume_config t =
     Option.bind (de_field de_string ''path'' t) (\<lambda>path.
     Option.bind (de_field de_string ''name'' t) (\<lambda>name.
     Option.bind (de_default de_bool False ''read_only'' t) (\<lambda>read_only.
     Option.bind (de_default de_u32 (of_nat VOLUME_READ_CONCURRENCY) ''read_concurrency'' t) (\<lambda>read_concurrency.
     Option.bind (de_default de_u32 (of_nat VOLUME_WRITE_CONCURRENCY) ''write_concurrency'' t) (\<lambda>write_concurrency.
     Some \<lparr> svc_path = path, svc_name = name, svc_read_only = read_only, svc_read_concurrency = read_concurrency,
       svc_write_concurrency = write_concurrency \<rparr>)))))"

definition de_storage_config :: "toml_env \<Rightarrow> toml_table \<Rightarrow> storage_config option" where
  "de_storage_config T t =
     Option.bind (de_field de_string ''name'' t) (\<lambda>name.
     Option.bind (de_field de_string ''token'' t) (\<lambda>token.
     Option.bind (de_endpoint_config T t) (\<lambda>central_endpoint.
     Option.bind (de_optional de_u16 ''bind_port'' t) (\<lambda>bind_port.
     Option.bind (de_optional (de_struct de_relay_client_config) ''relay'' t) (\<lambda>relay.
     Option.bind (de_default (de_vec (de_struct de_storage_volume_config)) [] ''volumes'' t) (\<lambda>volumes.
     Option.bind (de_default de_bool False ''check_hash_before_write'' t) (\<lambda>check_hash_before_write.
     Some \<lparr> sc_name = name, sc_token = token, sc_central_endpoint = central_endpoint, sc_bind_port = bind_port, sc_relay = relay,
       sc_volumes = volumes, sc_check_hash_before_write = check_hash_before_write \<rparr>)))))))"

definition de_client_config :: "toml_env \<Rightarrow> toml_table \<Rightarrow> client_config option" where
  "de_client_config T t =
     Option.bind (de_optional de_string ''name'' t) (\<lambda>name.
     Option.bind (de_field de_string ''token'' t) (\<lambda>token.
     Option.bind (de_endpoint_config T t) (\<lambda>central_endpoint.
     Option.bind (de_optional (de_struct de_relay_client_config) ''relay'' t) (\<lambda>relay.
     Option.bind (de_default de_usize DEFAULT_CLIENT_DATA_CONCURRENCY ''upload_concurrency'' t) (\<lambda>upload_concurrency.
     Option.bind (de_default de_usize DEFAULT_CLIENT_DATA_CONCURRENCY ''download_concurrency'' t) (\<lambda>download_concurrency.
     Some \<lparr> clc_name = name, clc_token = token, clc_central_endpoint = central_endpoint, clc_relay = relay,
       clc_upload_concurrency = upload_concurrency, clc_download_concurrency = download_concurrency \<rparr>))))))"

section \<open>Files\<close>

text \<open>The root of a file for all sections, and the roots of the loaders of one section.\<close>

definition de_fs0_config :: "toml_env \<Rightarrow> toml_value \<Rightarrow> fs0_config option" where
  "de_fs0_config T = de_struct (\<lambda>t.
     Option.bind (de_optional (de_struct de_central_config) ''central'' t) (\<lambda>central.
     Option.bind (de_optional (de_struct (de_storage_config T)) ''storage'' t) (\<lambda>storage.
     Option.bind (de_optional (de_struct (de_client_config T)) ''client'' t) (\<lambda>client.
     Some \<lparr> fc_central = central, fc_storage = storage, fc_client = client \<rparr>))))"

definition de_central_root :: "toml_value \<Rightarrow> (central_config option) option" where
  "de_central_root = de_struct (de_optional (de_struct de_central_config) ''central'')"

definition de_storage_root :: "toml_env \<Rightarrow> toml_value \<Rightarrow> (storage_config option) option" where
  "de_storage_root T = de_struct (de_optional (de_struct (de_storage_config T)) ''storage'')"

definition de_client_root :: "toml_env \<Rightarrow> toml_value \<Rightarrow> (client_config option) option" where
  "de_client_root T = de_struct (de_optional (de_struct (de_client_config T)) ''client'')"

text \<open>What the loaders are given to deserialise a text.\<close>

definition toml_from_str :: "toml_env \<Rightarrow> (toml_value \<Rightarrow> 'a option) \<Rightarrow> string \<Rightarrow> string + 'a" where
  "toml_from_str T de str =
     (case tm_parse T str of
        Inl msg \<Rightarrow> Inl msg
      | Inr v \<Rightarrow> (case de v of None \<Rightarrow> Inl (tm_message T v) | Some x \<Rightarrow> Inr x))"

definition load_from :: "toml_env \<Rightarrow> string + string \<Rightarrow> fs0_config fs0_result" where
  "load_from T contents = load_toml (toml_from_str T (de_fs0_config T)) contents"

section \<open>What the loaders take\<close>

text \<open>
  A loader of one section takes what the loader of all sections takes, but it does not look at the other sections:
  whatever they hold, it gives the same.
\<close>

lemma de_optional_Some:
  "de_optional de key t = Some x \<longleftrightarrow>
     (case map_of t key of None \<Rightarrow> x = None | Some v \<Rightarrow> \<exists>y. de v = Some y \<and> x = Some y)"
  by (auto simp: de_optional_def de_default_def split: option.splits)

lemma roots_of_fs0_config:
  assumes "de_fs0_config T v = Some c"
  shows "de_central_root v = Some (fc_central c)" and "de_storage_root T v = Some (fc_storage c)" and "de_client_root T v = Some (fc_client c)"
  using assms
  by (cases v; auto simp: de_fs0_config_def de_central_root_def de_storage_root_def de_client_root_def bind_eq_Some_conv)+

lemma load_central_from_other_sections:
  assumes "tm_parse T str = Inr (Toml_Table t)" and "map_of t ''central'' = Some (Toml_Table s)" and "de_central_config s = Some config"
  shows "load_central_from (toml_from_str T de_central_root) (Inr str) = Inr config"
  using assms by (simp add: load_central_from_def load_toml_def toml_from_str_def de_central_root_def de_optional_def de_default_def res_bind_def)

text \<open>Loading a section is loading the file and taking the section, when the file as a whole can be read.\<close>

lemma load_section:
  assumes "load_from T contents = Inr c"
  shows "load_central_from (toml_from_str T de_central_root) contents = config_central c"
    and "load_storage_from (toml_from_str T (de_storage_root T)) contents = config_storage c"
    and "load_client_from (toml_from_str T (de_client_root T)) contents = config_client c"
proof -
  from assms obtain str v where v: "contents = Inr str" "tm_parse T str = Inr v" "de_fs0_config T v = Some c"
    by (auto simp: load_from_def load_toml_def toml_from_str_def split: sum.splits option.splits)
  note roots = roots_of_fs0_config [OF v(3)]
  show "load_central_from (toml_from_str T de_central_root) contents = config_central c"
    and "load_storage_from (toml_from_str T (de_storage_root T)) contents = config_storage c"
    and "load_client_from (toml_from_str T (de_client_root T)) contents = config_client c"
    by (simp_all add: load_central_from_def load_storage_from_def load_client_from_def load_toml_def toml_from_str_def v(1,2) roots
        res_bind_def config_central_def config_storage_def config_client_def)
qed

text \<open>A client section with only its token and the endpoint of central is the configuration that \<open>ClientConfig::new\<close> makes.\<close>

lemma de_client_config_minimal:
  assumes "map_of t ''token'' = Some (Toml_String token)" and "de_endpoint_config T t = Some endpoint"
    and "map_of t ''name'' = None" and "map_of t ''relay'' = None"
    and "map_of t ''upload_concurrency'' = None" and "map_of t ''download_concurrency'' = None"
  shows "de_client_config T t = Some (client_config_new token endpoint None)"
  using assms by (simp add: de_client_config_def de_optional_def de_default_def de_field_def client_config_new_def)

end
