(* ===== verification/Cli_Commands.thy ===== *)
theory Cli_Commands
  imports Fs0_Cli Server_Start Config_Toml
begin

text \<open>
  The program \<^verbatim>\<open>fs0\<close> (\<^verbatim>\<open>fs0-cli/src\<close>): its commands after the arguments have been parsed, the configuration file they
  load, what they ask of a client or a server, the lines they print to standard output and how the process ends.
  What goes to standard error while a command runs is left out.
\<close>

section \<open>Commands\<close>

datatype central_command = Central_Run

datatype storage_command = Storage_Run | Create_Volume string string string | Inspect_Volume string

datatype command =
    Ls string u32 "u64 option"
  | Stat string
  | Get string string
  | Put string string "string option"
  | Put_Dir string string "string option" bool
  | Rm string
  | Cp string string
  | Mv string string
  | Changes u64 u32
  | Peers
  | Central_Command central_command
  | Storage_Command storage_command

record cli =
  cli_config :: "string option"
  cli_command :: command

section \<open>Output\<close>

definition tab :: string where
  "tab = [CHR 0x09]"

definition entry_line :: "u64 \<Rightarrow> u64 \<Rightarrow> u64 \<Rightarrow> string \<Rightarrow> string" where
  "entry_line file_id size_bytes compressed_size_bytes path =
     show_u64 file_id @ tab @ show_u64 size_bytes @ tab @ show_u64 compressed_size_bytes @ tab @ path"

definition print_directory_entries :: "directory_entries \<Rightarrow> string list" where
  "print_directory_entries entries =
     map (\<lambda>e. entry_line (de_file_id e) (de_size_bytes e) (de_compressed_size_bytes e) (de_path e)) (des_entries entries) @
     (case des_next_cursor entries of None \<Rightarrow> [] | Some cursor \<Rightarrow> [''next_cursor: '' @ show_u64 cursor])"

definition print_file_record :: "file_record \<Rightarrow> string list" where
  "print_file_record f = [entry_line (frec_file_id f) (frec_size_bytes f) (frec_compressed_size_bytes f) (frec_path f)]"

definition print_file_read_plan :: "file_read_plan \<Rightarrow> string list" where
  "print_file_read_plan plan =
     (''file '' @ show_u64 (frp_file_id plan) @ tab @ frp_path plan @ tab @ show_u64 (frp_size plan) @ '' bytes'') #
     map (\<lambda>b. ''  bundle '' @ show_u64 (fbr_bundle_index b) @ tab @ show_u64 (fbr_raw_len b) @ '' raw'' @ tab @
       show_u64 (fbr_compressed_len b) @ '' compressed'' @ tab @ show_nat (length (fbr_replicas b)) @ '' replicas'') (frp_bundles plan)"

fun show_kind :: "file_change_log_kind \<Rightarrow> string" where
  "show_kind file_change_log_kind.Created = ''Created''"
| "show_kind file_change_log_kind.Updated = ''Updated''"
| "show_kind file_change_log_kind.Moved = ''Moved''"
| "show_kind file_change_log_kind.Deleted = ''Deleted''"

definition print_file_change_logs :: "file_change_logs \<Rightarrow> string list" where
  "print_file_change_logs logs =
     map (\<lambda>l. show_u64 (fcl_event_id l) @ tab @ show_kind (fcl_kind l) @ tab @ ''file='' @
       (case fcl_file_id l of None \<Rightarrow> ''-'' | Some i \<Rightarrow> show_u64 i) @ tab @ ''new='' @
       (case fcl_new_path l of None \<Rightarrow> ''-'' | Some path \<Rightarrow> path)) (fcls_operations logs) @
     (case fcls_next_event_id logs of None \<Rightarrow> [] | Some i \<Rightarrow> [''next_event_id: '' @ show_u64 i])"

definition print_volume_meta :: "volume_meta \<Rightarrow> string list" where
  "print_volume_meta meta =
     [''volume_id: '' @ show_u64 (vm_volume_id meta), ''format_version: '' @ show_u64 (vm_format_version meta),
      ''max_bytes: '' @ show_u64 (vm_max_bytes meta), ''active_volume_offset: '' @ show_u64 (vm_active_volume_offset meta),
      ''created_at_ms: '' @ show_u64 (vm_created_at_ms meta), ''updated_at_ms: '' @ show_u64 (vm_updated_at_ms meta)]"

definition print_peers :: "storage_peer_info list \<Rightarrow> string list" where
  "print_peers peers =
     concat (map (\<lambda>p. (''storage '' @ show_u64 (spi_storage_id p) @ '' '' @ spi_name p) #
       map (\<lambda>v. ''  volume '' @ show_u64 (svi_volume_id v) @ '' '' @ svi_name v @ '' max='' @ show_u64 (svi_max_bytes v) @
         '' used='' @ show_u64 (svi_max_volume_offset v)) (spi_volumes p)) peers)"

definition print_write_result :: "file_record \<Rightarrow> string list" where
  "print_write_result f = [frec_path f @ '' '' @ show_u64 (frec_size_bytes f) @ '' bytes'']"

definition print_dry_run :: "(string list \<Rightarrow> string) \<Rightarrow> upload_file list \<Rightarrow> string list" where
  "print_dry_run local_path files =
     map (\<lambda>f. local_path (uf_local_path f) @ '' -> '' @ uf_remote_path f @ '' '' @ show_u64 (uf_bytes f) @ '' bytes'') files"

definition print_summary :: "put_dir_summary \<Rightarrow> string list" where
  "print_summary s =
     [''uploaded '' @ show_u64 (pds_uploaded_files s) @ '' files '' @ show_u64 (pds_uploaded_bytes s) @ '' bytes, skipped '' @
      show_u64 (pds_skipped_files s) @ '' files '' @ show_u64 (pds_skipped_bytes s) @ '' bytes'']"

subsection \<open>Errors\<close>

text \<open>A string between quotes with its escapes; of the characters that are escaped by their number only those of ASCII are.\<close>

definition debug_char :: "char \<Rightarrow> string" where
  "debug_char c =
     (if c = CHR 0x22 then [CHR 0x5C, CHR 0x22]
      else if c = CHR 0x5C then [CHR 0x5C, CHR 0x5C]
      else if c = CHR 0x00 then [CHR 0x5C, CHR ''0'']
      else if c = CHR 0x09 then [CHR 0x5C, CHR ''t'']
      else if c = CHR 0x0A then [CHR 0x5C, CHR ''n'']
      else if c = CHR 0x0D then [CHR 0x5C, CHR ''r'']
      else if of_char c = (127 :: nat) then [CHR 0x5C] @ ''u{7f}''
      else if of_char c < (16 :: nat) then [CHR 0x5C] @ ''u{'' @ [hex_digit (of_char c)] @ ''}''
      else if of_char c < (32 :: nat) then [CHR 0x5C] @ ''u{1'' @ [hex_digit (of_char c - 16)] @ ''}''
      else [c])"

definition debug_string :: "string \<Rightarrow> string" where
  "debug_string s = [CHR 0x22] @ concat (map debug_char s) @ [CHR 0x22]"

definition debug_option :: "('a \<Rightarrow> string) \<Rightarrow> 'a option \<Rightarrow> string" where
  "debug_option debug v = (case v of None \<Rightarrow> ''None'' | Some x \<Rightarrow> ''Some('' @ debug x @ '')'')"

fun show_fs0_error :: "fs0_error \<Rightarrow> string" where
  "show_fs0_error (InvalidFrame message) = ''invalid frame: '' @ message"
| "show_fs0_error (FrameTooLarge actual limit) = ''frame length '' @ show_nat actual @ '' exceeds maximum '' @ show_nat limit"
| "show_fs0_error (Io message) = ''io error: '' @ message"
| "show_fs0_error (Postcard message) = ''postcard error: '' @ message"
| "show_fs0_error (Zstd message) = ''zstd error: '' @ message"
| "show_fs0_error (Sqlite message) = ''sqlite error: '' @ message"
| "show_fs0_error (InvalidConfig message) = ''invalid config: '' @ message"
| "show_fs0_error (InvalidData message) = ''invalid data: '' @ message"
| "show_fs0_error (InvalidPath path) = ''invalid path: '' @ path"
| "show_fs0_error (IntegerConversion message) = ''integer conversion failed: '' @ message"
| "show_fs0_error (AlreadyExists path) = ''path already exists: '' @ path"
| "show_fs0_error (VolumeNotFound path) = ''volume does not exist: '' @ path"
| "show_fs0_error (NoAvailableVolume prefer_volume_name update_size_hint) =
     ''no available volume for update: preferred '' @ debug_option debug_string prefer_volume_name @
     '', size hint '' @ debug_option show_u64 update_size_hint"
| "show_fs0_error (ChunkNotFound chunk_id) = ''chunk '' @ to_hex chunk_id @ '' was not found''"
| "show_fs0_error (BundleNotFound bundle_id) = ''bundle '' @ to_hex bundle_id @ '' was not found''"
| "show_fs0_error (CapacityExceeded required_end max_bytes) =
     ''volume capacity exceeded: required end '' @ show_u64 required_end @ '', max '' @ show_u64 max_bytes"
| "show_fs0_error (HashMismatch volume_offset) = ''hash mismatch at volume offset '' @ show_u64 volume_offset"
| "show_fs0_error Unsupported = ''unsupported''"
| "show_fs0_error NotFound = ''not found''"
| "show_fs0_error VolumeAlreadyMounted = ''volume already mounted''"
| "show_fs0_error (VersionConflict message) = ''version conflict: '' @ message"
| "show_fs0_error ChunkNotReady = ''chunk not ready''"
| "show_fs0_error InvalidRequest = ''invalid request''"
| "show_fs0_error Unauthorized = ''unauthorized''"
| "show_fs0_error UnknownVolume = ''unknown volume''"
| "show_fs0_error CentralUnavailable = ''central connection is unavailable''"
| "show_fs0_error (Internal message) = ''internal: '' @ message"
| "show_fs0_error (Fs0Version required actual) =
     ''fs0 version mismatch: required '' @ required @ '', actual '' @ actual @ ''; update fs0 client and storage binaries''"

section \<open>The surroundings of the process\<close>

text \<open>
  The parts of the other theories, the home directory, the content of configuration files and their parser, the local
  directories of \<open>put-dir\<close>, the clock, the wait for a signal, and how endpoints are
  printed.
\<close>

record ('e, 'w, 'k, 'u, 'c, 'p, 'h) cli_env =
  cl_client :: "('e, 'w) client_env"
  cl_iroh :: "('k, 'u, 'c) iroh_env"
  cl_relay :: "('k, 'c, 'p) relay_env"
  cl_storage :: "'h storage_env"
  cl_upload :: "string \<Rightarrow> upload_env"
  cl_download :: "string \<Rightarrow> download_env"
  cl_home :: "string option"
  cl_file :: "string \<Rightarrow> string + string"
  cl_toml :: toml_env
  cl_db_file :: "string \<Rightarrow> (central_tables option) fs0_result"
  cl_local_dir :: "string \<Rightarrow> string + (string + local_entry list) option"
  cl_local_path :: "string \<Rightarrow> string list \<Rightarrow> string"
  cl_utf8 :: "string \<Rightarrow> bool"
  cl_display :: "string list \<Rightarrow> string"
  cl_now :: "nat \<Rightarrow> u64"
  cl_mkdir :: "string \<Rightarrow> string option"
  cl_signal :: "unit fs0_result"
  cl_show_endpoint :: "('k, 'u, 'c) endpoint_plan \<Rightarrow> string"

text \<open>What commands change: the world of the client, the directories of volumes, and local files.\<close>

record 'w cli_world =
  cw_world :: 'w
  cw_dirs :: "string \<Rightarrow> volume_dir"
  cw_files :: "string \<Rightarrow> (u8 list) option"

text \<open>A command has a result, prints lines and changes the world.\<close>

type_synonym 'w cli_op = "'w cli_world \<Rightarrow> (unit fs0_result \<times> string list) \<times> 'w cli_world"

definition default_config_path :: "string option \<Rightarrow> string" where
  "default_config_path home = path_join (path_join (case home of None \<Rightarrow> ''.'' | Some h \<Rightarrow> h) ''.fs0'') ''config.toml''"

definition config_path :: "('e, 'w, 'k, 'u, 'c, 'p, 'h) cli_env \<Rightarrow> string option \<Rightarrow> string" where
  "config_path C config = (case config of Some path \<Rightarrow> path | None \<Rightarrow> default_config_path (cl_home C))"

text \<open>\<open>connect_client\<close>; a client that could not connect is dropped.\<close>

definition connect_client ::
  "('e, 'w, 'k, 'u, 'c, 'p, 'h) cli_env \<Rightarrow> string option \<Rightarrow> 'w \<Rightarrow> ('w fs0_client) fs0_result \<times> 'w" where
  "connect_client C config w =
     (case load_client_from (toml_from_str (cl_toml C) (de_client_root (cl_toml C))) (cl_file C (config_path C config)) of
        Inl e \<Rightarrow> (Inl e, w)
      | Inr cfg \<Rightarrow>
          (case client_run (cl_iroh C) (cl_client C) cfg w of
             (Inl e, s) \<Rightarrow> (Inl e, fcl_world s)
           | (Inr _, s) \<Rightarrow> (Inr s, fcl_world s)))"

text \<open>
  A command that connects, does one thing with the client, prints its result and shuts the client down. When that one
  thing fails the client is dropped without being shut down.
\<close>

definition with_client ::
  "('e, 'w, 'k, 'u, 'c, 'p, 'h) cli_env \<Rightarrow> string option \<Rightarrow> ('w, 'a) client_op \<Rightarrow> ('a \<Rightarrow> string list) \<Rightarrow> ('a \<Rightarrow> 'w cli_world \<Rightarrow> 'w cli_world) \<Rightarrow>
   'w cli_op" where
  "with_client C config body print effect st =
     (case connect_client C config (cw_world st) of
        (Inl e, w) \<Rightarrow> ((Inl e, []), st\<lparr> cw_world := w \<rparr>)
      | (Inr s, _) \<Rightarrow>
          (case body s of
             (Inl e, s') \<Rightarrow> ((Inl e, []), st\<lparr> cw_world := fcl_world s' \<rparr>)
           | (Inr x, s') \<Rightarrow>
               (case client_shutdown (cl_client C) s' of
                  (r, s'') \<Rightarrow> ((r, print x), effect x (st\<lparr> cw_world := fcl_world s'' \<rparr>)))))"

section \<open>The commands of a client\<close>

definition cmd_ls :: "('e, 'w, 'k, 'u, 'c, 'p, 'h) cli_env \<Rightarrow> string option \<Rightarrow> string \<Rightarrow> u32 \<Rightarrow> u64 option \<Rightarrow> 'w cli_op" where
  "cmd_ls C config dir limit cursor =
     with_client C config (call_list_directory (cl_client C) dir limit cursor) print_directory_entries (\<lambda>_ st. st)"

definition cmd_stat :: "('e, 'w, 'k, 'u, 'c, 'p, 'h) cli_env \<Rightarrow> string option \<Rightarrow> string \<Rightarrow> 'w cli_op" where
  "cmd_stat C config remote_path =
     with_client C config (call_get_file_read_plan (cl_client C) remote_path) print_file_read_plan (\<lambda>_ st. st)"

definition cmd_get :: "('e, 'w, 'k, 'u, 'c, 'p, 'h) cli_env \<Rightarrow> string option \<Rightarrow> string \<Rightarrow> string \<Rightarrow> 'w cli_op" where
  "cmd_get C config remote_path local_path =
     with_client C config
       (download_file (cl_client C) (se_blake3 (cl_storage C)) (se_zstd (cl_storage C)) (cl_download C local_path) remote_path)
       (\<lambda>_. []) (\<lambda>(_, contents) st. st\<lparr> cw_files := (cw_files st)(local_path \<mapsto> contents) \<rparr>)"

text \<open>What a failed download leaves in the local file is left out. Standard input is refused, but only once the client has connected.\<close>

definition cmd_put :: "('e, 'w, 'k, 'u, 'c, 'p, 'h) cli_env \<Rightarrow> string option \<Rightarrow> string \<Rightarrow> string \<Rightarrow> string option \<Rightarrow> 'w cli_op" where
  "cmd_put C config remote_path local_path prefer_volume =
     with_client C config
       (if local_path = ''-'' then st_throw Unsupported
        else upload_file_inner (cl_client C) (se_blake3 (cl_storage C)) (se_zstd (cl_storage C)) (cl_upload C local_path)
               remote_path local_path prefer_volume)
       print_write_result (\<lambda>_ st. st)"

definition cmd_rm :: "('e, 'w, 'k, 'u, 'c, 'p, 'h) cli_env \<Rightarrow> string option \<Rightarrow> string \<Rightarrow> 'w cli_op" where
  "cmd_rm C config remote_path = with_client C config (call_delete_file (cl_client C) remote_path) (\<lambda>_. []) (\<lambda>_ st. st)"

definition cmd_cp :: "('e, 'w, 'k, 'u, 'c, 'p, 'h) cli_env \<Rightarrow> string option \<Rightarrow> string \<Rightarrow> string \<Rightarrow> 'w cli_op" where
  "cmd_cp C config source_path target_path =
     with_client C config (call_copy_file (cl_client C) source_path target_path) print_file_record (\<lambda>_ st. st)"

definition cmd_mv :: "('e, 'w, 'k, 'u, 'c, 'p, 'h) cli_env \<Rightarrow> string option \<Rightarrow> string \<Rightarrow> string \<Rightarrow> 'w cli_op" where
  "cmd_mv C config source_path target_path =
     with_client C config (call_rename_file (cl_client C) source_path target_path) print_file_record (\<lambda>_ st. st)"

definition cmd_changes :: "('e, 'w, 'k, 'u, 'c, 'p, 'h) cli_env \<Rightarrow> string option \<Rightarrow> u64 \<Rightarrow> u32 \<Rightarrow> 'w cli_op" where
  "cmd_changes C config cursor limit =
     with_client C config (call_get_file_change_logs (cl_client C) cursor limit) print_file_change_logs (\<lambda>_ st. st)"

definition cmd_peers :: "('e, 'w, 'k, 'u, 'c, 'p, 'h) cli_env \<Rightarrow> string option \<Rightarrow> 'w cli_op" where
  "cmd_peers C config = with_client C config (st_gets (\<lambda>s. cse_storages (fcl_central s))) print_peers (\<lambda>_ st. st)"

text \<open>The client of \<open>put-dir\<close> is shut down also after a failure; the lines for single files are left out.\<close>

definition cmd_put_dir ::
  "('e, 'w, 'k, 'u, 'c, 'p, 'h) cli_env \<Rightarrow> string option \<Rightarrow> string \<Rightarrow> string \<Rightarrow> string option \<Rightarrow> bool \<Rightarrow> 'w cli_op" where
  "cmd_put_dir C config remote_dir local_dir prefer_volume dry_run st =
     (case collect_upload_files (cl_utf8 C) (cl_display C) local_dir (cl_local_dir C local_dir) (normalize_remote_dir remote_dir) of
        Inl e \<Rightarrow> ((Inl e, []), st)
      | Inr files \<Rightarrow>
          if dry_run then ((Inr (), print_dry_run (cl_local_path C local_dir) files), st)
          else
            (case connect_client C config (cw_world st) of
               (Inl e, w) \<Rightarrow> ((Inl e, []), st\<lparr> cw_world := w \<rparr>)
             | (Inr s, _) \<Rightarrow>
                 (case put_dir_client (cl_client C) (se_blake3 (cl_storage C)) (se_zstd (cl_storage C))
                     (\<lambda>loc. cl_upload C (cl_local_path C local_dir loc)) (cl_local_path C local_dir) prefer_volume files s of
                    (result, s') \<Rightarrow>
                      (case client_shutdown (cl_client C) s' of
                         (shutdown, s'') \<Rightarrow>
                           ((case res_bind result (\<lambda>summary. res_bind shutdown (\<lambda>_. Inr summary)) of
                               Inl e \<Rightarrow> (Inl e, [])
                             | Inr summary \<Rightarrow> (Inr (), print_summary summary)),
                            st\<lparr> cw_world := fcl_world s'' \<rparr>)))))"

section \<open>The commands of servers and volumes\<close>

definition cmd_create_volume ::
  "('e, 'w, 'k, 'u, 'c, 'p, 'h) cli_env \<Rightarrow> string option \<Rightarrow> string \<Rightarrow> string \<Rightarrow> string \<Rightarrow> 'w cli_op" where
  "cmd_create_volume C config path name max_bytes st =
     (case create_command (cl_client C) (load_storage_from (toml_from_str (cl_toml C) (de_storage_root (cl_toml C))) (cl_file C (config_path C config)))
         (cl_mkdir C path) (cl_now C 0) (cl_now C 1) path name max_bytes (cw_dirs st path, cw_world st) of
        (r, (d, w)) \<Rightarrow>
          ((case r of Inl e \<Rightarrow> (Inl e, []) | Inr meta \<Rightarrow> (Inr (), print_volume_meta meta)), st\<lparr> cw_world := w, cw_dirs := (cw_dirs st)(path := d) \<rparr>))"

definition cmd_inspect_volume :: "string \<Rightarrow> 'w cli_op" where
  "cmd_inspect_volume path st =
     ((case volume_open path (cw_dirs st path) of
         Inl e \<Rightarrow> (Inl e, [])
       | Inr v \<Rightarrow> (Inr (), print_volume_meta (vd_meta (vo_db v)))), st)"

text \<open>
  The servers run until a signal arrives. What they do meanwhile is the matter of \<^verbatim>\<open>Central_Reach\<close> and \<^verbatim>\<open>Storage_System\<close>;
  here it is whether they start, and what the process reports.
\<close>

definition run_central :: "('e, 'w, 'k, 'u, 'c, 'p, 'h) cli_env \<Rightarrow> string option \<Rightarrow> unit fs0_result \<times> string list" where
  "run_central C config =
     (case res_bind (load_central_from (toml_from_str (cl_toml C) de_central_root) (cl_file C (config_path C config)))
         (central_run (cl_relay C) (cl_iroh C) (cl_db_file C)) of
        Inl e \<Rightarrow> (Inl e, [])
      | Inr (_, transport, _) \<Rightarrow> (cl_signal C, [''central endpoint: '' @ cl_show_endpoint C transport]))"

definition run_storage :: "('e, 'w, 'k, 'u, 'c, 'p, 'h) cli_env \<Rightarrow> string option \<Rightarrow> (string \<Rightarrow> volume_dir) \<Rightarrow> unit fs0_result" where
  "run_storage C config dirs =
     res_bind (load_storage_from (toml_from_str (cl_toml C) (de_storage_root (cl_toml C))) (cl_file C (config_path C config))) (\<lambda>cfg.
     res_bind (storage_server_run (cl_iroh C) (cl_storage C) dirs cfg) (\<lambda>_. cl_signal C))"

section \<open>The program\<close>

fun run_command :: "('e, 'w, 'k, 'u, 'c, 'p, 'h) cli_env \<Rightarrow> string option \<Rightarrow> command \<Rightarrow> 'w cli_op" where
  "run_command C config (Ls dir limit cursor) = cmd_ls C config dir limit cursor"
| "run_command C config (Stat remote_path) = cmd_stat C config remote_path"
| "run_command C config (Get remote_path local_path) = cmd_get C config remote_path local_path"
| "run_command C config (Put remote_path local_path prefer_volume) = cmd_put C config remote_path local_path prefer_volume"
| "run_command C config (Put_Dir remote_dir local_dir prefer_volume dry_run) = cmd_put_dir C config remote_dir local_dir prefer_volume dry_run"
| "run_command C config (Rm remote_path) = cmd_rm C config remote_path"
| "run_command C config (Cp source_path target_path) = cmd_cp C config source_path target_path"
| "run_command C config (Mv source_path target_path) = cmd_mv C config source_path target_path"
| "run_command C config (Changes cursor limit) = cmd_changes C config cursor limit"
| "run_command C config Peers = cmd_peers C config"
| "run_command C config (Central_Command Central_Run) = (\<lambda>st. (run_central C config, st))"
| "run_command C config (Storage_Command Storage_Run) = (\<lambda>st. ((run_storage C config (cw_dirs st), []), st))"
| "run_command C config (Storage_Command (Create_Volume path name max_bytes)) = cmd_create_volume C config path name max_bytes"
| "run_command C config (Storage_Command (Inspect_Volume path)) = cmd_inspect_volume path"

datatype exit_code = SUCCESS | FAILURE

text \<open>The exit code, the lines on standard output and the last line on standard error.\<close>

definition cli_main ::
  "('e, 'w, 'k, 'u, 'c, 'p, 'h) cli_env \<Rightarrow> cli \<Rightarrow> 'w cli_world \<Rightarrow> (exit_code \<times> string list \<times> string option) \<times> 'w cli_world" where
  "cli_main C cli st =
     (case run_command C (cli_config cli) (cli_command cli) st of
        ((Inr _, out), st') \<Rightarrow> ((SUCCESS, out, None), st')
      | ((Inl e, out), st') \<Rightarrow> ((FAILURE, out, Some (''fs0: '' @ show_fs0_error e)), st'))"

text \<open>Shutting a client down never fails, and a command of a client prints only when what it asked for was done.\<close>

lemma st_iter_Inr: "(\<And>x s. \<exists>s'. f x s = (Inr (), s')) \<Longrightarrow> \<exists>s'. st_iter f xs s = (Inr (), s')"
proof (induction xs arbitrary: s)
  case (Cons x xs)
  obtain s1 where "f x s = (Inr (), s1)" using Cons.prems by blast
  moreover obtain s2 where "st_iter f xs s1 = (Inr (), s2)" using Cons by blast
  ultimately show ?case by (auto simp: st_bind_def)
qed simp

lemma session_close_Inr: "\<exists>y. session_close E x = (Inr (), y)"
  by (cases x) (auto simp: session_close_def set_connection_def on_client_def close_conn_def st_bind_def split: option.splits)

lemma client_shutdown_Inr: "\<exists>s'. client_shutdown E s = (Inr (), s')"
proof -
  have "\<exists>s'. close_storage_session E x s = (Inr (), s')" for x s
    using session_close_Inr [of E "(x, s)"] by (auto simp: close_storage_session_def)
  then have "\<exists>s'. close_storage_sessions E s = (Inr (), s')" for s
    using st_iter_Inr [of "close_storage_session E"] by (auto simp: close_storage_sessions_def st_bind_def)
  moreover have "\<exists>s'. central_close E s = (Inr (), s')"
    by (auto simp: central_close_def update_central_def close_conn_def st_bind_def split: option.splits)
  ultimately show ?thesis unfolding client_shutdown_def by (auto simp: st_bind_def split: prod.splits sum.splits)
qed

lemma with_client_prints:
  assumes "with_client C config body print effect st = ((r, out), st')"
  shows "r = Inr () \<or> out = []"
  using assms client_shutdown_Inr [of "cl_client C"]
  by (auto simp: with_client_def split: prod.splits sum.splits) (metis prod.inject)+

end
