(* ===== verification/Cli_Central.thy ===== *)
theory Cli_Central
  imports Cli_Commands Central_Tx Message_Types
begin

text \<open>
  The command line together with the central server: the commands of the program \<^verbatim>\<open>fs0\<close> on a network that carries
  every request to the model of the server and its answer back. What a command does to the files of the server is what
  its name says on a map from paths to files with their content.
\<close>

section \<open>Requests about files\<close>

text \<open>The files of a server, and the three changes that a client can ask for by paths.\<close>

type_synonym file_map = "string list \<rightharpoonup> file_row \<times> hash_id list"

definition removes :: "string \<Rightarrow> file_map \<Rightarrow> file_map \<Rightarrow> bool" where
  "removes path m m' \<longleftrightarrow> (\<exists>cs. path = path_of cs \<and> m cs \<noteq> None \<and> m' = m(cs := None))"

definition copies :: "string \<Rightarrow> string \<Rightarrow> file_record \<Rightarrow> file_map \<Rightarrow> file_map \<Rightarrow> bool" where
  "copies path target rcd m m' \<longleftrightarrow>
     (\<exists>cs ds f g content. path = path_of cs \<and> target = path_of ds \<and> m cs = Some (f, content) \<and> m ds = None \<and>
        m' = m(ds \<mapsto> (g, content)) \<and> rcd = record_of ds g \<and> (\<forall>es h c. m es = Some (h, c) \<longrightarrow> fr_file_id h \<noteq> fr_file_id g) \<and>
        fr_size_bytes g = fr_size_bytes f \<and> fr_compressed_size_bytes g = fr_compressed_size_bytes f)"

definition moves :: "string \<Rightarrow> string \<Rightarrow> file_record \<Rightarrow> file_map \<Rightarrow> file_map \<Rightarrow> bool" where
  "moves path target rcd m m' \<longleftrightarrow>
     (\<exists>cs ds f g content. path = path_of cs \<and> target = path_of ds \<and> m cs = Some (f, content) \<and> (ds = cs \<or> m ds = None) \<and>
        m' = (m(cs := None))(ds \<mapsto> (g, content)) \<and> rcd = record_of ds g \<and> fr_file_id g = fr_file_id f \<and>
        fr_size_bytes g = fr_size_bytes f \<and> fr_compressed_size_bytes g = fr_compressed_size_bytes f)"

lemma stored_conn:
  assumes "db_conn s' = db_conn s"
  shows "stored s' = stored s"
proof -
  have "s' = s\<lparr> db_dir_cache := db_dir_cache s' \<rparr>" using assms by (cases s; cases s') simp
  then show ?thesis using stored_cache(1) by metis
qed

lemma stored_Some: "stored s cs = Some (f, c) \<longleftrightarrow> file_at s cs = Some f \<and> c = file_content s (fr_file_id f)"
  by (auto simp: stored_def)

lemma drop_stored_path:
  assumes "db_inv s" and "file_at s cs = Some f"
  shows "drop_stored (fr_file_id f) (stored s) = (stored s)(cs := None)"
  using only_path [OF assms] assms(2) by (auto simp: drop_stored_def fun_eq_iff stored_def split: option.splits)

subsection \<open>Finding the file\<close>

lemma file_id_by_path_conn: "file_id_by_path path s = (r, s1) \<Longrightarrow> db_conn (cs_db s1) = db_conn (cs_db s)"
  using run_read_tx_conn [of "st_bind (get_file_by_path path) (\<lambda>file. st_return (fr_file_id file))" "cs_db s"]
  by (auto simp: file_id_by_path_def with_db_def split: prod.splits)

lemma file_id_by_path_Inr:
  assumes inv: "db_inv (cs_db s)" and res: "file_id_by_path path s = (Inr i, s1)"
  shows "\<exists>cs f. path = path_of cs \<and> file_at (cs_db s) cs = Some f \<and> fr_file_id f = i"
proof -
  have tree: "tree_ok (cs_db s)" using inv by (rule db_invD)
  obtain f t where get: "get_file_by_path path (cs_db s) = (Inr f, t)" and i: "fr_file_id f = i"
    using res by (auto simp: file_id_by_path_def with_db_def run_read_tx_def st_bind_def split: prod.splits sum.splits)
  obtain dir name where split: "split_fs0_path_dir_and_name path = Inr (dir, name)"
    using get by (cases "split_fs0_path_dir_and_name path") (auto simp: get_file_by_path_def st_bind_def st_lift_def)
  then obtain cs where cs: "list_all valid_component cs" "cs \<noteq> []" "path = path_of cs" using target_path by blast
  obtain c where "get_file_by_path (path_of cs) (cs_db s) = (ok_or NotFound (file_at (cs_db s) cs), (cs_db s)\<lparr> db_dir_cache := c \<rparr>)"
    using get_file_by_path_file_at [OF tree cs(1,2)] by blast
  with get cs(3) have "file_at (cs_db s) cs = Some f" by simp
  with i cs(3) show ?thesis by blast
qed

lemma file_id_by_path_inv: "file_id_by_path path s = (r, s1) \<Longrightarrow> db_inv (cs_db s) \<Longrightarrow> db_inv (cs_db s1)"
  using serves_file_id [of path] by (auto simp: serves_def dest: st_relD)

subsection \<open>What the requests do\<close>

lemma with_tx_Inr:
  assumes "with_db (run_tx ce m) s = (Inr x, s')"
  shows "m (cs_db s) = (Inr x, cs_db s') \<and> ce = None"
  using assms by (auto simp: with_db_def run_tx_Inr_iff split: prod.splits)

lemma with_tx_Inl: "with_db (run_tx ce m) s = (Inl e, s') \<Longrightarrow> db_conn (cs_db s') = db_conn (cs_db s)"
  by (auto simp: with_db_def dest: run_tx_error_rolls_back split: prod.splits)

lemma found_file:
  assumes inv: "db_inv (cs_db s)" and res: "file_id_by_path path s = (Inr i, s1)"
  obtains cs f where "path = path_of cs" and "stored (cs_db s) cs = Some (f, file_content (cs_db s1) i)" and "fr_file_id f = i"
    and "find_file (cs_db s1) i = Some f" and "stored (cs_db s1) = stored (cs_db s)" and "db_inv (cs_db s1)"
    and "drop_stored i (stored (cs_db s1)) = (stored (cs_db s))(cs := None)"
proof -
  note conn = file_id_by_path_conn [OF res] and inv' = file_id_by_path_inv [OF res inv]
  obtain cs f where at: "path = path_of cs" "file_at (cs_db s) cs = Some f" "fr_file_id f = i"
    using file_id_by_path_Inr [OF inv res] by blast
  have at': "file_at (cs_db s1) cs = Some f" using at(2) file_at_cong conn by metis
  have same: "stored (cs_db s1) = stored (cs_db s)" using stored_conn [OF conn] .
  show ?thesis
  proof (rule that [OF at(1) _ at(3) _ same inv'])
    show "stored (cs_db s) cs = Some (f, file_content (cs_db s1) i)" using at' at(3) same by (metis stored_Some)
    show "find_file (cs_db s1) i = Some f" using find_file_at [OF inv' at'] at(3) by simp
    show "drop_stored i (stored (cs_db s1)) = (stored (cs_db s))(cs := None)" using drop_stored_path [OF inv' at'] at(3) same by simp
  qed
qed

lemma handle_delete_file_Inr:
  assumes inv: "db_inv (cs_db s)" and clock: "clock_ok E" and res: "handle_delete_file E path s = (Inr r, s')"
  shows "removes path (stored (cs_db s)) (stored (cs_db s'))"
proof -
  from res obtain i s1 where i: "file_id_by_path path s = (Inr i, s1)" and k: "handle_delete_file_by_id E i s1 = (Inr r, s')"
    by (auto simp: handle_delete_file_def st_bind_Inr_iff)
  from i inv obtain cs f where f: "path = path_of cs" "stored (cs_db s) cs = Some (f, file_content (cs_db s1) i)" "fr_file_id f = i"
      "find_file (cs_db s1) i = Some f" "stored (cs_db s1) = stored (cs_db s)" "db_inv (cs_db s1)"
      "drop_stored i (stored (cs_db s1)) = (stored (cs_db s))(cs := None)" using found_file by metis
  from k obtain u where tx: "delete_file_tx i (ev_now E 0) (cs_db s1) = (Inr u, cs_db s')"
    by (auto simp: handle_delete_file_by_id_def st_bind_Inr_iff dest!: with_tx_Inr)
  have fits: "fits_i64 (ev_now E 0)" "fits_i64 i"
    using clock file_id_fits [OF db_invD(5) [OF f(6)]] find_fileD [OF f(4)] f(3) by (auto simp: clock_ok_def)
  from delete_file_tx_spec [OF f(6) fits tx] have "stored (cs_db s') = drop_stored i (stored (cs_db s1))" by simp
  then show ?thesis unfolding removes_def using f(1,2,7) by (intro exI [of _ cs]) auto
qed

lemma handle_copy_file_Inr:
  assumes inv: "db_inv (cs_db s)" and clock: "clock_ok E" and res: "handle_copy_file E path target s = (Inr r, s')"
  shows "\<exists>rcd. r = control_response.CopyFileById rcd \<and> copies path target rcd (stored (cs_db s)) (stored (cs_db s'))"
proof -
  from res obtain i s1 where i: "file_id_by_path path s = (Inr i, s1)" and k: "handle_copy_file_by_id E i target s1 = (Inr r, s')"
    by (auto simp: handle_copy_file_def st_bind_Inr_iff)
  from i inv obtain cs f where f: "path = path_of cs" "stored (cs_db s) cs = Some (f, file_content (cs_db s1) i)" "fr_file_id f = i"
      "find_file (cs_db s1) i = Some f" "stored (cs_db s1) = stored (cs_db s)" "db_inv (cs_db s1)" using found_file by metis
  from k obtain rcd where tx: "copy_file_tx i target (ev_now E 0) (cs_db s1) = (Inr rcd, cs_db s')"
    and r: "r = control_response.CopyFileById rcd"
    by (auto simp: handle_copy_file_by_id_def st_bind_Inr_iff dest!: with_tx_Inr)
  have now: "fits_i64 (ev_now E 0)" using clock by (simp add: clock_ok_def)
  from tx obtain dir name where split: "split_fs0_path_dir_and_name target = Inr (dir, name)"
    by (auto simp: copy_file_tx_def st_bind_Inr_iff st_lift_def)
  obtain ds g where g: "target = path_of ds" "stored (cs_db s1) ds = None" "find_file (cs_db s1) (fr_file_id g) = None"
      "fr_size_bytes g = fr_size_bytes f" "fr_compressed_size_bytes g = fr_compressed_size_bytes f"
      "stored (cs_db s') = (stored (cs_db s1))(ds \<mapsto> (g, file_content (cs_db s1) i))" "rcd = record_of ds g"
    using copy_file_tx_spec [OF f(6) now f(4) split tx] by auto
  have "fr_file_id h \<noteq> fr_file_id g" if "stored (cs_db s) es = Some (h, c)" for es h c
    using that find_file_at [OF f(6), of es h] g(3) f(5) by (metis stored_Some option.distinct(1))
  then have "copies path target rcd (stored (cs_db s)) (stored (cs_db s'))"
    unfolding copies_def using f(1,2) g f(5)
    by (intro exI [of _ cs] exI [of _ ds] exI [of _ f] exI [of _ g] exI [of _ "file_content (cs_db s1) i"]) simp
  with r show ?thesis by blast
qed

lemma handle_rename_file_Inr:
  assumes inv: "db_inv (cs_db s)" and clock: "clock_ok E" and res: "handle_rename_file E path target s = (Inr r, s')"
  shows "\<exists>rcd. r = control_response.RenameFileById rcd \<and> moves path target rcd (stored (cs_db s)) (stored (cs_db s'))"
proof -
  from res obtain i s1 where i: "file_id_by_path path s = (Inr i, s1)" and k: "handle_rename_file_by_id E i target s1 = (Inr r, s')"
    by (auto simp: handle_rename_file_def st_bind_Inr_iff)
  from i inv obtain cs f where f: "path = path_of cs" "stored (cs_db s) cs = Some (f, file_content (cs_db s1) i)" "fr_file_id f = i"
      "find_file (cs_db s1) i = Some f" "stored (cs_db s1) = stored (cs_db s)" "db_inv (cs_db s1)"
      "drop_stored i (stored (cs_db s1)) = (stored (cs_db s))(cs := None)" using found_file by metis
  from k obtain rcd where tx: "rename_file_tx i target (ev_now E 0) (cs_db s1) = (Inr rcd, cs_db s')"
    and r: "r = control_response.RenameFileById rcd"
    by (auto simp: handle_rename_file_by_id_def st_bind_Inr_iff dest!: with_tx_Inr)
  have now: "fits_i64 (ev_now E 0)" using clock by (simp add: clock_ok_def)
  from tx obtain dir name where split: "split_fs0_path_dir_and_name target = Inr (dir, name)"
    by (auto simp: rename_file_tx_def st_bind_Inr_iff st_lift_def)
  obtain ds g where g: "target = path_of ds" "\<And>h c. stored (cs_db s1) ds = Some (h, c) \<Longrightarrow> fr_file_id h = i"
      "g = f\<lparr> fr_dir_id := fr_dir_id g, fr_name := last ds, fr_updated_at_ms := ev_now E 0 \<rparr>"
      "stored (cs_db s') = (drop_stored i (stored (cs_db s1)))(ds \<mapsto> (g, file_content (cs_db s1) i))" "rcd = record_of ds g"
    using rename_file_tx_spec [OF f(6) now f(4) split tx] by auto
  have same: "fr_file_id g = fr_file_id f \<and> fr_size_bytes g = fr_size_bytes f \<and> fr_compressed_size_bytes g = fr_compressed_size_bytes f"
    by (subst (1 2 3) g(3)) simp
  have "ds = cs \<or> stored (cs_db s) ds = None"
  proof (cases "stored (cs_db s) ds")
    case (Some x)
    obtain h c where x: "x = (h, c)" by force
    with Some f(5) g(2) have "fr_file_id h = i" by metis
    moreover have "file_at (cs_db s1) ds = Some h" "file_at (cs_db s1) cs = Some f"
      using Some x f(2,5) by (metis stored_Some)+
    ultimately show ?thesis using only_path [OF f(6), of cs f ds h] f(3) by simp
  qed simp
  then have "moves path target rcd (stored (cs_db s)) (stored (cs_db s'))"
    unfolding moves_def using f(1,2) g(1,4,5) f(7) same
    by (intro exI [of _ cs] exI [of _ ds] exI [of _ f] exI [of _ g] exI [of _ "file_content (cs_db s1) i"]) simp
  with r show ?thesis by blast
qed

text \<open>Requests that only read, and those that fail, leave the tables as they were.\<close>

lemma list_directory_conn:
  assumes inv: "db_inv s" and res: "list_directory dir limit cursor s = (r, s')"
  shows "db_conn s' = db_conn s"
proof -
  obtain c where "get_dir_id_by_path dir s = (resolve_dir (dirs_of s) dir, s\<lparr> db_dir_cache := c \<rparr>)"
    using get_dir_id_by_path_spec [OF db_invD(3) [OF inv], of dir] by blast
  with res show ?thesis
    by (auto simp: list_directory_def Let_def st_bind_def st_lift_def st_return_def query_map_def split: prod.splits sum.splits if_splits)
qed

lemma then_conn:
  assumes "st_bind m f s = (r, s')" and "\<And>x s1. m s = (x, s1) \<Longrightarrow> P s1" and "\<And>x s1. m s = (Inr x, s1) \<Longrightarrow> P s1 \<Longrightarrow> f x s1 = (r, s') \<Longrightarrow> P s'"
  shows "P s'"
proof -
  obtain x s1 where m: "m s = (x, s1)" by force
  show ?thesis using assms(1) assms(2) [OF m] assms(3) m by (cases x) (auto simp: st_bind_def)
qed

lemma read_request_conn:
  assumes "db_inv (cs_db s)"
  shows "handle_list_directory E dir limit cursor s = (r, s') \<Longrightarrow> db_conn (cs_db s') = db_conn (cs_db s)"
    and "get_file_read_plan path s = (r, s') \<Longrightarrow> db_conn (cs_db s') = db_conn (cs_db s)"
    and "handle_get_file_change_logs i n s = (r, s') \<Longrightarrow> db_conn (cs_db s') = db_conn (cs_db s)"
proof -
  have read: "with_db (run_read_tx m) t = (x, t') \<Longrightarrow> db_conn (cs_db t') = db_conn (cs_db t)" for m :: "'a tx" and t x t'
    using run_read_tx_conn [of m "cs_db t"] by (auto simp: with_db_def split: prod.splits)
  show "handle_list_directory E dir limit cursor s = (r, s') \<Longrightarrow> db_conn (cs_db s') = db_conn (cs_db s)"
    using list_directory_conn [OF assms]
    by (auto simp: handle_list_directory_def st_bind_def st_return_def with_db_def run_tx_def split: prod.splits sum.splits option.splits)
  have plan: "get_file_read_plan_by_id j t = (x, t') \<Longrightarrow> db_conn (cs_db t') = db_conn (cs_db t)" for j t x t'
    using run_read_tx_conn [of "read_plan_tx (cs_online_volumes t) j" "cs_db t"]
    by (auto simp: get_file_read_plan_by_id_def st_bind_def st_return_def st_gets_def with_db_def split: prod.splits sum.splits)
  show "get_file_read_plan path s = (r, s') \<Longrightarrow> db_conn (cs_db s') = db_conn (cs_db s)"
    unfolding get_file_read_plan_def by (erule then_conn) (auto dest: file_id_by_path_conn plan)
  show "handle_get_file_change_logs i n s = (r, s') \<Longrightarrow> db_conn (cs_db s') = db_conn (cs_db s)"
    using run_read_tx_conn [of "get_file_change_logs i n" "cs_db s"]
    by (auto simp: handle_get_file_change_logs_def st_bind_def st_return_def with_db_def split: prod.splits sum.splits)
qed

lemma failed_request_conn:
  shows "handle_delete_file E path s = (Inl e, s') \<Longrightarrow> db_conn (cs_db s') = db_conn (cs_db s)"
    and "handle_copy_file E path target s = (Inl e, s') \<Longrightarrow> db_conn (cs_db s') = db_conn (cs_db s)"
    and "handle_rename_file E path target s = (Inl e, s') \<Longrightarrow> db_conn (cs_db s') = db_conn (cs_db s)"
  unfolding handle_delete_file_def handle_copy_file_def handle_rename_file_def handle_delete_file_by_id_def
    handle_copy_file_by_id_def handle_rename_file_by_id_def
  by (erule then_conn; auto simp: st_bind_Inl_iff dest: file_id_by_path_conn with_tx_Inl)+

section \<open>The network\<close>

text \<open>
  Central with the connections that clients have to it. A request is answered by the server, under the surroundings of
  that call; a connection that is not there fails; one that is closed ends at the server. A connection can be refused. A
  call can fail before its request has reached the server, and it can fail although the server has acted on the request,
  because the answer is lost or comes after the deadline of \<open>rpc\<close>; and the connection can be lost after a call. The
  outcome of a call is taken when the server is through with the request, also when the client has given up by then.
\<close>

datatype net_fault = Request_Lost fs0_error | Answer_Lost fs0_error

record net_env =
  ne_server :: "nat \<Rightarrow> env"
  ne_refused :: "nat \<Rightarrow> fs0_error option"
  ne_fault :: "nat \<Rightarrow> net_fault option"
  ne_drops :: "nat \<Rightarrow> bool"

record net =
  nt_server :: central_server
  nt_conns :: "nat \<Rightarrow> control_connection_identity option"
  nt_next :: nat
  nt_calls :: nat

definition net_connect :: "net_env \<Rightarrow> net \<Rightarrow> nat fs0_result \<times> net" where
  "net_connect N w =
     (case ne_refused N (nt_next w) of
        Some e \<Rightarrow> (Inl e, w\<lparr> nt_next := nt_next w + 1 \<rparr>)
      | None \<Rightarrow> (Inr (nt_next w), w\<lparr> nt_conns := (nt_conns w)(nt_next w \<mapsto> Anonymous), nt_next := nt_next w + 1 \<rparr>))"

definition net_close :: "nat \<Rightarrow> net \<Rightarrow> net" where
  "net_close c w =
     (case nt_conns w c of
        None \<Rightarrow> w
      | Some i \<Rightarrow> w\<lparr> nt_server := close_connection c i (nt_server w), nt_conns := (nt_conns w)(c := None) \<rparr>)"

definition net_after :: "net_env \<Rightarrow> nat \<Rightarrow> net \<Rightarrow> net" where
  "net_after N c w = (if ne_drops N (nt_calls w) then net_close c w else w)\<lparr> nt_calls := nt_calls w + 1 \<rparr>"

definition net_rpc :: "net_env \<Rightarrow> nat \<Rightarrow> protocol_request \<Rightarrow> net \<Rightarrow> protocol_response fs0_result \<times> net" where
  "net_rpc N c q w =
     (case nt_conns w c of
        None \<Rightarrow> (Inl (Internal ''connection lost''), net_after N c w)
      | Some i \<Rightarrow>
          (case serve_request (ne_server N (nt_calls w)) c q i (nt_server w) of
             (r, i', s') \<Rightarrow>
               let served = net_after N c (w\<lparr> nt_server := s', nt_conns := (nt_conns w)(c \<mapsto> i') \<rparr>)
               in (case ne_fault N (nt_calls w) of
                     None \<Rightarrow> (Inr r, served)
                   | Some (Answer_Lost e) \<Rightarrow> (Inl e, served)
                   | Some (Request_Lost e) \<Rightarrow> (Inl e, net_after N c w))))"

text \<open>When the client takes a connection for closed is left open; a call on a lost connection fails in either case.\<close>

definition connected_to :: "net_env \<Rightarrow> ('e, net) client_env \<Rightarrow> bool" where
  "connected_to N E \<longleftrightarrow>
     ce_connect E = (\<lambda>_. net_connect N) \<and> ce_rpc E = (\<lambda>c q _. net_rpc N c q) \<and> ce_close E = net_close"

text \<open>One of the calls between two states has lost its answer.\<close>

definition answer_lost :: "net_env \<Rightarrow> net \<Rightarrow> net \<Rightarrow> bool" where
  "answer_lost N w w' \<longleftrightarrow> (\<exists>n e. nt_calls w \<le> n \<and> n < nt_calls w' \<and> ne_fault N n = Some (Answer_Lost e))"

abbreviation net_tables :: "net \<Rightarrow> central_tables" where
  "net_tables w \<equiv> db_conn (cs_db (nt_server w))"

abbreviation net_files :: "net \<Rightarrow> file_map" where
  "net_files w \<equiv> stored (cs_db (nt_server w))"

lemma close_connection_db: "cs_db (close_connection c i s) = cs_db s"
proof -
  have "cs_db (snd (unregister_identity i s)) = cs_db s"
    by (cases i) (simp_all add: unregister_client_def unregister_storage_def Let_def split: option.splits)
  then show ?thesis by (auto simp: close_connection_def broadcast_event_def Let_def split: prod.splits option.splits)
qed

lemma net_close_db: "cs_db (nt_server (net_close c w)) = cs_db (nt_server w)"
  by (simp add: net_close_def close_connection_db split: option.splits)

lemma net_after_state:
  "cs_db (nt_server (net_after N c w)) = cs_db (nt_server w)" "nt_calls (net_after N c w) = nt_calls w + 1"
  "nt_conns (net_after N c w) c = None \<or> nt_conns (net_after N c w) c = nt_conns w c"
  by (simp_all add: net_after_def net_close_def close_connection_db split: option.splits)

lemma net_close_state: "cs_db (nt_server (net_close c w)) = cs_db (nt_server w)" "nt_calls (net_close c w) = nt_calls w"
  by (simp_all add: net_close_def close_connection_db split: option.splits)

text \<open>What a client can have at the end of its connection: nothing more, or a client that has registered.\<close>

definition of_client :: "net \<Rightarrow> nat \<Rightarrow> bool" where
  "of_client w c \<longleftrightarrow> nt_conns w c = None \<or> (\<exists>k. nt_conns w c = Some (Client k))"

text \<open>A registration leaves the database alone; its answer says that the connection now belongs to a client.\<close>

lemma serve_registration:
  assumes "serve_request E c (protocol_request.Control (control_request.RegisterClient name token version)) i s = (r, i', s')"
  shows "cs_db s' = cs_db s \<and> (\<forall>k ps. r = protocol_response.Control (control_response.RegisterClient k ps) \<longrightarrow> i' = Client k)"
  using assms
  by (auto simp: respond_def register_client_def next_id_def validate_registration_version_def st_bind_def st_lift_def
      st_gets_def st_modify_def st_return_def st_throw_def split: option.splits prod.splits sum.splits if_splits)

lemma register_client_net:
  assumes res: "net_rpc N c (protocol_request.Control (control_request.RegisterClient name token version)) w = (r, w')"
  shows "cs_db (nt_server w') = cs_db (nt_server w) \<and> nt_calls w' = nt_calls w + 1 \<and>
    (\<forall>k ps. r = Inr (protocol_response.Control (control_response.RegisterClient k ps)) \<longrightarrow> of_client w' c)"
proof (cases "nt_conns w c")
  case None
  with res show ?thesis by (auto simp: net_rpc_def net_after_state)
next
  case (Some i)
  let ?q = "protocol_request.Control (control_request.RegisterClient name token version)"
  obtain a i' s' where sv: "serve_request (ne_server N (nt_calls w)) c ?q i (nt_server w) = (a, i', s')" by (metis prod_cases3)
  let ?w = "w\<lparr> nt_server := s', nt_conns := (nt_conns w)(c \<mapsto> i') \<rparr>"
  have rpc: "(r, w') = (case ne_fault N (nt_calls w) of None \<Rightarrow> (Inr a, net_after N c ?w)
      | Some (Answer_Lost e) \<Rightarrow> (Inl e, net_after N c ?w) | Some (Request_Lost e) \<Rightarrow> (Inl e, net_after N c w))"
    using res Some unfolding net_rpc_def by (simp only: sv option.case prod.case Let_def)
  show ?thesis
    using rpc serve_registration [OF sv] net_after_state [of N c ?w] net_after_state [of N c w]
    by (auto simp: of_client_def split: option.splits net_fault.splits)
qed

text \<open>A request on the connection of a client: it fails without having reached the server, or the server has handled it.\<close>

lemma net_request:
  assumes c: "of_client w c" and q: "\<not> registration q" and res: "net_rpc N c (protocol_request.Control q) w = (r, w')"
  shows "nt_calls w' = nt_calls w + 1 \<and>
    ((isl r \<and> cs_db (nt_server w') = cs_db (nt_server w)) \<or>
     (\<exists>h t. handle_client_request (ne_server N (nt_calls w)) q (nt_server w) = (h, t) \<and> cs_db (nt_server w') = cs_db t \<and>
        (r = Inr (case h of Inl e \<Rightarrow> protocol_response.Error e | Inr x \<Rightarrow> protocol_response.Control x) \<or>
         (isl r \<and> answer_lost N w w'))))"
proof (cases "nt_conns w c")
  case None
  with res show ?thesis by (auto simp: net_rpc_def net_after_state)
next
  case (Some i)
  then obtain k where i: "i = Client k" using c by (auto simp: of_client_def)
  obtain h t where h: "handle_client_request (ne_server N (nt_calls w)) q (nt_server w) = (h, t)" by force
  let ?a = "case h of Inl e \<Rightarrow> protocol_response.Error e | Inr x \<Rightarrow> protocol_response.Control x"
  have sv: "serve_request (ne_server N (nt_calls w)) c (protocol_request.Control q) i (nt_server w) = (?a, i, t)"
    using q h by (cases h) (simp_all add: i handle_control_request_other respond_def)
  let ?w = "w\<lparr> nt_server := t, nt_conns := (nt_conns w)(c \<mapsto> i) \<rparr>"
  have rpc: "(r, w') = (case ne_fault N (nt_calls w) of None \<Rightarrow> (Inr ?a, net_after N c ?w)
      | Some (Answer_Lost e) \<Rightarrow> (Inl e, net_after N c ?w) | Some (Request_Lost e) \<Rightarrow> (Inl e, net_after N c w))"
    using res Some unfolding net_rpc_def by (simp only: sv option.case prod.case Let_def)
  show ?thesis
    using rpc h net_after_state(1,2) [of N c ?w] net_after_state(1,2) [of N c w]
    by (auto simp: answer_lost_def split: option.splits net_fault.splits intro!: exI [of _ "nt_calls w"])
qed

section \<open>A client on the network\<close>

text \<open>The client has a session with central, which may have been lost, and none with a storage.\<close>

definition in_session :: "net fs0_client \<Rightarrow> bool" where
  "in_session s \<longleftrightarrow> fcl_storage_sessions s = [] \<and> (\<exists>c. cse_connection (fcl_central s) = Some c \<and> of_client (fcl_world s) c)"

text \<open>What goes on between client and server besides requests about files.\<close>

definition talks_only :: "net fs0_client \<Rightarrow> net fs0_client \<Rightarrow> bool" where
  "talks_only s s' \<longleftrightarrow> cs_db (nt_server (fcl_world s')) = cs_db (nt_server (fcl_world s)) \<and>
     nt_calls (fcl_world s) \<le> nt_calls (fcl_world s') \<and> fcl_storage_sessions s' = fcl_storage_sessions s"

interpretation talk: step_order talks_only
  by unfold_locales (auto simp: talks_only_def)

lemma close_conn_net: "connected_to N E \<Longrightarrow> close_conn E c t = (Inr (), t\<lparr> fcl_world := net_close c (fcl_world t) \<rparr>)"
  by (simp add: close_conn_def connected_to_def)

lemma registered_net:
  assumes E: "connected_to N E" and res: "registered E c response s = (r, s')"
  shows "talks_only s s' \<and> (\<forall>x. r = Inr x \<longrightarrow> s' = s \<and> response = protocol_response.Control (control_response.RegisterClient (fst x) (snd x)))"
proof (cases response)
  case (Control answer)
  with res close_conn_net [OF E] show ?thesis
    by (cases answer) (auto simp: registered_def st_bind_def talks_only_def net_close_state)
qed (use res close_conn_net [OF E] in \<open>auto simp: registered_def st_bind_def talks_only_def net_close_state\<close>)

lemma central_connect_net:
  assumes E: "connected_to N E" and res: "central_connect E s = (r, s')"
  shows "talks_only s s' \<and> (\<forall>c. r = Inr c \<longrightarrow> cse_connection (fcl_central s') = Some c \<and> of_client (fcl_world s') c)"
proof -
  let ?q = "protocol_request.Control (control_request.RegisterClient (cse_name (fcl_central s)) (clc_token (cse_config (fcl_central s))) FS0_VERSION)"
  let ?s1 = "s\<lparr> fcl_central := cse_stopping_update (\<lambda>_. False) (fcl_central s) \<rparr>"
  obtain con w where con: "net_connect N (fcl_world s) = (con, w)" by force
  have w: "cs_db (nt_server w) = cs_db (nt_server (fcl_world s))" "nt_calls w = nt_calls (fcl_world s)"
    using con by (auto simp: net_connect_def split: option.splits)
  show ?thesis
  proof (cases con)
    case (Inl e)
    with res con w E show ?thesis
      by (auto simp: central_connect_def connected_to_def outside_def update_central_def st_bind_def st_gets_def st_modify_def talks_only_def)
  next
    case (Inr c)
    obtain answer w' where rpc: "net_rpc N c ?q w = (answer, w')" by force
    note reg = register_client_net [OF rpc]
    have run: "central_connect E s = st_bind (\<lambda>t. (answer, t\<lparr> fcl_world := w' \<rparr>)) (\<lambda>response.
        st_bind (registered E c response) (\<lambda>(client_id, storages).
        st_bind (update_central (\<lambda>x. x\<lparr> cse_client_id := client_id, cse_storages := storages, cse_connection := Some c \<rparr>)) (\<lambda>_.
        st_return c))) (?s1\<lparr> fcl_world := w \<rparr>)"
      using E rpc con Inr by (simp add: central_connect_def connected_to_def outside_def update_central_def st_bind_def st_gets_def
        st_modify_def cong: sum.case_cong prod.case_cong)
    let ?t = "?s1\<lparr> fcl_world := w' \<rparr>"
    have t: "talks_only s ?t" using reg w by (simp add: talks_only_def)
    show ?thesis
    proof (cases answer)
      case (Inl e)
      then show ?thesis using res run t by (auto simp: st_bind_def)
    next
      case answer: (Inr response)
      obtain y u where rg: "registered E c response ?t = (y, u)" by force
      note kept = registered_net [OF E rg]
      show ?thesis
      proof (cases y)
        case (Inl e)
        then show ?thesis using res run kept rg answer talk.step_trans [OF t, of u] by (auto simp: st_bind_def)
      next
        case y: (Inr x)
        have "of_client w' c" using reg kept answer y by blast
        then show ?thesis using res run kept rg answer y t
          by (auto simp: st_bind_def st_return_def update_central_def st_modify_def talks_only_def split: prod.splits)
      qed
    qed
  qed
qed

lemma ensure_connected_net:
  assumes E: "connected_to N E" and s: "in_session s" and res: "central_ensure_connected E s = (r, s')"
  shows "talks_only s s' \<and> (\<forall>c. r = Inr c \<longrightarrow> of_client (fcl_world s') c)"
proof -
  from s obtain c where c: "cse_connection (fcl_central s) = Some c" "of_client (fcl_world s) c" by (auto simp: in_session_def)
  show ?thesis
  proof (cases "ce_is_closed E c (fcl_world s)")
    case False
    with c res show ?thesis by (auto simp: central_ensure_connected_def talk.step_refl)
  next
    case True
    let ?t = "s\<lparr> fcl_central := cse_connection_update (\<lambda>_. None) (fcl_central s), fcl_world := net_close c (fcl_world s) \<rparr>"
    have "central_connect E ?t = (r, s')"
      using res c True close_conn_net [OF E]
      by (simp add: central_ensure_connected_def update_central_def st_bind_def st_modify_def)
    from central_connect_net [OF E this] have "talks_only ?t s'" "\<forall>c. r = Inr c \<longrightarrow> of_client (fcl_world s') c" by simp_all
    moreover have "talks_only s ?t" by (simp add: talks_only_def net_close_state)
    ultimately show ?thesis using talk.step_trans by blast
  qed
qed

lemma connect_client_net:
  assumes E: "connected_to N (cl_client C)" and res: "connect_client C config w = (r, w')"
  shows "cs_db (nt_server w') = cs_db (nt_server w) \<and> nt_calls w \<le> nt_calls w' \<and> (\<forall>s. r = Inr s \<longrightarrow> in_session s \<and> fcl_world s = w')"
proof (cases "load_client_from (toml_from_str (cl_toml C) (de_client_root (cl_toml C))) (cl_file C (config_path C config))")
  case (Inl e)
  then show ?thesis using res by (auto simp: connect_client_def)
next
  case (Inr cfg)
  let ?s = "\<lparr> fcl_config = cfg, fcl_central = central_session_new cfg (clc_name cfg), fcl_storage_sessions = [], fcl_world = w \<rparr>"
  obtain y t where con: "central_connect (cl_client C) ?s = (y, t)" by force
  have fresh: "cse_connection (fcl_central ?s) = None" by (simp add: central_session_new_def)
  from central_connect_net [OF E con] have kept: "cs_db (nt_server (fcl_world t)) = cs_db (nt_server w)" "nt_calls w \<le> nt_calls (fcl_world t)"
    "\<forall>c. y = Inr c \<longrightarrow> in_session t" by (auto simp: talks_only_def in_session_def)
  show ?thesis
    using res Inr con fresh kept
    by (auto simp: connect_client_def client_run_def client_connect_def central_ensure_connected_def st_bind_def st_return_def
        split: prod.splits sum.splits)
qed

lemma client_shutdown_net:
  assumes E: "connected_to N E" and s: "fcl_storage_sessions s = []" and res: "client_shutdown E s = (r, s')"
  shows "talks_only s s'"
  using res s E
  by (auto simp: client_shutdown_def close_storage_sessions_def central_close_def update_central_def close_conn_def connected_to_def
      st_bind_def st_return_def st_gets_def st_modify_def net_close_state talks_only_def split: prod.splits sum.splits option.splits)

section \<open>Commands on the network\<close>

text \<open>A call of a client in session: the server has not seen the request, or it has handled it once.\<close>

lemma expect_net:
  assumes E: "connected_to N E" and s: "in_session s" and q: "\<not> registration q" and res: "expect E accept q s = (r, s')"
  shows "fcl_storage_sessions s' = [] \<and> nt_calls (fcl_world s) \<le> nt_calls (fcl_world s') \<and>
    ((isl r \<and> cs_db (nt_server (fcl_world s')) = cs_db (nt_server (fcl_world s))) \<or>
     (\<exists>n u h t. cs_db u = cs_db (nt_server (fcl_world s)) \<and> handle_client_request (ne_server N n) q u = (h, t) \<and>
        cs_db (nt_server (fcl_world s')) = cs_db t \<and>
        (r = (case h of Inl e \<Rightarrow> Inl e | Inr x \<Rightarrow> ok_or (unexpected_control (ce_debug_control E x)) (accept x)) \<or>
         (isl r \<and> answer_lost N (fcl_world s) (fcl_world s')))))"
proof -
  obtain y s1 where con: "central_ensure_connected E s = (y, s1)" by force
  note kept = ensure_connected_net [OF E s con]
  have s1: "fcl_storage_sessions s1 = []" "cs_db (nt_server (fcl_world s1)) = cs_db (nt_server (fcl_world s))"
    "nt_calls (fcl_world s) \<le> nt_calls (fcl_world s1)" using kept s by (simp_all add: talks_only_def in_session_def)
  show ?thesis
  proof (cases y)
    case (Inl e)
    then have "r = Inl e" "s' = s1" using res con by (auto simp: expect_def central_request_def st_bind_def)
    with s1 show ?thesis by simp
  next
    case (Inr c)
    with kept have c: "of_client (fcl_world s1) c" by blast
    obtain a w where rpc: "net_rpc N c (protocol_request.Control q) (fcl_world s1) = (a, w)" by force
    note net = net_request [OF c q rpc]
    have run: "expect E accept q s = st_bind (\<lambda>t. case a of Inl e \<Rightarrow> (Inl e, t)
          | Inr response \<Rightarrow> (case response of
              protocol_response.Error e \<Rightarrow> st_throw e
            | protocol_response.Control x \<Rightarrow> st_return x
            | _ \<Rightarrow> st_throw (unexpected_control (ce_debug E response))) t)
        (\<lambda>x. st_lift (ok_or (unexpected_control (ce_debug_control E x)) (accept x))) (s1\<lparr> fcl_world := w \<rparr>)"
      using con Inr rpc E by (cases a) (simp_all add: expect_def central_request_def connected_to_def outside_def st_bind_def)
    have s': "s' = s1\<lparr> fcl_world := w \<rparr>" and r: "r = (case a of Inl e \<Rightarrow> Inl e | Inr (protocol_response.Error e) \<Rightarrow> Inl e
        | Inr (protocol_response.Control x) \<Rightarrow> ok_or (unexpected_control (ce_debug_control E x)) (accept x)
        | Inr response \<Rightarrow> Inl (unexpected_control (ce_debug E response)))"
      using res unfolding run by (auto simp: st_bind_def st_lift_def st_return_def st_throw_def split: sum.splits protocol_response.splits)
    have lost: "answer_lost N (fcl_world s1) w \<Longrightarrow> answer_lost N (fcl_world s) w"
      using s1(3) by (auto simp: answer_lost_def intro: order_trans)
    show ?thesis
    proof (cases "isl a \<and> cs_db (nt_server w) = cs_db (nt_server (fcl_world s1))")
      case True
      then have "isl r" using r by (cases a) simp_all
      with True s1 s' net show ?thesis by simp
    next
      case False
      with net obtain h t where h: "handle_client_request (ne_server N (nt_calls (fcl_world s1))) q (nt_server (fcl_world s1)) = (h, t)"
        "cs_db (nt_server w) = cs_db t"
        and a: "a = Inr (case h of Inl e \<Rightarrow> protocol_response.Error e | Inr x \<Rightarrow> protocol_response.Control x) \<or>
          (isl a \<and> answer_lost N (fcl_world s1) w)" by blast
      from a have "r = (case h of Inl e \<Rightarrow> Inl e | Inr x \<Rightarrow> ok_or (unexpected_control (ce_debug_control E x)) (accept x)) \<or>
          (isl r \<and> answer_lost N (fcl_world s) w)"
        using lost r by (cases h; cases a) auto
      then have "\<exists>n u h t. cs_db u = cs_db (nt_server (fcl_world s)) \<and> handle_client_request (ne_server N n) q u = (h, t) \<and>
          cs_db (nt_server (fcl_world s')) = cs_db t \<and>
          (r = (case h of Inl e \<Rightarrow> Inl e | Inr x \<Rightarrow> ok_or (unexpected_control (ce_debug_control E x)) (accept x)) \<or>
           (isl r \<and> answer_lost N (fcl_world s) (fcl_world s')))"
        using h s1(2) s'
        by (intro exI [of _ "nt_calls (fcl_world s1)"] exI [of _ "nt_server (fcl_world s1)"] exI [of _ h] exI [of _ t]) simp
      then show ?thesis using s1 s' net by simp
    qed
  qed
qed

lemma with_client_net:
  assumes E: "connected_to N (cl_client C)" and q: "\<not> registration q"
    and res: "with_client C config (expect (cl_client C) accept q) print (\<lambda>_ st. st) st = ((r, out), st')"
  shows "(cs_db (nt_server (cw_world st')) = cs_db (nt_server (cw_world st)) \<and> isl r) \<or>
    (\<exists>n s h t. cs_db s = cs_db (nt_server (cw_world st)) \<and> handle_client_request (ne_server N n) q s = (h, t) \<and>
       cs_db (nt_server (cw_world st')) = cs_db t \<and>
       ((case h of
           Inl e \<Rightarrow> r = Inl e
         | Inr x \<Rightarrow> (case accept x of None \<Rightarrow> isl r | Some y \<Rightarrow> r = Inr () \<and> out = print y)) \<or>
        (isl r \<and> answer_lost N (cw_world st) (cw_world st'))))"
proof -
  obtain x w where con: "connect_client C config (cw_world st) = (x, w)" by force
  note connected = connect_client_net [OF E con]
  show ?thesis
  proof (cases x)
    case (Inl e)
    then show ?thesis using res con connected by (auto simp: with_client_def)
  next
    case (Inr s)
    have s: "in_session s" "cs_db (nt_server (fcl_world s)) = cs_db (nt_server (cw_world st))" "nt_calls (cw_world st) \<le> nt_calls (fcl_world s)"
      using connected Inr by auto
    obtain y s1 where body: "expect (cl_client C) accept q s = (y, s1)" by force
    note called = expect_net [OF E s(1) q body]
    obtain z s2 where sd: "client_shutdown (cl_client C) s1 = (z, s2)" by force
    have "talks_only s1 s2" using client_shutdown_net [OF E _ sd] called by blast
    then have sd': "cs_db (nt_server (fcl_world s2)) = cs_db (nt_server (fcl_world s1))" by (simp add: talks_only_def)
    have z: "z = Inr ()" using client_shutdown_Inr [of "cl_client C" s1] sd by auto
    have fin: "cs_db (nt_server (cw_world st')) = cs_db (nt_server (fcl_world s1))" "isl r = isl y"
        "\<forall>e. y = Inl e \<longrightarrow> r = Inl e \<and> cw_world st' = fcl_world s1" "\<forall>v. y = Inr v \<longrightarrow> r = Inr () \<and> out = print v"
      using res con Inr body sd sd' z by (cases y; auto simp: with_client_def)+
    have lost: "answer_lost N (fcl_world s) (fcl_world s1) \<Longrightarrow> isl y \<Longrightarrow> answer_lost N (cw_world st) (cw_world st')"
      using fin(3) s(3) by (cases y) (auto simp: answer_lost_def intro: order_trans)
    show ?thesis
    proof (cases "isl y \<and> cs_db (nt_server (fcl_world s1)) = cs_db (nt_server (fcl_world s))")
      case True
      then show ?thesis using fin(1,2) s(2) by simp
    next
      case False
      with called obtain n u h t where h: "cs_db u = cs_db (nt_server (fcl_world s))" "handle_client_request (ne_server N n) q u = (h, t)"
        "cs_db (nt_server (fcl_world s1)) = cs_db t"
        and y: "y = (case h of Inl e \<Rightarrow> Inl e | Inr x \<Rightarrow> ok_or (unexpected_control (ce_debug_control (cl_client C) x)) (accept x)) \<or>
          (isl y \<and> answer_lost N (fcl_world s) (fcl_world s1))" by blast
      from y have "(case h of Inl e \<Rightarrow> r = Inl e | Inr x \<Rightarrow> (case accept x of None \<Rightarrow> isl r | Some y \<Rightarrow> r = Inr () \<and> out = print y)) \<or>
          (isl r \<and> answer_lost N (cw_world st) (cw_world st'))"
      proof
        assume "y = (case h of Inl e \<Rightarrow> Inl e | Inr x \<Rightarrow> ok_or (unexpected_control (ce_debug_control (cl_client C) x)) (accept x))"
        then show ?thesis using fin(3,4) by (cases h; cases "accept (projr h)") (auto simp: ok_or_def)
      qed (use lost fin(2) in blast)
      with h s(2) fin(1) show ?thesis by (intro disjI2 exI [of _ n] exI [of _ u] exI [of _ h] exI [of _ t]) simp
    qed
  qed
qed

text \<open>
  What the commands do to the files. A command that fails has changed nothing, unless a call has lost its answer, and then
  it has changed either nothing or exactly what it does when it succeeds.
\<close>

lemma command_net:
  assumes E: "connected_to N (cl_client C)" and q: "\<not> registration q"
    and clock: "\<And>n. clock_ok (ne_server N n)" and inv: "db_inv (cs_db (nt_server (cw_world st)))"
    and res: "with_client C config (expect (cl_client C) accept q) print (\<lambda>_ st. st) st = ((r, out), st')"
    and fail: "\<And>n s e t. db_inv (cs_db s) \<Longrightarrow> handle_client_request (ne_server N n) q s = (Inl e, t) \<Longrightarrow> db_conn (cs_db t) = db_conn (cs_db s)"
    and ok: "\<And>n s x t. clock_ok (ne_server N n) \<Longrightarrow> db_inv (cs_db s) \<Longrightarrow> handle_client_request (ne_server N n) q s = (Inr x, t) \<Longrightarrow>
      \<exists>y. accept x = Some y \<and> P y (stored (cs_db s)) (stored (cs_db t))"
  shows "if isl r
    then net_files (cw_world st') = net_files (cw_world st) \<or>
      (answer_lost N (cw_world st) (cw_world st') \<and> (\<exists>y. P y (net_files (cw_world st)) (net_files (cw_world st'))))
    else \<exists>y. out = print y \<and> P y (net_files (cw_world st)) (net_files (cw_world st'))"
  using with_client_net [OF E q res]
proof (elim disjE exE conjE)
  fix n s h t
  assume s: "cs_db s = cs_db (nt_server (cw_world st))" "handle_client_request (ne_server N n) q s = (h, t)"
    "cs_db (nt_server (cw_world st')) = cs_db t"
    and r: "case h of Inl e \<Rightarrow> r = Inl e | Inr x \<Rightarrow> (case accept x of None \<Rightarrow> isl r | Some y \<Rightarrow> r = Inr () \<and> out = print y)"
  have inv': "db_inv (cs_db s)" using inv s(1) by simp
  show ?thesis
  proof (cases h)
    case (Inl e)
    then have "stored (cs_db t) = stored (cs_db s)" using fail [OF inv'] s(2) by (intro stored_conn) blast
    then show ?thesis using Inl r s(1,3) by simp
  next
    case (Inr x)
    with ok [OF clock inv'] s(2) obtain y where "accept x = Some y" "P y (stored (cs_db s)) (stored (cs_db t))" by blast
    then show ?thesis using Inr r s(1,3) by auto
  qed
next
  fix n s h t
  assume s: "cs_db s = cs_db (nt_server (cw_world st))" "handle_client_request (ne_server N n) q s = (h, t)"
    "cs_db (nt_server (cw_world st')) = cs_db t" and lost: "isl r" "answer_lost N (cw_world st) (cw_world st')"
  have inv': "db_inv (cs_db s)" using inv s(1) by simp
  have "net_files (cw_world st') = net_files (cw_world st) \<or> (\<exists>y. P y (net_files (cw_world st)) (net_files (cw_world st')))"
  proof (cases h)
    case (Inl e)
    then have "stored (cs_db t) = stored (cs_db s)" using fail [OF inv'] s(2) by (intro stored_conn) blast
    then show ?thesis using s(1,3) by simp
  next
    case (Inr x)
    with ok [OF clock inv'] s(2) obtain y where "P y (stored (cs_db s)) (stored (cs_db t))" by blast
    then have "P y (net_files (cw_world st)) (net_files (cw_world st'))" using s(1,3) by simp
    then show ?thesis by blast
  qed
  with lost show ?thesis by auto
qed simp_all

lemma answered: "handle_client_request E q s = (Inr x, t) \<Longrightarrow> control_answer q x"
  using client_request_answers [of q E] by (auto simp: st_returns_def)

text \<open>The commands.\<close>

lemma cmd_rm_net:
  assumes E: "connected_to N (cl_client C)" and clock: "\<And>n. clock_ok (ne_server N n)" and inv: "db_inv (cs_db (nt_server (cw_world st)))"
    and res: "cmd_rm C config path st = ((r, out), st')"
  shows "if isl r
    then net_files (cw_world st') = net_files (cw_world st) \<or>
      (answer_lost N (cw_world st) (cw_world st') \<and> removes path (net_files (cw_world st)) (net_files (cw_world st')))
    else out = [] \<and> removes path (net_files (cw_world st)) (net_files (cw_world st'))"
proof -
  have "if isl r
    then net_files (cw_world st') = net_files (cw_world st) \<or>
      (answer_lost N (cw_world st) (cw_world st') \<and> (\<exists>u :: unit. removes path (net_files (cw_world st)) (net_files (cw_world st'))))
    else \<exists>u :: unit. out = [] \<and> removes path (net_files (cw_world st)) (net_files (cw_world st'))"
  proof (rule command_net [OF E _ clock inv res [unfolded cmd_rm_def call_delete_file_def]])
    fix n s x t
    assume a: "clock_ok (ne_server N n)" "db_inv (cs_db s)" "handle_client_request (ne_server N n) (control_request.DeleteFile path) s = (Inr x, t)"
    then have "removes path (stored (cs_db s)) (stored (cs_db t))" using handle_delete_file_Inr by simp
    with answered [OF a(3)]
    show "\<exists>y. (case x of control_response.DeleteFile \<Rightarrow> Some () | control_response.DeleteFileById \<Rightarrow> Some () | _ \<Rightarrow> None) = Some y \<and>
        removes path (stored (cs_db s)) (stored (cs_db t))" by auto
  qed (use failed_request_conn(1) in \<open>simp_all add: registration_def\<close>)
  then show ?thesis by (simp split: if_splits)
qed

lemma cmd_cp_net:
  assumes E: "connected_to N (cl_client C)" and clock: "\<And>n. clock_ok (ne_server N n)" and inv: "db_inv (cs_db (nt_server (cw_world st)))"
    and res: "cmd_cp C config path target st = ((r, out), st')"
  shows "if isl r
    then net_files (cw_world st') = net_files (cw_world st) \<or>
      (answer_lost N (cw_world st) (cw_world st') \<and> (\<exists>f. copies path target f (net_files (cw_world st)) (net_files (cw_world st'))))
    else \<exists>f. out = print_file_record f \<and> copies path target f (net_files (cw_world st)) (net_files (cw_world st'))"
proof (rule command_net [OF E _ clock inv res [unfolded cmd_cp_def call_copy_file_def]])
  fix n s x t
  assume a: "clock_ok (ne_server N n)" "db_inv (cs_db s)" "handle_client_request (ne_server N n) (control_request.CopyFile path target) s = (Inr x, t)"
  with handle_copy_file_Inr [OF a(2,1), of path target x t] show "\<exists>f. (case x of control_response.CopyFile f \<Rightarrow> Some f | control_response.CopyFileById f \<Rightarrow> Some f | _ \<Rightarrow> None) = Some f \<and>
      copies path target f (stored (cs_db s)) (stored (cs_db t))" by auto
qed (use failed_request_conn(2) in \<open>simp_all add: registration_def\<close>)

lemma cmd_mv_net:
  assumes E: "connected_to N (cl_client C)" and clock: "\<And>n. clock_ok (ne_server N n)" and inv: "db_inv (cs_db (nt_server (cw_world st)))"
    and res: "cmd_mv C config path target st = ((r, out), st')"
  shows "if isl r
    then net_files (cw_world st') = net_files (cw_world st) \<or>
      (answer_lost N (cw_world st) (cw_world st') \<and> (\<exists>f. moves path target f (net_files (cw_world st)) (net_files (cw_world st'))))
    else \<exists>f. out = print_file_record f \<and> moves path target f (net_files (cw_world st)) (net_files (cw_world st'))"
proof (rule command_net [OF E _ clock inv res [unfolded cmd_mv_def call_rename_file_def]])
  fix n s x t
  assume a: "clock_ok (ne_server N n)" "db_inv (cs_db s)" "handle_client_request (ne_server N n) (control_request.RenameFile path target) s = (Inr x, t)"
  with handle_rename_file_Inr [OF a(2,1), of path target x t] show "\<exists>f. (case x of control_response.RenameFile f \<Rightarrow> Some f | control_response.RenameFileById f \<Rightarrow> Some f | _ \<Rightarrow> None) = Some f \<and>
      moves path target f (stored (cs_db s)) (stored (cs_db t))" by auto
qed (use failed_request_conn(3) in \<open>simp_all add: registration_def\<close>)

lemma cmd_reads_net:
  assumes E: "connected_to N (cl_client C)" and clock: "\<And>n. clock_ok (ne_server N n)" and inv: "db_inv (cs_db (nt_server (cw_world st)))"
  shows "cmd_ls C config dir limit cursor st = ((r, out), st') \<Longrightarrow> net_files (cw_world st') = net_files (cw_world st)"
    and "cmd_stat C config path st = ((r, out), st') \<Longrightarrow> net_files (cw_world st') = net_files (cw_world st)"
    and "cmd_changes C config i n st = ((r, out), st') \<Longrightarrow> net_files (cw_world st') = net_files (cw_world st)"
    and "cmd_peers C config st = ((r, out), st') \<Longrightarrow> net_files (cw_world st') = net_files (cw_world st)"
proof -
  have read: "net_files (cw_world st') = net_files (cw_world st)"
    if res: "with_client C config (expect (cl_client C) accept q) print (\<lambda>_ st. st) st = ((r, out), st')"
      and q: "\<not> registration q" and accept: "\<And>x. control_answer q x \<Longrightarrow> accept x \<noteq> None"
      and reads: "\<And>n s h t. db_inv (cs_db s) \<Longrightarrow> handle_client_request (ne_server N n) q s = (h, t) \<Longrightarrow> db_conn (cs_db t) = db_conn (cs_db s)"
    for accept :: "control_response \<Rightarrow> 'x option" and q print
  proof -
    have "if isl r
        then net_files (cw_world st') = net_files (cw_world st) \<or>
          (answer_lost N (cw_world st) (cw_world st') \<and> (\<exists>y :: 'x. net_files (cw_world st') = net_files (cw_world st)))
        else \<exists>y :: 'x. out = print y \<and> net_files (cw_world st') = net_files (cw_world st)"
    proof (rule command_net [OF E q clock inv res])
      fix n s x t assume a: "db_inv (cs_db s)" "handle_client_request (ne_server N n) q s = (Inr x, t)"
      have "stored (cs_db t) = stored (cs_db s)" using reads [OF a] by (rule stored_conn)
      then show "\<exists>y. accept x = Some y \<and> stored (cs_db t) = stored (cs_db s)" using accept [OF answered [OF a(2)]] by auto
    qed (use reads in blast)
    then show ?thesis by (auto split: if_splits)
  qed
  show "cmd_ls C config dir limit cursor st = ((r, out), st') \<Longrightarrow> net_files (cw_world st') = net_files (cw_world st)"
    unfolding cmd_ls_def call_list_directory_def by (erule read) (auto simp: registration_def dest: read_request_conn(1))
  show "cmd_stat C config path st = ((r, out), st') \<Longrightarrow> net_files (cw_world st') = net_files (cw_world st)"
    unfolding cmd_stat_def call_get_file_read_plan_def by (erule read) (auto simp: registration_def dest: read_request_conn(2))
  show "cmd_changes C config i n st = ((r, out), st') \<Longrightarrow> net_files (cw_world st') = net_files (cw_world st)"
    unfolding cmd_changes_def call_get_file_change_logs_def by (erule read) (auto simp: registration_def dest: read_request_conn(3))
  assume res: "cmd_peers C config st = ((r, out), st')"
  obtain x w where con: "connect_client C config (cw_world st) = (x, w)" by force
  note connected = connect_client_net [OF E con]
  show "net_files (cw_world st') = net_files (cw_world st)"
  proof (cases x)
    case (Inl e)
    then show ?thesis using res con connected by (auto simp: cmd_peers_def with_client_def)
  next
    case (Inr s)
    then have s: "fcl_storage_sessions s = []" "fcl_world s = w" using connected by (auto simp: in_session_def)
    obtain z s2 where sd: "client_shutdown (cl_client C) s = (z, s2)" by force
    have "cs_db (nt_server (fcl_world s2)) = cs_db (nt_server (cw_world st))"
      using client_shutdown_net [OF E s(1) sd] s(2) connected by (simp add: talks_only_def)
    then show ?thesis using res con Inr sd by (auto simp: cmd_peers_def with_client_def st_gets_def)
  qed
qed

text \<open>Whether the program has ended with success, and what a command was to do to the files.\<close>

fun file_effect :: "command \<Rightarrow> string list \<Rightarrow> file_map \<Rightarrow> file_map \<Rightarrow> bool" where
  "file_effect (Rm path) out m m' \<longleftrightarrow> out = [] \<and> removes path m m'"
| "file_effect (Cp path target) out m m' \<longleftrightarrow> (\<exists>f. out = print_file_record f \<and> copies path target f m m')"
| "file_effect (Mv path target) out m m' \<longleftrightarrow> (\<exists>f. out = print_file_record f \<and> moves path target f m m')"
| "file_effect _ out m m' \<longleftrightarrow> m' = m"

fun without_transfer :: "command \<Rightarrow> bool" where
  "without_transfer (Get _ _) \<longleftrightarrow> False"
| "without_transfer (Put _ _ _) \<longleftrightarrow> False"
| "without_transfer (Put_Dir _ _ _ dry_run) \<longleftrightarrow> dry_run"
| "without_transfer (Storage_Command (Create_Volume _ _ _)) \<longleftrightarrow> False"
| "without_transfer _ \<longleftrightarrow> True"

lemma run_command_net:
  assumes "connected_to N (cl_client C)" and "\<And>n. clock_ok (ne_server N n)" and "db_inv (cs_db (nt_server (cw_world st)))"
    and "run_command C config cmd st = ((r, out), st')" and "without_transfer cmd"
  shows "if isl r
    then net_files (cw_world st') = net_files (cw_world st) \<or>
      (answer_lost N (cw_world st) (cw_world st') \<and> (\<exists>out'. file_effect cmd out' (net_files (cw_world st)) (net_files (cw_world st'))))
    else file_effect cmd out (net_files (cw_world st)) (net_files (cw_world st'))"
proof (cases "(C, config, cmd)" rule: run_command.cases)
  case (5 C config remote_dir local_dir prefer_volume dry_run)
  then show ?thesis using assms(4,5) by (auto simp: cmd_put_dir_def split: sum.splits)
qed (use assms cmd_rm_net [OF assms(1-3)] cmd_cp_net [OF assms(1-3)] cmd_mv_net [OF assms(1-3)] cmd_reads_net [OF assms(1-3)]
    in \<open>auto simp: cmd_inspect_volume_def\<close>)

lemma cli_main_net:
  assumes "connected_to N (cl_client C)" and "\<And>n. clock_ok (ne_server N n)" and "db_inv (cs_db (nt_server (cw_world st)))"
    and "cli_main C \<lparr> cli_config = config, cli_command = cmd \<rparr> st = ((code, out, err), st')" and "without_transfer cmd"
  shows "if code = SUCCESS then file_effect cmd out (net_files (cw_world st)) (net_files (cw_world st'))
    else net_files (cw_world st') = net_files (cw_world st) \<or>
      (answer_lost N (cw_world st) (cw_world st') \<and> (\<exists>out'. file_effect cmd out' (net_files (cw_world st)) (net_files (cw_world st'))))"
proof -
  obtain r lines st1 where run: "run_command C config cmd st = ((r, lines), st1)" by (metis surj_pair)
  show ?thesis using run_command_net [OF assms(1-3) run assms(5)] assms(4) run
    by (cases r) (auto simp: cli_main_def)
qed

end
