(* ===== verification/System_Properties.thy ===== *)
theory System_Properties
  imports Client_Properties Message_Types Connection_Accept Cli_Central
begin

text \<open>
  The properties of what holds the parts together: the messages between client and servers, the streams of a
  connection, and how the processes start, with small concrete systems as instances.
\<close>

section \<open>Messages\<close>

text \<open>C22: the messages of clients and servers fit: as long as the responses that a client receives are those that the two
  servers give to its requests, no call of the client takes a response for one of the wrong kind, of the wrong chunk
  or without its lengths; each call fails only when its request fails, with the same error and in the same state.\<close>

theorem client_calls_well_typed:
  assumes "served B E"
  shows "fails_like (central_request E control_request.CentralStatus) (call_central_status E) \<and>
    (\<forall>name max_bytes. fails_like (central_request E (control_request.CreateVolume name max_bytes)) (call_create_volume E name max_bytes)) \<and>
    (\<forall>path limit cursor. fails_like (central_request E (control_request.ListDirectory path limit cursor)) (call_list_directory E path limit cursor)) \<and>
    (\<forall>path. fails_like (central_request E (control_request.GetFileReadPlan path)) (call_get_file_read_plan E path)) \<and>
    (\<forall>b v. fails_like (central_request E (control_request.HasBundle b v)) (call_has_bundle E b v)) \<and>
    (\<forall>path. fails_like (central_request E (control_request.DeleteFile path)) (call_delete_file E path)) \<and>
    (\<forall>i. fails_like (central_request E (control_request.DeleteFileById i)) (call_delete_file_by_id E i)) \<and>
    (\<forall>path target. fails_like (central_request E (control_request.CopyFile path target)) (call_copy_file E path target)) \<and>
    (\<forall>i target. fails_like (central_request E (control_request.CopyFileById i target)) (call_copy_file_by_id E i target)) \<and>
    (\<forall>path target. fails_like (central_request E (control_request.RenameFile path target)) (call_rename_file E path target)) \<and>
    (\<forall>i target. fails_like (central_request E (control_request.RenameFileById i target)) (call_rename_file_by_id E i target)) \<and>
    (\<forall>bu. fails_like (central_request E (control_request.BeginUpdate bu)) (call_begin_update E bu)) \<and>
    (\<forall>cu. fails_like (central_request E (control_request.CommitUpdate cu)) (call_commit_update E cu)) \<and>
    (\<forall>l i. fails_like (central_request E (control_request.AbortUpdate l i)) (call_abort_update E l i)) \<and>
    (\<forall>i limit. fails_like (central_request E (control_request.GetFileChangeLogs i limit)) (call_get_file_change_logs E i limit)) \<and>
    (\<forall>v c. fails_like (session_request E (data_request.HasChunk v c)) (session_has_chunk E v c)) \<and>
    (\<forall>up. fails_like (session_request E (data_request.UploadChunk up)) (session_upload_chunk E up)) \<and>
    (\<forall>down. fails_like (session_request E (data_request.DownloadChunk down)) (session_download_chunk E down)) \<and>
    (\<forall>v b. fails_like (session_request E (data_request.HasBundle v b)) (session_has_bundle E v b)) \<and>
    (\<forall>commit. fails_like (session_request E (data_request.CommitBundle commit)) (session_commit_bundle E commit)) \<and>
    (\<forall>v b. fails_like (session_request E (data_request.ListBundleChunks v b)) (session_list_bundle_chunks E v b))"
  by (intro conjI allI central_status_fails_like [OF assms] control_calls_fail_like [OF assms] data_calls_fail_like [OF assms])

text \<open>A client whose control requests go to the sample central server and whose data requests go to the sample storage.\<close>

fun sample_servers_rpc ::
  "nat \<Rightarrow> protocol_request \<Rightarrow> nat option \<Rightarrow> (control_connection_identity \<times> central_server) \<times> data_world \<Rightarrow>
   protocol_response fs0_result \<times> (control_connection_identity \<times> central_server) \<times> data_world" where
  "sample_servers_rpc c (protocol_request.Data q) t (central, storage) =
     (case data_connection_respond sample_storage_env (protocol_request.Data q) storage of (r, storage') \<Rightarrow> (Inr r, (central, storage')))"
| "sample_servers_rpc c q t ((i, s), storage) =
     (case serve_request sample_env 0 q i s of (r, central') \<Rightarrow> (Inr r, (central', storage)))"

definition sample_servers_env :: "(unit, (control_connection_identity \<times> central_server) \<times> data_world) client_env" where
  "sample_servers_env = \<lparr> ce_connect = (\<lambda>_ w. (Inr 0, w)), ce_rpc = sample_servers_rpc,
     ce_is_closed = (\<lambda>_ _. False), ce_close = (\<lambda>_ w. w), ce_file = (\<lambda>_ _. Inr [1, 2, 3]), ce_endpoint = (\<lambda>_. ()),
     ce_from_bytes = (\<lambda>_. Inr ()), ce_debug = (\<lambda>_. []), ce_debug_control = (\<lambda>_. []), ce_debug_data = (\<lambda>_. []) \<rparr>"

lemma sample_served: "served sample_blake3 sample_servers_env"
proof -
  have blake3: "se_blake3 sample_storage_env = sample_blake3" by (simp add: sample_storage_env_def)
  have control: "\<exists>E' conn i s i' s'. handle_control_request E' conn q i s = (protocol_response.Control r, i', s')"
    if rpc: "sample_servers_rpc c (protocol_request.Control q) t w = (Inr (protocol_response.Control r), w')" for c q t w r w'
  proof -
    obtain i s storage where "w = ((i, s), storage)" by (metis surj_pair)
    with rpc have "\<exists>i' s'. handle_control_request sample_env 0 q i s = (protocol_response.Control r, i', s')"
      by (auto split: prod.splits)
    then show ?thesis by blast
  qed
  have data: "\<exists>E' st st'. se_blake3 E' = sample_blake3 \<and> data_connection_request E' (protocol_request.Data q) st = (Inr r, st')"
    if rpc: "sample_servers_rpc c (protocol_request.Data q) t w = (Inr (protocol_response.Data r), w')" for c q t w r w'
  proof -
    obtain central storage where "w = (central, storage)" by (metis surj_pair)
    with rpc have "\<exists>st'. data_connection_request sample_storage_env (protocol_request.Data q) storage = (Inr r, st')"
      by (cases "data_connection_request sample_storage_env (protocol_request.Data q) storage")
        (auto simp: data_connection_respond_def simp del: data_connection_request.simps split: prod.splits sum.splits)
    with blake3 show ?thesis by (elim exE) (rule exI [where x = sample_storage_env], rule exI [where x = storage], auto)
  qed
  have rpc: "ce_rpc sample_servers_env = sample_servers_rpc" by (simp add: sample_servers_env_def)
  show ?thesis unfolding served_def rpc
  proof (intro conjI allI impI)
    fix c q t w r w' assume "sample_servers_rpc c (protocol_request.Control q) t w = (Inr (protocol_response.Control r), w')"
    then show "\<exists>E' conn i s i' s'. handle_control_request E' conn q i s = (protocol_response.Control r, i', s')" by (rule control)
  next
    fix c q t w r w' assume "sample_servers_rpc c (protocol_request.Data q) t w = (Inr (protocol_response.Data r), w')"
    then show "\<exists>E' st st'. se_blake3 E' = sample_blake3 \<and> data_connection_request E' (protocol_request.Data q) st = (Inr r, st')"
      by (rule data)
  qed
qed

theorem client_calls_well_typed_witness:
  "fails_like (central_request sample_servers_env control_request.CentralStatus) (call_central_status sample_servers_env)"
  using client_calls_well_typed [OF sample_served] by (rule conjunct1)

section \<open>Streams\<close>

text \<open>C35: each stream of a connection is served on its own, in order and completely, however the tasks of the streams
  interleave: the handler has been called with the requests or events of its bytes from the first on, with each once and
  with no others; all of them when its task has ended in a running loop. A request gets exactly one answer, a frame with
  what the handler returned for it or, for bytes without a request, the error; a one-way stream gets none.\<close>

theorem streams_are_served:
  assumes "accept_reachable Q V A handler x" and "as_streams x i = Some input"
  shows "prefix (of_stream i (as_calls x)) (requested Q V input) \<and>
    (as_result x = None \<and> as_tasks x i = None \<longrightarrow> of_stream i (as_calls x) = requested Q V input) \<and>
    (case input of
       Unidirectional bytes \<Rightarrow> of_stream i (as_written x) = []
     | Bidirectional bytes \<Rightarrow>
         of_stream i (as_written x) \<noteq> [] \<or> as_result x = None \<and> as_tasks x i = None \<longrightarrow>
           of_stream i (as_calls x) = requested Q V input \<and>
           (\<exists>W response. answer_for Q handler bytes response \<and> of_stream i (as_written x) = [snd (write_frame A W response [])]))"
  using streams_served [OF assms] by (cases input) auto

definition sample_request :: protocol_request where
  "sample_request = protocol_request.Control control_request.CentralStatus"

definition sample_request_bytes :: "u8 list" where
  "sample_request_bytes = snd (write_frame (sample_codec sample_request) sample_writes sample_request [])"

abbreviation sample_event_codec :: "protocol_event codec" where
  "sample_event_codec \<equiv> sample_codec (StorageRemoved 1)"

abbreviation sample_handler :: request_handler where
  "sample_handler \<equiv> \<lambda>q r. r = Inr (Some (Error NotFound))"

lemma sample_request_read: "fst (read_frame (sample_codec sample_request) sample_request_bytes) = Inr sample_request"
proof -
  have "\<forall>rest. read_frame (sample_codec sample_request) (sample_request_bytes @ rest) = (Inr sample_request, rest)"
    using frame_round_trip [OF sample_codec_ok(1,4,3), of sample_request "[]"] by (simp add: sample_request_bytes_def)
  from this [rule_format, of "[]"] show ?thesis by simp
qed

lemma sample_accepted:
  "\<exists>x. accept_reachable (sample_codec sample_request) sample_event_codec (sample_codec (Error NotFound)) sample_handler x \<and>
     as_streams x 0 = Some (Bidirectional sample_request_bytes) \<and> as_tasks x 0 = None \<and> as_result x = None"
proof -
  define x1 where "x1 = accept_start\<lparr> as_streams := [0 \<mapsto> Bidirectional sample_request_bytes],
    as_tasks := [0 \<mapsto> Reading_Request sample_request_bytes] \<rparr>"
  define x2 where "x2 = x1\<lparr> as_tasks := (as_tasks x1)(0 \<mapsto> Handling_Request sample_request), as_calls := as_calls x1 @ [(0, sample_request)] \<rparr>"
  define x3 where "x3 = x2\<lparr> as_tasks := (as_tasks x2)(0 \<mapsto> Answering (answer_of (Inr (Some (Error NotFound))))) \<rparr>"
  define x4 where "x4 = x3\<lparr> as_tasks := (as_tasks x3)(0 := None),
    as_written := as_written x3 @ [(0, snd (write_frame (sample_codec (Error NotFound)) sample_writes (Error NotFound) []))] \<rparr>"
  let ?R = "accept_reachable (sample_codec sample_request) sample_event_codec (sample_codec (Error NotFound)) sample_handler"
  note step = accept_reachable.step
  have "?R x1"
    by (rule step [OF accept_reachable.start]) (use accept_step.accepts_bi [of accept_start 0] in \<open>simp add: x1_def accept_start_def\<close>)
  then have "?R x2"
    by (rule step) (unfold x2_def, rule accept_step.calls [OF _ sample_request_read], simp add: x1_def)
  then have "?R x3" by (rule step) (unfold x3_def, rule accept_step.returns, auto simp: x2_def)
  then have "?R x4" by (rule step) (unfold x4_def, rule accept_step.answers, simp add: x3_def)
  moreover have "as_streams x4 0 = Some (Bidirectional sample_request_bytes) \<and> as_tasks x4 0 = None \<and> as_result x4 = None"
    by (simp add: x4_def x3_def x2_def x1_def accept_start_def)
  ultimately show ?thesis by blast
qed

theorem streams_are_served_witness:
  "\<exists>x. accept_reachable (sample_codec sample_request) sample_event_codec (sample_codec (Error NotFound)) sample_handler x \<and>
     of_stream 0 (as_calls x) = [sample_request] \<and> length (of_stream 0 (as_written x)) = 1"
proof -
  obtain x where x: "accept_reachable (sample_codec sample_request) sample_event_codec (sample_codec (Error NotFound)) sample_handler x"
    "as_streams x 0 = Some (Bidirectional sample_request_bytes)" "as_tasks x 0 = None" "as_result x = None"
    using sample_accepted by blast
  from streams_are_served [OF x(1,2)] x show ?thesis by (auto simp: sample_request_read intro!: exI [of _ x])
qed

section \<open>Starting\<close>

text \<open>C36: how central starts: it refuses a replication factor of zero, an empty relay token and an empty certificate file, and
  when it starts the relay admits exactly the holders of the token, the endpoint speaks only the control protocol under
  the configured key at the configured port and without a relay, nobody is registered, the database is the one that
  the last run left, and it satisfies the invariant from which all properties of the running server follow.\<close>

theorem central_starts:
  assumes "\<And>t. files (cc_db_path config) = Inr (Some t) \<Longrightarrow> left_by_central t"
  shows "(cc_replication_factor config = 0 \<or> crc_token (cc_relay config) = [] \<or> rl_pem_file R (crc_cert_path (cc_relay config)) = Inr [] \<longrightarrow>
      (\<exists>msg. central_run R I files config = Inl (InvalidConfig msg))) \<and>
    (\<forall>relay transport s. central_run R I files config = Inr (relay, transport, s) \<longrightarrow>
      0 < cc_replication_factor config \<and> crc_token (cc_relay config) \<noteq> [] \<and>
      (\<forall>t. rs_access relay t \<longleftrightarrow> t = Some (crc_token (cc_relay config))) \<and> rt_certs (rs_tls relay) \<noteq> [] \<and>
      ep_alpns transport = [TRANSPORT_CONTROL_ALPN] \<and> ep_bind_addr transport = Some (any_addr (cc_bind_port config)) \<and>
      ep_relay_mode transport = Relay_Disabled \<and> map_sum id Some (rl_secret_key R (cc_secret_key config)) = Inr (ep_secret_key transport) \<and>
      cs_auth_tokens s = cc_auth_tokens config \<and> cs_clients s = [] \<and> cs_storages s = [] \<and> server_inv s \<and>
      (\<forall>t. files (cc_db_path config) = Inr (Some t) \<longrightarrow> db_conn (cs_db s) = t))"
proof (intro conjI allI impI)
  assume "cc_replication_factor config = 0 \<or> crc_token (cc_relay config) = [] \<or> rl_pem_file R (crc_cert_path (cc_relay config)) = Inr []"
  then show "\<exists>msg. central_run R I files config = Inl (InvalidConfig msg)"
    by (auto simp: central_run_def spawn_relay_def relay_tls_config_def res_bind_def)
next
  fix relay transport s assume "central_run R I files config = Inr (relay, transport, s)"
  note run = central_run_Inr [OF this]
  then obtain db secret_key where db: "central_db_of (files (cc_db_path config)) = Inr db" "s = central_server_start (cc_auth_tokens config) db"
    and key: "rl_secret_key R (cc_secret_key config) = Inr secret_key"
      "transport_bind I (central_transport_options secret_key config) = Inr transport" by blast
  have plan: "to_alpns (central_transport_options secret_key config) = [TRANSPORT_CONTROL_ALPN]"
    "to_bind_addr (central_transport_options secret_key config) = Some (any_addr (cc_bind_port config))"
    "to_relay (central_transport_options secret_key config) = None" "to_secret_key (central_transport_options secret_key config) = Some secret_key"
    by (simp_all add: central_transport_options_def with_bind_addr_def with_secret_key_def transport_options_new_def)
  note relay = spawn_relay_Inr [of R "cc_relay config" relay] and bound = transport_bind_plan [OF key(2), unfolded plan]
  show "0 < cc_replication_factor config" using run by (simp add: word_neq_0_conv)
  show "crc_token (cc_relay config) \<noteq> []" "rt_certs (rs_tls relay) \<noteq> []" using run relay by simp_all
  show "rs_access relay t \<longleftrightarrow> t = Some (crc_token (cc_relay config))" for t using run relay by simp
  show "ep_alpns transport = [TRANSPORT_CONTROL_ALPN]" "ep_bind_addr transport = Some (any_addr (cc_bind_port config))"
    "ep_relay_mode transport = Relay_Disabled" "map_sum id Some (rl_secret_key R (cc_secret_key config)) = Inr (ep_secret_key transport)"
    using bound key(1) by simp_all
  show "cs_auth_tokens s = cc_auth_tokens config" "cs_clients s = []" "cs_storages s = []"
    by (simp_all add: db(2) central_server_start_def central_server_init_def)
  obtain tokens' where "reachable tokens' (central_system_start (cc_auth_tokens config) db)"
    using started_central_inv [OF db(1) assms] by blast
  from reachable_system_inv [OF this] show "server_inv s" by (simp add: system_inv_def central_system_start_def db(2))
  fix t assume "files (cc_db_path config) = Inr (Some t)"
  with db show "db_conn (cs_db s) = t"
    by (auto simp: central_db_of_def central_server_start_def central_server_init_def central_db_load_def)
qed

definition sample_central_config :: central_config where
  "sample_central_config = \<lparr> cc_db_path = ''db'', cc_secret_key = ''k'', cc_bind_port = 7, cc_replication_factor = 1, cc_auth_tokens = [''t''],
     cc_relay = \<lparr> crc_public_url = ''u'', crc_token = ''r'', crc_https_bind_port = 1, crc_cert_path = ''c'', crc_key_path = ''p'', crc_quic_bind_port = 2 \<rparr> \<rparr>"

definition sample_relay_env :: "(unit, unit, unit) relay_env" where
  "sample_relay_env = \<lparr> rl_pem_file = (\<lambda>_. Inr [Inr ()]), rl_private_key = (\<lambda>_. Inr ()), rl_protocols = None, rl_single_cert = (\<lambda>_ _. None),
     rl_spawn = None, rl_secret_key = (\<lambda>_. Inr ()) \<rparr>"

definition sample_iroh_env :: "(unit, unit, unit) iroh_env" where
  "sample_iroh_env = \<lparr> ie_relay_url = (\<lambda>_. Inr ()), ie_pem_slice = (\<lambda>_. [Inr ()]), ie_bind_addr = (\<lambda>_. None), ie_show_addr = (\<lambda>_. []),
     ie_bind = (\<lambda>_. None) \<rparr>"

lemma sample_central_runs:
  "\<not> isl (central_run sample_relay_env sample_iroh_env (\<lambda>_. Inr (Some (db_conn central_db_open))) sample_central_config)"
  by (simp add: central_run_def spawn_relay_def relay_tls_config_def transport_bind_def central_transport_options_def with_bind_addr_def
    with_secret_key_def transport_options_new_def sample_relay_env_def sample_iroh_env_def sample_central_config_def central_db_of_def
    res_bind_def Let_def)

theorem central_starts_witness:
  "\<exists>relay transport s. central_run sample_relay_env sample_iroh_env (\<lambda>_. Inr (Some (db_conn central_db_open))) sample_central_config =
     Inr (relay, transport, s) \<and> server_inv s \<and> cs_auth_tokens s = [''t''] \<and> db_conn (cs_db s) = db_conn central_db_open"
proof -
  have left: "left_by_central (db_conn central_db_open)" unfolding left_by_central_def
    using reachable.start by (intro exI conjI) (auto simp: central_system_init_def central_server_init_def)
  have files: "left_by_central t" if "(\<lambda>_. Inr (Some (db_conn central_db_open))) (cc_db_path sample_central_config) = Inr (Some t)" for t
    using that left by simp
  obtain relay transport s where run: "central_run sample_relay_env sample_iroh_env (\<lambda>_. Inr (Some (db_conn central_db_open))) sample_central_config =
      Inr (relay, transport, s)"
    using sample_central_runs by (metis isl_def prod.exhaust sum.exhaust)
  from central_starts [OF files, THEN conjunct2, rule_format, OF _ run] run show ?thesis
    by (auto simp: sample_central_config_def)
qed

section \<open>Commands\<close>

text \<open>C11: the commands that transfer no content do to the files of the central server what they say; these are all but \<open>get\<close>,
  \<open>put\<close>, \<open>put-dir\<close> (except for a dry run) and \<open>storage create-volume\<close>, and \<open>put\<close> is left out for a reason: when it fails it
  may leave a new empty file. The network may refuse connections, lose connections, requests and answers, and let calls
  time out after the server has acted; no other client acts meanwhile. A command that ends with success has done exactly
  one thing: \<open>rm\<close> has removed the file at the path; \<open>cp\<close> has added, at a free path, a file with a new identifier and the
  sizes and content of the source, and printed it; \<open>mv\<close> has moved the file with its identifier, sizes and content and
  printed it; the commands that only ask, and those of servers, have changed no file. A command that ends with failure
  has left all files as they were, unless one of its own calls has lost its answer; then it may instead have done just
  that one thing.\<close>

theorem commands_act_on_files:
  assumes "connected_to N (cl_client C)" and "\<And>n. clock_ok (ne_server N n)" and "db_inv (cs_db (nt_server (cw_world st)))"
    and "without_transfer cmd" and "cli_main C \<lparr> cli_config = config, cli_command = cmd \<rparr> st = ((code, out, err), st')"
  shows "if code = FAILURE
    then net_files (cw_world st') = net_files (cw_world st) \<or>
      ((\<exists>n e. nt_calls (cw_world st) \<le> n \<and> n < nt_calls (cw_world st') \<and> ne_fault N n = Some (Answer_Lost e)) \<and>
       (case cmd of
          Rm path \<Rightarrow> removes path (net_files (cw_world st)) (net_files (cw_world st'))
        | Cp path target \<Rightarrow> \<exists>f. copies path target f (net_files (cw_world st)) (net_files (cw_world st'))
        | Mv path target \<Rightarrow> \<exists>f. moves path target f (net_files (cw_world st)) (net_files (cw_world st'))
        | _ \<Rightarrow> False))
    else case cmd of
        Rm path \<Rightarrow> out = [] \<and> removes path (net_files (cw_world st)) (net_files (cw_world st'))
      | Cp path target \<Rightarrow> (\<exists>f. out = print_file_record f \<and> copies path target f (net_files (cw_world st)) (net_files (cw_world st')))
      | Mv path target \<Rightarrow> (\<exists>f. out = print_file_record f \<and> moves path target f (net_files (cw_world st)) (net_files (cw_world st')))
      | _ \<Rightarrow> net_files (cw_world st') = net_files (cw_world st)"
  using cli_main_net [OF assms(1-3,5,4)] unfolding answer_lost_def by (cases code; cases cmd) auto

definition sample_network :: net_env where
  "sample_network = \<lparr> ne_server = (\<lambda>_. sample_env), ne_refused = (\<lambda>_. None), ne_fault = (\<lambda>_. None), ne_drops = (\<lambda>_. False) \<rparr>"

definition sample_network_env :: "(unit, net) client_env" where
  "sample_network_env = \<lparr> ce_connect = (\<lambda>_. net_connect sample_network), ce_rpc = (\<lambda>c q _. net_rpc sample_network c q),
     ce_is_closed = (\<lambda>c w. nt_conns w c = None), ce_close = net_close, ce_file = (\<lambda>_ _. Inr []), ce_endpoint = (\<lambda>_. ()),
     ce_from_bytes = (\<lambda>_. Inr ()), ce_debug = (\<lambda>_. []), ce_debug_control = (\<lambda>_. []), ce_debug_data = (\<lambda>_. []) \<rparr>"

definition sample_toml :: toml_env where
  "sample_toml = \<lparr> tm_parse = (\<lambda>_. Inr (Toml_Table [(''client'', Toml_Table
       [(''token'', Toml_String ''t''), (''central_endpoint_id'', Toml_String ''c''), (''central_addr'', Toml_String ''a'')])])),
     tm_message = (\<lambda>_. []), tm_endpoint_id = (\<lambda>_. True), tm_socket_addr = (\<lambda>_. True) \<rparr>"

definition sample_cli_env :: "(unit, net, unit, unit, unit, unit, u8 list) cli_env" where
  "sample_cli_env = \<lparr> cl_client = sample_network_env, cl_iroh = sample_iroh_env, cl_relay = sample_relay_env, cl_storage = sample_storage_env,
     cl_upload = (\<lambda>_. \<lparr> ue_read = (\<lambda>_. Inl ''closed''), ue_enqueue = (\<lambda>_. None), ue_order = id, ue_before = 0 \<rparr>),
     cl_download = (\<lambda>_. \<lparr> dle_create = None, dle_enqueue = (\<lambda>_. None), dle_order = id, dle_before = 0, dle_writer_open = (\<lambda>_. True),
       dle_write = (\<lambda>_. None) \<rparr>),
     cl_home = Some ''/home/u'', cl_file = (\<lambda>_. Inr []), cl_toml = sample_toml, cl_db_file = (\<lambda>_. Inr None), cl_local_dir = (\<lambda>_. Inr None),
     cl_local_path = (\<lambda>_ _. []), cl_utf8 = (\<lambda>_. True), cl_display = (\<lambda>_. []), cl_now = (\<lambda>_. 0), cl_mkdir = (\<lambda>_. None), cl_signal = Inr (),
     cl_show_endpoint = (\<lambda>_. []) \<rparr>"

definition sample_cli_world :: "net cli_world" where
  "sample_cli_world = \<lparr> cw_world = \<lparr> nt_server = sample_server\<lparr> cs_db := sample_stored_db \<rparr>, nt_conns = Map.empty, nt_next = 0, nt_calls = 0 \<rparr>,
     cw_dirs = (\<lambda>_. sample_dir), cw_files = Map.empty \<rparr>"

lemma sample_cp_runs:
  "fst (fst (cli_main sample_cli_env \<lparr> cli_config = None, cli_command = Cp ''/a/b'' ''/c/d'' \<rparr> sample_cli_world)) = SUCCESS"
  by code_simp

lemma sample_connected: "connected_to sample_network (cl_client sample_cli_env)" "clock_ok (ne_server sample_network n)"
    "db_inv (cs_db (nt_server (cw_world sample_cli_world)))"
  by (simp_all add: connected_to_def sample_cli_env_def sample_network_env_def sample_network_def sample_env_def clock_ok_def fits_i64_def
      sample_cli_world_def sample_stored_inv)

theorem commands_act_on_files_witness:
  "\<exists>f st'. snd (cli_main sample_cli_env \<lparr> cli_config = None, cli_command = Cp ''/a/b'' ''/c/d'' \<rparr> sample_cli_world) = st' \<and>
     copies ''/a/b'' ''/c/d'' f (stored sample_stored_db) (net_files (cw_world st'))"
proof -
  obtain code out err st' where run: "cli_main sample_cli_env \<lparr> cli_config = None, cli_command = Cp ''/a/b'' ''/c/d'' \<rparr> sample_cli_world =
      ((code, out, err), st')" by (metis surj_pair)
  then have "code = SUCCESS" using sample_cp_runs by simp
  moreover have "net_files (cw_world sample_cli_world) = stored sample_stored_db" by (simp add: sample_cli_world_def)
  ultimately show ?thesis
    using commands_act_on_files [OF sample_connected _ run] run by auto
qed

end
