(* ===== verification/Spec2Isabelle.thy ===== *)
theory Spec2Isabelle
  imports System_Properties
begin

text \<open>
  A verification of fs0, a distributed file store written in Rust (the workspace under \<^verbatim>\<open>crates/\<close>).

  \<^bold>\<open>The program.\<close> A central server keeps the names of directories and files in an SQLite database, with the bundles that
  each file consists of, the volumes that have a replica of each bundle, the leases of updates in progress and a log of
  changes. Storage servers hold volumes: directories with data files of 4 GiB and a database that says where each chunk
  lies. A client uploads a file by taking a lease from central, cutting the file into chunks of 1 MiB and bundles of 128
  MiB, sending compressed chunks to a storage, committing the bundles there and then the update at central; it downloads
  a file by asking central for a plan, listing the chunks of each bundle at a storage and fetching them. All messages
  travel as frames over streams.

  \<^bold>\<open>Conventions.\<close> \<^verbatim>\<open>Fs0_Prelude\<close> has the machine integers (words, with the checked and saturating operations of the
  standard library written out), results as sums with the error on the left, computations with state and error
  (\<open>('s, 'e, 'a) st\<close>, \<open>st_bind\<close> and the collection \<open>st_simps\<close>), strings, and hash maps as association lists behind the locale
  \<open>hash_map\<close>. The locale \<open>step_order\<close> gives, for a reflexive and transitive relation on states, the rules by which a
  composed operation keeps it; it is interpreted for what transactions, handlers, volumes and storages keep. A table
  of SQLite is a list of rows in the order of their keys; constraints, cascades and the numbers of new rows are written
  out in \<^verbatim>\<open>Sql_Base\<close> and \<^verbatim>\<open>Central_Schema\<close>. What lies outside is an argument: BLAKE3, zstd, postcard, TOML and iroh by
  records of functions, clocks, system calls and the network by environments that give their outcome for each call.
  What is relied on of them is named (\<open>blake3_ok\<close>, \<open>zstd_ok\<close>, \<open>codec_ok\<close>, \<open>io_fair\<close>, \<open>disk_works\<close>). Nowhere is a hash taken to
  have no collisions at all; the download of a file relies on there being none between the pieces of the file and what
  the storages hand out (\<open>hash_tells\<close>), and on the reads of its upload being full (\<open>full_reads\<close>).

  \<^bold>\<open>Core\<close> (\<^verbatim>\<open>fs0-core\<close>, \<^verbatim>\<open>fs0-config\<close>). \<^verbatim>\<open>Fs0_Core\<close>: constants, hash identifiers with the order of SQLite, errors, paths;
  a path splits exactly when it is printed from valid components. \<^verbatim>\<open>Fs0_Protocol\<close>: every message. \<^verbatim>\<open>Fs0_Config\<close>: the
  configurations, their loaders and compression. \<^verbatim>\<open>Config_Toml\<close>: how they are read from a TOML document, with the defaults.

  \<^bold>\<open>Central server\<close> (\<^verbatim>\<open>fs0-central\<close>). \<^verbatim>\<open>Central_Schema\<close>, \<^verbatim>\<open>Dir_Cache\<close>, \<^verbatim>\<open>Central_Dir\<close>, \<^verbatim>\<open>Central_File\<close>, \<^verbatim>\<open>Central_Bundle\<close>,
  \<^verbatim>\<open>Central_Lease\<close> and \<^verbatim>\<open>Central_Event\<close> model \<^verbatim>\<open>db/*.rs\<close> with one definition for each method and statement;
  \<^verbatim>\<open>Central_Server\<close> and \<^verbatim>\<open>Central_Update\<close> model the registry and the handlers of \<^verbatim>\<open>server.rs\<close>, \<^verbatim>\<open>request_handlers.rs\<close> and
  \<^verbatim>\<open>request_handlers/*.rs\<close>. \<^verbatim>\<open>Central_Tx\<close> states what each transaction does to the abstract view, a map from paths to files
  with their content; \<^verbatim>\<open>Central_Safety\<close> that the invariant of the database survives every transaction and every
  rollback, with the cache, which is no part of a transaction; \<^verbatim>\<open>Central_Reach\<close> is the server as a step relation over its
  connections, in which the remote call in the middle of \<open>begin_update\<close> is a point where others run, and a restart on the
  database that is there a step like the others. The locale
  \<open>file_store\<close> is the contract of the file tables that copying and deleting are proved from. \<^verbatim>\<open>Volume_Usage\<close> relates the fill of
  a volume in binary64 to the exact fraction and says which volumes qualify for an update. \<^verbatim>\<open>Central_Properties\<close> has the
  properties.

  \<^bold>\<open>Storage server\<close> (\<^verbatim>\<open>fs0-volume\<close>, \<^verbatim>\<open>fs0-storage\<close>). \<^verbatim>\<open>Volume_Db\<close>, \<^verbatim>\<open>Data_Files\<close> and \<^verbatim>\<open>Volume\<close> model the database of a volume,
  the cache of open data files with the loops over partial reads and writes, and the volume; \<^verbatim>\<open>Storage_Server\<close> the
  requests, leases, the connection to central and the reporter of changes. \<^verbatim>\<open>Volume_Safety\<close> is a volume as a step
  relation in which puts overlap, fail, are cut off and restarts happen; \<^verbatim>\<open>Chunk_Store\<close> has the contract \<open>chunk_store\<close>
  that the volume satisfies; \<^verbatim>\<open>Storage_Safety\<close> what every request keeps; \<^verbatim>\<open>Storage_System\<close> is the running server, with overlapping uploads,
  its task for central, its watcher and its periodic tasks, as a step relation; \<^verbatim>\<open>Storage_Properties\<close> the properties.

  \<^bold>\<open>Client\<close> (\<^verbatim>\<open>fs0-client\<close>, \<^verbatim>\<open>fs0-transport\<close>, \<^verbatim>\<open>fs0-cli\<close>). \<^verbatim>\<open>Transport\<close>: frames, remote calls, retries. \<^verbatim>\<open>Client_Session\<close>: the
  sessions with central and the storages and the two chunk jobs. \<^verbatim>\<open>Request_Scheduler\<close>: the scheduler as a step relation
  on a multiset of tasks. \<^verbatim>\<open>Client_Transfer\<close>: uploads and downloads with the state they share with their callbacks.
  \<^verbatim>\<open>Client_Safety\<close>: how transfers end and that a download gives back what an upload has cut. \<^verbatim>\<open>Client_Central\<close> and
  \<^verbatim>\<open>Client_Storage\<close> put the client together with the models of the two servers; the former has what each step of central
  changes and announces, and the list of storages of a client that listens, with events handled in the order they are sent. \<^verbatim>\<open>Fs0_Cli\<close>: sizes, creating a volume and
  uploading a directory. \<^verbatim>\<open>Client_Properties\<close> has the properties.

  \<^bold>\<open>The parts together.\<close> \<^verbatim>\<open>Message_Types\<close> pairs requests with responses and shows that handlers answer in kind.
  \<^verbatim>\<open>Connection_Accept\<close> is the accepting side of a connection as a step relation over the tasks of its streams.
  \<^verbatim>\<open>Transport_Endpoint\<close> says which endpoint is asked of iroh for which options, \<^verbatim>\<open>Server_Start\<close> how central with its relay,
  a storage and a client start and how central serves a control connection to its end. \<^verbatim>\<open>Cli_Commands\<close> has the commands of
  the program \<^verbatim>\<open>fs0\<close>, their lines of output and the exit code; \<^verbatim>\<open>Cli_Central\<close> runs them against the central server, over a
  network that refuses and loses connections, requests and answers, and shows what they do to its files. \<^verbatim>\<open>System_Properties\<close> has the properties.

  \<^bold>\<open>Bounds and termination.\<close> Integers keep their width: sums of sizes, offsets and identifiers are words with checked
  operations where the code checks, and the conversion to the 63 bits of SQLite is explicit. Loops over files, frames, attempts
  and batches are recursive with a measure. Only the walk from a directory up to the root (\<open>climb\<close>) has fuel, as many steps as
  there are directories, since the code would not end on a cycle of parents; in a state with the invariant it is enough.
  The step relations have no bound; that the scheduler finishes is proved with a measure on its work.

  \<^bold>\<open>Not modelled.\<close> What the crates do behind their interfaces: endpoints, connections and certificates (iroh), the relay
  (iroh-relay), TOML (toml), the arguments of the command line (clap), whose parsed values are the input of \<^verbatim>\<open>Cli_Commands\<close>.
  Logging, progress and other lines on standard error, opening SQLite files with their pragmas, poisoned locks, the
  waiting and spawning of tasks, and signals beyond that one has arrived. Locks are modelled by what runs under them as
  one step; that they can be taken in different orders is not. Jobs of a failed transfer that run on in the background
  are left out, as is what a failed download leaves in the local file.

  The theorem of this theory is about the paths that all parts share.
\<close>

section \<open>Paths\<close>

text \<open>C39: a path splits into components exactly when it is the printed form of valid component names.\<close>

theorem split_components_exact:
  "split_fs0_path_components p = Inr cs \<longleftrightarrow> list_all valid_component cs \<and> p = path_of cs"
  by (simp add: split_components_iff list_all_iff)

end
